(* ===== verification/Lima_Prelude.thy ===== *)
theory Lima_Prelude
  imports Main "HOL-Library.Word" "HOL-Library.State_Monad"
begin

text \<open>
  Shared vocabulary of the development: the machine integers of the driver, the error
  numbers of the kernel, the fact collections the component proofs are driven by, and the
  generic lemmas on words, lists and the state monad that several components use.

  Conventions. A C \<open>int\<close> that carries a return code is an \<open>int\<close> (\<open>0\<close>, or minus an error
  number). A C function that returns a pointer or an \<open>ERR_PTR\<close> returns \<open>int + 'a\<close>: \<open>Inl\<close> of
  the (negative) code or \<open>Inr\<close> of the object. A computation that may fail to come back (an
  endless loop, or a kernel oops on a null pointer) returns an \<open>option\<close>: \<open>None\<close> is "it does
  not return". Registers, addresses and page-table entries are 32-bit words.
\<close>

unbundle bit_operations_syntax

type_synonym u32 = "32 word"
type_synonym u64 = "64 word"
type_synonym s64 = "64 word"

named_theorems regs \<open>register offsets, register bits and other header constants\<close>
named_theorems hw_simps \<open>symbolic execution of register accesses\<close>
named_theorems inv_intros \<open>an operation keeps its component's invariant\<close>

section \<open>Error numbers\<close>

text \<open>The Linux error numbers the driver returns (\<open>include/uapi/asm-generic/errno*.h\<close>).\<close>

abbreviation ENOENT :: int where "ENOENT \<equiv> 2"
abbreviation EIO :: int where "EIO \<equiv> 5"
abbreviation ENOMEM :: int where "ENOMEM \<equiv> 12"
abbreviation EFAULT :: int where "EFAULT \<equiv> 14"
abbreviation EBUSY :: int where "EBUSY \<equiv> 16"
abbreviation ENOSPC :: int where "ENOSPC \<equiv> 28"
abbreviation ENODEV :: int where "ENODEV \<equiv> 19"
abbreviation EINVAL :: int where "EINVAL \<equiv> 22"
abbreviation ETIME :: int where "ETIME \<equiv> 62"
abbreviation ETIMEDOUT :: int where "ETIMEDOUT \<equiv> 110"
abbreviation ERESTARTSYS :: int where "ERESTARTSYS \<equiv> 512"
abbreviation EPROBE_DEFER :: int where "EPROBE_DEFER \<equiv> 517"

section \<open>Words\<close>

text \<open>The kernel's \<open>BIT(n)\<close>.\<close>

definition BIT :: "nat \<Rightarrow> u32" where
  [regs]: "BIT n = push_bit n 1"

lemma bit_BIT_iff: "bit (BIT n) m \<longleftrightarrow> m = n \<and> n < 32"
  by (auto simp: BIT_def bit_simps possible_bit_def)

lemma and_BIT_eq_0_iff: "w AND BIT n = 0 \<longleftrightarrow> \<not> bit w n" if "n < 32" for w :: u32
proof
  assume "w AND BIT n = 0"
  then have "bit (w AND BIT n) n = bit (0 :: u32) n" by simp
  then show "\<not> bit w n" using that by (simp add: bit_and_iff bit_BIT_iff)
next
  assume "\<not> bit w n"
  then show "w AND BIT n = 0"
    by (intro bit_word_eqI) (auto simp: bit_and_iff bit_BIT_iff)
qed

lemma unat_le_unat_of_word_le: "a \<le> b \<Longrightarrow> unat a \<le> unat (b :: 'a :: len word)"
  by (simp add: word_le_nat_alt)

lemma unat_lt_32: "unat w < 4294967296" for w :: u32
  using unsigned_less [of w, where 'a = nat] by simp

lemma unat_ucast_64 [simp]: "unat (ucast w :: u64) = unat w" for w :: u32
  by (simp add: unsigned_ucast_eq take_bit_nat_eq_self order_less_trans [OF unat_lt_32])

lemma succ_pos: "c \<noteq> 0xFFFFFFFF \<Longrightarrow> 0 < c + 1" for c :: u32
proof -
  assume c: "c \<noteq> 0xFFFFFFFF"
  have "c + 1 \<noteq> 0"
  proof
    assume "c + 1 = 0"
    then have "c = - 1" by (simp add: eq_neg_iff_add_eq_0)
    with c show False by simp
  qed
  then show ?thesis by (simp add: word_gt_0)
qed

text \<open>A word below half its range is not negative when read as signed.\<close>

lemma sint_small:
  assumes "unat w < 2 ^ (LENGTH('a) - 1)"
  shows "sint (w :: 'a :: len word) = int (unat w)"
proof -
  have "int (unat w) < int (2 ^ (LENGTH('a) - 1))"
    using assms by (simp only: of_nat_less_iff)
  then have "uint w < 2 ^ (LENGTH('a) - 1)" by simp
  moreover have "- (2 ^ (LENGTH('a) - 1)) \<le> uint w"
    by (rule order_trans [of _ 0]) simp_all
  ultimately show ?thesis
    by (simp add: sint_uint signed_take_bit_int_eq_self)
qed

section \<open>Lists\<close>

lemma nth_list_update_If: "i < length xs \<Longrightarrow> xs[i := v] ! j = (if i = j then v else xs ! j)"
  by simp

lemma distinct_singleton: "distinct xs \<Longrightarrow> set xs = {x} \<Longrightarrow> xs = [x]"
proof (cases xs)
  case (Cons y ys)
  assume "distinct xs" "set xs = {x}"
  with Cons show ?thesis by (cases ys) auto
qed simp

lemma sorted_wrt_remove1: "sorted_wrt R xs \<Longrightarrow> sorted_wrt R (remove1 x xs)"
  by (induction xs) (auto dest: notin_set_remove1)

lemma sorted_wrt_irrefl_distinct: "sorted_wrt R xs \<Longrightarrow> \<forall>x \<in> set xs. \<not> R x x \<Longrightarrow> distinct xs"
  by (induction xs) auto

lemma find_snoc: "List.find P xs = None \<Longrightarrow> P x \<Longrightarrow> List.find P (xs @ [x]) = Some x"
  by (induction xs) (auto split: if_splits)

lemma distinct_map_filterI: "distinct (map f xs) \<Longrightarrow> distinct (map f (filter P xs))"
  by (induction xs) auto

section \<open>The state monad\<close>

text \<open>
  Stateful code is written in the state monad of the library. \<open>gets\<close> reads, \<open>modify\<close>
  writes, \<open>whenM\<close> is an \<open>if\<close> without \<open>else\<close>, \<open>forM\<close> is a \<open>for\<close> loop over a list.
\<close>

definition gets :: "('s \<Rightarrow> 'a) \<Rightarrow> ('s, 'a) state" where
  "gets f = State (\<lambda>s. (f s, s))"

definition modify :: "('s \<Rightarrow> 's) \<Rightarrow> ('s, unit) state" where
  "modify f = State (\<lambda>s. ((), f s))"

abbreviation returnM :: "'a \<Rightarrow> ('s, 'a) state" where
  "returnM \<equiv> State_Monad.return"

definition whenM :: "bool \<Rightarrow> ('s, unit) state \<Rightarrow> ('s, unit) state" where
  "whenM b m = (if b then m else returnM ())"

fun forM :: "('a \<Rightarrow> ('s, unit) state) \<Rightarrow> 'a list \<Rightarrow> ('s, unit) state" where
  "forM f [] = returnM ()"
| "forM f (x # xs) = do { f x; forM f xs }"

abbreviation exec :: "('s, 'a) state \<Rightarrow> 's \<Rightarrow> 's" where
  "exec m s \<equiv> snd (run_state m s)"

abbreviation result :: "('s, 'a) state \<Rightarrow> 's \<Rightarrow> 'a" where
  "result m s \<equiv> fst (run_state m s)"

lemma run_gets [simp]: "run_state (gets f) s = (f s, s)"
  by (simp add: gets_def)

lemma run_modify [simp]: "run_state (modify f) s = ((), f s)"
  by (simp add: modify_def)

lemma run_whenM [simp]: "run_state (whenM b m) s = (if b then run_state m s else ((), s))"
  by (simp add: whenM_def)

declare run_state_bind [simp del]

lemma run_bind [simp]: "run_state (m \<bind> f) s = run_state (f (result m s)) (exec m s)"
  by (simp add: run_state_bind case_prod_beta)

lemma exec_forM_fold: "exec (forM f xs) s = fold (\<lambda>x s. exec (f x) s) xs s"
  by (induction xs arbitrary: s) simp_all

text \<open>
  A predicate that every iteration of a loop keeps is kept by the loop.
\<close>

lemma forM_preserves:
  assumes "\<And>x s. x \<in> set xs \<Longrightarrow> P s \<Longrightarrow> P (exec (f x) s)" and "P s"
  shows "P (exec (forM f xs) s)"
  using assms
  by (induction xs arbitrary: s) simp_all

text \<open>
  The same loop for operations that may not return: \<open>each f xs s\<close> threads the state through
  \<open>f x\<close> for the elements of \<open>xs\<close> and stops at the first that does not return.
\<close>

fun each :: "('x \<Rightarrow> 's \<Rightarrow> 's option) \<Rightarrow> 'x list \<Rightarrow> 's \<Rightarrow> 's option" where
  "each f [] s = Some s"
| "each f (x # xs) s = do { s \<leftarrow> f x s; each f xs s }"

lemma each_append: "each f (xs @ ys) s = do { s \<leftarrow> each f xs s; each f ys s }"
  by (induction xs arbitrary: s) (simp_all split: Option.bind_split)

lemma each_snoc: "each f (xs @ [x]) s = do { s \<leftarrow> each f xs s; f x s }"
proof -
  have "Option.bind (f x t) (each f []) = f x t" for t by (cases "f x t") simp_all
  then show ?thesis by (simp add: each_append)
qed

lemma each_preserves:
  assumes "\<And>x s s'. x \<in> set xs \<Longrightarrow> P s \<Longrightarrow> f x s = Some s' \<Longrightarrow> P s'"
    and "P s" and "each f xs s = Some s'"
  shows "P s'"
  using assms
proof (induction xs arbitrary: s)
  case Nil
  then show ?case by simp
next
  case (Cons x xs)
  from Cons.prems(3) obtain s1 where 1: "f x s = Some s1" "each f xs s1 = Some s'"
    by (auto simp: Option.bind_eq_Some_conv)
  then show ?case
    using Cons.IH [of s1] Cons.prems(1,2) by (metis list.set_intros)
qed

lemma forM_append: "forM f (xs @ ys) = do { forM f xs; forM f ys }"
  by (induction xs) simp_all

end
