(* ===== verification/Lima_Kref.thy ===== *)
theory Lima_Kref
  imports Lima_Prelude
begin

text \<open>
  Memory and reference counts. The first part is the kernel's slab allocator as the driver
  sees it: every \<open>kzalloc\<close>, \<open>kcalloc\<close>, \<open>krealloc\<close> and \<open>kmem_cache_zalloc\<close> is one
  allocation that succeeds or fails, and the set of live blocks is recorded, so that a leak,
  a double free or a use after free is visible in the state. Later components extend the
  record.

  The second part is the contract of a reference-counted object store (\<open>struct kref\<close>), a
  locale: taking a reference adds one, dropping it subtracts one, and an object whose count
  is zero cannot be touched. Fences, address spaces, contexts and buffer objects are its
  interpretations; the lemmas on loops over references are proved once, here.
\<close>

section \<open>The allocator\<close>

text \<open>
  \<open>km_ok n\<close> tells whether the \<open>n\<close>-th allocation succeeds (the environment decides), \<open>km_n\<close>
  counts the allocations made, \<open>km_live\<close> is the set of blocks not yet freed. Blocks are
  named by the number of their allocation, so a block is never reused; where the code's
  behaviour depends on the reuse of an address, the component says so.
\<close>

record kmem =
  km_ok :: "nat \<Rightarrow> bool"
  km_n :: nat
  km_live :: "nat set"
  km_time :: u64

definition kzalloc :: "'a kmem_scheme \<Rightarrow> nat option \<times> 'a kmem_scheme" where
  "kzalloc s =
     (if km_ok s (km_n s)
      then (Some (km_n s), s\<lparr>km_live := insert (km_n s) (km_live s), km_n := Suc (km_n s)\<rparr>)
      else (None, s\<lparr>km_n := Suc (km_n s)\<rparr>))"

text \<open>\<open>kfree(NULL)\<close> does nothing; freeing a block that is not live is undefined.\<close>

definition kfree :: "nat option \<Rightarrow> 'a kmem_scheme \<Rightarrow> 'a kmem_scheme option" where
  "kfree p s = (case p of
     None \<Rightarrow> Some s
   | Some b \<Rightarrow> if b \<in> km_live s then Some (s\<lparr>km_live := km_live s - {b}\<rparr>) else None)"

text \<open>Every live block has been handed out: the next allocation is fresh.\<close>

definition kmem_wf :: "'a kmem_scheme \<Rightarrow> bool" where
  "kmem_wf s \<longleftrightarrow> (\<forall>b \<in> km_live s. b < km_n s)"

lemma kzalloc_fresh: "kmem_wf s \<Longrightarrow> km_n s \<notin> km_live s"
  by (auto simp: kmem_wf_def)

lemma kzalloc_wf [inv_intros]: "kmem_wf s \<Longrightarrow> kmem_wf (snd (kzalloc s))"
  by (auto simp: kmem_wf_def kzalloc_def less_Suc_eq)

lemma kfree_wf [inv_intros]: "kmem_wf s \<Longrightarrow> kfree p s = Some s' \<Longrightarrow> kmem_wf s'"
  by (auto simp: kmem_wf_def kfree_def split: option.splits if_splits)

text \<open>A block that is allocated and freed leaves the live set as it was.\<close>

lemma kzalloc_kfree_live:
  assumes "kmem_wf s" and "kzalloc s = (Some b, s1)"
  shows "\<exists>s2. kfree (Some b) s1 = Some s2 \<and> km_live s2 = km_live s"
  using assms kzalloc_fresh [of s] by (auto simp: kzalloc_def kfree_def split: if_splits)

section \<open>Counting occurrences\<close>

lemma count_list_pos: "x \<in> set xs \<longleftrightarrow> 0 < count_list xs x"
  by (metis count_list_0_iff neq0_conv)

section \<open>The contract of a reference-counted store\<close>

locale kref_store =
  fixes refs :: "'s \<Rightarrow> nat \<Rightarrow> nat"
    and kget :: "nat \<Rightarrow> 's \<Rightarrow> 's option"
    and kput :: "nat \<Rightarrow> 's \<Rightarrow> 's option"
    and kwf :: "'s \<Rightarrow> bool"
  assumes kget_live: "kwf s \<Longrightarrow> 0 < refs s x \<Longrightarrow>
      \<exists>s'. kget x s = Some s' \<and> kwf s' \<and> refs s' = (refs s)(x := Suc (refs s x))"
    and kput_live: "kwf s \<Longrightarrow> 0 < refs s x \<Longrightarrow>
      \<exists>s'. kput x s = Some s' \<and> kwf s' \<and> refs s' = (refs s)(x := refs s x - 1)"
    and kget_dead: "kwf s \<Longrightarrow> refs s x = 0 \<Longrightarrow> kget x s = None"
    and kput_dead: "kwf s \<Longrightarrow> refs s x = 0 \<Longrightarrow> kput x s = None"
begin

lemma get_all:
  assumes "kwf s" and "\<forall>x \<in> set xs. 0 < refs s x"
  shows "\<exists>s'. each kget xs s = Some s' \<and> kwf s' \<and> refs s' = (\<lambda>x. refs s x + count_list xs x)"
  using assms
proof (induction xs arbitrary: s)
  case Nil
  then show ?case by simp
next
  case (Cons a xs)
  then obtain s1 where s1: "kget a s = Some s1" "kwf s1" "refs s1 = (refs s)(a := Suc (refs s a))"
    using kget_live [of s a] by auto
  from s1 Cons.prems have "\<forall>x \<in> set xs. 0 < refs s1 x" by simp
  with Cons.IH [OF s1(2)] obtain s2 where "each kget xs s1 = Some s2" "kwf s2"
    "refs s2 = (\<lambda>x. refs s1 x + count_list xs x)" by auto
  with s1 show ?case by (auto simp: fun_eq_iff)
qed

lemma put_all:
  assumes "kwf s" and "\<forall>x. count_list xs x \<le> refs s x"
  shows "\<exists>s'. each kput xs s = Some s' \<and> kwf s' \<and> refs s' = (\<lambda>x. refs s x - count_list xs x)"
  using assms
proof (induction xs arbitrary: s)
  case Nil
  then show ?case by simp
next
  case (Cons a xs)
  from Cons.prems(2) have "0 < refs s a" by (metis count_list.simps(2) gr0I le_zero_eq nat.distinct(1) add_is_0 One_nat_def)
  with Cons.prems obtain s1 where s1: "kput a s = Some s1" "kwf s1"
    "refs s1 = (refs s)(a := refs s a - 1)"
    using kput_live [of s a] by auto
  from s1 Cons.prems(2) have "\<forall>x. count_list xs x \<le> refs s1 x"
    by (auto dest: spec [of _ a] split: if_splits)
  with Cons.IH [OF s1(2)] obtain s2 where "each kput xs s1 = Some s2" "kwf s2"
    "refs s2 = (\<lambda>x. refs s1 x - count_list xs x)" by auto
  with s1 show ?case by (auto simp: fun_eq_iff)
qed

text \<open>References taken and dropped again, in whatever order, cancel.\<close>

lemma get_put_all:
  assumes "kwf s" and "\<forall>x \<in> set xs. 0 < refs s x" and "each kget xs s = Some s1"
    and "\<forall>x. count_list ys x = count_list xs x"
  shows "\<exists>s2. each kput ys s1 = Some s2 \<and> kwf s2 \<and> refs s2 = refs s"
proof -
  from get_all [OF assms(1,2)] assms(3)
  have s1: "kwf s1" "refs s1 = (\<lambda>x. refs s x + count_list xs x)" by auto
  then obtain s2 where "each kput ys s1 = Some s2" "kwf s2"
    "refs s2 = (\<lambda>x. refs s1 x - count_list ys x)"
    using put_all [of s1 ys] assms(4) by auto
  with s1 assms(4) show ?thesis by auto
qed

end

end
