(* ===== verification/Lima_Fence.thy ===== *)
theory Lima_Fence
  imports Lima_Kref
begin

text \<open>
  The mini \<open>dma_fence\<close> of \<open>lima_compat.c\<close> and \<open>lima_compat_fence.h\<close>: a reference-counted
  completion object whose status is 0 (unsignaled), 1 (signaled) or negative (signaled with an
  error). A fence pointer is the block the slab allocator returned. Sleeping on the wait
  queue is the kernel's: \<open>dma_fence_wait_timeout\<close> takes it as a parameter.
\<close>

record dma_fence =
  f_refcount :: nat
  f_status :: int
  f_name :: string
  f_timestamp_ns :: u64

record fence_st = kmem +
  fs_fences :: "nat \<Rightarrow> dma_fence option"

section \<open>Operations\<close>

text \<open>
  \<open>lima_fence_create\<close>: \<open>kmem_cache_zalloc\<close>, then the initialisation of every field; a
  failed allocation is \<open>NULL\<close>.
\<close>

definition lima_fence_create ::
    "string \<Rightarrow> 'a fence_st_scheme \<Rightarrow> nat option \<times> 'a fence_st_scheme" where
  "lima_fence_create name s = (case kzalloc s of
     (None, s) \<Rightarrow> (None, s)
   | (Some f, s) \<Rightarrow> (Some f, s\<lparr>fs_fences := (fs_fences s)(f \<mapsto>
       \<lparr>f_refcount = 1, f_status = 0, f_name = name, f_timestamp_ns = 0\<rparr>)\<rparr>))"

text \<open>\<open>lima_fence_release\<close>, the \<open>kref\<close> release function: the block goes back to the slab.\<close>

definition lima_fence_release :: "nat \<Rightarrow> 'a fence_st_scheme \<Rightarrow> 'a fence_st_scheme option" where
  "lima_fence_release f s = kfree (Some f) (s\<lparr>fs_fences := (fs_fences s)(f := None)\<rparr>)"

definition dma_fence_get :: "nat \<Rightarrow> 'a fence_st_scheme \<Rightarrow> 'a fence_st_scheme option" where
  "dma_fence_get f s = do {
     x \<leftarrow> fs_fences s f;
     Some (s\<lparr>fs_fences := (fs_fences s)(f \<mapsto> x\<lparr>f_refcount := Suc (f_refcount x)\<rparr>)\<rparr>)
   }"

text \<open>\<open>kref_put\<close> on a fence: the last reference releases it.\<close>

definition fence_kref_put :: "nat \<Rightarrow> 'a fence_st_scheme \<Rightarrow> 'a fence_st_scheme option" where
  "fence_kref_put f s = do {
     x \<leftarrow> fs_fences s f;
     if f_refcount x = 1 then lima_fence_release f s
     else Some (s\<lparr>fs_fences := (fs_fences s)(f \<mapsto> x\<lparr>f_refcount := f_refcount x - 1\<rparr>)\<rparr>)
   }"

definition dma_fence_put :: "nat option \<Rightarrow> 'a fence_st_scheme \<Rightarrow> 'a fence_st_scheme option" where
  "dma_fence_put p s = (case p of None \<Rightarrow> Some s | Some f \<Rightarrow> fence_kref_put f s)"

text \<open>
  \<open>lima_fence_do_signal\<close>: the compare-and-exchange on the status, from 0 only.
\<close>

definition lima_fence_do_signal ::
    "nat \<Rightarrow> int \<Rightarrow> 'a fence_st_scheme \<Rightarrow> (int \<times> 'a fence_st_scheme) option" where
  "lima_fence_do_signal f v s = do {
     x \<leftarrow> fs_fences s f;
     if f_status x \<noteq> 0 then Some (- EBUSY, s)
     else Some (0, s\<lparr>fs_fences := (fs_fences s)(f \<mapsto>
            x\<lparr>f_status := v, f_timestamp_ns := km_time s\<rparr>)\<rparr>)
   }"

definition dma_fence_signal ::
    "nat \<Rightarrow> 'a fence_st_scheme \<Rightarrow> (int \<times> 'a fence_st_scheme) option" where
  "dma_fence_signal f s = lima_fence_do_signal f 1 s"

definition dma_fence_signal_error ::
    "nat \<Rightarrow> int \<Rightarrow> 'a fence_st_scheme \<Rightarrow> (int \<times> 'a fence_st_scheme) option" where
  "dma_fence_signal_error f err s =
     lima_fence_do_signal f (if err \<ge> 0 then - EIO else err) s"

definition dma_fence_is_signaled :: "nat \<Rightarrow> 'a fence_st_scheme \<Rightarrow> bool option" where
  "dma_fence_is_signaled f s = do { x \<leftarrow> fs_fences s f; Some (f_status x \<noteq> 0) }"

text \<open>
  The kernel's sleep, \<open>wait_event_timeout\<close> or \<open>wait_event_interruptible_timeout\<close> on the
  fence's wait queue: given whether it is interruptible, the fence and the timeout, it returns
  a value and the state in which the waiter runs again.
\<close>

type_synonym 's wait_event = "bool \<Rightarrow> nat \<Rightarrow> int \<Rightarrow> 's \<Rightarrow> int \<times> 's"

definition dma_fence_wait_timeout ::
    "'a fence_st_scheme wait_event \<Rightarrow> nat \<Rightarrow> bool \<Rightarrow> int \<Rightarrow> 'a fence_st_scheme
      \<Rightarrow> (int \<times> 'a fence_st_scheme) option" where
  "dma_fence_wait_timeout W f intr timeout s = do {
     x \<leftarrow> fs_fences s f;
     if f_status x \<noteq> 0 then Some (if f_status x < 0 then f_status x else timeout, s)
     else do {
       let (r, s') = W intr f timeout s;
       if r < 0 then Some (r, s')
       else do {
         y \<leftarrow> fs_fences s' f;
         if r = 0 \<and> f_status y = 0 then Some (0, s')
         else if f_status y < 0 then Some (f_status y, s')
         else Some (if r \<noteq> 0 then r else 1, s')
       }
     }
   }"

text \<open>\<open>MAX_SCHEDULE_TIMEOUT\<close> is \<open>LONG_MAX\<close>, on the 32-bit target \<open>2^31 - 1\<close>.\<close>

definition MAX_SCHEDULE_TIMEOUT :: int where "MAX_SCHEDULE_TIMEOUT = 2 ^ 31 - 1"

definition dma_fence_wait ::
    "'a fence_st_scheme wait_event \<Rightarrow> nat \<Rightarrow> bool \<Rightarrow> 'a fence_st_scheme
      \<Rightarrow> (int \<times> 'a fence_st_scheme) option" where
  "dma_fence_wait W f intr s = dma_fence_wait_timeout W f intr MAX_SCHEDULE_TIMEOUT s"

section \<open>Reference counts\<close>

definition frefs :: "'a fence_st_scheme \<Rightarrow> nat \<Rightarrow> nat" where
  "frefs s f = (case fs_fences s f of None \<Rightarrow> 0 | Some x \<Rightarrow> f_refcount x)"

definition fence_wf :: "'a fence_st_scheme \<Rightarrow> bool" where
  "fence_wf s \<longleftrightarrow> kmem_wf s \<and>
     (\<forall>f x. fs_fences s f = Some x \<longrightarrow> 0 < f_refcount x \<and> f \<in> km_live s)"

lemma frefs_pos_iff: "fence_wf s \<Longrightarrow> 0 < frefs s f \<longleftrightarrow> (\<exists>x. fs_fences s f = Some x)"
  by (auto simp: fence_wf_def frefs_def split: option.splits)

lemma frefs_0_iff: "fence_wf s \<Longrightarrow> frefs s f = 0 \<longleftrightarrow> fs_fences s f = None"
  using frefs_pos_iff [of s f] by (cases "fs_fences s f") auto

lemma fence_get_live:
  assumes "fence_wf s" and "0 < frefs s f"
  shows "\<exists>s'. dma_fence_get f s = Some s' \<and> fence_wf s' \<and> frefs s' = (frefs s)(f := Suc (frefs s f))"
proof -
  from assms obtain x where "fs_fences s f = Some x" by (auto simp: frefs_pos_iff)
  with assms(1) show ?thesis
    by (auto simp: dma_fence_get_def fence_wf_def kmem_wf_def frefs_def fun_eq_iff)
qed

lemma fence_put_live:
  assumes "fence_wf s" and "0 < frefs s f"
  shows "\<exists>s'. fence_kref_put f s = Some s' \<and> fence_wf s' \<and> frefs s' = (frefs s)(f := frefs s f - 1)"
proof -
  from assms obtain x where x: "fs_fences s f = Some x" "0 < f_refcount x" "f \<in> km_live s"
    by (auto simp: frefs_pos_iff fence_wf_def)
  then have "f_refcount x = 1 \<or> 0 < f_refcount x - 1" by arith
  with x assms(1) show ?thesis
    by (auto simp: fence_kref_put_def lima_fence_release_def kfree_def fence_wf_def kmem_wf_def
        frefs_def fun_eq_iff)
qed

interpretation fence: kref_store frefs dma_fence_get fence_kref_put fence_wf
proof
  fix s :: "'a fence_st_scheme" and x
  assume "fence_wf s" and "frefs s x = 0"
  then have "fs_fences s x = None" by (simp add: frefs_0_iff)
  then show "dma_fence_get x s = None" and "fence_kref_put x s = None"
    by (simp_all add: dma_fence_get_def fence_kref_put_def)
qed (rule fence_get_live fence_put_live; assumption)+

text \<open>Creating a fence: one reference, held by the caller, on a block nobody had.\<close>

lemma fence_create_refs:
  assumes "fence_wf s" and "lima_fence_create name s = (Some f, s')"
  shows "fence_wf s' \<and> frefs s f = 0 \<and> frefs s' = (frefs s)(f := 1)"
proof -
  from assms have f: "f = km_n s" by (auto simp: lima_fence_create_def kzalloc_def split: if_splits)
  have "fs_fences s f = None"
    using assms(1) f by (cases "fs_fences s f") (auto simp: fence_wf_def kmem_wf_def)
  with assms f show ?thesis
    by (auto simp: lima_fence_create_def kzalloc_def fence_wf_def kmem_wf_def frefs_def fun_eq_iff
        less_Suc_eq split: if_splits)
qed

lemma fence_create_fail:
  assumes "fence_wf s" and "lima_fence_create name s = (None, s')"
  shows "fence_wf s' \<and> frefs s' = frefs s \<and> km_live s' = km_live s"
  using assms
  by (auto simp: lima_fence_create_def kzalloc_def fence_wf_def kmem_wf_def frefs_def fun_eq_iff
      less_Suc_eq split: if_splits)

section \<open>Signaling\<close>

definition fence_status :: "'a fence_st_scheme \<Rightarrow> nat \<Rightarrow> int" where
  "fence_status s f = (case fs_fences s f of None \<Rightarrow> 0 | Some x \<Rightarrow> f_status x)"

text \<open>
  A signal attempt keeps every count, touches no other fence, and changes the status of its
  fence only from 0.
\<close>

lemma do_signal_frame:
  assumes "lima_fence_do_signal f v s = Some (r, s')"
  shows "frefs s' = frefs s \<and> km_live s' = km_live s \<and> km_n s' = km_n s \<and>
    fence_status s' = (fence_status s)(f := if fence_status s f = 0 then v else fence_status s f)"
  using assms
  by (auto simp: lima_fence_do_signal_def frefs_def fence_status_def fun_eq_iff
      split: Option.bind_splits if_splits)

lemma do_signal_wf [inv_intros]:
  "lima_fence_do_signal f v s = Some (r, s') \<Longrightarrow> fence_wf s \<Longrightarrow> fence_wf s'"
  by (auto simp: lima_fence_do_signal_def fence_wf_def kmem_wf_def
      split: Option.bind_splits if_splits)

lemma do_signal_returns:
  "fence_wf s \<Longrightarrow> 0 < frefs s f \<Longrightarrow> \<exists>r s'. lima_fence_do_signal f v s = Some (r, s')"
  by (auto simp: frefs_pos_iff lima_fence_do_signal_def)

text \<open>
  The attempts that reach one fence, in their order: an \<open>int\<close> is the argument of
  \<open>dma_fence_signal_error\<close>, \<open>None\<close> a plain \<open>dma_fence_signal\<close>.
\<close>

definition signal_attempt ::
    "nat \<Rightarrow> int option \<Rightarrow> 'a fence_st_scheme \<Rightarrow> 'a fence_st_scheme option" where
  "signal_attempt f a s = map_option snd (case a of
      None \<Rightarrow> dma_fence_signal f s | Some e \<Rightarrow> dma_fence_signal_error f e s)"

definition attempt_value :: "int option \<Rightarrow> int" where
  "attempt_value a = (case a of None \<Rightarrow> 1 | Some e \<Rightarrow> if e \<ge> 0 then - EIO else e)"

lemma signal_attempt_Some:
  "signal_attempt f a s = Some s1 \<longleftrightarrow>
     (\<exists>r. lima_fence_do_signal f (attempt_value a) s = Some (r, s1))"
  by (auto simp: signal_attempt_def attempt_value_def dma_fence_signal_def
      dma_fence_signal_error_def split: option.splits)

lemma attempt_value_nonzero: "attempt_value a \<noteq> 0"
  by (auto simp: attempt_value_def split: option.splits)

lemma signal_attempts_settled:
  assumes "each (signal_attempt f) as s = Some s'" and "fence_status s f \<noteq> 0"
  shows "fence_status s' f = fence_status s f"
  using assms
proof (induction "as" arbitrary: s)
  case Nil
  then show ?case by simp
next
  case (Cons a as)
  then obtain r s1 where s1: "lima_fence_do_signal f (attempt_value a) s = Some (r, s1)"
    "each (signal_attempt f) as s1 = Some s'"
    by (auto simp: signal_attempt_Some Option.bind_eq_Some_conv)
  with Cons.prems(2) have "fence_status s1 f = fence_status s f"
    by (auto dest!: do_signal_frame)
  with Cons.IH [OF s1(2)] Cons.prems(2) show ?case by simp
qed

text \<open>Attempts on a live fence come back and leave the counts alone.\<close>

lemma signal_attempts_return:
  assumes "fence_wf s" and "0 < frefs s f"
  shows "\<exists>s'. each (signal_attempt f) as s = Some s' \<and> frefs s' = frefs s"
  using assms
proof (induction "as" arbitrary: s)
  case Nil
  then show ?case by simp
next
  case (Cons a as)
  from do_signal_returns [OF Cons.prems] obtain r s1
    where s1: "lima_fence_do_signal f (attempt_value a) s = Some (r, s1)" by blast
  with Cons.prems do_signal_frame [OF s1] do_signal_wf [OF s1] Cons.IH [of s1]
  have "\<exists>s'. each (signal_attempt f) as s1 = Some s' \<and> frefs s' = frefs s" by simp
  moreover from s1 have "signal_attempt f a s = Some s1" by (auto simp: signal_attempt_Some)
  ultimately show ?case by simp
qed

text \<open>First signal wins: whatever follows it, the status is the one of the first attempt.\<close>

lemma first_signal_wins:
  assumes "each (signal_attempt f) (a # as) s = Some s'" and "fence_status s f = 0"
  shows "fence_status s' f = attempt_value a"
proof -
  from assms obtain r s1 where s1: "lima_fence_do_signal f (attempt_value a) s = Some (r, s1)"
    "each (signal_attempt f) as s1 = Some s'"
    by (auto simp: signal_attempt_Some Option.bind_eq_Some_conv)
  with assms(2) have "fence_status s1 f = attempt_value a"
    by (auto dest!: do_signal_frame)
  with signal_attempts_settled [OF s1(2)] attempt_value_nonzero show ?thesis by simp
qed

section \<open>Blocks that are not fences\<close>

text \<open>
  A live block that no fence occupies; the fence operations leave it so, and freeing it
  leaves the fences alone.
\<close>

definition plain_block :: "nat \<Rightarrow> 'a fence_st_scheme \<Rightarrow> bool" where
  "plain_block b s \<longleftrightarrow> b \<in> km_live s \<and> fs_fences s b = None"

lemma get_plain: "dma_fence_get f s = Some s' \<Longrightarrow> plain_block b s' = plain_block b s"
  by (auto simp: dma_fence_get_def plain_block_def Option.bind_eq_Some_conv split: if_splits)

lemma get_live: "dma_fence_get f s = Some s' \<Longrightarrow> km_live s' = km_live s"
  by (auto simp: dma_fence_get_def Option.bind_eq_Some_conv)

lemma put_plain: "fence_kref_put f s = Some s' \<Longrightarrow> plain_block b s \<Longrightarrow> plain_block b s'"
  by (auto simp: fence_kref_put_def lima_fence_release_def kfree_def plain_block_def
      Option.bind_eq_Some_conv split: if_splits)

lemma put_live: "fence_kref_put f s = Some s' \<Longrightarrow> 1 < frefs s f \<Longrightarrow> km_live s' = km_live s"
  by (auto simp: fence_kref_put_def frefs_def Option.bind_eq_Some_conv split: if_splits)

lemma kfree_plain:
  assumes "fence_wf s" and "plain_block b s"
  shows "\<exists>s'. kfree (Some b) s = Some s' \<and> fence_wf s' \<and> frefs s' = frefs s \<and>
    km_live s' = km_live s - {b} \<and> fs_fences s' = fs_fences s"
  using assms
  by (fastforce simp: kfree_def plain_block_def fence_wf_def kmem_wf_def frefs_def fun_eq_iff)

lemma kzalloc_plain:
  assumes "fence_wf s" and "kzalloc s = (p, s')"
  shows "fence_wf s' \<and> frefs s' = frefs s \<and> fs_fences s' = fs_fences s \<and>
    (case p of None \<Rightarrow> km_live s' = km_live s
     | Some b \<Rightarrow> b \<notin> km_live s \<and> km_live s' = insert b (km_live s) \<and> plain_block b s')"
proof -
  have "fs_fences s (km_n s) = None" and "km_n s \<notin> km_live s"
    using assms(1) by (cases "fs_fences s (km_n s)"; auto simp: fence_wf_def kmem_wf_def)+
  with assms show ?thesis
    by (auto simp: kzalloc_def fence_wf_def kmem_wf_def frefs_def fun_eq_iff plain_block_def
        less_Suc_eq split: if_splits)
qed

lemma each_get_plain:
  "each dma_fence_get fs s = Some s' \<Longrightarrow> plain_block b s' = plain_block b s \<and> km_live s' = km_live s"
proof (induction fs arbitrary: s)
  case Nil
  then show ?case by simp
next
  case (Cons f fs)
  then obtain s1 where "dma_fence_get f s = Some s1" "each dma_fence_get fs s1 = Some s'"
    by (auto simp: Option.bind_eq_Some_conv)
  with Cons.IH [of s1] get_plain [of f s s1 b] get_live [of f s s1] show ?case by simp
qed

lemma each_put_plain:
  "each fence_kref_put fs s = Some s' \<Longrightarrow> plain_block b s \<Longrightarrow> plain_block b s'"
proof (induction fs arbitrary: s)
  case Nil
  then show ?case by simp
next
  case (Cons f fs)
  then obtain s1 where "fence_kref_put f s = Some s1" "each fence_kref_put fs s1 = Some s'"
    by (auto simp: Option.bind_eq_Some_conv)
  with Cons.IH [of s1] Cons.prems(2) put_plain [of f s s1 b] show ?case by simp
qed

lemma each_put_live:
  assumes "fence_wf s" and "each fence_kref_put fs s = Some s'"
    and "\<And>f. f \<in> set fs \<Longrightarrow> count_list fs f < frefs s f"
  shows "km_live s' = km_live s"
  using assms
proof (induction fs arbitrary: s)
  case Nil
  then show ?case by simp
next
  case (Cons f fs)
  from Cons.prems(3) [of f] have f: "1 < frefs s f" by auto
  from Cons.prems(2) obtain s1 where s1: "fence_kref_put f s = Some s1"
    "each fence_kref_put fs s1 = Some s'" by (auto simp: Option.bind_eq_Some_conv)
  with fence_put_live [OF Cons.prems(1), of f] f
  have wf: "fence_wf s1" and refs: "frefs s1 = (frefs s)(f := frefs s f - 1)" by auto
  have "km_live s' = km_live s1"
  proof (rule Cons.IH [OF wf s1(2)])
    fix g assume "g \<in> set fs"
    with Cons.prems(3) [of g] show "count_list fs g < frefs s1 g"
      by (auto simp: refs split: if_splits)
  qed
  with put_live [OF s1(1) f] show ?case by simp
qed

section \<open>Waiting\<close>

text \<open>
  What the kernel documents of the sleep: it returns 0 on a timeout, a positive number of
  remaining jiffies once the condition holds, \<open>-ERESTARTSYS\<close> only when it is interruptible;
  the caller's fence stays alive, as the caller holds a reference; and what other threads do
  meanwhile keeps the store well formed and never takes a signal back.
\<close>

definition wait_contract :: "'a fence_st_scheme wait_event \<Rightarrow> bool" where
  "wait_contract W \<longleftrightarrow> (\<forall>intr f timeout s r s'.
     W intr f timeout s = (r, s') \<longrightarrow> fence_wf s \<longrightarrow> 0 < frefs s f \<longrightarrow>
       fence_wf s' \<and> frefs s' = frefs s \<and>
       (\<forall>g. fence_status s g \<noteq> 0 \<longrightarrow> fence_status s' g = fence_status s g) \<and>
       (\<forall>b. plain_block b s \<longrightarrow> plain_block b s') \<and>
       (r > 0 \<longrightarrow> r \<le> max 1 timeout \<and> fence_status s' f \<noteq> 0) \<and>
       (r < 0 \<longrightarrow> intr \<and> r = - ERESTARTSYS))"

lemma wait_contractD:
  assumes "wait_contract W" "W intr f timeout s = (r, s')" "fence_wf s" "0 < frefs s f"
  shows "fence_wf s'" "frefs s' = frefs s"
    "\<And>g. fence_status s g \<noteq> 0 \<Longrightarrow> fence_status s' g = fence_status s g"
    "\<And>b. plain_block b s \<Longrightarrow> plain_block b s'"
    "r > 0 \<Longrightarrow> r \<le> max 1 timeout" "r > 0 \<Longrightarrow> fence_status s' f \<noteq> 0"
    "r < 0 \<Longrightarrow> intr \<and> r = - ERESTARTSYS"
  using assms unfolding wait_contract_def by blast+

text \<open>A wait on a fence the caller holds comes back, and says what the fence says.\<close>

lemma wait_returns:
  assumes W: "wait_contract W" and wf: "fence_wf s" and live: "0 < frefs s f"
  shows "\<exists>r s'. dma_fence_wait_timeout W f intr timeout s = Some (r, s') \<and>
    fence_wf s' \<and> frefs s' = frefs s \<and>
    (\<forall>g. fence_status s g \<noteq> 0 \<longrightarrow> fence_status s' g = fence_status s g) \<and>
    (\<forall>b. plain_block b s \<longrightarrow> plain_block b s')"
proof -
  from wf live obtain x where x: "fs_fences s f = Some x" by (auto simp: frefs_pos_iff)
  show ?thesis
  proof (cases "f_status x = 0")
    case False
    with x wf show ?thesis by (simp add: dma_fence_wait_timeout_def)
  next
    case True
    obtain r s' where rs: "W intr f timeout s = (r, s')" by (cases "W intr f timeout s")
    note c = wait_contractD [OF W rs wf live]
    from c(1,2) live obtain y where y: "fs_fences s' f = Some y" by (metis frefs_pos_iff)
    from True x rs y c(1,2,3,4) show ?thesis
      by (auto simp: dma_fence_wait_timeout_def Let_def)
  qed
qed

lemma wait_result:
  assumes W: "wait_contract W" and wf: "fence_wf s" and live: "0 < frefs s f"
    and w: "dma_fence_wait_timeout W f intr timeout s = Some (r, s')" and t: "0 < timeout"
  shows "(r > 0 \<longrightarrow> fence_status s' f > 0 \<and> r \<le> timeout) \<and>
    (r < 0 \<longrightarrow> r = fence_status s' f \<or> intr \<and> r = - ERESTARTSYS) \<and>
    (fence_status s' f < 0 \<and> fence_status s f \<noteq> 0 \<longrightarrow> r < 0)"
proof -
  from wf live obtain x where x: "fs_fences s f = Some x" by (auto simp: frefs_pos_iff)
  show ?thesis
  proof (cases "f_status x = 0")
    case False
    with x w t show ?thesis
      by (auto simp: dma_fence_wait_timeout_def fence_status_def split: if_splits)
  next
    case True
    obtain r0 s0 where rs: "W intr f timeout s = (r0, s0)" by (cases "W intr f timeout s")
    note c = wait_contractD [OF W rs wf live]
    from c(1,2) live obtain y where y: "fs_fences s0 f = Some y" by (metis frefs_pos_iff)
    from True x rs y w t c(5-7) show ?thesis
      by (auto simp: dma_fence_wait_timeout_def Let_def fence_status_def split: if_splits)
  qed
qed

end
