(* ===== verification/Lima_Resv.thy ===== *)
theory Lima_Resv
  imports Lima_Fence
begin

text \<open>
  The mini reservation object of \<open>lima_compat.c\<close> and \<open>lima_compat_resv.h\<close>: the exclusive
  fence of the last submission and a growing array of shared fences, with their references.
  It is embedded in every buffer object, so its operations take the object and the state and
  return both.
\<close>

text \<open>
  \<open>rv_shared\<close> is the used part of the array (\<open>num_shared\<close> is its length), \<open>rv_arr\<close> the
  block that holds the array, \<open>rv_max\<close> its capacity.
\<close>

record lima_resv =
  rv_excl :: "nat option"
  rv_shared :: "nat list"
  rv_arr :: "nat option"
  rv_max :: nat

definition lima_resv_init :: lima_resv where
  "lima_resv_init = \<lparr>rv_excl = None, rv_shared = [], rv_arr = None, rv_max = 0\<rparr>"

definition lima_resv_fini :: "lima_resv \<Rightarrow> 'a fence_st_scheme \<Rightarrow> 'a fence_st_scheme option" where
  "lima_resv_fini r s = do {
     s \<leftarrow> dma_fence_put (rv_excl r) s;
     s \<leftarrow> each fence_kref_put (rv_shared r) s;
     kfree (rv_arr r) s
   }"

text \<open>Takes over the caller's reference of the new fence.\<close>

definition lima_resv_set_excl ::
    "lima_resv \<Rightarrow> nat \<Rightarrow> 'a fence_st_scheme \<Rightarrow> (int \<times> lima_resv \<times> 'a fence_st_scheme) option" where
  "lima_resv_set_excl r f s = do {
     s \<leftarrow> dma_fence_put (rv_excl r) s;
     Some (0, r\<lparr>rv_excl := Some f\<rparr>, s)
   }"

text \<open>\<open>krealloc\<close>: a new block and the old one freed, or \<open>NULL\<close> and the old one kept.\<close>

definition krealloc ::
    "nat option \<Rightarrow> 'a kmem_scheme \<Rightarrow> (nat option \<times> 'a kmem_scheme) option" where
  "krealloc p s = (case kzalloc s of
     (None, s) \<Rightarrow> Some (None, s)
   | (Some b, s) \<Rightarrow> do { s \<leftarrow> kfree p s; Some (Some b, s) })"

text \<open>The append that ends \<open>lima_resv_add_shared\<close>, with its own reference.\<close>

definition resv_append ::
    "lima_resv \<Rightarrow> nat \<Rightarrow> 'a fence_st_scheme \<Rightarrow> (int \<times> lima_resv \<times> 'a fence_st_scheme) option" where
  "resv_append r f s = do {
     s \<leftarrow> dma_fence_get f s;
     Some (0, r\<lparr>rv_shared := rv_shared r @ [f]\<rparr>, s)
   }"

definition lima_resv_add_shared ::
    "lima_resv \<Rightarrow> nat \<Rightarrow> 'a fence_st_scheme \<Rightarrow> (int \<times> lima_resv \<times> 'a fence_st_scheme) option" where
  "lima_resv_add_shared r f s =
     (if length (rv_shared r) = rv_max r then do {
        let nmax = (if rv_max r \<noteq> 0 then rv_max r * 2 else 4);
        (n, s) \<leftarrow> krealloc (rv_arr r) s;
        case n of
          None \<Rightarrow> Some (- ENOMEM, r, s)
        | Some b \<Rightarrow> resv_append (r\<lparr>rv_arr := Some b, rv_max := nmax\<rparr>) f s
      } else resv_append r f s)"

text \<open>The fences of the object: the exclusive one first, then the shared ones.\<close>

definition resv_refs :: "lima_resv \<Rightarrow> nat list" where
  "resv_refs r = (case rv_excl r of None \<Rightarrow> [] | Some f \<Rightarrow> [f]) @ rv_shared r"

text \<open>
  A snapshot with references taken: the count (or \<open>-ENOMEM\<close>), the array and its block.
\<close>

definition lima_resv_get_fences ::
    "lima_resv \<Rightarrow> 'a fence_st_scheme
      \<Rightarrow> (int \<times> nat list \<times> nat option \<times> 'a fence_st_scheme) option" where
  "lima_resv_get_fences r s =
     (let n = (if rv_excl r \<noteq> None then 1 else 0) + length (rv_shared r)
      in if n = 0 then Some (0, [], None, s)
         else case kzalloc s of
           (None, s) \<Rightarrow> Some (- ENOMEM, [], None, s)
         | (Some b, s) \<Rightarrow> do {
             s \<leftarrow> each dma_fence_get (resv_refs r) s;
             Some (int n, resv_refs r, Some b, s)
           })"

text \<open>
  The two loops of \<open>lima_resv_wait_timeout\<close>: wait for each fence and drop its reference; on
  an error drop the references of the fences not waited for.
\<close>

fun resv_wait_loop ::
    "'a fence_st_scheme wait_event \<Rightarrow> bool \<Rightarrow> int \<Rightarrow> nat list \<Rightarrow> int \<Rightarrow> 'a fence_st_scheme
      \<Rightarrow> (int \<times> 'a fence_st_scheme) option" where
  "resv_wait_loop W intr timeout [] acc s = Some (acc, s)"
| "resv_wait_loop W intr timeout (f # fs) acc s = do {
     (r, s) \<leftarrow> dma_fence_wait_timeout W f intr timeout s;
     s \<leftarrow> dma_fence_put (Some f) s;
     if r < 0 then do { s \<leftarrow> each fence_kref_put fs s; Some (r, s) }
     else resv_wait_loop W intr timeout fs (if r = 0 then 0 else acc) s
   }"

definition lima_resv_wait_timeout ::
    "'a fence_st_scheme wait_event \<Rightarrow> lima_resv \<Rightarrow> bool \<Rightarrow> int \<Rightarrow> 'a fence_st_scheme
      \<Rightarrow> (int \<times> 'a fence_st_scheme) option" where
  "lima_resv_wait_timeout W r intr timeout s = do {
     (n, fences, arr, s) \<leftarrow> lima_resv_get_fences r s;
     if n < 0 then Some (n, s)
     else do {
       (ret, s) \<leftarrow> resv_wait_loop W intr timeout fences timeout s;
       s \<leftarrow> kfree arr s;
       Some (ret, s)
     }
   }"

section \<open>The invariant of a reservation object\<close>

text \<open>
  The array has room for what it holds, its block is live and is no fence, and the store
  holds at least the object's references.
\<close>

definition resv_wf :: "lima_resv \<Rightarrow> 'a fence_st_scheme \<Rightarrow> bool" where
  "resv_wf r s \<longleftrightarrow> length (rv_shared r) \<le> rv_max r \<and>
     (case rv_arr r of None \<Rightarrow> rv_max r = 0 | Some b \<Rightarrow> plain_block b s)"

lemma resv_wf_init [simp]: "resv_wf lima_resv_init s"
  by (simp add: resv_wf_def lima_resv_init_def)

lemma resv_refs_init [simp]: "resv_refs lima_resv_init = []"
  by (simp add: resv_refs_def lima_resv_init_def)

text \<open>
  \<open>resv_owns B L r s\<close>: the state of the world when a reservation object \<open>r\<close> was started over
  a store with counts \<open>B\<close> and live blocks \<open>L\<close>, and nothing else has changed since: every
  count is the old one plus the object's own references, and the only new block is its array.
\<close>

definition resv_owns ::
    "(nat \<Rightarrow> nat) \<Rightarrow> nat set \<Rightarrow> lima_resv \<Rightarrow> 'a fence_st_scheme \<Rightarrow> bool" where
  "resv_owns B L r s \<longleftrightarrow> fence_wf s \<and> resv_wf r s \<and>
     frefs s = (\<lambda>f. B f + count_list (resv_refs r) f) \<and>
     km_live s = L \<union> set_option (rv_arr r) \<and> set_option (rv_arr r) \<inter> L = {} \<and>
     (\<forall>f. f \<in> set (resv_refs r) \<longrightarrow> 0 < B f)"

lemma resv_owns_init: "fence_wf s \<Longrightarrow> resv_owns (frefs s) (km_live s) lima_resv_init s"
  by (auto simp: resv_owns_def lima_resv_init_def resv_refs_def resv_wf_def)

lemma resv_fini_owns:
  assumes "resv_owns B L r s"
  shows "\<exists>s'. lima_resv_fini r s = Some s' \<and> fence_wf s' \<and> frefs s' = B \<and> km_live s' = L"
proof -
  from assms have wf: "fence_wf s" and rwf: "resv_wf r s"
    and refs: "frefs s = (\<lambda>f. B f + count_list (resv_refs r) f)"
    and live: "km_live s = L \<union> set_option (rv_arr r)" "set_option (rv_arr r) \<inter> L = {}"
    and B: "\<And>f. f \<in> set (resv_refs r) \<Longrightarrow> 0 < B f"
    by (auto simp: resv_owns_def)
  have split: "lima_resv_fini r s = do { s \<leftarrow> each fence_kref_put (resv_refs r) s; kfree (rv_arr r) s }"
    by (cases "rv_excl r") (simp_all add: lima_resv_fini_def resv_refs_def dma_fence_put_def)
  from refs have "\<forall>f. count_list (resv_refs r) f \<le> frefs s f" by simp
  from fence.put_all [OF wf this] obtain s1 where s1: "each fence_kref_put (resv_refs r) s = Some s1"
    "fence_wf s1" "frefs s1 = (\<lambda>f. frefs s f - count_list (resv_refs r) f)" by blast
  with refs have B1: "frefs s1 = B" by simp
  have live1: "km_live s1 = km_live s"
    using B refs by (intro each_put_live [OF wf s1(1)]) simp
  show ?thesis
  proof (cases "rv_arr r")
    case None
    with split s1 B1 live1 live show ?thesis by (simp add: kfree_def)
  next
    case (Some b)
    with rwf have "plain_block b s1"
      using each_put_plain [OF s1(1)] by (simp add: resv_wf_def)
    from kfree_plain [OF s1(2) this] Some split s1 B1 live1 live show ?thesis
      by auto
  qed
qed

lemma plain_arr_get: "dma_fence_get f s = Some s' \<Longrightarrow> resv_wf r s' = resv_wf r s"
  by (auto simp: resv_wf_def get_plain split: option.splits)

text \<open>Replacing the exclusive fence by one the caller holds a reference of.\<close>

lemma resv_set_excl_owns:
  assumes own: "resv_owns B L r s" and f: "0 < B f"
  shows "\<exists>s1 s2 r'. dma_fence_get f s = Some s1 \<and>
    lima_resv_set_excl r f s1 = Some (0, r', s2) \<and> resv_owns B L r' s2 \<and>
    resv_refs r' = f # rv_shared r \<and> rv_shared r' = rv_shared r"
proof -
  from own have wf: "fence_wf s" and rwf: "resv_wf r s"
    and refs: "frefs s = (\<lambda>g. B g + count_list (resv_refs r) g)"
    and live: "km_live s = L \<union> set_option (rv_arr r)" "set_option (rv_arr r) \<inter> L = {}"
    and B: "\<And>g. g \<in> set (resv_refs r) \<Longrightarrow> 0 < B g"
    by (auto simp: resv_owns_def)
  from f refs have "0 < frefs s f" by simp
  from fence_get_live [OF wf this] obtain s1 where s1: "dma_fence_get f s = Some s1" "fence_wf s1"
    "frefs s1 = (frefs s)(f := Suc (frefs s f))" by blast
  note rwf1 = plain_arr_get [OF s1(1), of r] and live1 = get_live [OF s1(1)]
  show ?thesis
  proof (cases "rv_excl r")
    case None
    with own s1 rwf1 live1 refs f B show ?thesis
      by (auto simp: lima_resv_set_excl_def dma_fence_put_def resv_owns_def resv_refs_def
          resv_wf_def fun_eq_iff split: option.splits)
  next
    case (Some g)
    then have g: "g \<in> set (resv_refs r)" by (simp add: resv_refs_def)
    then have g1: "1 < frefs s1 g"
      using B [OF g] refs s1(3) g count_list_pos [of g "resv_refs r"] by auto
    then obtain s2 where s2: "fence_kref_put g s1 = Some s2" "fence_wf s2"
      "frefs s2 = (frefs s1)(g := frefs s1 g - 1)"
      using fence_put_live [OF s1(2), of g] by auto
    have "\<And>b. plain_block b s1 \<Longrightarrow> plain_block b s2" by (rule put_plain [OF s2(1)])
    with Some s1 s2 rwf rwf1 live live1 put_live [OF s2(1) g1] refs f B g show ?thesis
      by (auto simp: lima_resv_set_excl_def dma_fence_put_def resv_owns_def resv_refs_def
          resv_wf_def fun_eq_iff split: option.splits)
  qed
qed

lemma resv_append_owns:
  assumes own: "resv_owns B L r s" and f: "0 < B f" and room: "length (rv_shared r) < rv_max r"
  shows "\<exists>s' r'. resv_append r f s = Some (0, r', s') \<and> resv_owns B L r' s' \<and>
    resv_refs r' = resv_refs r @ [f]"
proof -
  from own f have wf: "fence_wf s" and pos: "0 < frefs s f" by (auto simp: resv_owns_def)
  from fence_get_live [OF wf pos] obtain s1 where s1: "dma_fence_get f s = Some s1" "fence_wf s1"
    "frefs s1 = (frefs s)(f := Suc (frefs s f))" by blast
  with own f room plain_arr_get [OF s1(1), of r] get_live [OF s1(1)] show ?thesis
    by (auto simp: resv_append_def resv_owns_def resv_refs_def resv_wf_def fun_eq_iff
        split: option.splits)
qed

text \<open>
  Adding a shared fence succeeds, or fails for want of memory and changes nothing.
\<close>

lemma resv_add_shared_owns:
  assumes own: "resv_owns B L r s" and f: "0 < B f"
  shows "\<exists>ret s' r'. lima_resv_add_shared r f s = Some (ret, r', s') \<and> resv_owns B L r' s' \<and>
    (ret = 0 \<and> resv_refs r' = resv_refs r @ [f] \<or> ret = - ENOMEM \<and> r' = r)"
proof (cases "length (rv_shared r) = rv_max r")
  case False
  with own have "length (rv_shared r) < rv_max r" by (auto simp: resv_owns_def resv_wf_def)
  from resv_append_owns [OF own f this] False show ?thesis
    by (auto simp: lima_resv_add_shared_def)
next
  case True
  from own have wf: "fence_wf s" by (simp add: resv_owns_def)
  obtain p s1 where p: "kzalloc s = (p, s1)" by (cases "kzalloc s")
  note k = kzalloc_plain [OF wf p]
  have keep: "plain_block b s1" if "plain_block b s" for b
    using that p by (auto simp: plain_block_def kzalloc_def split: if_splits)
  show ?thesis
  proof (cases p)
    case None
    with k own keep have "resv_owns B L r s1"
      by (auto simp: resv_owns_def resv_wf_def split: option.splits)
    with True None p show ?thesis
      by (auto simp: lima_resv_add_shared_def krealloc_def)
  next
    case (Some b)
    let ?r = "r\<lparr>rv_arr := Some b, rv_max := (if rv_max r \<noteq> 0 then rv_max r * 2 else 4)\<rparr>"
    have room: "length (rv_shared ?r) < rv_max ?r" using True by simp
    have "\<exists>s2. kfree (rv_arr r) s1 = Some s2 \<and> resv_owns B L ?r s2"
    proof (cases "rv_arr r")
      case None
      with Some k own True show ?thesis
        by (auto simp: kfree_def resv_owns_def resv_wf_def resv_refs_def)
    next
      case (Some a)
      with own keep have a: "plain_block a s" "plain_block a s1" by (auto simp: resv_owns_def resv_wf_def)
      from kfree_plain [OF conjunct1 [OF k] a(2)] obtain s2 where s2: "kfree (Some a) s1 = Some s2"
        "fence_wf s2" "frefs s2 = frefs s1" "km_live s2 = km_live s1 - {a}"
        "fs_fences s2 = fs_fences s1" by blast
      moreover from a(1) k \<open>p = Some b\<close> have "a \<noteq> b" by (auto simp: plain_block_def)
      ultimately show ?thesis
        using Some \<open>p = Some b\<close> k own a True
        by (auto simp: resv_owns_def resv_wf_def resv_refs_def plain_block_def)
    qed
    then obtain s2 where s2: "kfree (rv_arr r) s1 = Some s2" "resv_owns B L ?r s2" by blast
    from resv_append_owns [OF s2(2) f room] True Some p s2(1) show ?thesis
      by (auto simp: lima_resv_add_shared_def krealloc_def resv_refs_def)
  qed
qed

section \<open>The life of a reservation object\<close>

text \<open>
  What the driver does with a reservation object between \<open>init\<close> and \<open>fini\<close>: publish a fence
  as the exclusive one (with a reference taken for the purpose, as \<open>lima_gem_submit\<close> does) or
  append a shared one.
\<close>

datatype resv_op = SetExcl nat | AddShared nat

fun resv_op_fence :: "resv_op \<Rightarrow> nat" where
  "resv_op_fence (SetExcl f) = f"
| "resv_op_fence (AddShared f) = f"

fun resv_step ::
    "resv_op \<Rightarrow> lima_resv \<times> 'a fence_st_scheme \<Rightarrow> (lima_resv \<times> 'a fence_st_scheme) option" where
  "resv_step (SetExcl f) (r, s) = do {
     s \<leftarrow> dma_fence_get f s;
     (ret, r, s) \<leftarrow> lima_resv_set_excl r f s;
     Some (r, s)
   }"
| "resv_step (AddShared f) (r, s) = do {
     (ret, r, s) \<leftarrow> lima_resv_add_shared r f s;
     Some (r, s)
   }"

lemma resv_step_owns:
  assumes "resv_owns B L r s" and "0 < B (resv_op_fence a)"
  shows "\<exists>r' s'. resv_step a (r, s) = Some (r', s') \<and> resv_owns B L r' s'"
proof (cases a)
  case (SetExcl f)
  with assms(2) have "0 < B f" by simp
  from resv_set_excl_owns [OF assms(1) this] SetExcl show ?thesis by auto
next
  case (AddShared f)
  with assms(2) have "0 < B f" by simp
  from resv_add_shared_owns [OF assms(1) this] AddShared show ?thesis by auto
qed

lemma resv_run_owns:
  assumes "resv_owns B L r s" and "\<forall>a \<in> set ops. 0 < B (resv_op_fence a)"
  shows "\<exists>r' s'. each resv_step ops (r, s) = Some (r', s') \<and> resv_owns B L r' s'"
  using assms
proof (induction ops arbitrary: r s)
  case Nil
  then show ?case by auto
next
  case (Cons a ops)
  then have "0 < B (resv_op_fence a)" by simp
  from resv_step_owns [OF Cons.prems(1) this] obtain r1 s1
    where "resv_step a (r, s) = Some (r1, s1)" "resv_owns B L r1 s1" by blast
  with Cons.IH [of r1 s1] Cons.prems(2) show ?case by simp
qed

section \<open>Waiting on a reservation object\<close>

text \<open>
  The wait loop on fences it holds a reference of: it comes back, on every path it has
  dropped exactly one reference per fence, and a positive result means that every fence of
  the snapshot has completed without error.
\<close>

lemma resv_wait_loop_refs:
  assumes W: "wait_contract W" and "fence_wf s" and "\<forall>f. count_list fs f \<le> frefs s f"
  shows "\<exists>ret s'. resv_wait_loop W intr timeout fs acc s = Some (ret, s') \<and> fence_wf s' \<and>
    frefs s' = (\<lambda>f. frefs s f - count_list fs f) \<and>
    (\<forall>b. plain_block b s \<longrightarrow> plain_block b s')"
  using assms(2-)
proof (induction fs arbitrary: acc s)
  case Nil
  then show ?case by simp
next
  case (Cons f fs)
  from Cons.prems(2) have f: "0 < frefs s f"
    by (metis count_list.simps(2) add_is_0 gr0I le_zero_eq one_neq_zero)
  from wait_returns [OF W Cons.prems(1) f] obtain r s1 where s1:
    "dma_fence_wait_timeout W f intr timeout s = Some (r, s1)" "fence_wf s1" "frefs s1 = frefs s"
    "\<forall>b. plain_block b s \<longrightarrow> plain_block b s1"
    by blast
  with f fence_put_live [of s1 f] obtain s2 where s2: "fence_kref_put f s1 = Some s2"
    "fence_wf s2" "frefs s2 = (frefs s1)(f := frefs s1 f - 1)" by auto
  with s1 Cons.prems(2) have le: "\<forall>g. count_list fs g \<le> frefs s2 g"
    by (auto dest: spec [of _ f] split: if_splits)
  show ?case
  proof (cases "r < 0")
    case True
    from fence.put_all [OF s2(2) le] obtain s3 where s3: "each fence_kref_put fs s2 = Some s3"
      "fence_wf s3" "frefs s3 = (\<lambda>x. frefs s2 x - count_list fs x)" by blast
    with True s1 s2 put_plain [OF s2(1)] each_put_plain [OF s3(1)] show ?thesis
      by (auto simp: dma_fence_put_def fun_eq_iff)
  next
    case False
    from Cons.IH [OF s2(2) le, of "if r = 0 then 0 else acc"] False s1 s2 put_plain [OF s2(1)]
    show ?thesis by (auto simp: dma_fence_put_def fun_eq_iff)
  qed
qed

lemma put_status:
  "fence_kref_put f s = Some s' \<Longrightarrow> 0 < frefs s' g \<Longrightarrow> fence_status s' g = fence_status s g"
  by (auto simp: fence_kref_put_def lima_fence_release_def kfree_def frefs_def fence_status_def
      Option.bind_eq_Some_conv split: if_splits option.splits)

lemma resv_wait_loop_nonpos:
  "acc \<le> 0 \<Longrightarrow> resv_wait_loop W intr timeout fs acc s = Some (ret, s') \<Longrightarrow> ret \<le> 0"
  by (induction fs arbitrary: acc s) (auto simp: Option.bind_eq_Some_conv split: if_splits)

lemma resv_wait_loop_signaled:
  assumes W: "wait_contract W" and t: "0 < timeout" and acc: "acc = 0 \<or> acc = timeout"
    and "fence_wf s" and "\<forall>f. count_list fs f \<le> frefs s f"
    and "resv_wait_loop W intr timeout fs acc s = Some (ret, s')" and "0 < ret"
  shows "ret = timeout \<and>
    (\<forall>f. f \<in> set fs \<and> count_list fs f < frefs s f \<longrightarrow> fence_status s' f > 0) \<and>
    (\<forall>f. 0 < fence_status s f \<and> count_list fs f < frefs s f \<longrightarrow> fence_status s' f > 0)"
  using acc assms(4-)
proof (induction fs arbitrary: acc s)
  case Nil
  then show ?case by auto
next
  case (Cons f fs)
  from Cons.prems(3) have f: "0 < frefs s f"
    by (metis count_list.simps(2) add_is_0 gr0I le_zero_eq one_neq_zero)
  from wait_returns [OF W Cons.prems(2) f] obtain r s1 where s1:
    "dma_fence_wait_timeout W f intr timeout s = Some (r, s1)" "fence_wf s1" "frefs s1 = frefs s"
    "\<forall>g. fence_status s g \<noteq> 0 \<longrightarrow> fence_status s1 g = fence_status s g"
    by blast
  with f fence_put_live [of s1 f] obtain s2 where s2: "fence_kref_put f s1 = Some s2"
    "fence_wf s2" "frefs s2 = (frefs s1)(f := frefs s1 f - 1)" by auto
  with s1 Cons.prems(3) have le: "\<forall>g. count_list fs g \<le> frefs s2 g"
    by (auto dest: spec [of _ f] split: if_splits)
  have r: "\<not> r < 0"
  proof
    assume "r < 0"
    with s1 s2 Cons.prems(4,5) show False
      by (auto simp: dma_fence_put_def Option.bind_eq_Some_conv)
  qed
  have loop: "resv_wait_loop W intr timeout fs (if r = 0 then 0 else acc) s2 = Some (ret, s')"
    using Cons.prems(4) s1 s2 r by (simp add: dma_fence_put_def)
  have "\<not> (if r = 0 then 0 else acc) \<le> 0"
    using resv_wait_loop_nonpos [OF _ loop] Cons.prems(5) by fastforce
  then have r0: "r > 0" and acc: "acc = timeout" using r Cons.prems(1) by (auto split: if_splits)
  from wait_result [OF W Cons.prems(2) f s1(1) t] r0 have pos: "fence_status s1 f > 0" by simp
  have keep: "fence_status s2 g > 0" if "0 < frefs s2 g" "fence_status s1 g > 0" for g
    using put_status [OF s2(1) that(1)] that(2) by simp
  note IH = Cons.IH [OF _ s2(2) le loop Cons.prems(5)]
  from IH acc r0 have ih: "ret = timeout"
    "\<forall>g. g \<in> set fs \<and> count_list fs g < frefs s2 g \<longrightarrow> fence_status s' g > 0"
    "\<forall>g. 0 < fence_status s2 g \<and> count_list fs g < frefs s2 g \<longrightarrow> fence_status s' g > 0"
    by auto
  have count: "count_list fs g < frefs s2 g" if "count_list (f # fs) g < frefs s g" for g
    using that s1(3) s2(3) by (auto split: if_splits)
  have st: "fence_status s' g > 0"
    if "count_list (f # fs) g < frefs s g" "fence_status s1 g > 0" for g
    using ih(3) count [OF that(1)] keep [of g] that(2) by fastforce
  have keep1: "fence_status s1 g > 0" if "0 < fence_status s g" for g
    using s1(4) that by (metis less_irrefl)
  show ?case
    using ih(1,2) count st pos keep1 by auto
qed

section \<open>Deadlines\<close>

text \<open>
  \<open>lima_timeout_abs_to_jiffies\<close> turns an absolute time into a number of jiffies. A \<open>long\<close> of
  the 32-bit target is a 32-bit word read by \<open>sint\<close>. In the assembled tree the conversion is
  the kernel's \<open>nsecs_to_jiffies\<close>, a parameter here; \<open>authored/\<close> has its own.
\<close>

definition lima_timeout_abs_to_jiffies :: "(u64 \<Rightarrow> u32) \<Rightarrow> u64 \<Rightarrow> u64 \<Rightarrow> int" where
  "lima_timeout_abs_to_jiffies nsecs_to_jiffies now abs_ns =
     (if sint (abs_ns - now) \<le> 0 then 0
      else sint (nsecs_to_jiffies (abs_ns - now) + 1))"

text \<open>
  \<open>lima_nsecs_to_jiffies\<close> of \<open>authored/\<close>, for the kernel's \<open>HZ\<close>: a 64-bit division, rounded
  up, then the conversion to the 32-bit \<open>unsigned long\<close>.
\<close>

definition NSEC_PER_SEC :: nat where "NSEC_PER_SEC = 1000000000"

definition lima_nsecs_to_jiffies :: "nat \<Rightarrow> u64 \<Rightarrow> u32" where
  "lima_nsecs_to_jiffies HZ n =
     (let tick = of_nat (NSEC_PER_SEC div HZ) :: u64 in ucast ((n + tick - 1) div tick))"

lemma ceil_div_bounds:
  assumes "0 < (d :: nat)" "0 < t"
  shows "0 < (d + t - 1) div t" "d \<le> ((d + t - 1) div t) * t" "((d + t - 1) div t) * t < d + t"
proof -
  have a: "((d + t - 1) div t) * t + (d + t - 1) mod t = d + t - 1" by simp
  have b: "(d + t - 1) mod t < t" using assms by simp
  show "d \<le> ((d + t - 1) div t) * t" using a b assms by linarith
  show "((d + t - 1) div t) * t < d + t" using a assms by linarith
  show "0 < (d + t - 1) div t" using assms by (simp add: div_greater_zero_iff)
qed

text \<open>
  For a deadline less than \<open>2^31 - 2\<close> ticks away the result is positive, never earlier than
  the deadline, and at most two ticks late.
\<close>

lemma nsecs_to_jiffies_bounds:
  fixes d :: u64
  assumes tick: "tick = NSEC_PER_SEC div HZ" "0 < tick"
    and d: "0 < unat d" "unat d < (2 ^ 31 - 2) * tick"
  shows "\<exists>j. unat (lima_nsecs_to_jiffies HZ d) = j \<and> 0 < j \<and> j < 2 ^ 31 - 1 \<and>
    unat d \<le> j * tick \<and> j * tick < unat d + tick"
proof -
  have tb: "tick \<le> 1000000000" using tick(1) by (simp add: NSEC_PER_SEC_def)
  then have t: "unat (of_nat tick :: u64) = tick"
    by (simp add: unat_of_nat)
  have "(2 ^ 31 - 2) * tick \<le> (2 ^ 31 - 2) * 1000000000" using tb by simp
  with d(2) have b: "unat d < 2147483646000000000" by simp
  have add: "unat (d + of_nat tick) = unat d + tick"
    using t b tb by (simp add: unat_word_ariths)
  have "1 \<le> d + of_nat tick"
    using add d(1) by (simp add: word_le_nat_alt)
  then have sum: "unat (d + of_nat tick - 1) = unat d + tick - 1"
    by (simp add: unat_sub add)
  let ?j = "(unat d + tick - 1) div tick"
  have q: "unat ((d + of_nat tick - 1) div (of_nat tick :: u64)) = ?j"
    by (simp add: unat_div t sum)
  note j = ceil_div_bounds [OF d(1) tick(2)]
  have "unat d + tick \<le> (2 ^ 31 - 1) * tick"
    using d(2) by simp
  with j(3) have "?j * tick < (2 ^ 31 - 1) * tick" by (rule less_le_trans)
  then have jb: "?j < 2 ^ 31 - 1" using mult_less_cancel2 by blast
  have "unat (lima_nsecs_to_jiffies HZ d) = ?j"
    using q jb by (simp add: lima_nsecs_to_jiffies_def Let_def tick(1) [symmetric] unsigned_ucast_eq take_bit_eq_mod)
  with j jb show ?thesis by blast
qed

section \<open>Properties\<close>

lemma get_fences_refs:
  assumes wf: "fence_wf s" and live: "\<forall>f \<in> set (resv_refs r). 0 < frefs s f"
  shows "\<exists>n fs arr s'. lima_resv_get_fences r s = Some (n, fs, arr, s') \<and> fence_wf s' \<and>
    (n < 0 \<and> n = - ENOMEM \<and> frefs s' = frefs s \<or>
     0 \<le> n \<and> fs = resv_refs r \<and> frefs s' = (\<lambda>f. frefs s f + count_list (resv_refs r) f) \<and>
       (\<forall>b. arr = Some b \<longrightarrow> plain_block b s'))"
proof (cases "resv_refs r = []")
  case True
  with wf show ?thesis
    by (auto simp: lima_resv_get_fences_def resv_refs_def split: option.splits)
next
  case False
  then have n: "(if rv_excl r \<noteq> None then 1 else 0) + length (rv_shared r) \<noteq> 0"
    by (auto simp: resv_refs_def split: option.splits)
  obtain p s1 where p: "kzalloc s = (p, s1)" by (cases "kzalloc s")
  note k = kzalloc_plain [OF wf p]
  show ?thesis
  proof (cases p)
    case None
    with n p k show ?thesis by (auto simp: lima_resv_get_fences_def Let_def)
  next
    case (Some b)
    from k live have "fence_wf s1" and "\<forall>f \<in> set (resv_refs r). 0 < frefs s1 f" by auto
    from fence.get_all [OF this] obtain s2 where s2: "each dma_fence_get (resv_refs r) s1 = Some s2"
      "fence_wf s2" "frefs s2 = (\<lambda>x. frefs s1 x + count_list (resv_refs r) x)" by blast
    with n p k Some each_get_plain [OF s2(1), of b] show ?thesis
      by (auto simp: lima_resv_get_fences_def Let_def)
  qed
qed

text \<open>
  A small store for the witnesses: fence 4 is held by the caller and has completed, fence 8 is
  held and pending; every allocation succeeds.
\<close>

definition two_fences :: fence_st where
  "two_fences = \<lparr>km_ok = (\<lambda>_. True), km_n = 9, km_live = {4, 8}, km_time = 7,
     fs_fences = [4 \<mapsto> \<lparr>f_refcount = 1, f_status = 1, f_name = ''gp'', f_timestamp_ns = 3\<rparr>,
                  8 \<mapsto> \<lparr>f_refcount = 1, f_status = 0, f_name = ''pp'', f_timestamp_ns = 0\<rparr>]\<rparr>"

lemma two_fences_wf: "fence_wf two_fences"
  by (auto simp: two_fences_def fence_wf_def kmem_wf_def)

lemma two_fences_refs: "frefs two_fences 4 = 1" "frefs two_fences 8 = 1"
  by (simp_all add: two_fences_def frefs_def)

lemma two_fences_pending: "fence_status two_fences 8 = 0"
  by (simp add: two_fences_def fence_status_def)

text \<open>The sleep that always runs into its timeout keeps the kernel's contract.\<close>

lemma sleepless_contract: "wait_contract (\<lambda>intr f timeout s. (0, s))"
  by (simp add: wait_contract_def)

text \<open>
  A reservation object gives back everything it took. Start one on any well-formed store,
  publish exclusive fences and append shared ones in any order and number (fences the callers
  hold, with allocations that succeed or fail), and tear it down: every operation returns, and
  at the end every fence has the reference count it had and the live blocks are the old ones.
\<close>

lemma resv_lifecycle:
  assumes "fence_wf s" and "\<forall>a \<in> set ops. 0 < frefs s (resv_op_fence a)"
  shows "\<exists>r s1 s2. each resv_step ops (lima_resv_init, s) = Some (r, s1) \<and>
    lima_resv_fini r s1 = Some s2 \<and> frefs s2 = frefs s \<and> km_live s2 = km_live s"
proof -
  from resv_run_owns [OF resv_owns_init [OF assms(1)] assms(2)] obtain r s1
    where "each resv_step ops (lima_resv_init, s) = Some (r, s1)"
      "resv_owns (frefs s) (km_live s) r s1" by blast
  with resv_fini_owns [OF this(2)] show ?thesis by blast
qed



text \<open>
  The first signal of a fence wins. Whatever attempts follow the first one (normal
  completion, timeout, reset, in any order), the status waiters see is the one of the first
  attempt: 1, or the error it carried (a non-negative error is replaced by \<open>-EIO\<close>).
\<close>

lemma fence_first_signal_wins:
  assumes "fence_wf s" and "0 < frefs s f" and "fence_status s f = 0"
  shows "\<exists>s'. each (signal_attempt f) (a # as) s = Some s' \<and> frefs s' = frefs s \<and>
    fence_status s' f = (case a of None \<Rightarrow> 1 | Some e \<Rightarrow> if e \<ge> 0 then - EIO else e)"
proof -
  from signal_attempts_return [OF assms(1,2)] obtain s' where
    "each (signal_attempt f) (a # as) s = Some s'" "frefs s' = frefs s" by blast
  with first_signal_wins [OF this(1) assms(3)] show ?thesis
    by (simp add: attempt_value_def)
qed



end
