(* ===== verification/Lima_Dma.thy ===== *)
theory Lima_Dma
  imports Lima_Resv
begin

text \<open>
  DMA memory: the kernel's \<open>dma_alloc_wc\<close> and \<open>dma_free_wc\<close>, as a parameter of the model with
  the contract its documentation gives, and the ledger of the live buffers that the release
  functions of the driver are checked against.
\<close>

section \<open>Buffers\<close>

text \<open>
  \<open>dma_alloc_wc\<close> and \<open>dma_free_wc\<close>: \<open>dm_alloc n L sz\<close> is what the \<open>n\<close>-th call returns for a
  buffer of that size when the buffers of \<open>L\<close> are live (the kernel's choice); \<open>dm_live\<close> are the
  live buffers, by address and size. Addresses are reused after a free.
\<close>

record dma_st = fence_st +
  dm_alloc :: "nat \<Rightarrow> (u32 \<times> nat) set \<Rightarrow> nat \<Rightarrow> u32 option"
  dm_n :: nat
  dm_live :: "(u32 \<times> nat) set"

definition dma_alloc_wc :: "nat \<Rightarrow> 'a dma_st_scheme \<Rightarrow> u32 option \<times> 'a dma_st_scheme" where
  "dma_alloc_wc sz s = (case dm_alloc s (dm_n s) (dm_live s) sz of
     None \<Rightarrow> (None, s\<lparr>dm_n := Suc (dm_n s)\<rparr>)
   | Some d \<Rightarrow> (Some d, s\<lparr>dm_n := Suc (dm_n s), dm_live := insert (d, sz) (dm_live s)\<rparr>))"

definition dma_free_wc :: "nat \<Rightarrow> u32 \<Rightarrow> 'a dma_st_scheme \<Rightarrow> 'a dma_st_scheme option" where
  "dma_free_wc sz d s =
     (if (d, sz) \<in> dm_live s then Some (s\<lparr>dm_live := dm_live s - {(d, sz)}\<rparr>) else None)"

text \<open>
  What the DMA API documents: a coherent buffer is page aligned, inside the 32-bit range the
  driver asked for, and disjoint from every live buffer.
\<close>

definition buf_disjoint :: "u32 \<times> nat \<Rightarrow> u32 \<times> nat \<Rightarrow> bool" where
  "buf_disjoint a b \<longleftrightarrow> unat (fst a) + snd a \<le> unat (fst b) \<or> unat (fst b) + snd b \<le> unat (fst a)"

definition dma_contract :: "'a dma_st_scheme \<Rightarrow> bool" where
  "dma_contract s \<longleftrightarrow> (\<forall>n L sz d. dm_alloc s n L sz = Some d \<longrightarrow>
     4096 dvd unat d \<and> unat d + sz \<le> 2 ^ 32 \<and> (\<forall>b \<in> L. buf_disjoint (d, sz) b))"

section \<open>The ledger\<close>

text \<open>An operation that changes only the allocator's own fields.\<close>

definition dma_only :: "'a dma_st_scheme \<Rightarrow> 'a dma_st_scheme \<Rightarrow> bool" where
  "dma_only s s' \<longleftrightarrow> (\<exists>n L. s' = s\<lparr>dm_n := n, dm_live := L\<rparr>)"

lemma dma_only_refl [simp]: "dma_only s s"
proof -
  have "s = s\<lparr>dm_n := dm_n s, dm_live := dm_live s\<rparr>" by simp
  then show ?thesis unfolding dma_only_def by blast
qed

lemma dma_only_trans: "dma_only a b \<Longrightarrow> dma_only b c \<Longrightarrow> dma_only a c"
  by (fastforce simp: dma_only_def)

lemma dma_only_alloc: "dma_only s s' \<Longrightarrow> dm_alloc s' = dm_alloc s"
  by (auto simp: dma_only_def)

lemma dma_alloc_wc_cases:
  assumes "dma_alloc_wc sz s = (r, s')"
  obtains "r = None" and "dm_live s' = dm_live s" and "dma_only s s'"
  | d where "r = Some d" and "dm_live s' = insert (d, sz) (dm_live s)" and "dma_only s s'"
    and "dma_contract s \<Longrightarrow> 4096 dvd unat d \<and> unat d + sz \<le> 2 ^ 32 \<and>
          (\<forall>b \<in> dm_live s. buf_disjoint (d, sz) b)"
proof (cases "dm_alloc s (dm_n s) (dm_live s) sz")
  case None
  then have s': "s' = s\<lparr>dm_n := Suc (dm_n s), dm_live := dm_live s\<rparr>" and "r = None"
    using assms by (auto simp: dma_alloc_wc_def)
  have "dma_only s s'" unfolding s' dma_only_def by blast
  with \<open>r = None\<close> show ?thesis by (intro that(1)) (simp_all add: s')
next
  case (Some d)
  then have s': "s' = s\<lparr>dm_n := Suc (dm_n s), dm_live := insert (d, sz) (dm_live s)\<rparr>"
    and "r = Some d"
    using assms by (auto simp: dma_alloc_wc_def)
  have "dma_only s s'" unfolding s' dma_only_def by blast
  with Some \<open>r = Some d\<close> show ?thesis
    by (intro that(2) [of d]) (auto simp: s' dma_contract_def)
qed

lemma not_buf_disjoint_refl: "0 < sz \<Longrightarrow> \<not> buf_disjoint (d, sz) (d, sz)"
  by (simp add: buf_disjoint_def)

lemma dma_free_wc_Some: "(d, sz) \<in> dm_live s \<Longrightarrow>
  dma_free_wc sz d s = Some (s\<lparr>dm_live := dm_live s - {(d, sz)}\<rparr>)"
  by (simp add: dma_free_wc_def)

lemma dma_contract_frame: "dm_alloc s' = dm_alloc s \<Longrightarrow> dma_contract s' = dma_contract s"
  by (simp add: dma_contract_def)

end
