(* ===== verification/Lima_Regs.thy ===== *)
theory Lima_Regs
  imports Lima_Prelude
begin

text \<open>
  The register map of the Mali Utgard blocks, \<open>lima_regs.h\<close>: one definition per
  \<open>#define\<close>, in the header's order, with the header's name. Every definition is in the
  collection \<open>regs\<close>, so that \<open>simp add: regs\<close> evaluates an expression over registers.
\<close>

section \<open>Registers\<close>

subsection \<open>PMU registers\<close>

definition LIMA_PMU_POWER_UP :: "u32" where
  [regs]: "LIMA_PMU_POWER_UP = 0x00"

definition LIMA_PMU_POWER_DOWN :: "u32" where
  [regs]: "LIMA_PMU_POWER_DOWN = 0x04"

definition LIMA_PMU_POWER_GP0_MASK :: "u32" where
  [regs]: "LIMA_PMU_POWER_GP0_MASK = BIT 0"

definition LIMA_PMU_POWER_L2_MASK :: "u32" where
  [regs]: "LIMA_PMU_POWER_L2_MASK = BIT 1"

definition LIMA_PMU_POWER_PP_MASK :: "nat \<Rightarrow> u32" where
  [regs]: "LIMA_PMU_POWER_PP_MASK i = BIT (2 + i)"

definition LIMA450_PMU_POWER_PP0_MASK :: "u32" where
  [regs]: "LIMA450_PMU_POWER_PP0_MASK = BIT 1"

definition LIMA450_PMU_POWER_PP13_MASK :: "u32" where
  [regs]: "LIMA450_PMU_POWER_PP13_MASK = BIT 2"

definition LIMA450_PMU_POWER_PP47_MASK :: "u32" where
  [regs]: "LIMA450_PMU_POWER_PP47_MASK = BIT 3"

definition LIMA_PMU_STATUS :: "u32" where
  [regs]: "LIMA_PMU_STATUS = 0x08"

definition LIMA_PMU_INT_MASK :: "u32" where
  [regs]: "LIMA_PMU_INT_MASK = 0x0C"

definition LIMA_PMU_INT_RAWSTAT :: "u32" where
  [regs]: "LIMA_PMU_INT_RAWSTAT = 0x10"

definition LIMA_PMU_INT_CLEAR :: "u32" where
  [regs]: "LIMA_PMU_INT_CLEAR = 0x18"

definition LIMA_PMU_INT_CMD_MASK :: "u32" where
  [regs]: "LIMA_PMU_INT_CMD_MASK = BIT 0"

definition LIMA_PMU_SW_DELAY :: "u32" where
  [regs]: "LIMA_PMU_SW_DELAY = 0x1C"

subsection \<open>L2 cache registers\<close>

definition LIMA_L2_CACHE_SIZE :: "u32" where
  [regs]: "LIMA_L2_CACHE_SIZE = 0x0004"

definition LIMA_L2_CACHE_STATUS :: "u32" where
  [regs]: "LIMA_L2_CACHE_STATUS = 0x0008"

definition LIMA_L2_CACHE_STATUS_COMMAND_BUSY :: "u32" where
  [regs]: "LIMA_L2_CACHE_STATUS_COMMAND_BUSY = BIT 0"

definition LIMA_L2_CACHE_STATUS_DATA_BUSY :: "u32" where
  [regs]: "LIMA_L2_CACHE_STATUS_DATA_BUSY = BIT 1"

definition LIMA_L2_CACHE_COMMAND :: "u32" where
  [regs]: "LIMA_L2_CACHE_COMMAND = 0x0010"

definition LIMA_L2_CACHE_COMMAND_CLEAR_ALL :: "u32" where
  [regs]: "LIMA_L2_CACHE_COMMAND_CLEAR_ALL = BIT 0"

definition LIMA_L2_CACHE_CLEAR_PAGE :: "u32" where
  [regs]: "LIMA_L2_CACHE_CLEAR_PAGE = 0x0014"

definition LIMA_L2_CACHE_MAX_READS :: "u32" where
  [regs]: "LIMA_L2_CACHE_MAX_READS = 0x0018"

definition LIMA_L2_CACHE_ENABLE :: "u32" where
  [regs]: "LIMA_L2_CACHE_ENABLE = 0x001C"

definition LIMA_L2_CACHE_ENABLE_ACCESS :: "u32" where
  [regs]: "LIMA_L2_CACHE_ENABLE_ACCESS = BIT 0"

definition LIMA_L2_CACHE_ENABLE_READ_ALLOCATE :: "u32" where
  [regs]: "LIMA_L2_CACHE_ENABLE_READ_ALLOCATE = BIT 1"

definition LIMA_L2_CACHE_PERFCNT_SRC0 :: "u32" where
  [regs]: "LIMA_L2_CACHE_PERFCNT_SRC0 = 0x0020"

definition LIMA_L2_CACHE_PERFCNT_VAL0 :: "u32" where
  [regs]: "LIMA_L2_CACHE_PERFCNT_VAL0 = 0x0024"

definition LIMA_L2_CACHE_PERFCNT_SRC1 :: "u32" where
  [regs]: "LIMA_L2_CACHE_PERFCNT_SRC1 = 0x0028"

definition LIMA_L2_CACHE_ERFCNT_VAL1 :: "u32" where
  [regs]: "LIMA_L2_CACHE_ERFCNT_VAL1 = 0x002C"

subsection \<open>GP registers\<close>

definition LIMA_GP_VSCL_START_ADDR :: "u32" where
  [regs]: "LIMA_GP_VSCL_START_ADDR = 0x00"

definition LIMA_GP_VSCL_END_ADDR :: "u32" where
  [regs]: "LIMA_GP_VSCL_END_ADDR = 0x04"

definition LIMA_GP_PLBUCL_START_ADDR :: "u32" where
  [regs]: "LIMA_GP_PLBUCL_START_ADDR = 0x08"

definition LIMA_GP_PLBUCL_END_ADDR :: "u32" where
  [regs]: "LIMA_GP_PLBUCL_END_ADDR = 0x0c"

definition LIMA_GP_PLBU_ALLOC_START_ADDR :: "u32" where
  [regs]: "LIMA_GP_PLBU_ALLOC_START_ADDR = 0x10"

definition LIMA_GP_PLBU_ALLOC_END_ADDR :: "u32" where
  [regs]: "LIMA_GP_PLBU_ALLOC_END_ADDR = 0x14"

definition LIMA_GP_CMD :: "u32" where
  [regs]: "LIMA_GP_CMD = 0x20"

definition LIMA_GP_CMD_START_VS :: "u32" where
  [regs]: "LIMA_GP_CMD_START_VS = BIT 0"

definition LIMA_GP_CMD_START_PLBU :: "u32" where
  [regs]: "LIMA_GP_CMD_START_PLBU = BIT 1"

definition LIMA_GP_CMD_UPDATE_PLBU_ALLOC :: "u32" where
  [regs]: "LIMA_GP_CMD_UPDATE_PLBU_ALLOC = BIT 4"

definition LIMA_GP_CMD_RESET :: "u32" where
  [regs]: "LIMA_GP_CMD_RESET = BIT 5"

definition LIMA_GP_CMD_FORCE_HANG :: "u32" where
  [regs]: "LIMA_GP_CMD_FORCE_HANG = BIT 6"

definition LIMA_GP_CMD_STOP_BUS :: "u32" where
  [regs]: "LIMA_GP_CMD_STOP_BUS = BIT 9"

definition LIMA_GP_CMD_SOFT_RESET :: "u32" where
  [regs]: "LIMA_GP_CMD_SOFT_RESET = BIT 10"

definition LIMA_GP_INT_RAWSTAT :: "u32" where
  [regs]: "LIMA_GP_INT_RAWSTAT = 0x24"

definition LIMA_GP_INT_CLEAR :: "u32" where
  [regs]: "LIMA_GP_INT_CLEAR = 0x28"

definition LIMA_GP_INT_MASK :: "u32" where
  [regs]: "LIMA_GP_INT_MASK = 0x2C"

definition LIMA_GP_INT_STAT :: "u32" where
  [regs]: "LIMA_GP_INT_STAT = 0x30"

definition LIMA_GP_IRQ_VS_END_CMD_LST :: "u32" where
  [regs]: "LIMA_GP_IRQ_VS_END_CMD_LST = BIT 0"

definition LIMA_GP_IRQ_PLBU_END_CMD_LST :: "u32" where
  [regs]: "LIMA_GP_IRQ_PLBU_END_CMD_LST = BIT 1"

definition LIMA_GP_IRQ_PLBU_OUT_OF_MEM :: "u32" where
  [regs]: "LIMA_GP_IRQ_PLBU_OUT_OF_MEM = BIT 2"

definition LIMA_GP_IRQ_VS_SEM_IRQ :: "u32" where
  [regs]: "LIMA_GP_IRQ_VS_SEM_IRQ = BIT 3"

definition LIMA_GP_IRQ_PLBU_SEM_IRQ :: "u32" where
  [regs]: "LIMA_GP_IRQ_PLBU_SEM_IRQ = BIT 4"

definition LIMA_GP_IRQ_HANG :: "u32" where
  [regs]: "LIMA_GP_IRQ_HANG = BIT 5"

definition LIMA_GP_IRQ_FORCE_HANG :: "u32" where
  [regs]: "LIMA_GP_IRQ_FORCE_HANG = BIT 6"

definition LIMA_GP_IRQ_PERF_CNT_0_LIMIT :: "u32" where
  [regs]: "LIMA_GP_IRQ_PERF_CNT_0_LIMIT = BIT 7"

definition LIMA_GP_IRQ_PERF_CNT_1_LIMIT :: "u32" where
  [regs]: "LIMA_GP_IRQ_PERF_CNT_1_LIMIT = BIT 8"

definition LIMA_GP_IRQ_WRITE_BOUND_ERR :: "u32" where
  [regs]: "LIMA_GP_IRQ_WRITE_BOUND_ERR = BIT 9"

definition LIMA_GP_IRQ_SYNC_ERROR :: "u32" where
  [regs]: "LIMA_GP_IRQ_SYNC_ERROR = BIT 10"

definition LIMA_GP_IRQ_AXI_BUS_ERROR :: "u32" where
  [regs]: "LIMA_GP_IRQ_AXI_BUS_ERROR = BIT 11"

definition LIMA_GP_IRQ_AXI_BUS_STOPPED :: "u32" where
  [regs]: "LIMA_GP_IRQ_AXI_BUS_STOPPED = BIT 12"

definition LIMA_GP_IRQ_VS_INVALID_CMD :: "u32" where
  [regs]: "LIMA_GP_IRQ_VS_INVALID_CMD = BIT 13"

definition LIMA_GP_IRQ_PLB_INVALID_CMD :: "u32" where
  [regs]: "LIMA_GP_IRQ_PLB_INVALID_CMD = BIT 14"

definition LIMA_GP_IRQ_RESET_COMPLETED :: "u32" where
  [regs]: "LIMA_GP_IRQ_RESET_COMPLETED = BIT 19"

definition LIMA_GP_IRQ_SEMAPHORE_UNDERFLOW :: "u32" where
  [regs]: "LIMA_GP_IRQ_SEMAPHORE_UNDERFLOW = BIT 20"

definition LIMA_GP_IRQ_SEMAPHORE_OVERFLOW :: "u32" where
  [regs]: "LIMA_GP_IRQ_SEMAPHORE_OVERFLOW = BIT 21"

definition LIMA_GP_IRQ_PTR_ARRAY_OUT_OF_BOUNDS :: "u32" where
  [regs]: "LIMA_GP_IRQ_PTR_ARRAY_OUT_OF_BOUNDS = BIT 22"

definition LIMA_GP_WRITE_BOUND_LOW :: "u32" where
  [regs]: "LIMA_GP_WRITE_BOUND_LOW = 0x34"

definition LIMA_GP_PERF_CNT_0_ENABLE :: "u32" where
  [regs]: "LIMA_GP_PERF_CNT_0_ENABLE = 0x3C"

definition LIMA_GP_PERF_CNT_1_ENABLE :: "u32" where
  [regs]: "LIMA_GP_PERF_CNT_1_ENABLE = 0x40"

definition LIMA_GP_PERF_CNT_0_SRC :: "u32" where
  [regs]: "LIMA_GP_PERF_CNT_0_SRC = 0x44"

definition LIMA_GP_PERF_CNT_1_SRC :: "u32" where
  [regs]: "LIMA_GP_PERF_CNT_1_SRC = 0x48"

definition LIMA_GP_PERF_CNT_0_VALUE :: "u32" where
  [regs]: "LIMA_GP_PERF_CNT_0_VALUE = 0x4C"

definition LIMA_GP_PERF_CNT_1_VALUE :: "u32" where
  [regs]: "LIMA_GP_PERF_CNT_1_VALUE = 0x50"

definition LIMA_GP_PERF_CNT_0_LIMIT :: "u32" where
  [regs]: "LIMA_GP_PERF_CNT_0_LIMIT = 0x54"

definition LIMA_GP_STATUS :: "u32" where
  [regs]: "LIMA_GP_STATUS = 0x68"

definition LIMA_GP_STATUS_VS_ACTIVE :: "u32" where
  [regs]: "LIMA_GP_STATUS_VS_ACTIVE = BIT 1"

definition LIMA_GP_STATUS_BUS_STOPPED :: "u32" where
  [regs]: "LIMA_GP_STATUS_BUS_STOPPED = BIT 2"

definition LIMA_GP_STATUS_PLBU_ACTIVE :: "u32" where
  [regs]: "LIMA_GP_STATUS_PLBU_ACTIVE = BIT 3"

definition LIMA_GP_STATUS_BUS_ERROR :: "u32" where
  [regs]: "LIMA_GP_STATUS_BUS_ERROR = BIT 6"

definition LIMA_GP_STATUS_WRITE_BOUND_ERR :: "u32" where
  [regs]: "LIMA_GP_STATUS_WRITE_BOUND_ERR = BIT 8"

definition LIMA_GP_VERSION :: "u32" where
  [regs]: "LIMA_GP_VERSION = 0x6C"

definition LIMA_GP_VSCL_START_ADDR_READ :: "u32" where
  [regs]: "LIMA_GP_VSCL_START_ADDR_READ = 0x80"

definition LIMA_GP_PLBCL_START_ADDR_READ :: "u32" where
  [regs]: "LIMA_GP_PLBCL_START_ADDR_READ = 0x84"

definition LIMA_GP_CONTR_AXI_BUS_ERROR_STAT :: "u32" where
  [regs]: "LIMA_GP_CONTR_AXI_BUS_ERROR_STAT = 0x94"

definition LIMA_GP_IRQ_MASK_ALL :: "u32" where
  [regs]: "LIMA_GP_IRQ_MASK_ALL = (
    LIMA_GP_IRQ_VS_END_CMD_LST OR LIMA_GP_IRQ_PLBU_END_CMD_LST OR
    LIMA_GP_IRQ_PLBU_OUT_OF_MEM OR LIMA_GP_IRQ_VS_SEM_IRQ OR LIMA_GP_IRQ_PLBU_SEM_IRQ OR
    LIMA_GP_IRQ_HANG OR LIMA_GP_IRQ_FORCE_HANG OR LIMA_GP_IRQ_PERF_CNT_0_LIMIT OR
    LIMA_GP_IRQ_PERF_CNT_1_LIMIT OR LIMA_GP_IRQ_WRITE_BOUND_ERR OR LIMA_GP_IRQ_SYNC_ERROR OR
    LIMA_GP_IRQ_AXI_BUS_ERROR OR LIMA_GP_IRQ_AXI_BUS_STOPPED OR LIMA_GP_IRQ_VS_INVALID_CMD OR
    LIMA_GP_IRQ_PLB_INVALID_CMD OR LIMA_GP_IRQ_RESET_COMPLETED OR
    LIMA_GP_IRQ_SEMAPHORE_UNDERFLOW OR LIMA_GP_IRQ_SEMAPHORE_OVERFLOW OR
    LIMA_GP_IRQ_PTR_ARRAY_OUT_OF_BOUNDS)"

definition LIMA_GP_IRQ_MASK_ERROR :: "u32" where
  [regs]: "LIMA_GP_IRQ_MASK_ERROR = (
    LIMA_GP_IRQ_PLBU_OUT_OF_MEM OR LIMA_GP_IRQ_FORCE_HANG OR LIMA_GP_IRQ_WRITE_BOUND_ERR OR
    LIMA_GP_IRQ_SYNC_ERROR OR LIMA_GP_IRQ_AXI_BUS_ERROR OR LIMA_GP_IRQ_VS_INVALID_CMD OR
    LIMA_GP_IRQ_PLB_INVALID_CMD OR LIMA_GP_IRQ_SEMAPHORE_UNDERFLOW OR
    LIMA_GP_IRQ_SEMAPHORE_OVERFLOW OR LIMA_GP_IRQ_PTR_ARRAY_OUT_OF_BOUNDS)"

definition LIMA_GP_IRQ_MASK_USED :: "u32" where
  [regs]: "LIMA_GP_IRQ_MASK_USED = (
    LIMA_GP_IRQ_VS_END_CMD_LST OR LIMA_GP_IRQ_PLBU_END_CMD_LST OR LIMA_GP_IRQ_MASK_ERROR)"

subsection \<open>PP registers\<close>

definition LIMA_PP_FRAME :: "u32" where
  [regs]: "LIMA_PP_FRAME = 0x0000"

definition LIMA_PP_RSW :: "u32" where
  [regs]: "LIMA_PP_RSW = 0x0004"

definition LIMA_PP_STACK :: "u32" where
  [regs]: "LIMA_PP_STACK = 0x0030"

definition LIMA_PP_STACK_SIZE :: "u32" where
  [regs]: "LIMA_PP_STACK_SIZE = 0x0034"

definition LIMA_PP_ORIGIN_OFFSET_X :: "u32" where
  [regs]: "LIMA_PP_ORIGIN_OFFSET_X = 0x0040"

definition LIMA_PP_WB :: "u32 \<Rightarrow> u32" where
  [regs]: "LIMA_PP_WB i = 0x0100 * (i + 1)"

definition LIMA_PP_WB_SOURCE_SELECT :: "u32" where
  [regs]: "LIMA_PP_WB_SOURCE_SELECT = 0x0000"

definition LIMA_PP_WB_SOURCE_ADDR :: "u32" where
  [regs]: "LIMA_PP_WB_SOURCE_ADDR = 0x0004"

definition LIMA_PP_VERSION :: "u32" where
  [regs]: "LIMA_PP_VERSION = 0x1000"

definition LIMA_PP_CURRENT_REND_LIST_ADDR :: "u32" where
  [regs]: "LIMA_PP_CURRENT_REND_LIST_ADDR = 0x1004"

definition LIMA_PP_STATUS :: "u32" where
  [regs]: "LIMA_PP_STATUS = 0x1008"

definition LIMA_PP_STATUS_RENDERING_ACTIVE :: "u32" where
  [regs]: "LIMA_PP_STATUS_RENDERING_ACTIVE = BIT 0"

definition LIMA_PP_STATUS_BUS_STOPPED :: "u32" where
  [regs]: "LIMA_PP_STATUS_BUS_STOPPED = BIT 4"

definition LIMA_PP_CTRL :: "u32" where
  [regs]: "LIMA_PP_CTRL = 0x100c"

definition LIMA_PP_CTRL_STOP_BUS :: "u32" where
  [regs]: "LIMA_PP_CTRL_STOP_BUS = BIT 0"

definition LIMA_PP_CTRL_FLUSH_CACHES :: "u32" where
  [regs]: "LIMA_PP_CTRL_FLUSH_CACHES = BIT 3"

definition LIMA_PP_CTRL_FORCE_RESET :: "u32" where
  [regs]: "LIMA_PP_CTRL_FORCE_RESET = BIT 5"

definition LIMA_PP_CTRL_START_RENDERING :: "u32" where
  [regs]: "LIMA_PP_CTRL_START_RENDERING = BIT 6"

definition LIMA_PP_CTRL_SOFT_RESET :: "u32" where
  [regs]: "LIMA_PP_CTRL_SOFT_RESET = BIT 7"

definition LIMA_PP_INT_RAWSTAT :: "u32" where
  [regs]: "LIMA_PP_INT_RAWSTAT = 0x1020"

definition LIMA_PP_INT_CLEAR :: "u32" where
  [regs]: "LIMA_PP_INT_CLEAR = 0x1024"

definition LIMA_PP_INT_MASK :: "u32" where
  [regs]: "LIMA_PP_INT_MASK = 0x1028"

definition LIMA_PP_INT_STATUS :: "u32" where
  [regs]: "LIMA_PP_INT_STATUS = 0x102c"

definition LIMA_PP_IRQ_END_OF_FRAME :: "u32" where
  [regs]: "LIMA_PP_IRQ_END_OF_FRAME = BIT 0"

definition LIMA_PP_IRQ_END_OF_TILE :: "u32" where
  [regs]: "LIMA_PP_IRQ_END_OF_TILE = BIT 1"

definition LIMA_PP_IRQ_HANG :: "u32" where
  [regs]: "LIMA_PP_IRQ_HANG = BIT 2"

definition LIMA_PP_IRQ_FORCE_HANG :: "u32" where
  [regs]: "LIMA_PP_IRQ_FORCE_HANG = BIT 3"

definition LIMA_PP_IRQ_BUS_ERROR :: "u32" where
  [regs]: "LIMA_PP_IRQ_BUS_ERROR = BIT 4"

definition LIMA_PP_IRQ_BUS_STOP :: "u32" where
  [regs]: "LIMA_PP_IRQ_BUS_STOP = BIT 5"

definition LIMA_PP_IRQ_CNT_0_LIMIT :: "u32" where
  [regs]: "LIMA_PP_IRQ_CNT_0_LIMIT = BIT 6"

definition LIMA_PP_IRQ_CNT_1_LIMIT :: "u32" where
  [regs]: "LIMA_PP_IRQ_CNT_1_LIMIT = BIT 7"

definition LIMA_PP_IRQ_WRITE_BOUNDARY_ERROR :: "u32" where
  [regs]: "LIMA_PP_IRQ_WRITE_BOUNDARY_ERROR = BIT 8"

definition LIMA_PP_IRQ_INVALID_PLIST_COMMAND :: "u32" where
  [regs]: "LIMA_PP_IRQ_INVALID_PLIST_COMMAND = BIT 9"

definition LIMA_PP_IRQ_CALL_STACK_UNDERFLOW :: "u32" where
  [regs]: "LIMA_PP_IRQ_CALL_STACK_UNDERFLOW = BIT 10"

definition LIMA_PP_IRQ_CALL_STACK_OVERFLOW :: "u32" where
  [regs]: "LIMA_PP_IRQ_CALL_STACK_OVERFLOW = BIT 11"

definition LIMA_PP_IRQ_RESET_COMPLETED :: "u32" where
  [regs]: "LIMA_PP_IRQ_RESET_COMPLETED = BIT 12"

definition LIMA_PP_WRITE_BOUNDARY_LOW :: "u32" where
  [regs]: "LIMA_PP_WRITE_BOUNDARY_LOW = 0x1044"

definition LIMA_PP_BUS_ERROR_STATUS :: "u32" where
  [regs]: "LIMA_PP_BUS_ERROR_STATUS = 0x1050"

definition LIMA_PP_PERF_CNT_0_ENABLE :: "u32" where
  [regs]: "LIMA_PP_PERF_CNT_0_ENABLE = 0x1080"

definition LIMA_PP_PERF_CNT_0_SRC :: "u32" where
  [regs]: "LIMA_PP_PERF_CNT_0_SRC = 0x1084"

definition LIMA_PP_PERF_CNT_0_LIMIT :: "u32" where
  [regs]: "LIMA_PP_PERF_CNT_0_LIMIT = 0x1088"

definition LIMA_PP_PERF_CNT_0_VALUE :: "u32" where
  [regs]: "LIMA_PP_PERF_CNT_0_VALUE = 0x108c"

definition LIMA_PP_PERF_CNT_1_ENABLE :: "u32" where
  [regs]: "LIMA_PP_PERF_CNT_1_ENABLE = 0x10a0"

definition LIMA_PP_PERF_CNT_1_SRC :: "u32" where
  [regs]: "LIMA_PP_PERF_CNT_1_SRC = 0x10a4"

definition LIMA_PP_PERF_CNT_1_LIMIT :: "u32" where
  [regs]: "LIMA_PP_PERF_CNT_1_LIMIT = 0x10a8"

definition LIMA_PP_PERF_CNT_1_VALUE :: "u32" where
  [regs]: "LIMA_PP_PERF_CNT_1_VALUE = 0x10ac"

definition LIMA_PP_PERFMON_CONTR :: "u32" where
  [regs]: "LIMA_PP_PERFMON_CONTR = 0x10b0"

definition LIMA_PP_PERFMON_BASE :: "u32" where
  [regs]: "LIMA_PP_PERFMON_BASE = 0x10b4"

definition LIMA_PP_IRQ_MASK_ALL :: "u32" where
  [regs]: "LIMA_PP_IRQ_MASK_ALL = (
    LIMA_PP_IRQ_END_OF_FRAME OR LIMA_PP_IRQ_END_OF_TILE OR LIMA_PP_IRQ_HANG OR
    LIMA_PP_IRQ_FORCE_HANG OR LIMA_PP_IRQ_BUS_ERROR OR LIMA_PP_IRQ_BUS_STOP OR
    LIMA_PP_IRQ_CNT_0_LIMIT OR LIMA_PP_IRQ_CNT_1_LIMIT OR LIMA_PP_IRQ_WRITE_BOUNDARY_ERROR OR
    LIMA_PP_IRQ_INVALID_PLIST_COMMAND OR LIMA_PP_IRQ_CALL_STACK_UNDERFLOW OR
    LIMA_PP_IRQ_CALL_STACK_OVERFLOW OR LIMA_PP_IRQ_RESET_COMPLETED)"

definition LIMA_PP_IRQ_MASK_ERROR :: "u32" where
  [regs]: "LIMA_PP_IRQ_MASK_ERROR = (
    LIMA_PP_IRQ_FORCE_HANG OR LIMA_PP_IRQ_BUS_ERROR OR LIMA_PP_IRQ_WRITE_BOUNDARY_ERROR OR
    LIMA_PP_IRQ_INVALID_PLIST_COMMAND OR LIMA_PP_IRQ_CALL_STACK_UNDERFLOW OR
    LIMA_PP_IRQ_CALL_STACK_OVERFLOW)"

definition LIMA_PP_IRQ_MASK_USED :: "u32" where
  [regs]: "LIMA_PP_IRQ_MASK_USED = LIMA_PP_IRQ_END_OF_FRAME OR LIMA_PP_IRQ_MASK_ERROR"

subsection \<open>MMU registers\<close>

definition LIMA_MMU_DTE_ADDR :: "u32" where
  [regs]: "LIMA_MMU_DTE_ADDR = 0x0000"

definition LIMA_MMU_STATUS :: "u32" where
  [regs]: "LIMA_MMU_STATUS = 0x0004"

definition LIMA_MMU_STATUS_PAGING_ENABLED :: "u32" where
  [regs]: "LIMA_MMU_STATUS_PAGING_ENABLED = BIT 0"

definition LIMA_MMU_STATUS_PAGE_FAULT_ACTIVE :: "u32" where
  [regs]: "LIMA_MMU_STATUS_PAGE_FAULT_ACTIVE = BIT 1"

definition LIMA_MMU_STATUS_STALL_ACTIVE :: "u32" where
  [regs]: "LIMA_MMU_STATUS_STALL_ACTIVE = BIT 2"

definition LIMA_MMU_STATUS_IDLE :: "u32" where
  [regs]: "LIMA_MMU_STATUS_IDLE = BIT 3"

definition LIMA_MMU_STATUS_REPLAY_BUFFER_EMPTY :: "u32" where
  [regs]: "LIMA_MMU_STATUS_REPLAY_BUFFER_EMPTY = BIT 4"

definition LIMA_MMU_STATUS_PAGE_FAULT_IS_WRITE :: "u32" where
  [regs]: "LIMA_MMU_STATUS_PAGE_FAULT_IS_WRITE = BIT 5"

definition LIMA_MMU_STATUS_BUS_ID :: "u32 \<Rightarrow> u32" where
  [regs]: "LIMA_MMU_STATUS_BUS_ID x = drop_bit 6 x AND 0x1F"

definition LIMA_MMU_COMMAND :: "u32" where
  [regs]: "LIMA_MMU_COMMAND = 0x0008"

definition LIMA_MMU_COMMAND_ENABLE_PAGING :: "u32" where
  [regs]: "LIMA_MMU_COMMAND_ENABLE_PAGING = 0x00"

definition LIMA_MMU_COMMAND_DISABLE_PAGING :: "u32" where
  [regs]: "LIMA_MMU_COMMAND_DISABLE_PAGING = 0x01"

definition LIMA_MMU_COMMAND_ENABLE_STALL :: "u32" where
  [regs]: "LIMA_MMU_COMMAND_ENABLE_STALL = 0x02"

definition LIMA_MMU_COMMAND_DISABLE_STALL :: "u32" where
  [regs]: "LIMA_MMU_COMMAND_DISABLE_STALL = 0x03"

definition LIMA_MMU_COMMAND_ZAP_CACHE :: "u32" where
  [regs]: "LIMA_MMU_COMMAND_ZAP_CACHE = 0x04"

definition LIMA_MMU_COMMAND_PAGE_FAULT_DONE :: "u32" where
  [regs]: "LIMA_MMU_COMMAND_PAGE_FAULT_DONE = 0x05"

definition LIMA_MMU_COMMAND_HARD_RESET :: "u32" where
  [regs]: "LIMA_MMU_COMMAND_HARD_RESET = 0x06"

definition LIMA_MMU_PAGE_FAULT_ADDR :: "u32" where
  [regs]: "LIMA_MMU_PAGE_FAULT_ADDR = 0x000C"

definition LIMA_MMU_ZAP_ONE_LINE :: "u32" where
  [regs]: "LIMA_MMU_ZAP_ONE_LINE = 0x0010"

definition LIMA_MMU_INT_RAWSTAT :: "u32" where
  [regs]: "LIMA_MMU_INT_RAWSTAT = 0x0014"

definition LIMA_MMU_INT_CLEAR :: "u32" where
  [regs]: "LIMA_MMU_INT_CLEAR = 0x0018"

definition LIMA_MMU_INT_MASK :: "u32" where
  [regs]: "LIMA_MMU_INT_MASK = 0x001C"

definition LIMA_MMU_INT_PAGE_FAULT :: "u32" where
  [regs]: "LIMA_MMU_INT_PAGE_FAULT = BIT 0"

definition LIMA_MMU_INT_READ_BUS_ERROR :: "u32" where
  [regs]: "LIMA_MMU_INT_READ_BUS_ERROR = BIT 1"

definition LIMA_MMU_INT_STATUS :: "u32" where
  [regs]: "LIMA_MMU_INT_STATUS = 0x0020"

subsection \<open>Page-table entry flags\<close>

definition LIMA_VM_FLAG_PRESENT :: "u32" where
  [regs]: "LIMA_VM_FLAG_PRESENT = BIT 0"

definition LIMA_VM_FLAG_READ_PERMISSION :: "u32" where
  [regs]: "LIMA_VM_FLAG_READ_PERMISSION = BIT 1"

definition LIMA_VM_FLAG_WRITE_PERMISSION :: "u32" where
  [regs]: "LIMA_VM_FLAG_WRITE_PERMISSION = BIT 2"

definition LIMA_VM_FLAG_OVERRIDE_CACHE :: "u32" where
  [regs]: "LIMA_VM_FLAG_OVERRIDE_CACHE = BIT 3"

definition LIMA_VM_FLAG_WRITE_CACHEABLE :: "u32" where
  [regs]: "LIMA_VM_FLAG_WRITE_CACHEABLE = BIT 4"

definition LIMA_VM_FLAG_WRITE_ALLOCATE :: "u32" where
  [regs]: "LIMA_VM_FLAG_WRITE_ALLOCATE = BIT 5"

definition LIMA_VM_FLAG_WRITE_BUFFERABLE :: "u32" where
  [regs]: "LIMA_VM_FLAG_WRITE_BUFFERABLE = BIT 6"

definition LIMA_VM_FLAG_READ_CACHEABLE :: "u32" where
  [regs]: "LIMA_VM_FLAG_READ_CACHEABLE = BIT 7"

definition LIMA_VM_FLAG_READ_ALLOCATE :: "u32" where
  [regs]: "LIMA_VM_FLAG_READ_ALLOCATE = BIT 8"

definition LIMA_VM_FLAG_MASK :: "u32" where
  [regs]: "LIMA_VM_FLAG_MASK = 0x1FF"

definition LIMA_VM_FLAGS_CACHE :: "u32" where
  [regs]: "LIMA_VM_FLAGS_CACHE = (
    LIMA_VM_FLAG_PRESENT OR LIMA_VM_FLAG_READ_PERMISSION OR LIMA_VM_FLAG_WRITE_PERMISSION OR
    LIMA_VM_FLAG_OVERRIDE_CACHE OR LIMA_VM_FLAG_WRITE_CACHEABLE OR
    LIMA_VM_FLAG_WRITE_BUFFERABLE OR LIMA_VM_FLAG_READ_CACHEABLE OR LIMA_VM_FLAG_READ_ALLOCATE)"

definition LIMA_VM_FLAGS_UNCACHE :: "u32" where
  [regs]: "LIMA_VM_FLAGS_UNCACHE = (
    LIMA_VM_FLAG_PRESENT OR LIMA_VM_FLAG_READ_PERMISSION OR LIMA_VM_FLAG_WRITE_PERMISSION)"

subsection \<open>DLBU registers\<close>

definition LIMA_DLBU_MASTER_TLLIST_PHYS_ADDR :: "u32" where
  [regs]: "LIMA_DLBU_MASTER_TLLIST_PHYS_ADDR = 0x0000"

definition LIMA_DLBU_MASTER_TLLIST_VADDR :: "u32" where
  [regs]: "LIMA_DLBU_MASTER_TLLIST_VADDR = 0x0004"

definition LIMA_DLBU_TLLIST_VBASEADDR :: "u32" where
  [regs]: "LIMA_DLBU_TLLIST_VBASEADDR = 0x0008"

definition LIMA_DLBU_FB_DIM :: "u32" where
  [regs]: "LIMA_DLBU_FB_DIM = 0x000C"

definition LIMA_DLBU_TLLIST_CONF :: "u32" where
  [regs]: "LIMA_DLBU_TLLIST_CONF = 0x0010"

definition LIMA_DLBU_START_TILE_POS :: "u32" where
  [regs]: "LIMA_DLBU_START_TILE_POS = 0x0014"

definition LIMA_DLBU_PP_ENABLE_MASK :: "u32" where
  [regs]: "LIMA_DLBU_PP_ENABLE_MASK = 0x0018"

subsection \<open>BCAST registers\<close>

definition LIMA_BCAST_BROADCAST_MASK :: "u32" where
  [regs]: "LIMA_BCAST_BROADCAST_MASK = 0x0"

definition LIMA_BCAST_INTERRUPT_MASK :: "u32" where
  [regs]: "LIMA_BCAST_INTERRUPT_MASK = 0x4"

subsection \<open>Facts of the register map\<close>

text \<open>
  The interrupt masks as numerals. The drivers enable exactly the \<open>USED\<close> interrupts; every
  error interrupt is among them, and every one of them is among \<open>ALL\<close>, so that the
  \<open>INT_CLEAR\<close> write of a reset acknowledges whatever an enabled source has raised.
\<close>

lemma gp_masks_eval:
  "LIMA_GP_IRQ_MASK_ALL = 0x787FFF"
  "LIMA_GP_IRQ_MASK_ERROR = 0x706E44"
  "LIMA_GP_IRQ_MASK_USED = 0x706E47"
  by (simp_all add: regs)

lemma pp_masks_eval:
  "LIMA_PP_IRQ_MASK_ALL = 0x1FFF"
  "LIMA_PP_IRQ_MASK_ERROR = 0xF18"
  "LIMA_PP_IRQ_MASK_USED = 0xF19"
  by (simp_all add: regs)

lemma vm_flags_eval:
  "LIMA_VM_FLAGS_CACHE = 0x1DF"
  "LIMA_VM_FLAGS_UNCACHE = 7"
  "LIMA_VM_FLAG_PRESENT = 1"
  by (simp_all add: regs)

end
