(* ===== verification/Lima_Pagetable.thy ===== *)
theory Lima_Pagetable
  imports Lima_Dma Lima_Regs
begin

text \<open>
  The page tables of a GPU address space: \<open>struct lima_vm\<close>, \<open>lima_vm_map_page_table\<close> and
  \<open>lima_vm_unmap_page_table\<close> of \<open>lima_vm.c\<close>, with the constants of \<open>lima_vm.h\<close>, and the
  two-level walk of the MMU, which is the specification they are proved against.

  The driver allocates page tables eight at a time, as one block of 32 KiB that covers 32 MiB
  of addresses: block table \<open>PBE(va)\<close>, entry \<open>BTE(va)\<close>. The hardware sees a page directory of
  1024 entries and page tables of 1024 entries: directory entry \<open>PDE(va)\<close>, table entry
  \<open>PTE(va)\<close>. That the two views agree is the refinement \<open>walk_eq_pte\<close> below.
\<close>

section \<open>Constants\<close>

definition LIMA_PAGE_SIZE :: nat where [regs]: "LIMA_PAGE_SIZE = 4096"
definition LIMA_PAGE_MASK :: nat where [regs]: "LIMA_PAGE_MASK = LIMA_PAGE_SIZE - 1"
definition LIMA_PAGE_ENT_NUM :: nat where [regs]: "LIMA_PAGE_ENT_NUM = LIMA_PAGE_SIZE div 4"

definition LIMA_VM_NUM_PT_PER_BT_SHIFT :: nat where [regs]: "LIMA_VM_NUM_PT_PER_BT_SHIFT = 3"
definition LIMA_VM_NUM_PT_PER_BT :: nat where
  [regs]: "LIMA_VM_NUM_PT_PER_BT = push_bit LIMA_VM_NUM_PT_PER_BT_SHIFT 1"
definition LIMA_VM_NUM_BT :: nat where
  [regs]: "LIMA_VM_NUM_BT = drop_bit LIMA_VM_NUM_PT_PER_BT_SHIFT LIMA_PAGE_ENT_NUM"

definition LIMA_VA_RESERVE_START :: u64 where [regs]: "LIMA_VA_RESERVE_START = 0xFFF00000"
definition LIMA_VA_RESERVE_DLBU :: u64 where [regs]: "LIMA_VA_RESERVE_DLBU = LIMA_VA_RESERVE_START"
definition LIMA_VA_RESERVE_END :: u64 where [regs]: "LIMA_VA_RESERVE_END = 0x100000000"

definition LIMA_VM_PD_SHIFT :: nat where [regs]: "LIMA_VM_PD_SHIFT = 22"
definition LIMA_VM_PT_SHIFT :: nat where [regs]: "LIMA_VM_PT_SHIFT = 12"
definition LIMA_VM_PB_SHIFT :: nat where
  [regs]: "LIMA_VM_PB_SHIFT = LIMA_VM_PD_SHIFT + LIMA_VM_NUM_PT_PER_BT_SHIFT"
definition LIMA_VM_BT_SHIFT :: nat where [regs]: "LIMA_VM_BT_SHIFT = LIMA_VM_PT_SHIFT"

text \<open>The masks \<open>(1 << n) - 1\<close> are applied to 32-bit and 64-bit addresses alike.\<close>

definition LIMA_VM_PT_MASK :: "'a :: len word" where
  [regs]: "LIMA_VM_PT_MASK = push_bit LIMA_VM_PD_SHIFT 1 - 1"
definition LIMA_VM_BT_MASK :: "'a :: len word" where
  [regs]: "LIMA_VM_BT_MASK = push_bit LIMA_VM_PB_SHIFT 1 - 1"

definition LIMA_PDE :: "'a :: len word \<Rightarrow> nat" where
  "LIMA_PDE va = unat (drop_bit LIMA_VM_PD_SHIFT va)"
definition LIMA_PTE :: "'a :: len word \<Rightarrow> nat" where
  "LIMA_PTE va = unat (drop_bit LIMA_VM_PT_SHIFT (va AND LIMA_VM_PT_MASK))"
definition LIMA_PBE :: "'a :: len word \<Rightarrow> nat" where
  "LIMA_PBE va = unat (drop_bit LIMA_VM_PB_SHIFT va)"
definition LIMA_BTE :: "'a :: len word \<Rightarrow> nat" where
  "LIMA_BTE va = unat (drop_bit LIMA_VM_BT_SHIFT (va AND LIMA_VM_BT_MASK))"

subsection \<open>The index macros on page numbers\<close>

lemma low_bits_div: "(n mod (2 ^ (a + b))) div 2 ^ a = (n div 2 ^ a) mod 2 ^ b" for n :: nat
  by (simp add: power_add mod_mult2_eq)

lemma unat_shift_mask:
  "unat (drop_bit n (va AND (push_bit m 1 - 1))) = unat va mod 2 ^ m div 2 ^ n"
  by (simp only: unat_drop_bit_eq mask_eq_exp_minus_1 [symmetric] push_bit_eq_mult mult_1
      take_bit_eq_mask [symmetric] unsigned_take_bit_eq drop_bit_eq_div [where 'a = nat]
      take_bit_eq_mod [where 'a = nat])

lemma pde_unat: "LIMA_PDE va = unat va div 4096 div 1024"
  by (simp only: LIMA_PDE_def LIMA_VM_PD_SHIFT_def unat_drop_bit_eq drop_bit_eq_div [where 'a = nat])
    (simp add: div_mult2_eq [symmetric])

lemma pbe_unat: "LIMA_PBE va = unat va div 4096 div 8192"
  by (simp only: LIMA_PBE_def LIMA_VM_PB_SHIFT_def LIMA_VM_PD_SHIFT_def
      LIMA_VM_NUM_PT_PER_BT_SHIFT_def unat_drop_bit_eq drop_bit_eq_div [where 'a = nat])
    (simp add: div_mult2_eq [symmetric])

lemma pte_unat: "LIMA_PTE va = unat va div 4096 mod 1024"
proof -
  have "LIMA_PTE va = unat va mod 2 ^ (12 + 10) div 2 ^ 12"
    by (simp only: LIMA_PTE_def LIMA_VM_PT_MASK_def LIMA_VM_PD_SHIFT_def LIMA_VM_PT_SHIFT_def
        unat_shift_mask) simp
  then show ?thesis by (simp only: low_bits_div) simp
qed

lemma bte_unat: "LIMA_BTE va = unat va div 4096 mod 8192"
proof -
  have "LIMA_BTE va = unat va mod 2 ^ (12 + 13) div 2 ^ 12"
    by (simp only: LIMA_BTE_def LIMA_VM_BT_MASK_def LIMA_VM_PB_SHIFT_def LIMA_VM_PD_SHIFT_def
        LIMA_VM_NUM_PT_PER_BT_SHIFT_def LIMA_VM_BT_SHIFT_def LIMA_VM_PT_SHIFT_def
        unat_shift_mask) simp
  then show ?thesis by (simp only: low_bits_div) simp
qed

text \<open>No index of a 32-bit address runs past its table.\<close>

lemma index_bounds:
  fixes va :: u32
  shows "LIMA_PBE va < LIMA_VM_NUM_BT" and "LIMA_PDE va < LIMA_PAGE_ENT_NUM"
    and "LIMA_BTE va < LIMA_VM_NUM_PT_PER_BT * LIMA_PAGE_ENT_NUM"
    and "LIMA_PTE va < LIMA_PAGE_ENT_NUM"
proof -
  have "unat va < 2 ^ 32" using unsigned_less [of va] by simp
  then show "LIMA_PBE va < LIMA_VM_NUM_BT" and "LIMA_PDE va < LIMA_PAGE_ENT_NUM"
    by (simp_all add: pbe_unat pde_unat regs drop_bit_eq_div less_mult_imp_div_less div_mult2_eq [symmetric])
qed (simp_all add: bte_unat pte_unat regs)

section \<open>The address space\<close>

text \<open>
  \<open>struct lima_vm\<close>. A block table is its bus address and its entries; \<open>None\<close> is a block whose
  \<open>cpu\<close> pointer is null. \<open>vm_mm\<close> is the range allocator's state: its range and the nodes in
  it, by start and size.
\<close>

record drm_mm =
  mm_start :: nat
  mm_size :: nat
  mm_nodes :: "(nat \<times> nat) list"

record lima_vm =
  vm_refcount :: nat
  vm_mm :: drm_mm
  vm_pd_dma :: u32
  vm_pd :: "nat \<Rightarrow> u32"
  vm_bts :: "nat \<Rightarrow> (u32 \<times> (nat \<Rightarrow> u32)) option"

definition LIMA_VM_BT_BYTES :: nat where
  [regs]: "LIMA_VM_BT_BYTES = push_bit LIMA_VM_NUM_PT_PER_BT_SHIFT LIMA_PAGE_SIZE"

text \<open>\<open>vm->bts[pbe].cpu[bte] = v\<close>; a null \<open>cpu\<close> pointer is an oops.\<close>

definition vm_set_entry :: "lima_vm \<Rightarrow> nat \<Rightarrow> nat \<Rightarrow> u32 \<Rightarrow> lima_vm option" where
  "vm_set_entry vm pbe bte v = (case vm_bts vm pbe of
     None \<Rightarrow> None
   | Some (d, cpu) \<Rightarrow> Some (vm\<lparr>vm_bts := (vm_bts vm)(pbe \<mapsto> (d, cpu(bte := v)))\<rparr>))"

text \<open>
  The loop of \<open>lima_vm_unmap_page_table\<close>. Its counter is a \<open>u32\<close>, so the addition wraps, and
  the loop need not end: \<open>None\<close> is "it does not return".
\<close>

partial_function (option) lima_vm_unmap_loop :: "lima_vm \<Rightarrow> u32 \<Rightarrow> u32 \<Rightarrow> lima_vm option" where
  "lima_vm_unmap_loop vm addr final =
     (if addr \<le> final then do {
        vm \<leftarrow> vm_set_entry vm (LIMA_PBE addr) (LIMA_BTE addr) 0;
        lima_vm_unmap_loop vm (addr + 4096) final
      } else Some vm)"

definition lima_vm_unmap_page_table :: "lima_vm \<Rightarrow> u32 \<Rightarrow> u32 \<Rightarrow> lima_vm option" where
  "lima_vm_unmap_page_table vm start final = lima_vm_unmap_loop vm start final"

text \<open>
  The \<open>if (!vm->bts[pbe].cpu)\<close> statement of \<open>lima_vm_map_page_table\<close>: the allocation of a
  block and the eight directory entries that point to its tables; \<open>None\<close> when the allocation
  fails.
\<close>

fun fill_pd :: "nat \<Rightarrow> nat \<Rightarrow> u32 \<Rightarrow> (nat \<Rightarrow> u32) \<Rightarrow> (nat \<Rightarrow> u32)" where
  "fill_pd j 0 pts pd = pd"
| "fill_pd j (Suc n) pts pd =
     fill_pd (Suc j) n (pts + of_nat LIMA_PAGE_SIZE) (pd(j := pts OR LIMA_VM_FLAG_PRESENT))"

definition lima_vm_ensure_bt ::
    "lima_vm \<Rightarrow> nat \<Rightarrow> 'a dma_st_scheme \<Rightarrow> lima_vm option \<times> 'a dma_st_scheme" where
  "lima_vm_ensure_bt vm pbe s = (case vm_bts vm pbe of
     Some _ \<Rightarrow> (Some vm, s)
   | None \<Rightarrow> case dma_alloc_wc LIMA_VM_BT_BYTES s of
     (None, s) \<Rightarrow> (None, s)
   | (Some d, s) \<Rightarrow> (Some (vm\<lparr>
        vm_bts := (vm_bts vm)(pbe \<mapsto> (d, \<lambda>_. 0)),
        vm_pd := fill_pd (push_bit LIMA_VM_NUM_PT_PER_BT_SHIFT pbe) LIMA_VM_NUM_PT_PER_BT d (vm_pd vm)\<rparr>), s))"

text \<open>
  The loop of \<open>lima_vm_map_page_table\<close>; its counter is a \<open>u64\<close>, so it ends for every \<open>u32\<close>
  bound. The failure of an allocation unmaps what the loop has mapped.
\<close>

function lima_vm_map_loop ::
    "lima_vm \<Rightarrow> (nat \<Rightarrow> u32) \<Rightarrow> u32 \<Rightarrow> u32 \<Rightarrow> u64 \<Rightarrow> nat \<Rightarrow> 'a dma_st_scheme
      \<Rightarrow> (int \<times> lima_vm \<times> 'a dma_st_scheme) option" where
  "lima_vm_map_loop vm dma start final addr i s =
     (if addr \<le> ucast final then
        (let pbe = LIMA_PBE addr; bte = LIMA_BTE addr in
         case lima_vm_ensure_bt vm pbe s of
           (None, s) \<Rightarrow>
             (if addr \<noteq> ucast start then do {
                vm \<leftarrow> lima_vm_unmap_page_table vm start (ucast (addr - 1));
                Some (- ENOMEM, vm, s)
              } else Some (- ENOMEM, vm, s))
         | (Some vm, s) \<Rightarrow> do {
             vm \<leftarrow> vm_set_entry vm pbe bte (dma i OR LIMA_VM_FLAGS_CACHE);
             lima_vm_map_loop vm dma start final (addr + 4096) (Suc i) s
           })
      else Some (0, vm, s))"
  by pat_completeness auto
termination
proof (relation "measure (\<lambda>(vm, dma, start, final, addr, i, s). 2 ^ 33 - unat addr)", goal_cases)
  case 1
  then show ?case by simp
next
  case (2 vm dma start final addr i s)
  have "unat (ucast final :: u64) < 2 ^ 32"
    using unat_lt_32 [of final] by simp
  with 2(1) have "unat addr < 2 ^ 32" by (simp add: word_le_nat_alt)
  then have "unat (addr + 4096) = unat addr + 4096" by (simp add: unat_word_ariths)
  with \<open>unat addr < 2 ^ 32\<close> show ?case by simp
qed

declare lima_vm_map_loop.simps [simp del]

definition lima_vm_map_page_table ::
    "lima_vm \<Rightarrow> (nat \<Rightarrow> u32) \<Rightarrow> u32 \<Rightarrow> u32 \<Rightarrow> 'a dma_st_scheme
      \<Rightarrow> (int \<times> lima_vm \<times> 'a dma_st_scheme) option" where
  "lima_vm_map_page_table vm dma start final s =
     lima_vm_map_loop vm dma start final (ucast start) 0 s"

section \<open>What the tables say\<close>

text \<open>
  The entry of page number \<open>p\<close> in the driver's view, the bus addresses of the blocks, and what
  a change of entries leaves alone.
\<close>

definition pte :: "lima_vm \<Rightarrow> nat \<Rightarrow> u32" where
  "pte vm p = (case vm_bts vm (p div 8192) of None \<Rightarrow> 0 | Some (d, cpu) \<Rightarrow> cpu (p mod 8192))"

definition vm_block :: "lima_vm \<Rightarrow> nat \<Rightarrow> u32 option" where
  "vm_block vm i = map_option fst (vm_bts vm i)"

definition vm_frame :: "lima_vm \<Rightarrow> lima_vm \<Rightarrow> bool" where
  "vm_frame vm vm' \<longleftrightarrow> vm_refcount vm' = vm_refcount vm \<and> vm_mm vm' = vm_mm vm \<and>
     vm_pd_dma vm' = vm_pd_dma vm \<and> vm_pd vm' = vm_pd vm \<and> vm_block vm' = vm_block vm"

text \<open>The buffers an address space owns.\<close>

definition vm_bufs :: "lima_vm \<Rightarrow> (u32 \<times> nat) set" where
  "vm_bufs vm = insert (vm_pd_dma vm, LIMA_PAGE_SIZE)
     ((\<lambda>d. (d, LIMA_VM_BT_BYTES)) ` ran (vm_block vm))"

text \<open>
  Well-formed tables: blocks only below 128, their addresses page aligned and disjoint, the
  eight directory entries of a block present and pointing to its eight tables, every other
  directory entry empty, and every buffer live.
\<close>

definition vm_tables_ok :: "lima_vm \<Rightarrow> bool" where
  "vm_tables_ok vm \<longleftrightarrow>
     (\<forall>i d. vm_block vm i = Some d \<longrightarrow> i < 128 \<and> 4096 dvd unat d \<and> unat d + 32768 \<le> 2 ^ 32 \<and>
        (\<forall>j < 8. vm_pd vm (i * 8 + j) = (d + of_nat (4096 * j)) OR LIMA_VM_FLAG_PRESENT)) \<and>
     (\<forall>i j. vm_block vm i = None \<and> j < 8 \<longrightarrow> vm_pd vm (i * 8 + j) = 0) \<and>
     (\<forall>i k d e. vm_block vm i = Some d \<and> vm_block vm k = Some e \<and> i \<noteq> k \<longrightarrow>
        buf_disjoint (d, 32768) (e, 32768))"

definition vm_wf :: "lima_vm \<Rightarrow> 'a dma_st_scheme \<Rightarrow> bool" where
  "vm_wf vm s \<longleftrightarrow> vm_tables_ok vm \<and> vm_bufs vm \<subseteq> dm_live s"

lemma vm_frame_refl [simp]: "vm_frame vm vm"
  by (simp add: vm_frame_def)

lemma vm_frame_trans: "vm_frame a b \<Longrightarrow> vm_frame b c \<Longrightarrow> vm_frame a c"
  by (simp add: vm_frame_def)

lemma vm_frame_tables: "vm_frame vm vm' \<Longrightarrow> vm_tables_ok vm' = vm_tables_ok vm"
  by (simp add: vm_frame_def vm_tables_ok_def)

lemma vm_frame_bufs: "vm_frame vm vm' \<Longrightarrow> vm_bufs vm' = vm_bufs vm"
  by (simp add: vm_frame_def vm_bufs_def)

lemma vm_block_None: "vm_block vm i = None \<longleftrightarrow> vm_bts vm i = None"
  by (simp add: vm_block_def)

lemma pte_no_block: "vm_block vm (p div 8192) = None \<Longrightarrow> pte vm p = 0"
  by (simp add: pte_def vm_block_None)

section \<open>The walk of the hardware\<close>

text \<open>
  The memory of an address space as the MMU reads it: the block that contains a bus address,
  and the word at that offset. The walk takes the directory entry of an address; an entry
  without the present bit is a page fault.
\<close>

definition vm_mem :: "lima_vm \<Rightarrow> nat \<Rightarrow> u32 option" where
  "vm_mem vm a =
     (case filter (\<lambda>i. case vm_bts vm i of None \<Rightarrow> False
                       | Some (d, cpu) \<Rightarrow> unat d \<le> a \<and> a < unat d + 32768) [0..<128] of
        [] \<Rightarrow> None
      | i # _ \<Rightarrow> map_option (\<lambda>(d, cpu). cpu ((a - unat d) div 4)) (vm_bts vm i))"

definition mmu_walk :: "lima_vm \<Rightarrow> u32 \<Rightarrow> u32 option" where
  "mmu_walk vm va =
     (let pde = vm_pd vm (LIMA_PDE va) in
      if pde AND LIMA_VM_FLAG_PRESENT = 0 then None
      else vm_mem vm (unat (pde AND NOT 0xFFF) + 4 * LIMA_PTE va))"

lemma aligned_low_bits: "4096 dvd unat w \<Longrightarrow> n < 12 \<Longrightarrow> \<not> bit w n" for w :: u32
proof -
  assume a: "4096 dvd unat w" and n: "n < 12"
  have "take_bit 12 (unat w) = 0" using a by (simp add: take_bit_eq_mod mod_eq_0_iff_dvd)
  then have "\<not> bit (take_bit 12 (unat w)) n" by simp
  then show ?thesis using n by (simp add: bit_take_bit_iff bit_unsigned_iff)
qed

lemma present_entry:
  fixes w :: u32
  assumes "4096 dvd unat w"
  shows "(w OR LIMA_VM_FLAG_PRESENT) AND NOT 0xFFF = w"
    and "(w OR LIMA_VM_FLAG_PRESENT) AND LIMA_VM_FLAG_PRESENT \<noteq> 0"
proof -
  have m: "0xFFF = (mask 12 :: u32)" by (simp add: mask_eq_exp_minus_1)
  have p: "LIMA_VM_FLAG_PRESENT = BIT 0" by (simp add: regs)
  show "(w OR LIMA_VM_FLAG_PRESENT) AND NOT 0xFFF = w"
    unfolding m p
    by (rule bit_word_eqI)
      (auto simp: bit_and_iff bit_or_iff bit_not_iff bit_mask_iff bit_BIT_iff possible_bit_def
        dest: aligned_low_bits [OF assms])
  show "(w OR LIMA_VM_FLAG_PRESENT) AND LIMA_VM_FLAG_PRESENT \<noteq> 0"
    unfolding p by (simp only: and_BIT_eq_0_iff bit_or_iff bit_BIT_iff) simp
qed

lemma table_address:
  fixes d :: u32
  assumes "4096 dvd unat d" and "unat d + 32768 \<le> 2 ^ 32" and "j < 8"
  shows "unat (d + of_nat (4096 * j)) = unat d + 4096 * j"
    and "4096 dvd unat (d + of_nat (4096 * j))"
proof -
  have "unat (of_nat (4096 * j) :: u32) = 4096 * j"
    using assms(3) by (simp add: unat_of_nat take_bit_nat_eq_self del: of_nat_mult)
  then show "unat (d + of_nat (4096 * j)) = unat d + 4096 * j"
    using assms by (subst unat_add_lem [THEN iffD1]) (auto simp del: of_nat_mult)
  with assms(1) show "4096 dvd unat (d + of_nat (4096 * j))" by simp
qed

lemma vm_mem_block:
  assumes ok: "vm_tables_ok vm" and b: "vm_bts vm i = Some (d, cpu)"
    and r: "unat d \<le> a" "a < unat d + 32768"
  shows "vm_mem vm a = Some (cpu ((a - unat d) div 4))"
proof -
  let ?P = "\<lambda>i. case vm_bts vm i of None \<Rightarrow> False | Some (d, cpu) \<Rightarrow> unat d \<le> a \<and> a < unat d + 32768"
  have i: "i < 128" using ok b by (fastforce simp: vm_tables_ok_def vm_block_def)
  have uniq: "k = i" if "?P k" for k
  proof (rule ccontr)
    assume "k \<noteq> i"
    from that obtain e c where k: "vm_bts vm k = Some (e, c)" "unat e \<le> a" "a < unat e + 32768"
      by (auto split: option.splits)
    have "vm_block vm k = Some e" "vm_block vm i = Some d"
      using k(1) b by (simp_all add: vm_block_def)
    with ok \<open>k \<noteq> i\<close> have "buf_disjoint (e, 32768) (d, 32768)"
      unfolding vm_tables_ok_def by blast
    with k r show False by (auto simp: buf_disjoint_def)
  qed
  have "set (filter ?P [0..<128]) = {i}" using i uniq b r by auto
  moreover have "distinct (filter ?P [0..<128])" by simp
  ultimately have "filter ?P [0..<128] = [i]"
    by (intro distinct_singleton)
  then show ?thesis using b by (simp add: vm_mem_def)
qed


text \<open>
  C9. The tables the driver builds are the tables the hardware walks: for every 32-bit
  address of a well-formed address space, the walk through the page directory (1024 entries
  of 4 MiB, the \<open>LIMA_PDE\<close>/\<open>LIMA_PTE\<close> split) reads exactly the entry the driver wrote through
  the block tables (128 blocks of 32 MiB, the \<open>LIMA_PBE\<close>/\<open>LIMA_BTE\<close> split), and it faults in
  the directory exactly where the driver has allocated no block.
\<close>

theorem mmu_walk_refines_block_tables:
  assumes "vm_tables_ok vm"
  shows "mmu_walk vm va =
    (case vm_bts vm (LIMA_PBE va) of None \<Rightarrow> None | Some (d, cpu) \<Rightarrow> Some (cpu (LIMA_BTE va)))"
proof -
  define p where "p = unat va div 4096"
  define i j where "i = p div 8192" and "j = p div 1024 mod 8"
  have pde: "LIMA_PDE va = i * 8 + j"
    by (simp add: pde_unat p_def i_def j_def div_mult2_eq [of _ 1024 8, simplified])
  have j: "j < 8" by (simp add: j_def)
  have pbe: "LIMA_PBE va = i" by (simp add: pbe_unat i_def p_def)
  show ?thesis
  proof (cases "vm_bts vm i")
    case None
    then have "vm_pd vm (i * 8 + j) = 0"
      using assms j by (simp add: vm_tables_ok_def vm_block_None)
    with None show ?thesis by (simp add: mmu_walk_def pde pbe)
  next
    case (Some b)
    obtain d cpu where b: "b = (d, cpu)" by (cases b)
    have blk: "vm_block vm i = Some d" using Some b by (simp add: vm_block_def)
    have d: "4096 dvd unat d" "unat d + 32768 \<le> 2 ^ 32"
      and pd: "vm_pd vm (i * 8 + j) = (d + of_nat (4096 * j)) OR LIMA_VM_FLAG_PRESENT"
      using assms blk j unfolding vm_tables_ok_def by blast+
    note ta = table_address [OF d j]
    let ?a = "unat d + 4096 * j + 4 * LIMA_PTE va"
    have lt: "LIMA_PTE va < 1024" by (simp add: pte_unat)
    have bte: "LIMA_BTE va = 1024 * j + LIMA_PTE va"
      using mod_mult2_eq [of p 1024 8] by (simp add: bte_unat pte_unat p_def j_def)
    have "vm_mem vm ?a = Some (cpu ((?a - unat d) div 4))"
      using assms Some b j lt by (intro vm_mem_block) auto
    also have "(?a - unat d) div 4 = LIMA_BTE va" by (simp add: bte)
    finally show ?thesis
      using Some b present_entry [OF ta(2)]
      by (simp only: mmu_walk_def Let_def pde pd pbe ta(1) if_False option.case prod.case)
  qed
qed

section \<open>Unmapping\<close>

lemma vm_set_entry_Some:
  assumes "vm_block vm (p div 8192) \<noteq> None"
  shows "\<exists>vm'. vm_set_entry vm (p div 8192) (p mod 8192) v = Some vm' \<and> vm_frame vm vm' \<and>
    pte vm' = (pte vm)(p := v)"
proof -
  obtain d cpu where b: "vm_bts vm (p div 8192) = Some (d, cpu)"
    using assms by (auto simp: vm_block_None)
  let ?vm = "vm\<lparr>vm_bts := (vm_bts vm)(p div 8192 \<mapsto> (d, cpu(p mod 8192 := v)))\<rparr>"
  have "vm_set_entry vm (p div 8192) (p mod 8192) v = Some ?vm"
    by (simp add: vm_set_entry_def b)
  moreover have "vm_frame vm ?vm"
    by (auto simp: vm_frame_def vm_block_def fun_eq_iff b)
  moreover have "pte ?vm = (pte vm)(p := v)"
  proof
    fix q
    have "q = p" if "q div 8192 = p div 8192" "q mod 8192 = p mod 8192"
      using that by (metis div_mult_mod_eq)
    then show "pte ?vm q = ((pte vm)(p := v)) q"
      by (auto simp: pte_def b)
  qed
  ultimately show ?thesis by blast
qed

lemma vm_set_entry_page:
  assumes "vm_block vm (unat va div 4096 div 8192) \<noteq> None"
  shows "\<exists>vm'. vm_set_entry vm (LIMA_PBE va) (LIMA_BTE va) v = Some vm' \<and> vm_frame vm vm' \<and>
    pte vm' = (pte vm)(unat va div 4096 := v)"
  using vm_set_entry_Some [OF assms] by (simp add: pbe_unat bte_unat)

text \<open>The pages from \<open>a\<close> to \<open>e\<close>, and the tables with those set by a function.\<close>

definition vm_over :: "(nat \<Rightarrow> u32) \<Rightarrow> nat \<Rightarrow> nat \<Rightarrow> (nat \<Rightarrow> u32) \<Rightarrow> (nat \<Rightarrow> u32)" where
  "vm_over f a e g = (\<lambda>p. if a \<le> p \<and> p \<le> e then f p else g p)"

lemma vm_over_step: "a \<le> e \<Longrightarrow> vm_over f (Suc a) e (g(a := f a)) = vm_over f a e g"
  by (auto simp: vm_over_def fun_eq_iff)

lemma vm_over_empty: "e < a \<Longrightarrow> vm_over f a e g = g"
  by (auto simp: vm_over_def fun_eq_iff)

lemma page_step: "unat (a + 4096) = unat a + 4096" if "unat a < 0xFFFFF000" for a :: u32
  using that by (simp add: unat_word_ariths)

lemma unmap_loop_clears:
  assumes "4096 dvd unat a" and "unat en < 0xFFFFF000"
    and "\<forall>p. unat a div 4096 \<le> p \<and> p \<le> unat en div 4096 \<longrightarrow> vm_block vm (p div 8192) \<noteq> None"
  shows "\<exists>vm'. lima_vm_unmap_loop vm a en = Some vm' \<and> vm_frame vm vm' \<and>
    pte vm' = vm_over (\<lambda>_. 0) (unat a div 4096) (unat en div 4096) (pte vm)"
  using assms
proof (induction "unat en + 1 - unat a" arbitrary: a vm rule: less_induct)
  case less
  let ?p = "unat a div 4096"
  show ?case
  proof (cases "a \<le> en")
    case False
    then have "unat en < unat a" by (simp add: word_le_nat_alt)
    then have "unat en div 4096 < ?p"
      using less.prems(1) by (metis dvd_div_mult_self less_mult_imp_div_less)
    then show ?thesis
      using False by (subst lima_vm_unmap_loop.simps) (simp add: vm_over_empty)
  next
    case True
    then have le: "unat a \<le> unat en" by (simp add: word_le_nat_alt)
    then have ple: "?p \<le> unat en div 4096" by (rule div_le_mono)
    with less.prems(3) have "vm_block vm (?p div 8192) \<noteq> None" by blast
    from vm_set_entry_page [OF this, of 0] obtain vm1 where
      1: "vm_set_entry vm (LIMA_PBE a) (LIMA_BTE a) 0 = Some vm1" "vm_frame vm vm1"
        "pte vm1 = (pte vm)(?p := 0)" by blast
    have nx: "unat (a + 4096) = unat a + 4096" using le less.prems(2) by (intro page_step) simp
    then have pn: "unat (a + 4096) div 4096 = Suc ?p" by simp
    have "\<exists>vm'. lima_vm_unmap_loop vm1 (a + 4096) en = Some vm' \<and> vm_frame vm1 vm' \<and>
        pte vm' = vm_over (\<lambda>_. 0) (unat (a + 4096) div 4096) (unat en div 4096) (pte vm1)"
    proof (rule less.hyps)
      show "unat en + 1 - unat (a + 4096) < unat en + 1 - unat a" using nx le by simp
      show "4096 dvd unat (a + 4096)" using nx less.prems(1) by simp
      show "unat en < 0xFFFFF000" by (rule less.prems(2))
      show "\<forall>p. unat (a + 4096) div 4096 \<le> p \<and> p \<le> unat en div 4096 \<longrightarrow>
          vm_block vm1 (p div 8192) \<noteq> None"
        using less.prems(3) 1(2) pn by (simp add: vm_frame_def)
    qed
    then obtain vm' where 2: "lima_vm_unmap_loop vm1 (a + 4096) en = Some vm'" "vm_frame vm1 vm'"
        "pte vm' = vm_over (\<lambda>_. 0) (Suc ?p) (unat en div 4096) (pte vm1)"
      by (auto simp: pn)
    have "lima_vm_unmap_loop vm a en = Some vm'"
      using True 1(1) 2(1) by (subst lima_vm_unmap_loop.simps) simp
    moreover have "pte vm' = vm_over (\<lambda>_. 0) ?p (unat en div 4096) (pte vm)"
      unfolding 2(3) 1(3) using vm_over_step [OF ple, of "\<lambda>_. 0"] by simp
    ultimately show ?thesis using vm_frame_trans [OF 1(2) 2(2)] by blast
  qed
qed

text \<open>
  With a bound in the last page of the address space the loop condition can never be false:
  the aligned counter wraps past every value above the bound.
\<close>

lemma unmap_loop_diverges:
  "lima_vm_unmap_loop vm a en = Some vm' \<Longrightarrow> 4096 dvd unat a \<Longrightarrow> 0xFFFFF000 \<le> unat en \<Longrightarrow> False"
proof (induction rule: lima_vm_unmap_loop.raw_induct [rotated, consumes 1, case_names step])
  case (step loop vm a en vm')
  have "unat a \<le> 0xFFFFF000"
    using step(3) unat_lt_32 [of a] by (auto elim!: dvdE)
  then have "a \<le> en" using step(4) by (simp add: word_le_nat_alt)
  then obtain vm1 where "loop vm1 (a + 4096) en = Some vm'"
    using step(2) by (auto simp: Option.bind_eq_Some_conv)
  moreover have "4096 dvd unat (a + 4096)"
    using step(3) by (simp add: unat_word_ariths dvd_mod)
  ultimately show False using step(1,4) by blast
qed

text \<open>
  C11. Unmapping a page-aligned range whose blocks exist clears exactly the entries of its
  pages, leaves every other entry, the directory and the blocks alone, and returns, provided
  the range ends below the last page of the 32-bit address space.
\<close>

theorem unmap_clears_range:
  assumes "4096 dvd unat a" and "unat en < 0xFFFFF000"
    and "\<forall>p. unat a div 4096 \<le> p \<and> p \<le> unat en div 4096 \<longrightarrow> vm_block vm (p div 8192) \<noteq> None"
  shows "\<exists>vm'. lima_vm_unmap_page_table vm a en = Some vm' \<and> vm_frame vm vm' \<and>
    (\<forall>p. pte vm' p = (if unat a div 4096 \<le> p \<and> p \<le> unat en div 4096 then 0 else pte vm p))"
  using unmap_loop_clears [OF assms]
  by (auto simp: lima_vm_unmap_page_table_def vm_over_def)

text \<open>
  C12. A range that ends in the last page of the address space is never unmapped: the loop
  of \<open>lima_vm_unmap_page_table\<close> compares a 32-bit counter with a bound no page-aligned
  32-bit counter exceeds, so the call does not return, whatever the tables hold. (The map
  loop, with its 64-bit counter, maps such a range.)
\<close>

theorem unmap_last_page_never_returns:
  assumes "4096 dvd unat a" and "0xFFFFF000 \<le> unat en"
  shows "lima_vm_unmap_page_table vm a en = None"
  using assms unmap_loop_diverges [of vm a en]
  by (cases "lima_vm_unmap_loop vm a en") (auto simp: lima_vm_unmap_page_table_def)

section \<open>Mapping\<close>

lemma fill_pd_apply:
  "fill_pd j n d pd k =
    (if j \<le> k \<and> k < j + n then (d + of_nat (4096 * (k - j))) OR LIMA_VM_FLAG_PRESENT else pd k)"
proof (induction j n d pd rule: fill_pd.induct)
  case (2 j n d pd)
  have pg: "(of_nat LIMA_PAGE_SIZE :: u32) = 4096" by (simp add: LIMA_PAGE_SIZE_def)
  show ?case
    unfolding fill_pd.simps 2
  proof (cases "j \<le> k")
    case False
    then show "(if Suc j \<le> k \<and> k < Suc j + n
        then (d + of_nat LIMA_PAGE_SIZE + of_nat (4096 * (k - Suc j))) OR LIMA_VM_FLAG_PRESENT
        else (pd(j := d OR LIMA_VM_FLAG_PRESENT)) k) =
      (if j \<le> k \<and> k < j + Suc n
        then (d + of_nat (4096 * (k - j))) OR LIMA_VM_FLAG_PRESENT else pd k)"
      by simp
  next
    case True
    then obtain m where k: "k = j + m" by (auto simp: le_iff_add)
    show "(if Suc j \<le> k \<and> k < Suc j + n
        then (d + of_nat LIMA_PAGE_SIZE + of_nat (4096 * (k - Suc j))) OR LIMA_VM_FLAG_PRESENT
        else (pd(j := d OR LIMA_VM_FLAG_PRESENT)) k) =
      (if j \<le> k \<and> k < j + Suc n
        then (d + of_nat (4096 * (k - j))) OR LIMA_VM_FLAG_PRESENT else pd k)"
      by (cases m) (simp_all add: pg k algebra_simps)
  qed
qed auto

text \<open>
  What every step of the map loop does to the buffers: the new address space is well-formed,
  and the buffers outside it are those that were outside it before.
\<close>

definition vm_dma_step :: "lima_vm \<Rightarrow> lima_vm \<Rightarrow> 'a dma_st_scheme \<Rightarrow> 'a dma_st_scheme \<Rightarrow> bool" where
  "vm_dma_step vm vm' s s' \<longleftrightarrow>
     vm_wf vm' s' \<and> dma_only s s' \<and> dm_live s' - vm_bufs vm' = dm_live s - vm_bufs vm \<and>
     vm_refcount vm' = vm_refcount vm \<and> vm_mm vm' = vm_mm vm \<and> vm_pd_dma vm' = vm_pd_dma vm \<and>
     (\<forall>i. vm_block vm i \<noteq> None \<longrightarrow> vm_block vm' i = vm_block vm i)"

lemma vm_dma_step_refl: "vm_wf vm s \<Longrightarrow> vm_dma_step vm vm s s"
  by (simp add: vm_dma_step_def)

lemma vm_dma_step_trans:
  "vm_dma_step a b s t \<Longrightarrow> vm_dma_step b c t u \<Longrightarrow> vm_dma_step a c s u"
  by (auto simp: vm_dma_step_def intro: dma_only_trans)

lemma vm_frame_dma_step: "vm_wf vm s \<Longrightarrow> vm_frame vm vm' \<Longrightarrow> vm_dma_step vm vm' s s"
  by (simp add: vm_dma_step_def vm_wf_def vm_frame_tables vm_frame_bufs) (simp add: vm_frame_def)

text \<open>Adding a block to well-formed tables.\<close>

lemma vm_tables_add_block:
  assumes ok: "vm_tables_ok vm" and new: "vm_block vm i = None" "i < 128"
    and d: "4096 dvd unat d" "unat d + 32768 \<le> 2 ^ 32"
    and disj: "\<forall>k e. vm_block vm k = Some e \<longrightarrow> buf_disjoint (d, 32768) (e, 32768)"
    and vm': "vm_block vm' = (vm_block vm)(i := Some d)"
      "vm_pd vm' = fill_pd (8 * i) 8 d (vm_pd vm)"
  shows "vm_tables_ok vm'"
proof -
  have pd: "vm_pd vm' (k * 8 + j) = (if k = i then (d + of_nat (4096 * j)) OR LIMA_VM_FLAG_PRESENT
      else vm_pd vm (k * 8 + j))" if "j < 8" for k j
  proof -
    have "8 * i \<le> k * 8 + j \<and> k * 8 + j < 8 * i + 8 \<longleftrightarrow> k = i" using that by arith
    moreover have "i * 8 + j - 8 * i = j" by simp
    ultimately show ?thesis unfolding vm'(2) fill_pd_apply by auto
  qed
  have sym: "buf_disjoint a b \<Longrightarrow> buf_disjoint b a" for a b by (auto simp: buf_disjoint_def)
  show ?thesis
    unfolding vm_tables_ok_def vm'(1)
  proof (intro conjI allI impI, goal_cases)
    case (1 k e)
    then show ?case using ok new by (auto simp: vm_tables_ok_def split: if_splits)
  next
    case (2 k e)
    then show ?case using ok d by (auto simp: vm_tables_ok_def split: if_splits)
  next
    case (3 k e)
    then show ?case using ok d by (auto simp: vm_tables_ok_def split: if_splits)
  next
    case (4 k e j)
    then show ?case using ok by (auto simp: vm_tables_ok_def pd split: if_splits)
  next
    case (5 k j)
    then show ?case using ok by (auto simp: vm_tables_ok_def pd split: if_splits)
  next
    case (6 k l e f)
    then show ?case using ok disj by (auto simp: vm_tables_ok_def sym split: if_splits)
  qed
qed

lemma vm_ensure_bt_new:
  assumes wf: "vm_wf vm s" and c: "dma_contract s" and new: "vm_bts vm i = None" "i < 128"
    and run: "lima_vm_ensure_bt vm i s = (Some vm', s')"
  shows "vm_dma_step vm vm' s s'" and "pte vm' = pte vm" and "vm_block vm' i \<noteq> None"
proof -
  have bytes: "LIMA_VM_BT_BYTES = 32768" by (simp add: regs)
  obtain d where al: "dma_alloc_wc LIMA_VM_BT_BYTES s = (Some d, s')"
    and vm': "vm' = vm\<lparr>vm_bts := (vm_bts vm)(i \<mapsto> (d, \<lambda>_. 0)),
        vm_pd := fill_pd (push_bit LIMA_VM_NUM_PT_PER_BT_SHIFT i) LIMA_VM_NUM_PT_PER_BT d (vm_pd vm)\<rparr>"
    using run new(1) by (auto simp: lima_vm_ensure_bt_def split: prod.splits option.splits)
  have dma: "dm_live s' = insert (d, 32768) (dm_live s)" "dma_only s s'"
    "4096 dvd unat d" "unat d + 32768 \<le> 2 ^ 32" "\<forall>b \<in> dm_live s. buf_disjoint (d, 32768) b"
    using al c by (auto simp: bytes elim!: dma_alloc_wc_cases)
  have blk: "vm_block vm' = (vm_block vm)(i := Some d)" by (auto simp: vm' vm_block_def fun_eq_iff)
  have new': "vm_block vm i = None" using new(1) by (simp add: vm_block_None)
  have live: "vm_bufs vm \<subseteq> dm_live s" using wf by (simp add: vm_wf_def)
  have tables: "vm_tables_ok vm'"
  proof (rule vm_tables_add_block [OF _ new' new(2) dma(3,4) _ blk])
    show "vm_tables_ok vm" using wf by (simp add: vm_wf_def)
    show "\<forall>k e. vm_block vm k = Some e \<longrightarrow> buf_disjoint (d, 32768) (e, 32768)"
      using dma(5) live by (auto simp: vm_bufs_def bytes ran_def)
    show "vm_pd vm' = fill_pd (8 * i) 8 d (vm_pd vm)"
      by (simp add: vm' regs push_bit_eq_mult mult.commute)
  qed
  have pd: "vm_pd_dma vm' = vm_pd_dma vm" by (simp add: vm')
  have bufs: "vm_bufs vm' = insert (d, 32768) (vm_bufs vm)"
    using ran_map_upd [of "vm_block vm" i d, OF new']
    by (simp add: vm_bufs_def blk bytes insert_commute pd del: fun_upd_apply)
  have "(d, 32768) \<notin> dm_live s" using dma(5) not_buf_disjoint_refl [of 32768 d] by auto
  with tables show "vm_dma_step vm vm' s s'"
    using dma(1,2) live new' unfolding vm_dma_step_def vm_wf_def blk bufs by (auto simp: vm')
  show "pte vm' = pte vm" using new(1) by (auto simp: vm' pte_def fun_eq_iff)
  show "vm_block vm' i \<noteq> None" using blk by simp
qed

lemma vm_ensure_bt_Some:
  assumes "vm_wf vm s" and "dma_contract s" and "i < 128"
    and "lima_vm_ensure_bt vm i s = (Some vm', s')"
  shows "vm_dma_step vm vm' s s' \<and> pte vm' = pte vm \<and> vm_block vm' i \<noteq> None"
proof (cases "vm_bts vm i = None")
  case True
  with assms show ?thesis using vm_ensure_bt_new by blast
next
  case False
  with assms have "vm' = vm" "s' = s" by (auto simp: lima_vm_ensure_bt_def)
  with False assms(1) show ?thesis by (simp add: vm_dma_step_refl vm_block_None)
qed

lemma vm_ensure_bt_None:
  assumes "vm_wf vm s" and "lima_vm_ensure_bt vm i s = (None, s')"
  shows "vm_dma_step vm vm s s'"
proof -
  have "dma_alloc_wc LIMA_VM_BT_BYTES s = (None, s')"
    using assms(2) by (auto simp: lima_vm_ensure_bt_def split: if_splits prod.splits option.splits)
  then show ?thesis
    using assms(1) by (auto simp: vm_dma_step_def vm_wf_def elim!: dma_alloc_wc_cases)
qed

lemma ucast_le_iff: "a \<le> (ucast en :: u64) \<longleftrightarrow> unat a \<le> unat en" for en :: u32
  by (simp add: word_le_nat_alt)

lemma unat_ucast_down: "unat a < 2 ^ 32 \<Longrightarrow> unat (ucast a :: u32) = unat a" for a :: u64
  by (simp add: unsigned_ucast_eq take_bit_nat_eq_self)

text \<open>One turn of the map loop.\<close>

lemma map_loop_turn:
  assumes "unat a \<le> unat en" and "lima_vm_ensure_bt vm (LIMA_PBE a) s = (Some vm1, s1)"
    and "vm_set_entry vm1 (LIMA_PBE a) (LIMA_BTE a) (dma i OR LIMA_VM_FLAGS_CACHE) = Some vm2"
  shows "lima_vm_map_loop vm dma st en a i s = lima_vm_map_loop vm2 dma st en (a + 4096) (Suc i) s1"
  using assms(1)
  by (subst lima_vm_map_loop.simps)
    (simp only: ucast_le_iff Let_def assms(2,3) if_True prod.case option.case Option.bind.bind_lunit)

text \<open>The turn whose allocation fails: what the loop had mapped is unmapped.\<close>

lemma map_loop_fails:
  fixes st en :: u32 and a :: u64
  assumes al: "4096 dvd unat st" "4096 dvd unat a" "unat st \<le> unat a" and le: "unat a \<le> unat en"
    and mem: "lima_vm_ensure_bt vm (LIMA_PBE a) s = (None, s1)"
    and blk: "\<forall>p. unat st div 4096 \<le> p \<and> p < unat a div 4096 \<longrightarrow> vm_block vm (p div 8192) \<noteq> None"
  shows "\<exists>vm'. lima_vm_map_loop vm dma st en a i s = Some (- ENOMEM, vm', s1) \<and> vm_frame vm vm' \<and>
    (\<forall>p. pte vm' p = (if unat st div 4096 \<le> p \<and> p < unat a div 4096 then 0 else pte vm p))"
proof (cases "a = ucast st")
  case True
  have "lima_vm_map_loop vm dma st en a i s = Some (- ENOMEM, vm, s1)"
    using le by (subst lima_vm_map_loop.simps)
      (simp only: ucast_le_iff Let_def mem if_True prod.case option.case, simp add: True)
  with True show ?thesis by auto
next
  case False
  then have "unat a \<noteq> unat st" by (metis unat_ucast_64 word_unat_eq_iff)
  then have lt: "unat st < unat a" using al(3) by simp
  have small: "unat a < 2 ^ 32" using le unat_lt_32 [of en] by simp
  have down: "unat (ucast (a - 1) :: u32) = unat a - 1"
  proof -
    have "unat (a - 1) = unat a - 1" using lt by (intro unat_minus_one) auto
    with small show ?thesis by (subst unat_ucast_down) simp_all
  qed
  have ab: "1 \<le> unat a div 4096" "(unat a - 1) div 4096 = unat a div 4096 - 1"
    and hi: "unat a - 1 < 0xFFFFF000"
    using al(2) lt small by (auto elim!: dvdE)
  have pg: "unat (ucast (a - 1) :: u32) div 4096 = unat a div 4096 - 1"
    by (simp only: down ab(2))
  have hi': "unat (ucast (a - 1) :: u32) < 0xFFFFF000" unfolding down by (rule hi)
  have pre: "\<forall>p. unat st div 4096 \<le> p \<and> p \<le> unat (ucast (a - 1) :: u32) div 4096 \<longrightarrow>
      vm_block vm (p div 8192) \<noteq> None"
  proof (intro allI impI)
    fix p assume "unat st div 4096 \<le> p \<and> p \<le> unat (ucast (a - 1) :: u32) div 4096"
    with ab(1) have "unat st div 4096 \<le> p \<and> p < unat a div 4096" unfolding pg by linarith
    with blk show "vm_block vm (p div 8192) \<noteq> None" by blast
  qed
  obtain vm' where u: "lima_vm_unmap_loop vm st (ucast (a - 1)) = Some vm'" "vm_frame vm vm'"
    "pte vm' = vm_over (\<lambda>_. 0) (unat st div 4096) (unat a div 4096 - 1) (pte vm)"
    using unmap_loop_clears [OF al(1) hi' pre] unfolding pg by (elim exE conjE)
  have "lima_vm_map_loop vm dma st en a i s = Some (- ENOMEM, vm', s1)"
    using le False by (subst lima_vm_map_loop.simps)
      (simp only: ucast_le_iff Let_def mem if_True prod.case option.case,
        simp add: lima_vm_unmap_page_table_def u(1))
  then show ?thesis using ab(1) u(2) by (auto simp: u(3) vm_over_def)
qed

text \<open>
  The map loop from page \<open>a\<close> on: it returns; on success the remaining pages hold their
  entries; on failure the pages the loop had reached are cleared.
\<close>

definition map_result ::
    "(nat \<Rightarrow> u32) \<Rightarrow> nat \<Rightarrow> nat \<Rightarrow> nat \<Rightarrow> lima_vm \<Rightarrow> int \<Rightarrow> lima_vm \<Rightarrow> bool" where
  "map_result dma sp ap ep vm r vm' \<longleftrightarrow>
     r = 0 \<and> pte vm' = vm_over (\<lambda>p. dma (p - sp) OR LIMA_VM_FLAGS_CACHE) ap ep (pte vm) \<or>
     r = - ENOMEM \<and> (\<exists>f \<le> ep. ap \<le> f \<and>
       (\<forall>p. pte vm' p = (if sp \<le> p \<and> p < f then 0 else pte vm p)))"

lemma map_result_step:
  assumes "map_result dma sp (Suc ap) ep vm2 r vm'" and "ap \<le> ep" and "sp \<le> ap"
    and "pte vm2 = (pte vm)(ap := dma (ap - sp) OR LIMA_VM_FLAGS_CACHE)"
  shows "map_result dma sp ap ep vm r vm'"
  using assms(1) unfolding map_result_def
proof (elim disjE conjE exE)
  assume "r = 0" "pte vm' = vm_over (\<lambda>p. dma (p - sp) OR LIMA_VM_FLAGS_CACHE) (Suc ap) ep (pte vm2)"
  then show "r = 0 \<and> pte vm' = vm_over (\<lambda>p. dma (p - sp) OR LIMA_VM_FLAGS_CACHE) ap ep (pte vm) \<or>
     r = - ENOMEM \<and> (\<exists>f \<le> ep. ap \<le> f \<and>
       (\<forall>p. pte vm' p = (if sp \<le> p \<and> p < f then 0 else pte vm p)))"
    using vm_over_step [OF assms(2)] by (simp add: assms(4))
next
  fix f
  assume "r = - ENOMEM" "f \<le> ep" "Suc ap \<le> f"
    "\<forall>p. pte vm' p = (if sp \<le> p \<and> p < f then 0 else pte vm2 p)"
  then show "r = 0 \<and> pte vm' = vm_over (\<lambda>p. dma (p - sp) OR LIMA_VM_FLAGS_CACHE) ap ep (pte vm) \<or>
     r = - ENOMEM \<and> (\<exists>f \<le> ep. ap \<le> f \<and>
       (\<forall>p. pte vm' p = (if sp \<le> p \<and> p < f then 0 else pte vm p)))"
    using assms(3) by (intro disjI2 conjI exI [of _ f]) (auto simp: assms(4))
qed

lemma map_loop_spec:
  assumes "4096 dvd unat st" and "4096 dvd unat a" and "unat st \<le> unat a"
    and "vm_wf vm s" and "dma_contract s"
    and "i = unat a div 4096 - unat st div 4096"
    and "\<forall>p. unat st div 4096 \<le> p \<and> p < unat a div 4096 \<longrightarrow> vm_block vm (p div 8192) \<noteq> None"
  shows "\<exists>r vm' s'. lima_vm_map_loop vm dma st en a i s = Some (r, vm', s') \<and> vm_dma_step vm vm' s s' \<and>
    map_result dma (unat st div 4096) (unat a div 4096) (unat en div 4096) vm r vm'"
  using assms
proof (induction "unat en + 1 - unat a" arbitrary: a i vm s rule: less_induct)
  case less
  let ?p = "unat a div 4096" and ?sp = "unat st div 4096" and ?ep = "unat en div 4096"
  note wf = less.prems(4) and con = less.prems(5) and blks = less.prems(7)
  show ?case
  proof (cases "unat a \<le> unat en")
    case False
    then have "?ep < ?p"
      using less.prems(2) by (metis dvd_div_mult_self less_mult_imp_div_less linorder_not_le)
    then show ?thesis
      using False wf by (subst lima_vm_map_loop.simps)
        (simp add: ucast_le_iff vm_over_empty vm_dma_step_refl map_result_def)
  next
    case True
    have small: "unat a < 2 ^ 32" using True unat_lt_32 [of en] by simp
    have ple: "?p \<le> ?ep" and spp: "?sp \<le> ?p" using True less.prems(3) by (auto intro: div_le_mono)
    have p128: "LIMA_PBE a = ?p div 8192" "LIMA_BTE a = ?p mod 8192" "LIMA_PBE a < 128"
      using small by (simp_all add: pbe_unat bte_unat less_mult_imp_div_less div_mult2_eq [symmetric])
    have nx: "unat (a + 4096) = unat a + 4096" using small by (simp add: unat_word_ariths)
    then have pn: "unat (a + 4096) div 4096 = Suc ?p" by simp
    obtain o1 s1 where e: "lima_vm_ensure_bt vm (LIMA_PBE a) s = (o1, s1)" by fastforce
    show ?thesis
    proof (cases o1)
      case None
      from map_loop_fails [OF less.prems(1-3) True e [unfolded None] blks, where dma = dma and i = i]
      obtain vm' where f: "lima_vm_map_loop vm dma st en a i s = Some (- ENOMEM, vm', s1)"
        "vm_frame vm vm'" "\<forall>p. pte vm' p = (if ?sp \<le> p \<and> p < ?p then 0 else pte vm p)"
        by (elim exE conjE)
      have "map_result dma ?sp ?p ?ep vm (- ENOMEM) vm'"
        unfolding map_result_def using f(3) ple by (intro disjI2 conjI exI [of _ ?p]) simp_all
      moreover have st: "vm_dma_step vm vm s s1" using vm_ensure_bt_None [OF wf] e None by simp
      moreover have "vm_dma_step vm vm' s1 s1"
        using st f(2) by (intro vm_frame_dma_step) (simp_all add: vm_dma_step_def)
      ultimately show ?thesis using f(1) vm_dma_step_trans [OF st] by blast
    next
      case (Some vm1)
      from vm_ensure_bt_Some [OF wf con p128(3)] e Some
      have v1: "vm_dma_step vm vm1 s s1" "pte vm1 = pte vm" "vm_block vm1 (?p div 8192) \<noteq> None"
        by (simp_all add: p128(1))
      from vm_set_entry_Some [OF v1(3), of "dma i OR LIMA_VM_FLAGS_CACHE"] obtain vm2 where
        v2: "vm_set_entry vm1 (LIMA_PBE a) (LIMA_BTE a) (dma i OR LIMA_VM_FLAGS_CACHE) = Some vm2"
          "vm_frame vm1 vm2" "pte vm2 = (pte vm)(?p := dma (?p - ?sp) OR LIMA_VM_FLAGS_CACHE)"
        by (auto simp: v1(2) p128(1,2) less.prems(6))
      have "vm_wf vm1 s1" using v1 by (simp add: vm_dma_step_def)
      then have st2: "vm_dma_step vm vm2 s s1"
        using vm_dma_step_trans [OF v1(1) vm_frame_dma_step [OF _ v2(2)]] by simp
      then have wf2: "vm_wf vm2 s1" and con2: "dma_contract s1"
        using con dma_only_alloc dma_contract_frame by (auto simp: vm_dma_step_def)
      have "\<exists>r vm' s'. lima_vm_map_loop vm2 dma st en (a + 4096) (Suc i) s1 = Some (r, vm', s') \<and>
        vm_dma_step vm2 vm' s1 s' \<and> map_result dma ?sp (unat (a + 4096) div 4096) ?ep vm2 r vm'"
      proof (rule less.hyps)
        show "unat en + 1 - unat (a + 4096) < unat en + 1 - unat a" using nx True by simp
        show "4096 dvd unat (a + 4096)" "unat st \<le> unat (a + 4096)"
          using nx less.prems(2,3) by simp_all
        show "Suc i = unat (a + 4096) div 4096 - ?sp"
          using less.prems(6) spp pn by (simp add: Suc_diff_le)
        show "\<forall>p. ?sp \<le> p \<and> p < unat (a + 4096) div 4096 \<longrightarrow> vm_block vm2 (p div 8192) \<noteq> None"
        proof (intro allI impI)
          fix p assume "?sp \<le> p \<and> p < unat (a + 4096) div 4096"
          then consider "?sp \<le> p \<and> p < ?p" | "p = ?p" unfolding pn by linarith
          then show "vm_block vm2 (p div 8192) \<noteq> None"
          proof cases
            case 1
            with blks have "vm_block vm (p div 8192) \<noteq> None" by blast
            with st2 show ?thesis by (simp add: vm_dma_step_def)
          next
            case 2
            with v1(3) v2(2) show ?thesis by (simp add: vm_frame_def)
          qed
        qed
      qed (rule less.prems(1) wf2 con2)+
      then obtain r vm' s' where r: "lima_vm_map_loop vm2 dma st en (a + 4096) (Suc i) s1 = Some (r, vm', s')"
        "vm_dma_step vm2 vm' s1 s'" "map_result dma ?sp (Suc ?p) ?ep vm2 r vm'"
        unfolding pn by (elim exE conjE)
      have "lima_vm_map_loop vm dma st en a i s = Some (r, vm', s')"
        using map_loop_turn [where dma = dma and i = i, OF True e [unfolded Some] v2(1)] r(1) by simp
      then show ?thesis
        using vm_dma_step_trans [OF st2 r(2)] map_result_step [OF r(3) ple spp v2(3)] by blast
    qed
  qed
qed

lemma map_page_table_spec:
  assumes "4096 dvd unat st" and "vm_wf vm s" and "dma_contract s"
  obtains r vm' s' where "lima_vm_map_page_table vm dma st en s = Some (r, vm', s')"
    and "vm_dma_step vm vm' s s'"
    and "map_result dma (unat st div 4096) (unat st div 4096) (unat en div 4096) vm r vm'"
proof -
  have u: "unat (ucast st :: u64) = unat st" by simp
  have "\<exists>r vm' s'. lima_vm_map_loop vm dma st en (ucast st) 0 s = Some (r, vm', s') \<and>
    vm_dma_step vm vm' s s' \<and>
    map_result dma (unat st div 4096) (unat (ucast st :: u64) div 4096) (unat en div 4096) vm r vm'"
    using assms by (intro map_loop_spec) auto
  then show ?thesis unfolding u using that by (auto simp: lima_vm_map_page_table_def)
qed

text \<open>
  C10. Mapping a page-aligned range always returns, for every 32-bit bound, up to the last
  page of the address space. It keeps the tables well-formed, touches no buffer but the ones
  of this address space, and returns \<open>0\<close> or \<open>-ENOMEM\<close>. When it returns \<open>0\<close>, the \<open>k\<close>-th page of
  the range holds the \<open>k\<close>-th bus address with the cached-access flags, and every page
  outside the range its former entry.
\<close>

theorem map_page_table_correct:
  assumes "4096 dvd unat st" and "vm_wf vm s" and "dma_contract s"
  shows "\<exists>r vm' s'. lima_vm_map_page_table vm dma st en s = Some (r, vm', s') \<and>
    vm_dma_step vm vm' s s' \<and> r \<in> {0, - ENOMEM} \<and>
    (r = 0 \<longrightarrow> (\<forall>p. pte vm' p =
      (if unat st div 4096 \<le> p \<and> p \<le> unat en div 4096
       then dma (p - unat st div 4096) OR LIMA_VM_FLAGS_CACHE else pte vm p)))"
proof -
  from assms obtain r vm' s' where *: "lima_vm_map_page_table vm dma st en s = Some (r, vm', s')"
    "vm_dma_step vm vm' s s'"
    "map_result dma (unat st div 4096) (unat st div 4096) (unat en div 4096) vm r vm'"
    by (rule map_page_table_spec)
  have "r \<in> {0, - ENOMEM}" and "r = 0 \<longrightarrow> (\<forall>p. pte vm' p =
      (if unat st div 4096 \<le> p \<and> p \<le> unat en div 4096
       then dma (p - unat st div 4096) OR LIMA_VM_FLAGS_CACHE else pte vm p))"
    using *(3) by (auto simp: map_result_def vm_over_def)
  with *(1,2) show ?thesis by blast
qed

text \<open>
  A mapping that fails half way is rolled back: when the allocation of a page-table block
  fails inside a range that held no entries, every entry of the address space is what it was
  before the call, no entry of the failed range survives, and the blocks allocated on the way
  stay owned by the address space (so that its release frees them).
\<close>

lemma map_page_table_rollback:
  assumes "4096 dvd unat st" and "vm_wf vm s" and "dma_contract s"
    and "\<forall>p. unat st div 4096 \<le> p \<and> p \<le> unat en div 4096 \<longrightarrow> pte vm p = 0"
    and "lima_vm_map_page_table vm dma st en s = Some (r, vm', s')" and "r \<noteq> 0"
  shows "r = - ENOMEM \<and> pte vm' = pte vm \<and> vm_wf vm' s' \<and>
    dm_live s' - vm_bufs vm' = dm_live s - vm_bufs vm"
proof -
  have *: "vm_dma_step vm vm' s s'"
    "map_result dma (unat st div 4096) (unat st div 4096) (unat en div 4096) vm r vm'"
    using map_page_table_spec [OF assms(1-3), of dma en] assms(5) by auto
  then obtain f where f: "r = - ENOMEM" "f \<le> unat en div 4096"
    "\<forall>p. pte vm' p = (if unat st div 4096 \<le> p \<and> p < f then 0 else pte vm p)"
    using assms(6) by (auto simp: map_result_def)
  have "pte vm' p = pte vm p" for p using f(2,3) assms(4) by auto
  with f(1) *(1) show ?thesis by (auto simp: vm_dma_step_def fun_eq_iff)
qed

section \<open>A concrete address space\<close>

text \<open>
  An empty address space whose directory is at \<open>0x1000\<close>, over an allocator that hands out
  32 KiB blocks at \<open>0x8000\<close>, \<open>0x10000\<close>, ... and fails from its \<open>k\<close>-th call on.
\<close>

definition dma_demo :: "nat \<Rightarrow> dma_st" where
  "dma_demo k = \<lparr>km_ok = (\<lambda>_. True), km_n = 0, km_live = {}, km_time = 0, fs_fences = (\<lambda>_. None),
     dm_alloc = (\<lambda>n L sz. if n < k \<and> sz \<le> 32768 \<and>
        (\<forall>b \<in> L. buf_disjoint (of_nat (32768 * Suc n), sz) b) then Some (of_nat (32768 * Suc n)) else None),
     dm_n = 0, dm_live = {(0x1000, 4096)}\<rparr>"

definition vm_demo :: lima_vm where
  "vm_demo = \<lparr>vm_refcount = 1, vm_mm = \<lparr>mm_start = 0, mm_size = 0xFFF00000, mm_nodes = []\<rparr>,
     vm_pd_dma = 0x1000, vm_pd = (\<lambda>_. 0), vm_bts = (\<lambda>_. None)\<rparr>"

lemma demo_addr: "unat (of_nat (32768 * Suc n) :: u32) = 32768 * Suc n" if "n < 1000"
proof -
  have "32768 * Suc n < 2 ^ 32" using that by simp
  then show ?thesis by (subst unat_of_nat) (simp add: take_bit_nat_eq_self)
qed

lemma dma_demo_contract: "k \<le> 1000 \<Longrightarrow> dma_contract (dma_demo k)"
  unfolding dma_contract_def
proof (intro allI impI)
  fix n L sz d
  assume k: "k \<le> 1000" and "dm_alloc (dma_demo k) n L sz = Some d"
  then have *: "n < k" "sz \<le> 32768" "\<forall>b \<in> L. buf_disjoint (of_nat (32768 * Suc n), sz) b"
    "d = of_nat (32768 * Suc n)"
    by (auto simp: dma_demo_def split: if_splits)
  have u: "unat d = 32768 * Suc n" using demo_addr [of n] k *(1,4) by simp
  have "4096 dvd unat d" unfolding u by (intro dvd_mult2) simp
  then show "4096 dvd unat d \<and> unat d + sz \<le> 2 ^ 32 \<and> (\<forall>b \<in> L. buf_disjoint (d, sz) b)"
    using * k u by simp
qed

lemma vm_demo_wf: "vm_wf vm_demo (dma_demo k)"
  by (simp add: vm_wf_def vm_tables_ok_def vm_block_def vm_bufs_def vm_demo_def dma_demo_def regs
      ran_def)

theorem map_page_table_correct_witness:
  "\<exists>r vm' s'. lima_vm_map_page_table vm_demo (\<lambda>k. of_nat (4096 * k)) 0x1FFF000 0x2000FFF (dma_demo 2)
    = Some (r, vm', s') \<and> vm_wf vm' s' \<and> r \<in> {0, - ENOMEM}"
proof -
  have "4096 dvd unat (0x1FFF000 :: u32)" by simp
  from map_page_table_correct [OF this vm_demo_wf dma_demo_contract [of 2],
      of "\<lambda>k. of_nat (4096 * k)" "0x2000FFF"]
  show ?thesis by (auto simp: vm_dma_step_def)
qed

text \<open>The same range when the second block cannot be allocated.\<close>

lemma demo_rollback_run:
  fixes f :: "nat \<Rightarrow> u32"
  shows "\<exists>vm' s'. lima_vm_map_page_table vm_demo f 0x1FFF000 0x2000FFF (dma_demo 1)
    = Some (- ENOMEM, vm', s')"
proof -
  define s1 where "s1 = (dma_demo 1)\<lparr>dm_n := 1, dm_live := {(0x8000, 32768), (0x1000, 4096)}\<rparr>"
  define vm1 where "vm1 = vm_demo\<lparr>vm_bts := (\<lambda>_. None)(0 := Some (0x8000, \<lambda>_. 0)),
    vm_pd := fill_pd 0 8 0x8000 (\<lambda>_. 0)\<rparr>"
  define vm2 where "vm2 = vm1\<lparr>vm_bts := (\<lambda>_. None)(0 := Some (0x8000, (\<lambda>_. 0)(0x1FFF := f 0 OR LIMA_VM_FLAGS_CACHE)))\<rparr>"
  have e1: "lima_vm_ensure_bt vm_demo (LIMA_PBE (0x1FFF000 :: u64)) (dma_demo 1) = (Some vm1, s1)"
    by (simp add: pbe_unat lima_vm_ensure_bt_def dma_alloc_wc_def dma_demo_def vm_demo_def vm1_def
        s1_def regs buf_disjoint_def)
  have e2: "vm_set_entry vm1 (LIMA_PBE (0x1FFF000 :: u64)) (LIMA_BTE (0x1FFF000 :: u64))
      (f 0 OR LIMA_VM_FLAGS_CACHE) = Some vm2"
    by (simp add: vm_set_entry_def vm1_def vm2_def pbe_unat bte_unat)
  have e3: "lima_vm_ensure_bt vm2 (LIMA_PBE (0x2000000 :: u64)) s1 = (None, s1\<lparr>dm_n := 2\<rparr>)"
    by (simp add: pbe_unat lima_vm_ensure_bt_def dma_alloc_wc_def dma_demo_def vm2_def vm1_def s1_def)
  have "\<exists>vm'. lima_vm_map_loop vm2 f 0x1FFF000 0x2000FFF 0x2000000 1 s1
      = Some (- ENOMEM, vm', s1\<lparr>dm_n := 2\<rparr>) \<and> vm_frame vm2 vm' \<and>
      (\<forall>p. pte vm' p = (if unat (0x1FFF000 :: u32) div 4096 \<le> p \<and> p < unat (0x2000000 :: u64) div 4096
        then 0 else pte vm2 p))"
    by (rule map_loop_fails [OF _ _ _ _ e3]) (auto simp: vm_block_def vm2_def div_nat_eqI)
  with map_loop_turn [where i = 0 and dma = f and st = "0x1FFF000", OF _ e1 e2, of "0x2000FFF"]
  show ?thesis by (auto simp: lima_vm_map_page_table_def)
qed

lemma map_page_table_rollback_demo:
  "\<exists>vm' s'. lima_vm_map_page_table vm_demo (\<lambda>k. of_nat (4096 * k)) 0x1FFF000 0x2000FFF (dma_demo 1)
    = Some (- ENOMEM, vm', s') \<and> pte vm' = pte vm_demo"
proof -
  from demo_rollback_run obtain vm' s' where r: "lima_vm_map_page_table vm_demo
      (\<lambda>k. of_nat (4096 * k)) 0x1FFF000 0x2000FFF (dma_demo 1) = Some (- ENOMEM, vm', s')"
    by blast
  moreover have "pte vm' = pte vm_demo"
    using map_page_table_rollback [OF _ vm_demo_wf dma_demo_contract [of 1] _ r]
    by (simp add: pte_def vm_demo_def)
  ultimately show ?thesis by blast
qed

theorem mmu_walk_refines_block_tables_witness:
  "vm_tables_ok vm_demo \<and> mmu_walk vm_demo 0x12345678 = None"
proof -
  have "vm_tables_ok vm_demo" using vm_demo_wf [of 0] by (simp add: vm_wf_def)
  with mmu_walk_refines_block_tables [of vm_demo "0x12345678"] show ?thesis
    by (simp add: vm_demo_def)
qed

definition vm_demo1 :: lima_vm where
  "vm_demo1 = vm_demo\<lparr>vm_bts := (\<lambda>_. None)(0 := Some (0x8000, \<lambda>_. 7))\<rparr>"

theorem unmap_clears_range_witness:
  "\<exists>vm'. lima_vm_unmap_page_table vm_demo1 0x2000 0x4FFF = Some vm' \<and>
    pte vm' 1 = 7 \<and> pte vm' 2 = 0 \<and> pte vm' 4 = 0 \<and> pte vm' 5 = 7"
proof -
  have "\<forall>p. unat (0x2000 :: u32) div 4096 \<le> p \<and> p \<le> unat (0x4FFF :: u32) div 4096 \<longrightarrow>
      vm_block vm_demo1 (p div 8192) \<noteq> None"
    by (auto simp: vm_demo1_def vm_block_def)
  then obtain vm' where "lima_vm_unmap_page_table vm_demo1 0x2000 0x4FFF = Some vm'"
    "\<forall>p. pte vm' p = (if 2 \<le> p \<and> p \<le> 4 then 0 else pte vm_demo1 p)"
    using unmap_clears_range [of "0x2000" "0x4FFF" vm_demo1] by auto
  moreover have "pte vm_demo1 1 = 7" "pte vm_demo1 5 = 7" by (simp_all add: pte_def vm_demo1_def)
  ultimately show ?thesis by auto
qed

theorem unmap_last_page_never_returns_witness:
  "lima_vm_unmap_page_table vm_demo1 0xFFFFE000 0xFFFFFFFF = None"
  by (rule unmap_last_page_never_returns) simp_all

end
