(* ===== verification/Lima_Vm.thy ===== *)
theory Lima_Vm
  imports Lima_Pagetable
begin

text \<open>
  GPU address spaces and the mappings of buffer objects in them: the public functions of
  \<open>lima_vm.c\<close> and the inline reference functions of \<open>lima_vm.h\<close>. The page tables they drive
  are those of \<open>Lima_Pagetable\<close>; the kernel's range allocator \<open>drm_mm\<close> is a parameter.
\<close>

section \<open>Buffer objects and their mappings\<close>

text \<open>
  \<open>struct lima_bo_va\<close>: the block it lives in, the address space (by its identity), the number
  of users, an \<open>unsigned int\<close>, and the \<open>drm_mm_node\<close>, whose \<open>start\<close> and \<open>size\<close> are
  \<open>unsigned long\<close>, 32 bits on the target.
\<close>

record lima_bo_va =
  bv_block :: nat
  bv_vm :: nat
  bv_ref_count :: u32
  bv_start :: u32
  bv_size :: u32

text \<open>
  \<open>struct lima_bo\<close>. \<open>bo_refs\<close> and \<open>bo_size\<close> are the embedded \<open>drm_gem_object\<close>'s; the two
  arrays are their block and contents, a null page being \<open>None\<close>.
\<close>

record lima_bo =
  bo_refs :: nat
  bo_size :: u32
  bo_filp :: bool
  bo_pages :: "(nat \<times> nat option list) option"
  bo_pages_dma_addr :: "(nat \<times> u32 list) option"
  bo_sgt :: "nat option"
  bo_vaddr :: "nat option"
  bo_va :: "lima_bo_va list"
  bo_resv :: lima_resv
  bo_map_key :: u32

text \<open>
  The heap of address spaces and buffer objects. \<open>vs_mm_insert\<close> is
  \<open>drm_mm_insert_node_generic\<close> with alignment 0: the start it chooses for a size.
\<close>

record vm_st = dma_st +
  vs_vms :: "nat \<Rightarrow> lima_vm option"
  vs_bos :: "nat \<Rightarrow> lima_bo option"
  vs_mm_insert :: "drm_mm \<Rightarrow> nat \<Rightarrow> nat option"

definition vm_upd :: "nat \<Rightarrow> lima_vm \<Rightarrow> 'a vm_st_scheme \<Rightarrow> 'a vm_st_scheme" where
  "vm_upd i v s = s\<lparr>vs_vms := (vs_vms s)(i \<mapsto> v)\<rparr>"

definition bo_upd :: "nat \<Rightarrow> lima_bo \<Rightarrow> 'a vm_st_scheme \<Rightarrow> 'a vm_st_scheme" where
  "bo_upd i b s = s\<lparr>vs_bos := (vs_bos s)(i \<mapsto> b)\<rparr>"

definition mm_add :: "nat \<Rightarrow> nat \<Rightarrow> lima_vm \<Rightarrow> lima_vm" where
  "mm_add start sz v = v\<lparr>vm_mm := (vm_mm v)\<lparr>mm_nodes := (start, sz) # mm_nodes (vm_mm v)\<rparr>\<rparr>"

definition drm_mm_remove_node :: "nat \<Rightarrow> nat \<Rightarrow> lima_vm \<Rightarrow> lima_vm" where
  "drm_mm_remove_node start sz v =
     v\<lparr>vm_mm := (vm_mm v)\<lparr>mm_nodes := remove1 (start, sz) (mm_nodes (vm_mm v))\<rparr>\<rparr>"

section \<open>Operations\<close>

text \<open>\<open>lima_vm_bo_find\<close>: the first entry of the object's list for that address space.\<close>

definition lima_vm_bo_find :: "nat \<Rightarrow> lima_bo \<Rightarrow> lima_bo_va option" where
  "lima_vm_bo_find vm b = List.find (\<lambda>e. bv_vm e = vm) (bo_va b)"

text \<open>Writing through the pointer that \<open>lima_vm_bo_find\<close> returned, and unlinking it.\<close>

fun va_update :: "nat \<Rightarrow> (lima_bo_va \<Rightarrow> lima_bo_va) \<Rightarrow> lima_bo_va list \<Rightarrow> lima_bo_va list" where
  "va_update vm f [] = []"
| "va_update vm f (e # es) = (if bv_vm e = vm then f e # es else e # va_update vm f es)"

fun va_delete :: "nat \<Rightarrow> lima_bo_va list \<Rightarrow> lima_bo_va list" where
  "va_delete vm [] = []"
| "va_delete vm (e # es) = (if bv_vm e = vm then es else e # va_delete vm es)"

text \<open>
  \<open>lima_vm_bo_add\<close> after the entry has been allocated as block \<open>k\<close>: the range, the page
  tables, and the two error labels.
\<close>

definition lima_vm_bo_map ::
    "nat \<Rightarrow> nat \<Rightarrow> nat \<Rightarrow> 'a vm_st_scheme \<Rightarrow> (int \<times> 'a vm_st_scheme) option" where
  "lima_vm_bo_map vm bo k s = do {
     b \<leftarrow> vs_bos s bo;
     v \<leftarrow> vs_vms s vm;
     case vs_mm_insert s (vm_mm v) (unat (bo_size b)) of
       None \<Rightarrow> do { s \<leftarrow> kfree (Some k) s; Some (- ENOSPC, s) }
     | Some start \<Rightarrow> do {
         (_, dma) \<leftarrow> bo_pages_dma_addr b;
         let node = (of_nat start :: u32);
         (err, v1, s) \<leftarrow> lima_vm_map_page_table (mm_add start (unat (bo_size b)) v) ((!) dma)
                           node (node + bo_size b - 1) s;
         if err \<noteq> 0 then do {
           let s = vm_upd vm (drm_mm_remove_node start (unat (bo_size b)) v1) s;
           s \<leftarrow> kfree (Some k) s;
           Some (err, s)
         } else
           Some (0, bo_upd bo (b\<lparr>bo_va := bo_va b @
             [\<lparr>bv_block = k, bv_vm = vm, bv_ref_count = 1, bv_start = node, bv_size = bo_size b\<rparr>]\<rparr>)
             (vm_upd vm v1 s))
       }
   }"

definition lima_vm_bo_add ::
    "nat \<Rightarrow> nat \<Rightarrow> bool \<Rightarrow> 'a vm_st_scheme \<Rightarrow> (int \<times> 'a vm_st_scheme) option" where
  "lima_vm_bo_add vm bo create s = do {
     b \<leftarrow> vs_bos s bo;
     case lima_vm_bo_find vm b of
       Some e \<Rightarrow>
         Some (0, bo_upd bo (b\<lparr>bo_va := va_update vm (\<lambda>e. e\<lparr>bv_ref_count := bv_ref_count e + 1\<rparr>) (bo_va b)\<rparr>) s)
     | None \<Rightarrow>
         if \<not> create then Some (- ENOENT, s)
         else (case kzalloc s of
             (None, s) \<Rightarrow> Some (- ENOMEM, s)
           | (Some k, s) \<Rightarrow> lima_vm_bo_map vm bo k s)
   }"

text \<open>\<open>lima_vm_bo_del\<close>; with no entry for the address space it dereferences a null pointer.\<close>

definition lima_vm_bo_del :: "nat \<Rightarrow> nat \<Rightarrow> 'a vm_st_scheme \<Rightarrow> 'a vm_st_scheme option" where
  "lima_vm_bo_del vm bo s = do {
     b \<leftarrow> vs_bos s bo;
     e \<leftarrow> lima_vm_bo_find vm b;
     let n = bv_ref_count e - 1;
     if n > 0 then
       Some (bo_upd bo (b\<lparr>bo_va := va_update vm (\<lambda>e. e\<lparr>bv_ref_count := n\<rparr>) (bo_va b)\<rparr>) s)
     else do {
       v \<leftarrow> vs_vms s vm;
       v \<leftarrow> lima_vm_unmap_page_table v (bv_start e) (bv_start e + bv_size e - 1);
       let s = vm_upd vm (drm_mm_remove_node (unat (bv_start e)) (unat (bv_size e)) v) s;
       kfree (Some (bv_block e)) (bo_upd bo (b\<lparr>bo_va := va_delete vm (bo_va b)\<rparr>) s)
     }
   }"

definition lima_vm_get_va :: "nat \<Rightarrow> nat \<Rightarrow> 'a vm_st_scheme \<Rightarrow> u32 option" where
  "lima_vm_get_va vm bo s = do {
     b \<leftarrow> vs_bos s bo;
     e \<leftarrow> lima_vm_bo_find vm b;
     Some (bv_start e)
   }"

text \<open>
  \<open>lima_vm_create\<close>: \<open>dlbu\<close> is the device's \<open>dlbu_dma\<close> when \<open>dlbu_cpu\<close> is not null. The
  first error label frees the directory only.
\<close>

definition lima_vm_create ::
    "u32 option \<Rightarrow> nat \<Rightarrow> nat \<Rightarrow> 'a vm_st_scheme \<Rightarrow> (nat option \<times> 'a vm_st_scheme) option" where
  "lima_vm_create dlbu va_start va_end s = (case kzalloc s of
     (None, s) \<Rightarrow> Some (None, s)
   | (Some vm, s) \<Rightarrow> (case dma_alloc_wc LIMA_PAGE_SIZE s of
       (None, s) \<Rightarrow> do { s \<leftarrow> kfree (Some vm) s; Some (None, s) }
     | (Some pd, s) \<Rightarrow> do {
         let v = \<lparr>vm_refcount = 1, vm_mm = \<lparr>mm_start = 0, mm_size = 0, mm_nodes = []\<rparr>,
                  vm_pd_dma = pd, vm_pd = (\<lambda>_. 0), vm_bts = (\<lambda>_. None)\<rparr>;
         (err, v, s) \<leftarrow> (case dlbu of
             None \<Rightarrow> Some (0, v, s)
           | Some d \<Rightarrow> lima_vm_map_page_table v (\<lambda>_. d) (ucast LIMA_VA_RESERVE_DLBU)
               (ucast (LIMA_VA_RESERVE_DLBU + of_nat LIMA_PAGE_SIZE - 1)) s);
         if err \<noteq> 0 then do {
           s \<leftarrow> dma_free_wc LIMA_PAGE_SIZE pd s;
           s \<leftarrow> kfree (Some vm) s;
           Some (None, s)
         } else
           Some (Some vm, vm_upd vm (v\<lparr>vm_mm :=
             \<lparr>mm_start = va_start, mm_size = va_end - va_start, mm_nodes = []\<rparr>\<rparr>) s)
       }))"

text \<open>
  \<open>lima_vm_release\<close>, the release function of the reference count: every block that was
  allocated, the directory, the structure. (\<open>drm_mm_takedown\<close> only warns when nodes remain.)
\<close>

definition free_bt :: "lima_vm \<Rightarrow> nat \<Rightarrow> 'a vm_st_scheme \<Rightarrow> 'a vm_st_scheme option" where
  "free_bt v i s = (case vm_bts v i of
     None \<Rightarrow> Some s
   | Some (d, cpu) \<Rightarrow> dma_free_wc LIMA_VM_BT_BYTES d s)"

definition lima_vm_release :: "nat \<Rightarrow> 'a vm_st_scheme \<Rightarrow> 'a vm_st_scheme option" where
  "lima_vm_release vm s = do {
     v \<leftarrow> vs_vms s vm;
     s \<leftarrow> each (free_bt v) [0..<LIMA_VM_NUM_BT] s;
     s \<leftarrow> dma_free_wc LIMA_PAGE_SIZE (vm_pd_dma v) s;
     kfree (Some vm) (s\<lparr>vs_vms := (vs_vms s)(vm := None)\<rparr>)
   }"

definition lima_vm_get :: "nat \<Rightarrow> 'a vm_st_scheme \<Rightarrow> 'a vm_st_scheme option" where
  "lima_vm_get vm s = do {
     v \<leftarrow> vs_vms s vm;
     Some (vm_upd vm (v\<lparr>vm_refcount := Suc (vm_refcount v)\<rparr>) s)
   }"

definition lima_vm_put :: "nat \<Rightarrow> 'a vm_st_scheme \<Rightarrow> 'a vm_st_scheme option" where
  "lima_vm_put vm s = do {
     v \<leftarrow> vs_vms s vm;
     if vm_refcount v = 1 then lima_vm_release vm s
     else Some (vm_upd vm (v\<lparr>vm_refcount := vm_refcount v - 1\<rparr>) s)
   }"

text \<open>
  \<open>lima_vm_print\<close>: the lines it prints, a directory entry or a non-empty table entry.
\<close>

datatype vm_line = Pd_line nat u32 | Pt_line nat u32

definition lima_vm_print :: "lima_vm \<Rightarrow> vm_line list" where
  "lima_vm_print v = concat (map (\<lambda>i. case vm_bts v i of
       None \<Rightarrow> []
     | Some (d, cpu) \<Rightarrow> concat (map (\<lambda>j.
         Pd_line (push_bit LIMA_VM_NUM_PT_PER_BT_SHIFT i + j) (vm_pd v (push_bit LIMA_VM_NUM_PT_PER_BT_SHIFT i + j))
         # concat (map (\<lambda>k. let e = cpu (j * LIMA_PAGE_ENT_NUM + k) in
             if e \<noteq> 0 then [Pt_line k e] else []) [0..<LIMA_PAGE_ENT_NUM]))
         [0..<LIMA_VM_NUM_PT_PER_BT]))
     [0..<LIMA_VM_NUM_BT])"

section \<open>The space invariant\<close>

text \<open>
  The contract of the range allocator: the range lies in the allocator's, meets no node, and
  starts where the allocator's range or one of its nodes ends (with alignment 0 a node is put
  at the start of a hole).
\<close>

definition node_disjoint :: "nat \<times> nat \<Rightarrow> nat \<times> nat \<Rightarrow> bool" where
  "node_disjoint a b \<longleftrightarrow> fst a + snd a \<le> fst b \<or> fst b + snd b \<le> fst a"

definition mm_contract :: "'a vm_st_scheme \<Rightarrow> bool" where
  "mm_contract s \<longleftrightarrow> (\<forall>mm sz a. vs_mm_insert s mm sz = Some a \<longrightarrow>
     mm_start mm \<le> a \<and> a + sz \<le> mm_start mm + mm_size mm \<and>
     (\<forall>n \<in> set (mm_nodes mm). node_disjoint (a, sz) n) \<and>
     (a = mm_start mm \<or> (\<exists>(b, n) \<in> set (mm_nodes mm). a = b + n)))"

text \<open>Whole pages, inside the allocator's range, pairwise disjoint.\<close>

definition mm_ok :: "drm_mm \<Rightarrow> bool" where
  "mm_ok mm \<longleftrightarrow> 4096 dvd mm_start mm \<and> mm_start mm + mm_size mm \<le> 2 ^ 32 \<and>
     (\<forall>(a, n) \<in> set (mm_nodes mm). 4096 dvd a \<and> 4096 dvd n \<and> 0 < n \<and>
        mm_start mm \<le> a \<and> a + n \<le> mm_start mm + mm_size mm) \<and>
     sorted_wrt node_disjoint (mm_nodes mm)"

text \<open>
  An address space in order: its tables are well-formed, its nodes are, and a page of the
  managed range that is in no node has no entry.
\<close>

definition in_node :: "nat \<Rightarrow> nat \<times> nat \<Rightarrow> bool" where
  "in_node p n \<longleftrightarrow> fst n \<le> 4096 * p \<and> 4096 * p < fst n + snd n"

definition vm_space :: "lima_vm \<Rightarrow> 'a dma_st_scheme \<Rightarrow> bool" where
  "vm_space v s \<longleftrightarrow> vm_wf v s \<and> mm_ok (vm_mm v) \<and>
     (\<forall>p. in_node p (mm_start (vm_mm v), mm_size (vm_mm v)) \<longrightarrow>
        (\<forall>n \<in> set (mm_nodes (vm_mm v)). \<not> in_node p n) \<longrightarrow> pte v p = 0)"

text \<open>
  A mapping in order: it has its node, and the entries of its pages are the bus addresses of
  the object's pages.
\<close>

definition bo_mapped :: "lima_vm \<Rightarrow> lima_bo \<Rightarrow> lima_bo_va \<Rightarrow> bool" where
  "bo_mapped v b e \<longleftrightarrow> bv_size e = bo_size b \<and>
     (unat (bv_start e), unat (bv_size e)) \<in> set (mm_nodes (vm_mm v)) \<and>
     (\<forall>k dma. bo_pages_dma_addr b = Some (k, dma) \<longrightarrow>
        (\<forall>j < unat (bv_size e) div 4096.
           pte v (unat (bv_start e) div 4096 + j) = dma ! j OR LIMA_VM_FLAGS_CACHE))"

definition space_inv :: "'a vm_st_scheme \<Rightarrow> bool" where
  "space_inv s \<longleftrightarrow> kmem_wf s \<and>
     (\<forall>i v. vs_vms s i = Some v \<longrightarrow> vm_space v s) \<and>
     (\<forall>i b. vs_bos s i = Some b \<longrightarrow> distinct (map bv_vm (bo_va b)) \<and>
        bo_pages_dma_addr b \<noteq> None \<and> 4096 dvd unat (bo_size b) \<and> 0 < unat (bo_size b)) \<and>
     (\<forall>i b e. vs_bos s i = Some b \<longrightarrow> e \<in> set (bo_va b) \<longrightarrow>
        bv_block e \<in> km_live s \<and> 0 < bv_ref_count e \<and>
        (\<exists>v. vs_vms s (bv_vm e) = Some v \<and> bo_mapped v b e)) \<and>
     (\<forall>i b e j c f. vs_bos s i = Some b \<longrightarrow> e \<in> set (bo_va b) \<longrightarrow>
        vs_bos s j = Some c \<longrightarrow> f \<in> set (bo_va c) \<longrightarrow> (i, bv_vm e) \<noteq> (j, bv_vm f) \<longrightarrow>
        bv_block e \<noteq> bv_block f \<and> (bv_vm e = bv_vm f \<longrightarrow> bv_start e \<noteq> bv_start f))"

subsection \<open>Entry lists\<close>

lemma find_va: "lima_vm_bo_find vm b = Some e \<Longrightarrow> e \<in> set (bo_va b) \<and> bv_vm e = vm"
  by (auto simp: lima_vm_bo_find_def find_Some_iff)

lemma find_va_None: "lima_vm_bo_find vm b = None \<longleftrightarrow> vm \<notin> bv_vm ` set (bo_va b)"
  by (auto simp: lima_vm_bo_find_def find_None_iff)

lemma va_update_vms: "(\<And>e. bv_vm (f e) = bv_vm e) \<Longrightarrow> map bv_vm (va_update vm f es) = map bv_vm es"
  by (induction es) auto

lemma va_update_set: "e \<in> set (va_update vm f es) \<Longrightarrow> e \<in> set es \<or> (\<exists>x \<in> set es. bv_vm x = vm \<and> e = f x)"
  by (induction es) (auto split: if_splits)

lemma va_delete_set: "distinct (map bv_vm es) \<Longrightarrow> set (va_delete vm es) = {e \<in> set es. bv_vm e \<noteq> vm}"
  by (induction es) (auto simp: image_iff dest: sym)

lemma va_delete_distinct: "distinct (map bv_vm es) \<Longrightarrow> distinct (map bv_vm (va_delete vm es))"
  by (induction es) (auto simp: va_delete_set)

lemma va_delete_snoc: "vm \<notin> bv_vm ` set es \<Longrightarrow> bv_vm e = vm \<Longrightarrow> va_delete vm (es @ [e]) = es"
  by (induction es) auto

subsection \<open>Nodes and pages\<close>

lemma node_pages:
  assumes "4096 dvd a" "4096 dvd n" "0 < n"
  shows "in_node p (a, n) \<longleftrightarrow> a div 4096 \<le> p \<and> p \<le> (a + n - 1) div 4096"
    and "(a + n - 1) div 4096 = a div 4096 + n div 4096 - 1" and "0 < n div 4096"
proof -
  obtain x y where *: "a = 4096 * x" "n = 4096 * y" using assms(1,2) by (auto elim!: dvdE)
  with assms(3) have "0 < y" by simp
  then obtain z where y: "y = Suc z" by (cases y) auto
  have e: "a + n - 1 = 4096 * (x + z) + 4095" by (simp add: * y)
  have d: "(a + n - 1) div 4096 = x + z" unfolding e by simp
  show "(a + n - 1) div 4096 = a div 4096 + n div 4096 - 1" unfolding d by (simp add: * y)
  show "in_node p (a, n) \<longleftrightarrow> a div 4096 \<le> p \<and> p \<le> (a + n - 1) div 4096"
    unfolding d by (auto simp: in_node_def * y)
  show "0 < n div 4096" by (simp add: * y)
qed

lemma disjoint_pages: "node_disjoint m n \<Longrightarrow> in_node p m \<Longrightarrow> in_node p n \<Longrightarrow> False"
  by (auto simp: node_disjoint_def in_node_def)

lemma mm_ok_nodes: "mm_ok mm \<Longrightarrow> m \<in> set (mm_nodes mm) \<Longrightarrow> n \<in> set (mm_nodes mm) \<Longrightarrow> m \<noteq> n \<Longrightarrow>
    node_disjoint m n"
proof -
  assume ok: "mm_ok mm" and m: "m \<in> set (mm_nodes mm)" "n \<in> set (mm_nodes mm)" "m \<noteq> n"
  from ok have s: "sorted_wrt node_disjoint (mm_nodes mm)" by (simp add: mm_ok_def)
  from m obtain i j where ij: "i < length (mm_nodes mm)" "j < length (mm_nodes mm)"
    "mm_nodes mm ! i = m" "mm_nodes mm ! j = n" by (auto simp: in_set_conv_nth)
  with m(3) have "i < j \<or> j < i" by (metis linorder_neqE_nat)
  then have "node_disjoint m n \<or> node_disjoint n m"
    using s ij by (auto simp: sorted_wrt_iff_nth_less)
  then show ?thesis by (auto simp: node_disjoint_def)
qed

lemma mm_ok_node:
  assumes "mm_ok mm" and "(a, n) \<in> set (mm_nodes mm)"
  shows "4096 dvd a" "4096 dvd n" "0 < n" "mm_start mm \<le> a" "a + n \<le> mm_start mm + mm_size mm"
    "mm_start mm + mm_size mm \<le> 2 ^ 32"
  using assms by (auto simp: mm_ok_def)

lemma mm_ok_remove: "mm_ok mm \<Longrightarrow> mm_ok (mm\<lparr>mm_nodes := remove1 x (mm_nodes mm)\<rparr>)"
  by (auto simp: mm_ok_def sorted_wrt_remove1 dest: notin_set_remove1)

lemma mm_nodes_distinct:
  assumes "mm_ok mm"
  shows "distinct (mm_nodes mm)"
proof -
  have "\<forall>n \<in> set (mm_nodes mm). \<not> node_disjoint n n"
    using assms by (auto simp: node_disjoint_def mm_ok_def)
  then show ?thesis
    using assms sorted_wrt_irrefl_distinct by (auto simp: mm_ok_def)
qed

lemma mm_contractD:
  assumes "mm_contract s" and "mm_ok mm" and "vs_mm_insert s mm sz = Some a"
  shows "4096 dvd a" "mm_start mm \<le> a" "a + sz \<le> mm_start mm + mm_size mm"
    "\<forall>n \<in> set (mm_nodes mm). node_disjoint (a, sz) n" "a + sz \<le> 2 ^ 32"
proof -
  have *: "mm_start mm \<le> a" "a + sz \<le> mm_start mm + mm_size mm"
    "\<forall>n \<in> set (mm_nodes mm). node_disjoint (a, sz) n"
    "a = mm_start mm \<or> (\<exists>(b, n) \<in> set (mm_nodes mm). a = b + n)"
    using assms(1,3) unfolding mm_contract_def by blast+
  then show "mm_start mm \<le> a" "a + sz \<le> mm_start mm + mm_size mm"
    "\<forall>n \<in> set (mm_nodes mm). node_disjoint (a, sz) n" by simp_all
  show "a + sz \<le> 2 ^ 32" using *(2) assms(2) by (simp add: mm_ok_def)
  show "4096 dvd a" using *(4) assms(2) by (auto simp: mm_ok_def)
qed

lemma mm_ok_add:
  assumes "mm_contract s" and "mm_ok mm" and "vs_mm_insert s mm sz = Some a"
    and "4096 dvd sz" "0 < sz"
  shows "mm_ok (mm\<lparr>mm_nodes := (a, sz) # mm_nodes mm\<rparr>)"
  using mm_contractD [OF assms(1-3)] assms(2,4,5) by (auto simp: mm_ok_def)

subsection \<open>One address space\<close>

lemma vm_block_upd [simp]:
  "vm_block (v\<lparr>vm_mm := m\<rparr>) = vm_block v" "vm_block (v\<lparr>vm_refcount := n\<rparr>) = vm_block v"
  by (simp_all add: vm_block_def fun_eq_iff)

lemma vm_upd_simps [simp]:
  "pte (v\<lparr>vm_mm := m\<rparr>) = pte v" "pte (v\<lparr>vm_refcount := n\<rparr>) = pte v"
  "vm_tables_ok (v\<lparr>vm_mm := m\<rparr>) = vm_tables_ok v" "vm_tables_ok (v\<lparr>vm_refcount := n\<rparr>) = vm_tables_ok v"
  "vm_bufs (v\<lparr>vm_mm := m\<rparr>) = vm_bufs v" "vm_bufs (v\<lparr>vm_refcount := n\<rparr>) = vm_bufs v"
  by (simp_all add: pte_def vm_tables_ok_def vm_bufs_def fun_eq_iff)

lemma vm_wf_upd [simp]:
  "vm_wf (v\<lparr>vm_mm := m\<rparr>) s = vm_wf v s" "vm_wf (v\<lparr>vm_refcount := n\<rparr>) s = vm_wf v s"
  by (simp_all only: vm_wf_def vm_upd_simps)

lemma range_words:
  fixes sz :: u32
  assumes "a + unat sz \<le> 2 ^ 32" and "0 < unat sz"
  shows "unat (of_nat a :: u32) = a" and "unat (of_nat a + sz - 1) = a + unat sz - 1"
proof -
  have a: "a < 2 ^ 32" using assms by simp
  then show ua: "unat (of_nat a :: u32) = a" by (simp add: unat_of_nat take_bit_nat_eq_self)
  have w: "of_nat a + sz - 1 = (of_nat (a + unat sz - 1) :: u32)"
    using assms(2) by (simp add: of_nat_diff)
  show "unat (of_nat a + sz - 1) = a + unat sz - 1"
    unfolding w using assms by (subst unat_of_nat) (simp add: take_bit_nat_eq_self)
qed

lemma map_in_space:
  fixes sz :: u32
  assumes sp: "vm_space v s" and dc: "dma_contract s"
    and mm: "4096 dvd a" "a + unat sz \<le> 2 ^ 32" "mm_ok ((vm_mm v)\<lparr>mm_nodes := (a, unat sz) # mm_nodes (vm_mm v)\<rparr>)"
  obtains v' s' r where
    "lima_vm_map_page_table (mm_add a (unat sz) v) dma (of_nat a) (of_nat a + sz - 1) s = Some (r, v', s')"
    and "vm_dma_step (mm_add a (unat sz) v) v' s s'"
    and "r = 0 \<and> vm_space v' s' \<and>
        pte v' = (\<lambda>p. if in_node p (a, unat sz) then dma (p - a div 4096) OR LIMA_VM_FLAGS_CACHE else pte v p)
      \<or> r = - ENOMEM \<and> vm_space (drm_mm_remove_node a (unat sz) v') s' \<and> pte v' = pte v \<and>
        vm_mm (drm_mm_remove_node a (unat sz) v') = vm_mm v"
proof -
  let ?v = "mm_add a (unat sz) v"
  have n: "4096 dvd unat sz" "0 < unat sz" "mm_start (vm_mm v) \<le> a"
    "a + unat sz \<le> mm_start (vm_mm v) + mm_size (vm_mm v)"
    "\<forall>n \<in> set (mm_nodes (vm_mm v)). node_disjoint (a, unat sz) n"
    using mm(3) by (auto simp: mm_ok_def)
  note w = range_words [OF mm(2) n(2)]
  note pages = node_pages [OF mm(1) n(1,2)]
  have st: "4096 dvd unat (of_nat a :: u32)" unfolding w(1) by (rule mm(1))
  have wf: "vm_wf ?v s" using sp by (simp add: vm_space_def mm_add_def)
  obtain r v' s' where
    run: "lima_vm_map_page_table ?v dma (of_nat a) (of_nat a + sz - 1) s = Some (r, v', s')"
    and step: "vm_dma_step ?v v' s s'"
    and res: "map_result dma (a div 4096) (a div 4096) ((a + unat sz - 1) div 4096) ?v r v'"
    by (rule map_page_table_spec [OF st wf dc, of dma "of_nat a + sz - 1", unfolded w])
  have pv: "pte ?v = pte v" by (simp add: mm_add_def)
  have mm': "vm_mm v' = vm_mm ?v" and wf': "vm_wf v' s'" using step by (simp_all add: vm_dma_step_def)
  have mmr: "vm_mm (drm_mm_remove_node a (unat sz) v') = vm_mm v"
    by (simp add: drm_mm_remove_node_def mm' mm_add_def)
  have out: "pte v p = 0" if "in_node p (a, unat sz)" for p
  proof -
    have "\<not> in_node p m" if "m \<in> set (mm_nodes (vm_mm v))" for m
      using n(5) that disjoint_pages \<open>in_node p (a, unat sz)\<close> by blast
    moreover have "in_node p (mm_start (vm_mm v), mm_size (vm_mm v))"
      using that n(3,4) by (auto simp: in_node_def)
    ultimately show ?thesis using sp by (simp add: vm_space_def)
  qed
  from res show ?thesis
    unfolding map_result_def pv
  proof (elim disjE conjE exE)
    assume r: "r = 0" and e: "pte v' = vm_over (\<lambda>p. dma (p - a div 4096) OR LIMA_VM_FLAGS_CACHE)
      (a div 4096) ((a + unat sz - 1) div 4096) (pte v)"
    have e': "pte v' = (\<lambda>p. if in_node p (a, unat sz) then dma (p - a div 4096) OR LIMA_VM_FLAGS_CACHE else pte v p)"
      unfolding e vm_over_def pages(1) ..
    have "vm_space v' s'"
      using sp wf' mm(3) unfolding vm_space_def mm' e' by (auto simp: mm_add_def)
    with r e' show ?thesis using run step that by blast
  next
    fix f
    assume r: "r = - ENOMEM" and f: "f \<le> (a + unat sz - 1) div 4096" "a div 4096 \<le> f"
      and e: "\<forall>p. pte v' p = (if a div 4096 \<le> p \<and> p < f then 0 else pte v p)"
    have e': "pte v' = pte v"
    proof
      fix p show "pte v' p = pte v p" using e f out [of p] by (auto simp: pages(1))
    qed
    have "vm_space (drm_mm_remove_node a (unat sz) v') s'"
      using sp wf' unfolding vm_space_def mmr by (simp add: drm_mm_remove_node_def e')
    with r e' mmr show ?thesis using run step that by blast
  qed
qed

lemma flags_cache_nz: "w OR LIMA_VM_FLAGS_CACHE \<noteq> 0"
proof
  assume "w OR LIMA_VM_FLAGS_CACHE = 0"
  then have "bit (w OR LIMA_VM_FLAGS_CACHE) 0 = bit (0 :: u32) 0" by simp
  then show False by (simp add: bit_or_iff vm_flags_eval)
qed

text \<open>Unmapping a mapped object, unless its range reaches the last page.\<close>

lemma unmap_in_space:
  assumes sp: "vm_space v s" and m: "bo_mapped v b e" and d: "bo_pages_dma_addr b \<noteq> None"
    and top: "unat (bv_start e) + unat (bv_size e) < 2 ^ 32"
  obtains v' where "lima_vm_unmap_page_table v (bv_start e) (bv_start e + bv_size e - 1) = Some v'"
    and "vm_frame v v'"
    and "pte v' = (\<lambda>p. if in_node p (unat (bv_start e), unat (bv_size e)) then 0 else pte v p)"
    and "vm_space (drm_mm_remove_node (unat (bv_start e)) (unat (bv_size e)) v') s"
proof -
  let ?a = "unat (bv_start e)" and ?n = "unat (bv_size e)"
  obtain k dma where dma: "bo_pages_dma_addr b = Some (k, dma)" using d by auto
  have ok: "mm_ok (vm_mm v)" and wf: "vm_wf v s" using sp by (simp_all add: vm_space_def)
  have node: "(?a, ?n) \<in> set (mm_nodes (vm_mm v))" using m unfolding bo_mapped_def by blast
  note al = mm_ok_node [OF ok node]
  note pages = node_pages [OF al(1,2,3)]
  have sum: "?a + unat (bv_size e) \<le> 2 ^ 32" using top by simp
  have ua: "bv_start e = of_nat ?a" by simp
  have en: "unat (bv_start e + bv_size e - 1) = ?a + ?n - 1"
    using range_words(2) [OF sum al(3)] by simp
  have "4096 dvd ?a + ?n" using al by simp
  then obtain x where x: "?a + ?n = 4096 * x" by (auto elim!: dvdE)
  have hi: "unat (bv_start e + bv_size e - 1) < 0xFFFFF000"
    using x top al(3) unfolding en by simp
  have blk: "\<forall>p. ?a div 4096 \<le> p \<and> p \<le> unat (bv_start e + bv_size e - 1) div 4096 \<longrightarrow>
      vm_block v (p div 8192) \<noteq> None"
  proof (intro allI impI notI)
    fix p assume p: "?a div 4096 \<le> p \<and> p \<le> unat (bv_start e + bv_size e - 1) div 4096"
      and none: "vm_block v (p div 8192) = None"
    from p have "p - ?a div 4096 < ?n div 4096" unfolding en pages(2) using pages(3) by linarith
    then have "pte v (?a div 4096 + (p - ?a div 4096)) = dma ! (p - ?a div 4096) OR LIMA_VM_FLAGS_CACHE"
      using m dma by (simp add: bo_mapped_def)
    then show False using pte_no_block [OF none] p flags_cache_nz by simp
  qed
  from unmap_loop_clears [OF al(1) hi blk] obtain v' where
    v': "lima_vm_unmap_loop v (bv_start e) (bv_start e + bv_size e - 1) = Some v'" "vm_frame v v'"
      "pte v' = vm_over (\<lambda>_. 0) (?a div 4096) ((?a + ?n - 1) div 4096) (pte v)"
    unfolding en by blast
  have e': "pte v' = (\<lambda>p. if in_node p (?a, ?n) then 0 else pte v p)"
    unfolding v'(3) vm_over_def pages(1) ..
  have mm': "vm_mm v' = vm_mm v" using v'(2) by (simp add: vm_frame_def)
  have wf': "vm_wf v' s" using wf v'(2) by (simp add: vm_wf_def vm_frame_tables vm_frame_bufs)
  have "vm_space (drm_mm_remove_node ?a ?n v') s"
    unfolding vm_space_def
  proof (intro conjI allI impI)
    show "vm_wf (drm_mm_remove_node ?a ?n v') s" using wf' by (simp add: drm_mm_remove_node_def)
    show "mm_ok (vm_mm (drm_mm_remove_node ?a ?n v'))"
      using mm_ok_remove [OF ok] by (simp add: drm_mm_remove_node_def mm')
    fix p
    assume p: "in_node p (mm_start (vm_mm (drm_mm_remove_node ?a ?n v')),
        mm_size (vm_mm (drm_mm_remove_node ?a ?n v')))"
      and q: "\<forall>n \<in> set (mm_nodes (vm_mm (drm_mm_remove_node ?a ?n v'))). \<not> in_node p n"
    have "pte v p = 0" if "\<not> in_node p (?a, ?n)"
      using sp p q that mm_nodes_distinct [OF ok]
      by (auto simp: vm_space_def drm_mm_remove_node_def mm')
    then show "pte (drm_mm_remove_node ?a ?n v') p = 0"
      by (simp add: drm_mm_remove_node_def e')
  qed
  with v' e' show ?thesis using that by (simp add: lima_vm_unmap_page_table_def)
qed

subsection \<open>The heap\<close>

lemma space_invD:
  assumes "space_inv s"
  shows "kmem_wf s" and "vs_vms s i = Some v \<Longrightarrow> vm_space v s"
    and "vs_bos s j = Some b \<Longrightarrow> distinct (map bv_vm (bo_va b)) \<and> bo_pages_dma_addr b \<noteq> None \<and>
          4096 dvd unat (bo_size b) \<and> 0 < unat (bo_size b)"
    and "vs_bos s j = Some b \<Longrightarrow> e \<in> set (bo_va b) \<Longrightarrow>
          bv_block e \<in> km_live s \<and> 0 < bv_ref_count e \<and>
          (\<exists>v. vs_vms s (bv_vm e) = Some v \<and> bo_mapped v b e)"
    and "vs_bos s j = Some b \<Longrightarrow> e \<in> set (bo_va b) \<Longrightarrow> vs_bos s m = Some c \<Longrightarrow> f \<in> set (bo_va c) \<Longrightarrow>
          (j, bv_vm e) \<noteq> (m, bv_vm f) \<Longrightarrow>
          bv_block e \<noteq> bv_block f \<and> (bv_vm e = bv_vm f \<longrightarrow> bv_start e \<noteq> bv_start f)"
  using assms unfolding space_inv_def by blast+

lemma space_invI:
  assumes "kmem_wf s" and "\<And>i v. vs_vms s i = Some v \<Longrightarrow> vm_space v s"
    and "\<And>j b. vs_bos s j = Some b \<Longrightarrow> distinct (map bv_vm (bo_va b)) \<and> bo_pages_dma_addr b \<noteq> None \<and>
          4096 dvd unat (bo_size b) \<and> 0 < unat (bo_size b)"
    and "\<And>j b e. vs_bos s j = Some b \<Longrightarrow> e \<in> set (bo_va b) \<Longrightarrow>
          bv_block e \<in> km_live s \<and> 0 < bv_ref_count e \<and>
          (\<exists>v. vs_vms s (bv_vm e) = Some v \<and> bo_mapped v b e)"
    and "\<And>j b e m c f. vs_bos s j = Some b \<Longrightarrow> e \<in> set (bo_va b) \<Longrightarrow> vs_bos s m = Some c \<Longrightarrow>
          f \<in> set (bo_va c) \<Longrightarrow> (j, bv_vm e) \<noteq> (m, bv_vm f) \<Longrightarrow>
          bv_block e \<noteq> bv_block f \<and> (bv_vm e = bv_vm f \<longrightarrow> bv_start e \<noteq> bv_start f)"
  shows "space_inv s"
  using assms unfolding space_inv_def by blast

text \<open>Entries that differ in their user count only.\<close>

lemma bo_mapped_ref [simp]:
  "bo_mapped v b (e\<lparr>bv_ref_count := n\<rparr>) = bo_mapped v b e"
  "bo_mapped v (b\<lparr>bo_va := es\<rparr>) e = bo_mapped v b e"
  by (simp_all add: bo_mapped_def)

lemma vm_space_upd [simp]:
  "vm_space v (bo_upd i b s) = vm_space v s" "vm_space v (vm_upd i w s) = vm_space v s"
  "vm_space v (s\<lparr>km_live := L\<rparr>) = vm_space v s" "vm_space v (s\<lparr>km_n := n\<rparr>) = vm_space v s"
  by (simp_all add: vm_space_def vm_wf_def bo_upd_def vm_upd_def)

lemma heap_upd [simp]:
  "vs_bos (bo_upd i b s) = (vs_bos s)(i \<mapsto> b)" "vs_vms (bo_upd i b s) = vs_vms s"
  "vs_vms (vm_upd i v s) = (vs_vms s)(i \<mapsto> v)" "vs_bos (vm_upd i v s) = vs_bos s"
  "km_live (bo_upd i b s) = km_live s" "km_live (vm_upd i v s) = km_live s"
  "dm_live (bo_upd i b s) = dm_live s" "dm_live (vm_upd i v s) = dm_live s"
  "dm_alloc (bo_upd i b s) = dm_alloc s" "dm_alloc (vm_upd i v s) = dm_alloc s"
  "vs_mm_insert (bo_upd i b s) = vs_mm_insert s" "vs_mm_insert (vm_upd i v s) = vs_mm_insert s"
  "kmem_wf (bo_upd i b s) = kmem_wf s" "kmem_wf (vm_upd i v s) = kmem_wf s"
  by (simp_all add: bo_upd_def vm_upd_def kmem_wf_def)

lemma space_inv_ref:
  assumes inv: "space_inv s" and b: "vs_bos s bo = Some b" and n: "0 < n"
  shows "space_inv (bo_upd bo (b\<lparr>bo_va := va_update vm (\<lambda>e. e\<lparr>bv_ref_count := n\<rparr>) (bo_va b)\<rparr>) s)"
    (is "space_inv ?s")
proof -
  let ?u = "va_update vm (\<lambda>e. e\<lparr>bv_ref_count := n\<rparr>) (bo_va b)"
  have old: "\<exists>c0 e0. vs_bos s j = Some c0 \<and> e0 \<in> set (bo_va c0) \<and> bv_block e = bv_block e0 \<and>
      bv_vm e = bv_vm e0 \<and> bv_start e = bv_start e0 \<and>
      (0 < bv_ref_count e0 \<longrightarrow> 0 < bv_ref_count e) \<and> (\<forall>v. bo_mapped v c e = bo_mapped v c0 e0)"
    if "vs_bos ?s j = Some c" "e \<in> set (bo_va c)" for j c e
  proof (cases "j = bo")
    case True
    with that have c: "c = b\<lparr>bo_va := ?u\<rparr>" and "e \<in> set ?u" by auto
    from va_update_set [OF this(2)] show ?thesis
    proof (elim disjE bexE conjE)
      assume "e \<in> set (bo_va b)"
      with b c True show ?thesis by auto
    next
      fix x assume "x \<in> set (bo_va b)" "e = x\<lparr>bv_ref_count := n\<rparr>"
      with b c True n show ?thesis by (intro exI [of _ b] exI [of _ x]) auto
    qed
  qed (use that in auto)
  show ?thesis
  proof (rule space_invI)
    show "kmem_wf ?s" using space_invD(1) [OF inv] by simp
    show "vm_space v ?s" if "vs_vms ?s i = Some v" for i v
      using that space_invD(2) [OF inv] by simp
    show "distinct (map bv_vm (bo_va c)) \<and> bo_pages_dma_addr c \<noteq> None \<and>
        4096 dvd unat (bo_size c) \<and> 0 < unat (bo_size c)" if "vs_bos ?s j = Some c" for j c
      using that space_invD(3) [OF inv, of j] b by (auto simp: va_update_vms split: if_splits)
  next
    fix j c e assume "vs_bos ?s j = Some c" "e \<in> set (bo_va c)"
    from old [OF this] obtain c0 e0 where o: "vs_bos s j = Some c0" "e0 \<in> set (bo_va c0)"
      "bv_block e = bv_block e0" "bv_vm e = bv_vm e0" "0 < bv_ref_count e0 \<longrightarrow> 0 < bv_ref_count e"
      "\<forall>v. bo_mapped v c e = bo_mapped v c0 e0" by blast
    with space_invD(4) [OF inv o(1,2)] show "bv_block e \<in> km_live ?s \<and> 0 < bv_ref_count e \<and>
        (\<exists>v. vs_vms ?s (bv_vm e) = Some v \<and> bo_mapped v c e)" by simp
  next
    fix j c e m d f
    assume "vs_bos ?s j = Some c" "e \<in> set (bo_va c)" "vs_bos ?s m = Some d" "f \<in> set (bo_va d)"
      and ne: "(j, bv_vm e) \<noteq> (m, bv_vm f)"
    from old [OF this(1,2)] old [OF this(3,4)] obtain c0 e0 d0 f0 where
      "vs_bos s j = Some c0" "e0 \<in> set (bo_va c0)" "vs_bos s m = Some d0" "f0 \<in> set (bo_va d0)"
      "bv_block e = bv_block e0" "bv_vm e = bv_vm e0" "bv_start e = bv_start e0"
      "bv_block f = bv_block f0" "bv_vm f = bv_vm f0" "bv_start f = bv_start f0" by blast
    with space_invD(5) [OF inv this(1-4)] ne
    show "bv_block e \<noteq> bv_block f \<and> (bv_vm e = bv_vm f \<longrightarrow> bv_start e \<noteq> bv_start f)" by simp
  qed
qed

lemma vm_dma_step_live: "vm_dma_step v v' s s' \<Longrightarrow> vm_wf v s \<Longrightarrow> dm_live s \<subseteq> dm_live s'"
proof -
  assume st: "vm_dma_step v v' s s'" and wf: "vm_wf v s"
  have "ran (vm_block v) \<subseteq> ran (vm_block v')"
    using st by (fastforce simp: vm_dma_step_def ran_def)
  then have "vm_bufs v \<subseteq> vm_bufs v'" using st by (auto simp: vm_bufs_def vm_dma_step_def)
  with st show ?thesis by (auto simp: vm_dma_step_def vm_wf_def)
qed

lemma vm_space_mono: "vm_space v s \<Longrightarrow> dm_live s \<subseteq> dm_live s' \<Longrightarrow> vm_space v s'"
  by (auto simp: vm_space_def vm_wf_def)

lemma dma_only_heap:
  assumes "dma_only s s'"
  shows "vs_vms s' = vs_vms s" "vs_bos s' = vs_bos s" "km_live s' = km_live s" "km_n s' = km_n s"
    "vs_mm_insert s' = vs_mm_insert s" "dm_alloc s' = dm_alloc s" "kmem_wf s' = kmem_wf s"
  using assms by (auto simp: dma_only_def kmem_wf_def)

text \<open>A mapping survives a change of its address space that leaves its node and pages alone.\<close>

lemma bo_mapped_frame:
  assumes m: "bo_mapped v b e" and ok: "mm_ok (vm_mm v)"
    and n: "(unat (bv_start e), unat (bv_size e)) \<in> set (mm_nodes (vm_mm v'))"
    and p: "\<And>p. in_node p (unat (bv_start e), unat (bv_size e)) \<Longrightarrow> pte v' p = pte v p"
  shows "bo_mapped v' b e"
proof -
  let ?a = "unat (bv_start e)" and ?n = "unat (bv_size e)"
  have "(?a, ?n) \<in> set (mm_nodes (vm_mm v))" using m unfolding bo_mapped_def by blast
  note al = mm_ok_node [OF ok this]
  have "in_node (?a div 4096 + j) (?a, ?n)" if "j < ?n div 4096" for j
    unfolding node_pages(1,2) [OF al(1-3)] using that by linarith
  with m n p show ?thesis unfolding bo_mapped_def by metis
qed

lemma mm_start_inj:
  assumes "mm_ok mm" and "(a, n) \<in> set (mm_nodes mm)" and "(a, m) \<in> set (mm_nodes mm)"
  shows "n = m"
proof (rule ccontr)
  assume "n \<noteq> m"
  with mm_ok_nodes [OF assms(1-3)] have "node_disjoint (a, n) (a, m)" by auto
  with mm_ok_node(3) [OF assms(1,2)] mm_ok_node(3) [OF assms(1,3)] show False
    by (auto simp: node_disjoint_def)
qed

text \<open>A new mapping.\<close>

lemma space_inv_new:
  assumes inv: "space_inv s" and b: "vs_bos s bo = Some b" and v: "vs_vms s vm = Some v"
    and none: "lima_vm_bo_find vm b = None"
    and k: "k \<in> km_live s" "\<And>j c e. vs_bos s j = Some c \<Longrightarrow> e \<in> set (bo_va c) \<Longrightarrow> bv_block e \<noteq> k"
    and st: "dma_only s s'" "dm_live s \<subseteq> dm_live s'"
    and e: "bv_vm e = vm" "bv_block e = k" "bv_ref_count e = 1" "unat (bv_start e) = a" "bv_size e = bo_size b"
    and v': "vm_space v' s'" "mm_nodes (vm_mm v') = (a, unat (bo_size b)) # mm_nodes (vm_mm v)"
      "bo_mapped v' b e" "\<And>p. \<not> in_node p (a, unat (bo_size b)) \<Longrightarrow> pte v' p = pte v p"
    and dis: "\<forall>n \<in> set (mm_nodes (vm_mm v)). node_disjoint (a, unat (bo_size b)) n"
  shows "space_inv (bo_upd bo (b\<lparr>bo_va := bo_va b @ [e]\<rparr>) (vm_upd vm v' s'))" (is "space_inv ?s")
proof -
  note hp = dma_only_heap [OF st(1)]
  have old: "c = b\<lparr>bo_va := bo_va b @ [e]\<rparr> \<and> j = bo \<and> f = e \<or>
      (\<exists>c0. vs_bos s j = Some c0 \<and> f \<in> set (bo_va c0) \<and> (\<forall>w. bo_mapped w c f = bo_mapped w c0 f))"
    if "vs_bos ?s j = Some c" "f \<in> set (bo_va c)" for j c f
    using that b hp by (auto split: if_splits)
  have vm_new: "vm \<notin> bv_vm ` set (bo_va b)" using none by (simp add: find_va_None)
  have okv: "mm_ok (vm_mm v)" using space_invD(2) [OF inv v] by (simp add: vm_space_def)
  have start: "unat (bv_start f) \<noteq> a" if "vs_bos s j = Some c" "f \<in> set (bo_va c)" "bv_vm f = vm" for j c f
  proof
    assume eq: "unat (bv_start f) = a"
    from space_invD(4) [OF inv that(1,2)] that(3) v have "bo_mapped v c f" by auto
    then have "(a, unat (bv_size f)) \<in> set (mm_nodes (vm_mm v))" unfolding bo_mapped_def eq by blast
    with dis mm_ok_node(3) [OF okv this] space_invD(3) [OF inv b] show False
      by (fastforce simp: node_disjoint_def)
  qed
  have mapped: "bo_mapped v' c f" if "vs_bos s j = Some c" "f \<in> set (bo_va c)" "bv_vm f = vm" for j c f
  proof -
    from space_invD(4) [OF inv that(1,2)] that(3) v have m: "bo_mapped v c f" by auto
    let ?n = "(unat (bv_start f), unat (bv_size f))"
    have n: "?n \<in> set (mm_nodes (vm_mm v))" using m unfolding bo_mapped_def by blast
    show ?thesis
    proof (rule bo_mapped_frame [OF m okv])
      show "?n \<in> set (mm_nodes (vm_mm v'))" using n v'(2) by simp
      show "pte v' p = pte v p" if "in_node p ?n" for p
        using disjoint_pages [of "(a, unat (bo_size b))" ?n p] dis n that by (intro v'(4)) blast
    qed
  qed
  show ?thesis
  proof (rule space_invI)
    show "kmem_wf ?s" using space_invD(1) [OF inv] hp by simp
    show "vm_space w ?s" if "vs_vms ?s i = Some w" for i w
      using that v'(1) space_invD(2) [OF inv] vm_space_mono [OF _ st(2)] hp by (auto split: if_splits)
    show "distinct (map bv_vm (bo_va c)) \<and> bo_pages_dma_addr c \<noteq> None \<and>
        4096 dvd unat (bo_size c) \<and> 0 < unat (bo_size c)" if "vs_bos ?s j = Some c" for j c
      using that space_invD(3) [OF inv] b vm_new e(1) hp by (auto split: if_splits)
  next
    fix j c f assume "vs_bos ?s j = Some c" "f \<in> set (bo_va c)"
    from old [OF this] show "bv_block f \<in> km_live ?s \<and> 0 < bv_ref_count f \<and>
        (\<exists>w. vs_vms ?s (bv_vm f) = Some w \<and> bo_mapped w c f)"
    proof (elim disjE exE conjE)
      assume "c = b\<lparr>bo_va := bo_va b @ [e]\<rparr>" "f = e"
      with e k(1) v'(3) hp show ?thesis by simp
    next
      fix c0 assume o: "vs_bos s j = Some c0" "f \<in> set (bo_va c0)" "\<forall>w. bo_mapped w c f = bo_mapped w c0 f"
      with space_invD(4) [OF inv o(1,2)] mapped [OF o(1,2)] hp show ?thesis by auto
    qed
  next
    fix j c f m d g
    assume f: "vs_bos ?s j = Some c" "f \<in> set (bo_va c)" and g: "vs_bos ?s m = Some d" "g \<in> set (bo_va d)"
      and ne: "(j, bv_vm f) \<noteq> (m, bv_vm g)"
    have new: "bv_block e \<noteq> bv_block h \<and> (bv_vm e = bv_vm h \<longrightarrow> bv_start e \<noteq> bv_start h)"
      if "vs_bos s i = Some c0" "h \<in> set (bo_va c0)" for i c0 h
      using k(2) [OF that] start [OF that] e by auto
    from old [OF f] old [OF g] show "bv_block f \<noteq> bv_block g \<and> (bv_vm f = bv_vm g \<longrightarrow> bv_start f \<noteq> bv_start g)"
      using new ne space_invD(5) [OF inv] by (elim disjE exE conjE) (blast, metis, metis, blast)
  qed
qed

text \<open>A mapping removed.\<close>

lemma space_inv_del:
  assumes inv: "space_inv s" and b: "vs_bos s bo = Some b" and v: "vs_vms s vm = Some v"
    and find: "lima_vm_bo_find vm b = Some e"
    and v': "vm_space v' s" "mm_nodes (vm_mm v') = remove1 (unat (bv_start e), unat (bv_size e)) (mm_nodes (vm_mm v))"
      "\<And>p. \<not> in_node p (unat (bv_start e), unat (bv_size e)) \<Longrightarrow> pte v' p = pte v p"
  shows "space_inv (bo_upd bo (b\<lparr>bo_va := va_delete vm (bo_va b)\<rparr>) (vm_upd vm v' s))" (is "space_inv ?s")
    and "\<And>j c f. ((vs_bos s)(bo \<mapsto> b\<lparr>bo_va := va_delete vm (bo_va b)\<rparr>)) j = Some c \<Longrightarrow>
          f \<in> set (bo_va c) \<Longrightarrow> bv_block f \<noteq> bv_block e"
proof -
  from find_va [OF find] have e: "e \<in> set (bo_va b)" "bv_vm e = vm" by simp_all
  have db: "distinct (map bv_vm (bo_va b))" using space_invD(3) [OF inv b] by simp
  have old: "\<exists>c0. vs_bos s j = Some c0 \<and> f \<in> set (bo_va c0) \<and> (j, bv_vm f) \<noteq> (bo, bv_vm e) \<and>
      (\<forall>w. bo_mapped w c f = bo_mapped w c0 f)"
    if "vs_bos ?s j = Some c" "f \<in> set (bo_va c)" for j c f
  proof (cases "j = bo")
    case True
    with that have c: "c = b\<lparr>bo_va := va_delete vm (bo_va b)\<rparr>" and "f \<in> set (va_delete vm (bo_va b))"
      by auto
    then have "f \<in> set (bo_va b)" "bv_vm f \<noteq> vm" using va_delete_set [OF db] by simp_all
    with True b c e(2) show ?thesis by (intro exI [of _ b]) simp
  next
    case False
    with that show ?thesis by auto
  qed
  have okv: "mm_ok (vm_mm v)" using space_invD(2) [OF inv v] by (simp add: vm_space_def)
  have mv: "bo_mapped v b e" using space_invD(4) [OF inv b e(1)] e(2) v by auto
  then have ne: "(unat (bv_start e), unat (bv_size e)) \<in> set (mm_nodes (vm_mm v))"
    unfolding bo_mapped_def by blast
  have mapped: "bo_mapped v' c f"
    if f: "vs_bos s j = Some c" "f \<in> set (bo_va c)" "(j, bv_vm f) \<noteq> (bo, bv_vm e)" "bv_vm f = vm" for j c f
  proof -
    from space_invD(4) [OF inv f(1,2)] f(4) v have m: "bo_mapped v c f" by auto
    let ?n = "(unat (bv_start f), unat (bv_size f))"
    have n: "?n \<in> set (mm_nodes (vm_mm v))" using m unfolding bo_mapped_def by blast
    have "bv_start f \<noteq> bv_start e" using space_invD(5) [OF inv f(1,2) b e(1) f(3)] f(4) e(2) by simp
    then have diff: "?n \<noteq> (unat (bv_start e), unat (bv_size e))" by (simp add: word_unat_eq_iff)
    show ?thesis
    proof (rule bo_mapped_frame [OF m okv])
      show "?n \<in> set (mm_nodes (vm_mm v'))" using n diff v'(2) by simp
      show "pte v' p = pte v p" if "in_node p ?n" for p
        using disjoint_pages [OF mm_ok_nodes [OF okv n ne diff] that] by (intro v'(3)) blast
    qed
  qed
  show "space_inv ?s"
  proof (rule space_invI)
    show "kmem_wf ?s" using space_invD(1) [OF inv] by simp
    show "vm_space w ?s" if "vs_vms ?s i = Some w" for i w
      using that v'(1) space_invD(2) [OF inv] by (auto split: if_splits)
    show "distinct (map bv_vm (bo_va c)) \<and> bo_pages_dma_addr c \<noteq> None \<and>
        4096 dvd unat (bo_size c) \<and> 0 < unat (bo_size c)" if "vs_bos ?s j = Some c" for j c
      using that space_invD(3) [OF inv] b va_delete_distinct [OF db] by (auto split: if_splits)
  next
    fix j c f assume "vs_bos ?s j = Some c" "f \<in> set (bo_va c)"
    from old [OF this] obtain c0 where o: "vs_bos s j = Some c0" "f \<in> set (bo_va c0)"
      "(j, bv_vm f) \<noteq> (bo, bv_vm e)" "\<forall>w. bo_mapped w c f = bo_mapped w c0 f" by blast
    with space_invD(4) [OF inv o(1,2)] mapped [OF o(1-3)]
    show "bv_block f \<in> km_live ?s \<and> 0 < bv_ref_count f \<and>
        (\<exists>w. vs_vms ?s (bv_vm f) = Some w \<and> bo_mapped w c f)" by auto
  next
    fix j c f m d g
    assume f: "vs_bos ?s j = Some c" "f \<in> set (bo_va c)" and g: "vs_bos ?s m = Some d" "g \<in> set (bo_va d)"
      and "(j, bv_vm f) \<noteq> (m, bv_vm g)"
    with old [OF f] old [OF g] space_invD(5) [OF inv]
    show "bv_block f \<noteq> bv_block g \<and> (bv_vm f = bv_vm g \<longrightarrow> bv_start f \<noteq> bv_start g)" by blast
  qed
  show "bv_block f \<noteq> bv_block e"
    if "((vs_bos s)(bo \<mapsto> b\<lparr>bo_va := va_delete vm (bo_va b)\<rparr>)) j = Some c" "f \<in> set (bo_va c)"
    for j c f
    using old [of j c f] that space_invD(5) [OF inv _ _ b e(1)] by (auto split: if_splits)
qed

lemma space_inv_free:
  assumes inv: "space_inv s" and k: "\<And>j c f. vs_bos s j = Some c \<Longrightarrow> f \<in> set (bo_va c) \<Longrightarrow> bv_block f \<noteq> k"
  shows "space_inv (s\<lparr>km_live := km_live s - {k}\<rparr>)"
proof (rule space_invI, goal_cases)
  case 1
  then show ?case using space_invD(1) [OF inv] by (simp add: kmem_wf_def)
next
  case (2 i v)
  then show ?case using space_invD(2) [OF inv] by simp
next
  case (3 j b)
  then show ?case using space_invD(3) [OF inv] by simp
next
  case (4 j b e)
  then show ?case using space_invD(4) [OF inv] k by simp
next
  case (5 j b e m c f)
  then show ?case using space_invD(5) [OF inv, of j b e m c f] by simp
qed

lemma space_inv_alloc:
  assumes inv: "space_inv s"
  shows "space_inv (s\<lparr>km_live := insert (km_n s) (km_live s), km_n := Suc (km_n s)\<rparr>)"
    and "space_inv (s\<lparr>km_n := Suc (km_n s)\<rparr>)"
    and "vs_bos s j = Some c \<Longrightarrow> f \<in> set (bo_va c) \<Longrightarrow> bv_block f \<noteq> km_n s"
proof -
  have l: "vm_space v (s\<lparr>km_live := L, km_n := n\<rparr>) = vm_space v s" for v L n
    by (simp add: vm_space_def vm_wf_def)
  show "space_inv (s\<lparr>km_live := insert (km_n s) (km_live s), km_n := Suc (km_n s)\<rparr>)"
    by (rule space_invI)
      (use space_invD [OF inv] in \<open>auto simp: kmem_wf_def l less_Suc_eq\<close>)
  show "space_inv (s\<lparr>km_n := Suc (km_n s)\<rparr>)"
    by (rule space_invI)
      (use space_invD [OF inv] in \<open>auto simp: kmem_wf_def less_Suc_eq\<close>)
  show "vs_bos s j = Some c \<Longrightarrow> f \<in> set (bo_va c) \<Longrightarrow> bv_block f \<noteq> km_n s"
    using space_invD(1) [OF inv] space_invD(4) [OF inv] by (fastforce simp: kmem_wf_def)
qed

subsection \<open>Adding and deleting\<close>

text \<open>What a failed \<open>lima_vm_bo_add\<close> leaves unchanged: everything but spare page-table blocks.\<close>

definition same_mappings :: "'a vm_st_scheme \<Rightarrow> 'a vm_st_scheme \<Rightarrow> bool" where
  "same_mappings s s' \<longleftrightarrow> vs_bos s' = vs_bos s \<and> km_live s' = km_live s \<and>
     (\<forall>i. map_option pte (vs_vms s' i) = map_option pte (vs_vms s i) \<and>
          map_option vm_mm (vs_vms s' i) = map_option vm_mm (vs_vms s i) \<and>
          map_option vm_refcount (vs_vms s' i) = map_option vm_refcount (vs_vms s i))"

lemma space_inv_vm:
  assumes inv: "space_inv s" and v: "vs_vms s vm = Some v"
    and st: "dma_only s s'" "dm_live s \<subseteq> dm_live s'"
    and v': "vm_space v' s'" "vm_mm v' = vm_mm v" "pte v' = pte v"
  shows "space_inv (vm_upd vm v' s')"
proof -
  note hp = dma_only_heap [OF st(1)]
  have m: "bo_mapped v' b e = bo_mapped v b e" for b e using v' by (simp add: bo_mapped_def)
  have ex: "\<exists>w'. vs_vms (vm_upd vm v' s') i = Some w' \<and> bo_mapped w' b e"
    if "\<exists>w. vs_vms s i = Some w \<and> bo_mapped w b e" for i b e
    using that v m hp by auto
  show ?thesis
  proof (rule space_invI)
    show "kmem_wf (vm_upd vm v' s')" using space_invD(1) [OF inv] hp by simp
    show "vm_space w (vm_upd vm v' s')" if "vs_vms (vm_upd vm v' s') i = Some w" for i w
      using that v'(1) space_invD(2) [OF inv] vm_space_mono [OF _ st(2)] hp by (auto split: if_splits)
    show "bv_block e \<noteq> bv_block f \<and> (bv_vm e = bv_vm f \<longrightarrow> bv_start e \<noteq> bv_start f)"
      if "vs_bos (vm_upd vm v' s') j = Some b" "e \<in> set (bo_va b)" "vs_bos (vm_upd vm v' s') m = Some c"
        "f \<in> set (bo_va c)" "(j, bv_vm e) \<noteq> (m, bv_vm f)" for j b e m c f
      using space_invD(5) [OF inv, of j b e m c f] that hp by simp
  qed (use space_invD(3,4) [OF inv] hp ex in \<open>simp_all\<close>)
qed

lemma bo_map_cases:
  assumes inv: "space_inv s" and dc: "dma_contract s" and mc: "mm_contract s"
    and b: "vs_bos s bo = Some b" and v: "vs_vms s vm = Some v" and none: "lima_vm_bo_find vm b = None"
    and k: "k \<in> km_live s" "\<And>j c e. vs_bos s j = Some c \<Longrightarrow> e \<in> set (bo_va c) \<Longrightarrow> bv_block e \<noteq> k"
  obtains s1 r where "lima_vm_bo_map vm bo k s = Some (r, s1\<lparr>km_live := km_live s - {k}\<rparr>)"
      and "r = - ENOMEM \<or> r = - ENOSPC" and "space_inv s1" and "same_mappings s s1"
  | a dma j s1 v1 e where "lima_vm_bo_map vm bo k s =
        Some (0, bo_upd bo (b\<lparr>bo_va := bo_va b @ [e]\<rparr>) (vm_upd vm v1 s1))"
      and "space_inv (bo_upd bo (b\<lparr>bo_va := bo_va b @ [e]\<rparr>) (vm_upd vm v1 s1))"
      and "dma_only s s1" and "bv_vm e = vm" and "bv_block e = k" and "bv_ref_count e = 1"
      and "unat (bv_start e) = a" and "bv_size e = bo_size b"
      and "bo_mapped v1 b e" and "vm_mm v1 = (vm_mm v)\<lparr>mm_nodes := (a, unat (bo_size b)) # mm_nodes (vm_mm v)\<rparr>"
      and "bo_pages_dma_addr b = Some (j, dma)" and "vm_refcount v1 = vm_refcount v"
      and "pte v1 = (\<lambda>p. if in_node p (a, unat (bo_size b)) then dma ! (p - a div 4096) OR LIMA_VM_FLAGS_CACHE else pte v p)"
      and "\<forall>p. in_node p (a, unat (bo_size b)) \<longrightarrow> pte v p = 0"
proof (cases "vs_mm_insert s (vm_mm v) (unat (bo_size b))")
  case None
  then show ?thesis
    using b v k(1) inv that(1) [of "- ENOSPC" s]
    by (simp add: lima_vm_bo_map_def kfree_def same_mappings_def)
next
  case (Some a)
  obtain j dma where dma: "bo_pages_dma_addr b = Some (j, dma)" using space_invD(3) [OF inv b] by auto
  have sp: "vm_space v s" and sz: "4096 dvd unat (bo_size b)" "0 < unat (bo_size b)"
    using space_invD(2) [OF inv v] space_invD(3) [OF inv b] by simp_all
  then have ok: "mm_ok (vm_mm v)" by (simp add: vm_space_def)
  note c = mm_contractD [OF mc ok Some]
  note ok' = mm_ok_add [OF mc ok Some sz]
  have nd: "unat (of_nat a :: u32) = a" using range_words(1) [OF c(5) sz(2)] .
  obtain v' s1 r where
    run: "lima_vm_map_page_table (mm_add a (unat (bo_size b)) v) ((!) dma) (of_nat a) (of_nat a + bo_size b - 1) s
      = Some (r, v', s1)"
    and st: "vm_dma_step (mm_add a (unat (bo_size b)) v) v' s s1"
    and res: "r = 0 \<and> vm_space v' s1 \<and>
        pte v' = (\<lambda>p. if in_node p (a, unat (bo_size b)) then dma ! (p - a div 4096) OR LIMA_VM_FLAGS_CACHE else pte v p)
      \<or> r = - ENOMEM \<and> vm_space (drm_mm_remove_node a (unat (bo_size b)) v') s1 \<and> pte v' = pte v \<and>
        vm_mm (drm_mm_remove_node a (unat (bo_size b)) v') = vm_mm v"
    by (rule map_in_space [OF sp dc c(1) c(5) ok'])
  have only: "dma_only s s1" and mm': "vm_mm v' = (vm_mm v)\<lparr>mm_nodes := (a, unat (bo_size b)) # mm_nodes (vm_mm v)\<rparr>"
    and rc: "vm_refcount v' = vm_refcount v"
    using st by (simp_all add: vm_dma_step_def mm_add_def)
  have live: "dm_live s \<subseteq> dm_live s1"
    by (rule vm_dma_step_live [OF st]) (use sp in \<open>simp add: vm_space_def mm_add_def\<close>)
  note hp = dma_only_heap [OF only]
  from res show ?thesis
  proof (elim disjE conjE)
    assume r: "r = - ENOMEM" and v2: "vm_space (drm_mm_remove_node a (unat (bo_size b)) v') s1" "pte v' = pte v"
      "vm_mm (drm_mm_remove_node a (unat (bo_size b)) v') = vm_mm v"
    let ?s1 = "vm_upd vm (drm_mm_remove_node a (unat (bo_size b)) v') s1"
    have p: "pte (drm_mm_remove_node a (unat (bo_size b)) v') = pte v" using v2(2) by (simp add: drm_mm_remove_node_def)
    have "lima_vm_bo_map vm bo k s = Some (r, ?s1\<lparr>km_live := km_live s - {k}\<rparr>)"
      using b v Some dma run r k(1) hp by (simp add: lima_vm_bo_map_def Let_def kfree_def)
    moreover have "same_mappings s ?s1"
      using hp v p v2(3) rc by (simp add: same_mappings_def drm_mm_remove_node_def)
    ultimately show ?thesis
      using that(1) r space_inv_vm [OF inv v only live v2(1,3) p] by blast
  next
    assume r: "r = 0" and v2: "vm_space v' s1"
      "pte v' = (\<lambda>p. if in_node p (a, unat (bo_size b)) then dma ! (p - a div 4096) OR LIMA_VM_FLAGS_CACHE else pte v p)"
    let ?e = "\<lparr>bv_block = k, bv_vm = vm, bv_ref_count = 1, bv_start = of_nat a, bv_size = bo_size b\<rparr>"
    have m: "bo_mapped v' b ?e"
    proof -
      have "in_node (a div 4096 + i) (a, unat (bo_size b))" if "i < unat (bo_size b) div 4096" for i
        unfolding node_pages(1,2) [OF c(1) sz] using that by linarith
      then show ?thesis by (simp add: bo_mapped_def nd mm' v2(2) dma)
    qed
    have zero: "\<forall>p. in_node p (a, unat (bo_size b)) \<longrightarrow> pte v p = 0"
    proof (intro allI impI)
      fix p assume p: "in_node p (a, unat (bo_size b))"
      then have "\<forall>n \<in> set (mm_nodes (vm_mm v)). \<not> in_node p n" using c(4) disjoint_pages by blast
      moreover have "in_node p (mm_start (vm_mm v), mm_size (vm_mm v))"
        using p c(2,3) by (auto simp: in_node_def)
      ultimately show "pte v p = 0" using sp by (simp add: vm_space_def)
    qed
    have 1: "space_inv (bo_upd bo (b\<lparr>bo_va := bo_va b @ [?e]\<rparr>) (vm_upd vm v' s1))"
      by (rule space_inv_new [OF inv b v none k only live, where a = a])
        (use v2 m c(4) nd mm' in simp_all)
    have 2: "lima_vm_bo_map vm bo k s =
        Some (0, bo_upd bo (b\<lparr>bo_va := bo_va b @ [?e]\<rparr>) (vm_upd vm v' s1))"
      using b v Some dma run r by (simp add: lima_vm_bo_map_def Let_def)
    have 3: "bv_vm ?e = vm" "bv_block ?e = k" "bv_ref_count ?e = 1" "unat (bv_start ?e) = a"
      "bv_size ?e = bo_size b" using nd by simp_all
    show ?thesis by (rule that(2) [OF 2 1 only 3 m mm' dma rc v2(2) zero])
  qed
qed

lemma va_update_cong_first:
  "List.find (\<lambda>e. bv_vm e = vm) es = Some e \<Longrightarrow> f e = g e \<Longrightarrow> va_update vm f es = va_update vm g es"
  by (induction es) (auto split: if_splits)

lemma find_va_snoc: "lima_vm_bo_find vm b = None \<Longrightarrow> bv_vm e = vm \<Longrightarrow>
  lima_vm_bo_find vm (b\<lparr>bo_va := bo_va b @ [e]\<rparr>) = Some e"
  by (simp add: lima_vm_bo_find_def find_snoc)

lemma find_va_update_aux:
  "List.find (\<lambda>e. bv_vm e = vm) es = Some e \<Longrightarrow> (\<And>x. bv_vm (f x) = bv_vm x) \<Longrightarrow>
   List.find (\<lambda>e. bv_vm e = vm) (va_update vm f es) = Some (f e)"
  by (induction es) (auto split: if_splits)

lemma find_va_update:
  "lima_vm_bo_find vm b = Some e \<Longrightarrow> (\<And>x. bv_vm (f x) = bv_vm x) \<Longrightarrow>
   lima_vm_bo_find vm (b\<lparr>bo_va := va_update vm f (bo_va b)\<rparr>) = Some (f e)"
  by (simp add: lima_vm_bo_find_def find_va_update_aux)

text \<open>
  C6. \<open>lima_vm_bo_add\<close> on a consistent heap always returns, keeps every address space and
  every mapping of every object consistent (page entries, nodes, disjointness), and returns
  one of \<open>0\<close>, \<open>-ENOENT\<close>, \<open>-ENOMEM\<close>, \<open>-ENOSPC\<close>. After \<open>0\<close> the object is mapped in the address
  space, each of its pages at its address; after an error no mapping, node, entry or block
  has changed. Only an entry whose 32-bit user count is about to wrap is excluded.
\<close>

theorem bo_add_keeps_space:
  assumes inv: "space_inv s" and dc: "dma_contract s" and mc: "mm_contract s"
    and b: "vs_bos s bo = Some b" and v: "vs_vms s vm = Some v"
    and cnt: "\<forall>e. lima_vm_bo_find vm b = Some e \<longrightarrow> bv_ref_count e \<noteq> 0xFFFFFFFF"
  shows "\<exists>r s'. lima_vm_bo_add vm bo create s = Some (r, s') \<and> space_inv s' \<and>
    r \<in> {0, - ENOENT, - ENOMEM, - ENOSPC} \<and>
    (r = 0 \<longrightarrow> (\<exists>b' e v'. vs_bos s' bo = Some b' \<and> lima_vm_bo_find vm b' = Some e \<and>
                   vs_vms s' vm = Some v' \<and> bo_mapped v' b' e)) \<and>
    (r \<noteq> 0 \<longrightarrow> same_mappings s s')"
proof (cases "lima_vm_bo_find vm b")
  case (Some e)
  let ?f = "\<lambda>e. e\<lparr>bv_ref_count := bv_ref_count e + 1\<rparr>"
  from find_va [OF Some] have e: "e \<in> set (bo_va b)" "bv_vm e = vm" by simp_all
  have n: "0 < bv_ref_count e + 1"
    using cnt Some by (simp add: succ_pos)
  have "va_update vm ?f (bo_va b) = va_update vm (\<lambda>x. x\<lparr>bv_ref_count := bv_ref_count e + 1\<rparr>) (bo_va b)"
    using Some by (intro va_update_cong_first [of _ _ e]) (simp_all add: lima_vm_bo_find_def)
  then have "space_inv (bo_upd bo (b\<lparr>bo_va := va_update vm ?f (bo_va b)\<rparr>) s)"
    using space_inv_ref [OF inv b n] by simp
  moreover have "bo_mapped v b e" using space_invD(4) [OF inv b e(1)] e(2) v by auto
  ultimately show ?thesis
    using b v Some find_va_update [OF Some, of ?f] by (simp add: lima_vm_bo_add_def)
next
  case None
  show ?thesis
  proof (cases "create \<and> km_ok s (km_n s)")
    case False
    then show ?thesis
      using b None inv space_inv_alloc(2) [OF inv]
      by (auto simp: lima_vm_bo_add_def kzalloc_def same_mappings_def)
  next
    case True
    let ?s = "s\<lparr>km_live := insert (km_n s) (km_live s), km_n := Suc (km_n s)\<rparr>"
    have inv': "space_inv ?s" and k: "km_n s \<in> km_live ?s"
      using space_inv_alloc(1) [OF inv] by simp_all
    have frb: "bv_block e \<noteq> km_n s" if "vs_bos ?s j = Some c" "e \<in> set (bo_va c)" for j c e
      using space_inv_alloc(3) [OF inv] that by simp
    have run: "lima_vm_bo_add vm bo create s = lima_vm_bo_map vm bo (km_n s) ?s"
      using b None True by (simp add: lima_vm_bo_add_def kzalloc_def)
    have s': "dma_contract ?s" "mm_contract ?s" "vs_bos ?s bo = Some b" "vs_vms ?s vm = Some v"
      using dc mc b v by (simp_all add: dma_contract_def mm_contract_def)
    show ?thesis
    proof (cases rule: bo_map_cases [OF inv' s' None k, case_names fresh fail ok])
      case (fresh j c e)
      then show ?case by (rule frb)
    next
      case (fail s1 r)
      have "bv_block e \<noteq> km_n s" if "vs_bos s1 j = Some c" "e \<in> set (bo_va c)" for j c e
        using frb that fail(4) by (simp add: same_mappings_def)
      moreover have l: "km_live s1 = insert (km_n s) (km_live s)"
        using fail(4) by (simp add: same_mappings_def)
      ultimately have "space_inv (s1\<lparr>km_live := km_live s1 - {km_n s}\<rparr>)"
        using space_inv_free [OF fail(3)] by blast
      moreover have "km_n s \<notin> km_live s" using space_invD(1) [OF inv] by (rule kzalloc_fresh)
      ultimately show ?thesis
        using fail l run by (auto simp: same_mappings_def)
    next
      case (ok a dma j s1 v1 e)
      have "lima_vm_bo_find vm (b\<lparr>bo_va := bo_va b @ [e]\<rparr>) = Some e"
        using None ok(4) by (rule find_va_snoc)
      with ok run show ?thesis by simp
    qed
  qed
qed

lemma bo_del_last:
  assumes inv: "space_inv s" and b: "vs_bos s bo = Some b" and v: "vs_vms s vm = Some v"
    and find: "lima_vm_bo_find vm b = Some e" and one: "bv_ref_count e = 1"
    and top: "unat (bv_start e) + unat (bv_size e) < 2 ^ 32"
  obtains v' where "lima_vm_bo_del vm bo s =
      Some ((bo_upd bo (b\<lparr>bo_va := va_delete vm (bo_va b)\<rparr>) (vm_upd vm v' s))\<lparr>km_live := km_live s - {bv_block e}\<rparr>)"
    and "space_inv ((bo_upd bo (b\<lparr>bo_va := va_delete vm (bo_va b)\<rparr>) (vm_upd vm v' s))\<lparr>km_live := km_live s - {bv_block e}\<rparr>)"
    and "pte v' = (\<lambda>p. if in_node p (unat (bv_start e), unat (bv_size e)) then 0 else pte v p)"
    and "vm_mm v' = (vm_mm v)\<lparr>mm_nodes := remove1 (unat (bv_start e), unat (bv_size e)) (mm_nodes (vm_mm v))\<rparr>"
    and "vm_refcount v' = vm_refcount v"
proof -
  from find_va [OF find] have e: "e \<in> set (bo_va b)" "bv_vm e = vm" by simp_all
  have m: "bo_mapped v b e" and live: "bv_block e \<in> km_live s"
    using space_invD(4) [OF inv b e(1)] e(2) v by auto
  have d: "bo_pages_dma_addr b \<noteq> None" using space_invD(3) [OF inv b] by simp
  obtain v1 where v1: "lima_vm_unmap_page_table v (bv_start e) (bv_start e + bv_size e - 1) = Some v1"
    "vm_frame v v1" "pte v1 = (\<lambda>p. if in_node p (unat (bv_start e), unat (bv_size e)) then 0 else pte v p)"
    "vm_space (drm_mm_remove_node (unat (bv_start e)) (unat (bv_size e)) v1) s"
    by (rule unmap_in_space [OF space_invD(2) [OF inv v] m d top])
  let ?v = "drm_mm_remove_node (unat (bv_start e)) (unat (bv_size e)) v1"
  have mm: "vm_mm ?v = (vm_mm v)\<lparr>mm_nodes := remove1 (unat (bv_start e), unat (bv_size e)) (mm_nodes (vm_mm v))\<rparr>"
    and p: "pte ?v = (\<lambda>p. if in_node p (unat (bv_start e), unat (bv_size e)) then 0 else pte v p)"
    and rc: "vm_refcount ?v = vm_refcount v"
    using v1(2,3) by (simp_all add: drm_mm_remove_node_def vm_frame_def)
  have run: "lima_vm_bo_del vm bo s = Some ((bo_upd bo (b\<lparr>bo_va := va_delete vm (bo_va b)\<rparr>) (vm_upd vm ?v s))
      \<lparr>km_live := km_live s - {bv_block e}\<rparr>)"
    using b find one v v1(1) live by (simp add: lima_vm_bo_del_def kfree_def Let_def)
  note del = space_inv_del [OF inv b v find v1(4)]
  have "space_inv ((bo_upd bo (b\<lparr>bo_va := va_delete vm (bo_va b)\<rparr>) (vm_upd vm ?v s))
      \<lparr>km_live := km_live (bo_upd bo (b\<lparr>bo_va := va_delete vm (bo_va b)\<rparr>) (vm_upd vm ?v s)) - {bv_block e}\<rparr>)"
    by (rule space_inv_free) (use del mm p in \<open>auto split: if_splits\<close>)
  then show ?thesis using that [OF run _ p mm rc] by simp
qed



section \<open>Life of an address space\<close>

text \<open>The blocks below index \<open>n\<close>.\<close>

definition bts_below :: "lima_vm \<Rightarrow> nat \<Rightarrow> (u32 \<times> nat) set" where
  "bts_below v n = {(d, LIMA_VM_BT_BYTES) | i d. i < n \<and> vm_block v i = Some d}"

lemma free_bts:
  assumes ok: "vm_tables_ok v" and live: "bts_below v 128 \<subseteq> dm_live s" and n: "n \<le> 128"
  shows "each (free_bt v) [0..<n] s = Some (s\<lparr>dm_live := dm_live s - bts_below v n\<rparr>)"
  using n
proof (induction n)
  case 0
  then show ?case by (simp add: bts_below_def)
next
  case (Suc n)
  let ?s = "s\<lparr>dm_live := dm_live s - bts_below v n\<rparr>"
  have run: "each (free_bt v) [0..<Suc n] s = free_bt v n ?s"
    using Suc by (simp add: each_snoc)
  show ?case
  proof (cases "vm_bts v n")
    case None
    then have "bts_below v (Suc n) = bts_below v n"
      by (auto simp: bts_below_def vm_block_def less_Suc_eq)
    with None show ?thesis unfolding run by (simp add: free_bt_def)
  next
    case (Some b)
    obtain d c where b: "b = (d, c)" by (cases b)
    have blk: "vm_block v n = Some d" using Some b by (simp add: vm_block_def)
    have "\<not> (i < n \<and> vm_block v i = Some d)" for i
    proof
      assume "i < n \<and> vm_block v i = Some d"
      then have "buf_disjoint (d, 32768) (d, 32768)"
        using ok blk unfolding vm_tables_ok_def by blast
      then show False by (simp add: buf_disjoint_def)
    qed
    then have new: "(d, LIMA_VM_BT_BYTES) \<notin> bts_below v n" by (auto simp: bts_below_def)
    have "(d, LIMA_VM_BT_BYTES) \<in> bts_below v 128"
      using blk Suc.prems by (auto simp: bts_below_def intro!: exI [of _ n])
    then have l: "(d, LIMA_VM_BT_BYTES) \<in> dm_live ?s" using live new by auto
    have "bts_below v (Suc n) = insert (d, LIMA_VM_BT_BYTES) (bts_below v n)"
      using blk by (auto simp: bts_below_def less_Suc_eq)
    then show ?thesis
      using Some b dma_free_wc_Some [OF l] unfolding run by (simp add: free_bt_def Diff_insert [symmetric])
  qed
qed

lemma vm_bufs_split:
  assumes "vm_tables_ok v"
  shows "vm_bufs v = insert (vm_pd_dma v, LIMA_PAGE_SIZE) (bts_below v 128)"
    and "(vm_pd_dma v, LIMA_PAGE_SIZE) \<notin> bts_below v 128"
proof -
  have lt: "\<forall>i d. vm_block v i = Some d \<longrightarrow> i < 128" using assms unfolding vm_tables_ok_def by blast
  have "(\<lambda>d. (d, LIMA_VM_BT_BYTES)) ` ran (vm_block v) = bts_below v 128"
    unfolding bts_below_def ran_def using lt by blast
  then show "vm_bufs v = insert (vm_pd_dma v, LIMA_PAGE_SIZE) (bts_below v 128)"
    by (simp add: vm_bufs_def)
  show "(vm_pd_dma v, LIMA_PAGE_SIZE) \<notin> bts_below v 128"
    by (simp add: bts_below_def regs push_bit_eq_mult)
qed

lemma vm_release_ledger:
  assumes v: "vs_vms s vm = Some v" and wf: "vm_wf v s" and k: "vm \<in> km_live s"
  shows "lima_vm_release vm s = Some (s\<lparr>dm_live := dm_live s - vm_bufs v, vs_vms := (vs_vms s)(vm := None),
    km_live := km_live s - {vm}\<rparr>)"
proof -
  have ok: "vm_tables_ok v" and live: "vm_bufs v \<subseteq> dm_live s" using wf by (simp_all add: vm_wf_def)
  note sp = vm_bufs_split [OF ok]
  have n: "LIMA_VM_NUM_BT = 128" by (simp add: regs drop_bit_eq_div)
  have "each (free_bt v) [0..<128] s = Some (s\<lparr>dm_live := dm_live s - bts_below v 128\<rparr>)"
    using free_bts [OF ok _ order_refl] live sp by blast
  moreover have "(vm_pd_dma v, LIMA_PAGE_SIZE) \<in> dm_live s - bts_below v 128" using live sp by blast
  ultimately show ?thesis
    using v k by (simp add: lima_vm_release_def n dma_free_wc_def kfree_def sp(1) Diff_insert [symmetric])
qed

text \<open>
  The heap of address spaces: each is counted, has its block, well-formed tables, and no two
  share a buffer.
\<close>

definition vrefs :: "'a vm_st_scheme \<Rightarrow> nat \<Rightarrow> nat" where
  "vrefs s i = (case vs_vms s i of None \<Rightarrow> 0 | Some v \<Rightarrow> vm_refcount v)"

definition vms_wf :: "'a vm_st_scheme \<Rightarrow> bool" where
  "vms_wf s \<longleftrightarrow> (\<forall>i v. vs_vms s i = Some v \<longrightarrow> 0 < vm_refcount v \<and> i \<in> km_live s \<and> vm_wf v s) \<and>
     (\<forall>i j v w. vs_vms s i = Some v \<longrightarrow> vs_vms s j = Some w \<longrightarrow> i \<noteq> j \<longrightarrow> vm_bufs v \<inter> vm_bufs w = {})"

lemma vms_wfD: "vms_wf s \<Longrightarrow> vs_vms s i = Some v \<Longrightarrow> 0 < vm_refcount v \<and> i \<in> km_live s \<and> vm_wf v s"
  by (auto simp: vms_wf_def)

lemma vrefs_Some: "vms_wf s \<Longrightarrow> 0 < vrefs s i \<Longrightarrow> \<exists>v. vs_vms s i = Some v \<and> vrefs s i = vm_refcount v"
  by (auto simp: vrefs_def split: option.splits)

lemma vrefs_0: "vms_wf s \<Longrightarrow> vrefs s i = 0 \<Longrightarrow> vs_vms s i = None"
  using vms_wfD [of s i] by (auto simp: vrefs_def split: option.splits)

lemma vms_wf_count:
  assumes "vms_wf s" and "vs_vms s i = Some v" and "0 < n"
  shows "vms_wf (vm_upd i (v\<lparr>vm_refcount := n\<rparr>) s)"
proof -
  have w: "vm_wf w (vm_upd i (v\<lparr>vm_refcount := n\<rparr>) s) = vm_wf w s" for w
    by (simp add: vm_wf_def)
  show ?thesis using assms unfolding vms_wf_def by (auto simp: w split: if_splits)
qed

lemma vm_get_live:
  assumes "vms_wf s" and "0 < vrefs s x"
  shows "\<exists>s'. lima_vm_get x s = Some s' \<and> vms_wf s' \<and> vrefs s' = (vrefs s)(x := Suc (vrefs s x))"
proof -
  from vrefs_Some [OF assms] obtain v where v: "vs_vms s x = Some v" by blast
  then show ?thesis
    using vms_wf_count [OF assms(1) v] by (auto simp: lima_vm_get_def vrefs_def fun_eq_iff)
qed

lemma vm_put_live:
  assumes wf: "vms_wf s" and pos: "0 < vrefs s x"
  shows "\<exists>s'. lima_vm_put x s = Some s' \<and> vms_wf s' \<and> vrefs s' = (vrefs s)(x := vrefs s x - 1)"
proof -
  from vrefs_Some [OF assms] obtain v where v: "vs_vms s x = Some v" "vrefs s x = vm_refcount v" by blast
  note d = vms_wfD [OF wf v(1)]
  show ?thesis
  proof (cases "vm_refcount v = 1")
    case False
    with v d show ?thesis
      using vms_wf_count [OF wf v(1), of "vm_refcount v - 1"]
      by (auto simp: lima_vm_put_def vrefs_def fun_eq_iff)
  next
    case True
    let ?s = "s\<lparr>dm_live := dm_live s - vm_bufs v, vs_vms := (vs_vms s)(x := None), km_live := km_live s - {x}\<rparr>"
    have "lima_vm_put x s = Some ?s"
      using True v(1) vm_release_ledger [OF v(1)] d by (simp add: lima_vm_put_def)
    moreover have "vms_wf ?s"
      unfolding vms_wf_def
    proof (intro conjI allI impI)
      fix i w assume i: "vs_vms ?s i = Some w"
      then have iw: "vs_vms s i = Some w" "i \<noteq> x" by (auto split: if_splits)
      have "vm_bufs w \<inter> vm_bufs v = {}" using wf iw v(1) unfolding vms_wf_def by blast
      with vms_wfD [OF wf iw(1)] iw(2)
      show "0 < vm_refcount w" "i \<in> km_live ?s" "vm_wf w ?s" by (auto simp: vm_wf_def)
    next
      fix i j a b assume "vs_vms ?s i = Some a" "vs_vms ?s j = Some b" "i \<noteq> j"
      then show "vm_bufs a \<inter> vm_bufs b = {}" using wf unfolding vms_wf_def by (auto split: if_splits)
    qed
    moreover have "vrefs ?s = (vrefs s)(x := vrefs s x - 1)"
      using True v by (auto simp: vrefs_def fun_eq_iff)
    ultimately show ?thesis by blast
  qed
qed

interpretation vmref: kref_store vrefs lima_vm_get lima_vm_put vms_wf
proof (unfold_locales, goal_cases)
  case (1 s x)
  then show ?case by (rule vm_get_live)
next
  case (2 s x)
  then show ?case by (rule vm_put_live)
next
  case (3 s x)
  then show ?case using vrefs_0 by (fastforce simp: lima_vm_get_def)
next
  case (4 s x)
  then show ?case using vrefs_0 by (fastforce simp: lima_vm_put_def)
qed

text \<open>Creation: the empty tables, and the one reserved page of the DLBU.\<close>

definition fresh_vm :: "u32 \<Rightarrow> lima_vm" where
  "fresh_vm pd = \<lparr>vm_refcount = 1, vm_mm = \<lparr>mm_start = 0, mm_size = 0, mm_nodes = []\<rparr>,
     vm_pd_dma = pd, vm_pd = (\<lambda>_. 0), vm_bts = (\<lambda>_. None)\<rparr>"

lemma fresh_vm_fields [simp]:
  "vm_pd_dma (fresh_vm pd) = pd" "vm_pd (fresh_vm pd) = (\<lambda>_. 0)" "vm_bts (fresh_vm pd) = (\<lambda>_. None)"
  "vm_refcount (fresh_vm pd) = 1"
  by (simp_all add: fresh_vm_def)

lemma fresh_vm_simps [simp]:
  "vm_block (fresh_vm pd) = (\<lambda>_. None)" "pte (fresh_vm pd) = (\<lambda>_. 0)"
  by (simp_all add: vm_block_def pte_def fun_eq_iff)

lemma fresh_vm_tables [simp]:
  "vm_tables_ok (fresh_vm pd)" "vm_bufs (fresh_vm pd) = {(pd, LIMA_PAGE_SIZE)}"
  by (simp_all add: vm_tables_ok_def vm_bufs_def ran_def)

lemma dlbu_range:
  "ucast LIMA_VA_RESERVE_DLBU = (0xFFF00000 :: u32)"
  "ucast (LIMA_VA_RESERVE_DLBU + of_nat LIMA_PAGE_SIZE - 1) = (0xFFF00FFF :: u32)"
  by (simp_all add: regs)

lemma map_one_page:
  assumes run: "lima_vm_map_page_table v f 0xFFF00000 0xFFF00FFF s = Some (r, v', s')" and r: "r \<noteq> 0"
    and wf: "vm_wf v s"
  shows "v' = v \<and> dm_live s' = dm_live s"
proof -
  obtain o1 s1 where e: "lima_vm_ensure_bt v (LIMA_PBE (0xFFF00000 :: u64)) s = (o1, s1)" by fastforce
  show ?thesis
  proof (cases o1)
    case None
    have "lima_vm_map_page_table v f 0xFFF00000 0xFFF00FFF s = Some (- ENOMEM, v, s1)"
      unfolding lima_vm_map_page_table_def
      by (subst lima_vm_map_loop.simps) (simp add: Let_def e None)
    moreover have "vm_dma_step v v s s1" by (rule vm_ensure_bt_None [OF wf]) (use e None in simp)
    moreover have "vm_bufs v \<subseteq> dm_live s" using wf by (simp add: vm_wf_def)
    ultimately show ?thesis using run by (auto simp: vm_dma_step_def vm_wf_def)
  next
    case (Some v1)
    then have "lima_vm_map_page_table v f 0xFFF00000 0xFFF00FFF s = Some (r, v', s') \<Longrightarrow> r = 0"
      unfolding lima_vm_map_page_table_def
      by (subst (asm) lima_vm_map_loop.simps, subst (asm) lima_vm_map_loop.simps)
        (auto simp: Let_def e Option.bind_eq_Some_conv)
    with run r show ?thesis by simp
  qed
qed

text \<open>The reserved page of an address space on a device with a DLBU.\<close>

definition dlbu_entry :: "u32 option \<Rightarrow> nat \<Rightarrow> u32" where
  "dlbu_entry dlbu p = (case dlbu of None \<Rightarrow> 0
     | Some d \<Rightarrow> if p = 0xFFF00 then d OR LIMA_VM_FLAGS_CACHE else 0)"

definition map_dlbu :: "u32 option \<Rightarrow> lima_vm \<Rightarrow> 'a dma_st_scheme \<Rightarrow> (int \<times> lima_vm \<times> 'a dma_st_scheme) option" where
  "map_dlbu dlbu v s = (case dlbu of None \<Rightarrow> Some (0, v, s)
     | Some d \<Rightarrow> lima_vm_map_page_table v (\<lambda>_. d) 0xFFF00000 0xFFF00FFF s)"

lemma map_dlbu_cases:
  assumes wf: "vm_wf (fresh_vm pd) s" and dc: "dma_contract s"
  obtains v' s' where "map_dlbu dlbu (fresh_vm pd) s = Some (0, v', s')"
      and "vm_dma_step (fresh_vm pd) v' s s'" and "pte v' = dlbu_entry dlbu"
  | r v' s' where "map_dlbu dlbu (fresh_vm pd) s = Some (r, v', s')" and "r \<noteq> 0"
      and "dma_only s s'" and "dm_live s' = dm_live s"
proof (cases dlbu)
  case None
  then show ?thesis
    using that(1) vm_dma_step_refl [OF wf] by (auto simp: map_dlbu_def dlbu_entry_def fun_eq_iff)
next
  case (Some d)
  have al: "4096 dvd unat (0xFFF00000 :: u32)" by simp
  obtain r v' s' where run: "lima_vm_map_page_table (fresh_vm pd) (\<lambda>_. d) 0xFFF00000 0xFFF00FFF s = Some (r, v', s')"
    and st: "vm_dma_step (fresh_vm pd) v' s s'"
    and res: "map_result (\<lambda>_. d) (unat (0xFFF00000 :: u32) div 4096) (unat (0xFFF00000 :: u32) div 4096)
      (unat (0xFFF00FFF :: u32) div 4096) (fresh_vm pd) r v'"
    by (rule map_page_table_spec [OF al wf dc])
  show ?thesis
  proof (cases "r = 0")
    case True
    with res have "pte v' = dlbu_entry dlbu"
      by (auto simp: map_result_def vm_over_def dlbu_entry_def Some fun_eq_iff)
    with True st run Some that(1) show ?thesis by (simp add: map_dlbu_def)
  next
    case False
    with map_one_page [OF run False wf] st run Some that(2) show ?thesis
      by (simp add: map_dlbu_def vm_dma_step_def)
  qed
qed

lemma vm_create_eq:
  "lima_vm_create dlbu a b s = (case kzalloc s of
     (None, s) \<Rightarrow> Some (None, s)
   | (Some vm, s) \<Rightarrow> (case dma_alloc_wc LIMA_PAGE_SIZE s of
       (None, s) \<Rightarrow> do { s \<leftarrow> kfree (Some vm) s; Some (None, s) }
     | (Some pd, s) \<Rightarrow> do {
         (err, v, s) \<leftarrow> map_dlbu dlbu (fresh_vm pd) s;
         if err \<noteq> 0 then do {
           s \<leftarrow> dma_free_wc LIMA_PAGE_SIZE pd s;
           s \<leftarrow> kfree (Some vm) s;
           Some (None, s)
         } else
           Some (Some vm, vm_upd vm (v\<lparr>vm_mm := \<lparr>mm_start = a, mm_size = b - a, mm_nodes = []\<rparr>\<rparr>) s)
       }))"
  unfolding lima_vm_create_def map_dlbu_def fresh_vm_def [symmetric] dlbu_range Let_def ..

text \<open>
  \<open>lima_vm_create\<close> always returns. A failure, at any of its three allocations, leaves no
  DMA buffer and no heap block behind. A success gives an address space with one reference,
  well-formed tables that hold exactly the reserved DLBU page, an empty range, and buffers of
  its own; dropping that reference with \<open>lima_vm_put\<close> frees all of them: the DMA ledger and the
  heap are again what they were before the creation.
\<close>

lemma vm_create_ledger:
  assumes km: "kmem_wf s" and dc: "dma_contract s"
  shows "\<exists>r s1. lima_vm_create dlbu a b s = Some (r, s1) \<and>
    (case r of
      None \<Rightarrow> dm_live s1 = dm_live s \<and> km_live s1 = km_live s \<and> vs_vms s1 = vs_vms s
    | Some vm \<Rightarrow> (\<exists>v. vs_vms s1 vm = Some v \<and> vm_refcount v = 1 \<and> vm_wf v s1 \<and>
        pte v = dlbu_entry dlbu \<and> mm_nodes (vm_mm v) = []) \<and>
        (\<exists>s2. lima_vm_put vm s1 = Some s2 \<and> dm_live s2 = dm_live s \<and> km_live s2 = km_live s))"
proof -
  let ?k = "km_n s"
  have fresh: "?k \<notin> km_live s" by (rule kzalloc_fresh [OF km])
  show ?thesis
  proof (cases "km_ok s ?k")
    case False
    then show ?thesis by (simp add: vm_create_eq kzalloc_def)
  next
    case True
    let ?s = "s\<lparr>km_live := insert ?k (km_live s), km_n := Suc ?k\<rparr>"
    have kz: "kzalloc s = (Some ?k, ?s)" using True by (simp add: kzalloc_def)
    obtain o1 t where al: "dma_alloc_wc LIMA_PAGE_SIZE ?s = (o1, t)" by fastforce
    then show ?thesis
    proof (cases rule: dma_alloc_wc_cases)
      case 1
      note hp = dma_only_heap [OF 1(3)]
      show ?thesis using 1 hp fresh by (simp add: vm_create_eq kz al kfree_def)
    next
      case (2 pd)
      note hp = dma_only_heap [OF 2(3)]
      have dct: "dma_contract t" using dc hp(6) by (simp add: dma_contract_def)
      have new: "(pd, LIMA_PAGE_SIZE) \<notin> dm_live s"
        using 2(4) dc not_buf_disjoint_refl [of LIMA_PAGE_SIZE pd] by (auto simp: dma_contract_def regs)
      have wft: "vm_wf (fresh_vm pd) t" using 2(2) by (simp add: vm_wf_def)
      show ?thesis
      proof (cases rule: map_dlbu_cases [OF wft dct, of dlbu, case_names ok fail])
        case (fail r v' u)
        note hu = dma_only_heap [OF fail(3)]
        have "dma_free_wc LIMA_PAGE_SIZE pd u = Some (u\<lparr>dm_live := dm_live s\<rparr>)"
          using fail(4) 2(2) new by (simp add: dma_free_wc_def)
        then show ?thesis
          using fail(1,2) hp hu fresh by (simp add: vm_create_eq kz al 2(1) kfree_def)
      next
        case (ok v u)
        note hu = dma_only_heap [OF ok(2) [unfolded vm_dma_step_def, THEN conjunct2, THEN conjunct1]]
        let ?v = "v\<lparr>vm_mm := \<lparr>mm_start = a, mm_size = b - a, mm_nodes = []\<rparr>\<rparr>"
        have run: "lima_vm_create dlbu a b s = Some (Some ?k, vm_upd ?k ?v u)"
          using ok(1) by (simp add: vm_create_eq kz al 2(1))
        have v: "vm_wf v u" "dm_live u - vm_bufs v = dm_live s" "vm_refcount v = 1"
          using ok(2) 2(2) new by (auto simp: vm_dma_step_def)
        have wf': "vm_wf ?v (vm_upd ?k ?v u)" using v(1) by (simp add: vm_wf_def)
        have k: "?k \<in> km_live (vm_upd ?k ?v u)" using hu hp by simp
        have "lima_vm_put ?k (vm_upd ?k ?v u) = Some ((vm_upd ?k ?v u)\<lparr>dm_live := dm_live u - vm_bufs v,
            vs_vms := (vs_vms (vm_upd ?k ?v u))(?k := None), km_live := km_live u - {?k}\<rparr>)"
          using vm_release_ledger [OF _ wf' k] v(3) by (simp add: lima_vm_put_def)
        then show ?thesis
          using run v ok(3) hu hp fresh wf' by simp
      qed
    qed
  qed
qed

section \<open>A concrete heap\<close>

text \<open>
  One empty address space, number 5, one unmapped object of one page, number 9, an allocator
  that hands out the start of an empty range, and \<open>k\<close> blocks of DMA memory.
\<close>

definition space_demo :: "nat \<Rightarrow> vm_st" where
  "space_demo k = \<lparr>km_ok = (\<lambda>_. True), km_n = 20, km_live = {5, 9}, km_time = 0, fs_fences = (\<lambda>_. None),
     dm_alloc = dm_alloc (dma_demo k), dm_n = 0, dm_live = {(0x1000, 4096)},
     vs_vms = (\<lambda>_. None)(5 := Some vm_demo),
     vs_bos = (\<lambda>_. None)(9 := Some \<lparr>bo_refs = 1, bo_size = 4096, bo_filp = True, bo_pages = Some (10, [Some 3]),
       bo_pages_dma_addr = Some (11, [0x40000000]), bo_sgt = None, bo_vaddr = None, bo_va = [],
       bo_resv = lima_resv_init, bo_map_key = 0\<rparr>),
     vs_mm_insert = (\<lambda>mm sz. if mm_nodes mm = [] \<and> sz \<le> mm_size mm then Some (mm_start mm) else None)\<rparr>"

lemma demo_contracts: "dma_contract (space_demo 2)" "mm_contract (space_demo k)"
proof -
  show "dma_contract (space_demo 2)"
    using dma_demo_contract [of 2] by (simp add: dma_contract_def space_demo_def)
  show "mm_contract (space_demo k)"
    by (auto simp: mm_contract_def space_demo_def split: if_splits)
qed

lemma demo_space: "space_inv (space_demo k)"
proof (rule space_invI)
  show "kmem_wf (space_demo k)" by (simp add: kmem_wf_def space_demo_def)
  show "vm_space v (space_demo k)" if "vs_vms (space_demo k) i = Some v" for i v
  proof -
    have v: "v = vm_demo" using that by (auto simp: space_demo_def split: if_splits)
    have "vm_wf vm_demo (space_demo k)"
      using vm_demo_wf [of k] by (simp add: vm_wf_def space_demo_def dma_demo_def)
    then show ?thesis
      by (simp add: v vm_space_def mm_ok_def) (simp add: vm_demo_def pte_def)
  qed
qed (auto simp: space_demo_def split: if_splits)

theorem bo_add_keeps_space_witness:
  "\<exists>r s'. lima_vm_bo_add 5 9 True (space_demo 2) = Some (r, s') \<and> space_inv s'"
proof -
  have "\<exists>b. vs_bos (space_demo 2) 9 = Some b \<and> lima_vm_bo_find 5 b = None"
    by (simp add: space_demo_def lima_vm_bo_find_def)
  then obtain b where b: "vs_bos (space_demo 2) 9 = Some b" "lima_vm_bo_find 5 b = None" by blast
  have v: "vs_vms (space_demo 2) 5 = Some vm_demo" by (simp add: space_demo_def)
  from bo_add_keeps_space [OF demo_space demo_contracts b(1) v, of True] b(2) show ?thesis by auto
qed

text \<open>In this heap the object gets mapped at address 0.\<close>

lemma demo_map_run:
  "\<exists>v' s'. lima_vm_map_page_table (mm_add 0 4096 vm_demo) ((!) [0x40000000]) 0 0xFFF
      ((space_demo 2)\<lparr>km_live := insert 20 {5, 9}, km_n := 21\<rparr>) = Some (0, v', s')"
  unfolding lima_vm_map_page_table_def
  by (subst lima_vm_map_loop.simps, subst lima_vm_map_loop.simps)
    (simp add: Let_def lima_vm_ensure_bt_def vm_demo_def mm_add_def dma_alloc_wc_def space_demo_def
      dma_demo_def vm_set_entry_def pbe_unat bte_unat regs buf_disjoint_def push_bit_eq_mult)

lemma demo_add:
  obtains s1 b where "lima_vm_bo_add 5 9 True (space_demo 2) = Some (0, s1)"
    and "vs_bos (space_demo 2) 9 = Some b" and "lima_vm_bo_find 5 b = None"
    and "vs_vms (space_demo 2) 5 = Some vm_demo"
proof -
  from demo_map_run obtain v' s' where "lima_vm_map_page_table (mm_add 0 4096 vm_demo) ((!) [0x40000000]) 0 0xFFF
      ((space_demo 2)\<lparr>km_live := insert 20 {5, 9}, km_n := 21\<rparr>) = Some (0, v', s')" by blast
  then have "\<exists>s1. lima_vm_bo_add 5 9 True (space_demo 2) = Some (0, s1)"
    by (simp add: lima_vm_bo_add_def lima_vm_bo_map_def kzalloc_def space_demo_def lima_vm_bo_find_def
        Let_def vm_demo_def)
  then obtain s1 where run: "lima_vm_bo_add 5 9 True (space_demo 2) = Some (0, s1)" by blast
  have "vs_bos (space_demo 2) 9 = Some (the (vs_bos (space_demo 2) 9))"
    "lima_vm_bo_find 5 (the (vs_bos (space_demo 2) 9)) = None" "vs_vms (space_demo 2) 5 = Some vm_demo"
    by (simp_all add: space_demo_def lima_vm_bo_find_def)
  then show ?thesis by (rule that [OF run])
qed


lemma demo_added:
  obtains s1 :: vm_st and b v e where "space_inv s1" and "vs_bos s1 9 = Some b" and "vs_vms s1 5 = Some v"
    and "lima_vm_bo_find 5 b = Some e" and "unat (bv_start e) + unat (bv_size e) < 2 ^ 32"
proof -
  let ?v = "vm_demo\<lparr>vm_bts := (\<lambda>_. None)(0 := Some (0x8000, (\<lambda>_. 0)(0 := 0x400001DF))),
      vm_pd := fill_pd 0 8 0x8000 (\<lambda>_. 0), vm_mm := \<lparr>mm_start = 0, mm_size = 0xFFF00000, mm_nodes = [(0, 4096)]\<rparr>\<rparr>"
  obtain s1 b where d: "lima_vm_bo_add 5 9 True (space_demo 2) = Some (0, s1)"
    "vs_bos (space_demo 2) 9 = Some b" "lima_vm_bo_find 5 b = None"
    "vs_vms (space_demo 2) 5 = Some vm_demo" by (rule demo_add)
  let ?s = "(space_demo 2)\<lparr>km_live := insert 20 {5, 9}, km_n := 21\<rparr>"
  have "km_n (space_demo 2) = 20" "km_live (space_demo 2) = {5, 9}" "km_ok (space_demo 2) 20"
    by (simp_all add: space_demo_def)
  then have run: "lima_vm_bo_map 5 9 20 ?s = Some (0, s1)" and inv: "space_inv ?s"
    using d space_inv_alloc(1) [OF demo_space, of 2] by (simp_all add: lima_vm_bo_add_def kzalloc_def)
  have s: "dma_contract ?s" "mm_contract ?s" "vs_bos ?s 9 = Some b" "vs_vms ?s 5 = Some vm_demo"
    "20 \<in> km_live ?s"
    using d demo_contracts by (simp_all add: dma_contract_def mm_contract_def)
  show ?thesis
  proof (cases rule: bo_map_cases [OF inv s(1-4) d(3) s(5), case_names fresh fail ok])
    case (fresh j c e)
    then show ?case by (auto simp: space_demo_def split: if_splits)
  next
    case (fail s1 r)
    with run show ?thesis by auto
  next
    case (ok a dma j t v1 e)
    have s1: "s1 = bo_upd 9 (b\<lparr>bo_va := bo_va b @ [e]\<rparr>) (vm_upd 5 v1 t)" using ok(1) run by simp
    have "mm_ok (vm_mm v1)" using space_invD(2) [OF ok(2), of 5 v1] by (simp add: vm_space_def)
    from mm_ok_node [OF this, of a "unat (bo_size b)"]
    have "unat (bv_start e) + unat (bv_size e) < 2 ^ 32"
      by (simp add: ok(7,8,10)) (simp add: vm_demo_def)
    then show ?thesis
      using that [OF ok(2)] find_va_snoc [OF d(3) ok(4)] by simp
  qed
qed


end
