(* ===== verification/Lima_Object.thy ===== *)
theory Lima_Object
  imports Lima_Vm "HOL-Library.Multiset"
begin

text \<open>
  Buffer objects, \<open>lima_object.c\<close>: the pages of an object, its creation with or without an
  imported scatter list, its destruction, its kernel mapping; and the references of the
  \<open>drm_gem_object\<close> inside it, whose last one destroys it (\<open>lima_gem_free_object\<close>).
\<close>

section \<open>The kernel's side\<close>

text \<open>
  What the kernel hands out, by the number of the request: a page of the shmem file
  (\<open>read_mapping_page\<close>), a bus address (\<open>dma_map_page\<close>), the result of
  \<open>drm_gem_object_init\<close>, a kernel mapping (\<open>vmap\<close>). The ledger: the page references, bus
  mappings, shmem files and kernel mappings that are held. Giving back what is not held is
  undefined.
\<close>

record obj_st = vm_st +
  ob_page :: "nat \<Rightarrow> nat option"
  ob_map :: "nat \<Rightarrow> u32 option"
  ob_gem :: "nat \<Rightarrow> int"
  ob_vmap :: "nat \<Rightarrow> nat option"
  ob_n :: nat
  ob_held :: "nat multiset"
  ob_mapped :: "u32 multiset"
  ob_filps :: nat
  ob_vmaps :: "nat multiset"

definition read_mapping_page :: "'a obj_st_scheme \<Rightarrow> nat option \<times> 'a obj_st_scheme" where
  "read_mapping_page s = (case ob_page s (ob_n s) of
     None \<Rightarrow> (None, s\<lparr>ob_n := Suc (ob_n s)\<rparr>)
   | Some p \<Rightarrow> (Some p, s\<lparr>ob_n := Suc (ob_n s), ob_held := add_mset p (ob_held s)\<rparr>))"

definition put_page :: "nat option \<Rightarrow> 'a obj_st_scheme \<Rightarrow> 'a obj_st_scheme option" where
  "put_page p s = (case p of None \<Rightarrow> None
   | Some p \<Rightarrow> if p \<in># ob_held s then Some (s\<lparr>ob_held := ob_held s - {#p#}\<rparr>) else None)"

definition dma_map_page :: "'a obj_st_scheme \<Rightarrow> u32 option \<times> 'a obj_st_scheme" where
  "dma_map_page s = (case ob_map s (ob_n s) of
     None \<Rightarrow> (None, s\<lparr>ob_n := Suc (ob_n s)\<rparr>)
   | Some a \<Rightarrow> (Some a, s\<lparr>ob_n := Suc (ob_n s), ob_mapped := add_mset a (ob_mapped s)\<rparr>))"

definition dma_unmap_page :: "u32 \<Rightarrow> 'a obj_st_scheme \<Rightarrow> 'a obj_st_scheme option" where
  "dma_unmap_page a s =
     (if a \<in># ob_mapped s then Some (s\<lparr>ob_mapped := ob_mapped s - {#a#}\<rparr>) else None)"

definition drm_gem_object_init :: "'a obj_st_scheme \<Rightarrow> int \<times> 'a obj_st_scheme" where
  "drm_gem_object_init s = (if ob_gem s (ob_n s) = 0
     then (0, s\<lparr>ob_n := Suc (ob_n s), ob_filps := Suc (ob_filps s)\<rparr>)
     else (ob_gem s (ob_n s), s\<lparr>ob_n := Suc (ob_n s)\<rparr>))"

definition drm_gem_object_release :: "lima_bo \<Rightarrow> 'a obj_st_scheme \<Rightarrow> 'a obj_st_scheme option" where
  "drm_gem_object_release b s =
     (if bo_filp b then (if 0 < ob_filps s then Some (s\<lparr>ob_filps := ob_filps s - 1\<rparr>) else None) else Some s)"

section \<open>Pages\<close>

text \<open>
  The loop of \<open>lima_bo_get_pages\<close>, from index \<open>i\<close> over \<open>n\<close> pages: the index that \<open>i\<close> has at
  the label \<open>err\<close> (\<open>None\<close>: not reached), and the two arrays.
\<close>

fun get_pages_loop ::
    "nat \<Rightarrow> nat \<Rightarrow> nat option list \<Rightarrow> u32 list \<Rightarrow> 'a obj_st_scheme
      \<Rightarrow> nat option \<times> nat option list \<times> u32 list \<times> 'a obj_st_scheme" where
  "get_pages_loop i 0 pages dmas s = (None, pages, dmas, s)"
| "get_pages_loop i (Suc n) pages dmas s = (case read_mapping_page s of
     (None, s) \<Rightarrow> (Some i, pages[i := None], dmas, s)
   | (Some p, s) \<Rightarrow> (case dma_map_page s of
       (None, s) \<Rightarrow> (Some (Suc i), pages[i := Some p], dmas[i := 0], s)
     | (Some a, s) \<Rightarrow> get_pages_loop (Suc i) n (pages[i := Some p]) (dmas[i := a]) s))"

text \<open>The loop at the label \<open>err\<close>, \<open>while (--i >= 0)\<close>.\<close>

fun put_pages_loop :: "nat \<Rightarrow> nat option list \<Rightarrow> u32 list \<Rightarrow> 'a obj_st_scheme \<Rightarrow> 'a obj_st_scheme option" where
  "put_pages_loop 0 pages dmas s = Some s"
| "put_pages_loop (Suc i) pages dmas s = do {
     s \<leftarrow> (if dmas ! i \<noteq> 0 then dma_unmap_page (dmas ! i) s else Some s);
     s \<leftarrow> put_page (pages ! i) s;
     put_pages_loop i pages dmas s
   }"

definition bo_npages :: "lima_bo \<Rightarrow> nat" where
  "bo_npages b = unat (drop_bit 12 (bo_size b))"

definition lima_bo_get_pages :: "lima_bo \<Rightarrow> 'a obj_st_scheme \<Rightarrow> (int \<times> lima_bo \<times> 'a obj_st_scheme) option" where
  "lima_bo_get_pages b s = (case kzalloc s of
     (None, s) \<Rightarrow> Some (- ENOMEM, b\<lparr>bo_pages := None\<rparr>, s)
   | (Some kp, s) \<Rightarrow> (case kzalloc s of
       (None, s) \<Rightarrow> do { s \<leftarrow> kfree (Some kp) s; Some (- ENOMEM, b\<lparr>bo_pages := None, bo_pages_dma_addr := None\<rparr>, s) }
     | (Some kd, s) \<Rightarrow>
         (case get_pages_loop 0 (bo_npages b) (replicate (bo_npages b) None) (replicate (bo_npages b) 0) s of
           (None, pages, dmas, s) \<Rightarrow>
             Some (0, b\<lparr>bo_pages := Some (kp, pages), bo_pages_dma_addr := Some (kd, dmas)\<rparr>, s)
         | (Some i, pages, dmas, s) \<Rightarrow> do {
             s \<leftarrow> put_pages_loop i pages dmas s;
             s \<leftarrow> kfree (Some kd) s;
             s \<leftarrow> kfree (Some kp) s;
             Some (- ENOMEM, b\<lparr>bo_pages := None, bo_pages_dma_addr := None\<rparr>, s)
           })))"

section \<open>Creation and destruction\<close>

definition PAGE_ALIGN :: "u32 \<Rightarrow> u32" where
  "PAGE_ALIGN x = (x + 4095) AND NOT 4095"

text \<open>
  The scatter list of an import: page, length and bus address of each entry. The two nested
  loops of \<open>lima_bo_create\<close> walk its pages and stop storing at the size of the object.
\<close>

type_synonym sg_table = "(nat \<times> u32 \<times> u32) list"

definition sg_walk :: "sg_table \<Rightarrow> (nat \<times> u32) list" where
  "sg_walk sg = concat (map (\<lambda>(p, len, dma).
     map (\<lambda>j. (p + j, dma + of_nat (j * 4096))) [0..<unat (drop_bit 12 len)]) sg)"

definition sg_fill :: "nat \<Rightarrow> sg_table \<Rightarrow> nat option list \<times> u32 list" where
  "sg_fill n sg = (let w = take n (sg_walk sg); pad = n - length w in
     (map (\<lambda>(p, a). Some p) w @ replicate pad None, map snd w @ replicate pad 0))"

definition fresh_bo :: "u32 \<Rightarrow> lima_bo" where
  "fresh_bo sz = \<lparr>bo_refs = 1, bo_size = sz, bo_filp = False, bo_pages = None, bo_pages_dma_addr = None,
     bo_sgt = None, bo_vaddr = None, bo_va = [], bo_resv = lima_resv_init, bo_map_key = 0\<rparr>"

text \<open>The label \<open>err_free\<close>; \<open>p\<close> and \<open>q\<close> are the blocks of the two arrays.\<close>

definition bo_err_free ::
    "nat \<Rightarrow> lima_bo \<Rightarrow> nat option \<Rightarrow> nat option \<Rightarrow> int \<Rightarrow> 'a obj_st_scheme \<Rightarrow> ((int + nat) \<times> 'a obj_st_scheme) option" where
  "bo_err_free bo b p q err s = do {
     s \<leftarrow> lima_resv_fini (bo_resv b) s;
     s \<leftarrow> kfree p s;
     s \<leftarrow> kfree q s;
     s \<leftarrow> kfree (Some bo) s;
     Some (Inl (if err \<noteq> 0 then err else - ENOMEM), s)
   }"

text \<open>
  \<open>lima_bo_create\<close>. On the import path \<open>err\<close> is read without having been assigned; \<open>junk\<close> is
  the value it then has.
\<close>

definition lima_bo_create ::
    "int \<Rightarrow> u32 \<Rightarrow> (nat \<times> sg_table) option \<Rightarrow> 'a obj_st_scheme \<Rightarrow> ((int + nat) \<times> 'a obj_st_scheme) option" where
  "lima_bo_create junk sz sgt s =
     (let sz = PAGE_ALIGN sz in
      if sz = 0 then Some (Inl (- EINVAL), s)
      else (case kzalloc s of
        (None, s) \<Rightarrow> Some (Inl (- ENOMEM), s)
      | (Some bo, s) \<Rightarrow> (let b = fresh_bo sz in
          case sgt of
            Some (t, sg) \<Rightarrow>
              (let (p, s) = kzalloc s; (q, s) = kzalloc s; (pages, dmas) = sg_fill (bo_npages b) sg in
               case (p, q) of
                 (Some kp, Some kd) \<Rightarrow> Some (Inr bo, bo_upd bo (b\<lparr>bo_sgt := Some t,
                   bo_pages := Some (kp, pages), bo_pages_dma_addr := Some (kd, dmas)\<rparr>) s)
               | _ \<Rightarrow> bo_err_free bo b p q junk s)
          | None \<Rightarrow>
              (let (err, s) = drm_gem_object_init s in
               if err \<noteq> 0 then bo_err_free bo b None None err s
               else do {
                 (err, b, s) \<leftarrow> lima_bo_get_pages (b\<lparr>bo_filp := True\<rparr>) s;
                 if err \<noteq> 0 then do {
                   s \<leftarrow> drm_gem_object_release b s;
                   bo_err_free bo b (map_option fst (bo_pages b)) (map_option fst (bo_pages_dma_addr b)) err s
                 } else Some (Inr bo, bo_upd bo b s)
               }))))"

definition lima_bo_vmap :: "nat \<Rightarrow> 'a obj_st_scheme \<Rightarrow> (nat option \<times> 'a obj_st_scheme) option" where
  "lima_bo_vmap bo s = do {
     b \<leftarrow> vs_bos s bo;
     if bo_vaddr b = None \<and> bo_pages b \<noteq> None then
       (let v = ob_vmap s (ob_n s); s = s\<lparr>ob_n := Suc (ob_n s)\<rparr> in
        Some (v, bo_upd bo (b\<lparr>bo_vaddr := v\<rparr>)
          (case v of None \<Rightarrow> s | Some a \<Rightarrow> s\<lparr>ob_vmaps := add_mset a (ob_vmaps s)\<rparr>)))
     else Some (bo_vaddr b, s)
   }"

definition lima_bo_vunmap :: "lima_bo \<Rightarrow> 'a obj_st_scheme \<Rightarrow> (lima_bo \<times> 'a obj_st_scheme) option" where
  "lima_bo_vunmap b s = (case bo_vaddr b of
     None \<Rightarrow> Some (b, s)
   | Some a \<Rightarrow> if a \<in># ob_vmaps s
       then Some (b\<lparr>bo_vaddr := None\<rparr>, s\<lparr>ob_vmaps := ob_vmaps s - {#a#}\<rparr>) else None)"

definition bo_put_page :: "nat option list \<Rightarrow> u32 list \<Rightarrow> nat \<Rightarrow> 'a obj_st_scheme \<Rightarrow> 'a obj_st_scheme option" where
  "bo_put_page pages dmas i s = do { s \<leftarrow> dma_unmap_page (dmas ! i) s; put_page (pages ! i) s }"

definition lima_bo_destroy :: "nat \<Rightarrow> 'a obj_st_scheme \<Rightarrow> 'a obj_st_scheme option" where
  "lima_bo_destroy bo s = do {
     b \<leftarrow> vs_bos s bo;
     s \<leftarrow> lima_resv_fini (bo_resv b) s;
     (b, s) \<leftarrow> (if bo_vaddr b \<noteq> None then lima_bo_vunmap b s else Some (b, s));
     s \<leftarrow> (if bo_sgt b \<noteq> None then do {
            s \<leftarrow> kfree (map_option fst (bo_pages b)) s;
            kfree (map_option fst (bo_pages_dma_addr b)) s
          } else (case bo_pages b of
            None \<Rightarrow> Some s
          | Some (kp, pages) \<Rightarrow> do {
              (kd, dmas) \<leftarrow> bo_pages_dma_addr b;
              s \<leftarrow> each (bo_put_page pages dmas) [0..<bo_npages b] s;
              s \<leftarrow> kfree (Some kp) s;
              kfree (Some kd) s
            }));
     s \<leftarrow> drm_gem_object_release b s;
     kfree (Some bo) (s\<lparr>vs_bos := (vs_bos s)(bo := None)\<rparr>)
   }"

text \<open>\<open>lima_gem_free_object\<close> (its warning aside) and the references.\<close>

definition lima_gem_free_object :: "nat \<Rightarrow> 'a obj_st_scheme \<Rightarrow> 'a obj_st_scheme option" where
  "lima_gem_free_object bo s = lima_bo_destroy bo s"

definition drm_gem_object_get :: "nat \<Rightarrow> 'a obj_st_scheme \<Rightarrow> 'a obj_st_scheme option" where
  "drm_gem_object_get bo s = do {
     b \<leftarrow> vs_bos s bo;
     Some (bo_upd bo (b\<lparr>bo_refs := Suc (bo_refs b)\<rparr>) s)
   }"

definition drm_gem_object_put :: "nat \<Rightarrow> 'a obj_st_scheme \<Rightarrow> 'a obj_st_scheme option" where
  "drm_gem_object_put bo s = do {
     b \<leftarrow> vs_bos s bo;
     if bo_refs b = 1 then lima_gem_free_object bo s
     else Some (bo_upd bo (b\<lparr>bo_refs := bo_refs b - 1\<rparr>) s)
   }"

section \<open>The ledger\<close>

text \<open>
  Two states with the same blocks, objects, fences, pages, mappings and files; between them
  only the numbers of the requests have moved. \<open>map_contract\<close>: the kernel never answers a
  mapping request with bus address 0 (on the target memory starts above it), which the error
  path of \<open>lima_bo_get_pages\<close> takes for "not mapped".
\<close>

definition obj_same :: "'a obj_st_scheme \<Rightarrow> 'a obj_st_scheme \<Rightarrow> bool" where
  "obj_same s s' \<longleftrightarrow> km_live s' = km_live s \<and> fs_fences s' = fs_fences s \<and> vs_bos s' = vs_bos s \<and>
     ob_held s' = ob_held s \<and> ob_mapped s' = ob_mapped s \<and> ob_filps s' = ob_filps s \<and> ob_vmaps s' = ob_vmaps s"

definition map_contract :: "'a obj_st_scheme \<Rightarrow> bool" where
  "map_contract s \<longleftrightarrow> (\<forall>n. ob_map s n \<noteq> Some 0)"

text \<open>The pages and mappings a prefix of the arrays accounts for.\<close>

definition pages_of :: "nat list \<Rightarrow> nat option list \<Rightarrow> nat multiset" where
  "pages_of is pages = mset (map (\<lambda>j. the (pages ! j)) is)"

definition maps_of :: "nat list \<Rightarrow> u32 list \<Rightarrow> u32 multiset" where
  "maps_of is dmas = mset (filter (\<lambda>a. a \<noteq> 0) (map ((!) dmas) is))"

lemma pages_of_snoc [simp]: "pages_of (is @ [i]) pages = add_mset (the (pages ! i)) (pages_of is pages)"
  by (simp add: pages_of_def)

lemma maps_of_snoc [simp]:
  "maps_of (is @ [i]) dmas = (if dmas ! i = 0 then maps_of is dmas else add_mset (dmas ! i) (maps_of is dmas))"
  by (simp add: maps_of_def)

lemma pages_of_cong: "(\<And>j. j \<in> set is \<Longrightarrow> p ! j = q ! j) \<Longrightarrow> pages_of is p = pages_of is q"
  by (simp add: pages_of_def cong: map_cong)

lemma maps_of_cong: "(\<And>j. j \<in> set is \<Longrightarrow> p ! j = q ! j) \<Longrightarrow> maps_of is p = maps_of is q"
  unfolding maps_of_def by (metis (no_types, lifting) map_cong)

lemma put_pages_loop_spec:
  fixes s :: "'a obj_st_scheme"
  assumes "\<forall>j < k. pages ! j \<noteq> None"
    and "ob_held s = H + pages_of [0..<k] pages" and "ob_mapped s = M + maps_of [0..<k] dmas"
  shows "put_pages_loop k pages dmas s = Some (s\<lparr>ob_held := H, ob_mapped := M\<rparr>)"
  using assms
proof (induction k arbitrary: s)
  case 0
  then show ?case by (simp add: pages_of_def maps_of_def)
next
  case (Suc k)
  from Suc.prems(1) obtain p where p: "pages ! k = Some p" by auto
  have IH: "put_pages_loop k pages dmas t = Some (t\<lparr>ob_held := H, ob_mapped := M\<rparr>)"
    if "ob_held t = H + pages_of [0..<k] pages" "ob_mapped t = M + maps_of [0..<k] dmas"
    for t :: "'a obj_st_scheme"
    using Suc.prems(1) that by (intro Suc.IH) simp_all
  show ?case
    using Suc.prems(2,3) p by (cases "dmas ! k = 0") (simp_all add: dma_unmap_page_def put_page_def IH)
qed

lemma bo_put_pages_spec:
  assumes "\<forall>j < k. pages ! j \<noteq> None" and "\<forall>j < k. dmas ! j \<noteq> 0"
    and "ob_held s = H + pages_of [0..<k] pages" and "ob_mapped s = M + maps_of [0..<k] dmas"
  shows "each (bo_put_page pages dmas) [0..<k] s = Some (s\<lparr>ob_held := H, ob_mapped := M\<rparr>)"
  using assms
proof (induction k arbitrary: H M)
  case 0
  then show ?case by (simp add: pages_of_def maps_of_def)
next
  case (Suc k)
  from Suc.prems(1) obtain p where p: "pages ! k = Some p" by auto
  have "each (bo_put_page pages dmas) [0..<k] s =
      Some (s\<lparr>ob_held := add_mset p H, ob_mapped := add_mset (dmas ! k) M\<rparr>)"
    using Suc.prems p by (intro Suc.IH) simp_all
  moreover have "bo_put_page pages dmas k (s\<lparr>ob_held := add_mset p H, ob_mapped := add_mset (dmas ! k) M\<rparr>) =
      Some (s\<lparr>ob_held := H, ob_mapped := M\<rparr>)"
    using p by (simp add: bo_put_page_def dma_unmap_page_def put_page_def)
  moreover have "[0..<Suc k] = [0..<k] @ [k]" by simp
  ultimately show ?case by (simp only: each_snoc Option.bind.simps)
qed

text \<open>
  What the loop of \<open>lima_bo_get_pages\<close> has done when it ends, at index \<open>k\<close>: every page before
  \<open>k\<close> is there and accounted for, and so are the mappings that are not 0, which without a
  failure are all of them.
\<close>

lemma get_pages_loop_spec:
  assumes "get_pages_loop i n pages dmas s = (r, ps, ds, s')"
    and "length pages = i + n" "length dmas = i + n" and "map_contract s"
    and "\<forall>j < i. pages ! j \<noteq> None" "\<forall>j < i. dmas ! j \<noteq> 0"
    and "ob_held s = H + pages_of [0..<i] pages" and "ob_mapped s = M + maps_of [0..<i] dmas"
    and "k = (case r of None \<Rightarrow> i + n | Some k \<Rightarrow> k)"
  shows "length ps = i + n \<and> length ds = i + n \<and> k \<le> i + n \<and> (\<forall>j < k. ps ! j \<noteq> None) \<and>
    (r = None \<longrightarrow> (\<forall>j < k. ds ! j \<noteq> 0)) \<and>
    s' = s\<lparr>ob_n := ob_n s', ob_held := H + pages_of [0..<k] ps, ob_mapped := M + maps_of [0..<k] ds\<rparr>"
  using assms
proof (induction n arbitrary: i pages dmas s)
  case 0
  then show ?case by simp
next
  case (Suc n)
  show ?case
  proof (cases "ob_page s (ob_n s)")
    case None
    have "pages_of [0..<i] (pages[i := None]) = pages_of [0..<i] pages"
      by (rule pages_of_cong) simp
    with Suc.prems None show ?thesis by (auto simp: read_mapping_page_def)
  next
    case (Some p)
    let ?s = "s\<lparr>ob_n := Suc (ob_n s), ob_held := add_mset p (ob_held s)\<rparr>"
    let ?p = "pages[i := Some p]"
    have pp: "pages_of [0..<i] ?p = pages_of [0..<i] pages" by (rule pages_of_cong) simp
    have pd: "maps_of [0..<i] (dmas[i := a]) = maps_of [0..<i] dmas" for a by (rule maps_of_cong) simp
    have held: "add_mset p (ob_held s) = H + pages_of [0..<Suc i] ?p"
      using Suc.prems(2,7) pp by simp
    have len: "i < length pages" "i < length dmas" using Suc.prems(2,3) by simp_all
    then have pn: "\<forall>j < Suc i. ?p ! j \<noteq> None"
      using Suc.prems(5) by (auto simp: less_Suc_eq nth_list_update)
    show ?thesis
    proof (cases "ob_map s (Suc (ob_n s))")
      case None
      have "maps_of [0..<Suc i] (dmas[i := 0]) = maps_of [0..<i] dmas"
        using Suc.prems(3) pd by simp
      with None Some Suc.prems held pn show ?thesis
        by (auto simp: read_mapping_page_def dma_map_page_def less_Suc_eq)
    next
      case (Some a)
      let ?t = "s\<lparr>ob_held := add_mset p (ob_held s), ob_n := Suc (Suc (ob_n s)), ob_mapped := add_mset a (ob_mapped s)\<rparr>"
      have a: "a \<noteq> 0" using Some Suc.prems(4) by (auto simp: map_contract_def)
      have run: "get_pages_loop (Suc i) n ?p (dmas[i := a]) ?t = (r, ps, ds, s')"
        using Suc.prems(1) \<open>ob_page s (ob_n s) = Some p\<close> Some by (simp add: read_mapping_page_def dma_map_page_def)
      have mp: "add_mset a (ob_mapped s) = M + maps_of [0..<Suc i] (dmas[i := a])"
        using Suc.prems(3,8) a pd by simp
      have dn: "\<forall>j < Suc i. dmas[i := a] ! j \<noteq> 0"
        using len Suc.prems(6) a by (auto simp: less_Suc_eq nth_list_update)
      have mc: "map_contract ?t" using Suc.prems(4) by (simp add: map_contract_def)
      have k: "k = (case r of None \<Rightarrow> Suc i + n | Some k \<Rightarrow> k)"
        unfolding Suc.prems(9) by (cases r) simp_all
      have "ob_held ?t = H + pages_of [0..<Suc i] ?p" "ob_mapped ?t = M + maps_of [0..<Suc i] (dmas[i := a])"
        using held mp by simp_all
      from Suc.IH [OF run _ _ mc pn dn this k] Suc.prems(2,3) show ?thesis by simp
    qed
  qed
qed


section \<open>Sizes\<close>

lemma PAGE_ALIGN_unat: "unat (PAGE_ALIGN x) = unat (x + 4095) div 4096 * 4096"
proof -
  have m: "(4095 :: u32) = mask 12" by (simp add: mask_eq_exp_minus_1)
  have "PAGE_ALIGN x = push_bit 12 (drop_bit 12 (x + mask 12))"
    unfolding PAGE_ALIGN_def m
    by (rule bit_word_eqI) (auto simp: bit_and_iff bit_not_iff bit_mask_iff bit_push_bit_iff bit_drop_bit_eq)
  then have "unat (PAGE_ALIGN x) = unat (push_bit 12 (drop_bit 12 (x + 4095)) :: u32)" by (simp add: m)
  also have "\<dots> = unat (x + 4095) div 4096 * 4096"
  proof -
    have "unat (x + 4095) div 4096 * 4096 < 2 ^ 32"
      using unat_lt_32 [of "x + 4095"] by simp
    then show ?thesis
      by (simp add: push_bit_eq_mult unat_word_ariths unat_drop_bit_eq drop_bit_eq_div mult.commute)
  qed
  finally show ?thesis .
qed

lemma npages_size: "bo_size b = PAGE_ALIGN x \<Longrightarrow> unat (bo_size b) = 4096 * bo_npages b"
  by (simp only: bo_npages_def unat_drop_bit_eq drop_bit_eq_div [where 'a = nat] PAGE_ALIGN_unat) simp

text \<open>
  The size of an object is its request rounded up to whole pages, in 32 bits: a request
  of 0, or above \<open>0xFFFFF000\<close>, whose rounding wraps to 0, is refused with \<open>-EINVAL\<close> before
  anything is allocated; every other size is rounded to the least multiple of the page size
  that holds it.
\<close>

lemma bo_size_rounds_up:
  "(sz = 0 \<or> unat sz > 0xFFFFF000 \<longrightarrow> lima_bo_create junk sz sgt s = Some (Inl (- EINVAL), s)) \<and>
   (sz \<noteq> 0 \<and> unat sz \<le> 0xFFFFF000 \<longrightarrow> PAGE_ALIGN sz \<noteq> 0 \<and> 4096 dvd unat (PAGE_ALIGN sz) \<and>
      unat sz \<le> unat (PAGE_ALIGN sz) \<and> unat (PAGE_ALIGN sz) < unat sz + 4096)"
proof (intro conjI impI)
  assume "sz = 0 \<or> unat sz > 0xFFFFF000"
  then have "PAGE_ALIGN sz = 0"
  proof
    assume big: "unat sz > 0xFFFFF000"
    then have "unat (sz + 4095) = unat sz + 4095 - 2 ^ 32"
      using unat_lt_32 [of sz] by (simp add: unat_word_ariths mod_if)
    then have "unat (PAGE_ALIGN sz) = 0"
      using big unat_lt_32 [of sz] by (simp add: PAGE_ALIGN_unat)
    then show "PAGE_ALIGN sz = 0" by (simp add: unat_eq_zero)
  qed (simp add: PAGE_ALIGN_def)
  then show "lima_bo_create junk sz sgt s = Some (Inl (- EINVAL), s)"
    by (simp add: lima_bo_create_def)
next
  assume "sz \<noteq> 0 \<and> unat sz \<le> 0xFFFFF000"
  then have ok: "0 < unat sz" "unat sz \<le> 0xFFFFF000" by (simp_all add: unat_gt_0)
  then have u: "unat (sz + 4095) = unat sz + 4095" by (simp add: unat_word_ariths)
  note a = PAGE_ALIGN_unat [of sz, unfolded u]
  show "4096 dvd unat (PAGE_ALIGN sz)" by (simp add: a)
  show le: "unat sz \<le> unat (PAGE_ALIGN sz)" and "unat (PAGE_ALIGN sz) < unat sz + 4096"
    using ok div_mult_mod_eq [of "unat sz + 4095" 4096] mod_less_divisor [of 4096 "unat sz + 4095"]
    unfolding a by linarith+
  from le ok show "PAGE_ALIGN sz \<noteq> 0" by (auto simp: unat_eq_zero)
qed

section \<open>Creation and destruction\<close>

text \<open>Every object lives in a live block.\<close>

definition obj_wf :: "'a obj_st_scheme \<Rightarrow> bool" where
  "obj_wf s \<longleftrightarrow> kmem_wf s \<and> (\<forall>i b. vs_bos s i = Some b \<longrightarrow> i \<in> km_live s)"

text \<open>Outside the page ledger and the allocator nothing has changed.\<close>

definition obj_keep :: "'a obj_st_scheme \<Rightarrow> 'a obj_st_scheme \<Rightarrow> bool" where
  "obj_keep s s' \<longleftrightarrow> fs_fences s' = fs_fences s \<and> vs_bos s' = vs_bos s \<and> ob_filps s' = ob_filps s \<and>
     ob_vmaps s' = ob_vmaps s \<and> (kmem_wf s \<longrightarrow> kmem_wf s')"

definition bo_arrays :: "lima_bo \<Rightarrow> nat \<Rightarrow> nat \<Rightarrow> nat option list \<Rightarrow> u32 list \<Rightarrow> lima_bo" where
  "bo_arrays b kp kd pages dmas = b\<lparr>bo_pages := Some (kp, pages), bo_pages_dma_addr := Some (kd, dmas)\<rparr>"

lemma get_pages_spec:
  assumes wf: "kmem_wf s" and mc: "map_contract s" and b: "bo_pages b = None" "bo_pages_dma_addr b = None"
  obtains s' where "lima_bo_get_pages b s = Some (- ENOMEM, b, s')" "obj_keep s s'"
      "km_live s' = km_live s" "ob_held s' = ob_held s" "ob_mapped s' = ob_mapped s"
  | kp kd pages dmas s' where "lima_bo_get_pages b s = Some (0, bo_arrays b kp kd pages dmas, s')" "obj_keep s s'"
      "km_live s' = insert kd (insert kp (km_live s))" "kp \<notin> km_live s" "kd \<notin> km_live s" "kp \<noteq> kd"
      "length pages = bo_npages b" "length dmas = bo_npages b"
      "\<forall>j < bo_npages b. pages ! j \<noteq> None" "\<forall>j < bo_npages b. dmas ! j \<noteq> 0"
      "ob_held s' = ob_held s + pages_of [0..<bo_npages b] pages"
      "ob_mapped s' = ob_mapped s + maps_of [0..<bo_npages b] dmas"
proof (cases "km_ok s (km_n s)")
  case False
  have bn: "b\<lparr>bo_pages := None\<rparr> = b" using b by simp
  show ?thesis
    by (rule that(1) [of "s\<lparr>km_n := Suc (km_n s)\<rparr>"])
      (use False wf in \<open>auto simp: lima_bo_get_pages_def kzalloc_def bn obj_keep_def kmem_wf_def less_Suc_eq\<close>)
next
  case True
  let ?kp = "km_n s" and ?kd = "Suc (km_n s)" and ?n = "bo_npages b"
  have bn: "b\<lparr>bo_pages := None, bo_pages_dma_addr := None\<rparr> = b" using b by simp
  have fresh: "?kp \<notin> km_live s" "?kd \<notin> km_live s" using wf by (auto simp: kmem_wf_def)
  show ?thesis
  proof (cases "km_ok s ?kd")
    case False
    show ?thesis
      by (rule that(1) [of "s\<lparr>km_n := Suc ?kd\<rparr>"])
        (use True False wf fresh in \<open>auto simp: lima_bo_get_pages_def kzalloc_def kfree_def bn obj_keep_def
           kmem_wf_def less_Suc_eq\<close>)
  next
    case ok: True
    let ?s = "s\<lparr>km_live := insert ?kd (insert ?kp (km_live s)), km_n := Suc ?kd\<rparr>"
    obtain r ps ds s' where loop:
      "get_pages_loop 0 ?n (replicate ?n None) (replicate ?n 0) ?s = (r, ps, ds, s')"
      by (metis prod_cases4)
    define k where "k = (case r of None \<Rightarrow> 0 + ?n | Some k \<Rightarrow> k)"
    have *: "length ps = 0 + ?n \<and> length ds = 0 + ?n \<and> k \<le> 0 + ?n \<and> (\<forall>j < k. ps ! j \<noteq> None) \<and>
        (r = None \<longrightarrow> (\<forall>j < k. ds ! j \<noteq> 0)) \<and>
        s' = ?s\<lparr>ob_n := ob_n s', ob_held := ob_held s + pages_of [0..<k] ps, ob_mapped := ob_mapped s + maps_of [0..<k] ds\<rparr>"
      by (rule get_pages_loop_spec [OF loop _ _ _ _ _ _ _ k_def])
        (use mc in \<open>simp_all add: map_contract_def pages_of_def maps_of_def\<close>)
    have run: "lima_bo_get_pages b s = (case get_pages_loop 0 ?n (replicate ?n None) (replicate ?n 0) ?s of
           (None, pages, dmas, s) \<Rightarrow>
             Some (0, b\<lparr>bo_pages := Some (?kp, pages), bo_pages_dma_addr := Some (?kd, dmas)\<rparr>, s)
         | (Some i, pages, dmas, s) \<Rightarrow> do {
             s \<leftarrow> put_pages_loop i pages dmas s; s \<leftarrow> kfree (Some ?kd) s; s \<leftarrow> kfree (Some ?kp) s;
             Some (- ENOMEM, b\<lparr>bo_pages := None, bo_pages_dma_addr := None\<rparr>, s) })"
      using True ok by (simp add: lima_bo_get_pages_def kzalloc_def)
    have s': "s' = ?s\<lparr>ob_n := ob_n s', ob_held := ob_held s + pages_of [0..<k] ps, ob_mapped := ob_mapped s + maps_of [0..<k] ds\<rparr>"
      using * by blast
    have proj: "ob_held s' = ob_held s + pages_of [0..<k] ps" "ob_mapped s' = ob_mapped s + maps_of [0..<k] ds"
      "km_live s' = insert ?kd (insert ?kp (km_live s))" "km_n s' = Suc ?kd"
      "fs_fences s' = fs_fences s" "vs_bos s' = vs_bos s" "ob_filps s' = ob_filps s" "ob_vmaps s' = ob_vmaps s"
      by (subst s', simp)+
    show ?thesis
    proof (cases r)
      case None
      then have k: "k = ?n" by (simp add: k_def)
      show ?thesis
        by (rule that(2) [of ?kp ?kd ps ds s'])
          (use None run loop * proj k fresh wf in \<open>auto simp: bo_arrays_def obj_keep_def kmem_wf_def less_Suc_eq\<close>)
    next
      case (Some i)
      then have k: "k = i" by (simp add: k_def)
      have "put_pages_loop i ps ds s' = Some (s'\<lparr>ob_held := ob_held s, ob_mapped := ob_mapped s\<rparr>)"
        using * proj k by (intro put_pages_loop_spec) simp_all
      then have "lima_bo_get_pages b s = Some (- ENOMEM, b,
          s'\<lparr>ob_held := ob_held s, ob_mapped := ob_mapped s, km_live := km_live s\<rparr>)"
        using run loop Some proj(3) fresh by (simp add: kfree_def insert_Diff_if bn)
      then show ?thesis
        by (rule that(1)) (use proj wf in \<open>auto simp: obj_keep_def kmem_wf_def less_Suc_eq\<close>)
    qed
  qed
qed


lemma resv_fini_init [simp]: "lima_resv_fini lima_resv_init s = Some s"
  by (simp add: lima_resv_fini_def lima_resv_init_def dma_fence_put_def kfree_def)

text \<open>Destroying an object with arrays and nothing else: what it owned is given back.\<close>

lemma destroy_arrays:
  assumes b: "vs_bos s bo = Some b" "bo_resv b = lima_resv_init" "bo_vaddr b = None"
    and arr: "bo_pages b = Some (kp, pages)" "bo_pages_dma_addr b = Some (kd, dmas)"
    and live: "km_live s = insert kd (insert kp (insert bo L))" "bo \<notin> L" "kp \<notin> insert bo L" "kd \<notin> insert kp (insert bo L)"
    and own: "if bo_sgt b = None
      then bo_filp b \<and> ob_filps s = Suc fp \<and> (\<forall>j < bo_npages b. pages ! j \<noteq> None) \<and> (\<forall>j < bo_npages b. dmas ! j \<noteq> 0) \<and>
        ob_held s = H + pages_of [0..<bo_npages b] pages \<and> ob_mapped s = M + maps_of [0..<bo_npages b] dmas
      else \<not> bo_filp b \<and> ob_filps s = fp \<and> ob_held s = H \<and> ob_mapped s = M"
  shows "\<exists>s'. lima_bo_destroy bo s = Some s' \<and> km_live s' = L \<and> ob_held s' = H \<and> ob_mapped s' = M \<and>
    ob_filps s' = fp \<and> ob_vmaps s' = ob_vmaps s \<and> fs_fences s' = fs_fences s \<and> vs_bos s' = (vs_bos s)(bo := None)"
proof (cases "bo_sgt b")
  case (Some t)
  then show ?thesis
    using b arr live own
    by (simp add: lima_bo_destroy_def kfree_def drm_gem_object_release_def insert_Diff_if)
next
  case None
  have rel: "each (bo_put_page pages dmas) [0..<bo_npages b] s = Some (s\<lparr>ob_held := H, ob_mapped := M\<rparr>)"
    using own None by (intro bo_put_pages_spec) simp_all
  show ?thesis
    using None b arr live own rel
    by (simp add: lima_bo_destroy_def kfree_def drm_gem_object_release_def insert_Diff_if del: upt.simps)
qed

lemma sg_fill_length: "length (fst (sg_fill n sg)) = n \<and> length (snd (sg_fill n sg)) = n"
  by (simp add: sg_fill_def Let_def)

text \<open>The result of a creation, on each of its two paths.\<close>

definition created :: "nat \<Rightarrow> 'a obj_st_scheme \<Rightarrow> 'a obj_st_scheme \<Rightarrow> bool" where
  "created bo s s1 \<longleftrightarrow> (\<exists>b kp pages kd dmas. vs_bos s1 = (vs_bos s)(bo \<mapsto> b) \<and> bo_refs b = 1 \<and> bo_va b = [] \<and>
     bo_resv b = lima_resv_init \<and> bo_vaddr b = None \<and> unat (bo_size b) = 4096 * bo_npages b \<and>
     bo_pages b = Some (kp, pages) \<and> length pages = bo_npages b \<and>
     bo_pages_dma_addr b = Some (kd, dmas) \<and> length dmas = bo_npages b \<and>
     km_live s1 = insert kd (insert kp (insert bo (km_live s))) \<and> bo \<notin> km_live s \<and>
     kp \<notin> insert bo (km_live s) \<and> kd \<notin> insert kp (insert bo (km_live s)) \<and>
     fs_fences s1 = fs_fences s \<and> ob_vmaps s1 = ob_vmaps s \<and>
     (if bo_sgt b = None
      then bo_filp b \<and> ob_filps s1 = Suc (ob_filps s) \<and> (\<forall>j < bo_npages b. pages ! j \<noteq> None) \<and>
        (\<forall>j < bo_npages b. dmas ! j \<noteq> 0) \<and>
        ob_held s1 = ob_held s + pages_of [0..<bo_npages b] pages \<and>
        ob_mapped s1 = ob_mapped s + maps_of [0..<bo_npages b] dmas
      else \<not> bo_filp b \<and> ob_filps s1 = ob_filps s \<and> ob_held s1 = ob_held s \<and> ob_mapped s1 = ob_mapped s))"

lemma create_import:
  assumes wf: "obj_wf s" and sz: "PAGE_ALIGN sz \<noteq> 0"
  shows "\<exists>r s1. lima_bo_create junk sz (Some (t, sg)) s = Some (r, s1) \<and>
    (case r of Inl e \<Rightarrow> obj_same s s1 | Inr bo \<Rightarrow> created bo s s1)"
proof -
  let ?b = "fresh_bo (PAGE_ALIGN sz)"
  obtain ps ds where f: "sg_fill (bo_npages ?b) sg = (ps, ds)" by (cases "sg_fill (bo_npages ?b) sg")
  have len: "length ps = bo_npages ?b" "length ds = bo_npages ?b"
    using sg_fill_length [of "bo_npages ?b" sg] by (simp_all add: f)
  have fresh: "km_n s \<notin> km_live s" "Suc (km_n s) \<notin> km_live s" "Suc (Suc (km_n s)) \<notin> km_live s"
    using wf by (auto simp: obj_wf_def kmem_wf_def)
  have size: "unat (bo_size ?b) = 4096 * bo_npages ?b" by (rule npages_size) (simp add: fresh_bo_def)
  have np: "bo_npages (?b\<lparr>bo_sgt := x, bo_pages := y, bo_pages_dma_addr := z\<rparr>) = bo_npages ?b" for x y z
    by (simp add: bo_npages_def)
  show ?thesis
  proof (cases "km_ok s (km_n s) \<and> km_ok s (Suc (km_n s)) \<and> km_ok s (Suc (Suc (km_n s)))")
    case True
    let ?c = "?b\<lparr>bo_sgt := Some t, bo_pages := Some (Suc (km_n s), ps), bo_pages_dma_addr := Some (Suc (Suc (km_n s)), ds)\<rparr>"
    let ?s = "s\<lparr>km_live := insert (Suc (Suc (km_n s))) (insert (Suc (km_n s)) (insert (km_n s) (km_live s))),
      km_n := Suc (Suc (Suc (km_n s)))\<rparr>"
    have "created (km_n s) s (bo_upd (km_n s) ?c ?s)"
      unfolding created_def
      by (rule exI [of _ ?c], rule exI [of _ "Suc (km_n s)"], rule exI [of _ ps],
          rule exI [of _ "Suc (Suc (km_n s))"], rule exI [of _ ds])
        (use len fresh size in \<open>auto simp: np, auto simp: fresh_bo_def bo_upd_def\<close>)
    moreover have "lima_bo_create junk sz (Some (t, sg)) s = Some (Inr (km_n s), bo_upd (km_n s) ?c ?s)"
      using True sz f by (simp add: lima_bo_create_def Let_def kzalloc_def)
    ultimately show ?thesis by simp
  next
    case False
    then show ?thesis
      using sz f fresh
      by (cases "km_ok s (km_n s)"; cases "km_ok s (Suc (km_n s))")
        (auto simp: lima_bo_create_def Let_def kzalloc_def bo_err_free_def kfree_def obj_same_def
          fresh_bo_def insert_Diff_if)
  qed
qed

lemma create_own:
  assumes wf: "obj_wf s" and mc: "map_contract s" and sz: "PAGE_ALIGN sz \<noteq> 0" and gem: "\<forall>n. ob_gem s n \<le> 0"
  shows "\<exists>r s1. lima_bo_create junk sz None s = Some (r, s1) \<and>
    (case r of Inl e \<Rightarrow> obj_same s s1 \<and> e < 0 | Inr bo \<Rightarrow> created bo s s1)"
proof (cases "km_ok s (km_n s)")
  case False
  then show ?thesis using sz by (simp add: lima_bo_create_def Let_def kzalloc_def obj_same_def)
next
  case ok: True
  let ?bo = "km_n s" and ?b = "fresh_bo (PAGE_ALIGN sz)" and ?e = "ob_gem s (ob_n s)"
  let ?s = "s\<lparr>km_live := insert ?bo (km_live s), km_n := Suc ?bo\<rparr>"
  have fresh: "?bo \<notin> km_live s" using wf by (auto simp: obj_wf_def kmem_wf_def)
  show ?thesis
  proof (cases "?e = 0")
    case False
    then have "?e < 0" using gem by (simp add: order_less_le)
    with False ok sz fresh show ?thesis
      by (simp add: lima_bo_create_def Let_def kzalloc_def drm_gem_object_init_def bo_err_free_def kfree_def
          fresh_bo_def obj_same_def)
  next
    case True
    let ?t = "?s\<lparr>ob_n := Suc (ob_n s), ob_filps := Suc (ob_filps s)\<rparr>" and ?c = "?b\<lparr>bo_filp := True\<rparr>"
    have run: "lima_bo_create junk sz None s = do {
        (err, b, s) \<leftarrow> lima_bo_get_pages ?c ?t;
        if err \<noteq> 0 then do {
          s \<leftarrow> drm_gem_object_release b s;
          bo_err_free ?bo b (map_option fst (bo_pages b)) (map_option fst (bo_pages_dma_addr b)) err s
        } else Some (Inr ?bo, bo_upd ?bo b s) }"
      using ok sz True by (simp add: lima_bo_create_def Let_def kzalloc_def drm_gem_object_init_def)
    have kt: "kmem_wf ?t" using wf by (auto simp: obj_wf_def kmem_wf_def)
    have mt: "map_contract ?t" using mc by (simp add: map_contract_def)
    have bn: "bo_pages ?c = None" "bo_pages_dma_addr ?c = None" by (simp_all add: fresh_bo_def)
    have size: "unat (bo_size ?c) = 4096 * bo_npages ?c" by (rule npages_size) (simp add: fresh_bo_def)
    show ?thesis
    proof (cases rule: get_pages_spec [OF kt mt bn, case_names fail ok])
      case (fail s')
      then show ?thesis
        using fresh by (simp add: run drm_gem_object_release_def bo_err_free_def fresh_bo_def kfree_def
            obj_keep_def obj_same_def)
    next
      case (ok kp kd pages dmas s')
      have "created ?bo s (bo_upd ?bo (bo_arrays ?c kp kd pages dmas) s')"
        unfolding created_def
        by (rule exI [of _ "bo_arrays ?c kp kd pages dmas"], rule exI [of _ kp], rule exI [of _ pages],
            rule exI [of _ kd], rule exI [of _ dmas])
          (use ok fresh size in \<open>auto simp: bo_arrays_def fresh_bo_def bo_upd_def obj_keep_def bo_npages_def\<close>)
      with ok(1) show ?thesis by (simp add: run)
    qed
  qed
qed

text \<open>
  C21. Creating a buffer object always returns, and it never leaks: when it fails, wherever it
  fails (any allocation, the shmem file, any page, any mapping), the page references, bus
  mappings, shmem files, heap blocks and objects are the ones from before; without an import
  the error is negative. When it succeeds there is one new object with one reference, a size
  of whole pages and arrays of that many entries, and dropping that reference gives all of it
  back, for an imported object without touching the exporter's pages and mappings.
\<close>

theorem bo_create_put_ledger:
  assumes wf: "obj_wf s" and mc: "map_contract s" and gem: "\<forall>n. ob_gem s n \<le> 0"
  shows "\<exists>r s1. lima_bo_create junk sz sgt s = Some (r, s1) \<and>
    (case r of
      Inl e \<Rightarrow> obj_same s s1 \<and> (sgt = None \<longrightarrow> e < 0)
    | Inr bo \<Rightarrow> created bo s s1 \<and> (\<exists>s2. drm_gem_object_put bo s1 = Some s2 \<and> obj_same s s2))"
proof -
  have put: "\<exists>s2. drm_gem_object_put bo s1 = Some s2 \<and> obj_same s s2" if "created bo s s1" for bo s1
  proof -
    from that obtain b kp pages kd dmas where c: "vs_bos s1 = (vs_bos s)(bo \<mapsto> b)" "bo_refs b = 1"
      "bo_resv b = lima_resv_init" "bo_vaddr b = None" "bo_pages b = Some (kp, pages)" "bo_pages_dma_addr b = Some (kd, dmas)"
      "km_live s1 = insert kd (insert kp (insert bo (km_live s)))" "bo \<notin> km_live s"
      "kp \<notin> insert bo (km_live s)" "kd \<notin> insert kp (insert bo (km_live s))"
      "fs_fences s1 = fs_fences s" "ob_vmaps s1 = ob_vmaps s"
      "if bo_sgt b = None
      then bo_filp b \<and> ob_filps s1 = Suc (ob_filps s) \<and> (\<forall>j < bo_npages b. pages ! j \<noteq> None) \<and>
        (\<forall>j < bo_npages b. dmas ! j \<noteq> 0) \<and>
        ob_held s1 = ob_held s + pages_of [0..<bo_npages b] pages \<and>
        ob_mapped s1 = ob_mapped s + maps_of [0..<bo_npages b] dmas
      else \<not> bo_filp b \<and> ob_filps s1 = ob_filps s \<and> ob_held s1 = ob_held s \<and> ob_mapped s1 = ob_mapped s"
      unfolding created_def by blast
    have "vs_bos s1 bo = Some b" using c(1) by simp
    from destroy_arrays [OF this c(3-10,13)] obtain s2 where s2: "lima_bo_destroy bo s1 = Some s2"
      "km_live s2 = km_live s" "ob_held s2 = ob_held s" "ob_mapped s2 = ob_mapped s" "ob_filps s2 = ob_filps s"
      "ob_vmaps s2 = ob_vmaps s1" "fs_fences s2 = fs_fences s1" "vs_bos s2 = (vs_bos s1)(bo := None)" by blast
    moreover have "vs_bos s bo = None" using wf c(8) by (cases "vs_bos s bo") (auto simp: obj_wf_def)
    ultimately have "obj_same s s2" using c(1,11,12) by (auto simp: obj_same_def fun_eq_iff)
    then show ?thesis using s2(1) c(1,2) by (simp add: drm_gem_object_put_def lima_gem_free_object_def)
  qed
  show ?thesis
  proof (cases "PAGE_ALIGN sz = 0")
    case True
    then show ?thesis by (simp add: lima_bo_create_def obj_same_def)
  next
    case False
    show ?thesis
    proof (cases sgt)
      case None
      from create_own [OF wf mc False gem, of junk] obtain r s1 where
        "lima_bo_create junk sz None s = Some (r, s1)"
        "case r of Inl e \<Rightarrow> obj_same s s1 \<and> e < 0 | Inr bo \<Rightarrow> created bo s s1" by blast
      with None put show ?thesis by (cases r) auto
    next
      case (Some x)
      then obtain t sg where x: "sgt = Some (t, sg)" by (cases x) auto
      from create_import [OF wf False, of junk t sg] obtain r s1 where
        "lima_bo_create junk sz (Some (t, sg)) s = Some (r, s1)"
        "case r of Inl e \<Rightarrow> obj_same s s1 | Inr bo \<Rightarrow> created bo s s1" by blast
      with x put show ?thesis by (cases r) auto
    qed
  qed
qed

section \<open>A concrete heap\<close>

definition obj_demo :: obj_st where
  "obj_demo = \<lparr>km_ok = (\<lambda>_. True), km_n = 20, km_live = {5, 9}, km_time = 0, fs_fences = (\<lambda>_. None),
     dm_alloc = dm_alloc (dma_demo 2), dm_n = 0, dm_live = {(0x1000, 4096)},
     vs_vms = vs_vms (space_demo 2), vs_bos = vs_bos (space_demo 2), vs_mm_insert = vs_mm_insert (space_demo 2),
     ob_page = (\<lambda>n. Some (n + 100)), ob_map = (\<lambda>_. Some 0x50000000), ob_gem = (\<lambda>_. 0), ob_vmap = (\<lambda>_. None),
     ob_n = 0, ob_held = {#3#}, ob_mapped = {#0x40000000#}, ob_filps = 1, ob_vmaps = {#}\<rparr>"

lemma obj_demo_wf: "obj_wf obj_demo" "map_contract obj_demo" "\<forall>n. ob_gem obj_demo n \<le> 0"
  by (auto simp: obj_wf_def kmem_wf_def map_contract_def obj_demo_def space_demo_def split: if_splits)

theorem bo_create_put_ledger_witness:
  "\<exists>r s1. lima_bo_create 0 8000 None obj_demo = Some (r, s1) \<and>
    (case r of
      Inl e \<Rightarrow> obj_same obj_demo s1 \<and> ((None :: (nat \<times> sg_table) option) = None \<longrightarrow> e < 0)
    | Inr bo \<Rightarrow> created bo obj_demo s1 \<and> (\<exists>s2. drm_gem_object_put bo s1 = Some s2 \<and> obj_same obj_demo s2))"
  by (rule bo_create_put_ledger [OF obj_demo_wf])

end
