(* ===== verification/Lima_Prime.thy ===== *)
theory Lima_Prime
  imports Lima_Object
begin

text \<open>
  Sharing of buffer objects, \<open>lima_gem_prime.c\<close>: the scatter table of an object for an
  importer, and the import of one.
\<close>

section \<open>Operations\<close>

definition lima_gem_prime_import_sg_table ::
    "int \<Rightarrow> u32 \<Rightarrow> nat \<Rightarrow> sg_table \<Rightarrow> 'a obj_st_scheme \<Rightarrow> ((int + nat) \<times> 'a obj_st_scheme) option" where
  "lima_gem_prime_import_sg_table junk sz t sg s = lima_bo_create junk sz (Some (t, sg)) s"

text \<open>
  An entry of an exported table is a page and its length; \<open>ok\<close> says whether
  \<open>sg_alloc_table\<close> succeeds. The table is its block.
\<close>

definition lima_gem_prime_get_sg_table ::
    "bool \<Rightarrow> nat \<Rightarrow> 'a obj_st_scheme \<Rightarrow> ((int + nat \<times> (nat option \<times> u32) list) \<times> 'a obj_st_scheme) option" where
  "lima_gem_prime_get_sg_table ok bo s = do {
     b \<leftarrow> vs_bos s bo;
     case kzalloc s of
       (None, s) \<Rightarrow> Some (Inl (- ENOMEM), s)
     | (Some k, s) \<Rightarrow>
         if \<not> ok then do { s \<leftarrow> kfree (Some k) s; Some (Inl (- ENOMEM), s) }
         else do {
           (kp, pages) \<leftarrow> bo_pages b;
           Some (Inr (k, map (\<lambda>i. (pages ! i, of_nat LIMA_PAGE_SIZE)) [0..<bo_npages b]), s)
         }
   }"

section \<open>Export and import\<close>

text \<open>The bus addresses \<open>dma_map_sg\<close> writes into an exported table for the importer.\<close>

definition sg_mapped :: "(nat option \<times> u32) list \<Rightarrow> u32 list \<Rightarrow> sg_table" where
  "sg_mapped es as = map (\<lambda>(e, a). (the (fst e), snd e, a)) (zip es as)"

lemma sg_walk_pages: "length as = length ps \<Longrightarrow>
  sg_walk (sg_mapped (map (\<lambda>p. (p, 4096)) ps) as) = zip (map the ps) as"
proof (induction ps arbitrary: as)
  case Nil
  then show ?case by (simp add: sg_mapped_def sg_walk_def)
next
  case (Cons p ps)
  then obtain a bs where as: "as = a # bs" "length bs = length ps" by (cases as) auto
  have d: "unat (drop_bit 12 (4096 :: u32)) = 1" by simp
  have "sg_walk (sg_mapped (map (\<lambda>p. (p, 4096)) (p # ps)) as) =
      (the p, a) # sg_walk (sg_mapped (map (\<lambda>p. (p, 4096)) ps) bs)"
    by (simp add: sg_walk_def sg_mapped_def as(1) d)
  then show ?case using Cons.IH [OF as(2)] by (simp add: as(1))
qed

text \<open>
  An export that is imported again is the same object: importing the scatter table of an
  object, with the bus addresses the importer was given, makes an object of the same size
  with the same pages in the same order and those addresses, which does not own the pages.
\<close>

lemma prime_roundtrip:
  assumes b: "vs_bos s bo = Some b" "bo_pages b = Some (kp, pages)" "length pages = bo_npages b"
    and all: "\<forall>p \<in> set pages. p \<noteq> None" and sz: "unat (bo_size b) = 4096 * bo_npages b"
    and exp: "lima_gem_prime_get_sg_table ok bo s = Some (Inr (t, es), s1)" and as: "length as = bo_npages b"
    and imp: "lima_gem_prime_import_sg_table junk (bo_size b) t (sg_mapped es as) s1 = Some (Inr bo', s2)"
  shows "\<exists>c kp' kd'. vs_bos s2 bo' = Some c \<and> bo_size c = bo_size b \<and> bo_pages c = Some (kp', pages) \<and>
    bo_pages_dma_addr c = Some (kd', as) \<and> bo_sgt c = Some t \<and> \<not> bo_filp c"
proof -
  have es: "es = map (\<lambda>p. (p, 4096)) pages"
  proof -
    have "es = map (\<lambda>i. (pages ! i, 4096)) [0..<bo_npages b]"
      using exp b by (auto simp: lima_gem_prime_get_sg_table_def kzalloc_def LIMA_PAGE_SIZE_def kfree_def split: if_splits)
    also have "\<dots> = map (\<lambda>p. (p, 4096)) (map ((!) pages) [0..<length pages])" by (simp add: b(3))
    finally show ?thesis by (simp only: map_nth)
  qed
  have w: "sg_walk (sg_mapped es as) = zip (map the pages) as"
    unfolding es by (rule sg_walk_pages) (simp add: as b(3))
  have "PAGE_ALIGN (bo_size b) = bo_size b"
  proof -
    have n: "bo_npages b < 1048576" using sz unat_lt_32 [of "bo_size b"] by linarith
    have "unat (bo_size b + 4095) = (unat (bo_size b) + 4095) mod 4294967296"
      by (simp add: unat_word_ariths)
    also have "\<dots> = 4096 * bo_npages b + 4095" unfolding sz using n by (intro mod_less) linarith
    finally have "unat (PAGE_ALIGN (bo_size b)) = unat (bo_size b)" by (simp add: PAGE_ALIGN_unat sz)
    then show ?thesis by (simp only: word_unat_eq_iff)
  qed
  moreover have "sg_fill (bo_npages (fresh_bo (bo_size b))) (sg_mapped es as) = (pages, as)"
  proof -
    have "map (\<lambda>p. Some (the p)) pages = pages" using all by (intro map_idI) auto
    moreover have "map (\<lambda>(p, a). Some p) (zip (map the pages) as) = map (\<lambda>p. Some (the p)) pages"
      using b(3) as by (simp add: list_eq_iff_nth_eq)
    ultimately show ?thesis
      using w b(3) as by (simp add: sg_fill_def Let_def bo_npages_def fresh_bo_def)
  qed
  moreover have "\<exists>kp kd s'. s2 = bo_upd bo' ((fresh_bo (bo_size b))\<lparr>bo_sgt := Some t,
      bo_pages := Some (kp, pages), bo_pages_dma_addr := Some (kd, as)\<rparr>) s'"
    if "PAGE_ALIGN (bo_size b) = bo_size b"
      "sg_fill (bo_npages (fresh_bo (bo_size b))) (sg_mapped es as) = (pages, as)"
  proof -
    let ?a = "km_n s1" and ?b = "Suc (km_n s1)" and ?c = "Suc (Suc (km_n s1))"
    have "km_ok s1 ?a \<and> km_ok s1 ?b \<and> km_ok s1 ?c"
      using imp that by (cases "km_ok s1 ?a"; cases "km_ok s1 ?b"; cases "km_ok s1 ?c")
        (simp_all add: lima_gem_prime_import_sg_table_def lima_bo_create_def Let_def kzalloc_def
          bo_err_free_def kfree_def split: Option.bind_splits if_splits)
    with imp that show ?thesis
      by (simp add: lima_gem_prime_import_sg_table_def lima_bo_create_def Let_def kzalloc_def
          split: if_splits) blast
  qed
  ultimately obtain kp kd s' where "s2 = bo_upd bo' ((fresh_bo (bo_size b))\<lparr>bo_sgt := Some t,
      bo_pages := Some (kp, pages), bo_pages_dma_addr := Some (kd, as)\<rparr>) s'" by blast
  then show ?thesis by (simp add: bo_upd_def fresh_bo_def)
qed

lemma page_align_page: "PAGE_ALIGN 4096 = 4096"
proof -
  have "unat (PAGE_ALIGN 4096) = unat (4096 :: u32)" by (simp add: PAGE_ALIGN_unat)
  then show ?thesis by (simp only: word_unat_eq_iff)
qed

lemma prime_roundtrip_demo:
  "\<exists>bo (s2 :: obj_st) c kp kd. vs_bos s2 bo = Some c \<and> bo_size c = 4096 \<and> bo_pages c = Some (kp, [Some 3]) \<and>
    bo_pages_dma_addr c = Some (kd, [0x70000000]) \<and> bo_sgt c = Some 20 \<and> \<not> bo_filp c"
proof -
  obtain b where b: "vs_bos obj_demo 9 = Some b" "bo_pages b = Some (10, [Some 3])" "bo_size b = 4096"
    by (simp add: obj_demo_def space_demo_def)
  have n: "bo_npages b = 1" using b(3) by (simp add: bo_npages_def)
  let ?s = "obj_demo\<lparr>km_live := insert 20 {5, 9}, km_n := 21\<rparr>"
  have exp: "lima_gem_prime_get_sg_table True 9 obj_demo = Some (Inr (20, [(Some 3, 4096)]), ?s)"
    using b n by (simp add: lima_gem_prime_get_sg_table_def) (simp add: kzalloc_def obj_demo_def LIMA_PAGE_SIZE_def)
  obtain ps ds where f: "sg_fill (bo_npages (fresh_bo 4096)) (sg_mapped [(Some 3, 4096)] [0x70000000]) = (ps, ds)"
    by fastforce
  obtain s2 where imp: "lima_gem_prime_import_sg_table 0 (bo_size b) 20 (sg_mapped [(Some 3, 4096)] [0x70000000]) ?s = Some (Inr 21, s2)"
    by (simp add: lima_gem_prime_import_sg_table_def lima_bo_create_def b(3) page_align_page Let_def f)
      (simp add: kzalloc_def obj_demo_def Let_def f)
  have "\<exists>c kp' kd'. vs_bos s2 21 = Some c \<and> bo_size c = bo_size b \<and> bo_pages c = Some (kp', [Some 3]) \<and>
    bo_pages_dma_addr c = Some (kd', [0x70000000]) \<and> bo_sgt c = Some 20 \<and> \<not> bo_filp c"
    by (rule prime_roundtrip [OF b(1,2) _ _ _ exp _ imp]) (simp_all add: n b(3))
  then show ?thesis unfolding b(3) by blast
qed

end
