(* ===== verification/Lima_Uapi.thy ===== *)
theory Lima_Uapi
  imports Lima_Prelude
begin

text \<open>
  The user-space interface \<open>include/uapi/drm/lima_drm.h\<close>: the parameter codes, the argument
  structures of the seven ioctls as records (a field \<open>_pad\<close> is written \<open>pad\<close>), and the GP
  and PP frames. A frame reaches the driver as raw 32-bit words behind a \<open>void *\<close>; the
  three \<open>*_of_words\<close> functions are the pointer casts of the driver, and \<open>words_of_*\<close> the
  layout user space writes.
\<close>

section \<open>Parameters\<close>

definition DRM_LIMA_PARAM_GPU_ID_UNKNOWN :: u64 where [regs]: "DRM_LIMA_PARAM_GPU_ID_UNKNOWN = 0"
definition DRM_LIMA_PARAM_GPU_ID_MALI400 :: u64 where [regs]: "DRM_LIMA_PARAM_GPU_ID_MALI400 = 1"
definition DRM_LIMA_PARAM_GPU_ID_MALI450 :: u64 where [regs]: "DRM_LIMA_PARAM_GPU_ID_MALI450 = 2"

definition DRM_LIMA_PARAM_GPU_ID :: u32 where [regs]: "DRM_LIMA_PARAM_GPU_ID = 0"
definition DRM_LIMA_PARAM_NUM_PP :: u32 where [regs]: "DRM_LIMA_PARAM_NUM_PP = 1"
definition DRM_LIMA_PARAM_GP_VERSION :: u32 where [regs]: "DRM_LIMA_PARAM_GP_VERSION = 2"
definition DRM_LIMA_PARAM_PP_VERSION :: u32 where [regs]: "DRM_LIMA_PARAM_PP_VERSION = 3"

record drm_lima_get_param =
  gp_param :: u32
  gp_pad :: u32
  gp_value :: u64

record drm_lima_gem_create =
  gc_size :: u32
  gc_flags :: u32
  gc_handle :: u32
  gc_pad :: u32

record drm_lima_gem_info =
  gi_handle :: u32
  gi_va :: u32
  gi_offset :: u64

section \<open>Submission\<close>

definition LIMA_SUBMIT_BO_READ :: u32 where [regs]: "LIMA_SUBMIT_BO_READ = 0x01"
definition LIMA_SUBMIT_BO_WRITE :: u32 where [regs]: "LIMA_SUBMIT_BO_WRITE = 0x02"

record drm_lima_gem_submit_bo =
  sb_handle :: u32
  sb_flags :: u32

definition LIMA_GP_FRAME_REG_NUM :: nat where [regs]: "LIMA_GP_FRAME_REG_NUM = 6"

record drm_lima_gp_frame =
  gpf_frame :: "u32 list"

definition LIMA_PP_FRAME_REG_NUM :: nat where [regs]: "LIMA_PP_FRAME_REG_NUM = 23"
definition LIMA_PP_WB_REG_NUM :: nat where [regs]: "LIMA_PP_WB_REG_NUM = 12"

record drm_lima_m400_pp_frame =
  m400_frame :: "u32 list"
  m400_num_pp :: u32
  m400_wb :: "u32 list"
  m400_plbu_array_address :: "u32 list"
  m400_fragment_stack_address :: "u32 list"

text \<open>
  The anonymous union of the Mali-450 frame is its eight words; \<open>dlbu_regs\<close> are the first
  four of them.
\<close>

record drm_lima_m450_pp_frame =
  m450_frame :: "u32 list"
  m450_num_pp :: u32
  m450_wb :: "u32 list"
  m450_use_dlbu :: u32
  m450_pad :: u32
  m450_plbu_array_address :: "u32 list"
  m450_fragment_stack_address :: "u32 list"

definition m450_dlbu_regs :: "drm_lima_m450_pp_frame \<Rightarrow> u32 list" where
  "m450_dlbu_regs f = take 4 (m450_plbu_array_address f)"

definition LIMA_PIPE_GP :: u32 where [regs]: "LIMA_PIPE_GP = 0x00"
definition LIMA_PIPE_PP :: u32 where [regs]: "LIMA_PIPE_PP = 0x01"
definition LIMA_SUBMIT_FLAG_EXPLICIT_FENCE :: u32 where
  [regs]: "LIMA_SUBMIT_FLAG_EXPLICIT_FENCE = push_bit 0 1"

text \<open>The user pointers \<open>bos\<close> and \<open>frame\<close> are 64-bit integers in the structure.\<close>

record drm_lima_gem_submit =
  gs_ctx :: u32
  gs_pipe :: u32
  gs_nr_bos :: u32
  gs_frame_size :: u32
  gs_bos :: u64
  gs_frame :: u64
  gs_flags :: u32
  gs_out_sync :: u32
  gs_in_sync0 :: u32
  gs_in_sync1 :: u32

definition LIMA_GEM_WAIT_READ :: u32 where [regs]: "LIMA_GEM_WAIT_READ = 0x01"
definition LIMA_GEM_WAIT_WRITE :: u32 where [regs]: "LIMA_GEM_WAIT_WRITE = 0x02"

record drm_lima_gem_wait =
  gw_handle :: u32
  gw_op :: u32
  gw_timeout_ns :: s64

record drm_lima_ctx_create =
  cc_id :: u32
  cc_pad :: u32

record drm_lima_ctx_free =
  cf_id :: u32
  cf_pad :: u32

datatype lima_ioctl_nr =
  DRM_LIMA_GET_PARAM | DRM_LIMA_GEM_CREATE | DRM_LIMA_GEM_INFO | DRM_LIMA_GEM_SUBMIT
  | DRM_LIMA_GEM_WAIT | DRM_LIMA_CTX_CREATE | DRM_LIMA_CTX_FREE

fun lima_ioctl_number :: "lima_ioctl_nr \<Rightarrow> nat" where
  "lima_ioctl_number DRM_LIMA_GET_PARAM = 0x00"
| "lima_ioctl_number DRM_LIMA_GEM_CREATE = 0x01"
| "lima_ioctl_number DRM_LIMA_GEM_INFO = 0x02"
| "lima_ioctl_number DRM_LIMA_GEM_SUBMIT = 0x03"
| "lima_ioctl_number DRM_LIMA_GEM_WAIT = 0x04"
| "lima_ioctl_number DRM_LIMA_CTX_CREATE = 0x05"
| "lima_ioctl_number DRM_LIMA_CTX_FREE = 0x06"

section \<open>Frame layout\<close>

text \<open>
  \<open>sizeof\<close> of the frames, in bytes: every member is a \<open>__u32\<close> or an array of them, so
  there is no padding.
\<close>

definition sizeof_gp_frame :: nat where
  [regs]: "sizeof_gp_frame = 4 * LIMA_GP_FRAME_REG_NUM"

definition sizeof_m400_pp_frame :: nat where
  [regs]: "sizeof_m400_pp_frame = 4 * (LIMA_PP_FRAME_REG_NUM + 1 + 3 * LIMA_PP_WB_REG_NUM + 4 + 4)"

definition sizeof_m450_pp_frame :: nat where
  [regs]: "sizeof_m450_pp_frame =
     4 * (LIMA_PP_FRAME_REG_NUM + 1 + 3 * LIMA_PP_WB_REG_NUM + 1 + 1 + 8 + 8)"

definition gp_frame_of_words :: "u32 list \<Rightarrow> drm_lima_gp_frame" where
  "gp_frame_of_words w = \<lparr>gpf_frame = take LIMA_GP_FRAME_REG_NUM w\<rparr>"

definition m400_frame_of_words :: "u32 list \<Rightarrow> drm_lima_m400_pp_frame" where
  "m400_frame_of_words w = \<lparr>
     m400_frame = take 23 w,
     m400_num_pp = w ! 23,
     m400_wb = take 36 (drop 24 w),
     m400_plbu_array_address = take 4 (drop 60 w),
     m400_fragment_stack_address = take 4 (drop 64 w)\<rparr>"

definition m450_frame_of_words :: "u32 list \<Rightarrow> drm_lima_m450_pp_frame" where
  "m450_frame_of_words w = \<lparr>
     m450_frame = take 23 w,
     m450_num_pp = w ! 23,
     m450_wb = take 36 (drop 24 w),
     m450_use_dlbu = w ! 60,
     m450_pad = w ! 61,
     m450_plbu_array_address = take 8 (drop 62 w),
     m450_fragment_stack_address = take 8 (drop 70 w)\<rparr>"

definition words_of_m400_frame :: "drm_lima_m400_pp_frame \<Rightarrow> u32 list" where
  "words_of_m400_frame f = m400_frame f @ [m400_num_pp f] @ m400_wb f
     @ m400_plbu_array_address f @ m400_fragment_stack_address f"

definition words_of_m450_frame :: "drm_lima_m450_pp_frame \<Rightarrow> u32 list" where
  "words_of_m450_frame f = m450_frame f @ [m450_num_pp f] @ m450_wb f
     @ [m450_use_dlbu f, m450_pad f]
     @ m450_plbu_array_address f @ m450_fragment_stack_address f"

definition wf_m400_frame :: "drm_lima_m400_pp_frame \<Rightarrow> bool" where
  "wf_m400_frame f \<longleftrightarrow> length (m400_frame f) = 23 \<and> length (m400_wb f) = 36
     \<and> length (m400_plbu_array_address f) = 4 \<and> length (m400_fragment_stack_address f) = 4"

definition wf_m450_frame :: "drm_lima_m450_pp_frame \<Rightarrow> bool" where
  "wf_m450_frame f \<longleftrightarrow> length (m450_frame f) = 23 \<and> length (m450_wb f) = 36
     \<and> length (m450_plbu_array_address f) = 8 \<and> length (m450_fragment_stack_address f) = 8"

text \<open>The casts read back what the layout wrote, and a buffer of \<open>frame_size\<close> bytes is a frame.\<close>

lemma m400_frame_roundtrip:
  "wf_m400_frame f \<Longrightarrow> m400_frame_of_words (words_of_m400_frame f) = f"
  by (cases f) (simp add: wf_m400_frame_def m400_frame_of_words_def words_of_m400_frame_def
      nth_append)

lemma m450_frame_roundtrip:
  "wf_m450_frame f \<Longrightarrow> m450_frame_of_words (words_of_m450_frame f) = f"
  by (cases f) (simp add: wf_m450_frame_def m450_frame_of_words_def words_of_m450_frame_def
      nth_append)

lemma wf_m400_frame_of_words:
  "4 * length w = sizeof_m400_pp_frame \<Longrightarrow> wf_m400_frame (m400_frame_of_words w)"
  by (simp add: wf_m400_frame_def m400_frame_of_words_def regs)

lemma wf_m450_frame_of_words:
  "4 * length w = sizeof_m450_pp_frame \<Longrightarrow> wf_m450_frame (m450_frame_of_words w)"
  by (simp add: wf_m450_frame_def m450_frame_of_words_def regs)

end
