(* ===== verification/Lima_Types.thy ===== *)
theory Lima_Types
  imports Lima_Uapi Lima_Regs
begin

text \<open>
  The data model of \<open>lima_device.h\<close> and \<open>lima_sched.h\<close>: the IP blocks, the two pipes, the
  tasks and the device, and the register bus the IP blocks are reached over.
\<close>

section \<open>Enumerations\<close>

datatype lima_gpu_id = lima_gpu_mali400 | lima_gpu_mali450

datatype lima_ip_id =
  lima_ip_pmu | lima_ip_gpmmu
| lima_ip_ppmmu0 | lima_ip_ppmmu1 | lima_ip_ppmmu2 | lima_ip_ppmmu3
| lima_ip_ppmmu4 | lima_ip_ppmmu5 | lima_ip_ppmmu6 | lima_ip_ppmmu7
| lima_ip_gp
| lima_ip_pp0 | lima_ip_pp1 | lima_ip_pp2 | lima_ip_pp3
| lima_ip_pp4 | lima_ip_pp5 | lima_ip_pp6 | lima_ip_pp7
| lima_ip_l2_cache0 | lima_ip_l2_cache1 | lima_ip_l2_cache2
| lima_ip_dlbu | lima_ip_bcast | lima_ip_pp_bcast | lima_ip_ppmmu_bcast

datatype lima_pipe_id = lima_pipe_gp | lima_pipe_pp

text \<open>The enumerators in their order; \<open>ip_num\<close> is the integer value of one.\<close>

definition lima_ips :: "lima_ip_id list" where
  "lima_ips = [lima_ip_pmu, lima_ip_gpmmu,
     lima_ip_ppmmu0, lima_ip_ppmmu1, lima_ip_ppmmu2, lima_ip_ppmmu3,
     lima_ip_ppmmu4, lima_ip_ppmmu5, lima_ip_ppmmu6, lima_ip_ppmmu7,
     lima_ip_gp,
     lima_ip_pp0, lima_ip_pp1, lima_ip_pp2, lima_ip_pp3,
     lima_ip_pp4, lima_ip_pp5, lima_ip_pp6, lima_ip_pp7,
     lima_ip_l2_cache0, lima_ip_l2_cache1, lima_ip_l2_cache2,
     lima_ip_dlbu, lima_ip_bcast, lima_ip_pp_bcast, lima_ip_ppmmu_bcast]"

fun index_of :: "'a \<Rightarrow> 'a list \<Rightarrow> nat" where
  "index_of x [] = 0"
| "index_of x (y # ys) = (if x = y then 0 else Suc (index_of x ys))"

definition ip_num :: "lima_ip_id \<Rightarrow> nat" where
  "ip_num i = index_of i lima_ips"

definition lima_ip_num :: nat where "lima_ip_num = length lima_ips"

text \<open>The pixel processors and their MMUs, \<open>lima_ip_pp0 + i\<close> and \<open>lima_ip_ppmmu0 + i\<close>.\<close>

definition lima_pps :: "lima_ip_id list" where
  "lima_pps = [lima_ip_pp0, lima_ip_pp1, lima_ip_pp2, lima_ip_pp3,
     lima_ip_pp4, lima_ip_pp5, lima_ip_pp6, lima_ip_pp7]"

definition lima_ppmmus :: "lima_ip_id list" where
  "lima_ppmmus = [lima_ip_ppmmu0, lima_ip_ppmmu1, lima_ip_ppmmu2, lima_ip_ppmmu3,
     lima_ip_ppmmu4, lima_ip_ppmmu5, lima_ip_ppmmu6, lima_ip_ppmmu7]"

lemma lima_ips_all: "i \<in> set lima_ips" "distinct lima_ips"
  by (cases i) (simp_all add: lima_ips_def)

lemma ip_num_lt: "ip_num i < lima_ip_num"
  by (cases i) (simp_all add: ip_num_def lima_ip_num_def lima_ips_def)

lemma ip_at_num: "lima_ips ! ip_num i = i"
  by (cases i) (simp_all add: ip_num_def lima_ips_def)

lemma ip_num_inj: "ip_num i = ip_num j \<longleftrightarrow> i = j"
  by (metis ip_at_num)

instantiation lima_ip_id :: linorder
begin

definition less_eq_lima_ip_id :: "lima_ip_id \<Rightarrow> lima_ip_id \<Rightarrow> bool" where
  "less_eq_lima_ip_id i j \<longleftrightarrow> ip_num i \<le> ip_num j"

definition less_lima_ip_id :: "lima_ip_id \<Rightarrow> lima_ip_id \<Rightarrow> bool" where
  "less_lima_ip_id i j \<longleftrightarrow> ip_num i < ip_num j"

instance
  by standard (auto simp: less_eq_lima_ip_id_def less_lima_ip_id_def ip_num_inj)

end

text \<open>The number of a pixel processor, \<open>pp->id - lima_ip_pp0\<close>.\<close>

definition pp_index :: "lima_ip_id \<Rightarrow> nat" where
  "pp_index i = ip_num i - ip_num lima_ip_pp0"

lemma pp_index_simps [simp]:
  "pp_index lima_ip_pp0 = 0" "pp_index lima_ip_pp1 = 1" "pp_index lima_ip_pp2 = 2"
  "pp_index lima_ip_pp3 = 3" "pp_index lima_ip_pp4 = 4" "pp_index lima_ip_pp5 = 5"
  "pp_index lima_ip_pp6 = 6" "pp_index lima_ip_pp7 = 7"
  by (simp_all add: pp_index_def ip_num_def lima_ips_def)

section \<open>Structures\<close>

text \<open>
  \<open>struct lima_ip\<close>. The register window is mapped at \<open>ip_iomem\<close>; of the union \<open>data\<close> the model
  keeps \<open>async_reset\<close> (the other member is a lock).
\<close>

record lima_ip =
  ip_present :: bool
  ip_iomem :: u32
  ip_irq :: int
  ip_async_reset :: bool

text \<open>
  \<open>struct lima_sched_task\<close>. Pointers are identities: of a context and its number, an address
  space, fences and buffer objects. The frame is the words copied from user space behind the
  structure; \<open>t_deps\<close> and \<open>t_bos\<close> have the blocks of their arrays.
\<close>

record lima_sched_task =
  t_pipe :: lima_pipe_id
  t_ctx :: "nat option"
  t_context :: nat
  t_vm :: nat
  t_frame :: "u32 list"
  t_deps :: "nat list"
  t_deps_arr :: "nat option"
  t_bos :: "nat list"
  t_bos_arr :: "nat option"
  t_fence :: nat

text \<open>
  \<open>struct lima_sched_pipe\<close>. The IP arrays with their counts are lists; the three work items
  are pending or not (queueing a pending item does nothing); \<open>p_task\<close> is the \<open>atomic_t\<close>.
\<close>

record lima_sched_pipe =
  p_name :: string
  p_mmu :: "lima_ip_id list"
  p_l2_cache :: "lima_ip_id list"
  p_processor :: "lima_ip_id list"
  p_bcast_processor :: "lima_ip_id option"
  p_bcast_mmu :: "lima_ip_id option"
  p_done :: u32
  p_error :: bool
  p_task :: int
  p_current_task :: "nat option"
  p_current_vm :: "nat option"
  p_frame_size :: nat
  p_queue :: "nat list"
  p_wq :: bool
  p_run_pending :: bool
  p_done_pending :: bool
  p_timeout_pending :: bool

text \<open>
  An access on the register bus: a read with the value it returned, or a write.
\<close>

datatype io = Rd u32 u32 | Wr u32 u32

text \<open>
  \<open>struct lima_device\<close>, with the bus behind \<open>iomem\<close> and the tasks of the slabs. \<open>bus_trace\<close>
  holds the accesses made, newest first. The hardware is arbitrary: \<open>bus_resp\<close> gives the value
  of a read from the history and the address, \<open>bus_polls\<close> how many polls a polling loop that
  starts at that history can make before its deadline passes. \<open>dev_request_irq\<close> is what
  \<open>devm_request_irq\<close> returns for an IP block.
\<close>

record lima_device =
  dev_id :: lima_gpu_id
  dev_gp_version :: u32
  dev_pp_version :: u32
  dev_num_pp :: nat
  dev_iomem :: u32
  dev_ip :: "lima_ip_id \<Rightarrow> lima_ip"
  dev_pipe :: "lima_pipe_id \<Rightarrow> lima_sched_pipe"
  dev_empty_vm_pd :: u32
  dev_dlbu_dma :: u32
  dev_sched_timeout_ms :: int
  dev_tasks :: "nat \<Rightarrow> lima_sched_task option"
  bus_trace :: "io list"
  bus_resp :: "io list \<Rightarrow> u32 \<Rightarrow> u32"
  bus_polls :: "io list \<Rightarrow> nat"
  dev_request_irq :: "lima_ip_id \<Rightarrow> int"

type_synonym 'a hw = "(lima_device, 'a) state"

datatype irqreturn_t = IRQ_NONE | IRQ_HANDLED

definition ip_upd :: "lima_ip_id \<Rightarrow> (lima_ip \<Rightarrow> lima_ip) \<Rightarrow> lima_device \<Rightarrow> lima_device" where
  "ip_upd i f d = d\<lparr>dev_ip := (dev_ip d)(i := f (dev_ip d i))\<rparr>"

definition pipe_upd ::
    "lima_pipe_id \<Rightarrow> (lima_sched_pipe \<Rightarrow> lima_sched_pipe) \<Rightarrow> lima_device \<Rightarrow> lima_device" where
  "pipe_upd p f d = d\<lparr>dev_pipe := (dev_pipe d)(p := f (dev_pipe d p))\<rparr>"

lemma ip_upd_simps [simp]:
  "dev_ip (ip_upd i f d) = (dev_ip d)(i := f (dev_ip d i))"
  "dev_pipe (ip_upd i f d) = dev_pipe d" "bus_trace (ip_upd i f d) = bus_trace d"
  "bus_resp (ip_upd i f d) = bus_resp d" "bus_polls (ip_upd i f d) = bus_polls d"
  "dev_tasks (ip_upd i f d) = dev_tasks d" "dev_sched_timeout_ms (ip_upd i f d) = dev_sched_timeout_ms d"
  "dev_request_irq (ip_upd i f d) = dev_request_irq d" "dev_dlbu_dma (ip_upd i f d) = dev_dlbu_dma d"
  "dev_empty_vm_pd (ip_upd i f d) = dev_empty_vm_pd d" "dev_id (ip_upd i f d) = dev_id d"
  by (simp_all add: ip_upd_def)

lemma pipe_upd_simps [simp]:
  "dev_pipe (pipe_upd p g d) = (dev_pipe d)(p := g (dev_pipe d p))"
  "dev_ip (pipe_upd p g d) = dev_ip d" "bus_trace (pipe_upd p g d) = bus_trace d"
  "bus_resp (pipe_upd p g d) = bus_resp d" "bus_polls (pipe_upd p g d) = bus_polls d"
  "dev_tasks (pipe_upd p g d) = dev_tasks d" "dev_sched_timeout_ms (pipe_upd p g d) = dev_sched_timeout_ms d"
  "dev_request_irq (pipe_upd p g d) = dev_request_irq d" "dev_dlbu_dma (pipe_upd p g d) = dev_dlbu_dma d"
  "dev_empty_vm_pd (pipe_upd p g d) = dev_empty_vm_pd d" "dev_id (pipe_upd p g d) = dev_id d"
  by (simp_all add: pipe_upd_def)

end
