(* ===== verification/Lima_Mmio.thy ===== *)
theory Lima_Mmio
  imports Lima_Types
begin

text \<open>
  Register access: \<open>readl\<close> and \<open>writel\<close>, the polling macro \<open>readl_poll_timeout\<close> of
  \<open>lima_compat.h\<close> and the polling loop \<open>lima_poll_timeout\<close> of \<open>lima_device.h\<close>.
\<close>

section \<open>Registers\<close>

definition readl :: "u32 \<Rightarrow> u32 hw" where
  "readl a = State (\<lambda>d. let v = bus_resp d (bus_trace d) a in (v, d\<lparr>bus_trace := Rd a v # bus_trace d\<rparr>))"

definition writel :: "u32 \<Rightarrow> u32 \<Rightarrow> unit hw" where
  "writel v a = State (\<lambda>d. ((), d\<lparr>bus_trace := Wr a v # bus_trace d\<rparr>))"

text \<open>\<open>gp_read\<close>, \<open>pp_write\<close> and so on: a register of an IP block.\<close>

definition ip_read :: "lima_ip_id \<Rightarrow> u32 \<Rightarrow> u32 hw" where
  "ip_read i reg = do { a \<leftarrow> gets (\<lambda>d. ip_iomem (dev_ip d i)); readl (a + reg) }"

definition ip_write :: "lima_ip_id \<Rightarrow> u32 \<Rightarrow> u32 \<Rightarrow> unit hw" where
  "ip_write i reg v = do { a \<leftarrow> gets (\<lambda>d. ip_iomem (dev_ip d i)); writel v (a + reg) }"

section \<open>Polling\<close>

text \<open>
  \<open>readl_poll_timeout\<close>: \<open>n\<close> polls can fail before the deadline; the poll after that is
  followed by one last read, which decides.
\<close>

fun readl_poll_loop :: "lima_ip_id \<Rightarrow> u32 \<Rightarrow> (u32 \<Rightarrow> bool) \<Rightarrow> nat \<Rightarrow> int hw" where
  "readl_poll_loop i reg cond n = do {
     v \<leftarrow> ip_read i reg;
     if cond v then returnM 0
     else (case n of
         0 \<Rightarrow> do { v \<leftarrow> ip_read i reg; returnM (if cond v then 0 else - ETIMEDOUT) }
       | Suc n \<Rightarrow> readl_poll_loop i reg cond n)
   }"

declare readl_poll_loop.simps [simp del]

definition readl_poll_timeout :: "lima_ip_id \<Rightarrow> u32 \<Rightarrow> (u32 \<Rightarrow> bool) \<Rightarrow> int hw" where
  "readl_poll_timeout i reg cond = do {
     n \<leftarrow> gets (\<lambda>d. bus_polls d (bus_trace d));
     readl_poll_loop i reg cond n
   }"

text \<open>
  \<open>lima_poll_timeout\<close> with a deadline (every caller passes one): the poll that fails after the
  deadline ends the loop.
\<close>

fun lima_poll_loop :: "bool hw \<Rightarrow> nat \<Rightarrow> int hw" where
  "lima_poll_loop f n = do {
     b \<leftarrow> f;
     if b then returnM 0
     else (case n of 0 \<Rightarrow> returnM (- ETIMEDOUT) | Suc n \<Rightarrow> lima_poll_loop f n)
   }"

declare lima_poll_loop.simps [simp del]

definition lima_poll_timeout :: "bool hw \<Rightarrow> int hw" where
  "lima_poll_timeout f = do {
     n \<leftarrow> gets (\<lambda>d. bus_polls d (bus_trace d));
     lima_poll_loop f n
   }"

section \<open>Executing accesses\<close>

text \<open>The address of a register, the value a read would return, and the writes of a trace in order.\<close>

definition ip_reg :: "lima_device \<Rightarrow> lima_ip_id \<Rightarrow> u32 \<Rightarrow> u32" where
  "ip_reg d i reg = ip_iomem (dev_ip d i) + reg"

definition peek :: "lima_device \<Rightarrow> lima_ip_id \<Rightarrow> u32 \<Rightarrow> u32" where
  "peek d i reg = bus_resp d (bus_trace d) (ip_reg d i reg)"

fun writes :: "io list \<Rightarrow> (u32 \<times> u32) list" where
  "writes [] = []"
| "writes (Rd a v # t) = writes t"
| "writes (Wr a v # t) = writes t @ [(a, v)]"

abbreviation bus_writes :: "lima_device \<Rightarrow> (u32 \<times> u32) list" where
  "bus_writes d \<equiv> writes (bus_trace d)"

definition log_io :: "io \<Rightarrow> lima_device \<Rightarrow> lima_device" where
  "log_io e d = d\<lparr>bus_trace := e # bus_trace d\<rparr>"

lemma run_ip_read [hw_simps]:
  "run_state (ip_read i reg) d = (peek d i reg, log_io (Rd (ip_reg d i reg) (peek d i reg)) d)"
  by (simp add: ip_read_def readl_def peek_def ip_reg_def log_io_def Let_def)

lemma run_ip_write [hw_simps]:
  "run_state (ip_write i reg v) d = ((), log_io (Wr (ip_reg d i reg) v) d)"
  by (simp add: ip_write_def writel_def ip_reg_def log_io_def)

lemma log_io_simps [simp]:
  "bus_trace (log_io e d) = e # bus_trace d" "dev_ip (log_io e d) = dev_ip d"
  "dev_pipe (log_io e d) = dev_pipe d" "dev_tasks (log_io e d) = dev_tasks d"
  "bus_resp (log_io e d) = bus_resp d" "bus_polls (log_io e d) = bus_polls d"
  "dev_request_irq (log_io e d) = dev_request_irq d" "dev_id (log_io e d) = dev_id d"
  "dev_dlbu_dma (log_io e d) = dev_dlbu_dma d" "dev_empty_vm_pd (log_io e d) = dev_empty_vm_pd d"
  "dev_sched_timeout_ms (log_io e d) = dev_sched_timeout_ms d" "ip_reg (log_io e d) = ip_reg d"
  by (simp_all add: log_io_def ip_reg_def fun_eq_iff)

lemma ip_reg_upd [simp]:
  "ip_reg (pipe_upd p g d) = ip_reg d"
  "(\<And>x. ip_iomem (f x) = ip_iomem x) \<Longrightarrow> ip_reg (ip_upd i f d) = ip_reg d"
  by (auto simp: ip_reg_def fun_eq_iff)

text \<open>
  What a step that only accesses the bus leaves alone: everything but the trace. The trace
  only grows.
\<close>

definition io_only :: "lima_device \<Rightarrow> lima_device \<Rightarrow> bool" where
  "io_only d d' \<longleftrightarrow> (\<exists>es. d' = d\<lparr>bus_trace := es @ bus_trace d\<rparr>)"

lemma io_only_refl [simp]: "io_only d d"
  unfolding io_only_def by (rule exI [of _ "[]"]) simp

lemma io_only_log [simp]: "io_only d (log_io e d)"
  unfolding io_only_def log_io_def by (rule exI [of _ "[e]"]) simp

lemma io_only_ext [simp]: "io_only d (d\<lparr>bus_trace := es @ bus_trace d\<rparr>)"
  unfolding io_only_def by blast

lemma io_only_trans: "io_only a b \<Longrightarrow> io_only b c \<Longrightarrow> io_only a c"
proof -
  assume "io_only a b" "io_only b c"
  then obtain es fs where "b = a\<lparr>bus_trace := es @ bus_trace a\<rparr>" "c = b\<lparr>bus_trace := fs @ bus_trace b\<rparr>"
    by (auto simp: io_only_def)
  then have "c = a\<lparr>bus_trace := (fs @ es) @ bus_trace a\<rparr>" by simp
  then show ?thesis unfolding io_only_def by blast
qed

lemma io_only_log2: "io_only d d' \<Longrightarrow> io_only d (log_io e d')"
  using io_only_trans io_only_log by blast

lemma io_only_frame:
  assumes "io_only d d'"
  shows "dev_ip d' = dev_ip d" "dev_pipe d' = dev_pipe d" "dev_tasks d' = dev_tasks d"
    "bus_resp d' = bus_resp d" "bus_polls d' = bus_polls d" "dev_request_irq d' = dev_request_irq d"
    "dev_id d' = dev_id d" "dev_dlbu_dma d' = dev_dlbu_dma d" "dev_empty_vm_pd d' = dev_empty_vm_pd d"
    "dev_sched_timeout_ms d' = dev_sched_timeout_ms d" "ip_reg d' = ip_reg d"
  using assms by (auto simp: io_only_def ip_reg_def fun_eq_iff)

text \<open>A loop of writes to one IP block.\<close>

lemma exec_forM_writes:
  "exec (forM (\<lambda>i. ip_write ip (r i) (v i)) xs) d =
     d\<lparr>bus_trace := rev (map (\<lambda>i. Wr (ip_reg d ip (r i)) (v i)) xs) @ bus_trace d\<rparr>"
proof (induction xs arbitrary: d)
  case Nil
  then show ?case by simp
next
  case (Cons x xs)
  have "exec (forM (\<lambda>i. ip_write ip (r i) (v i)) (x # xs)) d =
      exec (forM (\<lambda>i. ip_write ip (r i) (v i)) xs) (log_io (Wr (ip_reg d ip (r x)) (v x)) d)"
    by (simp add: hw_simps)
  then show ?case by (simp only: Cons.IH) (simp add: log_io_def ip_reg_def)
qed

lemma writes_append: "writes (s @ t) = writes t @ writes s"
proof (induction s)
  case (Cons e s)
  then show ?case by (cases e) simp_all
qed simp

lemma writes_rev_map: "writes (rev (map (\<lambda>i. Wr (a i) (v i)) xs) @ t) = writes t @ map (\<lambda>i. (a i, v i)) xs"
  by (induction xs arbitrary: t) (simp_all add: writes_append)

lemma forM_writes_simps [hw_simps]:
  "bus_trace (exec (forM (\<lambda>i. ip_write ip (r i) (v i)) xs) d) =
     rev (map (\<lambda>i. Wr (ip_reg d ip (r i)) (v i)) xs) @ bus_trace d"
  "io_only d (exec (forM (\<lambda>i. ip_write ip (r i) (v i)) xs) d)"
  by (simp_all add: exec_forM_writes)

section \<open>The polling loops\<close>

text \<open>
  A polling loop on a register only reads that register, at least once and at most \<open>n + 2\<close>
  times, and its verdict is that of the last value read.
\<close>

lemma poll_loop_spec:
  "\<exists>vs v. 0 < length (v # vs) \<and> length vs \<le> Suc n \<and>
     exec (readl_poll_loop i reg cond n) d =
       d\<lparr>bus_trace := map (Rd (ip_reg d i reg)) (v # vs) @ bus_trace d\<rparr> \<and>
     (\<forall>w \<in> set vs. \<not> cond w) \<and>
     result (readl_poll_loop i reg cond n) d = (if cond v then 0 else - ETIMEDOUT)"
proof (induction n arbitrary: d)
  case 0
  let ?v = "peek d i reg" and ?d = "log_io (Rd (ip_reg d i reg) (peek d i reg)) d"
  show ?case
  proof (cases "cond ?v")
    case True
    then show ?thesis
      by (intro exI [of _ "[]"] exI [of _ ?v])
        (simp add: readl_poll_loop.simps [of _ _ _ 0] hw_simps log_io_def)
  next
    case False
    then show ?thesis
      by (intro exI [of _ "[?v]"] exI [of _ "peek ?d i reg"])
        (simp add: readl_poll_loop.simps [of _ _ _ 0] hw_simps, simp add: log_io_def)
  qed
next
  case (Suc n)
  let ?v = "peek d i reg" and ?d = "log_io (Rd (ip_reg d i reg) (peek d i reg)) d"
  show ?case
  proof (cases "cond ?v")
    case True
    then show ?thesis
      by (intro exI [of _ "[]"] exI [of _ ?v])
        (simp add: readl_poll_loop.simps [of _ _ _ "Suc n"] hw_simps log_io_def)
  next
    case False
    from Suc.IH [of ?d] obtain vs v where *: "length vs \<le> Suc n"
      "exec (readl_poll_loop i reg cond n) ?d = ?d\<lparr>bus_trace := map (Rd (ip_reg d i reg)) (v # vs) @ bus_trace ?d\<rparr>"
      "\<forall>w \<in> set vs. \<not> cond w"
      "result (readl_poll_loop i reg cond n) ?d = (if cond v then 0 else - ETIMEDOUT)"
      by auto
    have run: "run_state (readl_poll_loop i reg cond (Suc n)) d = run_state (readl_poll_loop i reg cond n) ?d"
      using False by (simp add: readl_poll_loop.simps [of _ _ _ "Suc n"] hw_simps)
    show ?thesis
      unfolding run using * False
      by (intro exI [of _ "vs @ [?v]"] exI [of _ v]) (simp, simp add: log_io_def)
  qed
qed

lemma writes_reads [simp]: "writes (map (Rd a) vs @ t) = writes t"
  by (induction vs) simp_all

lemma poll_timeout_run:
  obtains vs v where "exec (readl_poll_timeout i reg cond) d =
      d\<lparr>bus_trace := map (Rd (ip_reg d i reg)) (v # vs) @ bus_trace d\<rparr>"
    and "result (readl_poll_timeout i reg cond) d = (if cond v then 0 else - ETIMEDOUT)"
  using poll_loop_spec [of "bus_polls d (bus_trace d)" i reg cond d]
  by (auto simp: readl_poll_timeout_def)

lemma poll_timeout_frame:
  "io_only d (exec (readl_poll_timeout i reg cond) d)"
  "bus_writes (exec (readl_poll_timeout i reg cond) d) = bus_writes d"
  "result (readl_poll_timeout i reg cond) d \<in> {0, - ETIMEDOUT}"
proof -
  obtain vs v where "exec (readl_poll_timeout i reg cond) d =
      d\<lparr>bus_trace := map (Rd (ip_reg d i reg)) (v # vs) @ bus_trace d\<rparr>"
    and "result (readl_poll_timeout i reg cond) d = (if cond v then 0 else - ETIMEDOUT)"
    by (rule poll_timeout_run)
  then show "io_only d (exec (readl_poll_timeout i reg cond) d)"
    "bus_writes (exec (readl_poll_timeout i reg cond) d) = bus_writes d"
    "result (readl_poll_timeout i reg cond) d \<in> {0, - ETIMEDOUT}"
    using writes_reads [of "ip_reg d i reg" "v # vs"] io_only_ext [of d "map (Rd (ip_reg d i reg)) (v # vs)"]
    by simp_all
qed

subsection \<open>Against the clock\<close>

text \<open>
  The macro itself samples \<open>jiffies\<close> after each failing poll. Here \<open>clk k\<close> is the \<open>k\<close>-th
  sample; the loop need not end, and \<open>None\<close> is "it does not return".
\<close>

definition time_after :: "u32 \<Rightarrow> u32 \<Rightarrow> bool" where
  "time_after a b \<longleftrightarrow> sint (b - a) < 0"

partial_function (option) readl_poll_clock ::
    "(nat \<Rightarrow> u32) \<Rightarrow> u32 \<Rightarrow> lima_ip_id \<Rightarrow> u32 \<Rightarrow> (u32 \<Rightarrow> bool) \<Rightarrow> nat \<Rightarrow> lima_device \<Rightarrow> (int \<times> lima_device) option" where
  "readl_poll_clock clk deadline i reg cond k d =
     (let (v, d) = run_state (ip_read i reg) d in
      if cond v then Some (0, d)
      else if time_after (clk k) deadline then
        (let (v, d) = run_state (ip_read i reg) d in Some (if cond v then 0 else - ETIMEDOUT, d))
      else readl_poll_clock clk deadline i reg cond (Suc k) d)"

lemma poll_clock_eq_loop:
  assumes "time_after (clk (k + n)) deadline" and "\<forall>j < n. \<not> time_after (clk (k + j)) deadline"
  shows "readl_poll_clock clk deadline i reg cond k d = Some (run_state (readl_poll_loop i reg cond n) d)"
  using assms
proof (induction n arbitrary: k d)
  case 0
  then show ?case
    by (subst readl_poll_clock.simps) (simp add: readl_poll_loop.simps [of _ _ _ 0] hw_simps Let_def)
next
  case (Suc n)
  have now: "\<not> time_after (clk k) deadline" using Suc.prems(2) by auto
  have rest: "\<forall>j < n. \<not> time_after (clk (Suc k + j)) deadline"
    using Suc.prems(2) by (metis Suc_less_eq add_Suc add_Suc_right)
  have "readl_poll_clock clk deadline i reg cond (Suc k) d' = Some (run_state (readl_poll_loop i reg cond n) d')" for d'
    using Suc.IH [of "Suc k" d'] Suc.prems(1) rest by simp
  with now show ?case
    by (subst readl_poll_clock.simps) (simp add: readl_poll_loop.simps [of _ _ _ "Suc n"] hw_simps Let_def)
qed

lemma poll_loop_preserves:
  assumes "\<And>d. P d \<Longrightarrow> P (exec f d)" and "P d"
  shows "P (exec (lima_poll_loop f n) d)"
  using assms
  by (induction n arbitrary: d) (simp_all add: lima_poll_loop.simps [of _ 0] lima_poll_loop.simps [of _ "Suc _"]
      split: if_splits)

lemma poll_loop_verdict: "result (lima_poll_loop f n) d \<in> {0, - ETIMEDOUT}"
  by (induction n arbitrary: d) (simp_all add: lima_poll_loop.simps [of _ 0] lima_poll_loop.simps [of _ "Suc _"])

text \<open>The loop ends with a poll, and succeeds exactly when that last poll did.\<close>

lemma poll_loop_last:
  "\<exists>d'. exec (lima_poll_loop f n) d = exec f d' \<and>
     result (lima_poll_loop f n) d = (if result f d' then 0 else - ETIMEDOUT)"
proof (induction n arbitrary: d)
  case 0
  show ?case
    by (rule exI [of _ d]) (simp add: lima_poll_loop.simps [of _ 0])
next
  case (Suc n)
  show ?case
  proof (cases "result f d")
    case True
    then show ?thesis
      by (intro exI [of _ d]) (simp add: lima_poll_loop.simps [of _ "Suc _"])
  next
    case False
    then have "run_state (lima_poll_loop f (Suc n)) d = run_state (lima_poll_loop f n) (exec f d)"
      by (simp add: lima_poll_loop.simps [of _ "Suc _"] prod_eq_iff)
    with Suc.IH [of "exec f d"] show ?thesis by simp
  qed
qed

text \<open>
  C20. The register polling macro is bounded by the clock and answers by the last value it
  read: once \<open>jiffies\<close> passes the deadline, at sample \<open>n\<close>, it returns after at most \<open>n + 2\<close>
  reads of that one register and nothing else, with \<open>0\<close> when the last value satisfies the
  condition and \<open>-ETIMEDOUT\<close> when it does not; no earlier value satisfied it.
\<close>

theorem poll_bounded_by_clock:
  assumes "time_after (clk n) deadline" and "\<forall>j < n. \<not> time_after (clk j) deadline"
  shows "\<exists>vs v. length (v # vs) \<le> n + 2 \<and> (\<forall>w \<in> set vs. \<not> cond w) \<and>
    readl_poll_clock clk deadline i reg cond 0 d =
      Some (if cond v then 0 else - ETIMEDOUT,
            d\<lparr>bus_trace := map (Rd (ip_reg d i reg)) (v # vs) @ bus_trace d\<rparr>)"
proof -
  from poll_loop_spec [of n i reg cond d] obtain vs v where
    "length vs \<le> Suc n" "\<forall>w \<in> set vs. \<not> cond w"
    "exec (readl_poll_loop i reg cond n) d = d\<lparr>bus_trace := map (Rd (ip_reg d i reg)) (v # vs) @ bus_trace d\<rparr>"
    "result (readl_poll_loop i reg cond n) d = (if cond v then 0 else - ETIMEDOUT)" by blast
  moreover have "readl_poll_clock clk deadline i reg cond 0 d = Some (run_state (readl_poll_loop i reg cond n) d)"
    using poll_clock_eq_loop [of clk 0 n] assms by simp
  ultimately show ?thesis
    by (intro exI [of _ vs] exI [of _ v]) (simp add: prod_eq_iff)
qed

section \<open>A concrete device\<close>

text \<open>
  A Mali-400 with two pixel processors, every register window at its offset from
  \<open>0x60000000\<close>; reads return what \<open>rsp\<close> says and polling loops give up after \<open>k\<close> polls.
\<close>

definition dev_demo :: "(io list \<Rightarrow> u32 \<Rightarrow> u32) \<Rightarrow> nat \<Rightarrow> lima_device" where
  "dev_demo rsp k = \<lparr>dev_id = lima_gpu_mali400, dev_gp_version = 0, dev_pp_version = 0, dev_num_pp = 2,
     dev_iomem = 0x60000000,
     dev_ip = (\<lambda>i. \<lparr>ip_present = (i \<in> {lima_ip_gp, lima_ip_pp0, lima_ip_pp1}),
        ip_iomem = 0x60000000 + of_nat (0x1000 * ip_num i), ip_irq = 10, ip_async_reset = False\<rparr>),
     dev_pipe = (\<lambda>p. \<lparr>p_name = ''demo'', p_mmu = [], p_l2_cache = [],
        p_processor = (case p of lima_pipe_gp \<Rightarrow> [lima_ip_gp] | lima_pipe_pp \<Rightarrow> [lima_ip_pp0, lima_ip_pp1]),
        p_bcast_processor = None, p_bcast_mmu = None, p_done = 0, p_error = False, p_task = 0,
        p_current_task = None, p_current_vm = None, p_frame_size = 0, p_queue = [], p_wq = True,
        p_run_pending = False, p_done_pending = False, p_timeout_pending = False\<rparr>),
     dev_empty_vm_pd = 0x1000, dev_dlbu_dma = 0, dev_sched_timeout_ms = 0, dev_tasks = (\<lambda>_. None),
     bus_trace = [], bus_resp = rsp, bus_polls = (\<lambda>_. k), dev_request_irq = (\<lambda>_. 0)\<rparr>"

theorem poll_bounded_by_clock_witness:
  "\<exists>r d'. readl_poll_clock (\<lambda>j. of_nat j) 3 lima_ip_pmu LIMA_PMU_INT_RAWSTAT (\<lambda>v. v \<noteq> 0) 0
     (dev_demo (\<lambda>_ _. 0) 0) = Some (r, d')"
proof -
  have "time_after (of_nat 4) 3" "\<forall>j < 4. \<not> time_after (of_nat j) 3"
    by (auto simp: time_after_def eval_nat_numeral less_Suc_eq)
  from poll_bounded_by_clock [OF this] show ?thesis by blast
qed

end
