(* ===== verification/Lima_Blocks.thy ===== *)
theory Lima_Blocks
  imports Lima_Mmio Lima_Pagetable
begin

text \<open>
  The small IP blocks: the power unit (\<open>lima_pmu.c\<close>), the L2 caches (\<open>lima_l2_cache.c\<close>), the
  load balancer of the pixel processors (\<open>lima_dlbu.c\<close>) and the broadcast unit
  (\<open>lima_bcast.c\<close>).
\<close>

section \<open>Power unit\<close>

definition lima_pmu_wait_cmd :: "lima_ip_id \<Rightarrow> int hw" where
  "lima_pmu_wait_cmd ip = do {
     err \<leftarrow> readl_poll_timeout ip LIMA_PMU_INT_RAWSTAT (\<lambda>v. v AND LIMA_PMU_INT_CMD_MASK \<noteq> 0);
     if err \<noteq> 0 then returnM err
     else do { ip_write ip LIMA_PMU_INT_CLEAR LIMA_PMU_INT_CMD_MASK; returnM 0 }
   }"

definition lima_pmu_init :: "lima_ip_id \<Rightarrow> int hw" where
  "lima_pmu_init ip = do {
     ip_write ip LIMA_PMU_INT_MASK 0;
     ip_write ip LIMA_PMU_SW_DELAY 0xffff;
     stat \<leftarrow> ip_read ip LIMA_PMU_STATUS;
     if stat \<noteq> 0 then do {
       ip_write ip LIMA_PMU_POWER_UP stat;
       lima_pmu_wait_cmd ip
     } else returnM 0
   }"

definition lima_pmu_fini :: "lima_ip_id \<Rightarrow> unit hw" where
  "lima_pmu_fini ip = returnM ()"

section \<open>L2 cache\<close>

definition lima_l2_cache_wait_idle :: "lima_ip_id \<Rightarrow> int hw" where
  "lima_l2_cache_wait_idle ip =
     readl_poll_timeout ip LIMA_L2_CACHE_STATUS (\<lambda>v. v AND LIMA_L2_CACHE_STATUS_COMMAND_BUSY = 0)"

definition lima_l2_cache_flush :: "lima_ip_id \<Rightarrow> int hw" where
  "lima_l2_cache_flush ip = do {
     ip_write ip LIMA_L2_CACHE_COMMAND LIMA_L2_CACHE_COMMAND_CLEAR_ALL;
     lima_l2_cache_wait_idle ip
   }"

text \<open>The size register is read for a message only.\<close>

definition lima_l2_cache_init :: "lima_ip_id \<Rightarrow> int hw" where
  "lima_l2_cache_init ip = do {
     pps \<leftarrow> gets (\<lambda>d. \<exists>i \<in> {lima_ip_pp4, lima_ip_pp5, lima_ip_pp6, lima_ip_pp7}. ip_present (dev_ip d i));
     if ip = lima_ip_l2_cache2 \<and> \<not> pps then returnM (- ENODEV)
     else do {
       _ \<leftarrow> ip_read ip LIMA_L2_CACHE_SIZE;
       err \<leftarrow> lima_l2_cache_flush ip;
       if err \<noteq> 0 then returnM err
       else do {
         ip_write ip LIMA_L2_CACHE_ENABLE
           (LIMA_L2_CACHE_ENABLE_ACCESS OR LIMA_L2_CACHE_ENABLE_READ_ALLOCATE);
         ip_write ip LIMA_L2_CACHE_MAX_READS 0x1c;
         returnM 0
       }
     }
   }"

definition lima_l2_cache_fini :: "lima_ip_id \<Rightarrow> unit hw" where
  "lima_l2_cache_fini ip = returnM ()"

section \<open>Load balancer and broadcast unit\<close>

text \<open>
  The processor masks: bit \<open>k\<close> for processor \<open>k\<close>. \<open>or_bits f is\<close> is the loop
  \<open>mask |= 1 << f(i)\<close>, started from \<open>m\<close>.
\<close>

definition or_bits :: "('i \<Rightarrow> nat) \<Rightarrow> 'i list \<Rightarrow> u32 \<Rightarrow> u32" where
  "or_bits f is m = fold (\<lambda>i m. m OR BIT (f i)) is m"

definition pp_mask :: "lima_device \<Rightarrow> nat \<Rightarrow> u32 \<Rightarrow> u32" where
  "pp_mask d num_pp m =
     or_bits (\<lambda>i. pp_index (p_processor (dev_pipe d lima_pipe_pp) ! i)) [0..<num_pp] m"

definition lima_dlbu_enable :: "nat \<Rightarrow> unit hw" where
  "lima_dlbu_enable num_pp = do {
     mask \<leftarrow> gets (\<lambda>d. pp_mask d num_pp 0);
     ip_write lima_ip_dlbu LIMA_DLBU_PP_ENABLE_MASK mask
   }"

definition lima_dlbu_disable :: "unit hw" where
  "lima_dlbu_disable = ip_write lima_ip_dlbu LIMA_DLBU_PP_ENABLE_MASK 0"

definition lima_dlbu_set_reg :: "lima_ip_id \<Rightarrow> u32 list \<Rightarrow> unit hw" where
  "lima_dlbu_set_reg ip reg = do {
     ip_write ip LIMA_DLBU_TLLIST_VBASEADDR (reg ! 0);
     ip_write ip LIMA_DLBU_FB_DIM (reg ! 1);
     ip_write ip LIMA_DLBU_TLLIST_CONF (reg ! 2);
     ip_write ip LIMA_DLBU_START_TILE_POS (reg ! 3)
   }"

definition lima_dlbu_init :: "lima_ip_id \<Rightarrow> int hw" where
  "lima_dlbu_init ip = do {
     dma \<leftarrow> gets dev_dlbu_dma;
     ip_write ip LIMA_DLBU_MASTER_TLLIST_PHYS_ADDR (dma OR 1);
     ip_write ip LIMA_DLBU_MASTER_TLLIST_VADDR (ucast LIMA_VA_RESERVE_DLBU);
     returnM 0
   }"

definition lima_dlbu_fini :: "lima_ip_id \<Rightarrow> unit hw" where
  "lima_dlbu_fini ip = returnM ()"

definition lima_bcast_enable :: "nat \<Rightarrow> unit hw" where
  "lima_bcast_enable num_pp = do {
     old \<leftarrow> ip_read lima_ip_bcast LIMA_BCAST_BROADCAST_MASK;
     mask \<leftarrow> gets (\<lambda>d. pp_mask d num_pp (old AND 0xffff0000));
     ip_write lima_ip_bcast LIMA_BCAST_BROADCAST_MASK mask
   }"

definition lima_bcast_init :: "lima_ip_id \<Rightarrow> int hw" where
  "lima_bcast_init ip = do {
     mask \<leftarrow> gets (\<lambda>d. or_bits pp_index (filter (\<lambda>i. ip_present (dev_ip d i)) lima_pps) 0);
     ip_write ip LIMA_BCAST_BROADCAST_MASK (push_bit 16 mask);
     ip_write ip LIMA_BCAST_INTERRUPT_MASK mask;
     returnM 0
   }"

definition lima_bcast_fini :: "lima_ip_id \<Rightarrow> unit hw" where
  "lima_bcast_fini ip = returnM ()"

section \<open>The processor masks\<close>

lemma bit_or_bits:
  "bit (or_bits f is m) n \<longleftrightarrow> bit m n \<or> n < 32 \<and> n \<in> f ` set is"
  by (induction "is" arbitrary: m) (auto simp: or_bits_def bit_or_iff bit_BIT_iff)

lemma pp_index_lt: "i \<in> set lima_pps \<Longrightarrow> pp_index i < 8"
  by (auto simp: lima_pps_def)

lemma pp_index_inj: "inj_on pp_index (set lima_pps)"
  by (auto simp: inj_on_def lima_pps_def)

lemma bit_pp_mask:
  assumes "n \<le> length (p_processor (dev_pipe d lima_pipe_pp))"
    and "set (p_processor (dev_pipe d lima_pipe_pp)) \<subseteq> set lima_pps"
  shows "bit (pp_mask d n m) k \<longleftrightarrow> bit m k \<or> k \<in> pp_index ` set (take n (p_processor (dev_pipe d lima_pipe_pp)))"
proof -
  let ?ps = "p_processor (dev_pipe d lima_pipe_pp)"
  have t: "map ((!) ?ps) [0..<n] = take n ?ps"
    using assms(1) by (simp add: take_map [symmetric] map_nth list_eq_iff_nth_eq)
  have "pp_mask d n m = or_bits pp_index (take n ?ps) m"
    unfolding pp_mask_def or_bits_def t [symmetric] by (simp add: fold_map comp_def)
  moreover have "pp_index i < 32" if "i \<in> set (take n ?ps)" for i
    using that assms(2) set_take_subset [of n ?ps] pp_index_lt [of i] by fastforce
  ultimately show ?thesis by (auto simp: bit_or_bits)
qed

end
