(* ===== verification/Lima_Gp.thy ===== *)
theory Lima_Gp
  imports Lima_Blocks
begin

text \<open>
  The geometry processor, \<open>lima_gp.c\<close>: validation and start of a task, interrupt handling and
  the two resets; and the scheduler's completion call \<open>lima_sched_pipe_task_done\<close> of
  \<open>lima_sched.c\<close>, which the interrupt handlers of both pipes make.
\<close>

section \<open>Completion\<close>

definition lima_sched_pipe_task_done :: "lima_pipe_id \<Rightarrow> unit hw" where
  "lima_sched_pipe_task_done p = modify (\<lambda>d. pipe_upd p (\<lambda>x.
     (if dev_sched_timeout_ms d > 0 then x\<lparr>p_timeout_pending := False\<rparr> else x)\<lparr>p_done_pending := True\<rparr>) d)"

definition set_pipe_error :: "lima_pipe_id \<Rightarrow> unit hw" where
  "set_pipe_error p = modify (pipe_upd p (\<lambda>x. x\<lparr>p_error := True\<rparr>))"

definition set_async_reset :: "lima_ip_id \<Rightarrow> bool \<Rightarrow> unit hw" where
  "set_async_reset ip b = modify (ip_upd ip (\<lambda>x. x\<lparr>ip_async_reset := b\<rparr>))"

text \<open>The words of a task's frame, and a frame register by its offset.\<close>

definition task_frame :: "lima_device \<Rightarrow> nat \<Rightarrow> u32 list" where
  "task_frame d t = (case dev_tasks d t of None \<Rightarrow> [] | Some x \<Rightarrow> t_frame x)"

definition freg :: "u32 list \<Rightarrow> u32 \<Rightarrow> u32" where
  "freg f reg = f ! unat (drop_bit 2 reg)"

section \<open>Interrupts\<close>

definition lima_gp_irq_handler :: "lima_ip_id \<Rightarrow> irqreturn_t hw" where
  "lima_gp_irq_handler ip = do {
     stat \<leftarrow> ip_read ip LIMA_GP_INT_STAT;
     status \<leftarrow> ip_read ip LIMA_GP_STATUS;
     if stat = 0 then returnM IRQ_NONE
     else do {
       finished \<leftarrow> (if stat AND LIMA_GP_IRQ_MASK_ERROR \<noteq> 0 then do {
           ip_write ip LIMA_GP_INT_MASK 0;
           set_pipe_error lima_pipe_gp;
           returnM True
         } else do {
           let valid = (stat AND (LIMA_GP_IRQ_VS_END_CMD_LST OR LIMA_GP_IRQ_PLBU_END_CMD_LST) \<noteq> 0);
           let active = (status AND (LIMA_GP_STATUS_VS_ACTIVE OR LIMA_GP_STATUS_PLBU_ACTIVE) \<noteq> 0);
           returnM (valid \<and> \<not> active)
         });
       ip_write ip LIMA_GP_INT_CLEAR stat;
       whenM finished (lima_sched_pipe_task_done lima_pipe_gp);
       returnM IRQ_HANDLED
     }
   }"

section \<open>Soft reset\<close>

definition lima_gp_soft_reset_async :: "lima_ip_id \<Rightarrow> unit hw" where
  "lima_gp_soft_reset_async ip = do {
     b \<leftarrow> gets (\<lambda>d. ip_async_reset (dev_ip d ip));
     if b then returnM ()
     else do {
       ip_write ip LIMA_GP_INT_MASK 0;
       ip_write ip LIMA_GP_INT_CLEAR LIMA_GP_IRQ_RESET_COMPLETED;
       ip_write ip LIMA_GP_CMD LIMA_GP_CMD_SOFT_RESET;
       set_async_reset ip True
     }
   }"

definition lima_gp_soft_reset_async_wait :: "lima_ip_id \<Rightarrow> int hw" where
  "lima_gp_soft_reset_async_wait ip = do {
     b \<leftarrow> gets (\<lambda>d. ip_async_reset (dev_ip d ip));
     if \<not> b then returnM 0
     else do {
       err \<leftarrow> readl_poll_timeout ip LIMA_GP_INT_RAWSTAT (\<lambda>v. v AND LIMA_GP_IRQ_RESET_COMPLETED \<noteq> 0);
       if err \<noteq> 0 then returnM err
       else do {
         ip_write ip LIMA_GP_INT_CLEAR LIMA_GP_IRQ_MASK_ALL;
         ip_write ip LIMA_GP_INT_MASK LIMA_GP_IRQ_MASK_USED;
         set_async_reset ip False;
         returnM 0
       }
     }
   }"

section \<open>Tasks\<close>

definition lima_gp_task_validate :: "u32 list \<Rightarrow> int" where
  "lima_gp_task_validate f =
     (if freg f LIMA_GP_VSCL_START_ADDR > freg f LIMA_GP_VSCL_END_ADDR \<or>
         freg f LIMA_GP_PLBUCL_START_ADDR > freg f LIMA_GP_PLBUCL_END_ADDR \<or>
         freg f LIMA_GP_PLBU_ALLOC_START_ADDR > freg f LIMA_GP_PLBU_ALLOC_END_ADDR
      then - EINVAL
      else if freg f LIMA_GP_VSCL_START_ADDR = freg f LIMA_GP_VSCL_END_ADDR \<and>
         freg f LIMA_GP_PLBUCL_START_ADDR = freg f LIMA_GP_PLBUCL_END_ADDR
      then - EINVAL
      else 0)"

definition lima_gp_cmd :: "u32 list \<Rightarrow> u32" where
  "lima_gp_cmd f =
     (if freg f LIMA_GP_VSCL_START_ADDR \<noteq> freg f LIMA_GP_VSCL_END_ADDR then LIMA_GP_CMD_START_VS else 0) OR
     (if freg f LIMA_GP_PLBUCL_START_ADDR \<noteq> freg f LIMA_GP_PLBUCL_END_ADDR then LIMA_GP_CMD_START_PLBU else 0)"

text \<open>\<open>pipe->processor[0]\<close> of the geometry pipe.\<close>

definition gp_processor :: "lima_device \<Rightarrow> lima_ip_id" where
  "gp_processor d = p_processor (dev_pipe d lima_pipe_gp) ! 0"

definition lima_gp_task_run :: "nat \<Rightarrow> unit hw" where
  "lima_gp_task_run t = do {
     ip \<leftarrow> gets gp_processor;
     f \<leftarrow> gets (\<lambda>d. task_frame d t);
     _ \<leftarrow> lima_gp_soft_reset_async_wait ip;
     forM (\<lambda>i. ip_write ip (LIMA_GP_VSCL_START_ADDR + of_nat (i * 4)) (f ! i)) [0..<LIMA_GP_FRAME_REG_NUM];
     ip_write ip LIMA_GP_CMD LIMA_GP_CMD_UPDATE_PLBU_ALLOC;
     ip_write ip LIMA_GP_CMD (lima_gp_cmd f)
   }"

section \<open>Hard reset\<close>

definition lima_gp_hard_reset_poll :: "lima_ip_id \<Rightarrow> bool hw" where
  "lima_gp_hard_reset_poll ip = do {
     ip_write ip LIMA_GP_PERF_CNT_0_LIMIT 0xC01A0000;
     v \<leftarrow> ip_read ip LIMA_GP_PERF_CNT_0_LIMIT;
     returnM (v = 0xC01A0000)
   }"

definition lima_gp_hard_reset :: "lima_ip_id \<Rightarrow> int hw" where
  "lima_gp_hard_reset ip = do {
     ip_write ip LIMA_GP_PERF_CNT_0_LIMIT 0xC0FFE000;
     ip_write ip LIMA_GP_INT_MASK 0;
     ip_write ip LIMA_GP_CMD LIMA_GP_CMD_RESET;
     ret \<leftarrow> lima_poll_timeout (lima_gp_hard_reset_poll ip);
     if ret \<noteq> 0 then returnM ret
     else do {
       ip_write ip LIMA_GP_PERF_CNT_0_LIMIT 0;
       ip_write ip LIMA_GP_INT_CLEAR LIMA_GP_IRQ_MASK_ALL;
       ip_write ip LIMA_GP_INT_MASK LIMA_GP_IRQ_MASK_USED;
       returnM 0
     }
   }"

section \<open>Pipe operations\<close>

definition lima_gp_task_fini :: "unit hw" where
  "lima_gp_task_fini = do { ip \<leftarrow> gets gp_processor; lima_gp_soft_reset_async ip }"

text \<open>The two reads are for the message.\<close>

definition lima_gp_task_error :: "unit hw" where
  "lima_gp_task_error = do {
     ip \<leftarrow> gets gp_processor;
     _ \<leftarrow> ip_read ip LIMA_GP_INT_STAT;
     _ \<leftarrow> ip_read ip LIMA_GP_STATUS;
     _ \<leftarrow> lima_gp_hard_reset ip;
     returnM ()
   }"

definition lima_gp_task_mmu_error :: "unit hw" where
  "lima_gp_task_mmu_error = lima_sched_pipe_task_done lima_pipe_gp"

section \<open>Initialisation\<close>

definition gp_version_name :: "u32 \<Rightarrow> string" where
  "gp_version_name version = (let v = drop_bit 16 version in
     if v = 0xA07 then ''mali200'' else if v = 0xC07 then ''mali300''
     else if v = 0xB07 then ''mali400'' else if v = 0xD07 then ''mali450'' else ''unknown'')"

text \<open>\<open>lima_gp_print_version\<close>: the name, the major and the minor version it prints.\<close>

definition lima_gp_print_version :: "lima_ip_id \<Rightarrow> (string \<times> u32 \<times> u32) hw" where
  "lima_gp_print_version ip = do {
     version \<leftarrow> ip_read ip LIMA_GP_VERSION;
     returnM (gp_version_name version, drop_bit 8 version AND 0xFF, version AND 0xFF)
   }"

definition lima_gp_init :: "lima_ip_id \<Rightarrow> int hw" where
  "lima_gp_init ip = do {
     _ \<leftarrow> lima_gp_print_version ip;
     set_async_reset ip False;
     lima_gp_soft_reset_async ip;
     err \<leftarrow> lima_gp_soft_reset_async_wait ip;
     if err \<noteq> 0 then returnM err
     else do {
       err \<leftarrow> gets (\<lambda>d. dev_request_irq d ip);
       if err \<noteq> 0 then returnM err
       else do {
         v \<leftarrow> ip_read ip LIMA_GP_VERSION;
         modify (\<lambda>d. d\<lparr>dev_gp_version := v\<rparr>);
         returnM 0
       }
     }
   }"

definition lima_gp_fini :: "lima_ip_id \<Rightarrow> unit hw" where
  "lima_gp_fini ip = returnM ()"

text \<open>
  The task slab of a pipe, shared by all devices: whether it exists and how many pipes use it.
  \<open>ok\<close> says whether \<open>kmem_cache_create\<close> succeeds.
\<close>

record task_slab =
  ts_slab :: bool
  ts_refcnt :: nat

definition lima_gp_pipe_init :: "bool \<Rightarrow> task_slab \<Rightarrow> lima_device \<Rightarrow> int \<times> task_slab \<times> lima_device" where
  "lima_gp_pipe_init ok sl d =
     (if \<not> ts_slab sl \<and> \<not> ok then (- ENOMEM, sl, d)
      else (0, \<lparr>ts_slab = True, ts_refcnt = Suc (ts_refcnt sl)\<rparr>,
            pipe_upd lima_pipe_gp (\<lambda>x. x\<lparr>p_frame_size := sizeof_gp_frame\<rparr>) d))"

definition lima_gp_pipe_fini :: "task_slab \<Rightarrow> task_slab" where
  "lima_gp_pipe_fini sl =
     (let n = ts_refcnt sl - 1 in if n = 0 then \<lparr>ts_slab = False, ts_refcnt = 0\<rparr> else sl\<lparr>ts_refcnt := n\<rparr>)"

section \<open>What the operations do to the hardware\<close>

lemma ip_reg_async [simp]: "ip_reg (ip_upd i (\<lambda>x. x\<lparr>ip_async_reset := b\<rparr>) d) = ip_reg d"
  by (intro ip_reg_upd(2)) simp

lemma peek_upd [simp]:
  "peek (pipe_upd p g d) = peek d" "peek (ip_upd i (\<lambda>x. x\<lparr>ip_async_reset := b\<rparr>) d) = peek d"
  by (simp_all add: peek_def fun_eq_iff)

text \<open>
  Waiting for a soft reset that is in progress: the interrupts are set up again when it has
  completed, nothing is written when it has not.
\<close>

lemma gp_wait_spec:
  fixes d ip
  defines "d' \<equiv> exec (lima_gp_soft_reset_async_wait ip) d"
    and "r \<equiv> result (lima_gp_soft_reset_async_wait ip) d"
  shows "r \<in> {0, - ETIMEDOUT}"
    and "bus_writes d' = bus_writes d @
      (if ip_async_reset (dev_ip d ip) \<and> r = 0
       then [(ip_reg d ip LIMA_GP_INT_CLEAR, LIMA_GP_IRQ_MASK_ALL), (ip_reg d ip LIMA_GP_INT_MASK, LIMA_GP_IRQ_MASK_USED)]
       else [])"
    and "dev_tasks d' = dev_tasks d" "dev_pipe d' = dev_pipe d" "ip_reg d' = ip_reg d"
    and "dev_request_irq d' = dev_request_irq d"
    and "ip_async_reset (dev_ip d' ip) \<longleftrightarrow> ip_async_reset (dev_ip d ip) \<and> r \<noteq> 0"
proof -
  let ?poll = "readl_poll_timeout ip LIMA_GP_INT_RAWSTAT (\<lambda>v. v AND LIMA_GP_IRQ_RESET_COMPLETED \<noteq> 0)"
  note f = poll_timeout_frame [where d = d and i = ip and reg = LIMA_GP_INT_RAWSTAT and cond = "\<lambda>v. v AND LIMA_GP_IRQ_RESET_COMPLETED \<noteq> 0"]
  note g = io_only_frame [OF f(1)]
  show "r \<in> {0, - ETIMEDOUT}"
    using f(3) by (auto simp: r_def lima_gp_soft_reset_async_wait_def hw_simps set_async_reset_def)
  show "bus_writes d' = bus_writes d @
      (if ip_async_reset (dev_ip d ip) \<and> r = 0
       then [(ip_reg d ip LIMA_GP_INT_CLEAR, LIMA_GP_IRQ_MASK_ALL), (ip_reg d ip LIMA_GP_INT_MASK, LIMA_GP_IRQ_MASK_USED)]
       else [])"
    using f g by (auto simp: d'_def r_def lima_gp_soft_reset_async_wait_def hw_simps set_async_reset_def)
  show "dev_tasks d' = dev_tasks d" "dev_pipe d' = dev_pipe d" "ip_reg d' = ip_reg d"
    "dev_request_irq d' = dev_request_irq d"
    "ip_async_reset (dev_ip d' ip) \<longleftrightarrow> ip_async_reset (dev_ip d ip) \<and> r \<noteq> 0"
    using g by (auto simp: d'_def r_def lima_gp_soft_reset_async_wait_def hw_simps set_async_reset_def)
qed

text \<open>
  C17. A geometry task that passes validation is programmed completely and starts something:
  starting it writes its six frame registers in order to the registers from
  \<open>LIMA_GP_VSCL_START_ADDR\<close> on, then the two commands, the second of which starts the vertex
  shader exactly when the task has a vertex command list, the list builder exactly when it
  has a list-builder command list, and at least one of them. The only writes before are those
  that end a soft reset still pending.
\<close>

theorem gp_validated_task_starts:
  assumes valid: "lima_gp_task_validate (task_frame d t) = 0" and ip: "ip = gp_processor d"
  defines "f \<equiv> task_frame d t"
  shows "(\<exists>pre. set pre \<subseteq> {(ip_reg d ip LIMA_GP_INT_CLEAR, LIMA_GP_IRQ_MASK_ALL),
                           (ip_reg d ip LIMA_GP_INT_MASK, LIMA_GP_IRQ_MASK_USED)} \<and>
    (\<not> ip_async_reset (dev_ip d ip) \<longrightarrow> pre = []) \<and>
    bus_writes (exec (lima_gp_task_run t) d) = bus_writes d @ pre @
      map (\<lambda>i. (ip_reg d ip (LIMA_GP_VSCL_START_ADDR + of_nat (i * 4)), f ! i)) [0..<LIMA_GP_FRAME_REG_NUM] @
      [(ip_reg d ip LIMA_GP_CMD, LIMA_GP_CMD_UPDATE_PLBU_ALLOC), (ip_reg d ip LIMA_GP_CMD, lima_gp_cmd f)]) \<and>
    (lima_gp_cmd f \<noteq> 0) \<and>
    (lima_gp_cmd f AND LIMA_GP_CMD_START_VS \<noteq> 0 \<longleftrightarrow>
      freg f LIMA_GP_VSCL_START_ADDR < freg f LIMA_GP_VSCL_END_ADDR) \<and>
    (lima_gp_cmd f AND LIMA_GP_CMD_START_PLBU \<noteq> 0 \<longleftrightarrow>
      freg f LIMA_GP_PLBUCL_START_ADDR < freg f LIMA_GP_PLBUCL_END_ADDR)"
proof (intro conjI)
  let ?d = "exec (lima_gp_soft_reset_async_wait ip) d"
  let ?r = "result (lima_gp_soft_reset_async_wait ip) d"
  note w = gp_wait_spec [where d = d and ip = ip]
  let ?pre = "if ip_async_reset (dev_ip d ip) \<and> ?r = 0
       then [(ip_reg d ip LIMA_GP_INT_CLEAR, LIMA_GP_IRQ_MASK_ALL), (ip_reg d ip LIMA_GP_INT_MASK, LIMA_GP_IRQ_MASK_USED)]
       else []"
  have "bus_writes (exec (lima_gp_task_run t) d) = bus_writes d @ ?pre @
      map (\<lambda>i. (ip_reg d ip (LIMA_GP_VSCL_START_ADDR + of_nat (i * 4)), f ! i)) [0..<LIMA_GP_FRAME_REG_NUM] @
      [(ip_reg d ip LIMA_GP_CMD, LIMA_GP_CMD_UPDATE_PLBU_ALLOC), (ip_reg d ip LIMA_GP_CMD, lima_gp_cmd f)]"
    by (simp add: lima_gp_task_run_def hw_simps ip [symmetric] f_def [symmetric] writes_rev_map w
        io_only_frame [OF forM_writes_simps(2)] del: upt.simps)
  then show "\<exists>pre. set pre \<subseteq> {(ip_reg d ip LIMA_GP_INT_CLEAR, LIMA_GP_IRQ_MASK_ALL),
                           (ip_reg d ip LIMA_GP_INT_MASK, LIMA_GP_IRQ_MASK_USED)} \<and>
    (\<not> ip_async_reset (dev_ip d ip) \<longrightarrow> pre = []) \<and>
    bus_writes (exec (lima_gp_task_run t) d) = bus_writes d @ pre @
      map (\<lambda>i. (ip_reg d ip (LIMA_GP_VSCL_START_ADDR + of_nat (i * 4)), f ! i)) [0..<LIMA_GP_FRAME_REG_NUM] @
      [(ip_reg d ip LIMA_GP_CMD, LIMA_GP_CMD_UPDATE_PLBU_ALLOC), (ip_reg d ip LIMA_GP_CMD, lima_gp_cmd f)]"
    by (intro exI [of _ ?pre]) auto
  have le: "freg f LIMA_GP_VSCL_START_ADDR \<le> freg f LIMA_GP_VSCL_END_ADDR"
    "freg f LIMA_GP_PLBUCL_START_ADDR \<le> freg f LIMA_GP_PLBUCL_END_ADDR"
    "freg f LIMA_GP_VSCL_START_ADDR \<noteq> freg f LIMA_GP_VSCL_END_ADDR \<or>
     freg f LIMA_GP_PLBUCL_START_ADDR \<noteq> freg f LIMA_GP_PLBUCL_END_ADDR"
    using valid by (auto simp: lima_gp_task_validate_def f_def split: if_splits)
  then show "lima_gp_cmd f \<noteq> 0"
    by (auto simp: lima_gp_cmd_def LIMA_GP_CMD_START_VS_def LIMA_GP_CMD_START_PLBU_def BIT_def)
  show "lima_gp_cmd f AND LIMA_GP_CMD_START_VS \<noteq> 0 \<longleftrightarrow>
      freg f LIMA_GP_VSCL_START_ADDR < freg f LIMA_GP_VSCL_END_ADDR"
    using le by (auto simp: lima_gp_cmd_def LIMA_GP_CMD_START_VS_def LIMA_GP_CMD_START_PLBU_def BIT_def order_less_le)
  show "lima_gp_cmd f AND LIMA_GP_CMD_START_PLBU \<noteq> 0 \<longleftrightarrow>
      freg f LIMA_GP_PLBUCL_START_ADDR < freg f LIMA_GP_PLBUCL_END_ADDR"
    using le by (auto simp: lima_gp_cmd_def LIMA_GP_CMD_START_VS_def LIMA_GP_CMD_START_PLBU_def BIT_def order_less_le)
qed

text \<open>A task of one vertex command list and a list-builder list.\<close>

definition gp_demo :: lima_device where
  "gp_demo = (dev_demo (\<lambda>_ _. 0) 3)\<lparr>dev_tasks := (\<lambda>_. None)(7 := Some
     \<lparr>t_pipe = lima_pipe_gp, t_ctx = None, t_context = 0, t_vm = 0,
      t_frame = [0x1000, 0x1100, 0x2000, 0x2000, 0x3000, 0x4000], t_deps = [], t_deps_arr = None,
      t_bos = [], t_bos_arr = None, t_fence = 0\<rparr>)\<rparr>"

theorem gp_validated_task_starts_witness:
  "lima_gp_task_validate (task_frame gp_demo 7) = 0 \<and> lima_gp_cmd (task_frame gp_demo 7) \<noteq> 0"
proof -
  have "lima_gp_task_validate (task_frame gp_demo 7) = 0"
    by (simp add: lima_gp_task_validate_def task_frame_def gp_demo_def freg_def regs)
  with gp_validated_task_starts [OF this refl] show ?thesis by simp
qed

text \<open>
  The geometry interrupt handler reports completion exactly when the task is over: with
  no interrupt pending it touches nothing; otherwise it clears exactly the bits it saw,
  raises the pipe's error flag exactly when one of them is an error (and then masks all
  interrupts first), and queues the completion work exactly when there is an error or when an
  end-of-list interrupt is pending and neither unit is active.
\<close>

lemma gp_irq_reports_completion:
  fixes d ip
  defines "stat \<equiv> peek d ip LIMA_GP_INT_STAT"
    and "status \<equiv> peek (log_io (Rd (ip_reg d ip LIMA_GP_INT_STAT) (peek d ip LIMA_GP_INT_STAT)) d) ip LIMA_GP_STATUS"
    and "d' \<equiv> exec (lima_gp_irq_handler ip) d"
    and "r \<equiv> result (lima_gp_irq_handler ip) d"
  defines "err \<equiv> stat AND LIMA_GP_IRQ_MASK_ERROR \<noteq> 0"
  shows "(r = IRQ_NONE \<longleftrightarrow> stat = 0) \<and>
    (bus_writes d' = bus_writes d @
      (if stat = 0 then [] else
        (if err then [(ip_reg d ip LIMA_GP_INT_MASK, 0)] else []) @ [(ip_reg d ip LIMA_GP_INT_CLEAR, stat)])) \<and>
    (p_error (dev_pipe d' lima_pipe_gp) \<longleftrightarrow> p_error (dev_pipe d lima_pipe_gp) \<or> err) \<and>
    (p_done_pending (dev_pipe d' lima_pipe_gp) \<longleftrightarrow> p_done_pending (dev_pipe d lima_pipe_gp) \<or> err \<or>
      (stat AND (LIMA_GP_IRQ_VS_END_CMD_LST OR LIMA_GP_IRQ_PLBU_END_CMD_LST) \<noteq> 0 \<and>
       status AND (LIMA_GP_STATUS_VS_ACTIVE OR LIMA_GP_STATUS_PLBU_ACTIVE) = 0)) \<and>
    (dev_pipe d' lima_pipe_pp = dev_pipe d lima_pipe_pp) \<and>
    (dev_tasks d' = dev_tasks d)"
  unfolding r_def d'_def err_def stat_def status_def
  by (auto simp: lima_gp_irq_handler_def hw_simps set_pipe_error_def lima_sched_pipe_task_done_def Let_def)

end
