(* ===== verification/Lima_Pp.thy ===== *)
theory Lima_Pp
  imports Lima_Gp
begin

text \<open>
  The pixel processors, \<open>lima_pp.c\<close>: tasks of one to eight processors, programmed one by one
  (Mali-400) or through the broadcast unit (Mali-450), their interrupts, and the count of
  processors that have not finished, which decides when the task has.
\<close>

section \<open>Completion counting\<close>

text \<open>\<open>atomic_dec_and_test(&pipe->task)\<close>, and the call it guards.\<close>

definition pp_task_dec :: "bool hw" where
  "pp_task_dec = do {
     modify (pipe_upd lima_pipe_pp (\<lambda>x. x\<lparr>p_task := p_task x - 1\<rparr>));
     gets (\<lambda>d. p_task (dev_pipe d lima_pipe_pp) = 0)
   }"

definition pp_task_dec_done :: "unit hw" where
  "pp_task_dec_done = do {
     z \<leftarrow> pp_task_dec;
     whenM z (lima_sched_pipe_task_done lima_pipe_pp)
   }"

section \<open>Interrupts\<close>

definition lima_pp_handle_irq :: "lima_ip_id \<Rightarrow> u32 \<Rightarrow> unit hw" where
  "lima_pp_handle_irq ip stat = do {
     whenM (stat AND LIMA_PP_IRQ_MASK_ERROR \<noteq> 0) (do {
       _ \<leftarrow> ip_read ip LIMA_PP_STATUS;
       set_pipe_error lima_pipe_pp;
       ip_write ip LIMA_PP_INT_MASK 0
     });
     ip_write ip LIMA_PP_INT_CLEAR stat
   }"

definition lima_pp_irq_handler :: "lima_ip_id \<Rightarrow> irqreturn_t hw" where
  "lima_pp_irq_handler ip = do {
     stat \<leftarrow> ip_read ip LIMA_PP_INT_STATUS;
     if stat = 0 then returnM IRQ_NONE
     else do {
       lima_pp_handle_irq ip stat;
       pp_task_dec_done;
       returnM IRQ_HANDLED
     }
   }"

text \<open>\<open>pipe->processor[i]\<close> of the pixel pipe, and the typed views of a frame.\<close>

definition pp_processor :: "lima_device \<Rightarrow> nat \<Rightarrow> lima_ip_id" where
  "pp_processor d i = p_processor (dev_pipe d lima_pipe_pp) ! i"

abbreviation m400 :: "lima_device \<Rightarrow> nat \<Rightarrow> drm_lima_m400_pp_frame" where
  "m400 d t \<equiv> m400_frame_of_words (task_frame d t)"

abbreviation m450 :: "lima_device \<Rightarrow> nat \<Rightarrow> drm_lima_m450_pp_frame" where
  "m450 d t \<equiv> m450_frame_of_words (task_frame d t)"

text \<open>
  The loop of the broadcast handler. A processor already counted is skipped; the status is
  read before the interrupt state.
\<close>

fun pp_bcast_irq_loop :: "nat list \<Rightarrow> irqreturn_t \<Rightarrow> irqreturn_t hw" where
  "pp_bcast_irq_loop [] ret = returnM ret"
| "pp_bcast_irq_loop (i # is) ret = do {
     finished \<leftarrow> gets (\<lambda>d. bit (p_done (dev_pipe d lima_pipe_pp)) i);
     if finished then pp_bcast_irq_loop is ret
     else do {
       ip \<leftarrow> gets (\<lambda>d. pp_processor d i);
       status \<leftarrow> ip_read ip LIMA_PP_STATUS;
       stat \<leftarrow> ip_read ip LIMA_PP_INT_STATUS;
       if stat = 0 \<and> status AND LIMA_PP_STATUS_RENDERING_ACTIVE \<noteq> 0
       then pp_bcast_irq_loop is ret
       else do {
         whenM (stat \<noteq> 0) (lima_pp_handle_irq ip stat);
         modify (pipe_upd lima_pipe_pp (\<lambda>x. x\<lparr>p_done := p_done x OR BIT i\<rparr>));
         pp_task_dec_done;
         pp_bcast_irq_loop is (if stat \<noteq> 0 then IRQ_HANDLED else ret)
       }
     }
   }"

declare pp_bcast_irq_loop.simps [simp del]

text \<open>
  \<open>lima_pp_bcast_irq_handler\<close> dereferences \<open>pipe->current_task\<close> before it looks at any
  register: without a current task it does not return (\<open>None\<close>).
\<close>

definition lima_pp_bcast_irq_handler :: "irqreturn_t option hw" where
  "lima_pp_bcast_irq_handler = do {
     cur \<leftarrow> gets (\<lambda>d. p_current_task (dev_pipe d lima_pipe_pp));
     case cur of
       None \<Rightarrow> returnM None
     | Some t \<Rightarrow> do {
         n \<leftarrow> gets (\<lambda>d. m450_num_pp (m450 d t));
         r \<leftarrow> pp_bcast_irq_loop [0..<unat n] IRQ_NONE;
         returnM (Some r)
       }
   }"

section \<open>Soft reset\<close>

definition lima_pp_soft_reset_async :: "lima_ip_id \<Rightarrow> unit hw" where
  "lima_pp_soft_reset_async ip = do {
     b \<leftarrow> gets (\<lambda>d. ip_async_reset (dev_ip d ip));
     if b then returnM ()
     else do {
       ip_write ip LIMA_PP_INT_MASK 0;
       ip_write ip LIMA_PP_INT_RAWSTAT LIMA_PP_IRQ_MASK_ALL;
       ip_write ip LIMA_PP_CTRL LIMA_PP_CTRL_SOFT_RESET;
       set_async_reset ip True
     }
   }"

text \<open>The second read is made only when the first condition holds.\<close>

definition lima_pp_soft_reset_poll :: "lima_ip_id \<Rightarrow> bool hw" where
  "lima_pp_soft_reset_poll ip = do {
     status \<leftarrow> ip_read ip LIMA_PP_STATUS;
     if status AND LIMA_PP_STATUS_RENDERING_ACTIVE \<noteq> 0 then returnM False
     else do {
       raw \<leftarrow> ip_read ip LIMA_PP_INT_RAWSTAT;
       returnM (raw = LIMA_PP_IRQ_RESET_COMPLETED)
     }
   }"

definition lima_pp_soft_reset_async_wait_one :: "lima_ip_id \<Rightarrow> int hw" where
  "lima_pp_soft_reset_async_wait_one ip = do {
     ret \<leftarrow> lima_poll_timeout (lima_pp_soft_reset_poll ip);
     if ret \<noteq> 0 then returnM ret
     else do {
       ip_write ip LIMA_PP_INT_CLEAR LIMA_PP_IRQ_MASK_ALL;
       ip_write ip LIMA_PP_INT_MASK LIMA_PP_IRQ_MASK_USED;
       returnM 0
     }
   }"

text \<open>The loop \<open>err |= wait_one(...)\<close> over the processors of the current task.\<close>

fun pp_wait_all :: "lima_ip_id list \<Rightarrow> int \<Rightarrow> int hw" where
  "pp_wait_all [] err = returnM err"
| "pp_wait_all (ip # ips) err = do {
     e \<leftarrow> lima_pp_soft_reset_async_wait_one ip;
     pp_wait_all ips (err OR e)
   }"

definition lima_pp_soft_reset_async_wait :: "lima_ip_id \<Rightarrow> int hw" where
  "lima_pp_soft_reset_async_wait ip = do {
     b \<leftarrow> gets (\<lambda>d. ip_async_reset (dev_ip d ip));
     if \<not> b then returnM 0
     else do {
       ips \<leftarrow> gets (\<lambda>d. if ip = lima_ip_pp_bcast
           then (case p_current_task (dev_pipe d lima_pipe_pp) of
               None \<Rightarrow> []
             | Some t \<Rightarrow> map (pp_processor d) [0..<unat (m450_num_pp (m450 d t))])
           else [ip]);
       err \<leftarrow> pp_wait_all ips 0;
       set_async_reset ip False;
       returnM err
     }
   }"

section \<open>Tasks\<close>

definition lima_pp_write_frame :: "lima_ip_id \<Rightarrow> u32 list \<Rightarrow> u32 list \<Rightarrow> unit hw" where
  "lima_pp_write_frame ip frame wb = do {
     forM (\<lambda>i. ip_write ip (LIMA_PP_FRAME + of_nat (i * 4)) (frame ! i)) [0..<LIMA_PP_FRAME_REG_NUM];
     forM (\<lambda>(i, j). ip_write ip (LIMA_PP_WB (of_nat i) + of_nat (j * 4)) (wb ! (i * LIMA_PP_WB_REG_NUM + j)))
       (List.product [0..<3] [0..<LIMA_PP_WB_REG_NUM])
   }"

definition lima_pp_task_validate :: "lima_sched_pipe \<Rightarrow> u32 list \<Rightarrow> int" where
  "lima_pp_task_validate pipe f =
     (let num_pp = (if p_bcast_processor pipe \<noteq> None then m450_num_pp (m450_frame_of_words f)
                    else m400_num_pp (m400_frame_of_words f)) in
      if p_bcast_processor pipe \<noteq> None \<and> m450_pad (m450_frame_of_words f) \<noteq> 0 then - EINVAL
      else if num_pp = 0 \<or> unat num_pp > length (p_processor pipe) then - EINVAL
      else 0)"

text \<open>\<open>frame->frame[reg >> 2] = v\<close>: the frame lives in the task.\<close>

definition frame_write :: "nat \<Rightarrow> u32 \<Rightarrow> u32 \<Rightarrow> unit hw" where
  "frame_write t reg v = modify (\<lambda>d. d\<lparr>dev_tasks := (dev_tasks d)(t :=
     map_option (\<lambda>x. x\<lparr>t_frame := (t_frame x)[unat (drop_bit 2 reg) := v]\<rparr>) (dev_tasks d t))\<rparr>)"

definition set_pp_task :: "u32 \<Rightarrow> unit hw" where
  "set_pp_task n = modify (pipe_upd lima_pipe_pp (\<lambda>x. x\<lparr>p_task := int (unat n)\<rparr>))"

text \<open>One processor of a Mali-400 task.\<close>

definition pp_run_one :: "nat \<Rightarrow> nat \<Rightarrow> unit hw" where
  "pp_run_one t i = do {
     ip \<leftarrow> gets (\<lambda>d. pp_processor d i);
     f \<leftarrow> gets (\<lambda>d. m400 d t);
     frame_write t LIMA_PP_FRAME (m400_plbu_array_address f ! i);
     frame_write t LIMA_PP_STACK (m400_fragment_stack_address f ! i);
     _ \<leftarrow> lima_pp_soft_reset_async_wait ip;
     f \<leftarrow> gets (\<lambda>d. m400 d t);
     lima_pp_write_frame ip (m400_frame f) (m400_wb f);
     ip_write ip LIMA_PP_CTRL LIMA_PP_CTRL_START_RENDERING
   }"

text \<open>The per-processor registers of a Mali-450 task.\<close>

definition pp_bcast_one :: "drm_lima_m450_pp_frame \<Rightarrow> nat \<Rightarrow> unit hw" where
  "pp_bcast_one f i = do {
     ip \<leftarrow> gets (\<lambda>d. pp_processor d i);
     ip_write ip LIMA_PP_STACK (m450_fragment_stack_address f ! i);
     whenM (m450_use_dlbu f = 0) (ip_write ip LIMA_PP_FRAME (m450_plbu_array_address f ! i))
   }"

definition lima_pp_task_run :: "nat \<Rightarrow> unit hw" where
  "lima_pp_task_run t = do {
     bcast \<leftarrow> gets (\<lambda>d. p_bcast_processor (dev_pipe d lima_pipe_pp));
     case bcast of
       Some ip \<Rightarrow> do {
         f \<leftarrow> gets (\<lambda>d. m450 d t);
         modify (pipe_upd lima_pipe_pp (\<lambda>x. x\<lparr>p_done := 0\<rparr>));
         set_pp_task (m450_num_pp f);
         (if m450_use_dlbu f \<noteq> 0 then do {
            lima_dlbu_enable (unat (m450_num_pp f));
            frame_write t LIMA_PP_FRAME (ucast LIMA_VA_RESERVE_DLBU);
            lima_dlbu_set_reg lima_ip_dlbu (m450_dlbu_regs f)
          } else lima_dlbu_disable);
         lima_bcast_enable (unat (m450_num_pp f));
         _ \<leftarrow> lima_pp_soft_reset_async_wait ip;
         f \<leftarrow> gets (\<lambda>d. m450 d t);
         lima_pp_write_frame ip (m450_frame f) (m450_wb f);
         forM (pp_bcast_one f) [0..<unat (m450_num_pp f)];
         ip_write ip LIMA_PP_CTRL LIMA_PP_CTRL_START_RENDERING
       }
     | None \<Rightarrow> do {
         f \<leftarrow> gets (\<lambda>d. m400 d t);
         set_pp_task (m400_num_pp f);
         forM (pp_run_one t) [0..<unat (m400_num_pp f)]
       }
   }"

definition lima_pp_task_fini :: "unit hw" where
  "lima_pp_task_fini = do {
     bcast \<leftarrow> gets (\<lambda>d. p_bcast_processor (dev_pipe d lima_pipe_pp));
     case bcast of
       Some ip \<Rightarrow> lima_pp_soft_reset_async ip
     | None \<Rightarrow> do {
         ips \<leftarrow> gets (\<lambda>d. p_processor (dev_pipe d lima_pipe_pp));
         forM lima_pp_soft_reset_async ips
       }
   }"

section \<open>Hard reset\<close>

definition lima_pp_hard_reset_poll :: "lima_ip_id \<Rightarrow> bool hw" where
  "lima_pp_hard_reset_poll ip = do {
     ip_write ip LIMA_PP_PERF_CNT_0_LIMIT 0xC01A0000;
     v \<leftarrow> ip_read ip LIMA_PP_PERF_CNT_0_LIMIT;
     returnM (v = 0xC01A0000)
   }"

definition lima_pp_hard_reset :: "lima_ip_id \<Rightarrow> int hw" where
  "lima_pp_hard_reset ip = do {
     ip_write ip LIMA_PP_PERF_CNT_0_LIMIT 0xC0FFE000;
     ip_write ip LIMA_PP_INT_MASK 0;
     ip_write ip LIMA_PP_CTRL LIMA_PP_CTRL_FORCE_RESET;
     ret \<leftarrow> lima_poll_timeout (lima_pp_hard_reset_poll ip);
     if ret \<noteq> 0 then returnM ret
     else do {
       ip_write ip LIMA_PP_PERF_CNT_0_LIMIT 0;
       ip_write ip LIMA_PP_INT_CLEAR LIMA_PP_IRQ_MASK_ALL;
       ip_write ip LIMA_PP_INT_MASK LIMA_PP_IRQ_MASK_USED;
       returnM 0
     }
   }"

definition pp_error_one :: "lima_ip_id \<Rightarrow> unit hw" where
  "pp_error_one ip = do {
     _ \<leftarrow> ip_read ip LIMA_PP_INT_STATUS;
     _ \<leftarrow> ip_read ip LIMA_PP_STATUS;
     _ \<leftarrow> lima_pp_hard_reset ip;
     returnM ()
   }"

definition lima_pp_task_error :: "unit hw" where
  "lima_pp_task_error = do {
     ips \<leftarrow> gets (\<lambda>d. p_processor (dev_pipe d lima_pipe_pp));
     forM pp_error_one ips
   }"

definition lima_pp_task_mmu_error :: "unit hw" where
  "lima_pp_task_mmu_error = pp_task_dec_done"

section \<open>Initialisation\<close>

definition pp_version_name :: "u32 \<Rightarrow> string" where
  "pp_version_name version = (let v = drop_bit 16 version in
     if v = 0xC807 then ''mali200'' else if v = 0xCE07 then ''mali300''
     else if v = 0xCD07 then ''mali400'' else if v = 0xCF07 then ''mali450'' else ''unknown'')"

definition lima_pp_print_version :: "lima_ip_id \<Rightarrow> (string \<times> u32 \<times> u32) hw" where
  "lima_pp_print_version ip = do {
     version \<leftarrow> ip_read ip LIMA_PP_VERSION;
     returnM (pp_version_name version, drop_bit 8 version AND 0xFF, version AND 0xFF)
   }"

definition lima_pp_init :: "lima_ip_id \<Rightarrow> int hw" where
  "lima_pp_init ip = do {
     _ \<leftarrow> lima_pp_print_version ip;
     set_async_reset ip False;
     lima_pp_soft_reset_async ip;
     err \<leftarrow> lima_pp_soft_reset_async_wait ip;
     if err \<noteq> 0 then returnM err
     else do {
       err \<leftarrow> gets (\<lambda>d. dev_request_irq d ip);
       if err \<noteq> 0 then returnM err
       else do {
         v \<leftarrow> ip_read ip LIMA_PP_VERSION;
         modify (\<lambda>d. d\<lparr>dev_pp_version := v\<rparr>);
         returnM 0
       }
     }
   }"

definition lima_pp_fini :: "lima_ip_id \<Rightarrow> unit hw" where
  "lima_pp_fini ip = returnM ()"

definition lima_pp_bcast_init :: "lima_ip_id \<Rightarrow> int hw" where
  "lima_pp_bcast_init ip = gets (\<lambda>d. dev_request_irq d ip)"

definition lima_pp_bcast_fini :: "lima_ip_id \<Rightarrow> unit hw" where
  "lima_pp_bcast_fini ip = returnM ()"

definition lima_pp_pipe_init :: "bool \<Rightarrow> task_slab \<Rightarrow> lima_device \<Rightarrow> int \<times> task_slab \<times> lima_device" where
  "lima_pp_pipe_init ok sl d =
     (let frame_size = (case dev_id d of lima_gpu_mali400 \<Rightarrow> sizeof_m400_pp_frame
                        | lima_gpu_mali450 \<Rightarrow> sizeof_m450_pp_frame) in
      if \<not> ts_slab sl \<and> \<not> ok then (- ENOMEM, sl, d)
      else (0, \<lparr>ts_slab = True, ts_refcnt = Suc (ts_refcnt sl)\<rparr>,
            pipe_upd lima_pipe_pp (\<lambda>x. x\<lparr>p_frame_size := frame_size\<rparr>) d))"

definition lima_pp_pipe_fini :: "task_slab \<Rightarrow> task_slab" where
  "lima_pp_pipe_fini sl =
     (let n = ts_refcnt sl - 1 in if n = 0 then \<lparr>ts_slab = False, ts_refcnt = 0\<rparr> else sl\<lparr>ts_refcnt := n\<rparr>)"

section \<open>Counting the processors of a broadcast task\<close>

text \<open>
  The processors of an \<open>n\<close>-processor task that have been counted, and the invariant between
  the mask \<open>done\<close> and the counter \<open>task\<close> that \<open>lima_pp_task_run\<close> establishes.
\<close>

definition pp_counted :: "nat \<Rightarrow> lima_device \<Rightarrow> nat set" where
  "pp_counted n d = {i. i < n \<and> bit (p_done (dev_pipe d lima_pipe_pp)) i}"

definition pp_count_inv :: "nat \<Rightarrow> lima_device \<Rightarrow> bool" where
  "pp_count_inv n d \<longleftrightarrow> p_task (dev_pipe d lima_pipe_pp) = int n - int (card (pp_counted n d))"

text \<open>
  What a step of the handler may do: count more processors, each once, and queue the
  completion work exactly when the last one is counted.
\<close>

definition pp_count_step :: "nat \<Rightarrow> lima_device \<Rightarrow> lima_device \<Rightarrow> bool" where
  "pp_count_step n d d' \<longleftrightarrow> pp_count_inv n d' \<and> pp_counted n d \<subseteq> pp_counted n d' \<and>
     dev_tasks d' = dev_tasks d \<and> dev_pipe d' lima_pipe_gp = dev_pipe d lima_pipe_gp \<and>
     p_current_task (dev_pipe d' lima_pipe_pp) = p_current_task (dev_pipe d lima_pipe_pp) \<and>
     p_processor (dev_pipe d' lima_pipe_pp) = p_processor (dev_pipe d lima_pipe_pp) \<and>
     (p_done_pending (dev_pipe d' lima_pipe_pp) \<longleftrightarrow> p_done_pending (dev_pipe d lima_pipe_pp) \<or>
        (pp_counted n d \<noteq> {..<n} \<and> pp_counted n d' = {..<n}))"

lemma pp_counted_full: "pp_counted n d \<subseteq> {..<n}" "finite (pp_counted n d)"
  by (auto simp: pp_counted_def)

lemma pp_count_zero:
  assumes "pp_count_inv n d"
  shows "p_task (dev_pipe d lima_pipe_pp) = 0 \<longleftrightarrow> pp_counted n d = {..<n}"
proof -
  have "p_task (dev_pipe d lima_pipe_pp) = 0 \<longleftrightarrow> card (pp_counted n d) = n"
    using assms by (auto simp: pp_count_inv_def)
  also have "\<dots> \<longleftrightarrow> pp_counted n d = {..<n}"
  proof
    assume "card (pp_counted n d) = n"
    then show "pp_counted n d = {..<n}"
      by (intro card_subset_eq) (simp_all add: pp_counted_full)
  qed simp
  finally show ?thesis .
qed

lemma pp_count_step_refl: "pp_count_inv n d \<Longrightarrow> pp_count_step n d d"
  unfolding pp_count_step_def by blast

lemma pp_count_step_trans:
  assumes ab: "pp_count_step n a b" and bc: "pp_count_step n b c"
  shows "pp_count_step n a c"
proof -
  let ?N = "{..<n}"
  have s: "pp_counted n a \<subseteq> pp_counted n b" "pp_counted n b \<subseteq> pp_counted n c" "pp_counted n c \<subseteq> ?N"
    using ab bc pp_counted_full(1) unfolding pp_count_step_def by blast+
  then have "(pp_counted n a \<noteq> ?N \<and> pp_counted n b = ?N) \<or> (pp_counted n b \<noteq> ?N \<and> pp_counted n c = ?N) \<longleftrightarrow>
      pp_counted n a \<noteq> ?N \<and> pp_counted n c = ?N"
    by blast
  then show ?thesis using ab bc s unfolding pp_count_step_def by simp
qed

text \<open>Steps that leave the counter and the mask alone.\<close>

lemma pp_count_step_same:
  assumes inv: "pp_count_inv n d" and "dev_tasks d' = dev_tasks d" "dev_pipe d' lima_pipe_gp = dev_pipe d lima_pipe_gp"
    and e: "\<exists>b. dev_pipe d' lima_pipe_pp = (dev_pipe d lima_pipe_pp)\<lparr>p_error := b\<rparr>"
  shows "pp_count_step n d d'"
proof -
  from e obtain b where p: "dev_pipe d' lima_pipe_pp = (dev_pipe d lima_pipe_pp)\<lparr>p_error := b\<rparr>" by blast
  then have "pp_counted n d' = pp_counted n d" by (simp add: pp_counted_def)
  with inv assms(2,3) p show ?thesis unfolding pp_count_step_def pp_count_inv_def by simp
qed

lemma handle_irq_pipe:
  "dev_tasks (exec (lima_pp_handle_irq ip s) d) = dev_tasks d"
  "dev_pipe (exec (lima_pp_handle_irq ip s) d) lima_pipe_gp = dev_pipe d lima_pipe_gp"
  "\<exists>b. dev_pipe (exec (lima_pp_handle_irq ip s) d) lima_pipe_pp = (dev_pipe d lima_pipe_pp)\<lparr>p_error := b\<rparr>"
  by (auto simp: lima_pp_handle_irq_def hw_simps set_pipe_error_def intro: exI [of _ True] exI [of _ "p_error (dev_pipe d lima_pipe_pp)"])

text \<open>Counting processor \<open>i\<close>: the assignment to \<open>done\<close> and the decrement.\<close>

definition pp_count_one :: "nat \<Rightarrow> unit hw" where
  "pp_count_one i = do {
     modify (pipe_upd lima_pipe_pp (\<lambda>x. x\<lparr>p_done := p_done x OR BIT i\<rparr>));
     pp_task_dec_done
   }"

lemma pp_count_one_step:
  assumes inv: "pp_count_inv n d" and i: "i < n" "n \<le> 32" "\<not> bit (p_done (dev_pipe d lima_pipe_pp)) i"
  shows "pp_count_step n d (exec (pp_count_one i) d)"
    and "pp_counted n (exec (pp_count_one i) d) = insert i (pp_counted n d)"
proof -
  let ?d = "exec (pp_count_one i) d"
  let ?p = "dev_pipe d lima_pipe_pp"
  have p: "p_done (dev_pipe ?d lima_pipe_pp) = p_done ?p OR BIT i"
    "p_task (dev_pipe ?d lima_pipe_pp) = p_task ?p - 1"
    "p_done_pending (dev_pipe ?d lima_pipe_pp) \<longleftrightarrow> p_done_pending ?p \<or> p_task ?p = 1"
    "dev_tasks ?d = dev_tasks d" "dev_pipe ?d lima_pipe_gp = dev_pipe d lima_pipe_gp"
    "p_current_task (dev_pipe ?d lima_pipe_pp) = p_current_task ?p"
    "p_processor (dev_pipe ?d lima_pipe_pp) = p_processor ?p"
    by (auto simp: pp_count_one_def pp_task_dec_done_def pp_task_dec_def lima_sched_pipe_task_done_def)
  show c: "pp_counted n ?d = insert i (pp_counted n d)"
    using i by (auto simp: pp_counted_def p(1) bit_or_iff bit_BIT_iff)
  have new: "i \<notin> pp_counted n d" using i by (simp add: pp_counted_def)
  then have inv': "pp_count_inv n ?d"
    using inv by (simp add: pp_count_inv_def c p(2) pp_counted_full)
  have "pp_counted n d \<noteq> {..<n}" using new i by auto
  moreover have "p_task ?p = 1 \<longleftrightarrow> pp_counted n ?d = {..<n}"
    using pp_count_zero [OF inv'] by (simp add: p(2))
  ultimately show "pp_count_step n d ?d"
    unfolding pp_count_step_def using inv' c p by auto
qed

lemma bcast_loop_cons:
  "run_state (pp_bcast_irq_loop (i # is) ret) d =
    (let ip = pp_processor d i;
         d1 = log_io (Rd (ip_reg d ip LIMA_PP_STATUS) (peek d ip LIMA_PP_STATUS)) d;
         d2 = log_io (Rd (ip_reg d ip LIMA_PP_INT_STATUS) (peek d1 ip LIMA_PP_INT_STATUS)) d1;
         stat = peek d1 ip LIMA_PP_INT_STATUS
     in if bit (p_done (dev_pipe d lima_pipe_pp)) i then run_state (pp_bcast_irq_loop is ret) d
        else if stat = 0 \<and> peek d ip LIMA_PP_STATUS AND LIMA_PP_STATUS_RENDERING_ACTIVE \<noteq> 0
        then run_state (pp_bcast_irq_loop is ret) d2
        else run_state (pp_bcast_irq_loop is (if stat \<noteq> 0 then IRQ_HANDLED else ret))
          (exec (pp_count_one i) (exec (whenM (stat \<noteq> 0) (lima_pp_handle_irq ip stat)) d2)))"
  by (simp add: pp_bcast_irq_loop.simps hw_simps Let_def pp_count_one_def)

lemma bcast_loop_step:
  assumes "pp_count_inv n d" and "\<forall>i \<in> set is. i < n" and "n \<le> 32"
  shows "pp_count_step n d (exec (pp_bcast_irq_loop is ret) d)"
  using assms
proof (induction "is" arbitrary: d ret)
  case Nil
  then show ?case by (simp add: pp_bcast_irq_loop.simps pp_count_step_refl)
next
  case (Cons i "is")
  let ?ip = "pp_processor d i"
  let ?d1 = "log_io (Rd (ip_reg d ?ip LIMA_PP_STATUS) (peek d ?ip LIMA_PP_STATUS)) d"
  let ?stat = "peek ?d1 ?ip LIMA_PP_INT_STATUS"
  let ?d2 = "log_io (Rd (ip_reg d ?ip LIMA_PP_INT_STATUS) ?stat) ?d1"
  let ?d3 = "exec (whenM (?stat \<noteq> 0) (lima_pp_handle_irq ?ip ?stat)) ?d2"
  have IH: "pp_count_step n e (exec (pp_bcast_irq_loop is r) e)" if "pp_count_inv n e" for e r
    using Cons that by simp
  have s2: "pp_count_step n d ?d2"
    by (rule pp_count_step_same [OF Cons.prems(1)]) (auto intro: exI [of _ "p_error (dev_pipe d lima_pipe_pp)"])
  have s3: "pp_count_step n d ?d3" and done3: "p_done (dev_pipe ?d3 lima_pipe_pp) = p_done (dev_pipe d lima_pipe_pp)"
    using handle_irq_pipe [of ?ip ?stat ?d2] s2
    by (auto intro!: pp_count_step_same [OF Cons.prems(1)] intro: exI [of _ "p_error (dev_pipe d lima_pipe_pp)"])
  show ?case
  proof (cases "bit (p_done (dev_pipe d lima_pipe_pp)) i")
    case True
    then show ?thesis using IH [OF Cons.prems(1), of ret] by (simp add: bcast_loop_cons)
  next
    case False
    show ?thesis
    proof (cases "?stat = 0 \<and> peek d ?ip LIMA_PP_STATUS AND LIMA_PP_STATUS_RENDERING_ACTIVE \<noteq> 0")
      case True
      have "pp_count_inv n ?d2" using s2 by (simp add: pp_count_step_def)
      then show ?thesis
        using True False pp_count_step_trans [OF s2 IH] by (simp add: bcast_loop_cons Let_def)
    next
      case nskip: False
      have "pp_count_inv n ?d3" using s3 by (simp add: pp_count_step_def)
      then have s4: "pp_count_step n ?d3 (exec (pp_count_one i) ?d3)"
        using False Cons.prems done3 by (intro pp_count_one_step) simp_all
      then have "pp_count_inv n (exec (pp_count_one i) ?d3)" by (simp add: pp_count_step_def)
      from pp_count_step_trans [OF pp_count_step_trans [OF s3 s4] IH [OF this]]
      show ?thesis unfolding bcast_loop_cons Let_def by (simp only: False nskip if_False)
    qed
  qed
qed

text \<open>
  C13. The broadcast interrupt handler counts every processor of a Mali-450 task at most once,
  over any number of interrupts: the counter always equals the number of processors not yet
  marked in \<open>done\<close>, marks are never taken back, and the completion work is queued by exactly
  the interrupt that marks the last processor.
\<close>

theorem bcast_counts_each_processor_once:
  assumes cur: "p_current_task (dev_pipe d lima_pipe_pp) = Some t"
    and n: "n = unat (m450_num_pp (m450 d t))" "n \<le> 32"
    and inv: "p_task (dev_pipe d lima_pipe_pp) = int n - int (card (pp_counted n d))"
  defines "d' \<equiv> exec lima_pp_bcast_irq_handler d"
  shows "(result lima_pp_bcast_irq_handler d \<noteq> None) \<and>
    (p_task (dev_pipe d' lima_pipe_pp) = int n - int (card (pp_counted n d'))) \<and>
    (pp_counted n d \<subseteq> pp_counted n d') \<and>
    (p_done_pending (dev_pipe d' lima_pipe_pp) \<longleftrightarrow> p_done_pending (dev_pipe d lima_pipe_pp) \<or>
        (pp_counted n d \<noteq> {..<n} \<and> pp_counted n d' = {..<n}))"
proof (intro conjI)
  have d': "d' = exec (pp_bcast_irq_loop [0..<n] IRQ_NONE) d"
    by (simp add: d'_def lima_pp_bcast_irq_handler_def cur n(1))
  have "pp_count_step n d d'"
    unfolding d' using inv n(2) by (intro bcast_loop_step) (auto simp: pp_count_inv_def)
  then show "p_task (dev_pipe d' lima_pipe_pp) = int n - int (card (pp_counted n d'))"
    "pp_counted n d \<subseteq> pp_counted n d'"
    "p_done_pending (dev_pipe d' lima_pipe_pp) \<longleftrightarrow> p_done_pending (dev_pipe d lima_pipe_pp) \<or>
        (pp_counted n d \<noteq> {..<n} \<and> pp_counted n d' = {..<n})"
    by (simp_all add: pp_count_step_def pp_count_inv_def)
  show "result lima_pp_bcast_irq_handler d \<noteq> None"
    by (simp add: lima_pp_bcast_irq_handler_def cur)
qed

text \<open>Without a current task the handler dereferences a null pointer.\<close>

lemma bcast_irq_without_task:
  "p_current_task (dev_pipe d lima_pipe_pp) = None \<Longrightarrow> result lima_pp_bcast_irq_handler d = None"
  by (simp add: lima_pp_bcast_irq_handler_def)

text \<open>
  The interrupt handler of a single pixel processor: with no interrupt pending it changes
  nothing; otherwise it clears exactly the bits it saw, raises the error flag exactly on an
  error bit (and then masks the processor's interrupts first), takes one from the pipe's
  counter, and queues the completion work exactly when the counter reaches zero.
\<close>

lemma pp_irq_counts_down:
  fixes d ip
  defines "stat \<equiv> peek d ip LIMA_PP_INT_STATUS"
    and "d' \<equiv> exec (lima_pp_irq_handler ip) d"
    and "r \<equiv> result (lima_pp_irq_handler ip) d"
  defines "err \<equiv> stat AND LIMA_PP_IRQ_MASK_ERROR \<noteq> 0"
  shows "(r = IRQ_NONE \<longleftrightarrow> stat = 0) \<and>
    (bus_writes d' = bus_writes d @
      (if stat = 0 then [] else
        (if err then [(ip_reg d ip LIMA_PP_INT_MASK, 0)] else []) @ [(ip_reg d ip LIMA_PP_INT_CLEAR, stat)])) \<and>
    (p_error (dev_pipe d' lima_pipe_pp) \<longleftrightarrow> p_error (dev_pipe d lima_pipe_pp) \<or> err) \<and>
    (p_task (dev_pipe d' lima_pipe_pp) = p_task (dev_pipe d lima_pipe_pp) - (if stat = 0 then 0 else 1)) \<and>
    (p_done_pending (dev_pipe d' lima_pipe_pp) \<longleftrightarrow> p_done_pending (dev_pipe d lima_pipe_pp) \<or>
      (stat \<noteq> 0 \<and> p_task (dev_pipe d lima_pipe_pp) = 1))"
  unfolding r_def d'_def err_def stat_def
  by (auto simp: lima_pp_irq_handler_def hw_simps set_pipe_error_def lima_sched_pipe_task_done_def
      lima_pp_handle_irq_def pp_task_dec_done_def pp_task_dec_def)

section \<open>Starting a Mali-400 task\<close>

text \<open>The writes of \<open>lima_pp_write_frame\<close>.\<close>

definition pp_frame_writes :: "lima_device \<Rightarrow> lima_ip_id \<Rightarrow> u32 list \<Rightarrow> u32 list \<Rightarrow> (u32 \<times> u32) list" where
  "pp_frame_writes d ip frame wb =
     map (\<lambda>i. (ip_reg d ip (LIMA_PP_FRAME + of_nat (i * 4)), frame ! i)) [0..<LIMA_PP_FRAME_REG_NUM] @
     map (\<lambda>(i, j). (ip_reg d ip (LIMA_PP_WB (of_nat i) + of_nat (j * 4)), wb ! (i * LIMA_PP_WB_REG_NUM + j)))
       (List.product [0..<3] [0..<LIMA_PP_WB_REG_NUM])"

lemma split_lambda: "(\<lambda>(i, j). f i j) = (\<lambda>x. f (fst x) (snd x))"
  by (auto simp: fun_eq_iff)

lemma write_frame_spec:
  "bus_writes (exec (lima_pp_write_frame ip frame wb) d) = bus_writes d @ pp_frame_writes d ip frame wb"
  "io_only d (exec (lima_pp_write_frame ip frame wb) d)"
proof -
  let ?d = "exec (forM (\<lambda>i. ip_write ip (LIMA_PP_FRAME + of_nat (i * 4)) (frame ! i)) [0..<LIMA_PP_FRAME_REG_NUM]) d"
  have io: "io_only d ?d" by (rule forM_writes_simps(2))
  show "bus_writes (exec (lima_pp_write_frame ip frame wb) d) = bus_writes d @ pp_frame_writes d ip frame wb"
    unfolding lima_pp_write_frame_def pp_frame_writes_def split_lambda
    using io_only_frame(11) [OF io]
    by (simp add: forM_writes_simps(1) writes_rev_map del: upt.simps)
  show "io_only d (exec (lima_pp_write_frame ip frame wb) d)"
    unfolding lima_pp_write_frame_def split_lambda
    by (simp only: run_bind) (rule io_only_trans [OF io forM_writes_simps(2)])
qed

lemma frame_write_simps:
  "run_state (frame_write t reg v) d = ((), d\<lparr>dev_tasks := (dev_tasks d)(t :=
     map_option (\<lambda>x. x\<lparr>t_frame := (t_frame x)[unat (drop_bit 2 reg) := v]\<rparr>) (dev_tasks d t))\<rparr>)"
  by (simp add: frame_write_def)

text \<open>
  What one processor's frame is: the shared frame registers with the processor's own tile
  list and stack.
\<close>

definition m400_frame_for :: "drm_lima_m400_pp_frame \<Rightarrow> nat \<Rightarrow> u32 list" where
  "m400_frame_for f i = (m400_frame f)[0 := m400_plbu_array_address f ! i,
     12 := m400_fragment_stack_address f ! i]"

text \<open>Two frames that differ only in those two registers.\<close>

definition m400_like :: "drm_lima_m400_pp_frame \<Rightarrow> drm_lima_m400_pp_frame \<Rightarrow> bool" where
  "m400_like f g \<longleftrightarrow> (\<exists>a b. g = f\<lparr>m400_frame := (m400_frame f)[0 := a, 12 := b]\<rparr>)"

lemma m400_like_for: "m400_like f g \<Longrightarrow> m400_frame_for g i = m400_frame_for f i"
  by (auto simp: m400_like_def m400_frame_for_def list_update_swap)

lemma m400_like_words:
  assumes "length w = 68" and "m400_like f (m400_frame_of_words w)"
  shows "m400_like f (m400_frame_of_words (w[0 := a, 12 := b]))"
    and "m400_frame (m400_frame_of_words (w[0 := a, 12 := b])) = (m400_frame (m400_frame_of_words w))[0 := a, 12 := b]"
proof -
  show e: "m400_frame (m400_frame_of_words (w[0 := a, 12 := b])) = (m400_frame (m400_frame_of_words w))[0 := a, 12 := b]"
    by (simp add: m400_frame_of_words_def take_update_swap)
  from assms(2) obtain x y where "m400_frame_of_words w = f\<lparr>m400_frame := (m400_frame f)[0 := x, 12 := y]\<rparr>"
    by (auto simp: m400_like_def)
  moreover have "m400_frame_of_words (w[0 := a, 12 := b]) =
      (m400_frame_of_words w)\<lparr>m400_frame := (m400_frame (m400_frame_of_words w))[0 := a, 12 := b]\<rparr>"
    using assms(1) by (simp add: m400_frame_of_words_def take_update_swap drop_update_cancel nth_list_update)
  ultimately show "m400_like f (m400_frame_of_words (w[0 := a, 12 := b]))"
    unfolding m400_like_def
    by (intro exI [of _ a] exI [of _ b]) (simp add: list_update_swap)
qed

text \<open>One processor: its frame, then the start command.\<close>

lemma pp_run_one_spec:
  assumes t: "dev_tasks d t = Some x" "length (t_frame x) = 68" and like: "m400_like f (m400 d t)"
    and r: "\<not> ip_async_reset (dev_ip d (pp_processor d i))"
  defines "d' \<equiv> exec (pp_run_one t i) d" and "ip \<equiv> pp_processor d i"
  shows "bus_writes d' = bus_writes d @ pp_frame_writes d ip (m400_frame_for f i) (m400_wb f) @
      [(ip_reg d ip LIMA_PP_CTRL, LIMA_PP_CTRL_START_RENDERING)]"
    and "\<exists>y. dev_tasks d' t = Some y \<and> length (t_frame y) = 68" and "m400_like f (m400 d' t)"
    and "dev_ip d' = dev_ip d" "dev_pipe d' = dev_pipe d"
proof -
  let ?w = "(t_frame x)[0 := m400_plbu_array_address (m400 d t) ! i, 12 := m400_fragment_stack_address (m400 d t) ! i]"
  let ?d1 = "d\<lparr>dev_tasks := (dev_tasks d)(t \<mapsto> x\<lparr>t_frame := ?w\<rparr>)\<rparr>"
  have m: "m400 d t = m400_frame_of_words (t_frame x)" using t(1) by (simp add: task_frame_def)
  have m1: "m400 ?d1 t = m400_frame_of_words ?w" by (simp add: task_frame_def)
  note lw = m400_like_words [OF t(2) like [unfolded m]]
  have fr: "m400_frame (m400 ?d1 t) = m400_frame_for f i"
  proof -
    have "m400_frame (m400 ?d1 t) = m400_frame_for (m400 d t) i"
      by (simp only: m1 lw(2) m400_frame_for_def) (simp only: m)
    then show ?thesis using m400_like_for [OF like] by simp
  qed
  have wb: "m400_wb (m400 ?d1 t) = m400_wb f"
  proof -
    have w: "m400_wb g = m400_wb f" if "m400_like f g" for g using that by (auto simp: m400_like_def)
    show ?thesis unfolding m1 by (rule w [OF lw(1)])
  qed
  have d': "d' = exec (do { lima_pp_write_frame ip (m400_frame_for f i) (m400_wb f);
      ip_write ip LIMA_PP_CTRL LIMA_PP_CTRL_START_RENDERING }) ?d1"
    using r t(1) fr wb
    by (simp add: d'_def pp_run_one_def frame_write_simps ip_def lima_pp_soft_reset_async_wait_def regs
        unat_drop_bit_eq)
  note wf = write_frame_spec [where ip = ip and frame = "m400_frame_for f i" and wb = "m400_wb f" and d = ?d1]
  have reg: "ip_reg ?d1 = ip_reg d" by (simp add: ip_reg_def fun_eq_iff)
  have fw: "pp_frame_writes ?d1 = pp_frame_writes d" by (simp add: pp_frame_writes_def reg fun_eq_iff)
  show "bus_writes d' = bus_writes d @ pp_frame_writes d ip (m400_frame_for f i) (m400_wb f) @
      [(ip_reg d ip LIMA_PP_CTRL, LIMA_PP_CTRL_START_RENDERING)]"
    using io_only_frame(11) [OF wf(2)] wf(1) unfolding d' by (simp add: hw_simps reg fw)
  have tasks: "dev_tasks d' = dev_tasks ?d1"
    using io_only_frame(3) [OF wf(2)] unfolding d' by (simp add: hw_simps)
  then show "\<exists>y. dev_tasks d' t = Some y \<and> length (t_frame y) = 68" using t(2) by simp
  have "m400 d' t = m400_frame_of_words ?w" using tasks by (simp add: task_frame_def)
  then show "m400_like f (m400 d' t)" using lw(1) m by simp
  show "dev_ip d' = dev_ip d" "dev_pipe d' = dev_pipe d"
    using io_only_frame(1,2) [OF wf(2)] unfolding d' by (simp_all add: hw_simps)
qed

lemma pp_run_all_spec:
  assumes "\<exists>x. dev_tasks d t = Some x \<and> length (t_frame x) = 68" and "m400_like f (m400 d t)"
    and "\<forall>i \<in> set is. \<not> ip_async_reset (dev_ip d (pp_processor d i))"
  shows "bus_writes (exec (forM (pp_run_one t) is) d) = bus_writes d @ concat (map (\<lambda>i.
      pp_frame_writes d (pp_processor d i) (m400_frame_for f i) (m400_wb f) @
      [(ip_reg d (pp_processor d i) LIMA_PP_CTRL, LIMA_PP_CTRL_START_RENDERING)]) is)
    \<and> dev_pipe (exec (forM (pp_run_one t) is) d) = dev_pipe d"
  using assms
proof (induction "is" arbitrary: d)
  case Nil
  then show ?case by simp
next
  case (Cons i "is")
  obtain x where x: "dev_tasks d t = Some x" "length (t_frame x) = 68" using Cons.prems(1) by blast
  have r: "\<not> ip_async_reset (dev_ip d (pp_processor d i))" using Cons.prems(3) by simp
  note one = pp_run_one_spec [OF x Cons.prems(2) r]
  let ?d = "exec (pp_run_one t i) d"
  have same: "pp_processor ?d = pp_processor d" "ip_reg ?d = ip_reg d" "pp_frame_writes ?d = pp_frame_writes d"
    using one(4,5) by (simp_all add: pp_processor_def ip_reg_def pp_frame_writes_def fun_eq_iff)
  have "\<forall>j \<in> set is. \<not> ip_async_reset (dev_ip ?d (pp_processor ?d j))"
    using Cons.prems(3) one(4) same(1) by simp
  from Cons.IH [OF one(2,3) this] one(1,5) same show ?case by simp
qed

text \<open>
  C15. Starting a validated Mali-400 task programs and starts exactly the requested number of
  processors, each once and in order: processor \<open>i\<close> gets the task's frame registers with its
  own tile list and its own stack in place, then the three write-back units, and last its
  start command. The pipe's counter is set to the number of processors.
\<close>

theorem m400_task_runs_each_processor:
  assumes x: "dev_tasks d t = Some x" "length (t_frame x) = 68"
    and nb: "p_bcast_processor (dev_pipe d lima_pipe_pp) = None"
    and valid: "lima_pp_task_validate (dev_pipe d lima_pipe_pp) (t_frame x) = 0"
    and idle: "\<forall>ip \<in> set (p_processor (dev_pipe d lima_pipe_pp)). \<not> ip_async_reset (dev_ip d ip)"
  defines "f \<equiv> m400 d t" and "d' \<equiv> exec (lima_pp_task_run t) d"
  shows "(bus_writes d' = bus_writes d @ concat (map (\<lambda>i.
      pp_frame_writes d (pp_processor d i) (m400_frame_for f i) (m400_wb f) @
      [(ip_reg d (pp_processor d i) LIMA_PP_CTRL, LIMA_PP_CTRL_START_RENDERING)]) [0..<unat (m400_num_pp f)])) \<and>
    (p_task (dev_pipe d' lima_pipe_pp) = int (unat (m400_num_pp f))) \<and>
    (0 < unat (m400_num_pp f)) \<and>
    (unat (m400_num_pp f) \<le> length (p_processor (dev_pipe d lima_pipe_pp)))"
proof (intro conjI)
  have f: "f = m400_frame_of_words (t_frame x)" by (simp add: f_def task_frame_def x(1))
  have n: "m400_num_pp f \<noteq> 0" "unat (m400_num_pp f) \<le> length (p_processor (dev_pipe d lima_pipe_pp))"
    using valid nb by (auto simp: lima_pp_task_validate_def f Let_def split: if_splits)
  then show "0 < unat (m400_num_pp f)" "unat (m400_num_pp f) \<le> length (p_processor (dev_pipe d lima_pipe_pp))"
    by (simp_all add: unat_gt_0)
  let ?d = "pipe_upd lima_pipe_pp (\<lambda>x. x\<lparr>p_task := int (unat (m400_num_pp f))\<rparr>) d"
  have d': "d' = exec (forM (pp_run_one t) [0..<unat (m400_num_pp f)]) ?d"
    by (simp add: d'_def lima_pp_task_run_def nb f_def set_pp_task_def)
  have proc: "pp_processor ?d = pp_processor d" by (simp add: pp_processor_def fun_eq_iff)
  have "\<forall>i \<in> set [0..<unat (m400_num_pp f)]. \<not> ip_async_reset (dev_ip ?d (pp_processor ?d i))"
    using idle n(2) by (auto simp: proc pp_processor_def)
  moreover have "m400_like f (m400 ?d t)"
    unfolding m400_like_def by (intro exI [of _ "m400_frame f ! 0"] exI [of _ "m400_frame f ! 12"])
      (simp add: f_def task_frame_def)
  ultimately have s: "bus_writes d' = bus_writes ?d @ concat (map (\<lambda>i.
      pp_frame_writes ?d (pp_processor ?d i) (m400_frame_for f i) (m400_wb f) @
      [(ip_reg ?d (pp_processor ?d i) LIMA_PP_CTRL, LIMA_PP_CTRL_START_RENDERING)]) [0..<unat (m400_num_pp f)])
    \<and> dev_pipe d' = dev_pipe ?d"
    unfolding d' using x by (intro pp_run_all_spec) auto
  have "pp_frame_writes ?d = pp_frame_writes d" by (simp add: pp_frame_writes_def fun_eq_iff)
  with s proc show "bus_writes d' = bus_writes d @ concat (map (\<lambda>i.
      pp_frame_writes d (pp_processor d i) (m400_frame_for f i) (m400_wb f) @
      [(ip_reg d (pp_processor d i) LIMA_PP_CTRL, LIMA_PP_CTRL_START_RENDERING)]) [0..<unat (m400_num_pp f)])"
    "p_task (dev_pipe d' lima_pipe_pp) = int (unat (m400_num_pp f))"
    by simp_all
qed

section \<open>Starting a Mali-450 task\<close>

text \<open>
  The setup of a broadcast task: the load balancer on or off, the processor masks.
\<close>

definition pp_bcast_setup :: "lima_device \<Rightarrow> drm_lima_m450_pp_frame \<Rightarrow> u32 \<Rightarrow> (u32 \<times> u32) list" where
  "pp_bcast_setup d f old =
     (if m450_use_dlbu f = 0 then [(ip_reg d lima_ip_dlbu LIMA_DLBU_PP_ENABLE_MASK, 0)]
      else [(ip_reg d lima_ip_dlbu LIMA_DLBU_PP_ENABLE_MASK, pp_mask d (unat (m450_num_pp f)) 0),
            (ip_reg d lima_ip_dlbu LIMA_DLBU_TLLIST_VBASEADDR, m450_dlbu_regs f ! 0),
            (ip_reg d lima_ip_dlbu LIMA_DLBU_FB_DIM, m450_dlbu_regs f ! 1),
            (ip_reg d lima_ip_dlbu LIMA_DLBU_TLLIST_CONF, m450_dlbu_regs f ! 2),
            (ip_reg d lima_ip_dlbu LIMA_DLBU_START_TILE_POS, m450_dlbu_regs f ! 3)]) @
     [(ip_reg d lima_ip_bcast LIMA_BCAST_BROADCAST_MASK, pp_mask d (unat (m450_num_pp f)) (old AND 0xffff0000))]"

text \<open>The registers of the single processors.\<close>

definition pp_bcast_each :: "lima_device \<Rightarrow> drm_lima_m450_pp_frame \<Rightarrow> nat \<Rightarrow> (u32 \<times> u32) list" where
  "pp_bcast_each d f i =
     (ip_reg d (pp_processor d i) LIMA_PP_STACK, m450_fragment_stack_address f ! i) #
     (if m450_use_dlbu f = 0
      then [(ip_reg d (pp_processor d i) LIMA_PP_FRAME, m450_plbu_array_address f ! i)] else [])"

lemma bcast_one_spec:
  "bus_writes (exec (pp_bcast_one f i) d) = bus_writes d @ pp_bcast_each d f i"
  "io_only d (exec (pp_bcast_one f i) d)"
  by (auto simp: pp_bcast_one_def hw_simps pp_bcast_each_def intro: io_only_log2)

lemma bcast_each_frame: "io_only d e \<Longrightarrow> pp_bcast_each e = pp_bcast_each d"
  using io_only_frame [of d e] by (simp add: pp_bcast_each_def pp_processor_def fun_eq_iff)

lemma bcast_all_spec:
  "bus_writes (exec (forM (pp_bcast_one f) is) d) = bus_writes d @ concat (map (pp_bcast_each d f) is) \<and>
   io_only d (exec (forM (pp_bcast_one f) is) d)"
proof (induction "is" arbitrary: d)
  case Nil
  then show ?case by simp
next
  case (Cons i "is")
  let ?d = "exec (pp_bcast_one f i) d"
  note one = bcast_one_spec [where f = f and i = i and d = d]
  have "pp_bcast_each ?d = pp_bcast_each d"
    using io_only_frame [OF one(2)] by (simp add: pp_bcast_each_def pp_processor_def fun_eq_iff)
  with Cons.IH [of ?d] one io_only_trans show ?case by simp
qed

text \<open>The part of \<open>lima_pp_task_run\<close> before the wait for the soft reset.\<close>

definition pp_dlbu_prepare :: "nat \<Rightarrow> drm_lima_m450_pp_frame \<Rightarrow> unit hw" where
  "pp_dlbu_prepare t f = (if m450_use_dlbu f \<noteq> 0 then do {
       lima_dlbu_enable (unat (m450_num_pp f));
       frame_write t LIMA_PP_FRAME (ucast LIMA_VA_RESERVE_DLBU);
       lima_dlbu_set_reg lima_ip_dlbu (m450_dlbu_regs f)
     } else lima_dlbu_disable)"

definition pp_bcast_prepare :: "nat \<Rightarrow> drm_lima_m450_pp_frame \<Rightarrow> unit hw" where
  "pp_bcast_prepare t f = do {
     modify (pipe_upd lima_pipe_pp (\<lambda>x. x\<lparr>p_done := 0\<rparr>));
     set_pp_task (m450_num_pp f);
     pp_dlbu_prepare t f;
     lima_bcast_enable (unat (m450_num_pp f))
   }"

lemma task_run_bcast:
  assumes "p_bcast_processor (dev_pipe d lima_pipe_pp) = Some ip"
  shows "run_state (lima_pp_task_run t) d = run_state (do {
         _ \<leftarrow> lima_pp_soft_reset_async_wait ip;
         g \<leftarrow> gets (\<lambda>d. m450 d t);
         lima_pp_write_frame ip (m450_frame g) (m450_wb g);
         forM (pp_bcast_one g) [0..<unat (m450_num_pp g)];
         ip_write ip LIMA_PP_CTRL LIMA_PP_CTRL_START_RENDERING
       }) (exec (pp_bcast_prepare t (m450 d t)) d)"
  using assms by (simp add: lima_pp_task_run_def pp_bcast_prepare_def pp_dlbu_prepare_def)

lemma pp_mask_procs: "p_processor (dev_pipe e lima_pipe_pp) = p_processor (dev_pipe d lima_pipe_pp) \<Longrightarrow>
    pp_mask e = pp_mask d"
  by (simp add: pp_mask_def fun_eq_iff)

lemma dlbu_prepare_spec:
  fixes t f d
  defines "e \<equiv> exec (pp_dlbu_prepare t f) d"
  shows "dev_ip e = dev_ip d" "dev_pipe e = dev_pipe d"
    and "bus_writes e = bus_writes d @
      (if m450_use_dlbu f = 0 then [(ip_reg d lima_ip_dlbu LIMA_DLBU_PP_ENABLE_MASK, 0)]
       else [(ip_reg d lima_ip_dlbu LIMA_DLBU_PP_ENABLE_MASK, pp_mask d (unat (m450_num_pp f)) 0),
            (ip_reg d lima_ip_dlbu LIMA_DLBU_TLLIST_VBASEADDR, m450_dlbu_regs f ! 0),
            (ip_reg d lima_ip_dlbu LIMA_DLBU_FB_DIM, m450_dlbu_regs f ! 1),
            (ip_reg d lima_ip_dlbu LIMA_DLBU_TLLIST_CONF, m450_dlbu_regs f ! 2),
            (ip_reg d lima_ip_dlbu LIMA_DLBU_START_TILE_POS, m450_dlbu_regs f ! 3)])"
    and "dev_tasks e = (if m450_use_dlbu f = 0 then dev_tasks d else (dev_tasks d)(t :=
      map_option (\<lambda>x. x\<lparr>t_frame := (t_frame x)[0 := 0xFFF00000]\<rparr>) (dev_tasks d t)))"
  unfolding e_def
  by (auto simp: pp_dlbu_prepare_def lima_dlbu_disable_def lima_dlbu_enable_def lima_dlbu_set_reg_def
      hw_simps frame_write_simps ip_reg_def regs fun_eq_iff)

lemma bcast_enable_spec:
  "run_state (lima_bcast_enable n) d = ((), log_io (Wr (ip_reg d lima_ip_bcast LIMA_BCAST_BROADCAST_MASK)
      (pp_mask d n (peek d lima_ip_bcast LIMA_BCAST_BROADCAST_MASK AND 0xffff0000)))
     (log_io (Rd (ip_reg d lima_ip_bcast LIMA_BCAST_BROADCAST_MASK) (peek d lima_ip_bcast LIMA_BCAST_BROADCAST_MASK)) d))"
  using pp_mask_procs [of "log_io (Rd (ip_reg d lima_ip_bcast LIMA_BCAST_BROADCAST_MASK)
      (peek d lima_ip_bcast LIMA_BCAST_BROADCAST_MASK)) d" d]
  by (simp add: lima_bcast_enable_def hw_simps)

lemma bcast_prepare_run:
  "exec (pp_bcast_prepare t f) d = exec (lima_bcast_enable (unat (m450_num_pp f)))
     (exec (pp_dlbu_prepare t f) (pipe_upd lima_pipe_pp
        (\<lambda>x. x\<lparr>p_done := 0, p_task := int (unat (m450_num_pp f))\<rparr>) d))"
  by (simp add: pp_bcast_prepare_def set_pp_task_def pipe_upd_def)

lemma bcast_prepare_spec:
  fixes t f d
  defines "e \<equiv> exec (pp_bcast_prepare t f) d"
  defines "old \<equiv> peek (exec (pp_dlbu_prepare t f) (pipe_upd lima_pipe_pp
      (\<lambda>x. x\<lparr>p_done := 0, p_task := int (unat (m450_num_pp f))\<rparr>) d)) lima_ip_bcast LIMA_BCAST_BROADCAST_MASK"
  shows "dev_ip e = dev_ip d"
    and "dev_pipe e = (dev_pipe d)(lima_pipe_pp :=
      (dev_pipe d lima_pipe_pp)\<lparr>p_done := 0, p_task := int (unat (m450_num_pp f))\<rparr>)"
    and "bus_writes e = bus_writes d @ pp_bcast_setup d f old"
proof -
  define D where "D = pipe_upd lima_pipe_pp (\<lambda>x. x\<lparr>p_done := 0, p_task := int (unat (m450_num_pp f))\<rparr>) d"
  have D: "dev_ip D = dev_ip d" "bus_writes D = bus_writes d" "dev_pipe D = (dev_pipe d)(lima_pipe_pp :=
      (dev_pipe d lima_pipe_pp)\<lparr>p_done := 0, p_task := int (unat (m450_num_pp f))\<rparr>)"
    by (simp_all add: D_def)
  note s = dlbu_prepare_spec [where t = t and f = f and d = D]
  have mask: "pp_mask D = pp_mask d" "pp_mask (exec (pp_dlbu_prepare t f) D) = pp_mask d"
    using s(2) D by (intro pp_mask_procs; simp)+
  have reg: "ip_reg (exec (pp_dlbu_prepare t f) D) = ip_reg d" "ip_reg D = ip_reg d"
    using s(1) D by (simp_all add: ip_reg_def fun_eq_iff)
  show "dev_ip e = dev_ip d"
    and "dev_pipe e = (dev_pipe d)(lima_pipe_pp :=
      (dev_pipe d lima_pipe_pp)\<lparr>p_done := 0, p_task := int (unat (m450_num_pp f))\<rparr>)"
    using s D unfolding e_def bcast_prepare_run D_def [symmetric] by (simp_all add: bcast_enable_spec)
  show "bus_writes e = bus_writes d @ pp_bcast_setup d f old"
    unfolding e_def bcast_prepare_run bcast_enable_spec old_def D_def [symmetric]
    using s(3) D by (simp add: reg mask pp_bcast_setup_def)
qed

lemma bcast_prepare_frame:
  assumes "dev_tasks d t = Some x"
  shows "task_frame (exec (pp_bcast_prepare t f) d) t =
    (if m450_use_dlbu f \<noteq> 0 then (t_frame x)[0 := 0xFFF00000] else t_frame x)"
  using assms unfolding bcast_prepare_run
  by (simp add: bcast_enable_spec task_frame_def dlbu_prepare_spec(4))

text \<open>
  C14. Starting a validated Mali-450 task selects exactly the requested processors: the masks
  written to the broadcast unit and, for a task that uses it, to the load balancer have, in
  their low half, exactly the bits of the first \<open>num_pp\<close> processors of the pipe; the broadcast
  frame is the task's (with the reserved DLBU address as its tile list when the load balancer
  is used); every selected processor gets its own stack, and its own tile list otherwise; the
  start command is the last write and goes to the broadcast unit. No processor is marked
  finished and the counter is the number of processors.
\<close>

theorem m450_task_selects_processors:
  assumes x: "dev_tasks d t = Some x" "length (t_frame x) = 78"
    and bc: "p_bcast_processor (dev_pipe d lima_pipe_pp) = Some ip"
    and valid: "lima_pp_task_validate (dev_pipe d lima_pipe_pp) (t_frame x) = 0"
    and idle: "\<not> ip_async_reset (dev_ip d ip)"
    and pps: "set (p_processor (dev_pipe d lima_pipe_pp)) \<subseteq> set lima_pps"
  defines "f \<equiv> m450 d t" and "d' \<equiv> exec (lima_pp_task_run t) d"
  defines "n \<equiv> unat (m450_num_pp f)"
  shows "(\<exists>old. bus_writes d' = bus_writes d @ pp_bcast_setup d f old @
      pp_frame_writes d ip (if m450_use_dlbu f = 0 then m450_frame f
        else (m450_frame f)[0 := 0xFFF00000]) (m450_wb f) @
      concat (map (pp_bcast_each d f) [0..<n]) @
      [(ip_reg d ip LIMA_PP_CTRL, LIMA_PP_CTRL_START_RENDERING)] \<and>
      (\<forall>k < 16. bit (pp_mask d n (old AND 0xffff0000)) k \<longleftrightarrow>
        k \<in> pp_index ` set (take n (p_processor (dev_pipe d lima_pipe_pp))))) \<and>
    (p_task (dev_pipe d' lima_pipe_pp) = int n) \<and>
    (p_done (dev_pipe d' lima_pipe_pp) = 0) \<and>
    (0 < n) \<and>
    (n \<le> length (p_processor (dev_pipe d lima_pipe_pp)))"
proof (intro conjI)
  have f: "f = m450_frame_of_words (t_frame x)" by (simp add: f_def task_frame_def x(1))
  have nn: "m450_num_pp f \<noteq> 0" and nl: "n \<le> length (p_processor (dev_pipe d lima_pipe_pp))"
    using valid bc by (auto simp: lima_pp_task_validate_def f n_def Let_def split: if_splits)
  then show "0 < n" "n \<le> length (p_processor (dev_pipe d lima_pipe_pp))"
    by (simp_all add: n_def unat_gt_0)
  have m: "0xffff0000 = push_bit 16 (mask 16 :: u32)" by (simp add: mask_eq_exp_minus_1)
  have low: "\<not> bit (old AND 0xffff0000 :: u32) k" if "k < 16" for k old
    unfolding m using that by (simp only: bit_and_iff bit_push_bit_iff) simp
  have sel: "\<forall>k < 16. bit (pp_mask d n (old AND 0xffff0000)) k \<longleftrightarrow>
      k \<in> pp_index ` set (take n (p_processor (dev_pipe d lima_pipe_pp)))" for old
    using low by (simp add: bit_pp_mask [OF nl pps])
  let ?dlbu = "m450_use_dlbu f \<noteq> 0"
  let ?w = "if ?dlbu then (t_frame x)[0 := 0xFFF00000] else t_frame x"
  let ?g = "m450_frame_of_words ?w"
  have g: "?g = f\<lparr>m450_frame := (if ?dlbu then (m450_frame f)[0 := 0xFFF00000] else m450_frame f)\<rparr>"
    using x(2) by (simp add: f m450_frame_of_words_def take_update_swap drop_update_cancel)
  have gn: "m450_num_pp ?g = m450_num_pp f" "m450_wb ?g = m450_wb f" "unat (m450_num_pp f) = n"
    unfolding g by (simp_all add: n_def)
  define e where "e = exec (pp_bcast_prepare t f) d"
  define old where "old = peek (exec (pp_dlbu_prepare t f) (pipe_upd lima_pipe_pp
      (\<lambda>x. x\<lparr>p_done := 0, p_task := int n\<rparr>) d)) lima_ip_bcast LIMA_BCAST_BROADCAST_MASK"
  have e: "bus_writes e = bus_writes d @ pp_bcast_setup d f old" "dev_ip e = dev_ip d"
      "dev_pipe e = (dev_pipe d)(lima_pipe_pp := (dev_pipe d lima_pipe_pp)\<lparr>p_done := 0, p_task := int n\<rparr>)"
    using bcast_prepare_spec [of t f d] by (simp_all add: e_def old_def n_def)
  have te: "task_frame e t = ?w"
    using bcast_prepare_frame [OF x(1), of f] by (simp add: e_def)
  have run: "d' = exec (do { lima_pp_write_frame ip (m450_frame ?g) (m450_wb f);
        forM (pp_bcast_one ?g) [0..<n]; ip_write ip LIMA_PP_CTRL LIMA_PP_CTRL_START_RENDERING }) e"
    using idle e(2) unfolding d'_def
    by (simp add: task_run_bcast [OF bc] f_def [symmetric] e_def [symmetric] te
        lima_pp_soft_reset_async_wait_def gn del: if_split)
  have reg: "ip_reg e = ip_reg d" "pp_processor e = pp_processor d"
    using e(2,3) by (simp_all add: ip_reg_def pp_processor_def fun_eq_iff)
  have same: "pp_frame_writes e = pp_frame_writes d" "pp_bcast_each e = pp_bcast_each d"
    using reg by (simp_all add: pp_frame_writes_def pp_bcast_each_def fun_eq_iff)
  have each: "pp_bcast_each d ?g = pp_bcast_each d f"
    unfolding g by (simp add: pp_bcast_each_def fun_eq_iff)
  let ?e1 = "exec (lima_pp_write_frame ip (m450_frame ?g) (m450_wb f)) e"
  note w1 = write_frame_spec [where ip = ip and frame = "m450_frame ?g" and wb = "m450_wb f" and d = e]
  have all: "pp_bcast_each ?e1 = pp_bcast_each e"
    by (rule bcast_each_frame [OF w1(2)])
  let ?e2 = "exec (forM (pp_bcast_one ?g) [0..<n]) ?e1"
  have w2: "bus_writes ?e2 = bus_writes ?e1 @ concat (map (pp_bcast_each d f) [0..<n])" "io_only ?e1 ?e2"
    using bcast_all_spec [of ?g "[0..<n]" ?e1] all same each by auto
  have io: "io_only e ?e2" by (rule io_only_trans [OF w1(2) w2(2)])
  have d': "d' = log_io (Wr (ip_reg d ip LIMA_PP_CTRL) LIMA_PP_CTRL_START_RENDERING) ?e2"
    using io_only_frame(11) [OF io] reg unfolding run by (simp add: hw_simps)
  have gf: "m450_frame ?g = (if m450_use_dlbu f = 0 then m450_frame f else (m450_frame f)[0 := 0xFFF00000])"
    unfolding g by simp
  show "\<exists>old. bus_writes d' = bus_writes d @ pp_bcast_setup d f old @
      pp_frame_writes d ip (if m450_use_dlbu f = 0 then m450_frame f
        else (m450_frame f)[0 := 0xFFF00000]) (m450_wb f) @
      concat (map (pp_bcast_each d f) [0..<n]) @
      [(ip_reg d ip LIMA_PP_CTRL, LIMA_PP_CTRL_START_RENDERING)] \<and>
      (\<forall>k < 16. bit (pp_mask d n (old AND 0xffff0000)) k \<longleftrightarrow>
        k \<in> pp_index ` set (take n (p_processor (dev_pipe d lima_pipe_pp))))"
    unfolding gf [symmetric] by (intro exI [of _ old] conjI sel) (simp add: d' w1(1) w2(1) e(1) same)
  show "p_task (dev_pipe d' lima_pipe_pp) = int n" "p_done (dev_pipe d' lima_pipe_pp) = 0"
    using io_only_frame(2) [OF io] e(3) by (simp_all add: d')
qed

section \<open>Concrete tasks\<close>

text \<open>
  A two-processor task on a Mali-400, and the same task on a device with a broadcast unit.
\<close>

definition pp_demo_task :: "u32 list \<Rightarrow> lima_sched_task" where
  "pp_demo_task w = \<lparr>t_pipe = lima_pipe_pp, t_ctx = None, t_context = 0, t_vm = 0, t_frame = w,
     t_deps = [], t_deps_arr = None, t_bos = [], t_bos_arr = None, t_fence = 0\<rparr>"

definition pp_demo400 :: lima_device where
  "pp_demo400 = (dev_demo (\<lambda>_ _. 0) 3)\<lparr>dev_tasks := (\<lambda>_. None)(7 := Some
     (pp_demo_task ((replicate 68 0)[23 := 2, 60 := 0x1000, 61 := 0x2000, 64 := 0x3000, 65 := 0x4000])))\<rparr>"

definition pp_demo450 :: lima_device where
  "pp_demo450 = pipe_upd lima_pipe_pp
     (\<lambda>x. x\<lparr>p_bcast_processor := Some lima_ip_pp_bcast, p_current_task := Some 7, p_task := 2\<rparr>)
     ((dev_demo (\<lambda>_ _. 0) 3)\<lparr>dev_tasks := (\<lambda>_. None)(7 := Some
       (pp_demo_task ((replicate 78 0)[23 := 2, 60 := 1])))\<rparr>)"

lemma pp_demo_simps:
  "dev_tasks pp_demo400 7 = Some (pp_demo_task ((replicate 68 0)[23 := 2, 60 := 0x1000, 61 := 0x2000, 64 := 0x3000, 65 := 0x4000]))"
  "dev_tasks pp_demo450 7 = Some (pp_demo_task ((replicate 78 0)[23 := 2, 60 := 1]))"
  "p_bcast_processor (dev_pipe pp_demo400 lima_pipe_pp) = None"
  "p_bcast_processor (dev_pipe pp_demo450 lima_pipe_pp) = Some lima_ip_pp_bcast"
  "p_processor (dev_pipe pp_demo400 lima_pipe_pp) = [lima_ip_pp0, lima_ip_pp1]"
  "p_processor (dev_pipe pp_demo450 lima_pipe_pp) = [lima_ip_pp0, lima_ip_pp1]"
  "p_current_task (dev_pipe pp_demo450 lima_pipe_pp) = Some 7"
  "p_task (dev_pipe pp_demo450 lima_pipe_pp) = 2" "p_done (dev_pipe pp_demo450 lima_pipe_pp) = 0"
  "\<not> ip_async_reset (dev_ip pp_demo400 i)" "\<not> ip_async_reset (dev_ip pp_demo450 i)"
  by (simp_all add: pp_demo400_def pp_demo450_def dev_demo_def)

theorem bcast_counts_each_processor_once_witness:
  "result lima_pp_bcast_irq_handler pp_demo450 \<noteq> None"
proof -
  have "2 = unat (m450_num_pp (m450 pp_demo450 7))"
    by (simp add: task_frame_def pp_demo_simps pp_demo_task_def m450_frame_of_words_def)
  moreover have "p_task (dev_pipe pp_demo450 lima_pipe_pp) = int 2 - int (card (pp_counted 2 pp_demo450))"
    by (simp add: pp_counted_def pp_demo_simps)
  ultimately show ?thesis
    using bcast_counts_each_processor_once [OF pp_demo_simps(7), of 2] by simp
qed

theorem m400_task_runs_each_processor_witness:
  "p_task (dev_pipe (exec (lima_pp_task_run 7) pp_demo400) lima_pipe_pp) = 2"
proof -
  let ?x = "pp_demo_task ((replicate 68 0)[23 := 2, 60 := 0x1000, 61 := 0x2000, 64 := 0x3000, 65 := 0x4000])"
  have n: "m400_num_pp (m400_frame_of_words (t_frame ?x)) = 2"
    by (simp add: m400_frame_of_words_def pp_demo_task_def)
  then have v: "lima_pp_task_validate (dev_pipe pp_demo400 lima_pipe_pp) (t_frame ?x) = 0"
    by (simp add: lima_pp_task_validate_def pp_demo_simps)
  have l: "length (t_frame ?x) = 68" by (simp add: pp_demo_task_def)
  have "m400_num_pp (m400 pp_demo400 7) = 2" using n by (simp add: task_frame_def pp_demo_simps)
  with m400_task_runs_each_processor [OF pp_demo_simps(1) l pp_demo_simps(3) v] show ?thesis
    by (simp add: pp_demo_simps)
qed

theorem m450_task_selects_processors_witness:
  "p_task (dev_pipe (exec (lima_pp_task_run 7) pp_demo450) lima_pipe_pp) = 2"
proof -
  let ?x = "pp_demo_task ((replicate 78 0)[23 := 2, 60 := 1])"
  have n: "m450_num_pp (m450_frame_of_words (t_frame ?x)) = 2" "m450_pad (m450_frame_of_words (t_frame ?x)) = 0"
    by (simp_all add: m450_frame_of_words_def pp_demo_task_def)
  then have v: "lima_pp_task_validate (dev_pipe pp_demo450 lima_pipe_pp) (t_frame ?x) = 0"
    by (simp add: lima_pp_task_validate_def pp_demo_simps)
  have l: "length (t_frame ?x) = 78" by (simp add: pp_demo_task_def)
  have "m450_num_pp (m450 pp_demo450 7) = 2" using n by (simp add: task_frame_def pp_demo_simps)
  with m450_task_selects_processors [OF pp_demo_simps(2) l pp_demo_simps(4) v] show ?thesis
    by (simp add: pp_demo_simps lima_pps_def)
qed

end
