(* ===== verification/Lima_Mmu.thy ===== *)
theory Lima_Mmu
  imports Lima_Pp
begin

text \<open>
  The MMUs of the processors, \<open>lima_mmu.c\<close>: commands, initialisation, the switch of the
  address space, the fault interrupt, and the mmu error path of \<open>lima_sched.h\<close> it takes.
  An address space is given by the bus address of its page directory.
\<close>

section \<open>Operations\<close>

definition lima_mmu_send_command :: "lima_ip_id \<Rightarrow> u32 \<Rightarrow> u32 \<Rightarrow> (u32 \<Rightarrow> bool) \<Rightarrow> int hw" where
  "lima_mmu_send_command ip cmd addr cond = do {
     ip_write ip LIMA_MMU_COMMAND cmd;
     readl_poll_timeout ip addr cond
   }"

text \<open>\<open>lima_sched_pipe_mmu_error\<close>; \<open>task_mmu_error\<close> is the pipe's.\<close>

definition lima_sched_pipe_mmu_error :: "lima_pipe_id \<Rightarrow> unit hw" where
  "lima_sched_pipe_mmu_error p = do {
     set_pipe_error p;
     (case p of lima_pipe_gp \<Rightarrow> lima_gp_task_mmu_error | lima_pipe_pp \<Rightarrow> lima_pp_task_mmu_error)
   }"

definition lima_mmu_irq_handler :: "lima_ip_id \<Rightarrow> irqreturn_t hw" where
  "lima_mmu_irq_handler ip = do {
     status \<leftarrow> ip_read ip LIMA_MMU_INT_STATUS;
     if status = 0 then returnM IRQ_NONE
     else do {
       whenM (status AND LIMA_MMU_INT_PAGE_FAULT \<noteq> 0) (do {
         _ \<leftarrow> ip_read ip LIMA_MMU_PAGE_FAULT_ADDR;
         returnM ()
       });
       ip_write ip LIMA_MMU_INT_MASK 0;
       ip_write ip LIMA_MMU_INT_CLEAR status;
       lima_sched_pipe_mmu_error (if ip = lima_ip_gpmmu then lima_pipe_gp else lima_pipe_pp);
       returnM IRQ_HANDLED
     }
   }"

definition lima_mmu_init :: "lima_ip_id \<Rightarrow> int hw" where
  "lima_mmu_init ip = (if ip = lima_ip_ppmmu_bcast then returnM 0 else do {
     ip_write ip LIMA_MMU_DTE_ADDR 0xCAFEBABE;
     v \<leftarrow> ip_read ip LIMA_MMU_DTE_ADDR;
     if v \<noteq> 0xCAFEB000 then returnM (- EIO)
     else do {
       ip_write ip LIMA_MMU_COMMAND LIMA_MMU_COMMAND_HARD_RESET;
       err \<leftarrow> lima_mmu_send_command ip LIMA_MMU_COMMAND_HARD_RESET LIMA_MMU_DTE_ADDR (\<lambda>v. v = 0);
       if err \<noteq> 0 then returnM err
       else do {
         err \<leftarrow> gets (\<lambda>d. dev_request_irq d ip);
         if err \<noteq> 0 then returnM err
         else do {
           ip_write ip LIMA_MMU_INT_MASK (LIMA_MMU_INT_PAGE_FAULT OR LIMA_MMU_INT_READ_BUS_ERROR);
           pd \<leftarrow> gets dev_empty_vm_pd;
           ip_write ip LIMA_MMU_DTE_ADDR pd;
           lima_mmu_send_command ip LIMA_MMU_COMMAND_ENABLE_PAGING LIMA_MMU_STATUS
             (\<lambda>v. v AND LIMA_MMU_STATUS_PAGING_ENABLED \<noteq> 0)
         }
       }
     }
   })"

definition lima_mmu_fini :: "lima_ip_id \<Rightarrow> unit hw" where
  "lima_mmu_fini ip = returnM ()"

definition lima_mmu_switch_vm :: "lima_ip_id \<Rightarrow> u32 option \<Rightarrow> unit hw" where
  "lima_mmu_switch_vm ip pd = do {
     _ \<leftarrow> lima_mmu_send_command ip LIMA_MMU_COMMAND_ENABLE_STALL LIMA_MMU_STATUS
       (\<lambda>v. v AND LIMA_MMU_STATUS_STALL_ACTIVE \<noteq> 0);
     (case pd of None \<Rightarrow> returnM () | Some dma \<Rightarrow> ip_write ip LIMA_MMU_DTE_ADDR dma);
     ip_write ip LIMA_MMU_COMMAND LIMA_MMU_COMMAND_ZAP_CACHE;
     _ \<leftarrow> lima_mmu_send_command ip LIMA_MMU_COMMAND_DISABLE_STALL LIMA_MMU_STATUS
       (\<lambda>v. v AND LIMA_MMU_STATUS_STALL_ACTIVE = 0);
     returnM ()
   }"

definition lima_mmu_page_fault_resume :: "lima_ip_id \<Rightarrow> unit hw" where
  "lima_mmu_page_fault_resume ip = do {
     status \<leftarrow> ip_read ip LIMA_MMU_STATUS;
     whenM (status AND LIMA_MMU_STATUS_PAGE_FAULT_ACTIVE \<noteq> 0) (do {
       ip_write ip LIMA_MMU_INT_MASK 0;
       ip_write ip LIMA_MMU_DTE_ADDR 0xCAFEBABE;
       _ \<leftarrow> lima_mmu_send_command ip LIMA_MMU_COMMAND_HARD_RESET LIMA_MMU_DTE_ADDR (\<lambda>v. v = 0);
       ip_write ip LIMA_MMU_INT_MASK (LIMA_MMU_INT_PAGE_FAULT OR LIMA_MMU_INT_READ_BUS_ERROR);
       pd \<leftarrow> gets dev_empty_vm_pd;
       ip_write ip LIMA_MMU_DTE_ADDR pd;
       _ \<leftarrow> lima_mmu_send_command ip LIMA_MMU_COMMAND_ENABLE_PAGING LIMA_MMU_STATUS
         (\<lambda>v. v AND LIMA_MMU_STATUS_PAGING_ENABLED \<noteq> 0);
       returnM ()
     })
   }"

section \<open>Commands\<close>

lemma send_command_spec:
  "io_only d (exec (lima_mmu_send_command ip cmd addr cond) d)"
  "bus_writes (exec (lima_mmu_send_command ip cmd addr cond) d) =
     bus_writes d @ [(ip_reg d ip LIMA_MMU_COMMAND, cmd)]"
  "result (lima_mmu_send_command ip cmd addr cond) d \<in> {0, - ETIMEDOUT}"
proof -
  let ?d = "log_io (Wr (ip_reg d ip LIMA_MMU_COMMAND) cmd) d"
  have run: "run_state (lima_mmu_send_command ip cmd addr cond) d = run_state (readl_poll_timeout ip addr cond) ?d"
    by (simp add: lima_mmu_send_command_def hw_simps)
  note p = poll_timeout_frame [where i = ip and reg = addr and cond = cond and d = ?d]
  show "io_only d (exec (lima_mmu_send_command ip cmd addr cond) d)"
    unfolding run by (rule io_only_trans [OF io_only_log p(1)])
  show "bus_writes (exec (lima_mmu_send_command ip cmd addr cond) d) =
     bus_writes d @ [(ip_reg d ip LIMA_MMU_COMMAND, cmd)]"
    unfolding run p(2) by simp
  show "result (lima_mmu_send_command ip cmd addr cond) d \<in> {0, - ETIMEDOUT}"
    unfolding run by (rule p(3))
qed

lemma send_command_frame [simp]:
  "ip_reg (exec (lima_mmu_send_command ip cmd addr cond) d) = ip_reg d"
  "dev_ip (exec (lima_mmu_send_command ip cmd addr cond) d) = dev_ip d"
  "dev_pipe (exec (lima_mmu_send_command ip cmd addr cond) d) = dev_pipe d"
  "dev_tasks (exec (lima_mmu_send_command ip cmd addr cond) d) = dev_tasks d"
  "dev_request_irq (exec (lima_mmu_send_command ip cmd addr cond) d) = dev_request_irq d"
  "dev_empty_vm_pd (exec (lima_mmu_send_command ip cmd addr cond) d) = dev_empty_vm_pd d"
  by (simp_all only: io_only_frame [OF send_command_spec(1)])

lemma io_only_bind:
  assumes "\<And>d. io_only d (exec m d)" and "\<And>x d. io_only d (exec (f x) d)"
  shows "io_only d (exec (m \<bind> f) d)"
  using io_only_trans [OF assms(1) assms(2)] by simp

lemma io_only_write: "io_only d (exec (ip_write ip r v) d)"
  by (simp add: hw_simps)

lemma io_only_switch: "io_only d (exec (lima_mmu_switch_vm ip pd) d)"
  unfolding lima_mmu_switch_vm_def
  by (intro io_only_bind send_command_spec(1) io_only_write)
    (auto simp: io_only_write split: option.splits)

text \<open>The writes of a switch, and of the same switch of several MMUs.\<close>

definition mmu_switch_writes :: "lima_device \<Rightarrow> u32 option \<Rightarrow> lima_ip_id \<Rightarrow> (u32 \<times> u32) list" where
  "mmu_switch_writes d pd ip = [(ip_reg d ip LIMA_MMU_COMMAND, LIMA_MMU_COMMAND_ENABLE_STALL)] @
     (case pd of None \<Rightarrow> [] | Some dma \<Rightarrow> [(ip_reg d ip LIMA_MMU_DTE_ADDR, dma)]) @
     [(ip_reg d ip LIMA_MMU_COMMAND, LIMA_MMU_COMMAND_ZAP_CACHE),
      (ip_reg d ip LIMA_MMU_COMMAND, LIMA_MMU_COMMAND_DISABLE_STALL)]"

lemma switch_writes: "bus_writes (exec (lima_mmu_switch_vm ip pd) d) = bus_writes d @ mmu_switch_writes d pd ip"
  by (cases pd) (simp_all add: mmu_switch_writes_def lima_mmu_switch_vm_def hw_simps send_command_spec(2))

lemma switch_all:
  "io_only d (exec (forM (\<lambda>m. lima_mmu_switch_vm m pd) ms) d) \<and>
   bus_writes (exec (forM (\<lambda>m. lima_mmu_switch_vm m pd) ms) d) = bus_writes d @ concat (map (mmu_switch_writes d pd) ms)"
proof (induction ms arbitrary: d)
  case Nil
  then show ?case by simp
next
  case (Cons m ms)
  let ?d = "exec (lima_mmu_switch_vm m pd) d"
  have "mmu_switch_writes ?d pd = mmu_switch_writes d pd"
    by (rule ext) (simp only: mmu_switch_writes_def io_only_frame(11) [OF io_only_switch])
  with Cons [of ?d] show ?case by (auto simp: switch_writes intro: io_only_trans [OF io_only_switch])
qed

text \<open>
  Switching the address space of an MMU is the stall protocol, whatever the hardware
  answers: enable stall, then the new page directory (for a switch to an address space), then
  zap the translation cache, then disable stall, in this order and nothing else; the driver's
  state is untouched.
\<close>

lemma mmu_switch_is_stalled:
  fixes d ip pd
  defines "d' \<equiv> exec (lima_mmu_switch_vm ip pd) d"
  shows "(bus_writes d' = bus_writes d @
      [(ip_reg d ip LIMA_MMU_COMMAND, LIMA_MMU_COMMAND_ENABLE_STALL)] @
      (case pd of None \<Rightarrow> [] | Some dma \<Rightarrow> [(ip_reg d ip LIMA_MMU_DTE_ADDR, dma)]) @
      [(ip_reg d ip LIMA_MMU_COMMAND, LIMA_MMU_COMMAND_ZAP_CACHE),
       (ip_reg d ip LIMA_MMU_COMMAND, LIMA_MMU_COMMAND_DISABLE_STALL)]) \<and>
    (\<exists>es. d' = d\<lparr>bus_trace := es @ bus_trace d\<rparr>)"
proof (intro conjI)
  show "bus_writes d' = bus_writes d @
      [(ip_reg d ip LIMA_MMU_COMMAND, LIMA_MMU_COMMAND_ENABLE_STALL)] @
      (case pd of None \<Rightarrow> [] | Some dma \<Rightarrow> [(ip_reg d ip LIMA_MMU_DTE_ADDR, dma)]) @
      [(ip_reg d ip LIMA_MMU_COMMAND, LIMA_MMU_COMMAND_ZAP_CACHE),
       (ip_reg d ip LIMA_MMU_COMMAND, LIMA_MMU_COMMAND_DISABLE_STALL)]"
    by (cases pd) (simp_all add: d'_def lima_mmu_switch_vm_def hw_simps send_command_spec(2))
  show "\<exists>es. d' = d\<lparr>bus_trace := es @ bus_trace d\<rparr>"
    using io_only_switch [of d ip pd] unfolding d'_def io_only_def by simp
qed



text \<open>
  An MMU that initialises is left translating through the empty address space with its two
  fault interrupts enabled: the last writes are the interrupt mask, the page directory of the
  empty space and the command that enables paging. The self-test decides first: when the page
  directory register does not read back with its low bits cleared, the answer is \<open>-EIO\<close> and no
  command was sent; no error is ever positive, given that \<open>request_irq\<close> returns none.
\<close>

lemma mmu_init_programs_empty_space:
  fixes d ip
  assumes ip: "ip \<noteq> lima_ip_ppmmu_bcast" and irq: "dev_request_irq d ip \<le> 0"
  defines "r \<equiv> result (lima_mmu_init ip) d" and "d' \<equiv> exec (lima_mmu_init ip) d"
    and "d1 \<equiv> exec (ip_write ip LIMA_MMU_DTE_ADDR 0xCAFEBABE) d"
  defines "ok \<equiv> peek d1 ip LIMA_MMU_DTE_ADDR = 0xCAFEB000"
  shows "(r \<le> 0) \<and>
    (\<not> ok \<longrightarrow> r = - EIO \<and> bus_writes d' = bus_writes d1) \<and>
    (r = 0 \<longrightarrow> ok \<and> (\<exists>ws. bus_writes d' = ws @
      [(ip_reg d ip LIMA_MMU_INT_MASK, 3), (ip_reg d ip LIMA_MMU_DTE_ADDR, dev_empty_vm_pd d),
       (ip_reg d ip LIMA_MMU_COMMAND, LIMA_MMU_COMMAND_ENABLE_PAGING)]))"
proof (intro conjI)
  let ?rst = "lima_mmu_send_command ip LIMA_MMU_COMMAND_HARD_RESET LIMA_MMU_DTE_ADDR (\<lambda>v. v = 0)"
  let ?en = "lima_mmu_send_command ip LIMA_MMU_COMMAND_ENABLE_PAGING LIMA_MMU_STATUS
             (\<lambda>v. v AND LIMA_MMU_STATUS_PAGING_ENABLED \<noteq> 0)"
  have m: "LIMA_MMU_INT_PAGE_FAULT OR LIMA_MMU_INT_READ_BUS_ERROR = 3" by (simp add: regs)
  have e: "result ?rst x \<le> 0" "result ?en x \<le> 0" for x
    using send_command_spec(3) [of ip LIMA_MMU_COMMAND_HARD_RESET LIMA_MMU_DTE_ADDR "\<lambda>v. v = 0" x]
      send_command_spec(3) [of ip LIMA_MMU_COMMAND_ENABLE_PAGING LIMA_MMU_STATUS
             "\<lambda>v. v AND LIMA_MMU_STATUS_PAGING_ENABLED \<noteq> 0" x] by auto
  show "r \<le> 0"
    using irq unfolding r_def by (simp add: lima_mmu_init_def hw_simps e)
  show "\<not> ok \<longrightarrow> r = - EIO \<and> bus_writes d' = bus_writes d1"
    using ip unfolding ok_def r_def d'_def d1_def by (simp add: lima_mmu_init_def hw_simps)
  show "r = 0 \<longrightarrow> ok \<and> (\<exists>ws. bus_writes d' = ws @
      [(ip_reg d ip LIMA_MMU_INT_MASK, 3), (ip_reg d ip LIMA_MMU_DTE_ADDR, dev_empty_vm_pd d),
       (ip_reg d ip LIMA_MMU_COMMAND, LIMA_MMU_COMMAND_ENABLE_PAGING)])"
    using ip unfolding ok_def r_def d'_def d1_def
    by (simp add: lima_mmu_init_def hw_simps send_command_spec(2) m split: if_splits)
qed

text \<open>A bus on which the self-test and the commands succeed.\<close>

definition mmu_demo_rsp :: "io list \<Rightarrow> u32 \<Rightarrow> u32" where
  "mmu_demo_rsp tr a = (case tr of
     Wr _ v # _ \<Rightarrow> if v = 0xCAFEBABE then 0xCAFEB000 else if v = LIMA_MMU_COMMAND_ENABLE_PAGING then 1 else 0
   | _ \<Rightarrow> 0)"

lemma mmu_init_programs_empty_space_demo:
  "\<exists>ws. bus_writes (exec (lima_mmu_init lima_ip_gpmmu) (dev_demo mmu_demo_rsp 0)) = ws @
      [(ip_reg (dev_demo mmu_demo_rsp 0) lima_ip_gpmmu LIMA_MMU_INT_MASK, 3),
       (ip_reg (dev_demo mmu_demo_rsp 0) lima_ip_gpmmu LIMA_MMU_DTE_ADDR, 0x1000),
       (ip_reg (dev_demo mmu_demo_rsp 0) lima_ip_gpmmu LIMA_MMU_COMMAND, LIMA_MMU_COMMAND_ENABLE_PAGING)]"
proof -
  let ?d = "dev_demo mmu_demo_rsp 0"
  have rst: "result (lima_mmu_send_command ip LIMA_MMU_COMMAND_HARD_RESET LIMA_MMU_DTE_ADDR (\<lambda>v. v = 0)) e = 0"
    if "bus_resp e = mmu_demo_rsp" for ip e
    using that by (cases "bus_polls e (Wr (ip_reg e ip LIMA_MMU_COMMAND) LIMA_MMU_COMMAND_HARD_RESET # bus_trace e)")
      (simp_all add: lima_mmu_send_command_def readl_poll_timeout_def readl_poll_loop.simps hw_simps peek_def
        mmu_demo_rsp_def regs)
  have en: "result (lima_mmu_send_command ip LIMA_MMU_COMMAND_ENABLE_PAGING LIMA_MMU_STATUS
             (\<lambda>v. v AND LIMA_MMU_STATUS_PAGING_ENABLED \<noteq> 0)) e = 0"
    if "bus_resp e = mmu_demo_rsp" for ip e
    using that by (cases "bus_polls e (Wr (ip_reg e ip LIMA_MMU_COMMAND) LIMA_MMU_COMMAND_ENABLE_PAGING # bus_trace e)")
      (simp_all add: lima_mmu_send_command_def readl_poll_timeout_def readl_poll_loop.simps hw_simps peek_def
        mmu_demo_rsp_def regs)
  have irq: "dev_request_irq ?d i = 0" and resp: "bus_resp ?d = mmu_demo_rsp" for i
    by (simp_all add: dev_demo_def)
  have frame: "bus_resp (exec (lima_mmu_send_command ip c a P) e) = bus_resp e" for ip c a P e
    using io_only_frame(4) [OF send_command_spec(1)] by blast
  have "result (lima_mmu_init lima_ip_gpmmu) ?d = 0"
    by (simp add: lima_mmu_init_def hw_simps peek_def resp rst en irq frame)
      (simp add: mmu_demo_rsp_def dev_demo_def)
  moreover have "dev_empty_vm_pd ?d = 0x1000" by (simp add: dev_demo_def)
  ultimately show ?thesis
    using mmu_init_programs_empty_space [of lima_ip_gpmmu ?d] irq by simp
qed

end
