(* ===== verification/Lima_Ctx.thy ===== *)
theory Lima_Ctx
  imports Lima_Object Lima_Mmu
begin

text \<open>
  User contexts: \<open>lima_ctx.c\<close>, and the per-pipe scheduler contexts inside one
  (\<open>lima_sched_context_init\<close> and \<open>lima_sched_context_fini\<close> of \<open>lima_sched.c\<close>). The table of a
  file maps identifiers to contexts; it and every queued or running task hold a reference.
\<close>

section \<open>State\<close>

text \<open>
  \<open>struct lima_ctx\<close>; of the two \<open>lima_sched_context\<close> inside it the model keeps \<open>in_flight\<close>,
  the pipe and the pointer to \<open>guilty\<close> being the same for all. The state of the driver is the
  heap with the device and its contexts.
\<close>

record lima_ctx =
  cx_refcount :: nat
  cx_guilty :: int
  cx_freed :: bool
  cx_in_flight :: "lima_pipe_id \<Rightarrow> int"

record ctx_st = obj_st +
  cs_dev :: lima_device
  cs_ctxs :: "nat \<Rightarrow> lima_ctx option"

definition ctx_upd :: "nat \<Rightarrow> lima_ctx \<Rightarrow> 'a ctx_st_scheme \<Rightarrow> 'a ctx_st_scheme" where
  "ctx_upd i c s = s\<lparr>cs_ctxs := (cs_ctxs s)(i \<mapsto> c)\<rparr>"

definition on_dev :: "'b hw \<Rightarrow> 'a ctx_st_scheme \<Rightarrow> 'a ctx_st_scheme" where
  "on_dev m s = s\<lparr>cs_dev := exec m (cs_dev s)\<rparr>"

text \<open>\<open>struct lima_ctx_mgr\<close>: the \<open>idr\<close>, by ascending identifier.\<close>

record lima_ctx_mgr =
  cm_handles :: "(nat \<times> nat) list"

section \<open>Scheduler contexts\<close>

definition lima_sched_context_init :: "lima_pipe_id \<Rightarrow> lima_ctx \<Rightarrow> lima_ctx" where
  "lima_sched_context_init p c = c\<lparr>cx_in_flight := (cx_in_flight c)(p := 0)\<rparr>"

text \<open>
  A sleeper stands for the rest of the system while \<open>lima_sched_context_fini\<close> sleeps: what it
  does during one \<open>msleep(10)\<close>, and how many sleeps pass before each of the two deadlines.
\<close>

type_synonym 's sleeper = "('s \<Rightarrow> 's) \<times> nat \<times> nat"

text \<open>Sleep until the context has drained (\<open>True\<close>) or the deadline has passed.\<close>

fun drain_loop ::
    "('a ctx_st_scheme \<Rightarrow> 'a ctx_st_scheme) \<Rightarrow> nat \<Rightarrow> lima_pipe_id \<Rightarrow> nat \<Rightarrow> 'a ctx_st_scheme
      \<Rightarrow> (bool \<times> 'a ctx_st_scheme) option" where
  "drain_loop E ctx p n s = do {
     c \<leftarrow> cs_ctxs s ctx;
     if cx_in_flight c p \<le> 0 then Some (True, s)
     else (case n of 0 \<Rightarrow> Some (False, s) | Suc n \<Rightarrow> drain_loop E ctx p n (E s))
   }"

declare drain_loop.simps [simp del]

definition lima_sched_context_fini ::
    "'a ctx_st_scheme sleeper \<Rightarrow> nat \<Rightarrow> lima_pipe_id \<Rightarrow> 'a ctx_st_scheme \<Rightarrow> 'a ctx_st_scheme option" where
  "lima_sched_context_fini Z ctx p s = (case Z of (E, n1, n2) \<Rightarrow> do {
     (drained, s) \<leftarrow> drain_loop E ctx p n1 s;
     let s = (if drained then s else s\<lparr>cs_dev :=
       pipe_upd p (\<lambda>x. x\<lparr>p_error := True, p_done_pending := True\<rparr>) (cs_dev s)\<rparr>);
     (drained, s) \<leftarrow> drain_loop E ctx p n2 s;
     Some s
   })"

section \<open>Contexts\<close>

definition lima_ctx_release :: "'a ctx_st_scheme sleeper \<Rightarrow> nat \<Rightarrow> 'a ctx_st_scheme \<Rightarrow> 'a ctx_st_scheme option" where
  "lima_ctx_release Z ctx s = do {
     s \<leftarrow> each (lima_sched_context_fini Z ctx) [lima_pipe_gp, lima_pipe_pp] s;
     kfree (Some ctx) (s\<lparr>cs_ctxs := (cs_ctxs s)(ctx := None)\<rparr>)
   }"

definition lima_ctx_put :: "'a ctx_st_scheme sleeper \<Rightarrow> nat option \<Rightarrow> 'a ctx_st_scheme \<Rightarrow> 'a ctx_st_scheme option" where
  "lima_ctx_put Z p s = (case p of
     None \<Rightarrow> Some s
   | Some ctx \<Rightarrow> do {
       c \<leftarrow> cs_ctxs s ctx;
       let s = ctx_upd ctx (c\<lparr>cx_refcount := cx_refcount c - 1\<rparr>) s;
       if cx_refcount c = 1 then lima_ctx_release Z ctx s else Some s
     })"

text \<open>
  \<open>lima_ctx_create\<close>: \<open>pre\<close> is the answer of \<open>idr_pre_get\<close>, \<open>alloc\<close> what \<open>idr_alloc\<close> returns
  for the table it is given.
\<close>

definition idr_insert :: "nat \<Rightarrow> nat \<Rightarrow> (nat \<times> nat) list \<Rightarrow> (nat \<times> nat) list" where
  "idr_insert i c hs = insort_key fst (i, c) hs"

definition lima_ctx_create ::
    "bool \<Rightarrow> ((nat \<times> nat) list \<Rightarrow> int) \<Rightarrow> lima_ctx_mgr \<Rightarrow> 'a ctx_st_scheme
      \<Rightarrow> ((int + nat) \<times> lima_ctx_mgr \<times> 'a ctx_st_scheme) option" where
  "lima_ctx_create pre alloc mgr s = (case kzalloc s of
     (None, s) \<Rightarrow> Some (Inl (- ENOMEM), mgr, s)
   | (Some ctx, s) \<Rightarrow>
       (let c = \<lparr>cx_refcount = 1, cx_guilty = 0, cx_freed = False, cx_in_flight = (\<lambda>_. 0)\<rparr>;
            c = fold lima_sched_context_init [lima_pipe_gp, lima_pipe_pp] c in
        if \<not> pre then do { s \<leftarrow> kfree (Some ctx) s; Some (Inl (- ENOMEM), mgr, s) }
        else (let err = alloc (cm_handles mgr) in
          if err < 0 then do { s \<leftarrow> kfree (Some ctx) s; Some (Inl err, mgr, s) }
          else Some (Inr (nat err), mgr\<lparr>cm_handles := idr_insert (nat err) ctx (cm_handles mgr)\<rparr>,
                     ctx_upd ctx c s))))"

definition lima_ctx_get :: "lima_ctx_mgr \<Rightarrow> nat \<Rightarrow> 'a ctx_st_scheme \<Rightarrow> (nat option \<times> 'a ctx_st_scheme) option" where
  "lima_ctx_get mgr i s = (case map_of (cm_handles mgr) i of
     None \<Rightarrow> Some (None, s)
   | Some ctx \<Rightarrow> do {
       c \<leftarrow> cs_ctxs s ctx;
       if \<not> cx_freed c then Some (Some ctx, ctx_upd ctx (c\<lparr>cx_refcount := Suc (cx_refcount c)\<rparr>) s)
       else Some (None, s)
     })"

text \<open>Mark a context freed and take it out of the table, as both users of \<open>idr_remove\<close> do.\<close>

definition ctx_remove :: "nat \<Rightarrow> nat \<Rightarrow> lima_ctx_mgr \<Rightarrow> 'a ctx_st_scheme \<Rightarrow> (lima_ctx_mgr \<times> 'a ctx_st_scheme) option" where
  "ctx_remove i ctx mgr s = do {
     c \<leftarrow> cs_ctxs s ctx;
     Some (mgr\<lparr>cm_handles := filter (\<lambda>h. fst h \<noteq> i) (cm_handles mgr)\<rparr>, ctx_upd ctx (c\<lparr>cx_freed := True\<rparr>) s)
   }"

definition lima_ctx_free ::
    "'a ctx_st_scheme sleeper \<Rightarrow> lima_ctx_mgr \<Rightarrow> nat \<Rightarrow> 'a ctx_st_scheme \<Rightarrow> (int \<times> lima_ctx_mgr \<times> 'a ctx_st_scheme) option" where
  "lima_ctx_free Z mgr i s = (case map_of (cm_handles mgr) i of
     None \<Rightarrow> Some (- EINVAL, mgr, s)
   | Some ctx \<Rightarrow> do {
       (mgr, s) \<leftarrow> ctx_remove i ctx mgr s;
       s \<leftarrow> lima_ctx_put Z (Some ctx) s;
       Some (0, mgr, s)
     })"

definition lima_ctx_mgr_init :: lima_ctx_mgr where
  "lima_ctx_mgr_init = \<lparr>cm_handles = []\<rparr>"

text \<open>The loop of \<open>lima_ctx_mgr_fini\<close> takes the entry of the least identifier.\<close>

function lima_ctx_mgr_fini :: "'a ctx_st_scheme sleeper \<Rightarrow> lima_ctx_mgr \<Rightarrow> 'a ctx_st_scheme \<Rightarrow> 'a ctx_st_scheme option" where
  "lima_ctx_mgr_fini Z mgr s = (case cm_handles mgr of
     [] \<Rightarrow> Some s
   | (i, ctx) # hs \<Rightarrow> do {
       (mgr', s) \<leftarrow> ctx_remove i ctx mgr s;
       s \<leftarrow> lima_ctx_put Z (Some ctx) s;
       lima_ctx_mgr_fini Z (\<lparr>cm_handles = filter (\<lambda>h. fst h \<noteq> i) hs\<rparr>) s
     })"
  by pat_completeness auto
termination
  by (relation "measure (\<lambda>(Z, mgr, s). length (cm_handles mgr))")
    (auto simp: less_Suc_eq_le length_filter_le)

declare lima_ctx_mgr_fini.simps [simp del]

section \<open>The table\<close>

text \<open>
  The invariant of a file's table: ascending identifiers from 1, one per context, every one of
  a live context that is not marked freed.
\<close>

definition ctx_table :: "lima_ctx_mgr \<Rightarrow> 'a ctx_st_scheme \<Rightarrow> bool" where
  "ctx_table mgr s \<longleftrightarrow> sorted_wrt (<) (map fst (cm_handles mgr)) \<and> distinct (map snd (cm_handles mgr)) \<and>
     (\<forall>(i, ctx) \<in> set (cm_handles mgr). 0 < i \<and>
        (\<exists>c. cs_ctxs s ctx = Some c \<and> 0 < cx_refcount c \<and> \<not> cx_freed c \<and> ctx \<in> km_live s))"

text \<open>
  What \<open>idr_alloc(idr, ctx, 1, 0)\<close> documents: an error, or an unused identifier, at least 1.
\<close>

definition idr_contract :: "((nat \<times> nat) list \<Rightarrow> int) \<Rightarrow> bool" where
  "idr_contract alloc \<longleftrightarrow> (\<forall>hs. alloc hs < 0 \<or> (1 \<le> alloc hs \<and> nat (alloc hs) \<notin> fst ` set hs))"

text \<open>Every context is a live block, and no task counted in flight lacks a reference.\<close>

definition ctxs_wf :: "'a ctx_st_scheme \<Rightarrow> bool" where
  "ctxs_wf s \<longleftrightarrow> kmem_wf s \<and> (\<forall>i c. cs_ctxs s i = Some c \<longrightarrow> i \<in> km_live s \<and> 0 < cx_refcount c)"

definition quiet :: "lima_ctx \<Rightarrow> bool" where
  "quiet c \<longleftrightarrow> (\<forall>p. cx_in_flight c p \<le> 0)"

lemma drain_quiet: "cs_ctxs s ctx = Some c \<Longrightarrow> cx_in_flight c p \<le> 0 \<Longrightarrow> drain_loop E ctx p n s = Some (True, s)"
  by (simp add: drain_loop.simps)

lemma context_fini_quiet: "cs_ctxs s ctx = Some c \<Longrightarrow> quiet c \<Longrightarrow> lima_sched_context_fini Z ctx p s = Some s"
  by (cases Z) (simp add: lima_sched_context_fini_def drain_quiet quiet_def)

text \<open>
  Dropping a reference: while another one exists, or on the last one of a context without
  tasks, it returns at once, and the sleeper is not called.
\<close>

lemma ctx_put_spec:
  assumes c: "cs_ctxs s ctx = Some c" and live: "ctx \<in> km_live s" and ok: "cx_refcount c \<noteq> 1 \<or> quiet c"
  shows "lima_ctx_put Z (Some ctx) s = Some (if cx_refcount c = 1
    then s\<lparr>cs_ctxs := (cs_ctxs s)(ctx := None), km_live := km_live s - {ctx}\<rparr>
    else ctx_upd ctx (c\<lparr>cx_refcount := cx_refcount c - 1\<rparr>) s)"
proof (cases "cx_refcount c = 1")
  case True
  let ?s = "ctx_upd ctx (c\<lparr>cx_refcount := 0\<rparr>) s"
  have "quiet (c\<lparr>cx_refcount := 0\<rparr>)" using True ok by (simp add: quiet_def)
  then have "lima_sched_context_fini Z ctx p ?s = Some ?s" for p
    by (intro context_fini_quiet) (simp_all add: ctx_upd_def)
  with True c live show ?thesis
    by (simp add: lima_ctx_put_def lima_ctx_release_def kfree_def) (simp add: ctx_upd_def)
qed (use c in \<open>simp add: lima_ctx_put_def\<close>)


section \<open>Creation and lookup\<close>

lemma idr_insert_set: "set (idr_insert i c hs) = insert (i, c) (set hs)"
  by (simp add: idr_insert_def set_insort_key)

lemma idr_insert_sorted:
  assumes "sorted_wrt (<) (map fst hs)" and "i \<notin> fst ` set hs"
  shows "sorted_wrt (<) (map fst (idr_insert i c hs))"
  using assms
proof (induction hs)
  case Nil
  then show ?case by (simp add: idr_insert_def)
next
  case (Cons h hs)
  have "\<forall>x \<in> fst ` set (idr_insert i c hs). fst h < x" if "fst h < i"
    using Cons.prems(1) that by (auto simp: idr_insert_set)
  with Cons show ?case by (auto simp: idr_insert_def)
qed

lemma idr_insert_values: "image_mset snd (mset (idr_insert i c hs)) = add_mset c (image_mset snd (mset hs))"
  by (simp add: idr_insert_def)

lemma sorted_keys_distinct: "sorted_wrt (<) (map fst hs) \<Longrightarrow> distinct (map fst hs)" for hs :: "(nat \<times> nat) list"
  by (rule sorted_wrt_irrefl_distinct) auto

lemma idr_insert_map_of:
  assumes "sorted_wrt (<) (map fst hs)" and "i \<notin> fst ` set hs"
  shows "map_of (idr_insert i c hs) = (map_of hs)(i \<mapsto> c)"
proof
  fix j
  have d: "distinct (map fst (idr_insert i c hs))" "distinct (map fst hs)"
    using idr_insert_sorted [OF assms] assms(1) by (simp_all add: sorted_keys_distinct)
  show "map_of (idr_insert i c hs) j = ((map_of hs)(i \<mapsto> c)) j"
  proof (cases "map_of hs j")
    case None
    then have "j \<notin> fst ` set hs" by (simp add: map_of_eq_None_iff)
    then have "map_of (idr_insert i c hs) j = None" if "j \<noteq> i"
      using that by (simp add: map_of_eq_None_iff idr_insert_set)
    moreover have "map_of (idr_insert i c hs) i = Some c"
      using d by (intro map_of_is_SomeI) (simp_all add: idr_insert_set)
    ultimately show ?thesis using None by auto
  next
    case (Some x)
    then have "(j, x) \<in> set (idr_insert i c hs)" by (auto simp: idr_insert_set dest: map_of_SomeD)
    moreover have "j \<noteq> i" using Some assms(2) by (auto simp flip: map_of_eq_None_iff)
    ultimately show ?thesis using Some d by (auto intro: map_of_is_SomeI)
  qed
qed

text \<open>
  Creating a context in a well-formed table always returns. On a failure (memory, the
  table) nothing is left behind. On success the identifier is positive and was unused, every
  other identifier means what it meant, the new one means a context with exactly the table's
  reference and no task, and looking it up hands out a second reference.
\<close>

lemma ctx_create_then_lookup:
  assumes t: "ctx_table mgr s" and wf: "ctxs_wf s" and alloc: "idr_contract alloc"
  shows "\<exists>r mgr' s'. lima_ctx_create pre alloc mgr s = Some (r, mgr', s') \<and> ctx_table mgr' s' \<and> ctxs_wf s' \<and>
    (case r of
      Inl e \<Rightarrow> e < 0 \<and> mgr' = mgr \<and> km_live s' = km_live s \<and> cs_ctxs s' = cs_ctxs s
    | Inr i \<Rightarrow> 0 < i \<and> map_of (cm_handles mgr) i = None \<and> (\<exists>ctx c. ctx \<notin> km_live s \<and>
        map_of (cm_handles mgr') = (map_of (cm_handles mgr))(i \<mapsto> ctx) \<and>
        cs_ctxs s' = (cs_ctxs s)(ctx \<mapsto> c) \<and> cx_refcount c = 1 \<and> quiet c \<and>
        lima_ctx_get mgr' i s' = Some (Some ctx, ctx_upd ctx (c\<lparr>cx_refcount := 2\<rparr>) s')))"
proof -
  have fresh: "km_n s \<notin> km_live s" using wf by (auto simp: ctxs_wf_def kmem_wf_def)
  have t1: "ctx_table mgr (s\<lparr>km_n := n\<rparr>)" for n using t by (simp add: ctx_table_def)
  have w1: "ctxs_wf (s\<lparr>km_n := Suc (km_n s)\<rparr>)" using wf by (auto simp: ctxs_wf_def kmem_wf_def)
  consider "\<not> km_ok s (km_n s)" | "km_ok s (km_n s)" "\<not> pre" | "km_ok s (km_n s)" "pre" "alloc (cm_handles mgr) < 0"
    | "km_ok s (km_n s)" "pre" "1 \<le> alloc (cm_handles mgr)" "nat (alloc (cm_handles mgr)) \<notin> fst ` set (cm_handles mgr)"
    using alloc by (auto simp: idr_contract_def)
  then show ?thesis
  proof cases
    case 1
    then show ?thesis using t1 w1 by (simp add: lima_ctx_create_def kzalloc_def)
  next
    case 2
    then show ?thesis using t1 w1 fresh by (simp add: lima_ctx_create_def kzalloc_def Let_def kfree_def)
  next
    case 3
    then show ?thesis using t1 w1 fresh by (simp add: lima_ctx_create_def kzalloc_def Let_def kfree_def)
  next
    case 4
    let ?i = "nat (alloc (cm_handles mgr))" and ?ctx = "km_n s"
    let ?c = "\<lparr>cx_refcount = 1, cx_guilty = 0, cx_freed = False, cx_in_flight = (\<lambda>_. 0)\<rparr>"
    let ?m = "mgr\<lparr>cm_handles := idr_insert ?i ?ctx (cm_handles mgr)\<rparr>"
    let ?s = "ctx_upd ?ctx ?c (s\<lparr>km_live := insert ?ctx (km_live s), km_n := Suc ?ctx\<rparr>)"
    have init: "fold lima_sched_context_init [lima_pipe_gp, lima_pipe_pp] ?c = ?c"
      by (simp add: lima_sched_context_init_def fun_upd_idem)
    have run: "lima_ctx_create pre alloc mgr s = Some (Inr ?i, ?m, ?s)"
      using 4(1,2,3) init by (simp add: lima_ctx_create_def kzalloc_def Let_def)
    have sorted: "sorted_wrt (<) (map fst (cm_handles mgr))" using t by (simp add: ctx_table_def)
    have none: "map_of (cm_handles mgr) ?i = None" using 4(4) by (simp add: map_of_eq_None_iff)
    have mo: "map_of (cm_handles ?m) = (map_of (cm_handles mgr))(?i \<mapsto> ?ctx)"
      using idr_insert_map_of [OF sorted 4(4)] by simp
    have nin: "?ctx \<notin> snd ` set (cm_handles mgr)"
      using t fresh by (auto simp: ctx_table_def)
    have "mset (map snd (cm_handles ?m)) = mset (?ctx # map snd (cm_handles mgr))"
      by (simp add: idr_insert_values)
    then have "distinct (map snd (cm_handles ?m)) = distinct (?ctx # map snd (cm_handles mgr))"
      by (rule mset_eq_imp_distinct_iff)
    then have "ctx_table ?m ?s"
      using t nin fresh idr_insert_sorted [OF sorted 4(4)] 4(3)
      by (auto simp: ctx_table_def idr_insert_set ctx_upd_def)
    moreover have "ctxs_wf ?s" using wf by (auto simp: ctxs_wf_def ctx_upd_def kmem_wf_def less_Suc_eq)
    moreover have "lima_ctx_get ?m ?i ?s = Some (Some ?ctx, ctx_upd ?ctx (?c\<lparr>cx_refcount := 2\<rparr>) ?s)"
      unfolding lima_ctx_get_def mo by (simp add: ctx_upd_def numeral_2_eq_2)
    moreover have "cs_ctxs ?s = (cs_ctxs s)(?ctx \<mapsto> ?c)" by (simp add: ctx_upd_def)
    moreover have "cx_refcount ?c = 1" "quiet ?c" "0 < ?i" using 4(3) by (simp_all add: quiet_def)
    ultimately show ?thesis
      using run none mo fresh
      by (intro exI [of _ "Inr ?i"] exI [of _ ?m] exI [of _ ?s]) (simp only: sum.case, blast)
  qed
qed

section \<open>Freeing\<close>

lemma filter_map_of: "map_of (filter (\<lambda>h. fst h \<noteq> i) hs) j = (if j = i then None else map_of hs j)"
  by (induction hs) auto

lemma table_lookup:
  assumes "ctx_table mgr s" and "map_of (cm_handles mgr) i = Some ctx"
  obtains c where "cs_ctxs s ctx = Some c" "0 < cx_refcount c" "\<not> cx_freed c" "ctx \<in> km_live s"
  using assms by (fastforce simp: ctx_table_def dest: map_of_SomeD)

lemma table_remove:
  assumes t: "ctx_table mgr s" and i: "map_of (cm_handles mgr) i = Some ctx"
    and o: "\<And>x. x \<noteq> ctx \<Longrightarrow> cs_ctxs s' x = cs_ctxs s x" and l: "km_live s - {ctx} \<subseteq> km_live s'"
  shows "ctx_table (mgr\<lparr>cm_handles := filter (\<lambda>h. fst h \<noteq> i) (cm_handles mgr)\<rparr>) s'"
proof -
  have other: "x \<noteq> ctx" if "(j, x) \<in> set (cm_handles mgr)" "j \<noteq> i" for j x
  proof
    assume "x = ctx"
    moreover have "(i, ctx) \<in> set (cm_handles mgr)" using i by (rule map_of_SomeD)
    moreover have "inj_on snd (set (cm_handles mgr))"
      using t by (simp add: ctx_table_def distinct_map)
    ultimately show False using that by (metis inj_onD prod.inject snd_conv)
  qed
  have s: "sorted_wrt (<) (map fst (cm_handles mgr))" and d: "distinct (map snd (cm_handles mgr))"
    using t by (simp_all add: ctx_table_def)
  have "sorted_wrt (<) (map fst (filter (\<lambda>h. fst h \<noteq> i) (cm_handles mgr)))"
    using s by (simp add: sorted_wrt_map sorted_wrt_filter)
  then show ?thesis
    using t other o l distinct_map_filterI [OF d] by (fastforce simp: ctx_table_def)
qed

text \<open>
  After a context has been freed its identifier is gone and its tasks are not: freeing
  returns \<open>0\<close>, no lookup finds the identifier again, every other identifier and context is
  untouched, and the context itself is marked freed and lives on with one reference less as
  long as anybody (a queued or running task) holds one, and is released otherwise. Freeing an
  unknown identifier returns \<open>-EINVAL\<close> and changes nothing.
\<close>

lemma ctx_free_hides_identifier:
  assumes t: "ctx_table mgr s"
    and held: "\<forall>i ctx c. map_of (cm_handles mgr) i = Some ctx \<and> cs_ctxs s ctx = Some c \<longrightarrow> cx_refcount c \<noteq> 1 \<or> quiet c"
  shows "case map_of (cm_handles mgr) i of
      None \<Rightarrow> lima_ctx_free Z mgr i s = Some (- EINVAL, mgr, s)
    | Some ctx \<Rightarrow> (\<exists>c mgr' s'. cs_ctxs s ctx = Some c \<and> lima_ctx_free Z mgr i s = Some (0, mgr', s') \<and>
        ctx_table mgr' s' \<and> lima_ctx_get mgr' i s' = Some (None, s') \<and>
        (\<forall>j. j \<noteq> i \<longrightarrow> map_of (cm_handles mgr') j = map_of (cm_handles mgr) j) \<and>
        cs_ctxs s' = (cs_ctxs s)(ctx := if cx_refcount c = 1 then None
          else Some (c\<lparr>cx_freed := True, cx_refcount := cx_refcount c - 1\<rparr>)))"
proof (cases "map_of (cm_handles mgr) i")
  case None
  then show ?thesis by (simp add: lima_ctx_free_def)
next
  case (Some ctx)
  from table_lookup [OF t Some] obtain c where c: "cs_ctxs s ctx = Some c" "0 < cx_refcount c" "ctx \<in> km_live s"
    by metis
  let ?m = "mgr\<lparr>cm_handles := filter (\<lambda>h. fst h \<noteq> i) (cm_handles mgr)\<rparr>"
  let ?c = "c\<lparr>cx_freed := True\<rparr>"
  let ?s = "if cx_refcount c = 1
    then (ctx_upd ctx ?c s)\<lparr>cs_ctxs := (cs_ctxs (ctx_upd ctx ?c s))(ctx := None), km_live := km_live s - {ctx}\<rparr>
    else ctx_upd ctx (?c\<lparr>cx_refcount := cx_refcount c - 1\<rparr>) (ctx_upd ctx ?c s)"
  have "quiet ?c = quiet c" by (simp add: quiet_def)
  moreover have "cx_refcount c \<noteq> 1 \<or> quiet c" using held Some c(1) by blast
  ultimately have "lima_ctx_put Z (Some ctx) (ctx_upd ctx ?c s) = Some ?s"
    using ctx_put_spec [of "ctx_upd ctx ?c s" ctx ?c Z] c(3) by (simp add: ctx_upd_def)
  then have run: "lima_ctx_free Z mgr i s = Some (0, ?m, ?s)"
    using Some c(1) by (simp add: lima_ctx_free_def ctx_remove_def)
  have ctxs: "cs_ctxs ?s = (cs_ctxs s)(ctx := if cx_refcount c = 1 then None
          else Some (c\<lparr>cx_freed := True, cx_refcount := cx_refcount c - 1\<rparr>))"
    by (simp add: ctx_upd_def)
  have "ctx_table ?m ?s"
    by (rule table_remove [OF t Some]) (simp_all add: ctxs, auto simp: ctx_upd_def)
  moreover have "lima_ctx_get ?m i ?s = Some (None, ?s)"
    by (simp only: lima_ctx_get_def) (simp add: filter_map_of)
  moreover have "\<forall>j. j \<noteq> i \<longrightarrow> map_of (cm_handles ?m) j = map_of (cm_handles mgr) j"
    by (simp add: filter_map_of)
  ultimately show ?thesis
    unfolding Some option.case using run c(1) ctxs
    by (intro exI [of _ c] exI [of _ ?m] exI [of _ ?s] conjI) assumption+
qed

section \<open>Closing a file\<close>

text \<open>The context after the table's reference has been dropped.\<close>

definition table_put :: "lima_ctx option \<Rightarrow> lima_ctx option" where
  "table_put x = (case x of None \<Rightarrow> None
   | Some c \<Rightarrow> if cx_refcount c = 1 then None else Some (c\<lparr>cx_freed := True, cx_refcount := cx_refcount c - 1\<rparr>))"

text \<open>
  C22. Closing a file never waits for the GPU: when every task in flight holds a reference of
  its context (as the scheduler guarantees), \<open>lima_ctx_mgr_fini\<close> returns without sleeping
  once, for every sleeper. It empties the table, releases exactly the contexts that only the
  table kept, and leaves the others, marked freed, to their tasks. (The draining loops of
  \<open>lima_sched_context_fini\<close> and its forced reset are never entered.)
\<close>

theorem ctx_mgr_fini_never_waits:
  assumes "ctx_table mgr s"
    and "\<forall>ctx c. ctx \<in> snd ` set (cm_handles mgr) \<and> cs_ctxs s ctx = Some c \<longrightarrow> cx_refcount c \<noteq> 1 \<or> quiet c"
  shows "\<exists>s'. lima_ctx_mgr_fini Z mgr s = Some s' \<and> cs_dev s' = cs_dev s \<and>
    cs_ctxs s' = (\<lambda>x. if x \<in> snd ` set (cm_handles mgr) then table_put (cs_ctxs s x) else cs_ctxs s x) \<and>
    km_live s' = km_live s - {x \<in> snd ` set (cm_handles mgr). table_put (cs_ctxs s x) = None}"
  using assms
proof (induction "length (cm_handles mgr)" arbitrary: mgr s rule: less_induct)
  case less
  show ?case
  proof (cases "cm_handles mgr")
    case Nil
    then show ?thesis by (simp add: lima_ctx_mgr_fini.simps)
  next
    case (Cons h hs)
    obtain i ctx where h: "h = (i, ctx)" by (cases h)
    have look: "map_of (cm_handles mgr) i = Some ctx" by (simp add: Cons h)
    from table_lookup [OF less.prems(1) look] obtain c where c: "cs_ctxs s ctx = Some c" "0 < cx_refcount c" "ctx \<in> km_live s"
      by metis
    have sorted: "sorted_wrt (<) (i # map fst hs)" using less.prems(1) by (simp add: ctx_table_def Cons h)
    then have hs: "filter (\<lambda>h. fst h \<noteq> i) hs = hs" by (auto intro: filter_True)
    let ?m = "\<lparr>cm_handles = hs\<rparr>"
    let ?s = "if cx_refcount c = 1
      then s\<lparr>cs_ctxs := (cs_ctxs s)(ctx := None), km_live := km_live s - {ctx}\<rparr>
      else ctx_upd ctx (c\<lparr>cx_freed := True, cx_refcount := cx_refcount c - 1\<rparr>) s"
    have "cx_refcount c \<noteq> 1 \<or> quiet (c\<lparr>cx_freed := True\<rparr>)" using less.prems(2) c(1) by (auto simp: Cons h quiet_def)
    then have "lima_ctx_put Z (Some ctx) (ctx_upd ctx (c\<lparr>cx_freed := True\<rparr>) s) = Some ?s"
      using ctx_put_spec [of "ctx_upd ctx (c\<lparr>cx_freed := True\<rparr>) s" ctx "c\<lparr>cx_freed := True\<rparr>" Z] c
      by (auto simp: ctx_upd_def)
    then have run: "lima_ctx_mgr_fini Z mgr s = lima_ctx_mgr_fini Z ?m ?s"
      using Cons h c(1) hs by (subst lima_ctx_mgr_fini.simps) (simp add: ctx_remove_def)
    have dead: "cs_ctxs ?s = (cs_ctxs s)(ctx := table_put (cs_ctxs s ctx))"
      "km_live ?s = km_live s - (if table_put (cs_ctxs s ctx) = None then {ctx} else {})" "cs_dev ?s = cs_dev s"
      using c(1) by (simp_all add: ctx_upd_def table_put_def)
    have "ctx_table (mgr\<lparr>cm_handles := filter (\<lambda>h. fst h \<noteq> i) (cm_handles mgr)\<rparr>) ?s"
    proof (rule table_remove [OF less.prems(1) look])
      show "cs_ctxs ?s x = cs_ctxs s x" if "x \<noteq> ctx" for x using that by (simp only: dead fun_upd_other not_False_eq_True)
      show "km_live s - {ctx} \<subseteq> km_live ?s" by (subst dead) auto
    qed
    then have tab: "ctx_table ?m ?s" using hs by (simp add: Cons h ctx_table_def)
    have nin: "ctx \<notin> snd ` set hs" using less.prems(1) by (simp add: ctx_table_def Cons h)
    have "\<forall>x d. x \<in> snd ` set (cm_handles ?m) \<and> cs_ctxs ?s x = Some d \<longrightarrow> cx_refcount d \<noteq> 1 \<or> quiet d"
      unfolding dead using less.prems(2) nin by (auto simp: Cons h)
    from less.hyps [OF _ tab this] Cons obtain s' where s': "lima_ctx_mgr_fini Z ?m ?s = Some s'" "cs_dev s' = cs_dev ?s"
      "cs_ctxs s' = (\<lambda>x. if x \<in> snd ` set hs then table_put (cs_ctxs ?s x) else cs_ctxs ?s x)"
      "km_live s' = km_live ?s - {x \<in> snd ` set hs. table_put (cs_ctxs ?s x) = None}" by auto
    show ?thesis
      using s' run nin unfolding dead by (auto simp: Cons h fun_eq_iff)
  qed
qed

section \<open>A file with two contexts\<close>

text \<open>Context 12 is kept by the table alone, context 13 also by a task in flight.\<close>

definition ctx_demo :: ctx_st where
  "ctx_demo = (obj_st.extend obj_demo (ctx_st.fields (dev_demo (\<lambda>_ _. 0) 0)
     [12 \<mapsto> \<lparr>cx_refcount = 1, cx_guilty = 0, cx_freed = False, cx_in_flight = (\<lambda>_. 0)\<rparr>,
      13 \<mapsto> \<lparr>cx_refcount = 2, cx_guilty = 0, cx_freed = False, cx_in_flight = (\<lambda>_. 1)\<rparr>]))
     \<lparr>km_live := {5, 9, 12, 13}\<rparr>"

definition ctx_mgr_demo :: lima_ctx_mgr where
  "ctx_mgr_demo = \<lparr>cm_handles = [(1, 12), (4, 13)]\<rparr>"

lemmas ctx_demo_defs = ctx_demo_def ctx_mgr_demo_def obj_demo_def obj_st.defs ctx_st.defs

lemma ctx_demo_ok: "ctx_table ctx_mgr_demo ctx_demo" "ctxs_wf ctx_demo"
  by (auto simp: ctx_table_def ctxs_wf_def kmem_wf_def ctx_demo_defs split: if_splits)

lemma ctx_demo_held:
  "cs_ctxs ctx_demo ctx = Some c \<Longrightarrow> cx_refcount c \<noteq> 1 \<or> quiet c"
  by (auto simp: ctx_demo_defs quiet_def split: if_splits)

lemma next_identifier_ok: "idr_contract (\<lambda>hs. int (Suc (sum_list (map fst hs))))"
proof -
  have "j \<le> sum_list (map fst hs)" if "j \<in> fst ` set hs" for j and hs :: "(nat \<times> nat) list"
    using that by (intro member_le_sum_list) simp_all
  then have "Suc (sum_list (map fst hs)) \<notin> fst ` set hs" for hs :: "(nat \<times> nat) list"
    using Suc_n_not_le_n by blast
  then show ?thesis by (simp add: idr_contract_def del: of_nat_Suc)
qed

lemma ctx_create_then_lookup_demo:
  "\<exists>r mgr' s'. lima_ctx_create True (\<lambda>hs. int (Suc (sum_list (map fst hs)))) ctx_mgr_demo ctx_demo = Some (r, mgr', s') \<and>
    ctx_table mgr' s'"
  using ctx_create_then_lookup [OF ctx_demo_ok next_identifier_ok, of True] by blast

lemma ctx_free_hides_identifier_demo:
  "\<exists>c mgr' s'. cs_ctxs ctx_demo 13 = Some c \<and> lima_ctx_free (id, 0, 0) ctx_mgr_demo 4 ctx_demo = Some (0, mgr', s') \<and>
    lima_ctx_get mgr' 4 s' = Some (None, s')"
proof -
  have "map_of (cm_handles ctx_mgr_demo) 4 = Some 13" by (simp add: ctx_mgr_demo_def)
  with ctx_free_hides_identifier [OF ctx_demo_ok(1), of "(id, 0, 0)" 4] ctx_demo_held show ?thesis
    by (simp only: option.case) blast
qed

theorem ctx_mgr_fini_never_waits_witness:
  "\<exists>s'. lima_ctx_mgr_fini (id, 0, 0) ctx_mgr_demo ctx_demo = Some s' \<and> cs_dev s' = cs_dev ctx_demo"
  using ctx_mgr_fini_never_waits [OF ctx_demo_ok(1), of "(id, 0, 0)"] ctx_demo_held by blast

end
