(* ===== verification/Lima_Frame.thy ===== *)
theory Lima_Frame
  imports Lima_Mmu
begin

text \<open>
  What the hardware code leaves alone. The operations on processors and MMUs write registers,
  the flags and counters of the pipes, and the frames of tasks, and only add to the trace of the bus; the queues, the current tasks
  and everything else of a task belong to the scheduler. The lemmas are collected in
  \<open>keeps_intros\<close> and follow the structure of an operation.
\<close>

named_theorems keeps_intros \<open>the operation leaves the scheduler's state alone\<close>

definition task_shell :: "lima_sched_task \<Rightarrow> lima_sched_task" where
  "task_shell x = x\<lparr>t_frame := []\<rparr>"

definition hw_keeps :: "lima_device \<Rightarrow> lima_device \<Rightarrow> bool" where
  "hw_keeps d d' \<longleftrightarrow>
     (\<forall>p. p_queue (dev_pipe d' p) = p_queue (dev_pipe d p) \<and>
        p_current_task (dev_pipe d' p) = p_current_task (dev_pipe d p) \<and>
        p_current_vm (dev_pipe d' p) = p_current_vm (dev_pipe d p)) \<and>
     (\<exists>es. bus_trace d' = es @ bus_trace d) \<and>
     (\<forall>t. map_option task_shell (dev_tasks d' t) = map_option task_shell (dev_tasks d t))"

text \<open>
  An operation stays inside a relation between the states before and after it. The locale has
  what such a relation needs for the lemmas on sequences, loops, register accesses and polls;
  they are proved once.
\<close>

definition keeping :: "(lima_device \<Rightarrow> lima_device \<Rightarrow> bool) \<Rightarrow> 'a hw \<Rightarrow> bool" where
  "keeping R m \<longleftrightarrow> (\<forall>d. R d (exec m d))"

locale hw_frame =
  fixes R :: "lima_device \<Rightarrow> lima_device \<Rightarrow> bool"
  assumes refl: "R d d" and trans: "R a b \<Longrightarrow> R b c \<Longrightarrow> R a c" and log: "R d (log_io e d)"
begin

lemma bind: "keeping R m \<Longrightarrow> (\<And>x. keeping R (f x)) \<Longrightarrow> keeping R (m \<bind> f)"
  by (auto simp: keeping_def intro: trans)

lemma return: "keeping R (returnM x)"
  by (simp add: keeping_def refl)

lemma gets: "keeping R (gets f)"
  by (simp add: keeping_def refl)

lemma whenM: "keeping R m \<Longrightarrow> keeping R (whenM b m)"
  by (simp add: keeping_def refl)

lemma ite: "keeping R m \<Longrightarrow> keeping R n \<Longrightarrow> keeping R (if b then m else n)"
  by simp

lemma forM: "(\<And>x. keeping R (f x)) \<Longrightarrow> keeping R (forM f xs)"
  by (induction xs) (auto intro: bind return)

lemma option: "keeping R m \<Longrightarrow> (\<And>x. keeping R (f x)) \<Longrightarrow> keeping R (case v of None \<Rightarrow> m | Some x \<Rightarrow> f x)"
  by (simp split: option.split)

lemma prod: "(\<And>x y. keeping R (f x y)) \<Longrightarrow> keeping R (case v of (x, y) \<Rightarrow> f x y)"
  by (simp split: prod.split)

lemma lets: "(\<And>x. keeping R (f x)) \<Longrightarrow> keeping R (Let v f)"
  by simp

lemma ip_read: "keeping R (ip_read i r)"
  by (simp add: keeping_def hw_simps log)

lemma ip_write: "keeping R (ip_write i r v)"
  by (simp add: keeping_def hw_simps log)

lemmas basics = bind return gets whenM ite forM option prod lets ip_read ip_write

lemma poll_loop: "keeping R f \<Longrightarrow> keeping R (lima_poll_loop f n)"
  by (induction n) (subst lima_poll_loop.simps, auto intro!: basics split: nat.split)+

lemma poll_timeout: "keeping R f \<Longrightarrow> keeping R (lima_poll_timeout f)"
  unfolding lima_poll_timeout_def by (intro basics poll_loop)

lemma readl_poll_loop: "keeping R (readl_poll_loop i r c n)"
  by (induction n) (subst readl_poll_loop.simps, auto intro!: basics split: nat.split)+

lemma readl_poll_timeout: "keeping R (readl_poll_timeout i r c)"
  unfolding readl_poll_timeout_def by (intro basics readl_poll_loop)

lemmas blocks = basics poll_loop poll_timeout readl_poll_loop readl_poll_timeout

end

interpretation hk: hw_frame hw_keeps
proof
  show "hw_keeps a c" if "hw_keeps a b" "hw_keeps b c" for a b c
    using that unfolding hw_keeps_def by (metis append_assoc)
qed (simp_all add: hw_keeps_def)

abbreviation keeps :: "'a hw \<Rightarrow> bool" where
  "keeps \<equiv> keeping hw_keeps"

lemmas keeps_def = keeping_def [of hw_keeps]
lemmas hw_keeps_refl [simp] = hk.refl
lemmas hw_keeps_trans = hk.trans
lemmas keeps_blocks [keeps_intros] = hk.blocks

section \<open>The building blocks\<close>

lemma keeps_ip_upd [keeps_intros]: "keeps (modify (ip_upd i f))"
  by (simp add: keeps_def hw_keeps_def)

lemma keeps_pipe_upd [keeps_intros]:
  assumes "\<And>x. p_queue (f x) = p_queue x" "\<And>x. p_current_task (f x) = p_current_task x"
    "\<And>x. p_current_vm (f x) = p_current_vm x"
  shows "keeps (modify (pipe_upd p f))"
  using assms by (simp add: keeps_def hw_keeps_def)

lemma keeps_set_pipe_error [keeps_intros]: "keeps (set_pipe_error p)"
  unfolding set_pipe_error_def by (intro keeps_intros) simp_all

lemma keeps_set_async_reset [keeps_intros]: "keeps (set_async_reset i b)"
  unfolding set_async_reset_def by (intro keeps_intros)

lemma keeps_task_done [keeps_intros]: "keeps (lima_sched_pipe_task_done p)"
  by (simp add: lima_sched_pipe_task_done_def keeps_def hw_keeps_def)

lemma keeps_frame_write [keeps_intros]: "keeps (frame_write t r v)"
  by (auto simp: frame_write_def keeps_def hw_keeps_def task_shell_def [abs_def] option.map_comp comp_def)

section \<open>The operations of the pipes\<close>

lemma keeps_gp [keeps_intros]:
  "keeps (lima_gp_task_run t)" "keeps lima_gp_task_error" "keeps (lima_gp_irq_handler i)"
  by (auto simp: lima_gp_task_run_def lima_gp_soft_reset_async_wait_def lima_gp_task_error_def
      lima_gp_hard_reset_def lima_gp_hard_reset_poll_def lima_gp_irq_handler_def intro!: keeps_intros)

lemma keeps_mmu [keeps_intros]: "keeps (lima_mmu_switch_vm m pd)" "keeps (lima_mmu_irq_handler i)"
  by (auto simp: lima_mmu_switch_vm_def lima_mmu_send_command_def lima_mmu_irq_handler_def
      lima_sched_pipe_mmu_error_def lima_gp_task_mmu_error_def lima_pp_task_mmu_error_def
      pp_task_dec_done_def pp_task_dec_def intro!: keeps_intros split: lima_pipe_id.split)

lemma keeps_pp_reset [keeps_intros]: "keeps (lima_pp_soft_reset_async_wait i)" "keeps (lima_pp_hard_reset i)"
proof -
  have one: "keeps (lima_pp_soft_reset_async_wait_one i)" for i
    unfolding lima_pp_soft_reset_async_wait_one_def lima_pp_soft_reset_poll_def by (intro keeps_intros)
  have "keeps (pp_wait_all is e)" for "is" e
    by (induction "is" arbitrary: e) (auto intro: keeps_intros one)
  then show "keeps (lima_pp_soft_reset_async_wait i)"
    unfolding lima_pp_soft_reset_async_wait_def by (intro keeps_intros)
  show "keeps (lima_pp_hard_reset i)"
    unfolding lima_pp_hard_reset_def lima_pp_hard_reset_poll_def by (intro keeps_intros)
qed

lemma keeps_pp_run [keeps_intros]: "keeps (lima_pp_task_run t)" "keeps lima_pp_task_error"
proof -
  have enable: "keeps (lima_dlbu_enable n)" "keeps lima_dlbu_disable" "keeps (lima_dlbu_set_reg i r)" "keeps (lima_bcast_enable n)"
    for n i r
    by (auto simp: lima_dlbu_enable_def lima_dlbu_disable_def lima_dlbu_set_reg_def lima_bcast_enable_def
        intro!: keeps_intros)
  have "keeps (set_pp_task n)" for n
    unfolding set_pp_task_def by (intro keeps_intros) simp_all
  moreover have "keeps (lima_pp_write_frame i f w)" "keeps (pp_bcast_one g j)" "keeps (pp_run_one t j)" for i f w g j
    unfolding lima_pp_write_frame_def pp_bcast_one_def pp_run_one_def by (intro keeps_intros)+
  ultimately show "keeps (lima_pp_task_run t)"
    unfolding lima_pp_task_run_def by (intro keeps_intros enable | simp)+
  show "keeps lima_pp_task_error"
    unfolding lima_pp_task_error_def pp_error_one_def by (intro keeps_intros)
qed

lemma keeps_pp_irq [keeps_intros]: "keeps (lima_pp_irq_handler i)" "keeps lima_pp_bcast_irq_handler"
proof -
  have dec: "keeps pp_task_dec_done"
    unfolding pp_task_dec_done_def pp_task_dec_def by (intro keeps_intros) simp_all
  have one: "keeps (lima_pp_handle_irq i stat)" for i stat
    unfolding lima_pp_handle_irq_def by (intro keeps_intros)
  show "keeps (lima_pp_irq_handler i)"
    unfolding lima_pp_irq_handler_def by (intro keeps_intros dec one)
  have "keeps (pp_bcast_irq_loop is r)" for "is" r
    by (induction "is" arbitrary: r)
      (subst pp_bcast_irq_loop.simps, (intro keeps_intros dec one | simp | assumption)+)+
  then show "keeps lima_pp_bcast_irq_handler"
    unfolding lima_pp_bcast_irq_handler_def by (intro keeps_intros)
qed

end
