(* ===== verification/Lima_Sched.thy ===== *)
theory Lima_Sched
  imports Lima_Ctx Lima_Frame
begin

text \<open>
  The scheduler, \<open>lima_sched.c\<close>: a strict queue per pipe, worked off by an ordered workqueue.
  The state is that of the contexts: heap, device (pipes and tasks) and contexts. The three
  work functions are operations on it; what runs between them is the step relation of
  \<open>Lima_Order\<close>.
\<close>

section \<open>State\<close>

abbreviation pipe_of :: "lima_pipe_id \<Rightarrow> 'a ctx_st_scheme \<Rightarrow> lima_sched_pipe" where
  "pipe_of p s \<equiv> dev_pipe (cs_dev s) p"

definition on_pipe :: "lima_pipe_id \<Rightarrow> (lima_sched_pipe \<Rightarrow> lima_sched_pipe) \<Rightarrow> 'a ctx_st_scheme \<Rightarrow> 'a ctx_st_scheme" where
  "on_pipe p f s = s\<lparr>cs_dev := pipe_upd p f (cs_dev s)\<rparr>"

definition task_set :: "nat \<Rightarrow> lima_sched_task option \<Rightarrow> 'a ctx_st_scheme \<Rightarrow> 'a ctx_st_scheme" where
  "task_set t x s = s\<lparr>cs_dev := (cs_dev s)\<lparr>dev_tasks := (dev_tasks (cs_dev s))(t := x)\<rparr>\<rparr>"

abbreviation task_of :: "'a ctx_st_scheme \<Rightarrow> nat \<Rightarrow> lima_sched_task option" where
  "task_of s \<equiv> dev_tasks (cs_dev s)"

section \<open>Tasks\<close>

text \<open>The slab of the fences: the result, and whether it exists; \<open>ok\<close> is \<open>kmem_cache_create\<close>.\<close>

definition lima_fence_slab_init :: "bool \<Rightarrow> int \<times> bool" where
  "lima_fence_slab_init ok = (if ok then 0 else - ENOMEM, ok)"

definition lima_sched_slab_init :: "bool \<Rightarrow> int \<times> bool" where
  "lima_sched_slab_init ok = lima_fence_slab_init ok"

definition lima_fence_slab_fini :: "bool \<Rightarrow> bool" where
  "lima_fence_slab_fini slab = False"

definition lima_sched_slab_fini :: "bool \<Rightarrow> bool" where
  "lima_sched_slab_fini slab = lima_fence_slab_fini slab"

text \<open>
  \<open>lima_sched_task_init\<close> on a task block \<open>t\<close>, for pipe \<open>p\<close> of context \<open>ctx\<close>; \<open>arr\<close> is the block
  of the array \<open>bos\<close>. When no fence can be made the task's field is \<open>NULL\<close>, which the model
  leaves at its old value: no caller reads it.
\<close>

definition lima_sched_task_init ::
    "nat \<Rightarrow> nat \<Rightarrow> lima_pipe_id \<Rightarrow> nat list \<Rightarrow> nat option \<Rightarrow> nat \<Rightarrow> 'a ctx_st_scheme \<Rightarrow> (int \<times> 'a ctx_st_scheme) option" where
  "lima_sched_task_init t ctx p bos arr vm s = do {
     x \<leftarrow> task_of s t;
     s \<leftarrow> lima_vm_get vm s;
     let x = x\<lparr>t_pipe := p, t_ctx := None, t_context := ctx, t_vm := vm,
        t_deps := [], t_deps_arr := None, t_bos := bos, t_bos_arr := arr\<rparr>;
     (case lima_fence_create (p_name (pipe_of p s)) s of
       (None, s) \<Rightarrow> do { s \<leftarrow> lima_vm_put vm s; Some (- ENOMEM, task_set t (Some x) s) }
     | (Some f, s) \<Rightarrow> Some (0, task_set t (Some (x\<lparr>t_fence := f\<rparr>)) s))
   }"

definition lima_sched_task_fini :: "'a ctx_st_scheme sleeper \<Rightarrow> nat \<Rightarrow> 'a ctx_st_scheme \<Rightarrow> 'a ctx_st_scheme option" where
  "lima_sched_task_fini Z t s = do {
     x \<leftarrow> task_of s t;
     s \<leftarrow> each fence_kref_put (t_deps x) s;
     s \<leftarrow> kfree (t_deps_arr x) s;
     s \<leftarrow> each drm_gem_object_put (t_bos x) s;
     s \<leftarrow> kfree (t_bos_arr x) s;
     s \<leftarrow> lima_ctx_put Z (t_ctx x) s;
     s \<leftarrow> lima_vm_put (t_vm x) s;
     fence_kref_put (t_fence x) s
   }"

definition lima_sched_task_add_dep :: "nat \<Rightarrow> nat \<Rightarrow> 'a ctx_st_scheme \<Rightarrow> (int \<times> 'a ctx_st_scheme) option" where
  "lima_sched_task_add_dep t f s = do {
     x \<leftarrow> task_of s t;
     (deps, s) \<leftarrow> krealloc (t_deps_arr x) s;
     case deps of
       None \<Rightarrow> Some (- ENOMEM, s)
     | Some b \<Rightarrow> Some (0, task_set t (Some (x\<lparr>t_deps := t_deps x @ [f], t_deps_arr := Some b\<rparr>)) s)
   }"

definition lima_sched_context_queue_task ::
    "nat \<Rightarrow> lima_pipe_id \<Rightarrow> nat \<Rightarrow> 'a ctx_st_scheme \<Rightarrow> (nat \<times> 'a ctx_st_scheme) option" where
  "lima_sched_context_queue_task ctx p t s = do {
     x \<leftarrow> task_of s t;
     s \<leftarrow> dma_fence_get (t_fence x) s;
     c \<leftarrow> cs_ctxs s ctx;
     let s = ctx_upd ctx (c\<lparr>cx_in_flight := (cx_in_flight c)(p := cx_in_flight c p + 1)\<rparr>) s;
     Some (t_fence x, on_pipe p (\<lambda>y. y\<lparr>p_queue := p_queue y @ [t], p_run_pending := True\<rparr>) s)
   }"

text \<open>\<open>task->context\<close> is the one of the task's pipe in the context numbered \<open>t_context\<close>.\<close>

definition finish_signal :: "lima_sched_task \<Rightarrow> bool \<Rightarrow> 'a ctx_st_scheme \<Rightarrow> 'a ctx_st_scheme option" where
  "finish_signal x err s =
     (if err then do {
        (r, s) \<leftarrow> dma_fence_signal_error (t_fence x) (- EIO) s;
        c \<leftarrow> cs_ctxs s (t_context x);
        Some (ctx_upd (t_context x) (c\<lparr>cx_guilty := cx_guilty c + 1\<rparr>) s)
      } else do {
        (r, s) \<leftarrow> dma_fence_signal (t_fence x) s;
        Some s
      })"

definition finish_count :: "lima_sched_task \<Rightarrow> 'a ctx_st_scheme \<Rightarrow> 'a ctx_st_scheme option" where
  "finish_count x s = do {
     c \<leftarrow> cs_ctxs s (t_context x);
     Some (ctx_upd (t_context x)
       (c\<lparr>cx_in_flight := (cx_in_flight c)(t_pipe x := cx_in_flight c (t_pipe x) - 1)\<rparr>) s)
   }"

definition lima_sched_finish_task :: "'a ctx_st_scheme sleeper \<Rightarrow> nat \<Rightarrow> bool \<Rightarrow> 'a ctx_st_scheme \<Rightarrow> 'a ctx_st_scheme option" where
  "lima_sched_finish_task Z t err s = do {
     x \<leftarrow> task_of s t;
     s \<leftarrow> finish_signal x err s;
     s \<leftarrow> finish_count x s;
     s \<leftarrow> lima_sched_task_fini Z t s;
     kfree (Some t) (task_set t None s)
   }"

section \<open>The work functions\<close>

definition pipe_task_validate :: "lima_pipe_id \<Rightarrow> lima_device \<Rightarrow> nat \<Rightarrow> int" where
  "pipe_task_validate p d t = (case p of
     lima_pipe_gp \<Rightarrow> lima_gp_task_validate (task_frame d t)
   | lima_pipe_pp \<Rightarrow> lima_pp_task_validate (dev_pipe d lima_pipe_pp) (task_frame d t))"

definition pipe_task_run :: "lima_pipe_id \<Rightarrow> nat \<Rightarrow> unit hw" where
  "pipe_task_run p t = (case p of lima_pipe_gp \<Rightarrow> lima_gp_task_run t | lima_pipe_pp \<Rightarrow> lima_pp_task_run t)"

definition pipe_task_error :: "lima_pipe_id \<Rightarrow> unit hw" where
  "pipe_task_error p = (case p of lima_pipe_gp \<Rightarrow> lima_gp_task_error | lima_pipe_pp \<Rightarrow> lima_pp_task_error)"

text \<open>
  One round of the loop of \<open>lima_sched_run_work\<close> in three parts: taking the head of the
  queue, waiting for the dependencies, and starting or rejecting the task. The last one says
  whether the loop goes on.
\<close>

definition run_pick :: "lima_pipe_id \<Rightarrow> 'a ctx_st_scheme \<Rightarrow> nat option \<times> 'a ctx_st_scheme" where
  "run_pick p s = (case p_queue (pipe_of p s) of
     [] \<Rightarrow> (None, s)
   | t # q \<Rightarrow> if p_current_task (pipe_of p s) \<noteq> None then (None, s)
       else (Some t, on_pipe p (\<lambda>y. y\<lparr>p_queue := q, p_current_task := Some t\<rparr>) s))"

fun run_wait :: "'a ctx_st_scheme wait_event \<Rightarrow> nat list \<Rightarrow> 'a ctx_st_scheme \<Rightarrow> (int \<times> 'a ctx_st_scheme) option" where
  "run_wait W [] s = Some (0, s)"
| "run_wait W (f # fs) s = do {
     (r, s) \<leftarrow> dma_fence_wait W f False s;
     if r < 0 then Some (r, s) else run_wait W fs s
   }"

definition run_switch_vm :: "lima_pipe_id \<Rightarrow> nat \<Rightarrow> 'a ctx_st_scheme \<Rightarrow> 'a ctx_st_scheme option" where
  "run_switch_vm p vm s =
     (if p_current_vm (pipe_of p s) \<noteq> Some vm then do {
        s \<leftarrow> each (\<lambda>m s. do {
               v \<leftarrow> vs_vms s vm;
               Some (on_dev (lima_mmu_switch_vm m (Some (vm_pd_dma v))) s)
             }) (p_mmu (pipe_of p s)) s;
        Some (on_pipe p (\<lambda>y. y\<lparr>p_current_vm := Some vm\<rparr>) s)
      } else Some s)"

definition run_go ::
    "'a ctx_st_scheme sleeper \<Rightarrow> lima_pipe_id \<Rightarrow> nat \<Rightarrow> int \<Rightarrow> 'a ctx_st_scheme \<Rightarrow> (bool \<times> 'a ctx_st_scheme) option" where
  "run_go Z p t err s = do {
     let err = (if err = 0 then pipe_task_validate p (cs_dev s) t else err);
     if err \<noteq> 0 then do {
       s \<leftarrow> lima_sched_finish_task Z t True s;
       Some (True, on_pipe p (\<lambda>y. y\<lparr>p_current_task := None\<rparr>) s)
     } else do {
       x \<leftarrow> task_of s t;
       s \<leftarrow> run_switch_vm p (t_vm x) s;
       let s = (if dev_sched_timeout_ms (cs_dev s) > 0
                then on_pipe p (\<lambda>y. y\<lparr>p_timeout_pending := True\<rparr>) s else s);
       Some (False, on_dev (pipe_task_run p t) s)
     }
   }"

definition run_round ::
    "'a ctx_st_scheme wait_event \<Rightarrow> 'a ctx_st_scheme sleeper \<Rightarrow> lima_pipe_id \<Rightarrow> 'a ctx_st_scheme
      \<Rightarrow> (bool \<times> 'a ctx_st_scheme) option" where
  "run_round W Z p s = (case run_pick p s of
     (None, s) \<Rightarrow> Some (False, s)
   | (Some t, s) \<Rightarrow> do {
       x \<leftarrow> task_of s t;
       (err, s) \<leftarrow> run_wait W (t_deps x) s;
       run_go Z p t err s
     })"

partial_function (option) lima_sched_run_work ::
    "'a ctx_st_scheme wait_event \<Rightarrow> 'a ctx_st_scheme sleeper \<Rightarrow> lima_pipe_id \<Rightarrow> 'a ctx_st_scheme \<Rightarrow> 'a ctx_st_scheme option" where
  "lima_sched_run_work W Z p s = do {
     r \<leftarrow> run_round W Z p s;
     if fst r then lima_sched_run_work W Z p (snd r) else Some (snd r)
   }"

definition lima_sched_done_work :: "'a ctx_st_scheme sleeper \<Rightarrow> lima_pipe_id \<Rightarrow> 'a ctx_st_scheme \<Rightarrow> 'a ctx_st_scheme option" where
  "lima_sched_done_work Z p s = (case p_current_task (pipe_of p s) of
     None \<Rightarrow> Some s
   | Some t \<Rightarrow> do {
       let err = p_error (pipe_of p s);
       s \<leftarrow> lima_sched_finish_task Z t err s;
       let s = on_pipe p (\<lambda>y. y\<lparr>p_current_task := None\<rparr>) s;
       let s = (if err then on_pipe p (\<lambda>y. y\<lparr>p_error := False\<rparr>) (on_dev (pipe_task_error p) s) else s);
       Some (on_pipe p (\<lambda>y. y\<lparr>p_run_pending := True\<rparr>) s)
     })"

definition lima_sched_timeout_work :: "lima_pipe_id \<Rightarrow> 'a ctx_st_scheme \<Rightarrow> 'a ctx_st_scheme" where
  "lima_sched_timeout_work p s =
     (if p_current_task (pipe_of p s) \<noteq> None
      then on_pipe p (\<lambda>y. y\<lparr>p_error := True, p_done_pending := True\<rparr>) s else s)"

section \<open>Pipes\<close>

text \<open>\<open>ok\<close> is whether \<open>alloc_ordered_workqueue\<close> succeeds; destroying no workqueue is an oops.\<close>

definition lima_sched_pipe_init :: "bool \<Rightarrow> lima_pipe_id \<Rightarrow> string \<Rightarrow> lima_device \<Rightarrow> int \<times> lima_device" where
  "lima_sched_pipe_init ok p name d = (if ok then 0 else - ENOMEM,
     pipe_upd p (\<lambda>y. y\<lparr>p_name := name, p_mmu := [], p_l2_cache := [], p_processor := [],
       p_bcast_processor := None, p_bcast_mmu := None, p_done := 0, p_error := False, p_task := 0,
       p_current_task := None, p_current_vm := None, p_queue := [], p_wq := ok,
       p_run_pending := False, p_done_pending := False, p_timeout_pending := False\<rparr>) d)"

definition lima_sched_pipe_fini :: "lima_pipe_id \<Rightarrow> lima_device \<Rightarrow> lima_device option" where
  "lima_sched_pipe_fini p d =
     (if p_wq (dev_pipe d p) then Some (pipe_upd p (\<lambda>y. y\<lparr>p_wq := False\<rparr>) d) else None)"

section \<open>Giving references back\<close>

text \<open>
  Dropping references of fences, buffer objects and address spaces changes neither the device
  nor a context, no status of a fence and no reservation object that is left.
\<close>

definition released :: "'a ctx_st_scheme \<Rightarrow> 'a ctx_st_scheme \<Rightarrow> bool" where
  "released s s' \<longleftrightarrow> cs_dev s' = cs_dev s \<and> cs_ctxs s' = cs_ctxs s \<and> km_n s' = km_n s \<and>
     (\<forall>bo y. vs_bos s' bo = Some y \<longrightarrow> map_option bo_resv (vs_bos s bo) = Some (bo_resv y)) \<and>
     (\<forall>f y. fs_fences s' f = Some y \<longrightarrow> (\<exists>x. fs_fences s f = Some x \<and> f_status x = f_status y))"

named_theorems releases \<open>the operation gives references back\<close>

lemma released_refl [simp]: "released s s"
  by (simp add: released_def)

lemma releasedD:
  assumes "released s s'"
  shows "cs_dev s' = cs_dev s" "cs_ctxs s' = cs_ctxs s"
    "fs_fences s' f = Some y \<Longrightarrow> \<exists>x. fs_fences s f = Some x \<and> f_status x = f_status y"
    "vs_bos s' bo = Some b \<Longrightarrow> map_option bo_resv (vs_bos s bo) = Some (bo_resv b)" "km_n s' = km_n s"
proof -
  note r = assms [unfolded released_def]
  show "cs_dev s' = cs_dev s" "cs_ctxs s' = cs_ctxs s" "km_n s' = km_n s" using r by blast+
  show "fs_fences s' f = Some y \<Longrightarrow> \<exists>x. fs_fences s f = Some x \<and> f_status x = f_status y" using r by blast
  show "vs_bos s' bo = Some b \<Longrightarrow> map_option bo_resv (vs_bos s bo) = Some (bo_resv b)" using r by blast
qed

lemma released_trans [trans]:
  assumes ab: "released a b" and bc: "released b c"
  shows "released a c"
  unfolding released_def
proof (intro conjI allI impI)
  show "\<exists>x. fs_fences a f = Some x \<and> f_status x = f_status y" if "fs_fences c f = Some y" for f y
    using releasedD(3) [OF bc that] releasedD(3) [OF ab] by metis
  show "map_option bo_resv (vs_bos a bo) = Some (bo_resv y)" if y: "vs_bos c bo = Some y" for bo y
  proof -
    from releasedD(4) [OF bc y] obtain z where z: "vs_bos b bo = Some z" "bo_resv z = bo_resv y" by auto
    with releasedD(4) [OF ab z(1)] show ?thesis by simp
  qed
qed (simp_all add: releasedD [OF ab] releasedD [OF bc])

lemma released_each:
  assumes "\<And>x s s'. f x s = Some s' \<Longrightarrow> released s s'" and "each f xs s = Some s'"
  shows "released s s'"
  by (rule each_preserves [where P = "released s" and f = f and xs = xs and s = s])
    (use assms in \<open>auto intro: released_trans\<close>)

lemma released_kfree [releases]: "kfree p s = Some s' \<Longrightarrow> released s s'"
  by (auto simp: kfree_def released_def split: option.splits if_splits)

lemma released_fence_put [releases]: "fence_kref_put f s = Some s' \<Longrightarrow> released s s'"
  by (auto simp: fence_kref_put_def lima_fence_release_def kfree_def released_def
      split: Option.bind_splits if_splits)

lemma released_dma_fence_put [releases]: "dma_fence_put f s = Some s' \<Longrightarrow> released s s'"
  by (auto simp: dma_fence_put_def split: option.splits intro: releases)

lemma released_fence_get [releases]: "dma_fence_get f s = Some s' \<Longrightarrow> released s s'"
  by (auto simp: dma_fence_get_def released_def split: Option.bind_splits if_splits)

lemma released_dma_free [releases]: "dma_free_wc sz d s = Some s' \<Longrightarrow> released s s'"
  by (auto simp: dma_free_wc_def released_def split: if_splits)

lemma released_vm_put [releases]:
  assumes "lima_vm_put vm s = Some s'"
  shows "released s s'"
proof -
  have bts: "free_bt v i s = Some s' \<Longrightarrow> released s s'" for v i and s s' :: "'a ctx_st_scheme"
    by (auto simp: free_bt_def split: option.splits intro: releases)
  from assms obtain v where v: "vs_vms s vm = Some v" by (auto simp: lima_vm_put_def split: Option.bind_splits)
  show ?thesis
  proof (cases "vm_refcount v = 1")
    case False
    with assms v show ?thesis by (auto simp: lima_vm_put_def released_def vm_upd_def)
  next
    case True
    with assms v obtain a b where ab: "each (free_bt v) [0..<LIMA_VM_NUM_BT] s = Some a"
      "dma_free_wc LIMA_PAGE_SIZE (vm_pd_dma v) a = Some b"
      "kfree (Some vm) (b\<lparr>vs_vms := (vs_vms b)(vm := None)\<rparr>) = Some s'"
      by (auto simp: lima_vm_put_def lima_vm_release_def split: Option.bind_splits)
    have "released s a" using bts ab(1) by (rule released_each)
    also have "released a b" using ab(2) by (rule releases)
    also have "released b (b\<lparr>vs_vms := (vs_vms b)(vm := None)\<rparr>)" by (simp add: released_def)
    also have "released \<dots> s'" using ab(3) by (rule releases)
    finally show ?thesis .
  qed
qed

lemma released_resv_fini [releases]:
  assumes "lima_resv_fini r s = Some s'"
  shows "released s s'"
proof -
  from assms obtain a b where ab: "dma_fence_put (rv_excl r) s = Some a"
    "each fence_kref_put (rv_shared r) a = Some b" "kfree (rv_arr r) b = Some s'"
    by (auto simp: lima_resv_fini_def split: Option.bind_splits)
  have "released s a" using ab(1) by (rule releases)
  also have "released a b" using released_fence_put ab(2) by (rule released_each)
  also have "released b s'" using ab(3) by (rule releases)
  finally show ?thesis .
qed

lemma released_gem_release [releases]: "drm_gem_object_release b s = Some s' \<Longrightarrow> released s s'"
  by (auto simp: drm_gem_object_release_def released_def split: if_splits)

lemma released_vunmap [releases]: "lima_bo_vunmap b s = Some (b', s') \<Longrightarrow> released s s'"
  by (auto simp: lima_bo_vunmap_def released_def split: option.splits if_splits)

lemma released_put_page [releases]: "bo_put_page ps ds i s = Some s' \<Longrightarrow> released s s'"
  by (auto simp: bo_put_page_def dma_unmap_page_def put_page_def released_def split: Option.bind_splits option.splits if_splits)

lemma released_put_pages: "each (bo_put_page ps ds) is s = Some s' \<Longrightarrow> released s s'"
  by (rule released_each [where f = "bo_put_page ps ds"]) (rule releases)

lemma released_bo_destroy [releases]:
  assumes "lima_bo_destroy bo s = Some s'"
  shows "released s s'"
proof -
  from assms obtain b b1 s1 s2 s3 s4 where b: "lima_resv_fini (bo_resv b) s = Some s1"
    and s2: "(if bo_vaddr b \<noteq> None then lima_bo_vunmap b s1 else Some (b, s1)) = Some (b1, s2)"
    and s3: "(if bo_sgt b1 \<noteq> None then do {
            s \<leftarrow> kfree (map_option fst (bo_pages b1)) s2;
            kfree (map_option fst (bo_pages_dma_addr b1)) s
          } else (case bo_pages b1 of
            None \<Rightarrow> Some s2
          | Some (kp, pages) \<Rightarrow> do {
              (kd, dmas) \<leftarrow> bo_pages_dma_addr b1;
              s \<leftarrow> each (bo_put_page pages dmas) [0..<bo_npages b1] s2;
              s \<leftarrow> kfree (Some kp) s;
              kfree (Some kd) s
            })) = Some s3"
    and s4: "drm_gem_object_release b1 s3 = Some s4" "kfree (Some bo) (s4\<lparr>vs_bos := (vs_bos s4)(bo := None)\<rparr>) = Some s'"
    by (auto simp: lima_bo_destroy_def bind_eq_Some_conv)
  have "released s s1" using b by (rule releases)
  also have "released s1 s2" using s2 by (auto split: if_splits intro: releases)
  also have "released s2 s3"
    using s3 by (auto simp: bind_eq_Some_conv split: if_splits option.splits
        dest!: released_kfree released_put_pages) (meson released_trans)+
  also have "released s3 s4" using s4(1) by (rule releases)
  also have "released s4 (s4\<lparr>vs_bos := (vs_bos s4)(bo := None)\<rparr>)" by (simp add: released_def)
  also have "released \<dots> s'" using s4(2) by (rule releases)
  finally show ?thesis .
qed

lemma released_gem_put [releases]: "drm_gem_object_put bo s = Some s' \<Longrightarrow> released s s'"
  by (auto simp: drm_gem_object_put_def lima_gem_free_object_def bind_eq_Some_conv split: if_splits
      intro: releases) (auto simp: released_def bo_upd_def)

text \<open>
  A task that is finished gives back its references; what changes in the device and the
  contexts is the drop of its context's reference.
\<close>

lemma task_fini_effect:
  assumes run: "lima_sched_task_fini Z t s = Some s'" and x: "task_of s t = Some x"
  shows "\<exists>a b. released s a \<and> lima_ctx_put Z (t_ctx x) a = Some b \<and> released b s'"
proof -
  from run x obtain s1 s2 s3 s4 b c where r: "each fence_kref_put (t_deps x) s = Some s1"
    "kfree (t_deps_arr x) s1 = Some s2" "each drm_gem_object_put (t_bos x) s2 = Some s3"
    "kfree (t_bos_arr x) s3 = Some s4" "lima_ctx_put Z (t_ctx x) s4 = Some b"
    "lima_vm_put (t_vm x) b = Some c" "fence_kref_put (t_fence x) c = Some s'"
    by (auto simp: lima_sched_task_fini_def bind_eq_Some_conv)
  have "released s s1" using released_fence_put r(1) by (rule released_each)
  also have "released s1 s2" using r(2) by (rule releases)
  also have "released s2 s3" using released_gem_put r(3) by (rule released_each)
  also have "released s3 s4" using r(4) by (rule releases)
  finally have "released s s4" .
  moreover have "released b s'" using r(6,7) by (blast intro: releases released_trans)
  ultimately show ?thesis using r(5) by blast
qed

end
