(* ===== verification/Lima_Finish.thy ===== *)
theory Lima_Finish
  imports Lima_Sched
begin

text \<open>
  The end of a task: who owns what on the heap, and that \<open>lima_sched_task_fini\<close> gives back
  exactly the references and blocks of the task, each once, and always returns.
\<close>

section \<open>The heap\<close>

text \<open>
  Fences, address spaces, buffer objects, contexts and tasks are live blocks, none of them is
  two of these; the other live blocks are plain memory.
\<close>

definition heap_others :: "'a ctx_st_scheme \<Rightarrow> nat set" where
  "heap_others s = dom (vs_bos s) \<union> dom (cs_ctxs s) \<union> dom (task_of s)"

definition heap_wf :: "'a ctx_st_scheme \<Rightarrow> bool" where
  "heap_wf s \<longleftrightarrow> fence_wf s \<and> vms_wf s \<and> heap_others s \<subseteq> km_live s \<and>
     dom (fs_fences s) \<inter> dom (vs_vms s) = {} \<and> dom (fs_fences s) \<inter> heap_others s = {} \<and>
     dom (vs_vms s) \<inter> heap_others s = {} \<and> dom (vs_bos s) \<inter> dom (cs_ctxs s) = {} \<and>
     dom (task_of s) \<inter> (dom (vs_bos s) \<union> dom (cs_ctxs s)) = {}"

definition heap_plain :: "'a ctx_st_scheme \<Rightarrow> nat set" where
  "heap_plain s = km_live s - (dom (fs_fences s) \<union> dom (vs_vms s) \<union> heap_others s)"

definition brefs :: "'a vm_st_scheme \<Rightarrow> nat \<Rightarrow> nat" where
  "brefs s b = (case vs_bos s b of None \<Rightarrow> 0 | Some x \<Rightarrow> bo_refs x)"

text \<open>What an operation on fences leaves alone, and what one on address spaces does.\<close>

definition beside_fences :: "'a ctx_st_scheme \<Rightarrow> 'a ctx_st_scheme \<Rightarrow> bool" where
  "beside_fences k s \<longleftrightarrow> vs_vms s = vs_vms k \<and> vs_bos s = vs_bos k \<and> cs_dev s = cs_dev k \<and>
     cs_ctxs s = cs_ctxs k \<and> heap_plain s = heap_plain k"

definition beside_vms :: "'a ctx_st_scheme \<Rightarrow> 'a ctx_st_scheme \<Rightarrow> bool" where
  "beside_vms k s \<longleftrightarrow> fs_fences s = fs_fences k \<and> vs_bos s = vs_bos k \<and> cs_dev s = cs_dev k \<and>
     cs_ctxs s = cs_ctxs k \<and> heap_plain s = heap_plain k"

lemma fence_get_heap:
  assumes "heap_wf s" and "beside_fences k s" and run: "dma_fence_get f s = Some s'"
  shows "heap_wf s' \<and> beside_fences k s'"
proof -
  from run obtain x where x: "fs_fences s f = Some x"
    and s': "s' = s\<lparr>fs_fences := (fs_fences s)(f \<mapsto> x\<lparr>f_refcount := Suc (f_refcount x)\<rparr>)\<rparr>"
    by (auto simp: dma_fence_get_def split: Option.bind_splits)
  have dom: "dom (fs_fences s') = dom (fs_fences s)" using x by (auto simp: s')
  have same: "heap_others s' = heap_others s" "heap_plain s' = heap_plain s"
    unfolding heap_plain_def heap_others_def dom by (simp_all add: s')
  have "fence_wf s'" using assms(1) x by (auto simp: heap_wf_def fence_wf_def kmem_wf_def s')
  then show ?thesis
    using assms(1,2) unfolding heap_wf_def beside_fences_def same dom
    by (simp add: s' vms_wf_def vm_wf_def)
qed

lemma fence_put_heap:
  assumes wf: "heap_wf s" and k: "beside_fences k s" and run: "fence_kref_put f s = Some s'"
  shows "heap_wf s' \<and> beside_fences k s'"
proof -
  from run obtain x where x: "fs_fences s f = Some x" by (auto simp: fence_kref_put_def split: Option.bind_splits)
  have f: "f \<in> km_live s" "f \<notin> dom (vs_vms s)" "f \<notin> heap_others s" "0 < frefs s f"
    using wf x by (auto simp: heap_wf_def fence_wf_def frefs_def)
  have w: "fence_wf s'" using fence_put_live [of s f] wf run f(4) by (auto simp: heap_wf_def)
  show ?thesis
  proof (cases "f_refcount x = 1")
    case True
    then have s': "s' = s\<lparr>fs_fences := (fs_fences s)(f := None), km_live := km_live s - {f}\<rparr>"
      using run x f(1) by (simp add: fence_kref_put_def lima_fence_release_def kfree_def)
    have dom: "dom (fs_fences s') = dom (fs_fences s) - {f}" "heap_others s' = heap_others s"
      by (simp_all add: s' heap_others_def)
    have plain: "heap_plain s' = heap_plain s"
      unfolding heap_plain_def dom using x by (auto simp: s')
    have vms: "vms_wf s'" using wf f(2) by (auto simp: s' heap_wf_def vms_wf_def vm_wf_def)
    have "heap_others s \<subseteq> km_live s'" using wf f(3) by (auto simp: s' heap_wf_def)
    then show ?thesis
      using wf k w vms unfolding heap_wf_def beside_fences_def plain dom by (auto simp: s')
  next
    case False
    then have s': "s' = s\<lparr>fs_fences := (fs_fences s)(f \<mapsto> x\<lparr>f_refcount := f_refcount x - 1\<rparr>)\<rparr>"
      using run x by (simp add: fence_kref_put_def)
    have dom: "dom (fs_fences s') = dom (fs_fences s)" using x by (auto simp: s')
    have same: "heap_others s' = heap_others s" "heap_plain s' = heap_plain s"
      unfolding heap_plain_def heap_others_def dom by (simp_all add: s')
    show ?thesis
      using wf k w unfolding heap_wf_def beside_fences_def same dom
      by (simp add: s' vms_wf_def vm_wf_def)
  qed
qed

interpretation heap_fence: kref_store frefs dma_fence_get fence_kref_put "\<lambda>s. heap_wf s \<and> beside_fences k s"
  for k :: "'a ctx_st_scheme"
proof (unfold_locales, goal_cases)
  case (1 s x)
  then obtain s' where "dma_fence_get x s = Some s'" "frefs s' = (frefs s)(x := Suc (frefs s x))"
    using fence_get_live [of s x] by (auto simp: heap_wf_def)
  with 1 fence_get_heap show ?case by blast
next
  case (2 s x)
  then obtain s' where "fence_kref_put x s = Some s'" "frefs s' = (frefs s)(x := frefs s x - 1)"
    using fence_put_live [of s x] by (auto simp: heap_wf_def)
  with 2 fence_put_heap show ?case by blast
next
  case (3 s x)
  then show ?case using fence.kget_dead by (auto simp: heap_wf_def)
next
  case (4 s x)
  then show ?case using fence.kput_dead by (auto simp: heap_wf_def)
qed

lemma vm_put_heap:
  assumes wf: "heap_wf s" and pos: "0 < vrefs s vm"
  shows "\<exists>s'. lima_vm_put vm s = Some s' \<and> heap_wf s' \<and> vrefs s' = (vrefs s)(vm := vrefs s vm - 1) \<and> beside_vms s s'"
proof -
  have vw: "vms_wf s" using wf by (simp add: heap_wf_def)
  from vrefs_Some [OF vw pos] obtain v where v: "vs_vms s vm = Some v" by blast
  from vm_put_live [OF vw pos] obtain s' where s': "lima_vm_put vm s = Some s'" "vms_wf s'"
    "vrefs s' = (vrefs s)(vm := vrefs s vm - 1)" by blast
  note d = vms_wfD [OF vw v]
  have "heap_wf s' \<and> beside_vms s s'"
  proof (cases "vm_refcount v = 1")
    case True
    then have s1: "s' = s\<lparr>dm_live := dm_live s - vm_bufs v, vs_vms := (vs_vms s)(vm := None), km_live := km_live s - {vm}\<rparr>"
      using s'(1) v vm_release_ledger [OF v] d by (simp add: lima_vm_put_def)
    have dom: "dom (vs_vms s') = dom (vs_vms s) - {vm}" "heap_others s' = heap_others s"
      by (simp_all add: s1 heap_others_def)
    have vm: "vm \<notin> dom (fs_fences s)" "vm \<notin> heap_others s" using wf v by (auto simp: heap_wf_def)
    have plain: "heap_plain s' = heap_plain s"
      unfolding heap_plain_def dom using v by (auto simp: s1)
    have "fence_wf s'" using wf vm(1) by (auto simp: s1 heap_wf_def fence_wf_def kmem_wf_def)
    moreover have "heap_others s \<subseteq> km_live s'" using wf vm(2) by (auto simp: s1 heap_wf_def)
    ultimately show ?thesis
      using wf s'(2) unfolding heap_wf_def beside_vms_def plain dom by (auto simp: s1)
  next
    case False
    then have s1: "s' = vm_upd vm (v\<lparr>vm_refcount := vm_refcount v - 1\<rparr>) s"
      using s'(1) v by (simp add: lima_vm_put_def)
    have dom: "dom (vs_vms s') = dom (vs_vms s)" using v by (auto simp: s1)
    have same: "heap_others s' = heap_others s" "heap_plain s' = heap_plain s"
      unfolding heap_plain_def heap_others_def dom by (simp_all add: s1 vm_upd_def)
    show ?thesis
      using wf s'(2) unfolding heap_wf_def beside_vms_def same dom
      by (simp add: s1 vm_upd_def fence_wf_def kmem_wf_def)
  qed
  with s' show ?thesis by blast
qed

text \<open>Plain blocks, references of buffer objects that are not the last, and of contexts.\<close>

lemma kfree_heap:
  assumes "heap_wf s" and "set_option p \<subseteq> heap_plain s"
  shows "\<exists>s'. kfree p s = Some s' \<and> heap_wf s' \<and> s' = s\<lparr>km_live := km_live s - set_option p\<rparr> \<and>
    heap_plain s' = heap_plain s - set_option p"
proof -
  let ?s = "s\<lparr>km_live := km_live s - set_option p\<rparr>"
  have "kfree p s = Some ?s" using assms(2) by (cases p) (auto simp: kfree_def heap_plain_def)
  moreover have "heap_others ?s = heap_others s" by (simp add: heap_others_def)
  then have "heap_wf ?s \<and> heap_plain ?s = heap_plain s - set_option p"
    using assms by (auto simp: heap_wf_def heap_plain_def fence_wf_def kmem_wf_def vms_wf_def vm_wf_def)
  ultimately show ?thesis by blast
qed

definition beside_bos :: "'a ctx_st_scheme \<Rightarrow> 'a ctx_st_scheme \<Rightarrow> bool" where
  "beside_bos k s \<longleftrightarrow> fs_fences s = fs_fences k \<and> vs_vms s = vs_vms k \<and> cs_dev s = cs_dev k \<and>
     cs_ctxs s = cs_ctxs k \<and> heap_plain s = heap_plain k"

lemma gem_puts_heap:
  assumes "heap_wf s" and "\<forall>b \<in> set bs. count_list bs b < brefs s b"
  shows "\<exists>s'. each drm_gem_object_put bs s = Some s' \<and> heap_wf s' \<and>
    brefs s' = (\<lambda>b. brefs s b - count_list bs b) \<and> beside_bos s s'"
  using assms
proof (induction bs arbitrary: s)
  case Nil
  then show ?case by (simp add: beside_bos_def)
next
  case (Cons b bs)
  from Cons.prems(2) obtain x where x: "vs_bos s b = Some x" "Suc (count_list bs b) < bo_refs x"
    by (auto simp: brefs_def split: option.splits)
  let ?s = "bo_upd b (x\<lparr>bo_refs := bo_refs x - 1\<rparr>) s"
  have put: "drm_gem_object_put b s = Some ?s" using x by (simp add: drm_gem_object_put_def)
  have dom: "dom (vs_bos ?s) = dom (vs_bos s)" using x(1) by (auto simp: bo_upd_def)
  have same: "heap_others ?s = heap_others s" "heap_plain ?s = heap_plain s"
    unfolding heap_plain_def heap_others_def dom by (simp_all add: bo_upd_def)
  have wf: "heap_wf ?s"
    using Cons.prems(1) unfolding heap_wf_def same dom
    by (simp add: bo_upd_def fence_wf_def kmem_wf_def vms_wf_def vm_wf_def)
  have refs: "brefs ?s = (brefs s)(b := brefs s b - 1)"
    using x(1) by (auto simp: brefs_def bo_upd_def fun_eq_iff)
  have "\<forall>c \<in> set bs. count_list bs c < brefs ?s c"
    using Cons.prems(2) x by (auto simp: refs brefs_def split: if_splits)
  from Cons.IH [OF wf this] obtain s' where s': "each drm_gem_object_put bs ?s = Some s'" "heap_wf s'"
    "brefs s' = (\<lambda>c. brefs ?s c - count_list bs c)" "beside_bos ?s s'" by blast
  have "beside_bos s ?s" using same by (simp add: beside_bos_def bo_upd_def)
  with s'(4) have "beside_bos s s'" by (simp add: beside_bos_def)
  with s' put refs show ?case by (auto simp: fun_eq_iff)
qed

definition ctx_dropped :: "lima_ctx \<Rightarrow> lima_ctx option" where
  "ctx_dropped c = (if cx_refcount c = 1 then None else Some (c\<lparr>cx_refcount := cx_refcount c - 1\<rparr>))"

lemma ctx_put_heap:
  assumes wf: "heap_wf s" and c: "cs_ctxs s k = Some c" and ok: "cx_refcount c \<noteq> 1 \<or> quiet c"
  shows "\<exists>s'. lima_ctx_put Z (Some k) s = Some s' \<and> heap_wf s' \<and> cs_ctxs s' = (cs_ctxs s)(k := ctx_dropped c) \<and>
    fs_fences s' = fs_fences s \<and> vs_vms s' = vs_vms s \<and> vs_bos s' = vs_bos s \<and> cs_dev s' = cs_dev s \<and>
    heap_plain s' = heap_plain s \<and> km_live s' \<subseteq> km_live s"
proof -
  have k: "k \<in> km_live s" "k \<notin> dom (fs_fences s)" "k \<notin> dom (vs_vms s)" "k \<notin> dom (vs_bos s)" "k \<notin> dom (task_of s)"
    using wf c by (auto simp: heap_wf_def heap_others_def)
  let ?s = "if cx_refcount c = 1
    then s\<lparr>cs_ctxs := (cs_ctxs s)(k := None), km_live := km_live s - {k}\<rparr>
    else ctx_upd k (c\<lparr>cx_refcount := cx_refcount c - 1\<rparr>) s"
  have put: "lima_ctx_put Z (Some k) s = Some ?s" by (rule ctx_put_spec [OF c k(1) ok])
  have "heap_wf ?s \<and> heap_plain ?s = heap_plain s"
  proof (cases "cx_refcount c = 1")
    case True
    have oth: "heap_others ?s = heap_others s - {k}"
      using True k by (auto simp: heap_others_def)
    have "k \<in> heap_others s" using c by (auto simp: heap_others_def)
    then have plain: "heap_plain ?s = heap_plain s"
      unfolding heap_plain_def oth using True by auto
    have "fence_wf ?s" "vms_wf ?s"
      using wf k True by (auto simp: heap_wf_def fence_wf_def kmem_wf_def vms_wf_def vm_wf_def)
    then show ?thesis using wf unfolding plain heap_wf_def oth using True by auto
  next
    case False
    have dom: "dom (cs_ctxs ?s) = dom (cs_ctxs s)" using False c by (auto simp: ctx_upd_def)
    have same: "heap_others ?s = heap_others s" "heap_plain ?s = heap_plain s"
      unfolding heap_plain_def heap_others_def dom using False by (simp_all add: ctx_upd_def)
    show ?thesis
      using wf unfolding same heap_wf_def dom using False
      by (simp add: ctx_upd_def fence_wf_def kmem_wf_def vms_wf_def vm_wf_def)
  qed
  then show ?thesis using put by (intro exI [of _ ?s]) (auto simp: ctx_dropped_def ctx_upd_def)
qed

section \<open>The end of a task\<close>

text \<open>
  What a task owns: one reference of its fence and of each dependency, of its address space, of
  each entry of its buffer list, of its context, and the blocks of the two arrays. The buffer
  objects have other references (their handles); dropping the last one is
  \<open>bo_create_put_ledger\<close>. A context whose last reference this is has nothing in flight.
\<close>

definition task_owned :: "lima_sched_task \<Rightarrow> nat \<Rightarrow> lima_ctx \<Rightarrow> 'a ctx_st_scheme \<Rightarrow> bool" where
  "task_owned x k c s \<longleftrightarrow>
     (\<forall>f. count_list (t_fence x # t_deps x) f \<le> frefs s f) \<and> 0 < vrefs s (t_vm x) \<and>
     (\<forall>b \<in> set (t_bos x). count_list (t_bos x) b < brefs s b) \<and>
     set_option (t_deps_arr x) \<union> set_option (t_bos_arr x) \<subseteq> heap_plain s \<and>
     set_option (t_deps_arr x) \<inter> set_option (t_bos_arr x) = {} \<and>
     t_ctx x = Some k \<and> cs_ctxs s k = Some c \<and> (cx_refcount c \<noteq> 1 \<or> quiet c)"

text \<open>The part of it that does not concern the context: an unfinished submission has none yet.\<close>

definition task_refs :: "lima_sched_task \<Rightarrow> 'a ctx_st_scheme \<Rightarrow> bool" where
  "task_refs x s \<longleftrightarrow>
     (\<forall>f. count_list (t_fence x # t_deps x) f \<le> frefs s f) \<and> 0 < vrefs s (t_vm x) \<and>
     (\<forall>b \<in> set (t_bos x). count_list (t_bos x) b < brefs s b) \<and>
     set_option (t_deps_arr x) \<union> set_option (t_bos_arr x) \<subseteq> heap_plain s \<and>
     set_option (t_deps_arr x) \<inter> set_option (t_bos_arr x) = {}"

lemma task_owned_refs: "task_owned x k c s \<Longrightarrow> task_refs x s"
  by (simp add: task_owned_def task_refs_def)

lemma ctx_put_opt_heap:
  assumes wf: "heap_wf s" and c: "p = Some k \<Longrightarrow> cs_ctxs s k = Some c \<and> (cx_refcount c \<noteq> 1 \<or> quiet c)"
    and p: "p = None \<or> p = Some k"
  shows "\<exists>s'. lima_ctx_put Z p s = Some s' \<and> heap_wf s' \<and>
    cs_ctxs s' = (if p = None then cs_ctxs s else (cs_ctxs s)(k := ctx_dropped c)) \<and>
    fs_fences s' = fs_fences s \<and> vs_vms s' = vs_vms s \<and> vs_bos s' = vs_bos s \<and> cs_dev s' = cs_dev s \<and>
    heap_plain s' = heap_plain s \<and> km_live s' \<subseteq> km_live s"
  using p
proof
  assume "p = None"
  then show ?thesis using wf by (simp add: lima_ctx_put_def)
next
  assume p: "p = Some k"
  with c have "cs_ctxs s k = Some c" "cx_refcount c \<noteq> 1 \<or> quiet c" by simp_all
  from ctx_put_heap [OF wf this, of Z] show ?thesis by (simp add: p)
qed

text \<open>Dropping references allocates nothing.\<close>

lemma fence_put_shrinks: "fence_kref_put f s = Some s' \<Longrightarrow> km_live s' \<subseteq> km_live s"
  by (auto simp: fence_kref_put_def lima_fence_release_def kfree_def split: bind_splits if_splits)

lemma free_bts_live: "each (free_bt v) js s = Some s' \<Longrightarrow> km_live s' = km_live s"
  by (induction js arbitrary: s)
    (fastforce simp: free_bt_def dma_free_wc_def split: bind_splits if_splits option.splits)+

lemma vm_put_shrinks: "lima_vm_put vm s = Some s' \<Longrightarrow> km_live s' \<subseteq> km_live s"
  by (auto simp: lima_vm_put_def lima_vm_release_def dma_free_wc_def kfree_def vm_upd_def
    dest: free_bts_live split: bind_splits if_splits)

lemma task_fini_refs:
  assumes wf: "heap_wf s" and x: "task_of s t = Some x" and own: "task_refs x s"
    and cx: "t_ctx x = Some k \<Longrightarrow> cs_ctxs s k = Some c \<and> (cx_refcount c \<noteq> 1 \<or> quiet c)"
    and p: "t_ctx x = None \<or> t_ctx x = Some k"
  shows "\<exists>s'. lima_sched_task_fini Z t s = Some s' \<and> heap_wf s' \<and> cs_dev s' = cs_dev s \<and>
    frefs s' = (\<lambda>f. frefs s f - count_list (t_fence x # t_deps x) f) \<and>
    vrefs s' = (vrefs s)(t_vm x := vrefs s (t_vm x) - 1) \<and>
    brefs s' = (\<lambda>b. brefs s b - count_list (t_bos x) b) \<and>
    cs_ctxs s' = (if t_ctx x = None then cs_ctxs s else (cs_ctxs s)(k := ctx_dropped c)) \<and>
    heap_plain s' = heap_plain s - set_option (t_deps_arr x) - set_option (t_bos_arr x) \<and>
    set_option (t_bos_arr x) \<inter> km_live s' = {}"
proof -
  have le: "count_list (t_deps x) f \<le> frefs s f" for f
    using own by (auto simp: task_refs_def dest: spec [of _ f] split: if_splits)
  then obtain s1 where s1: "each fence_kref_put (t_deps x) s = Some s1" "heap_wf s1" "beside_fences s s1"
    "frefs s1 = (\<lambda>f. frefs s f - count_list (t_deps x) f)"
    using heap_fence.put_all [of s s "t_deps x"] wf by (auto simp: beside_fences_def)
  then have "set_option (t_deps_arr x) \<subseteq> heap_plain s1" using own by (auto simp: task_refs_def beside_fences_def)
  with kfree_heap [OF s1(2)] obtain s2 where s2: "kfree (t_deps_arr x) s1 = Some s2" "heap_wf s2"
    "s2 = s1\<lparr>km_live := km_live s1 - set_option (t_deps_arr x)\<rparr>" "heap_plain s2 = heap_plain s1 - set_option (t_deps_arr x)"
    by blast
  have "brefs s2 = brefs s" using s1(3) by (simp add: s2(3) brefs_def beside_fences_def fun_eq_iff)
  with own gem_puts_heap [OF s2(2), of "t_bos x"] obtain s3 where s3: "each drm_gem_object_put (t_bos x) s2 = Some s3"
    "heap_wf s3" "brefs s3 = (\<lambda>b. brefs s b - count_list (t_bos x) b)" "beside_bos s2 s3"
    unfolding task_refs_def by auto
  have "set_option (t_bos_arr x) \<subseteq> heap_plain s3"
    using own s1(3) s2(4) s3(4) by (auto simp: task_refs_def beside_fences_def beside_bos_def)
  with kfree_heap [OF s3(2)] obtain s4 where s4: "kfree (t_bos_arr x) s3 = Some s4" "heap_wf s4"
    "s4 = s3\<lparr>km_live := km_live s3 - set_option (t_bos_arr x)\<rparr>" "heap_plain s4 = heap_plain s3 - set_option (t_bos_arr x)"
    by blast
  have same4: "cs_ctxs s4 = cs_ctxs s" using s1(3) s3(4) by (simp add: s2(3) s4(3) beside_fences_def beside_bos_def)
  have c4: "t_ctx x = Some k \<Longrightarrow> cs_ctxs s4 k = Some c \<and> (cx_refcount c \<noteq> 1 \<or> quiet c)" using cx same4 by simp
  from ctx_put_opt_heap [OF s4(2) c4 p, of Z] obtain s5 where s5: "lima_ctx_put Z (t_ctx x) s4 = Some s5" "heap_wf s5"
    "cs_ctxs s5 = (if t_ctx x = None then cs_ctxs s4 else (cs_ctxs s4)(k := ctx_dropped c))" "fs_fences s5 = fs_fences s4" "vs_vms s5 = vs_vms s4"
    "vs_bos s5 = vs_bos s4" "cs_dev s5 = cs_dev s4" "heap_plain s5 = heap_plain s4" "km_live s5 \<subseteq> km_live s4" by blast
  have v5: "vrefs s5 = vrefs s"
    using s1(3) s3(4) by (simp add: fun_eq_iff vrefs_def s5 s4(3) s2(3) beside_fences_def beside_bos_def)
  with own vm_put_heap [OF s5(2)] obtain s6 where s6: "lima_vm_put (t_vm x) s5 = Some s6" "heap_wf s6"
    "vrefs s6 = (vrefs s)(t_vm x := vrefs s (t_vm x) - 1)" "beside_vms s5 s6"
    unfolding task_refs_def by metis
  have f6: "frefs s6 = (\<lambda>f. frefs s f - count_list (t_deps x) f)"
    using s1(4) s3(4) s6(4) by (simp add: fun_eq_iff frefs_def s5 s4(3) s2(3) beside_vms_def beside_bos_def)
  have "0 < frefs s6 (t_fence x)"
    using own unfolding f6 task_refs_def by (auto dest: spec [of _ "t_fence x"])
  with heap_fence.kput_live [of s6 s6 "t_fence x"] s6(2) obtain s7 where s7: "fence_kref_put (t_fence x) s6 = Some s7"
    "heap_wf s7" "beside_fences s6 s7" "frefs s7 = (frefs s6)(t_fence x := frefs s6 (t_fence x) - 1)"
    by (auto simp: beside_fences_def)
  have run: "lima_sched_task_fini Z t s = Some s7"
    using x s1(1) s2(1) s3(1) s4(1) s5(1) s6(1) s7(1) by (simp add: lima_sched_task_fini_def)
  have b: "brefs s7 = brefs s3"
    using s6(4) s7(3) by (simp add: fun_eq_iff brefs_def s5 s4(3) beside_fences_def beside_vms_def)
  have "vrefs s7 = vrefs s6" using s7(3) by (simp add: fun_eq_iff vrefs_def beside_fences_def)
  moreover have "frefs s7 = (\<lambda>f. frefs s f - count_list (t_fence x # t_deps x) f)"
    by (auto simp: s7(4) f6 fun_eq_iff)
  moreover have "cs_dev s7 = cs_dev s" "cs_ctxs s7 = (if t_ctx x = None then cs_ctxs s else (cs_ctxs s)(k := ctx_dropped c))"
    "heap_plain s7 = heap_plain s - set_option (t_deps_arr x) - set_option (t_bos_arr x)"
    using s1(3) s2(4) s3(4) s4(4) s5 s6(4) s7(3)
    by (simp_all add: s2(3) s4(3) beside_fences_def beside_vms_def beside_bos_def)
  moreover have "set_option (t_bos_arr x) \<inter> km_live s7 = {}"
  proof -
    have "km_live s7 \<subseteq> km_live s4"
      using s5(9) vm_put_shrinks [OF s6(1)] fence_put_shrinks [OF s7(1)] by blast
    then show ?thesis by (auto simp: s4(3))
  qed
  ultimately show ?thesis using run s7(2) s6(3) s3(3) b by (intro exI [of _ s7]) simp
qed

lemma task_fini_heap:
  assumes wf: "heap_wf s" and x: "task_of s t = Some x" and own: "task_owned x k c s"
  shows "\<exists>s'. lima_sched_task_fini Z t s = Some s' \<and> heap_wf s' \<and> cs_dev s' = cs_dev s \<and>
    frefs s' = (\<lambda>f. frefs s f - count_list (t_fence x # t_deps x) f) \<and>
    vrefs s' = (vrefs s)(t_vm x := vrefs s (t_vm x) - 1) \<and>
    brefs s' = (\<lambda>b. brefs s b - count_list (t_bos x) b) \<and>
    cs_ctxs s' = (cs_ctxs s)(k := ctx_dropped c) \<and>
    heap_plain s' = heap_plain s - set_option (t_deps_arr x) - set_option (t_bos_arr x)"
proof -
  have "t_ctx x = Some k" "cs_ctxs s k = Some c \<and> (cx_refcount c \<noteq> 1 \<or> quiet c)"
    using own by (simp_all add: task_owned_def)
  with task_fini_refs [OF wf x task_owned_refs [OF own], of k c Z] show ?thesis by force
qed

text \<open>The context's counters when a task is over.\<close>

definition task_over :: "lima_sched_task \<Rightarrow> bool \<Rightarrow> lima_ctx \<Rightarrow> lima_ctx" where
  "task_over x err c = c\<lparr>cx_guilty := cx_guilty c + (if err then 1 else 0),
     cx_in_flight := (cx_in_flight c)(t_pipe x := cx_in_flight c (t_pipe x) - 1)\<rparr>"

definition task_status :: "bool \<Rightarrow> int \<Rightarrow> int" where
  "task_status err old = (if old = 0 then if err then - EIO else 1 else old)"

lemma ctx_upd_heap: "heap_wf s \<Longrightarrow> cs_ctxs s k = Some c \<Longrightarrow> heap_wf (ctx_upd k d s) \<and> heap_plain (ctx_upd k d s) = heap_plain s"
  by (auto simp: heap_wf_def heap_plain_def heap_others_def ctx_upd_def fence_wf_def kmem_wf_def vms_wf_def vm_wf_def)

lemma signal_heap:
  assumes wf: "heap_wf s" and run: "lima_fence_do_signal f v s = Some (r, s')"
  shows "heap_wf s' \<and> heap_plain s' = heap_plain s \<and> frefs s' = frefs s \<and> vs_vms s' = vs_vms s \<and> vs_bos s' = vs_bos s \<and>
    cs_dev s' = cs_dev s \<and> cs_ctxs s' = cs_ctxs s \<and>
    fence_status s' = (fence_status s)(f := if fence_status s f = 0 then v else fence_status s f)"
proof -
  from run obtain x where x: "fs_fences s f = Some x" by (auto simp: lima_fence_do_signal_def split: Option.bind_splits)
  have f: "fence_wf s'" using do_signal_wf [OF run] wf by (simp add: heap_wf_def)
  have s': "s' = s \<or> s' = s\<lparr>fs_fences := (fs_fences s)(f \<mapsto> x\<lparr>f_status := v, f_timestamp_ns := km_time s\<rparr>)\<rparr>"
    using run x by (auto simp: lima_fence_do_signal_def split: if_splits)
  then have dom: "dom (fs_fences s') = dom (fs_fences s)" using x by (elim disjE) (simp_all add: insert_absorb domI)
  have rest: "km_live s' = km_live s" "vs_vms s' = vs_vms s" "vs_bos s' = vs_bos s" "cs_dev s' = cs_dev s"
    "cs_ctxs s' = cs_ctxs s" "dm_live s' = dm_live s" using s' by auto
  have same: "heap_others s' = heap_others s" "heap_plain s' = heap_plain s"
    unfolding heap_plain_def heap_others_def dom by (simp_all add: rest)
  have "heap_wf s'"
    using wf f unfolding heap_wf_def dom same by (simp add: rest vms_wf_def vm_wf_def)
  with do_signal_frame [OF run] rest same show ?thesis by simp
qed

lemma finish_signal_heap:
  assumes wf: "heap_wf s" and f: "0 < frefs s (t_fence x)" and c: "cs_ctxs s (t_context x) = Some c"
  shows "\<exists>a b. finish_signal x err s = Some a \<and> finish_count x a = Some b \<and> heap_wf b \<and> heap_plain b = heap_plain s \<and>
    frefs b = frefs s \<and> vs_vms b = vs_vms s \<and> vs_bos b = vs_bos s \<and> cs_dev b = cs_dev s \<and>
    cs_ctxs b = (cs_ctxs s)(t_context x \<mapsto> task_over x err c) \<and>
    fence_status b = (fence_status s)(t_fence x := task_status err (fence_status s (t_fence x)))"
proof -
  let ?v = "if err then - EIO else 1"
  have fw: "fence_wf s" using wf by (simp add: heap_wf_def)
  from do_signal_returns [OF fw f] obtain r s1 where run: "lima_fence_do_signal (t_fence x) ?v s = Some (r, s1)" by blast
  note h = signal_heap [OF wf run]
  have sig: "(if err then dma_fence_signal_error (t_fence x) (- EIO) s else dma_fence_signal (t_fence x) s) = Some (r, s1)"
    using run by (auto simp: dma_fence_signal_error_def dma_fence_signal_def)
  have c1: "cs_ctxs s1 (t_context x) = Some c" using h c by simp
  let ?g = "if err then c\<lparr>cx_guilty := cx_guilty c + 1\<rparr> else c"
  let ?b = "ctx_upd (t_context x) (task_over x err c) s1"
  have a: "\<exists>a. finish_signal x err s = Some a \<and> finish_count x a = Some ?b"
    using sig c1 by (cases err) (auto simp: finish_signal_def finish_count_def ctx_upd_def task_over_def)
  have same: "fence_status ?b = fence_status s1" "frefs ?b = frefs s1" "vs_vms ?b = vs_vms s1" "vs_bos ?b = vs_bos s1"
    "cs_dev ?b = cs_dev s1" "cs_ctxs ?b = (cs_ctxs s1)(t_context x \<mapsto> task_over x err c)"
    by (simp_all add: fence_status_def frefs_def ctx_upd_def fun_eq_iff)
  have "heap_wf ?b" "heap_plain ?b = heap_plain s1" using ctx_upd_heap [OF _ c1] h by blast+
  moreover have "(fence_status s)(t_fence x := if fence_status s (t_fence x) = 0 then ?v else fence_status s (t_fence x)) =
      (fence_status s)(t_fence x := task_status err (fence_status s (t_fence x)))"
    by (simp add: task_status_def)
  ultimately show ?thesis using a h same by metis
qed

lemma status_kept: "released s s' \<Longrightarrow> fs_fences s' f = Some y \<Longrightarrow> f_status y = fence_status s f"
  by (drule (1) releasedD(3)) (auto simp: fence_status_def)

lemma task_freed_heap:
  assumes wf: "heap_wf s" and x: "task_of s t = Some x"
  shows "\<exists>s'. kfree (Some t) (task_set t None s) = Some s' \<and> heap_wf s' \<and> heap_plain s' = heap_plain s \<and> t \<notin> km_live s' \<and>
    cs_dev s' = (cs_dev s)\<lparr>dev_tasks := (task_of s)(t := None)\<rparr> \<and> fs_fences s' = fs_fences s \<and> vs_vms s' = vs_vms s \<and>
    vs_bos s' = vs_bos s \<and> cs_ctxs s' = cs_ctxs s"
proof -
  let ?s = "(task_set t None s)\<lparr>km_live := km_live s - {t}\<rparr>"
  have t: "t \<in> km_live s" "t \<notin> dom (fs_fences s)" "t \<notin> dom (vs_vms s)" "t \<notin> dom (vs_bos s)" "t \<notin> dom (cs_ctxs s)"
    using wf x by (auto simp: heap_wf_def heap_others_def)
  then have run: "kfree (Some t) (task_set t None s) = Some ?s" by (simp add: kfree_def task_set_def)
  have oth: "heap_others ?s = heap_others s - {t}" using t by (auto simp: heap_others_def task_set_def)
  have "t \<in> heap_others s" using x by (auto simp: heap_others_def)
  then have plain: "heap_plain ?s = heap_plain s"
    unfolding heap_plain_def oth by (auto simp: task_set_def)
  have "fence_wf ?s" "vms_wf ?s"
    using wf t by (auto simp: heap_wf_def fence_wf_def kmem_wf_def vms_wf_def vm_wf_def task_set_def)
  then have "heap_wf ?s"
    using wf unfolding heap_wf_def oth by (auto simp: task_set_def)
  then show ?thesis using run plain by (intro exI [of _ ?s]) (simp add: task_set_def)
qed

lemma finish_task_heap:
  assumes wf: "heap_wf s" and x: "task_of s t = Some x" and k: "t_context x = k" "cs_ctxs s k = Some c"
    and own: "task_owned x k (task_over x err c) (ctx_upd k (task_over x err c) s)"
  shows "\<exists>s'. lima_sched_finish_task Z t err s = Some s' \<and> heap_wf s' \<and>
    cs_dev s' = (cs_dev s)\<lparr>dev_tasks := (task_of s)(t := None)\<rparr> \<and>
    cs_ctxs s' = (cs_ctxs s)(k := ctx_dropped (task_over x err c)) \<and>
    frefs s' = (\<lambda>f. frefs s f - count_list (t_fence x # t_deps x) f) \<and>
    vrefs s' = (vrefs s)(t_vm x := vrefs s (t_vm x) - 1) \<and>
    brefs s' = (\<lambda>b. brefs s b - count_list (t_bos x) b) \<and>
    heap_plain s' = heap_plain s - set_option (t_deps_arr x) - set_option (t_bos_arr x) \<and> t \<notin> km_live s' \<and>
    (\<forall>f y. fs_fences s' f = Some y \<longrightarrow> f_status y =
       ((fence_status s)(t_fence x := task_status err (fence_status s (t_fence x)))) f)"
proof -
  have own_fence: "\<forall>f. count_list (t_fence x # t_deps x) f \<le> frefs s f"
    using own by (simp add: task_owned_def ctx_upd_def frefs_def)
  then have f: "0 < frefs s (t_fence x)" by (auto dest: spec [of _ "t_fence x"])
  from finish_signal_heap [OF wf f, of c err] k obtain a b where b: "finish_signal x err s = Some a" "finish_count x a = Some b"
    "heap_wf b" "heap_plain b = heap_plain s" "frefs b = frefs s" "vs_vms b = vs_vms s" "vs_bos b = vs_bos s"
    "cs_dev b = cs_dev s" "cs_ctxs b = (cs_ctxs s)(k \<mapsto> task_over x err c)"
    "fence_status b = (fence_status s)(t_fence x := task_status err (fence_status s (t_fence x)))" by auto
  have vb: "vrefs b = vrefs s" "brefs b = brefs s" by (simp_all add: fun_eq_iff vrefs_def brefs_def b)
  have "heap_plain (ctx_upd k (task_over x err c) s) = heap_plain s" using ctx_upd_heap [OF wf k(2)] by blast
  then have own_b: "task_owned x k (task_over x err c) b"
    using own unfolding task_owned_def b vb by (simp add: ctx_upd_def frefs_def vrefs_def brefs_def)
  have xb: "task_of b t = Some x" using x b(8) by simp
  from task_fini_heap [OF b(3) xb own_b] obtain s1 where s1: "lima_sched_task_fini Z t b = Some s1" "heap_wf s1"
    "cs_dev s1 = cs_dev b" "frefs s1 = (\<lambda>f. frefs b f - count_list (t_fence x # t_deps x) f)"
    "vrefs s1 = (vrefs b)(t_vm x := vrefs b (t_vm x) - 1)" "brefs s1 = (\<lambda>o'. brefs b o' - count_list (t_bos x) o')"
    "cs_ctxs s1 = (cs_ctxs b)(k := ctx_dropped (task_over x err c))"
    "heap_plain s1 = heap_plain b - set_option (t_deps_arr x) - set_option (t_bos_arr x)" by blast
  from task_fini_effect [OF s1(1) xb] own_b obtain u v where uv: "released b u" "lima_ctx_put Z (Some k) u = Some v" "released v s1"
    by (auto simp: task_owned_def)
  have "cs_ctxs u k = Some (task_over x err c)" using uv(1) b(9) by (simp add: releasedD)
  then have "fs_fences v = fs_fences u"
  proof -
    have live: "k \<in> km_live u" if "cx_refcount (task_over x err c) = 1"
      using uv(2) \<open>cs_ctxs u k = Some (task_over x err c)\<close> that own
        context_fini_quiet [of "ctx_upd k ((task_over x err c)\<lparr>cx_refcount := 0\<rparr>) u" k "(task_over x err c)\<lparr>cx_refcount := 0\<rparr>" Z]
      by (auto simp: lima_ctx_put_def lima_ctx_release_def kfree_def task_owned_def ctx_upd_def quiet_def split: if_splits)
    show ?thesis
    proof (cases "cx_refcount (task_over x err c) = 1")
      case True
      with ctx_put_spec [of u k "task_over x err c" Z] live \<open>cs_ctxs u k = Some (task_over x err c)\<close> own uv(2)
      show ?thesis by (auto simp: task_owned_def)
    next
      case False
      with uv(2) \<open>cs_ctxs u k = Some (task_over x err c)\<close> show ?thesis by (auto simp: lima_ctx_put_def ctx_upd_def)
    qed
  qed
  then have status: "f_status y = fence_status b f" if "fs_fences s1 f = Some y" for f y
    using releasedD(3) [OF uv(3) that] status_kept [OF uv(1), of f] by fastforce
  from task_freed_heap [OF s1(2), of t x] s1(3) xb obtain s2 where s2: "kfree (Some t) (task_set t None s1) = Some s2" "heap_wf s2"
    "heap_plain s2 = heap_plain s1" "t \<notin> km_live s2" "cs_dev s2 = (cs_dev s1)\<lparr>dev_tasks := (task_of s1)(t := None)\<rparr>"
    "fs_fences s2 = fs_fences s1" "vs_vms s2 = vs_vms s1" "vs_bos s2 = vs_bos s1" "cs_ctxs s2 = cs_ctxs s1" by auto
  have run: "lima_sched_finish_task Z t err s = Some s2"
    using x b(1,2) s1(1) s2(1) by (simp add: lima_sched_finish_task_def)
  moreover have "frefs s2 = frefs s1" "vrefs s2 = vrefs s1" "brefs s2 = brefs s1"
    by (simp_all add: fun_eq_iff frefs_def vrefs_def brefs_def s2)
  moreover have "f_status y = fence_status b f" if "fs_fences s2 f = Some y" for f y
    using status that by (simp add: s2(6))
  ultimately show ?thesis
    using s2 s1 b vb by (intro exI [of _ s2]) simp
qed

section \<open>The completion work\<close>

lemma keeps_pipe_ops [keeps_intros]: "keeps (pipe_task_error p)" "keeps (pipe_task_run p t)"
  by (auto simp: pipe_task_error_def pipe_task_run_def intro: keeps_intros split: lima_pipe_id.split)

lemma hw_keeps_dom: "hw_keeps d d' \<Longrightarrow> dom (dev_tasks d') = dom (dev_tasks d)"
  by (auto simp: hw_keeps_def dom_def) (metis option.map_disc_iff option.distinct(1) not_None_eq)+

lemma heap_dev: "dom (dev_tasks d) = dom (task_of s) \<Longrightarrow> heap_wf s \<Longrightarrow>
    heap_wf (s\<lparr>cs_dev := d\<rparr>) \<and> heap_plain (s\<lparr>cs_dev := d\<rparr>) = heap_plain s"
  by (simp add: heap_wf_def heap_plain_def heap_others_def fence_wf_def kmem_wf_def vms_wf_def vm_wf_def)

text \<open>
  C28. The completion work completes exactly the pipe's current task. It always returns; it
  signals the task's fence with success, or with \<open>-EIO\<close> when the pipe's error flag is up,
  unless the fence was signaled before; it counts the task out of flight, and on an error the
  context guilty; it drops each reference the task owns exactly once and frees its arrays and
  its block. Then the pipe has no current task and no error, the queues and the other pipe are
  as they were, the run work is queued, and the hardware is touched only on an error.
\<close>

theorem done_work_completes_task:
  assumes wf: "heap_wf s" and cur: "p_current_task (pipe_of p s) = Some t" and x: "task_of s t = Some x"
    and k: "t_context x = k" "cs_ctxs s k = Some c" and err: "err = p_error (pipe_of p s)"
    and own: "task_owned x k (task_over x err c) (ctx_upd k (task_over x err c) s)"
  shows "\<exists>s'. lima_sched_done_work Z p s = Some s' \<and> heap_wf s' \<and>
    p_current_task (pipe_of p s') = None \<and> \<not> p_error (pipe_of p s') \<and> p_run_pending (pipe_of p s') \<and>
    (\<forall>q. p_queue (pipe_of q s') = p_queue (pipe_of q s) \<and>
       (q \<noteq> p \<longrightarrow> p_current_task (pipe_of q s') = p_current_task (pipe_of q s))) \<and>
    (\<not> err \<longrightarrow> bus_trace (cs_dev s') = bus_trace (cs_dev s)) \<and>
    task_of s' t = None \<and> t \<notin> km_live s' \<and>
    (\<forall>f y. fs_fences s' f = Some y \<longrightarrow> f_status y =
       (if f = t_fence x then task_status err (fence_status s f) else fence_status s f)) \<and>
    cs_ctxs s' = (cs_ctxs s)(k := ctx_dropped (task_over x err c)) \<and>
    frefs s' = (\<lambda>f. frefs s f - count_list (t_fence x # t_deps x) f) \<and>
    vrefs s' = (vrefs s)(t_vm x := vrefs s (t_vm x) - 1) \<and>
    brefs s' = (\<lambda>b. brefs s b - count_list (t_bos x) b) \<and>
    heap_plain s' = heap_plain s - set_option (t_deps_arr x) - set_option (t_bos_arr x)"
proof -
  from finish_task_heap [OF wf x k own, of Z] obtain a where a: "lima_sched_finish_task Z t err s = Some a" "heap_wf a"
    "cs_dev a = (cs_dev s)\<lparr>dev_tasks := (task_of s)(t := None)\<rparr>"
    "cs_ctxs a = (cs_ctxs s)(k := ctx_dropped (task_over x err c))"
    "frefs a = (\<lambda>f. frefs s f - count_list (t_fence x # t_deps x) f)"
    "vrefs a = (vrefs s)(t_vm x := vrefs s (t_vm x) - 1)" "brefs a = (\<lambda>b. brefs s b - count_list (t_bos x) b)"
    "heap_plain a = heap_plain s - set_option (t_deps_arr x) - set_option (t_bos_arr x)" "t \<notin> km_live a"
    "\<forall>f y. fs_fences a f = Some y \<longrightarrow> f_status y =
       ((fence_status s)(t_fence x := task_status err (fence_status s (t_fence x)))) f" by blast
  let ?e = "pipe_upd p (\<lambda>y. y\<lparr>p_current_task := None\<rparr>) (cs_dev a)"
  define d where "d = (if err then pipe_upd p (\<lambda>y. y\<lparr>p_error := False\<rparr>) (exec (pipe_task_error p) ?e) else ?e)"
  let ?d = "pipe_upd p (\<lambda>y. y\<lparr>p_run_pending := True\<rparr>) d"
  let ?s = "a\<lparr>cs_dev := ?d\<rparr>"
  have run: "lima_sched_done_work Z p s = Some ?s"
    using cur a(1) by (simp add: lima_sched_done_work_def err [symmetric] on_pipe_def on_dev_def d_def)
  have hw: "hw_keeps ?e (exec (pipe_task_error p) ?e)" using keeps_pipe_ops(1) by (simp add: keeps_def)
  then have keep: "p_queue (dev_pipe d q) = p_queue (dev_pipe ?e q)"
    "p_current_task (dev_pipe d q) = p_current_task (dev_pipe ?e q)" for q
    by (auto simp: d_def hw_keeps_def)
  have tasks: "dom (dev_tasks d) = dom (dev_tasks ?e)" using hw_keeps_dom [OF hw] by (simp add: d_def)
  have dom: "dom (dev_tasks ?d) = dom (task_of a)" using tasks by simp
  note h = heap_dev [OF dom a(2)]
  have "t \<notin> dom (dev_tasks d)" unfolding tasks by (simp add: a(3))
  then have "task_of ?s t = None" by (simp add: domIff)
  moreover have "\<not> p_error (pipe_of p ?s)"
  proof (cases err)
    case True
    then show ?thesis by (simp add: d_def)
  next
    case False
    then show ?thesis using err by (simp add: d_def a(3))
  qed
  moreover have "bus_trace (cs_dev ?s) = bus_trace (cs_dev s)" if "\<not> err"
    using that by (simp add: d_def a(3))
  moreover have "p_current_task (pipe_of p ?s) = None" "p_run_pending (pipe_of p ?s)"
    "p_queue (pipe_of q ?s) = p_queue (pipe_of q s)"
    "q \<noteq> p \<Longrightarrow> p_current_task (pipe_of q ?s) = p_current_task (pipe_of q s)" for q
    by (simp_all add: keep a(3))
  moreover have "frefs ?s = frefs a" "vrefs ?s = vrefs a" "brefs ?s = brefs a"
    by (simp_all add: fun_eq_iff frefs_def vrefs_def brefs_def)
  moreover have "f_status y = (if f = t_fence x then task_status err (fence_status s f) else fence_status s f)"
    if "fs_fences ?s f = Some y" for f y
    using a(10) that by auto
  ultimately show ?thesis
    using run h a(4-9) by (intro exI [of _ ?s] conjI allI impI) simp_all
qed

section \<open>A running task\<close>

text \<open>
  The geometry pipe runs task 15 of context 13, in address space 5, with buffer object 9 and
  fence 14, each of which has another reference; task 17 of the same context is queued.
\<close>

definition task_demo :: "nat \<Rightarrow> nat \<Rightarrow> lima_sched_task" where
  "task_demo f arr = \<lparr>t_pipe = lima_pipe_gp, t_ctx = Some 13, t_context = 13, t_vm = 5,
     t_frame = [0x1000, 0x1100, 0x2000, 0x2000, 0x3000, 0x4000], t_deps = [], t_deps_arr = None,
     t_bos = [9], t_bos_arr = Some arr, t_fence = f\<rparr>"

definition fence_demo :: dma_fence where
  "fence_demo = \<lparr>f_refcount = 2, f_status = 0, f_name = ''gp'', f_timestamp_ns = 0\<rparr>"

definition sched_demo :: ctx_st where
  "sched_demo = ctx_demo\<lparr>km_n := 30, km_live := {5, 9, 12, 13, 14, 15, 16, 17, 18, 19},
     fs_fences := [14 \<mapsto> fence_demo, 19 \<mapsto> fence_demo],
     vs_bos := (vs_bos ctx_demo)(9 \<mapsto> (the (vs_bos ctx_demo 9))\<lparr>bo_refs := 3\<rparr>),
     cs_dev := (pipe_upd lima_pipe_gp (\<lambda>y. y\<lparr>p_current_task := Some 15, p_queue := [17]\<rparr>) (cs_dev ctx_demo))
       \<lparr>dev_tasks := [15 \<mapsto> task_demo 14 16, 17 \<mapsto> task_demo 19 18]\<rparr>,
     cs_ctxs := [12 \<mapsto> \<lparr>cx_refcount = 1, cx_guilty = 0, cx_freed = False, cx_in_flight = (\<lambda>_. 0)\<rparr>,
       13 \<mapsto> \<lparr>cx_refcount = 3, cx_guilty = 0, cx_freed = False, cx_in_flight = (\<lambda>_. 0)(lima_pipe_gp := 2)\<rparr>]\<rparr>"

lemmas sched_demo_defs = sched_demo_def fence_demo_def task_demo_def ctx_demo_defs

lemma sched_demo_fields [simp]:
  "vs_vms sched_demo = [5 \<mapsto> vm_demo]" "dm_live sched_demo = {(0x1000, 4096)}"
  "km_live sched_demo = {5, 9, 12, 13, 14, 15, 16, 17, 18, 19}" "km_n sched_demo = 30"
  "fs_fences sched_demo = [14 \<mapsto> fence_demo, 19 \<mapsto> fence_demo]"
  "dom (vs_bos sched_demo) = {9}" "dom (cs_ctxs sched_demo) = {12, 13}" "dom (task_of sched_demo) = {15, 17}"
  by (auto simp: sched_demo_def ctx_demo_defs space_demo_def dom_def)

lemma sched_demo_others: "heap_others sched_demo = {9, 12, 13, 15, 17}"
  "dom (fs_fences sched_demo) = {14, 19}" "dom (vs_vms sched_demo) = {5}"
  by (auto simp: heap_others_def)

lemma sched_demo_bo: "\<exists>b. vs_bos sched_demo 9 = Some b \<and> bo_refs b = 3"
  by (simp add: sched_demo_def)

lemma sched_demo_wf: "heap_wf sched_demo"
proof -
  have "vm_wf vm_demo sched_demo"
    using vm_demo_wf [of 2] by (simp add: vm_wf_def dma_demo_def)
  then have "vms_wf sched_demo" by (auto simp: vms_wf_def vm_demo_def split: if_splits)
  moreover have "fence_wf sched_demo"
    by (auto simp: fence_wf_def kmem_wf_def fence_demo_def split: if_splits)
  ultimately show ?thesis unfolding heap_wf_def sched_demo_others by simp
qed

lemma sched_demo_task: "task_of sched_demo 15 = Some (task_demo 14 16)"
  "p_current_task (pipe_of lima_pipe_gp sched_demo) = Some 15" "\<not> p_error (pipe_of lima_pipe_gp sched_demo)"
  by (simp_all add: sched_demo_def ctx_demo_defs dev_demo_def)

lemma sched_demo_ctx: "cs_ctxs sched_demo 13 =
    Some \<lparr>cx_refcount = 3, cx_guilty = 0, cx_freed = False, cx_in_flight = (\<lambda>_. 0)(lima_pipe_gp := 2)\<rparr>"
  by (simp add: sched_demo_def)

abbreviation ctx_of_demo :: lima_ctx where
  "ctx_of_demo \<equiv> \<lparr>cx_refcount = 3, cx_guilty = 0, cx_freed = False, cx_in_flight = (\<lambda>_. 0)(lima_pipe_gp := 2)\<rparr>"

lemma sched_demo_own:
  assumes "cx_refcount c = 3"
  shows "task_owned (task_demo 14 16) 13 c (ctx_upd 13 c sched_demo)"
proof -
  let ?s = "ctx_upd 13 c sched_demo"
  have "heap_plain sched_demo = {16, 18}"
    unfolding heap_plain_def sched_demo_others by auto
  then have plain: "heap_plain ?s = {16, 18}"
    using ctx_upd_heap [OF sched_demo_wf sched_demo_ctx] by simp
  have "brefs ?s 9 = brefs sched_demo 9" "vrefs ?s 5 = vrefs sched_demo 5" "frefs ?s 14 = frefs sched_demo 14"
    by (simp_all only: brefs_def vrefs_def frefs_def ctx_upd_def) simp_all
  then have "brefs ?s 9 = 3" "vrefs ?s 5 = 1" "frefs ?s 14 = 2"
    using sched_demo_bo by (auto simp: brefs_def vrefs_def frefs_def fence_demo_def vm_demo_def)
  with plain assms show ?thesis
    by (simp add: task_owned_def task_demo_def) (simp add: ctx_upd_def)
qed

lemma sched_demo_owned: "task_owned (task_demo 14 16) 13 (task_over (task_demo 14 16) err ctx_of_demo)
    (ctx_upd 13 (task_over (task_demo 14 16) err ctx_of_demo) sched_demo)"
  by (rule sched_demo_own) (simp add: task_over_def)

theorem done_work_completes_task_witness:
  "\<exists>s'. lima_sched_done_work (id, 0, 0) lima_pipe_gp sched_demo = Some s' \<and>
     p_current_task (pipe_of lima_pipe_gp s') = None \<and> task_of s' 15 = None"
  using done_work_completes_task [OF sched_demo_wf sched_demo_task(2,1) _ sched_demo_ctx _ sched_demo_owned,
      where Z = "(id, 0, 0)" and err = False] sched_demo_task(3)
  by (simp add: task_demo_def) blast

end
