(* ===== verification/Lima_Run.thy ===== *)
theory Lima_Run
  imports Lima_Finish
begin

text \<open>
  The start of a task: the last part of a round of \<open>lima_sched_run_work\<close>, after the
  dependencies have been waited for.
\<close>

lemma switch_vm_run:
  assumes v: "vs_vms s vm = Some v" and new: "p_current_vm (pipe_of p s) \<noteq> Some vm"
  shows "run_switch_vm p vm s = Some (s\<lparr>cs_dev := pipe_upd p (\<lambda>y. y\<lparr>p_current_vm := Some vm\<rparr>)
    (exec (forM (\<lambda>m. lima_mmu_switch_vm m (Some (vm_pd_dma v))) (p_mmu (pipe_of p s))) (cs_dev s))\<rparr>)"
proof -
  have "each (\<lambda>m s. do { v \<leftarrow> vs_vms s vm; Some (on_dev (lima_mmu_switch_vm m (Some (vm_pd_dma v))) s) }) ms s =
      Some (s\<lparr>cs_dev := exec (forM (\<lambda>m. lima_mmu_switch_vm m (Some (vm_pd_dma v))) ms) (cs_dev s)\<rparr>)" for ms
    using v by (induction ms arbitrary: s) (simp_all add: on_dev_def)
  then show ?thesis using new by (simp add: run_switch_vm_def on_pipe_def)
qed

text \<open>The device when the task has been started.\<close>

definition dev_started :: "lima_pipe_id \<Rightarrow> nat \<Rightarrow> lima_device \<Rightarrow> lima_device" where
  "dev_started p t d = exec (pipe_task_run p t)
     (if dev_sched_timeout_ms d > 0 then pipe_upd p (\<lambda>y. y\<lparr>p_timeout_pending := True\<rparr>) d else d)"

definition dev_switched :: "lima_pipe_id \<Rightarrow> nat \<Rightarrow> u32 \<Rightarrow> lima_device \<Rightarrow> lima_device" where
  "dev_switched p vm pd d = (if p_current_vm (dev_pipe d p) = Some vm then d
     else pipe_upd p (\<lambda>y. y\<lparr>p_current_vm := Some vm\<rparr>)
       (exec (forM (\<lambda>m. lima_mmu_switch_vm m (Some pd)) (p_mmu (dev_pipe d p))) d))"

lemma hw_keeps_exec: "keeps m \<Longrightarrow> hw_keeps d (exec m d)"
  by (simp add: keeps_def)

lemma started_keeps: "hw_keeps d (dev_started p t d)"
proof -
  let ?d = "if dev_sched_timeout_ms d > 0 then pipe_upd p (\<lambda>y. y\<lparr>p_timeout_pending := True\<rparr>) d else d"
  have "hw_keeps d ?d" by (simp add: hw_keeps_def)
  then show ?thesis
    unfolding dev_started_def using hw_keeps_exec [OF keeps_pipe_ops(2)] by (rule hw_keeps_trans)
qed

lemma switched_spec:
  "p_queue (dev_pipe (dev_switched p vm pd d) q) = p_queue (dev_pipe d q)"
  "p_current_task (dev_pipe (dev_switched p vm pd d) q) = p_current_task (dev_pipe d q)"
  "p_current_vm (dev_pipe (dev_switched p vm pd d) p) = Some vm"
  "dev_tasks (dev_switched p vm pd d) = dev_tasks d"
  "bus_writes (dev_switched p vm pd d) = bus_writes d @ (if p_current_vm (dev_pipe d p) = Some vm then []
     else concat (map (mmu_switch_writes d (Some pd)) (p_mmu (dev_pipe d p))))"
proof -
  note sw = switch_all [where d = d and pd = "Some pd" and ms = "p_mmu (dev_pipe d p)"]
  note fr = io_only_frame [OF conjunct1 [OF sw]]
  show "p_queue (dev_pipe (dev_switched p vm pd d) q) = p_queue (dev_pipe d q)"
    "p_current_task (dev_pipe (dev_switched p vm pd d) q) = p_current_task (dev_pipe d q)"
    "p_current_vm (dev_pipe (dev_switched p vm pd d) p) = Some vm"
    "dev_tasks (dev_switched p vm pd d) = dev_tasks d"
    by (simp_all add: dev_switched_def fr)
  show "bus_writes (dev_switched p vm pd d) = bus_writes d @ (if p_current_vm (dev_pipe d p) = Some vm then []
     else concat (map (mmu_switch_writes d (Some pd)) (p_mmu (dev_pipe d p))))"
    using sw by (simp add: dev_switched_def)
qed

lemma run_go_start:
  assumes ok: "pipe_task_validate p (cs_dev s) t = 0" and x: "task_of s t = Some x" and v: "vs_vms s (t_vm x) = Some v"
  shows "run_go Z p t 0 s =
    Some (False, s\<lparr>cs_dev := dev_started p t (dev_switched p (t_vm x) (vm_pd_dma v) (cs_dev s))\<rparr>)"
proof (cases "p_current_vm (pipe_of p s) = Some (t_vm x)")
  case True
  then show ?thesis
    using ok x by (simp add: run_go_def run_switch_vm_def dev_started_def dev_switched_def on_dev_def on_pipe_def)
next
  case False
  from switch_vm_run [OF v False] show ?thesis
    using ok x False by (simp add: run_go_def dev_started_def dev_switched_def on_dev_def on_pipe_def)
qed

lemma writes_more: "\<exists>es. bus_trace d' = es @ bus_trace d \<Longrightarrow> \<exists>ws. bus_writes d' = bus_writes d @ ws"
  by (auto simp: writes_append)



end
