(* ===== verification/Lima_Order.thy ===== *)
theory Lima_Order
  imports Lima_Run
begin

text \<open>
  What the scheduler does over time: the step relation of submissions, the rounds of the run
  work (split where it sleeps), completions, interrupts and the rest of the driver, in any
  order, and the invariant of every reachable state.
\<close>

section \<open>Effects\<close>

lemma ctx_put_effect:
  assumes run: "lima_ctx_put Z (Some k) s = Some s'" and c: "cs_ctxs s k = Some c" and ok: "cx_refcount c \<noteq> 1 \<or> quiet c"
  shows "cs_dev s' = cs_dev s \<and> cs_ctxs s' = (cs_ctxs s)(k := ctx_dropped c) \<and> fs_fences s' = fs_fences s \<and> vs_bos s' = vs_bos s"
proof (cases "cx_refcount c = 1")
  case False
  with run c show ?thesis by (auto simp: lima_ctx_put_def ctx_upd_def ctx_dropped_def)
next
  case True
  let ?s = "ctx_upd k (c\<lparr>cx_refcount := 0\<rparr>) s"
  have "quiet (c\<lparr>cx_refcount := 0\<rparr>)" using True ok by (simp add: quiet_def)
  then have "lima_sched_context_fini Z k p ?s = Some ?s" for p
    by (intro context_fini_quiet) (simp_all add: ctx_upd_def)
  with True run c have "kfree (Some k) (?s\<lparr>cs_ctxs := (cs_ctxs ?s)(k := None)\<rparr>) = Some s'"
    by (simp add: lima_ctx_put_def lima_ctx_release_def)
  then show ?thesis using True by (auto simp: kfree_def ctx_upd_def ctx_dropped_def split: if_splits)
qed

text \<open>The end of a task, whatever the heap: when it returns, device and contexts are these.\<close>

lemma finish_task_effect:
  assumes run: "lima_sched_finish_task Z t err s = Some s'" and x: "task_of s t = Some x"
    and k: "t_ctx x = Some k" "t_context x = k" "cs_ctxs s k = Some c"
    and ok: "cx_refcount c \<noteq> 1 \<or> quiet (task_over x err c)"
  shows "cs_dev s' = (cs_dev s)\<lparr>dev_tasks := (task_of s)(t := None)\<rparr> \<and>
    cs_ctxs s' = (cs_ctxs s)(k := ctx_dropped (task_over x err c)) \<and>
    (\<forall>bo y. vs_bos s' bo = Some y \<longrightarrow> map_option bo_resv (vs_bos s bo) = Some (bo_resv y))"
proof -
  from run x obtain a b u where abu: "finish_signal x err s = Some a" "finish_count x a = Some b"
    "lima_sched_task_fini Z t b = Some u" "kfree (Some t) (task_set t None u) = Some s'"
    by (auto simp: lima_sched_finish_task_def bind_eq_Some_conv)
  have sig: "cs_dev y = cs_dev s \<and> cs_ctxs y = cs_ctxs s \<and> vs_bos y = vs_bos s" if "lima_fence_do_signal f v s = Some (r, y)" for f v r y
    using that by (auto simp: lima_fence_do_signal_def split: Option.bind_splits if_splits)
  have b: "cs_dev b = cs_dev s \<and> cs_ctxs b = (cs_ctxs s)(k \<mapsto> task_over x err c) \<and> vs_bos b = vs_bos s"
  proof (cases err)
    case True
    with abu(1) obtain r y c' where y: "lima_fence_do_signal (t_fence x) (- EIO) s = Some (r, y)" "cs_ctxs y (t_context x) = Some c'"
      "a = ctx_upd (t_context x) (c'\<lparr>cx_guilty := cx_guilty c' + 1\<rparr>) y"
      by (auto simp: finish_signal_def dma_fence_signal_error_def bind_eq_Some_conv)
    with sig [OF y(1)] True abu(2) k show ?thesis by (auto simp: finish_count_def ctx_upd_def task_over_def)
  next
    case False
    with abu(1) obtain r where y: "lima_fence_do_signal (t_fence x) 1 s = Some (r, a)"
      by (auto simp: finish_signal_def dma_fence_signal_def bind_eq_Some_conv)
    with sig [OF y] False abu(2) k show ?thesis by (auto simp: finish_count_def ctx_upd_def task_over_def)
  qed
  then have "task_of b t = Some x" using x by simp
  from task_fini_effect [OF abu(3) this] k(1) obtain v w where vw: "released b v" "lima_ctx_put Z (Some k) v = Some w" "released w u"
    by auto
  have "cs_ctxs v k = Some (task_over x err c)" using vw(1) b by (simp add: releasedD)
  moreover have "cx_refcount (task_over x err c) \<noteq> 1 \<or> quiet (task_over x err c)" using ok by (simp add: task_over_def)
  ultimately have w: "cs_dev w = cs_dev v \<and> cs_ctxs w = (cs_ctxs v)(k := ctx_dropped (task_over x err c)) \<and> vs_bos w = vs_bos v"
    using ctx_put_effect [OF vw(2)] by blast
  have bos: "map_option bo_resv (vs_bos s bo) = Some (bo_resv y)" if y: "vs_bos u bo = Some y" for bo y
  proof -
    from releasedD(4) [OF vw(3) y] w obtain z where z: "vs_bos v bo = Some z" "bo_resv z = bo_resv y" by auto
    with releasedD(4) [OF vw(1) z(1)] b show ?thesis by simp
  qed
  from w have "cs_dev u = cs_dev s \<and> cs_ctxs u = (cs_ctxs s)(k := ctx_dropped (task_over x err c))"
    using b releasedD(1,2) [OF vw(1)] releasedD(1,2) [OF vw(3)] by (simp add: fun_upd_upd)
  with abu(4) bos show ?thesis by (auto simp: kfree_def task_set_def split: if_splits)
qed

section \<open>Steps\<close>

text \<open>The tasks of a pipe that are not finished, the current one first.\<close>

definition pending :: "'a ctx_st_scheme \<Rightarrow> lima_pipe_id \<Rightarrow> nat list" where
  "pending s p = (case p_current_task (pipe_of p s) of None \<Rightarrow> [] | Some t \<Rightarrow> [t]) @ p_queue (pipe_of p s)"

text \<open>
  A configuration: the state; for each pipe the task whose dependencies the run work waits
  for, the tasks submitted and the tasks finished so far (with whether they failed); and how
  many references of each context are not those of a task.
\<close>

record sched_cfg =
  sc_st :: ctx_st
  sc_waiting :: "lima_pipe_id \<Rightarrow> nat option"
  sc_submitted :: "lima_pipe_id \<Rightarrow> nat list"
  sc_finished :: "lima_pipe_id \<Rightarrow> (nat \<times> bool) list"
  sc_held :: "nat \<Rightarrow> nat"

definition all_pending :: "'a ctx_st_scheme \<Rightarrow> nat set" where
  "all_pending s = (\<Union>p. set (pending s p))"

text \<open>What the rest of the driver may do: nothing to the queues, the tasks on them and the contexts.\<close>

definition beside_sched :: "'a ctx_st_scheme \<Rightarrow> 'a ctx_st_scheme \<Rightarrow> bool" where
  "beside_sched s s' \<longleftrightarrow> cs_ctxs s' = cs_ctxs s \<and>
     (\<forall>p. p_queue (pipe_of p s') = p_queue (pipe_of p s) \<and> p_current_task (pipe_of p s') = p_current_task (pipe_of p s)) \<and>
     (\<forall>t \<in> all_pending s. map_option task_shell (task_of s' t) = map_option task_shell (task_of s t))"

text \<open>
  The steps. The workqueue of a pipe is ordered: its work functions do not overlap, so while the
  run work waits (\<open>sc_waiting\<close>) neither another round nor the completion work of the pipe runs.
  A submitted task is new, belongs to the pipe, and brings a reference of its context.
\<close>

inductive sched_step :: "ctx_st sleeper \<Rightarrow> sched_cfg \<Rightarrow> sched_cfg \<Rightarrow> bool" for Z where
  submit: "lima_sched_context_queue_task ctx p t (sc_st c) = Some (f, s') \<Longrightarrow>
    t \<notin> all_pending (sc_st c) \<Longrightarrow> task_of (sc_st c) t = Some x \<Longrightarrow>
    t_pipe x = p \<Longrightarrow> t_ctx x = Some ctx \<Longrightarrow> t_context x = ctx \<Longrightarrow> 0 < sc_held c ctx \<Longrightarrow>
    sched_step Z c (c\<lparr>sc_st := s', sc_submitted := (sc_submitted c)(p := sc_submitted c p @ [t]),
      sc_held := (sc_held c)(ctx := sc_held c ctx - 1)\<rparr>)"
| pick: "sc_waiting c p = None \<Longrightarrow> run_pick p (sc_st c) = (Some t, s') \<Longrightarrow>
    sched_step Z c (c\<lparr>sc_st := s', sc_waiting := (sc_waiting c)(p := Some t)\<rparr>)"
| go: "sc_waiting c p = Some t \<Longrightarrow> task_of (sc_st c) t = Some x \<Longrightarrow>
    (\<forall>W. run_wait W (t_deps x) (sc_st c) = Some (err, sc_st c)) \<Longrightarrow>
    run_go Z p t err (sc_st c) = Some (rejected, s') \<Longrightarrow>
    sched_step Z c (c\<lparr>sc_st := s', sc_waiting := (sc_waiting c)(p := None),
      sc_finished := (sc_finished c)(p := sc_finished c p @ (if rejected then [(t, True)] else []))\<rparr>)"
| finish: "sc_waiting c p = None \<Longrightarrow> p_done_pending (pipe_of p (sc_st c)) \<Longrightarrow>
    lima_sched_done_work Z p (on_pipe p (\<lambda>y. y\<lparr>p_done_pending := False\<rparr>) (sc_st c)) = Some s' \<Longrightarrow>
    sched_step Z c (c\<lparr>sc_st := s', sc_finished := (sc_finished c)(p := sc_finished c p @
      (case p_current_task (pipe_of p (sc_st c)) of None \<Rightarrow> [] | Some t \<Rightarrow> [(t, p_error (pipe_of p (sc_st c)))]))\<rparr>)"
| timeout: "sc_waiting c p = None \<Longrightarrow> sched_step Z c (c\<lparr>sc_st := lima_sched_timeout_work p (sc_st c)\<rparr>)"
| irq_gp: "sched_step Z c (c\<lparr>sc_st := on_dev (lima_gp_irq_handler i) (sc_st c)\<rparr>)"
| irq_pp: "sched_step Z c (c\<lparr>sc_st := on_dev (lima_pp_irq_handler i) (sc_st c)\<rparr>)"
| irq_bcast: "sched_step Z c (c\<lparr>sc_st := on_dev lima_pp_bcast_irq_handler (sc_st c)\<rparr>)"
| irq_mmu: "sched_step Z c (c\<lparr>sc_st := on_dev (lima_mmu_irq_handler i) (sc_st c)\<rparr>)"
| ctx_new: "lima_ctx_create pre alloc mgr (sc_st c) = Some (Inr i, mgr', s') \<Longrightarrow> km_n (sc_st c) = ctx \<Longrightarrow>
    cs_ctxs (sc_st c) ctx = None \<Longrightarrow>
    sched_step Z c (c\<lparr>sc_st := s', sc_held := (sc_held c)(ctx := 1)\<rparr>)"
| ctx_hold: "lima_ctx_get mgr i (sc_st c) = Some (Some ctx, s') \<Longrightarrow>
    sched_step Z c (c\<lparr>sc_st := s', sc_held := (sc_held c)(ctx := Suc (sc_held c ctx))\<rparr>)"
| ctx_drop: "0 < sc_held c ctx \<Longrightarrow> lima_ctx_put Z (Some ctx) (sc_st c) = Some s' \<Longrightarrow>
    sched_step Z c (c\<lparr>sc_st := s', sc_held := (sc_held c)(ctx := sc_held c ctx - 1)\<rparr>)"
| ctx_mark: "ctx_remove i ctx mgr (sc_st c) = Some (mgr', s') \<Longrightarrow> sched_step Z c (c\<lparr>sc_st := s'\<rparr>)"
| other: "beside_sched (sc_st c) s' \<Longrightarrow> sched_step Z c (c\<lparr>sc_st := s'\<rparr>)"

text \<open>A driver that has just been loaded: no context, no task.\<close>

definition sched_start :: "ctx_st \<Rightarrow> sched_cfg" where
  "sched_start s = \<lparr>sc_st = s, sc_waiting = (\<lambda>_. None), sc_submitted = (\<lambda>_. []), sc_finished = (\<lambda>_. []), sc_held = (\<lambda>_. 0)\<rparr>"

definition sched_idle :: "'a ctx_st_scheme \<Rightarrow> bool" where
  "sched_idle s \<longleftrightarrow> (\<forall>p. pending s p = []) \<and> cs_ctxs s = (\<lambda>_. None)"

section \<open>The invariant\<close>

definition tasks_of :: "'a ctx_st_scheme \<Rightarrow> nat \<Rightarrow> lima_pipe_id \<Rightarrow> nat list" where
  "tasks_of s k p = filter (\<lambda>t. map_option t_context (task_of s t) = Some k) (pending s p)"

definition pending_ok :: "'a ctx_st_scheme \<Rightarrow> bool" where
  "pending_ok s \<longleftrightarrow> (\<forall>p. distinct (pending s p) \<and> (\<forall>t \<in> set (pending s p). \<exists>x. task_of s t = Some x \<and>
     t_pipe x = p \<and> t_ctx x = Some (t_context x) \<and> cs_ctxs s (t_context x) \<noteq> None))"

lemma pending_okD:
  assumes "pending_ok s"
  shows "distinct (pending s p)" "t \<in> set (pending s p) \<Longrightarrow> \<exists>x. task_of s t = Some x \<and>
     t_pipe x = p \<and> t_ctx x = Some (t_context x) \<and> cs_ctxs s (t_context x) \<noteq> None"
  using assms unfolding pending_ok_def by blast+

definition counts_ok :: "(nat \<Rightarrow> nat) \<Rightarrow> 'a ctx_st_scheme \<Rightarrow> bool" where
  "counts_ok h s \<longleftrightarrow> (\<forall>k. cs_ctxs s k = None \<longrightarrow> h k = 0) \<and>
     (\<forall>k c. cs_ctxs s k = Some c \<longrightarrow> (\<forall>p. cx_in_flight c p = int (length (tasks_of s k p))) \<and> 0 < cx_refcount c \<and>
       cx_refcount c = h k + length (tasks_of s k lima_pipe_gp) + length (tasks_of s k lima_pipe_pp))"

definition order_ok :: "sched_cfg \<Rightarrow> bool" where
  "order_ok c \<longleftrightarrow> (\<forall>p. sc_submitted c p = map fst (sc_finished c p) @ pending (sc_st c) p \<and>
     (\<forall>t. sc_waiting c p = Some t \<longrightarrow> p_current_task (pipe_of p (sc_st c)) = Some t))"

definition sched_inv :: "sched_cfg \<Rightarrow> bool" where
  "sched_inv c \<longleftrightarrow> order_ok c \<and> pending_ok (sc_st c) \<and> counts_ok (sc_held c) (sc_st c)"

section \<open>Steps that change no task\<close>

lemma shell_fields:
  assumes "task_shell x = task_shell y"
  shows "t_pipe x = t_pipe y" "t_ctx x = t_ctx y" "t_context x = t_context y" "t_deps x = t_deps y"
proof -
  have "f (task_shell x) = f (task_shell y)" for f :: "lima_sched_task \<Rightarrow> 'b" using assms by simp
  from this [of t_pipe] this [of t_ctx] this [of t_context] this [of t_deps]
  show "t_pipe x = t_pipe y" "t_ctx x = t_ctx y" "t_context x = t_context y" "t_deps x = t_deps y"
    by (simp_all add: task_shell_def)
qed

definition same_tasks :: "'a ctx_st_scheme \<Rightarrow> 'a ctx_st_scheme \<Rightarrow> bool" where
  "same_tasks s s' \<longleftrightarrow> (\<forall>t \<in> all_pending s'. map_option task_shell (task_of s' t) = map_option task_shell (task_of s t))"

lemma same_tasksD:
  assumes "same_tasks s s'" and "t \<in> set (pending s' p)"
  shows "map_option t_context (task_of s' t) = map_option t_context (task_of s t)"
    "task_of s t = Some x \<Longrightarrow> \<exists>y. task_of s' t = Some y \<and> t_pipe y = t_pipe x \<and> t_ctx y = t_ctx x \<and> t_context y = t_context x"
proof -
  have m: "map_option task_shell (task_of s' t) = map_option task_shell (task_of s t)"
    using assms by (auto simp: same_tasks_def all_pending_def)
  then show "map_option t_context (task_of s' t) = map_option t_context (task_of s t)"
    by (cases "task_of s' t"; cases "task_of s t") (auto dest: shell_fields)
  show "task_of s t = Some x \<Longrightarrow> \<exists>y. task_of s' t = Some y \<and> t_pipe y = t_pipe x \<and> t_ctx y = t_ctx x \<and> t_context y = t_context x"
    using m by (cases "task_of s' t") (auto dest: shell_fields)
qed

lemma tasks_of_filter:
  assumes "same_tasks s s'"
  shows "tasks_of s' k p = filter (\<lambda>t. map_option t_context (task_of s t) = Some k) (pending s' p)"
  unfolding tasks_of_def using same_tasksD(1) [OF assms] by (intro filter_cong) auto

lemma same_inv:
  assumes "pending s' = pending s" and st: "same_tasks s s'" and ctxs: "cs_ctxs s' = cs_ctxs s"
  shows "pending_ok s \<Longrightarrow> pending_ok s'" "counts_ok h s \<Longrightarrow> counts_ok h s'"
proof -
  have "tasks_of s' = tasks_of s"
    using assms(1) tasks_of_filter [OF st] by (simp add: fun_eq_iff tasks_of_def)
  then show "counts_ok h s \<Longrightarrow> counts_ok h s'" by (simp only: counts_ok_def ctxs)
  show "pending_ok s \<Longrightarrow> pending_ok s'"
    unfolding pending_ok_def assms(1) ctxs using same_tasksD(2) [OF st] assms(1) by fastforce
qed

lemma beside_same:
  assumes "beside_sched s s'"
  shows "pending s' = pending s" "same_tasks s s'" "cs_ctxs s' = cs_ctxs s"
    "p_current_task (pipe_of p s') = p_current_task (pipe_of p s)"
proof -
  show p: "pending s' = pending s" using assms by (simp add: beside_sched_def pending_def fun_eq_iff)
  show "same_tasks s s'" using assms by (simp add: beside_sched_def same_tasks_def all_pending_def p)
qed (use assms in \<open>simp_all add: beside_sched_def\<close>)

lemma beside_inv:
  assumes "sched_inv c" and b: "beside_sched (sc_st c) s'"
  shows "sched_inv (c\<lparr>sc_st := s'\<rparr>)"
  using assms(1) same_inv [OF beside_same(1-3) [OF b]] beside_same(1,4) [OF b]
  by (simp add: sched_inv_def order_ok_def)

lemma hw_beside: "hw_keeps (cs_dev s) d \<Longrightarrow> beside_sched s (s\<lparr>cs_dev := d\<rparr>)"
  by (simp add: beside_sched_def hw_keeps_def)

lemma keeps_beside: "keeps m \<Longrightarrow> beside_sched s (on_dev m s)"
  unfolding on_dev_def by (rule hw_beside) (simp add: keeps_def)

lemma timeout_beside: "beside_sched s (lima_sched_timeout_work p s)"
  by (simp add: beside_sched_def lima_sched_timeout_work_def on_pipe_def)

section \<open>The end of a task\<close>

lemma tasks_of_end:
  assumes "pending s p = t # q" and "pending s' = (pending s)(p := q)" and "task_of s t = Some x" and "same_tasks s s'"
  shows "length (tasks_of s k r) = length (tasks_of s' k r) + (if r = p \<and> t_context x = k then 1 else 0)"
  unfolding tasks_of_filter [OF assms(4)] using assms(1-3) by (simp add: tasks_of_def)

text \<open>
  The current task of a pipe, its context, and that the context has nothing in flight when this
  task held its last reference.
\<close>

lemma current_owner:
  fixes s :: "'a ctx_st_scheme"
  assumes ok: "pending_ok s" and cnt: "counts_ok h s" and cur: "pending s p = t # q"
  obtains x c where "task_of s t = Some x" "t_pipe x = p" "t_ctx x = Some (t_context x)" "cs_ctxs s (t_context x) = Some c"
    and "cx_refcount c \<noteq> 1 \<or> quiet (task_over x err c)"
    and "cx_refcount c = 1 \<Longrightarrow> h (t_context x) = 0 \<and> (\<forall>r. length (tasks_of s (t_context x) r) = (if r = p then 1 else 0))"
proof -
  have "t \<in> set (pending s p)" using cur by simp
  from pending_okD(2) [OF ok this] obtain x where x: "task_of s t = Some x" "t_pipe x = p" "t_ctx x = Some (t_context x)"
    "cs_ctxs s (t_context x) \<noteq> None" by blast
  define k where "k = t_context x"
  obtain c where c: "cs_ctxs s k = Some c" using x(4) by (auto simp: k_def)
  have cc: "cx_in_flight c r = int (length (tasks_of s k r))"
    "cx_refcount c = h k + length (tasks_of s k lima_pipe_gp) + length (tasks_of s k lima_pipe_pp)" "0 < cx_refcount c" for r
    using cnt c unfolding counts_ok_def by blast+
  have tin: "t \<in> set (tasks_of s k p)" using cur x(1) by (simp add: tasks_of_def k_def)
  have only: "length (tasks_of s k r) = (if r = p then 1 else 0)" "h k = 0" if "cx_refcount c = 1" for r
  proof -
    define n where "n r = length (tasks_of s k r)" for r
    have "0 < n p" using tin unfolding n_def by (rule length_pos_if_in_set)
    moreover have "h k + n lima_pipe_gp + n lima_pipe_pp = 1" using cc(2) that by (simp add: n_def)
    ultimately have "n r = (if r = p then 1 else 0) \<and> h k = 0" by (cases p; cases r) auto
    then show "length (tasks_of s k r) = (if r = p then 1 else 0)" "h k = 0" by (simp_all add: n_def)
  qed
  have "cx_refcount c \<noteq> 1 \<or> quiet (task_over x err c)"
  proof (cases "cx_refcount c = 1")
    case True
    have "cx_in_flight (task_over x err c) r \<le> 0" for r
      using only(1) [OF True, of r] cc(1) [of r] x(2) by (auto simp: task_over_def)
    then show ?thesis by (simp add: quiet_def)
  qed simp
  with x(1-3) c only show thesis unfolding k_def by (intro that) blast+
qed

lemma finish_ends:
  fixes s a :: "'a ctx_st_scheme"
  assumes ok: "pending_ok s" and cnt: "counts_ok h s" and cur: "pending s p = t # q"
    and run: "lima_sched_finish_task Z t err s = Some a"
  shows "\<exists>x k c. task_of s t = Some x \<and> t_pipe x = p \<and> t_context x = k \<and> cs_ctxs s k = Some c \<and>
    (cx_refcount c = 1 \<longrightarrow> h k = 0 \<and> (\<forall>r. length (tasks_of s k r) = (if r = p then 1 else 0))) \<and>
    cs_dev a = (cs_dev s)\<lparr>dev_tasks := (task_of s)(t := None)\<rparr> \<and>
    cs_ctxs a = (cs_ctxs s)(k := ctx_dropped (task_over x err c)) \<and>
    (\<forall>bo y. vs_bos a bo = Some y \<longrightarrow> map_option bo_resv (vs_bos s bo) = Some (bo_resv y))"
proof -
  from current_owner [OF ok cnt cur, of err] obtain x c where x: "task_of s t = Some x" "t_pipe x = p" "t_ctx x = Some (t_context x)"
    "cs_ctxs s (t_context x) = Some c" "cx_refcount c \<noteq> 1 \<or> quiet (task_over x err c)"
    "cx_refcount c = 1 \<Longrightarrow> h (t_context x) = 0 \<and> (\<forall>r. length (tasks_of s (t_context x) r) = (if r = p then 1 else 0))"
    by blast
  with finish_task_effect [OF run x(1,3) refl x(4,5)] show ?thesis by blast
qed

lemma finish_inv:
  fixes s s' a :: "'a ctx_st_scheme"
  assumes ok: "pending_ok s" and cnt: "counts_ok h s" and cur: "pending s p = t # q"
    and run: "lima_sched_finish_task Z t err s = Some a"
    and s': "cs_ctxs s' = cs_ctxs a" "pending s' = (pending s)(p := q)"
    and shells: "\<And>u. map_option task_shell (task_of s' u) = map_option task_shell (task_of a u)"
  shows "pending_ok s' \<and> counts_ok h s'"
proof -
  from finish_ends [OF ok cnt cur run] obtain x k c where x: "task_of s t = Some x" "t_pipe x = p" and kx: "t_context x = k"
    and c: "cs_ctxs s k = Some c" and only: "cx_refcount c = 1 \<longrightarrow> h k = 0 \<and> (\<forall>r. length (tasks_of s k r) = (if r = p then 1 else 0))"
    and a: "cs_dev a = (cs_dev s)\<lparr>dev_tasks := (task_of s)(t := None)\<rparr>" "cs_ctxs a = (cs_ctxs s)(k := ctx_dropped (task_over x err c))"
    by blast
  have cc: "cx_in_flight c r = int (length (tasks_of s k r))"
    "cx_refcount c = h k + length (tasks_of s k lima_pipe_gp) + length (tasks_of s k lima_pipe_pp)" "0 < cx_refcount c" for r
    using cnt c unfolding counts_ok_def by blast+
  have notin: "t \<notin> set (pending s' r)" for r
  proof (cases "r = p")
    case True
    then show ?thesis using pending_okD(1) [OF ok, of p] cur s'(2) by simp
  next
    case False
    show ?thesis
    proof
      assume "t \<in> set (pending s' r)"
      then have "t \<in> set (pending s r)" using False s'(2) by simp
      from pending_okD(2) [OF ok this] x(1,2) False show False by auto
    qed
  qed
  have st: "same_tasks s s'"
    unfolding same_tasks_def all_pending_def
  proof
    fix u assume "u \<in> (\<Union>p. set (pending s' p))"
    then have "u \<noteq> t" using notin by auto
    then show "map_option task_shell (task_of s' u) = map_option task_shell (task_of s u)"
      by (simp add: shells a(1))
  qed
  note len = tasks_of_end [OF cur s'(2) x(1) st]
  have "counts_ok h s'"
    unfolding counts_ok_def
  proof (intro conjI allI impI)
    have other: "length (tasks_of s' j r) = length (tasks_of s j r)" if "j \<noteq> k" for j r
      using len [of j r] that by (simp add: kx)
    have mine: "length (tasks_of s k r) = length (tasks_of s' k r) + (if r = p then 1 else 0)" for r
      using len [of k r] by (simp add: kx)
    show "h j = 0" if "cs_ctxs s' j = None" for j
      using that cnt only by (auto simp: s'(1) a(2) counts_ok_def ctx_dropped_def task_over_def split: if_splits)
    fix j d assume d: "cs_ctxs s' j = Some d"
    have all: "(\<forall>r. cx_in_flight d r = int (length (tasks_of s' j r))) \<and> 0 < cx_refcount d \<and>
        cx_refcount d = h j + length (tasks_of s' j lima_pipe_gp) + length (tasks_of s' j lima_pipe_pp)"
    proof (cases "j = k")
      case False
      then have "cs_ctxs s j = Some d" using d by (simp add: s'(1) a(2))
      then show ?thesis unfolding other [OF False] using cnt unfolding counts_ok_def by blast
    next
      case True
      with d have "d = (task_over x err c)\<lparr>cx_refcount := cx_refcount c - 1\<rparr>" "cx_refcount c \<noteq> 1"
        by (auto simp: s'(1) a(2) ctx_dropped_def task_over_def split: if_splits)
      with True cc x(2) mine show ?thesis
        by (cases p) (auto simp: task_over_def)
    qed
    then show "cx_in_flight d r = int (length (tasks_of s' j r))" for r by blast
    show "0 < cx_refcount d" "cx_refcount d = h j + length (tasks_of s' j lima_pipe_gp) + length (tasks_of s' j lima_pipe_pp)"
      using all by blast+
  qed
  moreover have "pending_ok s'"
    unfolding pending_ok_def
  proof (intro allI conjI ballI)
    fix r
    show "distinct (pending s' r)"
      using pending_okD(1) [OF ok, of r] cur s'(2) by (cases "r = p") simp_all
    fix u assume u: "u \<in> set (pending s' r)"
    then have "u \<in> set (pending s r)" using cur s'(2) by (auto split: if_splits)
    from pending_okD(2) [OF ok this] obtain y where y: "task_of s u = Some y" "t_pipe y = r"
      "t_ctx y = Some (t_context y)" "cs_ctxs s (t_context y) \<noteq> None" by blast
    from same_tasksD(2) [OF st u y(1)] obtain z where z: "task_of s' u = Some z" "t_pipe z = r"
      "t_ctx z = Some (t_context z)" "t_context z = t_context y" using y by auto
    have "cs_ctxs s' (t_context y) \<noteq> None"
    proof (cases "t_context y = k")
      case False
      then show ?thesis using y(4) by (simp add: s'(1) a(2))
    next
      case True
      have "u \<in> set (tasks_of s' k r)" using u z(1,4) True by (simp add: tasks_of_def)
      then have "0 < length (tasks_of s' k r)" by (auto dest: length_pos_if_in_set)
      then have "cx_refcount c \<noteq> 1" using only len [of k r] by (auto simp: kx)
      then show ?thesis using True by (simp add: s'(1) a(2) ctx_dropped_def task_over_def)
    qed
    with z show "\<exists>x. task_of s' u = Some x \<and> t_pipe x = r \<and> t_ctx x = Some (t_context x) \<and> cs_ctxs s' (t_context x) \<noteq> None"
      by auto
  qed
  ultimately show ?thesis by blast
qed

section \<open>The steps keep the invariant\<close>

definition ctx_counts :: "nat \<Rightarrow> (lima_pipe_id \<Rightarrow> nat list) \<Rightarrow> lima_ctx \<Rightarrow> bool" where
  "ctx_counts n ts c \<longleftrightarrow> (\<forall>p. cx_in_flight c p = int (length (ts p))) \<and> 0 < cx_refcount c \<and>
     cx_refcount c = n + length (ts lima_pipe_gp) + length (ts lima_pipe_pp)"

lemma counts_ok_iff: "counts_ok h s \<longleftrightarrow> (\<forall>k. cs_ctxs s k = None \<longrightarrow> h k = 0) \<and>
    (\<forall>k c. cs_ctxs s k = Some c \<longrightarrow> ctx_counts (h k) (tasks_of s k) c)"
  unfolding counts_ok_def ctx_counts_def by blast

lemma ctx_change_inv:
  fixes s s' :: "'a ctx_st_scheme"
  assumes ok: "pending_ok s" and cnt: "counts_ok h s" and dev: "cs_dev s' = cs_dev s"
    and ctxs: "cs_ctxs s' = (cs_ctxs s)(k := d)" and h: "\<And>j. j \<noteq> k \<Longrightarrow> h' j = h j"
    and k: "d = None \<Longrightarrow> h' k = 0 \<and> (\<forall>p. tasks_of s k p = [])" "\<And>e. d = Some e \<Longrightarrow> ctx_counts (h' k) (tasks_of s k) e"
  shows "pending_ok s' \<and> counts_ok h' s'"
proof -
  have same: "pending s' = pending s" "tasks_of s' = tasks_of s"
    by (simp_all add: fun_eq_iff pending_def tasks_of_def dev)
  have "counts_ok h' s'"
    unfolding counts_ok_iff same ctxs
  proof (intro conjI allI impI)
    show "h' j = 0" if "((cs_ctxs s)(k := d)) j = None" for j
      using that cnt h k(1) by (cases "j = k") (simp_all add: counts_ok_iff)
    show "ctx_counts (h' j) (tasks_of s j) c" if "((cs_ctxs s)(k := d)) j = Some c" for j c
      using that cnt h k(2) by (cases "j = k") (simp_all add: counts_ok_iff)
  qed
  moreover have "pending_ok s'"
    unfolding pending_ok_def same dev ctxs
  proof (intro allI conjI ballI)
    show "distinct (pending s p)" for p using ok by (rule pending_okD(1))
    fix p t assume t: "t \<in> set (pending s p)"
    from pending_okD(2) [OF ok t] obtain x where x: "task_of s t = Some x" "t_pipe x = p" "t_ctx x = Some (t_context x)"
      "cs_ctxs s (t_context x) \<noteq> None" by blast
    have "((cs_ctxs s)(k := d)) (t_context x) \<noteq> None"
    proof (cases "t_context x = k")
      case True
      have "t \<in> set (tasks_of s k p)" using t x(1) True by (simp add: tasks_of_def)
      then have "d \<noteq> None" using k(1) by (cases d) auto
      with True show ?thesis by simp
    qed (use x(4) in simp)
    with x show "\<exists>x. task_of s t = Some x \<and> t_pipe x = p \<and> t_ctx x = Some (t_context x) \<and>
        ((cs_ctxs s)(k := d)) (t_context x) \<noteq> None" by blast
  qed
  ultimately show ?thesis by blast
qed

text \<open>A new task at the end of a queue, with a reference of its context.\<close>

lemma queue_inv:
  assumes ok: "pending_ok s" and cnt: "counts_ok h s" and new: "t \<notin> all_pending s"
    and x: "t_pipe x = p" "t_ctx x = Some k" "t_context x = k"
    and tof: "task_of s' = (task_of s)(t \<mapsto> x)"
    and dev: "\<And>q. p_queue (pipe_of q s') = p_queue (pipe_of q s) @ (if q = p then [t] else [])"
      "\<And>q. p_current_task (pipe_of q s') = p_current_task (pipe_of q s)"
    and c: "cs_ctxs s k = Some c" and ctxs: "cs_ctxs s' = (cs_ctxs s)(k \<mapsto> e)"
    and e: "cx_in_flight e = (cx_in_flight c)(p := cx_in_flight c p + 1)" "cx_refcount e + h k = cx_refcount c + h' k + 1"
    and h: "\<And>j. j \<noteq> k \<Longrightarrow> h' j = h j"
  shows "pending_ok s' \<and> counts_ok h' s' \<and> pending s' = (pending s)(p := pending s p @ [t])"
proof -
  have pend: "pending s' = (pending s)(p := pending s p @ [t])"
    by (simp add: fun_eq_iff pending_def dev)
  have old: "task_of s' u = task_of s u" if "u \<in> set (pending s r)" for u r
    using that new by (auto simp: tof all_pending_def)
  have tasks: "tasks_of s' j r = tasks_of s j r @ (if r = p \<and> j = k then [t] else [])" for j r
  proof -
    have f: "filter (\<lambda>t. map_option t_context (task_of s' t) = Some j) (pending s r) = tasks_of s j r"
      unfolding tasks_of_def using old by (intro filter_cong) simp_all
    have "map_option t_context (task_of s' t) = Some j \<longleftrightarrow> j = k" using x(3) by (auto simp: tof)
    with f show ?thesis by (cases "r = p") (simp_all add: tasks_of_def [of s'] pend del: map_option_eq_Some)
  qed
  have "counts_ok h' s'"
    unfolding counts_ok_iff ctxs
  proof (intro conjI allI impI)
    show "h' j = 0" if "((cs_ctxs s)(k \<mapsto> e)) j = None" for j
      using that cnt h by (auto simp: counts_ok_iff split: if_splits)
    fix j d assume d: "((cs_ctxs s)(k \<mapsto> e)) j = Some d"
    show "ctx_counts (h' j) (tasks_of s' j) d"
    proof (cases "j = k")
      case False
      then have "tasks_of s' j = tasks_of s j" using tasks by (simp add: fun_eq_iff)
      with False d cnt h show ?thesis by (simp add: counts_ok_iff)
    next
      case True
      have "ctx_counts (h k) (tasks_of s k) c" using cnt c by (simp add: counts_ok_iff)
      with True d e show ?thesis by (cases p) (auto simp: ctx_counts_def tasks)
    qed
  qed
  moreover have "pending_ok s'"
    unfolding pending_ok_def
  proof (intro allI conjI ballI)
    show "distinct (pending s' r)" for r
      using pending_okD(1) [OF ok, of r] new by (auto simp: pend all_pending_def)
    fix r u assume u: "u \<in> set (pending s' r)"
    show "\<exists>x. task_of s' u = Some x \<and> t_pipe x = r \<and> t_ctx x = Some (t_context x) \<and> cs_ctxs s' (t_context x) \<noteq> None"
    proof (cases "u \<in> set (pending s r)")
      case True
      from pending_okD(2) [OF ok True] show ?thesis by (auto simp: old [OF True] ctxs)
    next
      case False
      with u have "u = t" "r = p" by (auto simp: pend split: if_splits)
      then show ?thesis using x by (simp add: tof ctxs)
    qed
  qed
  ultimately show ?thesis using pend by blast
qed

lemma submit_inv:
  assumes ok: "pending_ok s" and cnt: "counts_ok h s" and new: "t \<notin> all_pending s" and x: "task_of s t = Some x"
    and f: "t_pipe x = p" "t_ctx x = Some ctx" "t_context x = ctx" and held: "0 < h ctx"
    and run: "lima_sched_context_queue_task ctx p t s = Some (g, s')"
  shows "pending_ok s' \<and> counts_ok (h(ctx := h ctx - 1)) s' \<and> pending s' = (pending s)(p := pending s p @ [t]) \<and>
    p_current_task (pipe_of q s') = p_current_task (pipe_of q s)"
proof -
  from run x obtain c s1 where s1: "dma_fence_get (t_fence x) s = Some s1" "cs_ctxs s1 ctx = Some c"
    and s': "s' = on_pipe p (\<lambda>y. y\<lparr>p_queue := p_queue y @ [t], p_run_pending := True\<rparr>)
      (ctx_upd ctx (c\<lparr>cx_in_flight := (cx_in_flight c)(p := cx_in_flight c p + 1)\<rparr>) s1)"
    by (auto simp: lima_sched_context_queue_task_def bind_eq_Some_conv)
  let ?c = "c\<lparr>cx_in_flight := (cx_in_flight c)(p := cx_in_flight c p + 1)\<rparr>"
  have r: "cs_dev s1 = cs_dev s" "cs_ctxs s1 = cs_ctxs s" using releasedD(1,2) [OF released_fence_get [OF s1(1)]] by auto
  have dev: "cs_dev s' = pipe_upd p (\<lambda>y. y\<lparr>p_queue := p_queue y @ [t], p_run_pending := True\<rparr>) (cs_dev s)"
    "cs_ctxs s' = (cs_ctxs s)(ctx \<mapsto> ?c)" "cs_ctxs s ctx = Some c"
    using s1(2) by (simp_all add: s' r on_pipe_def ctx_upd_def)
  have cur: "p_current_task (pipe_of r s') = p_current_task (pipe_of r s)" for r by (simp add: dev(1))
  have "pending_ok s' \<and> counts_ok (h(ctx := h ctx - 1)) s' \<and> pending s' = (pending s)(p := pending s p @ [t])"
    by (rule queue_inv [OF ok cnt new f _ _ cur dev(3,2)]) (use x held in \<open>auto simp: dev(1)\<close>)
  with cur show ?thesis by blast
qed

lemma beside_trans:
  assumes "beside_sched a b" and "beside_sched b c"
  shows "beside_sched a c"
proof -
  have "all_pending b = all_pending a" using beside_same(1) [OF assms(1)] by (simp add: all_pending_def)
  with assms show ?thesis by (simp add: beside_sched_def)
qed

lemma beside_refl [simp]: "beside_sched s s"
  by (simp add: beside_sched_def)

lemma beside_on_pipe:
  "(\<And>y. p_queue (f y) = p_queue y) \<Longrightarrow> (\<And>y. p_current_task (f y) = p_current_task y) \<Longrightarrow> beside_sched s (on_pipe p f s)"
  by (simp add: beside_sched_def on_pipe_def)

lemma run_go_started:
  assumes "run_go Z p t err s = Some (False, s')"
  shows "beside_sched s s'"
proof -
  from assms obtain vm a b where a: "run_switch_vm p vm s = Some a"
    and b: "b = a \<or> b = on_pipe p (\<lambda>y. y\<lparr>p_timeout_pending := True\<rparr>) a" and s': "s' = on_dev (pipe_task_run p t) b"
    by (auto simp: run_go_def Let_def bind_eq_Some_conv split: if_splits)
  have "beside_sched s a"
  proof (cases "p_current_vm (pipe_of p s) = Some vm")
    case True
    with a show ?thesis by (simp add: run_switch_vm_def)
  next
    case False
    with a obtain b where b: "each (\<lambda>m s. do {
               v \<leftarrow> vs_vms s vm;
               Some (on_dev (lima_mmu_switch_vm m (Some (vm_pd_dma v))) s)
             }) (p_mmu (pipe_of p s)) s = Some b" and a: "a = on_pipe p (\<lambda>y. y\<lparr>p_current_vm := Some vm\<rparr>) b"
      by (auto simp: run_switch_vm_def bind_eq_Some_conv)
    have "beside_sched s b"
      using b by (rule each_preserves [where P = "beside_sched s", rotated 2])
        (auto simp: bind_eq_Some_conv intro: beside_trans keeps_beside keeps_mmu)
    then show ?thesis unfolding a by (rule beside_trans) (rule beside_on_pipe; simp)
  qed
  moreover have "beside_sched a b" using b by (auto intro: beside_on_pipe)
  moreover have "beside_sched b s'" unfolding s' by (intro keeps_beside keeps_pipe_ops)
  ultimately show ?thesis by (blast intro: beside_trans)
qed

lemma pending_current: "p_current_task (pipe_of p s) = Some t \<Longrightarrow> pending s p = t # p_queue (pipe_of p s)"
  by (simp add: pending_def)

lemma finish_dev:
  assumes inv: "sched_inv c" and cur: "p_current_task (pipe_of p (sc_st c)) = Some t"
    and run: "lima_sched_finish_task Z t err (sc_st c) = Some a"
  shows "cs_dev a = (cs_dev (sc_st c))\<lparr>dev_tasks := (task_of (sc_st c))(t := None)\<rparr>"
  using inv finish_ends [OF _ _ pending_current [OF cur] run, of "sc_held c"] by (auto simp: sched_inv_def)

text \<open>Both ways a task ends, on the configuration.\<close>

lemma end_inv:
  assumes inv: "sched_inv c" and cur: "p_current_task (pipe_of p (sc_st c)) = Some t"
    and run: "lima_sched_finish_task Z t err (sc_st c) = Some a"
    and s': "cs_ctxs s' = cs_ctxs a" "\<And>u. map_option task_shell (task_of s' u) = map_option task_shell (task_of a u)"
      "\<And>q. p_queue (pipe_of q s') = p_queue (pipe_of q a)"
      "\<And>q. p_current_task (pipe_of q s') = (if q = p then None else p_current_task (pipe_of q a))"
    and a: "\<And>q. p_queue (pipe_of q a) = p_queue (pipe_of q (sc_st c))"
      "\<And>q. p_current_task (pipe_of q a) = p_current_task (pipe_of q (sc_st c))"
    and w: "\<And>q. w q = (if q = p then None else sc_waiting c q)"
  shows "sched_inv (c\<lparr>sc_st := s', sc_waiting := w, sc_finished := (sc_finished c)(p := sc_finished c p @ [(t, err)])\<rparr>)"
proof -
  have pend: "pending s' = (pending (sc_st c))(p := p_queue (pipe_of p (sc_st c)))"
    using s'(3,4) a by (simp add: fun_eq_iff pending_def)
  have "pending_ok (sc_st c)" "counts_ok (sc_held c) (sc_st c)" "order_ok c" using inv by (simp_all add: sched_inv_def)
  moreover from this(1,2) have "pending_ok s' \<and> counts_ok (sc_held c) s'"
    by (rule finish_inv [OF _ _ pending_current [OF cur] run s'(1) pend s'(2)])
  ultimately show ?thesis
    using pending_current [OF cur] s'(4) a(2) w by (auto simp: sched_inv_def order_ok_def pend)
qed

lemma go_inv:
  assumes inv: "sched_inv c" and w: "sc_waiting c p = Some t" and run: "run_go Z p t err (sc_st c) = Some (rejected, s')"
  shows "sched_inv (c\<lparr>sc_st := s', sc_waiting := (sc_waiting c)(p := None),
    sc_finished := (sc_finished c)(p := sc_finished c p @ (if rejected then [(t, True)] else []))\<rparr>)"
proof (cases rejected)
  case False
  then have "run_go Z p t err (sc_st c) = Some (False, s')" using run by simp
  then have b: "beside_sched (sc_st c) s'" by (rule run_go_started)
  with beside_inv [OF inv b] False show ?thesis by (simp add: sched_inv_def order_ok_def fun_upd_idem)
next
  case True
  have cur: "p_current_task (pipe_of p (sc_st c)) = Some t" using inv w by (auto simp: sched_inv_def order_ok_def)
  from run True obtain a where a: "lima_sched_finish_task Z t True (sc_st c) = Some a"
    and s': "s' = on_pipe p (\<lambda>y. y\<lparr>p_current_task := None\<rparr>) a"
    by (auto simp: run_go_def Let_def bind_eq_Some_conv split: if_splits)
  have dev: "cs_dev a = (cs_dev (sc_st c))\<lparr>dev_tasks := (task_of (sc_st c))(t := None)\<rparr>"
    by (rule finish_dev [OF inv cur a])
  have "sched_inv (c\<lparr>sc_st := s', sc_waiting := (sc_waiting c)(p := None),
      sc_finished := (sc_finished c)(p := sc_finished c p @ [(t, True)])\<rparr>)"
    by (rule end_inv [OF inv cur a]) (simp_all add: s' on_pipe_def dev)
  with True show ?thesis by simp
qed

lemma done_inv:
  assumes inv: "sched_inv c" and w: "sc_waiting c p = None"
    and run: "lima_sched_done_work Z p (on_pipe p (\<lambda>y. y\<lparr>p_done_pending := False\<rparr>) (sc_st c)) = Some s'"
  shows "sched_inv (c\<lparr>sc_st := s', sc_finished := (sc_finished c)(p := sc_finished c p @
      (case p_current_task (pipe_of p (sc_st c)) of None \<Rightarrow> [] | Some t \<Rightarrow> [(t, p_error (pipe_of p (sc_st c)))]))\<rparr>)"
proof -
  define s where "s = on_pipe p (\<lambda>y. y\<lparr>p_done_pending := False\<rparr>) (sc_st c)"
  have "beside_sched (sc_st c) s" unfolding s_def by (rule beside_on_pipe) simp_all
  then have inv1: "sched_inv (c\<lparr>sc_st := s\<rparr>)" by (rule beside_inv [OF inv])
  have fields: "p_current_task (pipe_of p s) = p_current_task (pipe_of p (sc_st c))" "p_error (pipe_of p s) = p_error (pipe_of p (sc_st c))"
    by (simp_all add: s_def on_pipe_def)
  show ?thesis
  proof (cases "p_current_task (pipe_of p (sc_st c))")
    case None
    then have "s' = s" using run fields by (simp add: s_def [symmetric] lima_sched_done_work_def)
    with inv1 None show ?thesis by (simp add: fun_upd_idem)
  next
    case (Some t)
    let ?err = "p_error (pipe_of p (sc_st c))"
    from run Some fields obtain a where a: "lima_sched_finish_task Z t ?err s = Some a"
      and s': "s' = on_pipe p (\<lambda>y. y\<lparr>p_run_pending := True\<rparr>) (if ?err then on_pipe p (\<lambda>y. y\<lparr>p_error := False\<rparr>)
        (on_dev (pipe_task_error p) (on_pipe p (\<lambda>y. y\<lparr>p_current_task := None\<rparr>) a))
        else on_pipe p (\<lambda>y. y\<lparr>p_current_task := None\<rparr>) a)"
      by (auto simp: s_def [symmetric] lima_sched_done_work_def Let_def bind_eq_Some_conv)
    let ?b = "on_pipe p (\<lambda>y. y\<lparr>p_current_task := None\<rparr>) a"
    have cur: "p_current_task (pipe_of p (sc_st (c\<lparr>sc_st := s\<rparr>))) = Some t" using Some fields by simp
    have a': "lima_sched_finish_task Z t ?err (sc_st (c\<lparr>sc_st := s\<rparr>)) = Some a" using a by simp
    have dev: "cs_dev a = (cs_dev s)\<lparr>dev_tasks := (task_of s)(t := None)\<rparr>"
      using finish_dev [OF inv1 cur a'] by simp
    have "hw_keeps (cs_dev ?b) (exec (pipe_task_error p) (cs_dev ?b))" using keeps_pipe_ops(1) by (simp add: keeps_def)
    then have k: "map_option task_shell (task_of s' u) = map_option task_shell (task_of a u)"
      "p_queue (pipe_of q s') = p_queue (pipe_of q a)"
      "p_current_task (pipe_of q s') = (if q = p then None else p_current_task (pipe_of q a))" "cs_ctxs s' = cs_ctxs a" for u q
      by (auto simp: s' on_pipe_def on_dev_def hw_keeps_def)
    have wq: "sc_waiting c q = (if q = p then None else sc_waiting (c\<lparr>sc_st := s\<rparr>) q)" for q using w by simp
    have "sched_inv ((c\<lparr>sc_st := s\<rparr>)\<lparr>sc_st := s', sc_waiting := sc_waiting c,
        sc_finished := (sc_finished (c\<lparr>sc_st := s\<rparr>))(p := sc_finished (c\<lparr>sc_st := s\<rparr>) p @ [(t, ?err)])\<rparr>)"
      by (rule end_inv [OF inv1 cur a' k(4) k(1-3) _ _ wq]) (simp_all add: dev)
    with Some show ?thesis by simp
  qed
qed

lemma ctx_put_inv:
  assumes inv: "pending_ok s" "counts_ok h s" and held: "0 < h k" and run: "lima_ctx_put Z (Some k) s = Some s'"
  shows "pending_ok s' \<and> counts_ok (h(k := h k - 1)) s' \<and> cs_dev s' = cs_dev s"
proof -
  from inv(2) held obtain c where c: "cs_ctxs s k = Some c"
    by (cases "cs_ctxs s k") (auto simp: counts_ok_iff)
  then have cc: "ctx_counts (h k) (tasks_of s k) c" using inv(2) by (simp add: counts_ok_iff)
  have none: "tasks_of s k p = []" if "cx_refcount c = 1" for p
  proof -
    have "length (tasks_of s k lima_pipe_gp) = 0 \<and> length (tasks_of s k lima_pipe_pp) = 0"
      using cc held that unfolding ctx_counts_def by linarith
    then show ?thesis by (cases p) simp_all
  qed
  have "quiet c" if one: "cx_refcount c = 1"
    using cc none [OF one] by (simp add: ctx_counts_def quiet_def)
  then have "cx_refcount c \<noteq> 1 \<or> quiet c" by blast
  from ctx_put_effect [OF run c this] have e: "cs_dev s' = cs_dev s" "cs_ctxs s' = (cs_ctxs s)(k := ctx_dropped c)" by blast+
  have "pending_ok s' \<and> counts_ok (h(k := h k - 1)) s'"
  proof (rule ctx_change_inv [OF inv e])
    show "(h(k := h k - 1)) k = 0 \<and> (\<forall>p. tasks_of s k p = [])" if "ctx_dropped c = None"
    proof -
      have one: "cx_refcount c = 1" using that by (simp add: ctx_dropped_def split: if_splits)
      then have "h k = 1" using cc none [OF one] by (simp add: ctx_counts_def)
      then show ?thesis using none [OF one] by simp
    qed
    show "ctx_counts ((h(k := h k - 1)) k) (tasks_of s k) d" if "ctx_dropped c = Some d" for d
    proof -
      have d: "d = c\<lparr>cx_refcount := cx_refcount c - 1\<rparr>" "cx_refcount c \<noteq> 1"
        using that by (simp_all add: ctx_dropped_def split: if_splits)
      have "cx_refcount c = h k + length (tasks_of s k lima_pipe_gp) + length (tasks_of s k lima_pipe_pp)"
        "0 < cx_refcount c" using cc unfolding ctx_counts_def by blast+
      with d(2) held have "cx_refcount c - 1 = h k - 1 + length (tasks_of s k lima_pipe_gp) + length (tasks_of s k lima_pipe_pp)"
        "0 < cx_refcount c - 1" by linarith+
      moreover have f: "cx_in_flight d = cx_in_flight c" "cx_refcount d = cx_refcount c - 1" by (simp_all add: d(1))
      ultimately show ?thesis using cc unfolding ctx_counts_def f fun_upd_same by blast
    qed
  qed simp
  with e show ?thesis by blast
qed

lemma step_inv: "sched_step Z c c' \<Longrightarrow> sched_inv c \<Longrightarrow> sched_inv c'"
proof (induction rule: sched_step.induct)
  case (submit ctx p t c f s' x)
  then have inv: "pending_ok (sc_st c)" "counts_ok (sc_held c) (sc_st c)" "order_ok c" by (simp_all add: sched_inv_def)
  from submit_inv [OF inv(1,2) submit(2-7,1)] inv(3) show ?case by (auto simp: sched_inv_def order_ok_def)
next
  case (pick c p t s')
  then have b: "p_current_task (pipe_of p (sc_st c)) = None" "p_queue (pipe_of p (sc_st c)) = t # p_queue (pipe_of p s')"
    "p_current_task (pipe_of p s') = Some t" "cs_ctxs s' = cs_ctxs (sc_st c)" "task_of s' = task_of (sc_st c)"
    "\<And>q. q \<noteq> p \<Longrightarrow> pipe_of q s' = pipe_of q (sc_st c)"
    by (auto simp: run_pick_def on_pipe_def split: list.splits if_splits)
  have same: "pending s' = pending (sc_st c)"
  proof
    show "pending s' q = pending (sc_st c) q" for q by (cases "q = p") (simp_all add: pending_def b)
  qed
  have "same_tasks (sc_st c) s'" by (simp add: same_tasks_def b(5))
  from same_inv [OF same this b(4)] pick b(3,6) show ?case by (auto simp: sched_inv_def order_ok_def same)
next
  case (go c p t x err rejected s')
  from go(5,1,4) show ?case by (rule go_inv)
next
  case (finish c p s')
  from finish(4,1,3) show ?case by (rule done_inv)
next
  case (ctx_new pre alloc mgr c i mgr' s' ctx)
  then have inv: "pending_ok (sc_st c)" "counts_ok (sc_held c) (sc_st c)" "order_ok c" by (simp_all add: sched_inv_def)
  have s': "cs_dev s' = cs_dev (sc_st c)" "\<exists>d. cs_ctxs s' = (cs_ctxs (sc_st c))(ctx \<mapsto> d) \<and> cx_refcount d = 1 \<and> (\<forall>p. cx_in_flight d p = 0)"
    using ctx_new(1,2) by (auto simp: lima_ctx_create_def kzalloc_def Let_def ctx_upd_def lima_sched_context_init_def
        split: if_splits Option.bind_splits)
  then obtain d where d: "cs_ctxs s' = (cs_ctxs (sc_st c))(ctx \<mapsto> d)" "cx_refcount d = 1" "\<forall>p. cx_in_flight d p = 0" by blast
  have none: "tasks_of (sc_st c) ctx p = []" for p
    using pending_okD(2) [OF inv(1), of _ p] ctx_new(3) by (fastforce simp: tasks_of_def filter_empty_conv)
  have "pending_ok s' \<and> counts_ok ((sc_held c)(ctx := 1)) s'"
    by (rule ctx_change_inv [OF inv(1,2) s'(1) d(1)]) (use d none in \<open>auto simp: ctx_counts_def\<close>)
  with inv(3) s'(1) show ?case by (simp add: sched_inv_def order_ok_def pending_def)
next
  case (ctx_hold mgr i c ctx s')
  then have inv: "pending_ok (sc_st c)" "counts_ok (sc_held c) (sc_st c)" "order_ok c" by (simp_all add: sched_inv_def)
  from ctx_hold(1) obtain d where d: "cs_ctxs (sc_st c) ctx = Some d" "cs_dev s' = cs_dev (sc_st c)"
    "cs_ctxs s' = (cs_ctxs (sc_st c))(ctx \<mapsto> d\<lparr>cx_refcount := Suc (cx_refcount d)\<rparr>)"
    by (auto simp: lima_ctx_get_def ctx_upd_def split: option.splits Option.bind_splits if_splits)
  have "ctx_counts (sc_held c ctx) (tasks_of (sc_st c) ctx) d" using inv(2) d(1) by (simp add: counts_ok_iff)
  then have "pending_ok s' \<and> counts_ok ((sc_held c)(ctx := Suc (sc_held c ctx))) s'"
    by (intro ctx_change_inv [OF inv(1,2) d(2,3)]) (auto simp: ctx_counts_def)
  with inv(3) d(2) show ?case by (simp add: sched_inv_def order_ok_def pending_def)
next
  case (ctx_drop c ctx s')
  then have inv: "pending_ok (sc_st c)" "counts_ok (sc_held c) (sc_st c)" "order_ok c" by (simp_all add: sched_inv_def)
  from ctx_put_inv [OF inv(1,2) ctx_drop(1,2)] inv(3) show ?case by (simp add: sched_inv_def order_ok_def pending_def)
next
  case (ctx_mark i ctx mgr c mgr' s')
  then have inv: "pending_ok (sc_st c)" "counts_ok (sc_held c) (sc_st c)" "order_ok c" by (simp_all add: sched_inv_def)
  from ctx_mark(1) obtain d where d: "cs_ctxs (sc_st c) ctx = Some d" "cs_dev s' = cs_dev (sc_st c)"
    "cs_ctxs s' = (cs_ctxs (sc_st c))(ctx \<mapsto> d\<lparr>cx_freed := True\<rparr>)"
    by (auto simp: ctx_remove_def ctx_upd_def split: Option.bind_splits)
  have "ctx_counts (sc_held c ctx) (tasks_of (sc_st c) ctx) d" using inv(2) d(1) by (simp add: counts_ok_iff)
  then have "pending_ok s' \<and> counts_ok (sc_held c) s'"
    by (intro ctx_change_inv [OF inv(1,2) d(2,3)]) (auto simp: ctx_counts_def)
  with inv(3) d(2) show ?case by (simp add: sched_inv_def order_ok_def pending_def)
qed (auto intro: beside_inv timeout_beside keeps_beside keeps_intros)

lemma reachable_inv:
  assumes "(sched_step Z)\<^sup>*\<^sup>* (sched_start s) c" and "sched_idle s"
  shows "sched_inv c"
  using assms(1)
proof (induction rule: rtranclp_induct)
  case base
  show ?case using assms(2)
    by (simp add: sched_start_def sched_inv_def order_ok_def pending_ok_def counts_ok_def sched_idle_def)
next
  case (step a b)
  then show ?case by (blast intro: step_inv)
qed

section \<open>Every run\<close>

text \<open>
  C23. Execution is strictly in order on each pipe. Starting from an idle driver, after any
  interleaving of submissions from any number of contexts, rounds of the run work, completions,
  timeouts, interrupts and other driver activity, the tasks finished so far (rejected ones
  included) are exactly the first submitted ones in their order, each once; the one running, if
  any, comes next; and the queue holds the rest in order. No task is lost, run twice, overtaken
  or run beside another on its pipe.
\<close>

theorem sched_strict_order:
  assumes "sched_idle s" and "(sched_step Z)\<^sup>*\<^sup>* (sched_start s) c"
  shows "sc_submitted c p = map fst (sc_finished c p) @
      (case p_current_task (pipe_of p (sc_st c)) of None \<Rightarrow> [] | Some t \<Rightarrow> [t]) @ p_queue (pipe_of p (sc_st c))"
  using reachable_inv [OF assms(2,1)] by (simp add: sched_inv_def order_ok_def pending_def)

text \<open>
  C27. In every reachable state the counter \<open>in_flight\<close> of a context is the number of its tasks
  queued or running on that pipe, and its reference count is the number of all its tasks plus
  the references held elsewhere (the table of its file, ioctls under way). So no context is
  released while a task of it is queued or running, and when somebody else drops the last
  reference nothing is in flight.
\<close>

theorem inflight_tasks_hold_context:
  assumes "sched_idle s" and "(sched_step Z)\<^sup>*\<^sup>* (sched_start s) c"
  shows "(\<forall>k x. cs_ctxs (sc_st c) k = Some x \<longrightarrow>
      (\<forall>p. cx_in_flight x p = int (length (tasks_of (sc_st c) k p))) \<and>
      cx_refcount x = sc_held c k + length (tasks_of (sc_st c) k lima_pipe_gp) + length (tasks_of (sc_st c) k lima_pipe_pp) \<and>
      (0 < sc_held c k \<and> cx_refcount x = 1 \<longrightarrow> quiet x)) \<and>
    (\<forall>p. \<forall>t \<in> set (pending (sc_st c) p). \<exists>x. task_of (sc_st c) t = Some x \<and> cs_ctxs (sc_st c) (t_context x) \<noteq> None)"
proof (intro conjI allI impI ballI)
  have inv: "pending_ok (sc_st c)" "counts_ok (sc_held c) (sc_st c)"
    using reachable_inv [OF assms(2,1)] by (simp_all add: sched_inv_def)
  show "\<exists>x. task_of (sc_st c) t = Some x \<and> cs_ctxs (sc_st c) (t_context x) \<noteq> None"
    if "t \<in> set (pending (sc_st c) p)" for p t
    using pending_okD(2) [OF inv(1) that] by blast
  fix k x assume x: "cs_ctxs (sc_st c) k = Some x"
  have cc: "cx_in_flight x p = int (length (tasks_of (sc_st c) k p))"
    "cx_refcount x = sc_held c k + length (tasks_of (sc_st c) k lima_pipe_gp) + length (tasks_of (sc_st c) k lima_pipe_pp)" for p
    using inv(2) x unfolding counts_ok_def by blast+
  show "cx_in_flight x p = int (length (tasks_of (sc_st c) k p))"
    "cx_refcount x = sc_held c k + length (tasks_of (sc_st c) k lima_pipe_gp) + length (tasks_of (sc_st c) k lima_pipe_pp)" for p
    by (rule cc)+
  show "quiet x" if "0 < sc_held c k \<and> cx_refcount x = 1"
    unfolding quiet_def
  proof
    fix p
    have "length (tasks_of (sc_st c) k lima_pipe_gp) = 0 \<and> length (tasks_of (sc_st c) k lima_pipe_pp) = 0"
      using cc(2) that by linarith
    then have "length (tasks_of (sc_st c) k p) = 0" by (cases p) simp_all
    then show "cx_in_flight x p \<le> 0" by (simp only: cc(1))
  qed
qed

section \<open>A short run\<close>

text \<open>A context is created, a task of it is prepared, and the task is submitted.\<close>

definition idle_demo :: ctx_st where
  "idle_demo = ctx_demo\<lparr>fs_fences := [14 \<mapsto> fence_demo], cs_ctxs := (\<lambda>_. None)\<rparr>"

definition order_task :: lima_sched_task where
  "order_task = (task_demo 14 16)\<lparr>t_ctx := Some 20, t_context := 20\<rparr>"

lemma idle_demo_idle: "sched_idle idle_demo"
proof -
  have "pending idle_demo p = []" for p
    by (simp add: pending_def idle_demo_def ctx_demo_defs dev_demo_def)
  then show ?thesis by (simp add: sched_idle_def idle_demo_def)
qed

lemma order_demo_run:
  "\<exists>c. (sched_step (id, 0, 0))\<^sup>*\<^sup>* (sched_start idle_demo) c \<and> sc_submitted c lima_pipe_gp = [40]"
proof -
  let ?Z = "(id, 0, 0) :: ctx_st sleeper"
  let ?c = "\<lparr>cx_refcount = 1, cx_guilty = 0, cx_freed = False, cx_in_flight = (\<lambda>_. 0)\<rparr>"
  let ?a = "sched_start idle_demo"
  let ?s1 = "ctx_upd 20 ?c (idle_demo\<lparr>km_live := insert 20 (km_live idle_demo), km_n := 21\<rparr>)"
  have n: "km_n idle_demo = 20" "km_ok idle_demo 20" "cs_ctxs idle_demo 20 = None"
    by (simp_all add: idle_demo_def ctx_demo_defs)
  have "lima_ctx_create True (\<lambda>_. 1) lima_ctx_mgr_init (sc_st ?a) = Some (Inr 1, \<lparr>cm_handles = [(1, 20)]\<rparr>, ?s1)"
    by (simp add: lima_ctx_create_def kzalloc_def sched_start_def n Let_def lima_sched_context_init_def
        idr_insert_def lima_ctx_mgr_init_def fun_upd_idem)
  then have 1: "sched_step ?Z ?a (?a\<lparr>sc_st := ?s1, sc_held := (sc_held ?a)(20 := 1)\<rparr>)"
    by (rule sched_step.ctx_new) (simp_all add: sched_start_def n)
  let ?b = "?a\<lparr>sc_st := ?s1, sc_held := (sc_held ?a)(20 := 1)\<rparr>"
  let ?s2 = "task_set 40 (Some order_task) ?s1"
  have p1: "pending ?s1 p = []" for p
    using idle_demo_idle by (simp add: sched_idle_def pending_def ctx_upd_def)
  then have "all_pending ?s1 = {}" by (simp add: all_pending_def)
  then have "beside_sched (sc_st ?b) ?s2" by (simp add: beside_sched_def task_set_def)
  then have 2: "sched_step ?Z ?b (?b\<lparr>sc_st := ?s2\<rparr>)" by (rule sched_step.other)
  let ?d = "?b\<lparr>sc_st := ?s2\<rparr>"
  have x: "task_of (sc_st ?d) 40 = Some order_task" by (simp add: task_set_def)
  have f: "fs_fences ?s2 14 = Some fence_demo" "cs_ctxs ?s2 20 = Some ?c"
    by (simp_all add: task_set_def ctx_upd_def idle_demo_def)
  have "\<exists>s3. lima_sched_context_queue_task 20 lima_pipe_gp 40 (sc_st ?d) = Some (14, s3)"
    using x f by (simp add: lima_sched_context_queue_task_def dma_fence_get_def)
      (simp add: order_task_def task_demo_def f)
  then obtain s3 where s3: "lima_sched_context_queue_task 20 lima_pipe_gp 40 (sc_st ?d) = Some (14, s3)" by blast
  have "pending ?s2 p = []" for p using p1 by (simp add: pending_def task_set_def)
  then have new: "40 \<notin> all_pending (sc_st ?d)" by (simp add: all_pending_def)
  have "t_pipe order_task = lima_pipe_gp" "t_ctx order_task = Some 20" "t_context order_task = 20" "0 < sc_held ?d 20"
    by (simp_all add: order_task_def task_demo_def)
  from sched_step.submit [OF s3 new x this, of ?Z] obtain c where
    3: "sched_step ?Z ?d c" "sc_submitted c lima_pipe_gp = sc_submitted ?d lima_pipe_gp @ [40]" by fastforce
  moreover have "(sched_step ?Z)\<^sup>*\<^sup>* ?a c"
    using 1 2 3(1) by (meson rtranclp.rtrancl_into_rtrancl rtranclp.rtrancl_refl)
  ultimately show ?thesis by (auto simp: sched_start_def)
qed

theorem sched_strict_order_witness:
  "\<exists>c :: sched_cfg. sc_submitted c lima_pipe_gp = [40] \<and> [40] = map fst (sc_finished c lima_pipe_gp) @
      (case p_current_task (pipe_of lima_pipe_gp (sc_st c)) of None \<Rightarrow> [] | Some t \<Rightarrow> [t]) @ p_queue (pipe_of lima_pipe_gp (sc_st c))"
proof -
  from order_demo_run obtain c where c: "(sched_step (id, 0, 0))\<^sup>*\<^sup>* (sched_start idle_demo) c" "sc_submitted c lima_pipe_gp = [40]"
    by blast
  with sched_strict_order [OF idle_demo_idle c(1), of lima_pipe_gp] show ?thesis by auto
qed

theorem inflight_tasks_hold_context_witness:
  "\<exists>c :: sched_cfg. sc_submitted c lima_pipe_gp = [40] \<and>
     (\<forall>p. \<forall>t \<in> set (pending (sc_st c) p). \<exists>x. task_of (sc_st c) t = Some x \<and> cs_ctxs (sc_st c) (t_context x) \<noteq> None)"
proof -
  from order_demo_run obtain c where c: "(sched_step (id, 0, 0))\<^sup>*\<^sup>* (sched_start idle_demo) c" "sc_submitted c lima_pipe_gp = [40]"
    by blast
  with inflight_tasks_hold_context [OF idle_demo_idle c(1)] show ?thesis by blast
qed

end
