(* ===== verification/Lima_Gem.thy ===== *)
theory Lima_Gem
  imports Lima_Finish
begin

text \<open>
  Buffer objects as user space sees them, \<open>lima_gem.c\<close>: creation of handles, opening and
  closing, the mapping information, page faults, submission with its implicit synchronisation,
  and waiting. The table of handles of a file belongs to the DRM core: it is a parameter \<open>H\<close>,
  and \<open>vm\<close> is the address space of the file.
\<close>

section \<open>Handles\<close>

type_synonym handles = "u32 \<Rightarrow> nat option"

text \<open>\<open>lima_gem_object_lookup\<close>, that is \<open>drm_gem_object_lookup\<close>, takes a reference.\<close>

definition lima_gem_object_lookup :: "handles \<Rightarrow> u32 \<Rightarrow> 'a obj_st_scheme \<Rightarrow> (nat option \<times> 'a obj_st_scheme) option" where
  "lima_gem_object_lookup H h s = (case H h of
     None \<Rightarrow> Some (None, s)
   | Some bo \<Rightarrow> do { s \<leftarrow> drm_gem_object_get bo s; Some (Some bo, s) })"

definition lima_gem_create_bo :: "int \<Rightarrow> u32 \<Rightarrow> u32 \<Rightarrow> 'a obj_st_scheme \<Rightarrow> ((int + nat) \<times> 'a obj_st_scheme) option" where
  "lima_gem_create_bo junk sz flags s = lima_bo_create junk sz None s"

text \<open>
  Of the DRM core: creating a handle for an object (its code, the handle), deleting one, and
  giving an object its mmap offset.
\<close>

record 's drm_core =
  drm_gem_handle_create :: "nat \<Rightarrow> 's \<Rightarrow> (int \<times> u32 \<times> 's) option"
  drm_gem_handle_delete :: "u32 \<Rightarrow> 's \<Rightarrow> 's option"
  drm_gem_create_mmap_offset :: "nat \<Rightarrow> 's \<Rightarrow> int \<times> 's"

text \<open>\<open>h\<close> is the content of \<open>*handle\<close>, which is also returned.\<close>

definition lima_gem_create_handle ::
    "'a obj_st_scheme drm_core \<Rightarrow> int \<Rightarrow> u32 \<Rightarrow> u32 \<Rightarrow> u32 \<Rightarrow> 'a obj_st_scheme \<Rightarrow> (int \<times> u32 \<times> 'a obj_st_scheme) option" where
  "lima_gem_create_handle D junk sz flags h s = do {
     (r, s) \<leftarrow> lima_gem_create_bo junk sz flags s;
     case r of
       Inl err \<Rightarrow> Some (err, h, s)
     | Inr bo \<Rightarrow> do {
         (err, h, s) \<leftarrow> drm_gem_handle_create D bo s;
         (err, s) \<leftarrow> (if err \<noteq> 0 then Some (err, s)
           else (let (err, s) = drm_gem_create_mmap_offset D bo s in
             if err \<noteq> 0 then do { s \<leftarrow> drm_gem_handle_delete D h s; Some (err, s) } else Some (0, s)));
         s \<leftarrow> drm_gem_object_put bo s;
         Some (err, h, s)
       }
   }"

definition lima_gem_object_open :: "nat \<Rightarrow> nat \<Rightarrow> 'a vm_st_scheme \<Rightarrow> (int \<times> 'a vm_st_scheme) option" where
  "lima_gem_object_open vm bo s = lima_vm_bo_add vm bo True s"

definition lima_gem_object_close :: "nat \<Rightarrow> nat \<Rightarrow> 'a vm_st_scheme \<Rightarrow> 'a vm_st_scheme option" where
  "lima_gem_object_close vm bo s = lima_vm_bo_del vm bo s"

text \<open>The address and the offset, or an error.\<close>

definition lima_gem_get_info :: "handles \<Rightarrow> nat \<Rightarrow> u32 \<Rightarrow> 'a obj_st_scheme \<Rightarrow> ((int + u32 \<times> u64) \<times> 'a obj_st_scheme) option" where
  "lima_gem_get_info H vm h s = do {
     (obj, s) \<leftarrow> lima_gem_object_lookup H h s;
     case obj of
       None \<Rightarrow> Some (Inl (- ENOENT), s)
     | Some bo \<Rightarrow> do {
         va \<leftarrow> lima_vm_get_va vm bo s;
         b \<leftarrow> vs_bos s bo;
         s \<leftarrow> drm_gem_object_put bo s;
         Some (Inr (va, push_bit 12 (ucast (bo_map_key b))), s)
       }
   }"

section \<open>Mapping into user space\<close>

text \<open>\<open>struct vm_area_struct\<close>, as far as it is used; the protection bits are the kernel's.\<close>

record vm_area =
  vma_start :: u32
  vma_flags :: u32
  vma_page_prot :: nat

datatype vm_fault_t = VM_FAULT_SIGBUS | VM_FAULT_OOM | VM_FAULT_NOPAGE

text \<open>\<open>vm_insert_page\<close> is the kernel's, for an address and a page.\<close>

definition lima_gem_fault :: "(u32 \<Rightarrow> nat option \<Rightarrow> int) \<Rightarrow> vm_area \<Rightarrow> lima_bo \<Rightarrow> u32 \<Rightarrow> vm_fault_t" where
  "lima_gem_fault vm_insert_page vma b address = (case bo_pages b of
     None \<Rightarrow> VM_FAULT_SIGBUS
   | Some (_, pages) \<Rightarrow>
       (let pgoff = drop_bit 12 (address - vma_start vma) in
        if pgoff \<ge> drop_bit 12 (bo_size b) then VM_FAULT_SIGBUS
        else (let err = vm_insert_page address (pages ! unat pgoff) in
          if err = - ENOMEM then VM_FAULT_OOM else if err \<noteq> 0 then VM_FAULT_SIGBUS else VM_FAULT_NOPAGE)))"

definition VM_IO :: u32 where "VM_IO = 0x4000"
definition VM_DONTEXPAND :: u32 where "VM_DONTEXPAND = 0x40000"
definition VM_DONTDUMP :: u32 where "VM_DONTDUMP = 0x4000000"

definition lima_set_vma_flags :: "(u32 \<Rightarrow> nat) \<Rightarrow> vm_area \<Rightarrow> vm_area" where
  "lima_set_vma_flags writecombine vma =
     (let vma = vma\<lparr>vma_flags := vma_flags vma OR (VM_IO OR VM_DONTEXPAND OR VM_DONTDUMP)\<rparr> in
      vma\<lparr>vma_page_prot := writecombine (vma_flags vma)\<rparr>)"

definition lima_gem_mmap :: "(vm_area \<Rightarrow> int \<times> vm_area) \<Rightarrow> (u32 \<Rightarrow> nat) \<Rightarrow> vm_area \<Rightarrow> int \<times> vm_area" where
  "lima_gem_mmap drm_gem_mmap writecombine vma =
     (let (r, vma) = drm_gem_mmap vma in if r \<noteq> 0 then (r, vma) else (0, lima_set_vma_flags writecombine vma))"

section \<open>Submission\<close>

text \<open>
  \<open>struct lima_submit\<close>; the array \<open>bos\<close> is the list copied from user space, its length
  \<open>nr_bos\<close>.
\<close>

record lima_submit =
  su_ctx :: nat
  su_pipe :: lima_pipe_id
  su_flags :: u32
  su_bos :: "drm_lima_gem_submit_bo list"
  su_in_sync0 :: u32
  su_in_sync1 :: u32
  su_out_sync :: u32
  su_task :: nat

text \<open>
  The inner loop of \<open>lima_gem_add_deps\<close> over the fences of one object: a dependency takes over
  the reference; a failure drops those not yet taken over, and the array.
\<close>

fun gem_dep_loop :: "nat \<Rightarrow> nat option \<Rightarrow> nat list \<Rightarrow> 'a ctx_st_scheme \<Rightarrow> (int \<times> 'a ctx_st_scheme) option" where
  "gem_dep_loop t arr [] s = do { s \<leftarrow> kfree arr s; Some (0, s) }"
| "gem_dep_loop t arr (f # fs) s = do {
     (err, s) \<leftarrow> lima_sched_task_add_dep t f s;
     if err \<noteq> 0 then do {
       s \<leftarrow> each fence_kref_put (f # fs) s;
       s \<leftarrow> kfree arr s;
       Some (err, s)
     } else gem_dep_loop t arr fs s
   }"

fun lima_gem_add_deps :: "nat \<Rightarrow> nat list \<Rightarrow> 'a ctx_st_scheme \<Rightarrow> (int \<times> 'a ctx_st_scheme) option" where
  "lima_gem_add_deps t [] s = Some (0, s)"
| "lima_gem_add_deps t (bo # bos) s = do {
     b \<leftarrow> vs_bos s bo;
     (n, fs, arr, s) \<leftarrow> lima_resv_get_fences (bo_resv b) s;
     if n < 0 then Some (n, s)
     else do {
       (err, s) \<leftarrow> gem_dep_loop t arr fs s;
       if err \<noteq> 0 then Some (err, s) else lima_gem_add_deps t bos s
     }
   }"

text \<open>
  The loop that looks the handles up: the code, the objects found so far (\<open>lbos\<close> up to \<open>i\<close>).
\<close>

fun gem_lookup_loop ::
    "handles \<Rightarrow> drm_lima_gem_submit_bo list \<Rightarrow> nat list \<Rightarrow> 'a obj_st_scheme \<Rightarrow> (int \<times> nat list \<times> 'a obj_st_scheme) option" where
  "gem_lookup_loop H [] lbos s = Some (0, lbos, s)"
| "gem_lookup_loop H (x # xs) lbos s =
     (if sb_flags x AND NOT (LIMA_SUBMIT_BO_READ OR LIMA_SUBMIT_BO_WRITE) \<noteq> 0 then Some (- EINVAL, lbos, s)
      else do {
        (obj, s) \<leftarrow> lima_gem_object_lookup H (sb_handle x) s;
        case obj of
          None \<Rightarrow> Some (- ENOENT, lbos, s)
        | Some bo \<Rightarrow> gem_lookup_loop H xs (lbos @ [bo]) s
      })"

text \<open>The loop that counts the objects' mappings: the code and the index it stopped at.\<close>

fun gem_map_loop :: "nat \<Rightarrow> nat list \<Rightarrow> nat \<Rightarrow> 'a vm_st_scheme \<Rightarrow> (int \<times> nat \<times> 'a vm_st_scheme) option" where
  "gem_map_loop vm [] i s = Some (0, i, s)"
| "gem_map_loop vm (bo # bos) i s = do {
     (err, s) \<leftarrow> lima_vm_bo_add vm bo False s;
     if err \<noteq> 0 then Some (err, i, s) else gem_map_loop vm bos (Suc i) s
   }"

text \<open>The label \<open>out_put\<close>, at index \<open>i\<close>.\<close>

definition gem_out_put :: "int \<Rightarrow> nat \<Rightarrow> nat list \<Rightarrow> nat \<Rightarrow> 'a obj_st_scheme \<Rightarrow> (int \<times> 'a obj_st_scheme) option" where
  "gem_out_put err arr lbos i s = do {
     s \<leftarrow> each drm_gem_object_put (rev (take i lbos)) s;
     s \<leftarrow> kfree (Some arr) s;
     Some (err, s)
   }"

text \<open>
  The fence becomes the exclusive fence of every object. \<open>lbos\<close> is read through its block: when
  it has been freed, that is a use after free.
\<close>

definition gem_publish_one :: "nat \<Rightarrow> nat \<Rightarrow> nat \<Rightarrow> 'a ctx_st_scheme \<Rightarrow> 'a ctx_st_scheme option" where
  "gem_publish_one f arr bo s = (if arr \<notin> km_live s then None else do {
     s \<leftarrow> dma_fence_get f s;
     b \<leftarrow> vs_bos s bo;
     (r, resv, s) \<leftarrow> lima_resv_set_excl (bo_resv b) f s;
     Some (bo_upd bo (b\<lparr>bo_resv := resv\<rparr>) s)
   })"

text \<open>
  \<open>lima_gem_submit\<close> after the objects are mapped. \<open>E\<close> is what the rest of the system, the
  pipe's workqueue above all, does between the queueing of the task and the last loop.
\<close>

definition gem_submit_task ::
    "'a ctx_st_scheme sleeper \<Rightarrow> ('a ctx_st_scheme \<Rightarrow> 'a ctx_st_scheme) \<Rightarrow> nat \<Rightarrow> lima_submit \<Rightarrow> nat \<Rightarrow> nat list
      \<Rightarrow> 'a ctx_st_scheme \<Rightarrow> (int \<times> 'a ctx_st_scheme) option" where
  "gem_submit_task Z E vm sub arr lbos s = do {
     (err, s) \<leftarrow> lima_sched_task_init (su_task sub) (su_ctx sub) (su_pipe sub) lbos (Some arr) vm s;
     if err \<noteq> 0 then gem_out_put err arr lbos (length lbos) s
     else do {
       (err, s) \<leftarrow> lima_gem_add_deps (su_task sub) lbos s;
       if err \<noteq> 0 then do { s \<leftarrow> lima_sched_task_fini Z (su_task sub) s; Some (err, s) }
       else do {
         x \<leftarrow> task_of s (su_task sub);
         let s = task_set (su_task sub) (Some (x\<lparr>t_ctx := Some (su_ctx sub)\<rparr>)) s;
         (f, s) \<leftarrow> lima_sched_context_queue_task (su_ctx sub) (su_pipe sub) (su_task sub) s;
         s \<leftarrow> each (gem_publish_one f arr) lbos (E s);
         s \<leftarrow> dma_fence_put (Some f) s;
         Some (0, s)
       }
     }
   }"

definition lima_gem_submit ::
    "'a ctx_st_scheme sleeper \<Rightarrow> ('a ctx_st_scheme \<Rightarrow> 'a ctx_st_scheme) \<Rightarrow> handles \<Rightarrow> nat \<Rightarrow> lima_submit
      \<Rightarrow> 'a ctx_st_scheme \<Rightarrow> (int \<times> 'a ctx_st_scheme) option" where
  "lima_gem_submit Z E H vm sub s =
     (if su_flags sub AND LIMA_SUBMIT_FLAG_EXPLICIT_FENCE \<noteq> 0 \<or> su_in_sync0 sub \<noteq> 0 \<or> su_in_sync1 sub \<noteq> 0 \<or> su_out_sync sub \<noteq> 0
      then Some (- EINVAL, s)
      else (case kzalloc s of
        (None, s) \<Rightarrow> Some (- ENOMEM, s)
      | (Some arr, s) \<Rightarrow> do {
          (err, lbos, s) \<leftarrow> gem_lookup_loop H (su_bos sub) [] s;
          if err \<noteq> 0 then gem_out_put err arr lbos (length lbos) s
          else do {
            (err, i, s) \<leftarrow> gem_map_loop vm lbos 0 s;
            if err \<noteq> 0 then gem_out_put err arr lbos i s
            else gem_submit_task Z E vm sub arr lbos s
          }
        }))"

section \<open>Waiting\<close>

text \<open>\<open>ns2j\<close> is \<open>nsecs_to_jiffies\<close>, \<open>now\<close> the monotonic clock.\<close>

definition lima_gem_wait ::
    "'a ctx_st_scheme wait_event \<Rightarrow> (u64 \<Rightarrow> u32) \<Rightarrow> u64 \<Rightarrow> handles \<Rightarrow> u32 \<Rightarrow> u32 \<Rightarrow> u64 \<Rightarrow> 'a ctx_st_scheme
      \<Rightarrow> (int \<times> 'a ctx_st_scheme) option" where
  "lima_gem_wait W ns2j now H h op timeout_ns s =
     (if op AND NOT (LIMA_GEM_WAIT_READ OR LIMA_GEM_WAIT_WRITE) \<noteq> 0 then Some (- EINVAL, s)
      else do {
        (obj, s) \<leftarrow> lima_gem_object_lookup H h s;
        case obj of
          None \<Rightarrow> Some (- ENOENT, s)
        | Some bo \<Rightarrow> do {
            b \<leftarrow> vs_bos s bo;
            (r, s) \<leftarrow> lima_resv_wait_timeout W (bo_resv b) True (lima_timeout_abs_to_jiffies ns2j now timeout_ns) s;
            s \<leftarrow> drm_gem_object_put bo s;
            Some (if r > 0 then 0 else if r = 0 then - ETIME else r, s)
          }
      })"

end
