(* ===== verification/Lima_Submit.thy ===== *)
theory Lima_Submit
  imports Lima_Gem
begin

text \<open>
  Submission: that \<open>lima_gem_submit\<close> returns in every well-formed state, what a success
  establishes, and that a failure gives back every reference and block it took.
\<close>

section \<open>Steps on the heap\<close>

lemma kzalloc_heap:
  assumes wf: "heap_wf s" and run: "kzalloc s = (r, s')"
  shows "heap_wf s'" and "s' = s\<lparr>km_live := set_option r \<union> km_live s, km_n := km_n s'\<rparr>"
    and "heap_plain s' = set_option r \<union> heap_plain s" and "set_option r \<inter> km_live s = {}"
proof -
  have km: "kmem_wf s" using wf by (simp add: heap_wf_def fence_wf_def)
  have r: "set_option r \<inter> km_live s = {}"
    using kzalloc_fresh [OF km] run by (auto simp: kzalloc_def split: if_splits)
  show s': "s' = s\<lparr>km_live := set_option r \<union> km_live s, km_n := km_n s'\<rparr>"
    using run by (auto simp: kzalloc_def split: if_splits)
  show "set_option r \<inter> km_live s = {}" by (rule r)
  have doms: "dom (fs_fences s) \<subseteq> km_live s" "dom (vs_vms s) \<subseteq> km_live s" "heap_others s \<subseteq> km_live s"
    using wf by (auto simp: heap_wf_def fence_wf_def vms_wf_def)
  have oth: "heap_others s' = heap_others s" by (subst s') (simp add: heap_others_def)
  have fields: "fs_fences s' = fs_fences s" "vs_vms s' = vs_vms s" "vs_bos s' = vs_bos s" "cs_dev s' = cs_dev s"
    "cs_ctxs s' = cs_ctxs s" "dm_live s' = dm_live s" "km_live s' = set_option r \<union> km_live s"
    by (subst s', simp)+
  show "heap_plain s' = set_option r \<union> heap_plain s"
    using doms r unfolding heap_plain_def oth fields by auto
  have "kmem_wf s'" using kzalloc_wf [OF km] run by simp
  then have "fence_wf s'" using wf by (auto simp: heap_wf_def fence_wf_def fields)
  moreover have "vms_wf s'" using wf by (auto simp: heap_wf_def vms_wf_def vm_wf_def fields)
  ultimately show "heap_wf s'" using wf unfolding heap_wf_def oth fields by auto
qed

lemma bo_upd_heap:
  assumes "heap_wf s" and "vs_bos s bo = Some b"
  shows "heap_wf (bo_upd bo c s)" and "heap_plain (bo_upd bo c s) = heap_plain s"
proof -
  have dom: "dom (vs_bos (bo_upd bo c s)) = dom (vs_bos s)" using assms(2) by (auto simp: bo_upd_def)
  have same: "heap_others (bo_upd bo c s) = heap_others s"
    unfolding heap_others_def dom by (simp add: bo_upd_def)
  show "heap_plain (bo_upd bo c s) = heap_plain s" unfolding heap_plain_def same by (simp add: bo_upd_def)
  show "heap_wf (bo_upd bo c s)"
    using assms(1) unfolding heap_wf_def same dom
    by (simp add: bo_upd_def fence_wf_def kmem_wf_def vms_wf_def vm_wf_def)
qed

lemma task_set_heap:
  assumes "heap_wf s" and "task_of s t = Some x"
  shows "heap_wf (task_set t (Some y) s)" and "heap_plain (task_set t (Some y) s) = heap_plain s"
proof -
  have dom: "dom (task_of (task_set t (Some y) s)) = dom (task_of s)" using assms(2) by (auto simp: task_set_def)
  have same: "heap_others (task_set t (Some y) s) = heap_others s"
    unfolding heap_others_def dom by (simp add: task_set_def)
  show "heap_plain (task_set t (Some y) s) = heap_plain s" unfolding heap_plain_def same by (simp add: task_set_def)
  show "heap_wf (task_set t (Some y) s)"
    using assms(1) unfolding heap_wf_def same dom
    by (simp add: task_set_def fence_wf_def kmem_wf_def vms_wf_def vm_wf_def)
qed

section \<open>Looking up and mapping\<close>

text \<open>
  What the steps on buffer objects leave alone: the reservation objects, and that an object is
  mapped in the file's address space.
\<close>

definition bo_view :: "nat \<Rightarrow> lima_bo \<Rightarrow> lima_resv \<times> bool" where
  "bo_view vm b = (bo_resv b, lima_vm_bo_find vm b \<noteq> None)"

definition bos_only :: "nat \<Rightarrow> 'a ctx_st_scheme \<Rightarrow> 'a ctx_st_scheme \<Rightarrow> bool" where
  "bos_only vm s s' \<longleftrightarrow> (\<exists>m. s' = s\<lparr>vs_bos := m\<rparr>) \<and> heap_plain s' = heap_plain s \<and>
     (\<forall>b. map_option (bo_view vm) (vs_bos s' b) = map_option (bo_view vm) (vs_bos s b))"

lemma bos_only_refl [simp]: "bos_only vm s s"
  unfolding bos_only_def by (auto intro: exI [of _ "vs_bos s"])

lemma bos_only_trans [trans]: "bos_only vm a b \<Longrightarrow> bos_only vm b c \<Longrightarrow> bos_only vm a c"
  unfolding bos_only_def by auto

lemma bos_onlyD:
  assumes "bos_only vm s s'"
  shows "fs_fences s' = fs_fences s" "vs_vms s' = vs_vms s" "cs_dev s' = cs_dev s" "cs_ctxs s' = cs_ctxs s"
    "km_live s' = km_live s" "heap_plain s' = heap_plain s" "frefs s' = frefs s" "vrefs s' = vrefs s"
  using assms by (auto simp: bos_only_def frefs_def vrefs_def fun_eq_iff)

lemma bos_view_Some:
  assumes "bos_only vm s s'" and "vs_bos s bo = Some b"
  obtains c where "vs_bos s' bo = Some c" "bo_resv c = bo_resv b" "lima_vm_bo_find vm c = None \<longleftrightarrow> lima_vm_bo_find vm b = None"
proof -
  have "map_option (bo_view vm) (vs_bos s' bo) = Some (bo_view vm b)" using assms by (simp add: bos_only_def)
  then show thesis using that by (auto simp: bo_view_def)
qed

lemma bo_upd_only:
  assumes "heap_wf s" and "vs_bos s bo = Some b" and "bo_view vm c = bo_view vm b"
  shows "bos_only vm s (bo_upd bo c s)"
proof -
  have "bo_upd bo c s = s\<lparr>vs_bos := (vs_bos s)(bo \<mapsto> c)\<rparr>" by (simp add: bo_upd_def)
  then have "\<exists>m. bo_upd bo c s = s\<lparr>vs_bos := m\<rparr>" by blast
  moreover have "map_option (bo_view vm) (vs_bos (bo_upd bo c s) x) = map_option (bo_view vm) (vs_bos s x)" for x
    using assms(2,3) by (simp add: bo_upd_def)
  ultimately show ?thesis using bo_upd_heap(2) [OF assms(1,2)] unfolding bos_only_def by blast
qed

lemma brefs_upd: "vs_bos s bo = Some b \<Longrightarrow> brefs (bo_upd bo c s) = (brefs s)(bo := bo_refs c)"
  by (auto simp: brefs_def bo_upd_def fun_eq_iff)

text \<open>The handles of a file name live objects that are mapped in its address space.\<close>

definition handles_ok :: "handles \<Rightarrow> nat \<Rightarrow> 'a ctx_st_scheme \<Rightarrow> bool" where
  "handles_ok H vm s \<longleftrightarrow> (\<forall>h bo. H h = Some bo \<longrightarrow>
     (\<exists>b. vs_bos s bo = Some b \<and> 0 < bo_refs b \<and> lima_vm_bo_find vm b \<noteq> None))"

lemma handles_kept:
  assumes "handles_ok H vm s" and "bos_only vm s s'" and "\<forall>b. brefs s b \<le> brefs s' b"
  shows "handles_ok H vm s'"
  unfolding handles_ok_def
proof (intro allI impI)
  fix h bo assume "H h = Some bo"
  then obtain b where b: "vs_bos s bo = Some b" "0 < bo_refs b" "lima_vm_bo_find vm b \<noteq> None"
    using assms(1) unfolding handles_ok_def by blast
  obtain c where c: "vs_bos s' bo = Some c" "bo_resv c = bo_resv b"
    "lima_vm_bo_find vm c = None \<longleftrightarrow> lima_vm_bo_find vm b = None" by (rule bos_view_Some [OF assms(2) b(1)])
  have "bo_refs b \<le> bo_refs c" using assms(3) [rule_format, of bo] b(1) c(1) by (simp add: brefs_def)
  then show "\<exists>b. vs_bos s' bo = Some b \<and> 0 < bo_refs b \<and> lima_vm_bo_find vm b \<noteq> None"
    using b(2,3) c(3) by (intro exI [of _ c] conjI c(1)) simp_all
qed

definition bo_flags_ok :: "drm_lima_gem_submit_bo \<Rightarrow> bool" where
  "bo_flags_ok x \<longleftrightarrow> sb_flags x AND NOT (LIMA_SUBMIT_BO_READ OR LIMA_SUBMIT_BO_WRITE) = 0"

lemma lookup_loop_heap:
  assumes "heap_wf s" and "handles_ok H vm s"
  shows "\<exists>err ns s'. gem_lookup_loop H xs lbos s = Some (err, lbos @ ns, s') \<and> heap_wf s' \<and> bos_only vm s s' \<and>
    brefs s' = (\<lambda>b. brefs s b + count_list ns b) \<and> (\<forall>b \<in> set ns. b \<in> ran H) \<and>
    (err = 0 \<longrightarrow> (\<forall>x \<in> set xs. bo_flags_ok x) \<and> map (\<lambda>x. H (sb_handle x)) xs = map Some ns)"
  using assms
proof (induction xs arbitrary: lbos s)
  case Nil
  then show ?case by (intro exI [of _ 0] exI [of _ "[]"] exI [of _ s]) simp
next
  case (Cons x xs)
  show ?case
  proof (cases "bo_flags_ok x \<and> H (sb_handle x) \<noteq> None")
    case False
    then obtain e where "gem_lookup_loop H (x # xs) lbos s = Some (e, lbos @ [], s)" "e \<noteq> 0"
      by (cases "bo_flags_ok x") (auto simp: bo_flags_ok_def lima_gem_object_lookup_def)
    then show ?thesis using Cons.prems by (intro exI [of _ e] exI [of _ "[]"] exI [of _ s]) simp
  next
    case True
    then obtain bo where bo: "H (sb_handle x) = Some bo" by blast
    then obtain b where b: "vs_bos s bo = Some b" using Cons.prems(2) unfolding handles_ok_def by blast
    let ?s = "bo_upd bo (b\<lparr>bo_refs := Suc (bo_refs b)\<rparr>) s"
    have step: "gem_lookup_loop H (x # xs) lbos s = gem_lookup_loop H xs (lbos @ [bo]) ?s"
      using True b bo by (simp add: bo_flags_ok_def lima_gem_object_lookup_def drm_gem_object_get_def)
    have only: "bos_only vm s ?s" using Cons.prems(1) b by (rule bo_upd_only) (simp add: bo_view_def lima_vm_bo_find_def)
    have refs: "brefs ?s = (brefs s)(bo := Suc (brefs s bo))" using b by (simp add: brefs_upd [OF b]) (simp add: brefs_def)
    have "handles_ok H vm ?s" using Cons.prems(2) only by (rule handles_kept) (simp add: refs)
    from Cons.IH [OF bo_upd_heap(1) [OF Cons.prems(1) b] this, of "lbos @ [bo]"] obtain err ns s' where
      r: "gem_lookup_loop H xs (lbos @ [bo]) ?s = Some (err, lbos @ bo # ns, s')" "heap_wf s'" "bos_only vm ?s s'"
        "brefs s' = (\<lambda>b. brefs ?s b + count_list ns b)" "\<forall>b \<in> set ns. b \<in> ran H"
        "err = 0 \<longrightarrow> (\<forall>x \<in> set xs. bo_flags_ok x) \<and> map (\<lambda>x. H (sb_handle x)) xs = map Some ns"
      by auto
    have "brefs s' = (\<lambda>b. brefs s b + count_list (bo # ns) b)" unfolding r(4) refs by (auto simp: fun_eq_iff)
    moreover have "bos_only vm s s'" using only r(3) by (rule bos_only_trans)
    ultimately show ?thesis using r step True bo
      by (intro exI [of _ err] exI [of _ "bo # ns"] exI [of _ s']) (auto intro: ranI)
  qed
qed

lemma map_loop_heap:
  assumes "heap_wf s" and "\<forall>bo \<in> set bos. \<exists>b. vs_bos s bo = Some b \<and> lima_vm_bo_find vm b \<noteq> None"
  shows "\<exists>s'. gem_map_loop vm bos i s = Some (0, i + length bos, s') \<and> heap_wf s' \<and> bos_only vm s s' \<and> brefs s' = brefs s"
  using assms
proof (induction bos arbitrary: i s)
  case Nil
  then show ?case by simp
next
  case (Cons bo bos)
  then obtain b e where b: "vs_bos s bo = Some b" "lima_vm_bo_find vm b = Some e" by auto
  let ?b = "b\<lparr>bo_va := va_update vm (\<lambda>e. e\<lparr>bv_ref_count := bv_ref_count e + 1\<rparr>) (bo_va b)\<rparr>"
  let ?s = "bo_upd bo ?b s"
  have find: "lima_vm_bo_find vm ?b = Some (e\<lparr>bv_ref_count := bv_ref_count e + 1\<rparr>)"
    using b(2) by (rule find_va_update) simp
  have only: "bos_only vm s ?s" using Cons.prems(1) b(1) by (rule bo_upd_only) (use b find in \<open>simp add: bo_view_def\<close>)
  have refs: "brefs ?s = brefs s" by (simp add: brefs_upd [OF b(1)]) (simp add: brefs_def b(1) fun_eq_iff)
  have "\<forall>bo \<in> set bos. \<exists>b. vs_bos ?s bo = Some b \<and> lima_vm_bo_find vm b \<noteq> None"
    using Cons.prems(2) find by (simp add: bo_upd_def)
  from Cons.IH [OF bo_upd_heap(1) [OF Cons.prems(1) b(1)] this, of "Suc i"] obtain s' where
    s': "gem_map_loop vm bos (Suc i) ?s = Some (0, i + length (bo # bos), s')" "heap_wf s'" "bos_only vm ?s s'" "brefs s' = brefs ?s"
    by auto
  have "gem_map_loop vm (bo # bos) i s = gem_map_loop vm bos (Suc i) ?s" using b by (simp add: lima_vm_bo_add_def)
  with s' bos_only_trans [OF only s'(3)] refs show ?case by simp
qed

text \<open>The label \<open>out_put\<close> after the objects \<open>ns\<close> have been looked up.\<close>

lemma out_put_heap:
  assumes wf: "heap_wf s" and refs: "brefs s = (\<lambda>b. r b + count_list ns b)" and pos: "\<forall>b \<in> set ns. 0 < r b"
    and arr: "arr \<in> heap_plain s"
  shows "\<exists>s'. gem_out_put err arr ns (length ns) s = Some (err, s') \<and> heap_wf s' \<and> brefs s' = r \<and>
    frefs s' = frefs s \<and> vrefs s' = vrefs s \<and> cs_dev s' = cs_dev s \<and> cs_ctxs s' = cs_ctxs s \<and> heap_plain s' = heap_plain s - {arr}"
proof -
  have count: "count_list (rev ns) b = count_list ns b" for b by simp
  have "\<forall>b \<in> set (rev ns). count_list (rev ns) b < brefs s b" using pos by (simp add: refs)
  from gem_puts_heap [OF wf this] obtain s1 where s1: "each drm_gem_object_put (rev ns) s = Some s1" "heap_wf s1"
    "brefs s1 = (\<lambda>b. brefs s b - count_list (rev ns) b)" "beside_bos s s1" by blast
  have p: "set_option (Some arr) \<subseteq> heap_plain s1" using arr s1(4) by (simp add: beside_bos_def)
  from kfree_heap [OF s1(2) p] obtain s2 where s2: "kfree (Some arr) s1 = Some s2" "heap_wf s2"
    "s2 = s1\<lparr>km_live := km_live s1 - {arr}\<rparr>" "heap_plain s2 = heap_plain s1 - {arr}" by auto
  have "brefs s2 = brefs s1" by (simp add: s2(3) brefs_def fun_eq_iff)
  also have "\<dots> = r" by (simp add: s1(3) refs fun_eq_iff)
  finally have "brefs s2 = r" .
  then show ?thesis
    using s1 s2 by (simp add: gem_out_put_def beside_bos_def frefs_def vrefs_def fun_eq_iff)
qed

section \<open>Initialising the task\<close>

lemma vm_get_heap:
  assumes wf: "heap_wf s" and pos: "0 < vrefs s vm"
  shows "\<exists>s'. lima_vm_get vm s = Some s' \<and> heap_wf s' \<and> vrefs s' = (vrefs s)(vm := Suc (vrefs s vm)) \<and> beside_vms s s'"
proof -
  have vw: "vms_wf s" using wf by (simp add: heap_wf_def)
  from vrefs_Some [OF vw pos] obtain v where v: "vs_vms s vm = Some v" by blast
  from vm_get_live [OF vw pos] obtain s' where s': "lima_vm_get vm s = Some s'" "vms_wf s'"
    "vrefs s' = (vrefs s)(vm := Suc (vrefs s vm))" by blast
  have s1: "s' = vm_upd vm (v\<lparr>vm_refcount := Suc (vm_refcount v)\<rparr>) s" using s'(1) v by (simp add: lima_vm_get_def)
  have dom: "dom (vs_vms s') = dom (vs_vms s)" using v by (auto simp: s1)
  have same: "heap_others s' = heap_others s" "heap_plain s' = heap_plain s"
    unfolding heap_plain_def heap_others_def dom by (simp_all add: s1 vm_upd_def)
  have "heap_wf s'"
    using wf s'(2) unfolding heap_wf_def same dom by (simp add: s1 vm_upd_def fence_wf_def kmem_wf_def)
  moreover have "beside_vms s s'" unfolding beside_vms_def same by (simp add: s1 vm_upd_def)
  ultimately show ?thesis using s' by blast
qed

lemma fence_create_heap:
  assumes wf: "heap_wf s" and run: "lima_fence_create name s = (r, s')"
  shows "heap_wf s'" and "beside_fences s s'"
    and "r = Some f \<Longrightarrow> frefs s f = 0 \<and> frefs s' = (frefs s)(f := 1)" and "r = None \<Longrightarrow> frefs s' = frefs s"
proof -
  obtain k t where kz: "kzalloc s = (k, t)" by fastforce
  note h = kzalloc_heap [OF wf kz]
  have fw: "fence_wf s" using wf by (simp add: heap_wf_def)
  have t: "fs_fences t = fs_fences s" "vs_vms t = vs_vms s" "vs_bos t = vs_bos s" "cs_dev t = cs_dev s" "cs_ctxs t = cs_ctxs s"
    "km_live t = set_option k \<union> km_live s" "dm_live t = dm_live s"
    by (subst h(2), simp)+
  have "heap_wf s' \<and> beside_fences s s'"
  proof (cases k)
    case None
    then have "s' = t" using run kz by (simp add: lima_fence_create_def)
    with h None t show ?thesis by (simp add: beside_fences_def)
  next
    case (Some f)
    let ?x = "\<lparr>f_refcount = 1, f_status = 0, f_name = name, f_timestamp_ns = 0\<rparr>"
    have s': "s' = t\<lparr>fs_fences := (fs_fences s)(f \<mapsto> ?x)\<rparr>" using run kz Some t by (simp add: lima_fence_create_def)
    have f: "f \<notin> km_live s" using h(4) Some by simp
    have fr: "f \<notin> dom (vs_vms s)" "f \<notin> heap_others s" "f \<notin> dom (fs_fences s)"
      using f wf by (auto simp: heap_wf_def vms_wf_def fence_wf_def)
    have oth: "heap_others s' = heap_others s" by (simp add: s' t heap_others_def)
    have plain: "heap_plain s' = heap_plain s"
      unfolding heap_plain_def oth using f by (auto simp: s' t Some)
    have "fence_wf s'" using fence_create_refs [OF fw, of name f s'] run kz Some by (simp add: lima_fence_create_def)
    moreover have "vms_wf s'" using h(1) by (auto simp: s' heap_wf_def vms_wf_def vm_wf_def)
    ultimately have "heap_wf s'"
      using wf fr unfolding heap_wf_def oth by (auto simp: s' t Some)
    then show ?thesis unfolding beside_fences_def plain by (simp add: s' t)
  qed
  then show "heap_wf s'" "beside_fences s s'" by blast+
  show "r = Some f \<Longrightarrow> frefs s f = 0 \<and> frefs s' = (frefs s)(f := 1)" using fence_create_refs [OF fw] run by blast
  show "r = None \<Longrightarrow> frefs s' = frefs s" using fence_create_fail [OF fw] run by blast
qed

text \<open>The steps on fences and address spaces alone leave the objects and the contexts' side alone.\<close>

definition task_ready :: "lima_sched_task \<Rightarrow> nat \<Rightarrow> lima_pipe_id \<Rightarrow> nat list \<Rightarrow> nat \<Rightarrow> nat \<Rightarrow> nat \<Rightarrow> lima_sched_task" where
  "task_ready x ctx p bos arr vm f = x\<lparr>t_pipe := p, t_ctx := None, t_context := ctx, t_vm := vm,
     t_deps := [], t_deps_arr := None, t_bos := bos, t_bos_arr := Some arr, t_fence := f\<rparr>"

lemma task_init_heap:
  assumes wf: "heap_wf s" and x: "task_of s t = Some x" and vm: "0 < vrefs s vm"
  obtains (ok) f s' where "lima_sched_task_init t ctx p bos (Some arr) vm s = Some (0, s')" and "heap_wf s'"
    and "frefs s f = 0" and "frefs s' = (frefs s)(f := 1)" and "vrefs s' = (vrefs s)(vm := Suc (vrefs s vm))"
    and "task_of s' = (task_of s)(t \<mapsto> task_ready x ctx p bos arr vm f)" and "vs_bos s' = vs_bos s" and "cs_ctxs s' = cs_ctxs s"
    and "heap_plain s' = heap_plain s" and "dev_pipe (cs_dev s') = dev_pipe (cs_dev s)"
  | (fail) s' where "lima_sched_task_init t ctx p bos (Some arr) vm s = Some (- ENOMEM, s')" and "heap_wf s'"
    and "frefs s' = frefs s" and "vrefs s' = vrefs s" and "vs_bos s' = vs_bos s" and "cs_ctxs s' = cs_ctxs s"
    and "heap_plain s' = heap_plain s" and "dev_pipe (cs_dev s') = dev_pipe (cs_dev s)"
    and "\<exists>y. task_of s' = (task_of s)(t \<mapsto> y)"
proof -
  from vm_get_heap [OF wf vm] obtain a where a: "lima_vm_get vm s = Some a" "heap_wf a"
    "vrefs a = (vrefs s)(vm := Suc (vrefs s vm))" "beside_vms s a" by blast
  have fa: "frefs a = frefs s" using a(4) by (simp add: beside_vms_def frefs_def fun_eq_iff)
  obtain r b where cr: "lima_fence_create (p_name (pipe_of p a)) a = (r, b)" by fastforce
  note h = fence_create_heap [OF a(2) cr]
  have vb: "vrefs b = vrefs a" using h(2) by (simp add: beside_fences_def vrefs_def fun_eq_iff)
  have xb: "task_of b t = Some x" using x a(4) h(2) by (simp add: beside_vms_def beside_fences_def)
  show thesis
  proof (cases r)
    case (Some f)
    let ?s = "task_set t (Some (task_ready x ctx p bos arr vm f)) b"
    have "lima_sched_task_init t ctx p bos (Some arr) vm s = Some (0, ?s)"
      using x a(1,4) cr Some by (simp add: lima_sched_task_init_def task_ready_def beside_vms_def)
    moreover have "heap_wf ?s" "heap_plain ?s = heap_plain s"
      using task_set_heap [OF h(1) xb] h(2) a(4) by (simp_all add: beside_fences_def beside_vms_def)
    moreover have "frefs ?s = frefs b" "vrefs ?s = vrefs b" by (simp_all add: task_set_def frefs_def vrefs_def fun_eq_iff)
    ultimately show thesis
      using h(2) h(3) [OF Some] a fa vb
      by (intro ok [of ?s f]) (simp_all add: beside_fences_def beside_vms_def task_set_def)
  next
    case None
    have "0 < vrefs b vm" by (simp add: vb a(3))
    from vm_put_heap [OF h(1) this] obtain c where c: "lima_vm_put vm b = Some c" "heap_wf c"
      "vrefs c = (vrefs b)(vm := vrefs b vm - 1)" "beside_vms b c" by blast
    have xc: "task_of c t = Some x" using xb c(4) by (simp add: beside_vms_def)
    let ?s = "task_set t (Some (x\<lparr>t_pipe := p, t_ctx := None, t_context := ctx, t_vm := vm,
        t_deps := [], t_deps_arr := None, t_bos := bos, t_bos_arr := Some arr\<rparr>)) c"
    have "lima_sched_task_init t ctx p bos (Some arr) vm s = Some (- ENOMEM, ?s)"
      using x a(1,4) cr None c(1) by (simp add: lima_sched_task_init_def beside_vms_def)
    moreover have "heap_wf ?s" "heap_plain ?s = heap_plain s"
      using task_set_heap [OF c(2) xc] c(4) h(2) a(4) by (simp_all add: beside_fences_def beside_vms_def)
    moreover have "frefs ?s = frefs s" "vrefs ?s = vrefs s"
      using c(3,4) h(4) [OF None] fa a(3) vb
      by (simp_all add: task_set_def frefs_def vrefs_def fun_eq_iff beside_vms_def)
    moreover have "\<exists>y. task_of ?s = (task_of s)(t \<mapsto> y)"
      using h(2) a(4) c(4) by (auto simp: beside_fences_def beside_vms_def task_set_def)
    ultimately show thesis
      using h(2) a c
      by (intro fail [of ?s]) (simp_all add: beside_fences_def beside_vms_def task_set_def)
  qed
qed

section \<open>Collecting the dependencies\<close>

text \<open>
  The task \<open>t\<close>, \<open>x\<close> when the collection started at \<open>r\<close>, has the dependencies \<open>ds\<close> in the
  block \<open>arr\<close>; \<open>P\<close> are the other plain blocks. Nothing else but fence counts has changed.
\<close>

definition deps_state :: "'a ctx_st_scheme \<Rightarrow> nat \<Rightarrow> lima_sched_task \<Rightarrow> nat set \<Rightarrow> nat list \<Rightarrow> nat option \<Rightarrow> 'a ctx_st_scheme \<Rightarrow> bool" where
  "deps_state r t x P ds arr s \<longleftrightarrow> heap_wf s \<and> task_of s = (task_of r)(t \<mapsto> x\<lparr>t_deps := ds, t_deps_arr := arr\<rparr>) \<and>
     vs_vms s = vs_vms r \<and> vs_bos s = vs_bos r \<and> cs_ctxs s = cs_ctxs r \<and> dev_pipe (cs_dev s) = dev_pipe (cs_dev r) \<and>
     heap_plain s = set_option arr \<union> P \<and> set_option arr \<inter> P = {}"

lemma deps_stateD:
  assumes "deps_state r t x P ds arr s"
  shows "heap_wf s" "task_of s t = Some (x\<lparr>t_deps := ds, t_deps_arr := arr\<rparr>)" "heap_plain s = set_option arr \<union> P"
    "set_option arr \<inter> P = {}" "vs_bos s = vs_bos r"
  using assms by (simp_all add: deps_state_def)

lemma deps_beside:
  assumes "deps_state r t x P ds arr s" and "heap_wf s'" and "beside_fences s s'"
  shows "deps_state r t x P ds arr s'"
  using assms by (simp add: deps_state_def beside_fences_def)

lemma deps_alloc:
  assumes st: "deps_state r t x P ds arr s" and kz: "kzalloc s = (k, s')"
  shows "deps_state r t x (set_option k \<union> P) ds arr s'" and "frefs s' = frefs s" and "set_option k \<inter> (set_option arr \<union> P) = {}"
proof -
  note d = deps_stateD [OF st] and h = kzalloc_heap [OF deps_stateD(1) [OF st] kz]
  have f: "fs_fences s' = fs_fences s" "vs_vms s' = vs_vms s" "vs_bos s' = vs_bos s" "cs_dev s' = cs_dev s" "cs_ctxs s' = cs_ctxs s"
    by (subst h(2), simp)+
  have "heap_plain s \<subseteq> km_live s" by (auto simp: heap_plain_def)
  then show k: "set_option k \<inter> (set_option arr \<union> P) = {}" using h(4) d(3) by auto
  show "frefs s' = frefs s" by (simp add: frefs_def f fun_eq_iff)
  show "deps_state r t x (set_option k \<union> P) ds arr s'"
    using st h(1,3) k d(3,4) unfolding deps_state_def f by auto
qed

lemma deps_free:
  assumes st: "deps_state r t x P ds arr s" and p: "set_option p \<subseteq> P"
  obtains s' where "kfree p s = Some s'" and "deps_state r t x (P - set_option p) ds arr s'" and "frefs s' = frefs s"
proof -
  note d = deps_stateD [OF st]
  have "set_option p \<subseteq> heap_plain s" using p d(3) by blast
  from kfree_heap [OF d(1) this] obtain s' where s': "kfree p s = Some s'" "heap_wf s'"
    "s' = s\<lparr>km_live := km_live s - set_option p\<rparr>" "heap_plain s' = heap_plain s - set_option p" by blast
  have "deps_state r t x (P - set_option p) ds arr s'"
    using st s'(2,4) p d(3,4) unfolding deps_state_def by (auto simp: s'(3))
  moreover have "frefs s' = frefs s" by (simp add: s'(3) frefs_def fun_eq_iff)
  ultimately show thesis using s'(1) that by blast
qed

lemma add_dep_state:
  assumes st: "deps_state r t x P ds arr s"
  shows "\<exists>err ds' arr' s'. lima_sched_task_add_dep t f s = Some (err, s') \<and> deps_state r t x P ds' arr' s' \<and> frefs s' = frefs s \<and>
    (if err = 0 then ds' = ds @ [f] else ds' = ds)"
proof -
  note d = deps_stateD [OF st]
  obtain k s1 where kz: "kzalloc s = (k, s1)" by fastforce
  note al = deps_alloc [OF st kz]
  show ?thesis
  proof (cases k)
    case None
    then show ?thesis
      using al d(2) kz by (intro exI [of _ "- ENOMEM"] exI [of _ ds] exI [of _ arr] exI [of _ s1])
        (simp add: lima_sched_task_add_dep_def krealloc_def)
  next
    case (Some b)
    note d1 = deps_stateD [OF al(1)]
    have "set_option arr \<subseteq> heap_plain s1" using d1(3) by blast
    from kfree_heap [OF d1(1) this] obtain s2 where s2: "kfree arr s1 = Some s2" "heap_wf s2"
      "s2 = s1\<lparr>km_live := km_live s1 - set_option arr\<rparr>" "heap_plain s2 = heap_plain s1 - set_option arr" by blast
    let ?x = "x\<lparr>t_deps := ds @ [f], t_deps_arr := Some b\<rparr>"
    let ?s = "task_set t (Some ?x) s2"
    have x2: "task_of s2 t = Some (x\<lparr>t_deps := ds, t_deps_arr := arr\<rparr>)" using d1(2) by (simp add: s2(3))
    have run: "lima_sched_task_add_dep t f s = Some (0, ?s)"
      using d(2) kz Some s2(1) by (simp add: lima_sched_task_add_dep_def krealloc_def)
    have "heap_plain ?s = set_option (Some b) \<union> P"
      using task_set_heap(2) [OF s2(2) x2] s2(4) d1(3,4) al(3) d(4) Some by auto
    moreover have "set_option (Some b) \<inter> P = {}" using al(3) Some by auto
    ultimately have "deps_state r t x P (ds @ [f]) (Some b) ?s"
      using al(1) task_set_heap(1) [OF s2(2) x2] unfolding deps_state_def by (auto simp: task_set_def s2(3))
    moreover have "frefs ?s = frefs s" using al(2) by (simp add: task_set_def s2(3) frefs_def fun_eq_iff)
    ultimately show ?thesis using run by (intro exI [of _ 0] exI [of _ "ds @ [f]"] exI [of _ "Some b"] exI [of _ ?s]) simp
  qed
qed

lemma dep_loop_state:
  assumes "deps_state r t x P ds arr s" and "set_option p \<subseteq> P"
    and "frefs s = (\<lambda>f. B f + count_list ds f + count_list fs f)"
  shows "\<exists>err ds' arr' s'. gem_dep_loop t p fs s = Some (err, s') \<and> deps_state r t x (P - set_option p) ds' arr' s' \<and>
    frefs s' = (\<lambda>f. B f + count_list ds' f) \<and> (err = 0 \<longrightarrow> ds' = ds @ fs)"
  using assms
proof (induction fs arbitrary: ds arr s)
  case Nil
  obtain s' where "kfree p s = Some s'" "deps_state r t x (P - set_option p) ds arr s'" "frefs s' = frefs s"
    by (rule deps_free [OF Nil(1,2)])
  then show ?case using Nil(3) by (intro exI [of _ 0] exI [of _ ds] exI [of _ arr] exI [of _ s']) simp
next
  case (Cons f fs)
  obtain err ds1 arr1 s1 where a: "lima_sched_task_add_dep t f s = Some (err, s1)" "deps_state r t x P ds1 arr1 s1"
    "frefs s1 = frefs s" "if err = 0 then ds1 = ds @ [f] else ds1 = ds"
    using add_dep_state [OF Cons.prems(1), of f] by blast
  show ?case
  proof (cases "err = 0")
    case True
    then have refs: "frefs s1 = (\<lambda>g. B g + count_list ds1 g + count_list fs g)"
      using a(3,4) Cons.prems(3) by (auto simp: fun_eq_iff)
    from Cons.IH [OF a(2) Cons.prems(2) refs] obtain e d' ar' s' where "gem_dep_loop t p fs s1 = Some (e, s')"
      "deps_state r t x (P - set_option p) d' ar' s'" "frefs s' = (\<lambda>f. B f + count_list d' f)" "e = 0 \<longrightarrow> d' = ds1 @ fs" by blast
    with True a(1,4) show ?thesis
      by (intro exI [of _ e] exI [of _ d'] exI [of _ ar'] exI [of _ s']) simp
  next
    case False
    have "\<forall>g. count_list (f # fs) g \<le> frefs s1 g" unfolding a(3) Cons.prems(3) by simp
    then obtain s2 where s2: "each fence_kref_put (f # fs) s1 = Some s2" "heap_wf s2" "beside_fences s1 s2"
      "frefs s2 = (\<lambda>g. frefs s1 g - count_list (f # fs) g)"
      using heap_fence.put_all [of s1 s1 "f # fs"] deps_stateD(1) [OF a(2)] by (auto simp: beside_fences_def)
    from deps_beside [OF a(2) s2(2,3)] have st2: "deps_state r t x P ds1 arr1 s2" .
    obtain s' where s': "kfree p s2 = Some s'" "deps_state r t x (P - set_option p) ds1 arr1 s'" "frefs s' = frefs s2"
      by (rule deps_free [OF st2 Cons.prems(2)])
    have "frefs s' = (\<lambda>g. B g + count_list ds1 g)" unfolding s'(3) s2(4) a(3) Cons.prems(3) using a(4) False by (auto simp: fun_eq_iff)
    moreover have "gem_dep_loop t p (f # fs) s = Some (err, s')"
      by (simp add: a(1) False s2(1) s'(1) del: each.simps)
    ultimately show ?thesis using False s'(2) by blast
  qed
qed

end
