(* ===== verification/Lima_Publish.thy ===== *)
theory Lima_Publish
  imports Lima_Submit
begin

text \<open>
  The second half of a submission, from the dependencies to the new exclusive fences, and the
  properties of \<open>lima_gem_submit\<close> as a whole.
\<close>

section \<open>All dependencies\<close>

text \<open>The fences that the reservation objects of \<open>bos\<close> hold, in the order they are collected.\<close>

definition resv_of :: "'a ctx_st_scheme \<Rightarrow> nat \<Rightarrow> lima_resv" where
  "resv_of s bo = bo_resv (the (vs_bos s bo))"

definition bos_fences :: "'a ctx_st_scheme \<Rightarrow> nat list \<Rightarrow> nat list" where
  "bos_fences s bos = concat (map (\<lambda>bo. resv_refs (resv_of s bo)) bos)"

lemma bos_fences_same: "vs_bos s = vs_bos r \<Longrightarrow> bos_fences s bos = bos_fences r bos"
  by (simp add: bos_fences_def resv_of_def)

lemma get_fences_state:
  assumes st: "deps_state r t x P ds arr s" and live: "\<forall>f \<in> set (resv_refs v). 0 < frefs s f"
  obtains (none) s' where "lima_resv_get_fences v s = Some (- ENOMEM, [], None, s')" and "deps_state r t x P ds arr s'"
    and "frefs s' = frefs s"
  | (some) n p s' where "lima_resv_get_fences v s = Some (int n, resv_refs v, p, s')"
    and "deps_state r t x (set_option p \<union> P) ds arr s'" and "set_option p \<inter> P = {}"
    and "frefs s' = (\<lambda>f. frefs s f + count_list (resv_refs v) f)"
proof (cases "resv_refs v = []")
  case True
  then have "rv_excl v = None" "rv_shared v = []" by (auto simp: resv_refs_def split: option.splits)
  then show thesis using st by (intro some [of 0 None s]) (simp_all add: lima_resv_get_fences_def resv_refs_def)
next
  case False
  then have n: "(if rv_excl v \<noteq> None then 1 else 0) + length (rv_shared v) \<noteq> 0"
    by (auto simp: resv_refs_def split: option.splits)
  obtain k s1 where kz: "kzalloc s = (k, s1)" by fastforce
  note al = deps_alloc [OF st kz]
  show thesis
  proof (cases k)
    case None
    show thesis
      by (rule none [of s1]) (use None al n kz in \<open>simp_all add: lima_resv_get_fences_def Let_def\<close>)
  next
    case (Some b)
    have "\<forall>f \<in> set (resv_refs v). 0 < frefs s1 f" using live al(2) by simp
    then obtain s2 where s2: "each dma_fence_get (resv_refs v) s1 = Some s2" "heap_wf s2" "beside_fences s1 s2"
      "frefs s2 = (\<lambda>f. frefs s1 f + count_list (resv_refs v) f)"
      using heap_fence.get_all [of s1 s1 "resv_refs v"] deps_stateD(1) [OF al(1)] by (auto simp: beside_fences_def)
    show thesis
    proof (rule some)
      show "lima_resv_get_fences v s = Some (int ((if rv_excl v \<noteq> None then 1 else 0) + length (rv_shared v)), resv_refs v, Some b, s2)"
        using n kz Some s2(1) by (simp add: lima_resv_get_fences_def Let_def)
      show "deps_state r t x (set_option (Some b) \<union> P) ds arr s2" using deps_beside [OF al(1) s2(2,3)] Some by simp
      show "set_option (Some b) \<inter> P = {}" using al(3) Some by auto
      show "frefs s2 = (\<lambda>f. frefs s f + count_list (resv_refs v) f)" using s2(4) al(2) by simp
    qed
  qed
qed

lemma add_deps_state:
  assumes "deps_state r t x P ds arr s" and "\<forall>bo \<in> set bos. vs_bos r bo \<noteq> None"
    and "\<forall>f \<in> set (bos_fences r bos). 0 < B f" and "frefs s = (\<lambda>f. B f + count_list ds f)"
  shows "\<exists>err ds' arr' s'. lima_gem_add_deps t bos s = Some (err, s') \<and> deps_state r t x P ds' arr' s' \<and>
    frefs s' = (\<lambda>f. B f + count_list ds' f) \<and> (err = 0 \<longrightarrow> ds' = ds @ bos_fences r bos)"
  using assms
proof (induction bos arbitrary: ds arr s)
  case Nil
  then show ?case by (intro exI [of _ 0] exI [of _ ds] exI [of _ arr] exI [of _ s]) (simp add: bos_fences_def)
next
  case (Cons bo bos)
  from Cons.prems(1,2) obtain b where b: "vs_bos s bo = Some b" "bo_resv b = resv_of r bo"
    by (auto simp: deps_state_def resv_of_def)
  have fs: "bos_fences r (bo # bos) = resv_refs (bo_resv b) @ bos_fences r bos" by (simp add: bos_fences_def b(2))
  have live: "\<forall>f \<in> set (resv_refs (bo_resv b)). 0 < frefs s f" using Cons.prems(3,4) unfolding fs by auto
  from Cons.prems(1) live show ?case
  proof (cases rule: get_fences_state)
    case (none s1)
    then show ?thesis using Cons.prems(4) b(1)
      by (intro exI [of _ "- ENOMEM"] exI [of _ ds] exI [of _ arr] exI [of _ s1]) simp
  next
    case (some n p s1)
    have refs: "frefs s1 = (\<lambda>f. B f + count_list ds f + count_list (resv_refs (bo_resv b)) f)"
      using some(4) Cons.prems(4) by simp
    have minus: "set_option p \<union> P - set_option p = P" using some(3) by auto
    from dep_loop_state [OF some(2) _ refs, of p] obtain err ds1 arr1 s2 where
      d: "gem_dep_loop t p (resv_refs (bo_resv b)) s1 = Some (err, s2)" "deps_state r t x P ds1 arr1 s2"
        "frefs s2 = (\<lambda>f. B f + count_list ds1 f)" "err = 0 \<longrightarrow> ds1 = ds @ resv_refs (bo_resv b)"
      unfolding minus by blast
    have step: "lima_gem_add_deps t (bo # bos) s = (if err \<noteq> 0 then Some (err, s2) else lima_gem_add_deps t bos s2)"
      by (simp add: b(1) some(1) d(1))
    show ?thesis
    proof (cases "err = 0")
      case False
      then show ?thesis using d step by auto
    next
      case True
      have "\<forall>bo \<in> set bos. vs_bos r bo \<noteq> None" "\<forall>f \<in> set (bos_fences r bos). 0 < B f"
        using Cons.prems(2,3) unfolding fs by auto
      from Cons.IH [OF d(2) this d(3)] obtain e d' ar' s' where "lima_gem_add_deps t bos s2 = Some (e, s')"
        "deps_state r t x P d' ar' s'" "frefs s' = (\<lambda>f. B f + count_list d' f)" "e = 0 \<longrightarrow> d' = ds1 @ bos_fences r bos" by blast
      with True step d(4) fs show ?thesis by auto
    qed
  qed
qed

section \<open>The new exclusive fences\<close>

text \<open>
  How many of the objects in \<open>D\<close> hold a fence as their exclusive one. Publishing moves that
  count and the fence's reference count together.
\<close>

definition excl_count :: "'a ctx_st_scheme \<Rightarrow> nat set \<Rightarrow> nat \<Rightarrow> nat" where
  "excl_count s D g = (\<Sum>bo \<in> D. if rv_excl (resv_of s bo) = Some g then 1 else 0)"

definition excl_held :: "nat \<Rightarrow> nat set \<Rightarrow> 'a ctx_st_scheme \<Rightarrow> bool" where
  "excl_held f D s \<longleftrightarrow> (\<forall>g. excl_count s D g + (if g = f then 1 else 0) \<le> frefs s g)"

lemma excl_count_upd:
  assumes "finite D" and "bo \<in> D" and "vs_bos s' = (vs_bos s)(bo \<mapsto> c)" and "rv_excl (bo_resv c) = Some f"
  shows "excl_count s' D g + (if rv_excl (resv_of s bo) = Some g then 1 else 0) = excl_count s D g + (if g = f then 1 else 0)"
proof -
  have other: "resv_of s' x = resv_of s x" if "x \<noteq> bo" for x using that assms(3) by (simp add: resv_of_def)
  have "rv_excl (resv_of s' bo) = Some f" using assms(3,4) by (simp add: resv_of_def)
  then have "excl_count s' D g = (if g = f then 1 else 0) + (\<Sum>x \<in> D - {bo}. if rv_excl (resv_of s x) = Some g then 1 else 0)"
    unfolding excl_count_def using other by (subst sum.remove [OF assms(1,2)]) (auto intro!: sum.cong)
  moreover have "excl_count s D g = (if rv_excl (resv_of s bo) = Some g then 1 else 0) +
      (\<Sum>x \<in> D - {bo}. if rv_excl (resv_of s x) = Some g then 1 else 0)"
    unfolding excl_count_def by (rule sum.remove [OF assms(1,2)])
  ultimately show ?thesis by simp
qed

lemma publish_one_heap:
  assumes wf: "heap_wf s" and arr: "arr \<in> heap_plain s" and b: "vs_bos s bo = Some b"
    and D: "finite D" "bo \<in> D" and held: "excl_held f D s"
  shows "\<exists>s'. gem_publish_one f arr bo s = Some s' \<and> heap_wf s' \<and>
    vs_bos s' = (vs_bos s)(bo \<mapsto> b\<lparr>bo_resv := (bo_resv b)\<lparr>rv_excl := Some f\<rparr>\<rparr>) \<and>
    vs_vms s' = vs_vms s \<and> cs_dev s' = cs_dev s \<and> cs_ctxs s' = cs_ctxs s \<and> heap_plain s' = heap_plain s \<and>
    (\<forall>g. frefs s' g + excl_count s D g = frefs s g + excl_count s' D g)"
proof -
  let ?old = "rv_excl (bo_resv b)"
  have old: "rv_excl (resv_of s bo) = ?old" by (simp add: resv_of_def b)
  have N: "excl_count s D g + (if g = f then 1 else 0) \<le> frefs s g" for g using held unfolding excl_held_def by blast
  have "0 < frefs s f" using N [of f] by simp
  with heap_fence.kget_live [of s s f] wf obtain s1 where s1: "dma_fence_get f s = Some s1" "heap_wf s1" "beside_fences s s1"
    "frefs s1 = (frefs s)(f := Suc (frefs s f))" by (auto simp: beside_fences_def)
  have "\<exists>s2. dma_fence_put ?old s1 = Some s2 \<and> heap_wf s2 \<and> beside_fences s1 s2 \<and>
      (\<forall>g. frefs s2 g + (if ?old = Some g then 1 else 0) = frefs s1 g)"
  proof (cases ?old)
    case None
    then show ?thesis using s1(2) by (simp add: dma_fence_put_def beside_fences_def)
  next
    case (Some g)
    have "1 \<le> excl_count s D g"
      unfolding excl_count_def using old Some by (subst sum.remove [OF D]) simp
    then have pos: "0 < frefs s1 g" using N [of g] s1(4) by (auto split: if_splits)
    with heap_fence.kput_live [of s1 s1 g] s1(2) obtain s2 where "fence_kref_put g s1 = Some s2" "heap_wf s2" "beside_fences s1 s2"
      "frefs s2 = (frefs s1)(g := frefs s1 g - 1)" by (auto simp: beside_fences_def)
    with Some pos show ?thesis by (intro exI [of _ s2]) (auto simp: dma_fence_put_def)
  qed
  then obtain s2 where s2: "dma_fence_put ?old s1 = Some s2" "heap_wf s2" "beside_fences s1 s2"
    "\<forall>g. frefs s2 g + (if ?old = Some g then 1 else 0) = frefs s1 g" by blast
  let ?b = "b\<lparr>bo_resv := (bo_resv b)\<lparr>rv_excl := Some f\<rparr>\<rparr>"
  let ?s = "bo_upd bo ?b s2"
  have b1: "vs_bos s1 bo = Some b" "vs_bos s2 bo = Some b" using b s1(3) s2(3) by (simp_all add: beside_fences_def)
  have live: "arr \<in> km_live s" using arr by (simp add: heap_plain_def)
  have "gem_publish_one f arr bo s = Some ?s"
    using live s1(1) b1 s2(1) by (simp add: gem_publish_one_def lima_resv_set_excl_def)
  moreover have "heap_wf ?s" "heap_plain ?s = heap_plain s"
    using bo_upd_heap [OF s2(2) b1(2)] s1(3) s2(3) by (simp_all add: beside_fences_def)
  moreover have bos: "vs_bos ?s = (vs_bos s)(bo \<mapsto> ?b)" using s1(3) s2(3) by (simp add: beside_fences_def bo_upd_def)
  moreover have "vs_vms ?s = vs_vms s" "cs_dev ?s = cs_dev s" "cs_ctxs ?s = cs_ctxs s"
    using s1(3) s2(3) by (simp_all add: beside_fences_def bo_upd_def)
  moreover have "frefs ?s g + excl_count s D g = frefs s g + excl_count ?s D g" for g
  proof -
    have "excl_count ?s D g + (if ?old = Some g then 1 else 0) = excl_count s D g + (if g = f then 1 else 0)"
      using excl_count_upd [OF D bos, of f g] old by simp
    moreover have "frefs ?s g = frefs s2 g" by (simp add: frefs_def bo_upd_def)
    moreover have "frefs s2 g + (if ?old = Some g then 1 else 0) = frefs s g + (if g = f then 1 else 0)"
      using s2(4) s1(4) by simp
    ultimately show ?thesis by (simp split: if_splits)
  qed
  ultimately show ?thesis by blast
qed

text \<open>The objects after the fence \<open>f\<close> has been published to those of a list.\<close>

definition with_excl :: "nat \<Rightarrow> lima_bo \<Rightarrow> lima_bo" where
  "with_excl f b = b\<lparr>bo_resv := (bo_resv b)\<lparr>rv_excl := Some f\<rparr>\<rparr>"

definition published :: "nat \<Rightarrow> nat list \<Rightarrow> (nat \<Rightarrow> lima_bo option) \<Rightarrow> nat \<Rightarrow> lima_bo option" where
  "published f bos m bo = (if bo \<in> set bos then map_option (with_excl f) (m bo) else m bo)"

lemma publish_all_heap:
  assumes "heap_wf s" and "arr \<in> heap_plain s" and "\<forall>bo \<in> set bos. vs_bos s bo \<noteq> None \<and> bo \<in> D"
    and "finite D" and "excl_held f D s"
  shows "\<exists>s'. each (gem_publish_one f arr) bos s = Some s' \<and> heap_wf s' \<and> vs_bos s' = published f bos (vs_bos s) \<and>
    vs_vms s' = vs_vms s \<and> cs_dev s' = cs_dev s \<and> cs_ctxs s' = cs_ctxs s \<and> heap_plain s' = heap_plain s \<and>
    (\<forall>g. frefs s' g + excl_count s D g = frefs s g + excl_count s' D g)"
  using assms
proof (induction bos arbitrary: s)
  case Nil
  then show ?case by (simp add: published_def fun_eq_iff)
next
  case (Cons bo bos)
  then obtain b where b: "vs_bos s bo = Some b" "bo \<in> D" by auto
  obtain s1 where s1: "gem_publish_one f arr bo s = Some s1" "heap_wf s1" "vs_bos s1 = (vs_bos s)(bo \<mapsto> with_excl f b)"
    "vs_vms s1 = vs_vms s" "cs_dev s1 = cs_dev s" "cs_ctxs s1 = cs_ctxs s" "heap_plain s1 = heap_plain s"
    "\<forall>g. frefs s1 g + excl_count s D g = frefs s g + excl_count s1 D g"
    using publish_one_heap [OF Cons.prems(1,2) b(1) Cons.prems(4) b(2) Cons.prems(5)] unfolding with_excl_def by blast
  have held: "excl_held f D s1"
    unfolding excl_held_def
  proof
    fix g
    have "excl_count s D g + (if g = f then 1 else 0) \<le> frefs s g" using Cons.prems(5) unfolding excl_held_def by blast
    with s1(8) [rule_format, of g] show "excl_count s1 D g + (if g = f then 1 else 0) \<le> frefs s1 g" by linarith
  qed
  have bos: "\<forall>c \<in> set bos. vs_bos s1 c \<noteq> None \<and> c \<in> D" using Cons.prems(3) s1(3) by simp
  have "arr \<in> heap_plain s1" using Cons.prems(2) s1(7) by simp
  from Cons.IH [OF s1(2) this bos Cons.prems(4) held] obtain s' where s': "each (gem_publish_one f arr) bos s1 = Some s'"
    "heap_wf s'" "vs_bos s' = published f bos (vs_bos s1)" "vs_vms s' = vs_vms s1" "cs_dev s' = cs_dev s1" "cs_ctxs s' = cs_ctxs s1"
    "heap_plain s' = heap_plain s1" "\<forall>g. frefs s' g + excl_count s1 D g = frefs s1 g + excl_count s' D g" by blast
  have "published f bos (vs_bos s1) = published f (bo # bos) (vs_bos s)"
    using b(1) by (auto simp: published_def s1(3) with_excl_def fun_eq_iff)
  moreover have "frefs s' g + excl_count s D g = frefs s g + excl_count s' D g" for g
    using s1(8) [rule_format, of g] s'(8) [rule_format, of g] by linarith
  ultimately show ?case using s1 s' by simp
qed

section \<open>Submitting the task\<close>

text \<open>
  Every reservation object owns a reference of each fence it holds.
\<close>

definition resvs_own :: "'a ctx_st_scheme \<Rightarrow> bool" where
  "resvs_own s \<longleftrightarrow> (\<forall>D g. finite D \<longrightarrow> D \<subseteq> dom (vs_bos s) \<longrightarrow> excl_count s D g \<le> frefs s g) \<and>
     (\<forall>bo \<in> dom (vs_bos s). \<forall>f \<in> set (resv_refs (resv_of s bo)). 0 < frefs s f)"

lemma resvs_ownD:
  assumes "resvs_own s"
  shows "vs_bos s bo \<noteq> None \<Longrightarrow> f \<in> set (resv_refs (resv_of s bo)) \<Longrightarrow> 0 < frefs s f"
    and "finite D \<Longrightarrow> D \<subseteq> dom (vs_bos s) \<Longrightarrow> excl_count s D g \<le> frefs s g"
  using assms by (auto simp: resvs_own_def dom_def)

lemma bos_fences_live:
  assumes "resvs_own s" and "\<forall>bo \<in> set bos. vs_bos s bo \<noteq> None" and "g \<in> set (bos_fences s bos)"
  shows "0 < frefs s g"
proof -
  from assms(3) obtain bo where "bo \<in> set bos" "g \<in> set (resv_refs (resv_of s bo))" by (auto simp: bos_fences_def)
  with resvs_ownD(1) [OF assms(1)] assms(2) show ?thesis by blast
qed

text \<open>The state after a failure, relative to counts and blocks before: everything but the task
  itself is as before.\<close>

definition unsubmitted :: "nat \<Rightarrow> 'a ctx_st_scheme \<Rightarrow> (nat \<Rightarrow> nat) \<Rightarrow> nat set \<Rightarrow> 'a ctx_st_scheme \<Rightarrow> bool" where
  "unsubmitted t r brs P s \<longleftrightarrow> heap_wf s \<and> (\<exists>y. task_of s = (task_of r)(t \<mapsto> y)) \<and> frefs s = frefs r \<and> vrefs s = vrefs r \<and> brefs s = brs \<and> heap_plain s = P \<and>
     cs_ctxs s = cs_ctxs r \<and> dev_pipe (cs_dev s) = dev_pipe (cs_dev r)"

text \<open>The task of a submission with fence \<open>f\<close>, dependencies \<open>ds\<close> in \<open>darr\<close>, and its context.\<close>

definition task_submitted :: "lima_sched_task \<Rightarrow> lima_submit \<Rightarrow> nat list \<Rightarrow> nat \<Rightarrow> nat \<Rightarrow> nat \<Rightarrow> nat list \<Rightarrow> nat option \<Rightarrow> lima_sched_task" where
  "task_submitted x sub lbos arr vm f ds darr =
     (task_ready x (su_ctx sub) (su_pipe sub) lbos arr vm f)\<lparr>t_deps := ds, t_deps_arr := darr, t_ctx := Some (su_ctx sub)\<rparr>"

definition ctx_inflight :: "lima_pipe_id \<Rightarrow> lima_ctx \<Rightarrow> lima_ctx" where
  "ctx_inflight p c = c\<lparr>cx_in_flight := (cx_in_flight c)(p := cx_in_flight c p + 1)\<rparr>"

text \<open>
  The fence counts: the new fence has the task's reference, each dependency one more, and the
  exclusive fences of the objects in \<open>D\<close> have been exchanged.
\<close>

definition fences_moved :: "nat \<Rightarrow> nat list \<Rightarrow> nat set \<Rightarrow> 'a ctx_st_scheme \<Rightarrow> 'a ctx_st_scheme \<Rightarrow> bool" where
  "fences_moved f ds D r s \<longleftrightarrow> (\<forall>g. frefs s g + excl_count r D g = ((frefs r)(f := 1)) g + count_list ds g + excl_count s D g)"

text \<open>The state after a success: \<open>r\<close> is the state when the task is initialised.\<close>

definition submitted :: "lima_submit \<Rightarrow> nat \<Rightarrow> nat \<Rightarrow> nat list \<Rightarrow> 'a ctx_st_scheme \<Rightarrow> 'a ctx_st_scheme \<Rightarrow> bool" where
  "submitted sub vm arr lbos r s \<longleftrightarrow> heap_wf s \<and> (\<exists>x f darr c.
     task_of r (su_task sub) = Some x \<and> cs_ctxs r (su_ctx sub) = Some c \<and> frefs r f = 0 \<and>
     task_of s = (task_of r)(su_task sub \<mapsto> task_submitted x sub lbos arr vm f (bos_fences r lbos) darr) \<and>
     vs_bos s = published f lbos (vs_bos r) \<and>
     dev_pipe (cs_dev s) = (dev_pipe (cs_dev r))(su_pipe sub :=
       (pipe_of (su_pipe sub) r)\<lparr>p_queue := p_queue (pipe_of (su_pipe sub) r) @ [su_task sub], p_run_pending := True\<rparr>) \<and>
     cs_ctxs s = (cs_ctxs r)(su_ctx sub \<mapsto> ctx_inflight (su_pipe sub) c) \<and>
     vrefs s = (vrefs r)(vm := Suc (vrefs r vm)) \<and> heap_plain s = set_option darr \<union> heap_plain r \<and>
     set_option darr \<inter> heap_plain r = {} \<and> fences_moved f (bos_fences r lbos) (set lbos) r s)"

lemma queue_task_heap:
  assumes wf: "heap_wf s" and x: "task_of s t = Some x" and f: "0 < frefs s (t_fence x)" and c: "cs_ctxs s k = Some c"
  shows "\<exists>s'. lima_sched_context_queue_task k p t s = Some (t_fence x, s') \<and> heap_wf s' \<and>
    frefs s' = (frefs s)(t_fence x := Suc (frefs s (t_fence x))) \<and> vs_vms s' = vs_vms s \<and> vs_bos s' = vs_bos s \<and>
    task_of s' = task_of s \<and> cs_ctxs s' = (cs_ctxs s)(k \<mapsto> ctx_inflight p c) \<and> heap_plain s' = heap_plain s \<and>
    dev_pipe (cs_dev s') = (dev_pipe (cs_dev s))(p := (pipe_of p s)\<lparr>p_queue := p_queue (pipe_of p s) @ [t], p_run_pending := True\<rparr>)"
proof -
  from heap_fence.kget_live [of s s "t_fence x"] wf f obtain s1 where s1: "dma_fence_get (t_fence x) s = Some s1" "heap_wf s1"
    "beside_fences s s1" "frefs s1 = (frefs s)(t_fence x := Suc (frefs s (t_fence x)))" by (auto simp: beside_fences_def)
  let ?s2 = "ctx_upd k (ctx_inflight p c) s1"
  have c1: "cs_ctxs s1 k = Some c" using c s1(3) by (simp add: beside_fences_def)
  note h2 = ctx_upd_heap [OF s1(2) c1, of "ctx_inflight p c"]
  let ?d = "pipe_upd p (\<lambda>y. y\<lparr>p_queue := p_queue y @ [t], p_run_pending := True\<rparr>) (cs_dev ?s2)"
  let ?s = "?s2\<lparr>cs_dev := ?d\<rparr>"
  have h: "heap_wf ?s \<and> heap_plain ?s = heap_plain ?s2" using h2 by (intro heap_dev) simp_all
  have run: "lima_sched_context_queue_task k p t s = Some (t_fence x, ?s)"
    using x s1(1) c1 by (simp add: lima_sched_context_queue_task_def ctx_inflight_def on_pipe_def Let_def)
  have "frefs ?s = frefs s1" by (simp add: frefs_def ctx_upd_def fun_eq_iff)
  then show ?thesis
    using run h h2 s1(3,4) by (intro exI [of _ ?s]) (simp add: beside_fences_def ctx_upd_def)
qed

text \<open>
  Between the two: the task is initialised with fence \<open>f\<close> and has the dependencies \<open>ds\<close>.
\<close>

definition task_deps ::
    "'a ctx_st_scheme \<Rightarrow> lima_submit \<Rightarrow> nat \<Rightarrow> nat \<Rightarrow> nat list \<Rightarrow> lima_sched_task \<Rightarrow> nat \<Rightarrow> nat list \<Rightarrow> nat option \<Rightarrow> 'a ctx_st_scheme \<Rightarrow> bool" where
  "task_deps r sub vm arr lbos x f ds darr s \<longleftrightarrow> heap_wf s \<and> frefs r f = 0 \<and>
     frefs s = (\<lambda>g. ((frefs r)(f := 1)) g + count_list ds g) \<and> vrefs s = (vrefs r)(vm := Suc (vrefs r vm)) \<and>
     task_of s = (task_of r)(su_task sub \<mapsto> (task_ready x (su_ctx sub) (su_pipe sub) lbos arr vm f)\<lparr>t_deps := ds, t_deps_arr := darr\<rparr>) \<and>
     vs_bos s = vs_bos r \<and> cs_ctxs s = cs_ctxs r \<and> dev_pipe (cs_dev s) = dev_pipe (cs_dev r) \<and>
     heap_plain s = set_option darr \<union> heap_plain r \<and> set_option darr \<inter> heap_plain r = {}"

lemma init_deps_heap:
  assumes wf: "heap_wf s" and x: "task_of s (su_task sub) = Some x" and vm: "0 < vrefs s vm"
    and own: "resvs_own s" and live: "\<forall>bo \<in> set lbos. vs_bos s bo \<noteq> None"
  obtains (fail) s' where "lima_sched_task_init (su_task sub) (su_ctx sub) (su_pipe sub) lbos (Some arr) vm s = Some (- ENOMEM, s')"
      and "unsubmitted (su_task sub) s (brefs s) (heap_plain s) s'"
  | (deps) s1 err s2 f ds darr where "lima_sched_task_init (su_task sub) (su_ctx sub) (su_pipe sub) lbos (Some arr) vm s = Some (0, s1)"
      and "lima_gem_add_deps (su_task sub) lbos s1 = Some (err, s2)" and "task_deps s sub vm arr lbos x f ds darr s2"
      and "err = 0 \<Longrightarrow> ds = bos_fences s lbos"
  using wf x vm
proof (cases rule: task_init_heap [where ctx = "su_ctx sub" and p = "su_pipe sub" and bos = lbos and arr = arr, case_names ok fail])
  case (fail s1)
  show thesis
    by (rule that(1) [OF fail(1)]) (use fail in \<open>simp add: unsubmitted_def brefs_def fun_eq_iff\<close>)
next
  case (ok f s1)
  let ?t = "su_task sub"
  let ?x = "task_ready x (su_ctx sub) (su_pipe sub) lbos arr vm f"
  have "?x\<lparr>t_deps := [], t_deps_arr := None\<rparr> = ?x" by (rule lima_sched_task.equality) (simp_all add: task_ready_def)
  then have st: "deps_state s1 ?t ?x (heap_plain s1) [] None s1"
    using ok(2,6) by (simp add: deps_state_def)
  have fs: "bos_fences s1 lbos = bos_fences s lbos" by (rule bos_fences_same [OF ok(7)])
  have live1: "\<forall>bo \<in> set lbos. vs_bos s1 bo \<noteq> None" using live ok(7) by simp
  have "\<forall>g \<in> set (bos_fences s1 lbos). 0 < frefs s1 g" using bos_fences_live [OF own live] by (simp add: fs ok(4))
  from add_deps_state [OF st live1 this] obtain err ds darr s2 where
    s2: "lima_gem_add_deps ?t lbos s1 = Some (err, s2)" "deps_state s1 ?t ?x (heap_plain s1) ds darr s2"
      "frefs s2 = (\<lambda>g. frefs s1 g + count_list ds g)" "err = 0 \<longrightarrow> ds = bos_fences s lbos" using fs by auto
  have v2: "vrefs s2 = vrefs s1" using s2(2) by (simp add: deps_state_def vrefs_def fun_eq_iff)
  have "task_deps s sub vm arr lbos x f ds darr s2"
    using s2(2,3) ok v2 unfolding task_deps_def deps_state_def by simp
  then show thesis using that(2) [OF ok(1) s2(1)] s2(4) by blast
qed

lemma deps_failed_heap:
  assumes st: "task_deps s sub vm arr lbos x f ds darr s2" and arr: "arr \<in> heap_plain s"
    and refs: "brefs s = (\<lambda>b. r b + count_list lbos b)" and pos: "\<forall>b \<in> set lbos. 0 < r b"
  shows "\<exists>s'. lima_sched_task_fini Z (su_task sub) s2 = Some s' \<and> unsubmitted (su_task sub) s r (heap_plain s - {arr}) s'"
proof -
  let ?y = "(task_ready x (su_ctx sub) (su_pipe sub) lbos arr vm f)\<lparr>t_deps := ds, t_deps_arr := darr\<rparr>"
  have d: "heap_wf s2" "task_of s2 (su_task sub) = Some ?y" "heap_plain s2 = set_option darr \<union> heap_plain s"
    "set_option darr \<inter> heap_plain s = {}" "brefs s2 = brefs s" "frefs s2 = (\<lambda>g. ((frefs s)(f := 1)) g + count_list ds g)"
    "vrefs s2 = (vrefs s)(vm := Suc (vrefs s vm))" "frefs s f = 0"
    using st by (simp_all add: task_deps_def brefs_def fun_eq_iff)
  have y: "t_fence ?y = f" "t_deps ?y = ds" "t_vm ?y = vm" "t_bos ?y = lbos" "t_bos_arr ?y = Some arr"
    "t_deps_arr ?y = darr" "t_ctx ?y = None"
    by (simp_all add: task_ready_def)
  have "task_refs ?y s2"
    unfolding task_refs_def y d(3,5,6,7) using refs pos arr d(4) by auto
  from task_fini_refs [OF d(1,2) this, of "su_ctx sub" c Z for c] y obtain s' where s':
    "lima_sched_task_fini Z (su_task sub) s2 = Some s'" "heap_wf s'" "cs_dev s' = cs_dev s2"
    "frefs s' = (\<lambda>g. frefs s2 g - count_list (f # ds) g)" "vrefs s' = (vrefs s2)(vm := vrefs s2 vm - 1)"
    "brefs s' = (\<lambda>b. brefs s2 b - count_list lbos b)" "cs_ctxs s' = cs_ctxs s2"
    "heap_plain s' = heap_plain s2 - set_option darr - {arr}" by auto
  have "frefs s' = frefs s" by (auto simp: s'(4) d(6,8) fun_eq_iff)
  moreover have "vrefs s' = vrefs s" by (auto simp: s'(5) d(7) fun_eq_iff)
  moreover have "brefs s' = r" by (simp add: s'(6) d(5) refs fun_eq_iff)
  moreover have "heap_plain s' = heap_plain s - {arr}" using s'(8) d(3,4) by auto
  ultimately show ?thesis using s'(1,2,3,7) st by (auto simp: unsubmitted_def task_deps_def)
qed

text \<open>The queued task owns its references and blocks, the array of objects among them.\<close>

definition task_inflight :: "lima_submit \<Rightarrow> nat \<Rightarrow> lima_ctx \<Rightarrow> 'a ctx_st_scheme \<Rightarrow> bool" where
  "task_inflight sub arr c s \<longleftrightarrow> heap_wf s \<and> cs_ctxs s (su_ctx sub) = Some (ctx_inflight (su_pipe sub) c) \<and>
     (\<exists>z. task_of s (su_task sub) = Some z \<and> task_refs z s \<and> t_bos_arr z = Some arr \<and> t_ctx z = Some (su_ctx sub))"

lemma deps_done_heap:
  assumes st: "task_deps s sub vm arr lbos x f (bos_fences s lbos) darr s2" and x: "task_of s (su_task sub) = Some x"
    and cx: "cs_ctxs s (su_ctx sub) = Some c" and own: "resvs_own s" and arr: "arr \<in> heap_plain s"
    and refs: "\<forall>bo \<in> set lbos. count_list lbos bo < brefs s bo"
  obtains y s4 s5 s' where "task_of s2 (su_task sub) = Some y"
    and "lima_sched_context_queue_task (su_ctx sub) (su_pipe sub) (su_task sub)
      (task_set (su_task sub) (Some (y\<lparr>t_ctx := Some (su_ctx sub)\<rparr>)) s2) = Some (f, s4)"
    and "each (gem_publish_one f arr) lbos s4 = Some s5" and "dma_fence_put (Some f) s5 = Some s'"
    and "submitted sub vm arr lbos s s'" and "brefs s' = brefs s" and "task_inflight sub arr c s4"
proof -
  have live: "\<forall>bo \<in> set lbos. vs_bos s bo \<noteq> None"
    using refs by (metis brefs_def less_zeroE option.simps(4))
  let ?t = "su_task sub"
  let ?ds = "bos_fences s lbos"
  let ?y = "(task_ready x (su_ctx sub) (su_pipe sub) lbos arr vm f)\<lparr>t_deps := ?ds, t_deps_arr := darr\<rparr>"
  let ?z = "?y\<lparr>t_ctx := Some (su_ctx sub)\<rparr>"
  have d: "heap_wf s2" "task_of s2 ?t = Some ?y" "heap_plain s2 = set_option darr \<union> heap_plain s"
    "frefs s2 = (\<lambda>g. ((frefs s)(f := 1)) g + count_list ?ds g)" "frefs s f = 0" "vs_bos s2 = vs_bos s"
    using st by (simp_all add: task_deps_def)
  let ?s3 = "task_set ?t (Some ?z) s2"
  note h3 = task_set_heap [OF d(1,2), of ?z]
  have x3: "task_of ?s3 ?t = Some ?z" "t_fence ?z = f" by (simp_all add: task_set_def task_ready_def)
  have f3: "frefs ?s3 = frefs s2" by (simp add: task_set_def frefs_def fun_eq_iff)
  have "0 < frefs ?s3 (t_fence ?z)" by (simp add: x3 f3 d(4))
  moreover have "cs_ctxs ?s3 (su_ctx sub) = Some c" using cx st by (simp add: task_set_def task_deps_def)
  ultimately obtain s4 where s4: "lima_sched_context_queue_task (su_ctx sub) (su_pipe sub) ?t ?s3 = Some (f, s4)" "heap_wf s4"
    "frefs s4 = (frefs ?s3)(f := Suc (frefs ?s3 f))" "vs_vms s4 = vs_vms ?s3" "vs_bos s4 = vs_bos ?s3" "task_of s4 = task_of ?s3"
    "cs_ctxs s4 = (cs_ctxs ?s3)(su_ctx sub \<mapsto> ctx_inflight (su_pipe sub) c)" "heap_plain s4 = heap_plain ?s3"
    "dev_pipe (cs_dev s4) = (dev_pipe (cs_dev ?s3))(su_pipe sub := (pipe_of (su_pipe sub) ?s3)\<lparr>p_queue := p_queue (pipe_of (su_pipe sub) ?s3) @ [?t], p_run_pending := True\<rparr>)"
    using queue_task_heap [OF h3(1) x3(1), of "su_ctx sub" c "su_pipe sub"] x3(2) by auto
  have bos4: "vs_bos s4 = vs_bos s" using s4(5) d(6) by (simp add: task_set_def)
  have ex4: "excl_count s4 D g = excl_count s D g" for D g by (simp add: excl_count_def resv_of_def bos4)
  have D: "finite (set lbos)" "set lbos \<subseteq> dom (vs_bos s)" using live by auto
  have le: "excl_count s (set lbos) g \<le> frefs s g" for g by (rule resvs_ownD(2) [OF own D])
  have held: "excl_held f (set lbos) s4"
    unfolding excl_held_def ex4 using le d(5) by (simp add: s4(3) f3 d(4)) (metis add.commute le_add1 le_trans less_eq_nat.simps(1) zero_less_Suc not_less_eq_eq le_zero_eq)
  have arr4: "arr \<in> heap_plain s4" using arr d(3) h3(2) s4(8) by simp
  have "\<forall>bo \<in> set lbos. vs_bos s4 bo \<noteq> None \<and> bo \<in> set lbos" using live bos4 by simp
  from publish_all_heap [OF s4(2) arr4 this D(1) held] obtain s5 where s5: "each (gem_publish_one f arr) lbos s4 = Some s5" "heap_wf s5"
    "vs_bos s5 = published f lbos (vs_bos s4)" "vs_vms s5 = vs_vms s4" "cs_dev s5 = cs_dev s4" "cs_ctxs s5 = cs_ctxs s4"
    "heap_plain s5 = heap_plain s4" "\<forall>g. frefs s5 g + excl_count s4 (set lbos) g = frefs s4 g + excl_count s5 (set lbos) g" by blast
  have "0 < frefs s5 f" using s5(8) [rule_format, of f] le [of f] d(5) by (simp add: ex4 s4(3) f3 d(4))
  with heap_fence.kput_live [of s5 s5 f] s5(2) obtain s6 where s6: "fence_kref_put f s5 = Some s6" "heap_wf s6" "beside_fences s5 s6"
    "frefs s6 = (frefs s5)(f := frefs s5 f - 1)"
    by (auto simp: beside_fences_def)
  have b6: "vs_bos s6 = published f lbos (vs_bos s)" using s6(3) s5(3) bos4 by (simp add: beside_fences_def)
  have "task_of s6 = (task_of s)(?t \<mapsto> task_submitted x sub lbos arr vm f ?ds darr)"
    using s6(3) s5(5) s4(6) st by (simp add: beside_fences_def task_set_def task_deps_def task_submitted_def)
  moreover have "vrefs s6 = (vrefs s)(vm := Suc (vrefs s vm))"
  proof -
    have "vs_vms s6 = vs_vms s2" using s6(3) s5(4) s4(4) by (simp add: beside_fences_def task_set_def)
    then have "vrefs s6 = vrefs s2" by (simp add: vrefs_def fun_eq_iff)
    then show ?thesis using st by (simp add: task_deps_def)
  qed
  moreover have "cs_ctxs s6 = (cs_ctxs s)(su_ctx sub \<mapsto> ctx_inflight (su_pipe sub) c)"
    using s6(3) s5(6) s4(7) st by (simp add: beside_fences_def task_set_def task_deps_def)
  moreover have "dev_pipe (cs_dev s6) = (dev_pipe (cs_dev s))(su_pipe sub :=
      (pipe_of (su_pipe sub) s)\<lparr>p_queue := p_queue (pipe_of (su_pipe sub) s) @ [?t], p_run_pending := True\<rparr>)"
    using s6(3) s5(5) s4(9) st by (simp add: beside_fences_def task_set_def task_deps_def)
  moreover have "set_option darr \<inter> heap_plain s = {}" using st by (simp add: task_deps_def)
  moreover have "heap_plain s6 = set_option darr \<union> heap_plain s"
    using s6(3) s5(7) s4(8) h3(2) d(3) by (simp add: beside_fences_def)
  moreover have "fences_moved f ?ds (set lbos) s s6"
    unfolding fences_moved_def
  proof
    fix g
    have "excl_count s6 (set lbos) g = excl_count s5 (set lbos) g"
      using s6(3) by (simp add: excl_count_def resv_of_def beside_fences_def)
    moreover have "frefs s5 g + excl_count s (set lbos) g = ((frefs s)(f := 2)) g + count_list ?ds g + excl_count s5 (set lbos) g"
      using s5(8) [rule_format, of g] by (simp add: ex4 s4(3) f3 d(4))
    ultimately show "frefs s6 g + excl_count s (set lbos) g = ((frefs s)(f := 1)) g + count_list ?ds g + excl_count s6 (set lbos) g"
      using \<open>0 < frefs s5 f\<close> by (auto simp: s6(4))
  qed
  ultimately have "submitted sub vm arr lbos s s6" using s6(2) x cx d(5) b6 unfolding submitted_def by blast
  moreover have "brefs s6 = brefs s"
    by (auto simp: brefs_def b6 published_def with_excl_def fun_eq_iff split: option.splits)
  moreover have "task_inflight sub arr c s4"
  proof -
    have z: "t_fence ?z = f" "t_deps ?z = ?ds" "t_vm ?z = vm" "t_bos ?z = lbos" "t_bos_arr ?z = Some arr"
      "t_deps_arr ?z = darr" "t_ctx ?z = Some (su_ctx sub)"
      by (simp_all add: task_ready_def)
    have "brefs s4 = brefs s" by (simp add: brefs_def bos4 fun_eq_iff)
    moreover have "vrefs s4 = vrefs s2" using s4(4) by (simp add: vrefs_def task_set_def fun_eq_iff)
    moreover have "heap_plain s4 = set_option darr \<union> heap_plain s" using s4(8) h3(2) d(3) by simp
    moreover have "set_option darr \<inter> heap_plain s = {}" "vrefs s2 vm = Suc (vrefs s vm)" using st by (simp_all add: task_deps_def)
    ultimately have "task_refs ?z s4"
      unfolding task_refs_def z using refs arr by (auto simp: s4(3) f3 d(4))
    moreover have "cs_ctxs s4 (su_ctx sub) = Some (ctx_inflight (su_pipe sub) c)" by (simp add: s4(7))
    moreover have "task_of s4 ?t = Some ?z" using s4(6) x3(1) by simp
    ultimately show ?thesis unfolding task_inflight_def using s4(2) z(5,7) by blast
  qed
  ultimately show thesis using that [OF d(2) s4(1) s5(1), of s6] s6(1) by (simp add: dma_fence_put_def)
qed

lemma submit_task_heap:
  assumes wf: "heap_wf s" and x: "task_of s (su_task sub) = Some x" and vm: "0 < vrefs s vm"
    and cx: "cs_ctxs s (su_ctx sub) = Some c" and own: "resvs_own s" and arr: "arr \<in> heap_plain s"
    and refs: "brefs s = (\<lambda>b. r b + count_list lbos b)" and pos: "\<forall>b \<in> set lbos. 0 < r b"
  obtains (fail) err s' where "err \<noteq> 0" and "\<And>E. gem_submit_task Z E vm sub arr lbos s = Some (err, s')"
      and "unsubmitted (su_task sub) s r (heap_plain s - {arr}) s'"
  | (queued) f s4 s' where "\<And>E. gem_submit_task Z E vm sub arr lbos s = do {
        s \<leftarrow> each (gem_publish_one f arr) lbos (E s4);
        s \<leftarrow> dma_fence_put (Some f) s;
        Some (0, s)
      }" and "gem_submit_task Z (\<lambda>s. s) vm sub arr lbos s = Some (0, s')" and "submitted sub vm arr lbos s s'"
      and "brefs s' = brefs s" and "task_inflight sub arr c s4"
proof -
  have live: "\<forall>bo \<in> set lbos. count_list lbos bo < brefs s bo" using pos by (simp add: refs)
  then have "\<forall>bo \<in> set lbos. vs_bos s bo \<noteq> None" by (metis brefs_def less_zeroE option.simps(4))
  with wf x vm own show thesis
  proof (cases rule: init_deps_heap [where arr = arr, case_names init_fail deps])
    case (init_fail s1)
    have s1: "heap_wf s1" "brefs s1 = (\<lambda>b. r b + count_list lbos b)" "arr \<in> heap_plain s1"
      using init_fail(2) refs arr by (simp_all add: unsubmitted_def)
    from out_put_heap [OF s1(1,2) pos s1(3), of "- ENOMEM"] obtain s' where
      s': "gem_out_put (- ENOMEM) arr lbos (length lbos) s1 = Some (- ENOMEM, s')" "heap_wf s'" "brefs s' = r"
        "frefs s' = frefs s1" "vrefs s' = vrefs s1" "cs_dev s' = cs_dev s1" "cs_ctxs s' = cs_ctxs s1" "heap_plain s' = heap_plain s1 - {arr}"
      by blast
    have "gem_submit_task Z E vm sub arr lbos s = Some (- ENOMEM, s')" for E
      by (simp add: gem_submit_task_def init_fail(1) s'(1))
    moreover have "unsubmitted (su_task sub) s r (heap_plain s - {arr}) s'" using init_fail(2) s' by (simp add: unsubmitted_def)
    ultimately show thesis by (intro fail [of "- ENOMEM" s']) simp_all
  next
    case (deps s1 err s2 f ds darr)
    show thesis
    proof (cases "err = 0")
      case False
      obtain s' where s': "lima_sched_task_fini Z (su_task sub) s2 = Some s'" "unsubmitted (su_task sub) s r (heap_plain s - {arr}) s'"
        using deps_failed_heap [OF deps(3) arr refs pos, of Z] by blast
      have "gem_submit_task Z E vm sub arr lbos s = Some (err, s')" for E
        by (simp add: gem_submit_task_def deps(1,2) False s'(1))
      with False s'(2) show thesis by (intro fail [of err s'])
    next
      case True
      with deps have st: "task_deps s sub vm arr lbos x f (bos_fences s lbos) darr s2" by simp
      obtain y s4 s5 s' where y: "task_of s2 (su_task sub) = Some y"
        "lima_sched_context_queue_task (su_ctx sub) (su_pipe sub) (su_task sub)
          (task_set (su_task sub) (Some (y\<lparr>t_ctx := Some (su_ctx sub)\<rparr>)) s2) = Some (f, s4)"
        "each (gem_publish_one f arr) lbos s4 = Some s5" "dma_fence_put (Some f) s5 = Some s'"
        "submitted sub vm arr lbos s s'" "brefs s' = brefs s" "task_inflight sub arr c s4"
        by (rule deps_done_heap [OF st x cx own arr live])
      have run: "gem_submit_task Z E vm sub arr lbos s = do {
          s \<leftarrow> each (gem_publish_one f arr) lbos (E s4);
          s \<leftarrow> dma_fence_put (Some f) s;
          Some (0, s)
        }" for E
        using deps(2) True by (simp add: gem_submit_task_def deps(1) y(1,2) Let_def)
      then have "gem_submit_task Z (\<lambda>s. s) vm sub arr lbos s = Some (0, s')" by (simp add: y(3,4))
      with run y(5-7) show thesis by (intro queued [of f s4 s'])
    qed
  qed
qed

section \<open>The whole submission\<close>

text \<open>
  The heap is well formed, the handles name live objects mapped in the file's address space
  \<open>vm\<close>, the task and the context exist, and the reservation objects own what they hold.
\<close>

definition submit_ready :: "handles \<Rightarrow> nat \<Rightarrow> lima_submit \<Rightarrow> 'a ctx_st_scheme \<Rightarrow> bool" where
  "submit_ready H vm sub s \<longleftrightarrow> heap_wf s \<and> handles_ok H vm s \<and> 0 < vrefs s vm \<and> resvs_own s \<and>
     task_of s (su_task sub) \<noteq> None \<and> cs_ctxs s (su_ctx sub) \<noteq> None"

lemma submit_readyD:
  assumes "submit_ready H vm sub s"
  obtains x c where "heap_wf s" "handles_ok H vm s" "0 < vrefs s vm" "resvs_own s"
    "task_of s (su_task sub) = Some x" "cs_ctxs s (su_ctx sub) = Some c"
  using assms unfolding submit_ready_def by blast

text \<open>The objects that the handles of a submission name.\<close>

definition named_bos :: "handles \<Rightarrow> lima_submit \<Rightarrow> nat list" where
  "named_bos H sub = List.map_filter (\<lambda>x. H (sb_handle x)) (su_bos sub)"

lemma map_filter_all: "map f xs = map Some ys \<Longrightarrow> List.map_filter f xs = ys"
  by (induction xs arbitrary: ys) (auto simp: map_filter_simps)

definition bo_users :: "nat \<Rightarrow> nat \<Rightarrow> 'a vm_st_scheme \<Rightarrow> u32 option" where
  "bo_users vm bo s = do { b \<leftarrow> vs_bos s bo; e \<leftarrow> lima_vm_bo_find vm b; Some (bv_ref_count e) }"

lemma lookup_loop_va:
  assumes "gem_lookup_loop H xs lbos s = Some (err, l, s')"
  shows "map_option bo_va (vs_bos s' bo) = map_option bo_va (vs_bos s bo)"
  using assms
proof (induction H xs lbos s rule: gem_lookup_loop.induct)
  case (1 H lbos s)
  then show ?case by simp
next
  case (2 H x xs lbos s)
  then show ?case
    by (fastforce simp: lima_gem_object_lookup_def drm_gem_object_get_def bo_upd_def split: if_splits option.splits bind_splits)
qed

lemma bo_users_va: "map_option bo_va (vs_bos s' bo) = map_option bo_va (vs_bos s bo) \<Longrightarrow> bo_users vm bo s' = bo_users vm bo s"
  by (cases "vs_bos s bo"; cases "vs_bos s' bo") (simp_all add: bo_users_def lima_vm_bo_find_def)

lemma map_loop_users:
  assumes "\<forall>bo \<in> set bos. bo_users vm bo s \<noteq> None" and "gem_map_loop vm bos i s = Some (err, j, s')"
  shows "bo_users vm bo s' = map_option (\<lambda>n. n + of_nat (count_list bos bo)) (bo_users vm bo s)"
  using assms
proof (induction bos arbitrary: i s)
  case Nil
  then show ?case by (simp add: option.map_ident)
next
  case (Cons a bos)
  then obtain b e where b: "vs_bos s a = Some b" "lima_vm_bo_find vm b = Some e"
    by (auto simp: bo_users_def split: bind_splits)
  let ?b = "b\<lparr>bo_va := va_update vm (\<lambda>e. e\<lparr>bv_ref_count := bv_ref_count e + 1\<rparr>) (bo_va b)\<rparr>"
  have find: "lima_vm_bo_find vm ?b = Some (e\<lparr>bv_ref_count := bv_ref_count e + 1\<rparr>)"
    using b(2) by (rule find_va_update) simp
  define S where "S = bo_upd a ?b s"
  have users: "bo_users vm c S = map_option (\<lambda>n. n + of_nat (if c = a then 1 else 0)) (bo_users vm c s)" for c
    using b find by (simp add: S_def bo_users_def bo_upd_def option.map_ident)
  have run: "gem_map_loop vm bos (Suc i) S = Some (err, j, s')"
    using Cons.prems(2) b by (simp add: S_def lima_vm_bo_add_def)
  have "\<forall>bo \<in> set bos. bo_users vm bo S \<noteq> None" using Cons.prems(1) by (simp add: users)
  from Cons.IH [OF this run] show ?case by (cases "bo_users vm bo s") (simp_all add: users algebra_simps)
qed

lemma published_users: "vs_bos s' = published f bos (vs_bos s) \<Longrightarrow> bo_users vm bo s' = bo_users vm bo s"
  by (rule bo_users_va) (cases "vs_bos s bo"; simp add: published_def with_excl_def)

lemma resv_view:
  assumes "bos_only vm s s'"
  shows "resv_of s' = resv_of s" and "dom (vs_bos s') = dom (vs_bos s)"
proof -
  have v: "map_option (bo_view vm) (vs_bos s' bo) = map_option (bo_view vm) (vs_bos s bo)" for bo
    using assms by (simp add: bos_only_def)
  show "resv_of s' = resv_of s"
  proof
    fix bo
    show "resv_of s' bo = resv_of s bo"
      using v [of bo] by (cases "vs_bos s bo"; cases "vs_bos s' bo") (simp_all add: resv_of_def bo_view_def)
  qed
  have "vs_bos s' bo = None \<longleftrightarrow> vs_bos s bo = None" for bo using v [of bo] by (metis option.map_disc_iff)
  then show "dom (vs_bos s') = dom (vs_bos s)" by (auto simp: dom_def)
qed

lemma resvs_own_view: "resvs_own s \<Longrightarrow> resv_of s' = resv_of s \<Longrightarrow> dom (vs_bos s') = dom (vs_bos s) \<Longrightarrow> frefs s' = frefs s \<Longrightarrow> resvs_own s'"
  by (simp add: resvs_own_def excl_count_def)

lemma kzalloc_same:
  assumes "kzalloc s = (k, s')"
  shows "fs_fences s' = fs_fences s" "vs_vms s' = vs_vms s" "vs_bos s' = vs_bos s" "cs_dev s' = cs_dev s" "cs_ctxs s' = cs_ctxs s"
    "frefs s' = frefs s" "vrefs s' = vrefs s" "brefs s' = brefs s"
  using assms by (auto simp: kzalloc_def frefs_def vrefs_def brefs_def fun_eq_iff split: if_splits)

text \<open>
  What a successful submission establishes: every handle was resolved, the task has a new fence
  and depends on every fence the objects held, that fence is now the exclusive fence of each
  object, and the task is the last of its pipe's queue and holds a reference of the address
  space and of each object.
\<close>

definition synchronised :: "handles \<Rightarrow> nat \<Rightarrow> lima_submit \<Rightarrow> 'a ctx_st_scheme \<Rightarrow> 'a ctx_st_scheme \<Rightarrow> bool" where
  "synchronised H vm sub r s \<longleftrightarrow> (let bos = named_bos H sub in
     length bos = length (su_bos sub) \<and> (\<exists>x c f arr darr.
       task_of r (su_task sub) = Some x \<and> cs_ctxs r (su_ctx sub) = Some c \<and> frefs r f = 0 \<and>
       task_of s = (task_of r)(su_task sub \<mapsto> task_submitted x sub bos arr vm f (bos_fences r bos) darr) \<and>
       resv_of s = (\<lambda>bo. if bo \<in> set bos then (resv_of r bo)\<lparr>rv_excl := Some f\<rparr> else resv_of r bo) \<and>
       dev_pipe (cs_dev s) = (dev_pipe (cs_dev r))(su_pipe sub :=
         (pipe_of (su_pipe sub) r)\<lparr>p_queue := p_queue (pipe_of (su_pipe sub) r) @ [su_task sub], p_run_pending := True\<rparr>) \<and>
       cs_ctxs s = (cs_ctxs r)(su_ctx sub \<mapsto> ctx_inflight (su_pipe sub) c) \<and>
       fences_moved f (bos_fences r bos) (set bos) r s) \<and>
     dom (vs_bos s) = dom (vs_bos r) \<and> vrefs s = (vrefs r)(vm := Suc (vrefs r vm)) \<and>
     brefs s = (\<lambda>bo. brefs r bo + count_list bos bo))"

text \<open>Of plain blocks it keeps the two arrays of the task.\<close>

definition arrays_taken :: "nat \<Rightarrow> 'a ctx_st_scheme \<Rightarrow> 'a ctx_st_scheme \<Rightarrow> bool" where
  "arrays_taken t r s \<longleftrightarrow> (\<exists>x. task_of s t = Some x \<and>
     heap_plain s = set_option (t_bos_arr x) \<union> set_option (t_deps_arr x) \<union> heap_plain r \<and>
     set_option (t_bos_arr x) \<inter> set_option (t_deps_arr x) = {} \<and>
     (set_option (t_bos_arr x) \<union> set_option (t_deps_arr x)) \<inter> heap_plain r = {})"

text \<open>Every submission also adds a user to the mapping of each of its objects.\<close>

definition users_added :: "nat \<Rightarrow> nat list \<Rightarrow> 'a vm_st_scheme \<Rightarrow> 'a vm_st_scheme \<Rightarrow> bool" where
  "users_added vm bos r s \<longleftrightarrow> vs_vms s vm \<noteq> None \<and>
     (\<forall>bo. bo_users vm bo s = map_option (\<lambda>n. n + of_nat (count_list bos bo)) (bo_users vm bo r))"

lemma resv_of_published: "vs_bos s' = published f bos (vs_bos s) \<Longrightarrow> set bos \<subseteq> dom (vs_bos s) \<Longrightarrow>
    resv_of s' = (\<lambda>bo. if bo \<in> set bos then (resv_of s bo)\<lparr>rv_excl := Some f\<rparr> else resv_of s bo)"
  by (auto simp: resv_of_def published_def with_excl_def fun_eq_iff)

lemma lookup_map_heap:
  assumes wf: "heap_wf s" and h: "handles_ok H vm s"
  shows "\<exists>err ns s'. gem_lookup_loop H xs [] s = Some (err, ns, s') \<and> heap_wf s' \<and> bos_only vm s s' \<and>
    brefs s' = (\<lambda>b. brefs s b + count_list ns b) \<and> (\<forall>b \<in> set ns. 0 < brefs s b) \<and>
    (err = 0 \<longrightarrow> List.map_filter (\<lambda>x. H (sb_handle x)) xs = ns \<and> length ns = length xs \<and>
      (\<exists>s''. gem_map_loop vm ns 0 s' = Some (0, length ns, s'') \<and> heap_wf s'' \<and> bos_only vm s s'' \<and> brefs s'' = brefs s' \<and>
        (\<forall>bo. bo_users vm bo s'' = map_option (\<lambda>n. n + of_nat (count_list ns bo)) (bo_users vm bo s))))"
proof -
  from lookup_loop_heap [OF wf h, of xs "[]"] obtain err ns s1 where
    a: "gem_lookup_loop H xs [] s = Some (err, ns, s1)" "heap_wf s1" "bos_only vm s s1"
      "brefs s1 = (\<lambda>b. brefs s b + count_list ns b)" "\<forall>b \<in> set ns. b \<in> ran H"
      "err = 0 \<longrightarrow> (\<forall>x \<in> set xs. bo_flags_ok x) \<and> map (\<lambda>x. H (sb_handle x)) xs = map Some ns" by auto
  have live: "\<exists>b. vs_bos s bo = Some b \<and> 0 < bo_refs b \<and> lima_vm_bo_find vm b \<noteq> None" if "bo \<in> set ns" for bo
    using a(5) that h unfolding handles_ok_def by (fastforce simp: ran_def)
  then have pos: "\<forall>b \<in> set ns. 0 < brefs s b" by (fastforce simp: brefs_def)
  have mapped: "\<forall>bo \<in> set ns. \<exists>b. vs_bos s1 bo = Some b \<and> lima_vm_bo_find vm b \<noteq> None"
    using live bos_view_Some [OF a(3)] by metis
  from map_loop_heap [OF a(2) mapped, of 0] obtain s2 where
    b: "gem_map_loop vm ns 0 s1 = Some (0, length ns, s2)" "heap_wf s2" "bos_only vm s1 s2" "brefs s2 = brefs s1" by auto
  have "\<forall>bo \<in> set ns. bo_users vm bo s1 \<noteq> None" using mapped by (auto simp: bo_users_def)
  note users = map_loop_users [OF this b(1)]
  have "bo_users vm bo s1 = bo_users vm bo s" for bo by (rule bo_users_va [OF lookup_loop_va [OF a(1)]])
  with users have users: "\<forall>bo. bo_users vm bo s2 = map_option (\<lambda>n. n + of_nat (count_list ns bo)) (bo_users vm bo s)" by simp
  have "length ns = length xs" if "err = 0" using a(6) that by (metis length_map)
  with a b pos users bos_only_trans [OF a(3) b(3)] map_filter_all show ?thesis by fastforce
qed

text \<open>
  The first half returns an error with everything given back, or reaches the second half in a
  state that differs in the new array, the counts and the users of the named objects.
\<close>

lemma submit_front:
  assumes ready: "submit_ready H vm sub s"
  obtains (refused) err s' where "err \<noteq> 0" and "\<And>E. lima_gem_submit Z E H vm sub s = Some (err, s')"
      and "unsubmitted (su_task sub) s (brefs s) (heap_plain s) s'"
  | (task) arr s2 where "\<And>E. lima_gem_submit Z E H vm sub s = gem_submit_task Z E vm sub arr (named_bos H sub) s2"
      and "heap_wf s2" and "cs_dev s2 = cs_dev s" and "cs_ctxs s2 = cs_ctxs s" and "frefs s2 = frefs s" and "vrefs s2 = vrefs s"
      and "resv_of s2 = resv_of s"
      and "dom (vs_bos s2) = dom (vs_bos s)" and "heap_plain s2 = insert arr (heap_plain s)" and "arr \<notin> heap_plain s"
      and "brefs s2 = (\<lambda>b. brefs s b + count_list (named_bos H sub) b)" and "\<forall>b \<in> set (named_bos H sub). 0 < brefs s b"
      and "length (named_bos H sub) = length (su_bos sub)"
      and "\<forall>bo. bo_users vm bo s2 = map_option (\<lambda>n. n + of_nat (count_list (named_bos H sub) bo)) (bo_users vm bo s)"
proof -
  from ready obtain x c where r: "heap_wf s" "handles_ok H vm s" "0 < vrefs s vm" "resvs_own s"
    "task_of s (su_task sub) = Some x" "cs_ctxs s (su_ctx sub) = Some c" by (rule submit_readyD)
  have kept: "\<exists>y. task_of s = (task_of s)(su_task sub \<mapsto> y)" using r(5) by (metis fun_upd_triv)
  then have same: "unsubmitted (su_task sub) s (brefs s) (heap_plain s) s" using r(1) by (simp add: unsubmitted_def)
  let ?bad = "su_flags sub AND LIMA_SUBMIT_FLAG_EXPLICIT_FENCE \<noteq> 0 \<or> su_in_sync0 sub \<noteq> 0 \<or> su_in_sync1 sub \<noteq> 0 \<or> su_out_sync sub \<noteq> 0"
  show thesis
  proof (cases ?bad)
    case True
    then have "lima_gem_submit Z E H vm sub s = Some (- EINVAL, s)" for E by (simp add: lima_gem_submit_def)
    then show thesis using same by (intro refused [of "- EINVAL" s]) simp_all
  next
    case good: False
    obtain k s0 where kz: "kzalloc s = (k, s0)" by fastforce
    note a = kzalloc_heap [OF r(1) kz] and as = kzalloc_same [OF kz]
    show thesis
    proof (cases k)
      case None
      have "lima_gem_submit Z E H vm sub s = Some (- ENOMEM, s0)" for E
        using good by (simp add: lima_gem_submit_def kz None)
      moreover have "unsubmitted (su_task sub) s (brefs s) (heap_plain s) s0" using a(1,3) None as kept by (simp add: unsubmitted_def)
      ultimately show thesis by (intro refused [of "- ENOMEM" s0]) simp_all
    next
      case (Some arr)
      have arr: "heap_plain s0 = insert arr (heap_plain s)" "arr \<notin> heap_plain s"
        using a(3,4) Some by (auto simp: heap_plain_def)
      have "handles_ok H vm s0" using r(2) by (simp add: handles_ok_def as(3))
      from lookup_map_heap [OF a(1) this, of "su_bos sub"] obtain err ns s1 where
        l: "gem_lookup_loop H (su_bos sub) [] s0 = Some (err, ns, s1)" "heap_wf s1" "bos_only vm s0 s1"
          "brefs s1 = (\<lambda>b. brefs s0 b + count_list ns b)" "\<forall>b \<in> set ns. 0 < brefs s0 b" and
        m: "err = 0 \<longrightarrow> List.map_filter (\<lambda>x. H (sb_handle x)) (su_bos sub) = ns \<and> length ns = length (su_bos sub) \<and>
          (\<exists>s2. gem_map_loop vm ns 0 s1 = Some (0, length ns, s2) \<and> heap_wf s2 \<and> bos_only vm s0 s2 \<and> brefs s2 = brefs s1 \<and>
            (\<forall>bo. bo_users vm bo s2 = map_option (\<lambda>n. n + of_nat (count_list ns bo)) (bo_users vm bo s0)))" by blast
      show thesis
      proof (cases "err = 0")
        case False
        have "arr \<in> heap_plain s1" using l(3) arr by (simp add: bos_only_def)
        from out_put_heap [OF l(2,4,5) this, of err] obtain s' where
          s': "gem_out_put err arr ns (length ns) s1 = Some (err, s')" "heap_wf s'" "brefs s' = brefs s0" "frefs s' = frefs s1"
            "vrefs s' = vrefs s1" "cs_dev s' = cs_dev s1" "cs_ctxs s' = cs_ctxs s1" "heap_plain s' = heap_plain s1 - {arr}" by blast
        have "lima_gem_submit Z E H vm sub s = Some (err, s')" for E
          using good False by (simp add: lima_gem_submit_def kz Some l(1) s'(1))
        moreover have "unsubmitted (su_task sub) s (brefs s) (heap_plain s) s'"
          using s' bos_onlyD [OF l(3)] as arr kept by (simp add: unsubmitted_def)
        ultimately show thesis using False by (intro refused [of err s'])
      next
        case True
        with m obtain s2 where s2: "gem_map_loop vm ns 0 s1 = Some (0, length ns, s2)" "heap_wf s2" "bos_only vm s0 s2" "brefs s2 = brefs s1"
          "\<forall>bo. bo_users vm bo s2 = map_option (\<lambda>n. n + of_nat (count_list ns bo)) (bo_users vm bo s0)" by blast
        have ns: "named_bos H sub = ns" "length ns = length (su_bos sub)" using m True by (simp_all add: named_bos_def)
        note d = bos_onlyD [OF s2(3)]
        have view: "resv_of s2 = resv_of s" "dom (vs_bos s2) = dom (vs_bos s)"
          using resv_view [OF s2(3)] as(3) by (simp_all add: resv_of_def fun_eq_iff)
        have "lima_gem_submit Z E H vm sub s = gem_submit_task Z E vm sub arr (named_bos H sub) s2" for E
          using good True by (simp add: lima_gem_submit_def kz Some l(1) s2(1) ns(1))
        then show thesis
          using s2 view arr l(4,5) ns by (intro task [of arr s2]) (simp_all add: d as bo_users_def)
      qed
    qed
  qed
qed

lemma submitted_synchronised:
  assumes sub: "submitted sub vm arr ns s2 s'" and ns: "named_bos H sub = ns" "length ns = length (su_bos sub)"
    and dev: "cs_dev s2 = cs_dev s" and ctx: "cs_ctxs s2 = cs_ctxs s" and f: "frefs s2 = frefs s" and v: "vrefs s2 = vrefs s"
    and resv: "resv_of s2 = resv_of s" and dom: "set ns \<subseteq> dom (vs_bos s2)" "dom (vs_bos s2) = dom (vs_bos s)"
    and refs: "brefs s' = brefs s2" "brefs s2 = (\<lambda>b. brefs s b + count_list ns b)"
  shows "synchronised H vm sub s s'"
proof -
  have fences: "bos_fences s2 ns = bos_fences s ns" by (simp add: bos_fences_def resv)
  have moved: "fences_moved g ds D s2 s' = fences_moved g ds D s s'" for g ds D
    by (simp add: fences_moved_def excl_count_def resv f)
  from sub obtain x f darr c where q: "task_of s (su_task sub) = Some x" "cs_ctxs s (su_ctx sub) = Some c" "frefs s f = 0"
    "task_of s' = (task_of s)(su_task sub \<mapsto> task_submitted x sub ns arr vm f (bos_fences s ns) darr)"
    "vs_bos s' = published f ns (vs_bos s2)"
    "dev_pipe (cs_dev s') = (dev_pipe (cs_dev s))(su_pipe sub :=
       (pipe_of (su_pipe sub) s)\<lparr>p_queue := p_queue (pipe_of (su_pipe sub) s) @ [su_task sub], p_run_pending := True\<rparr>)"
    "cs_ctxs s' = (cs_ctxs s)(su_ctx sub \<mapsto> ctx_inflight (su_pipe sub) c)" "vrefs s' = (vrefs s)(vm := Suc (vrefs s vm))"
    "fences_moved f (bos_fences s ns) (set ns) s s'"
    unfolding submitted_def fences dev ctx f v moved by blast
  have "resv_of s' = (\<lambda>bo. if bo \<in> set ns then (resv_of s bo)\<lparr>rv_excl := Some f\<rparr> else resv_of s bo)"
    using resv_of_published [OF q(5) dom(1)] by (simp only: resv)
  moreover have "dom (vs_bos s') = dom (vs_bos s)"
    using dom by (auto simp: q(5) published_def dom_def split: if_splits)
  ultimately show ?thesis
    using q(9) unfolding synchronised_def ns(1) Let_def
    by (intro conjI exI [of _ x] exI [of _ c] exI [of _ f] exI [of _ arr] exI [of _ darr])
      (simp_all only: q(1-8) ns(2) refs)
qed

lemma gem_submit_heap:
  assumes ready: "submit_ready H vm sub s"
  obtains (refused) err s' where "err \<noteq> 0" and "\<And>E. lima_gem_submit Z E H vm sub s = Some (err, s')"
      and "unsubmitted (su_task sub) s (brefs s) (heap_plain s) s'"
  | (queued) f arr c s4 s' where "\<And>E. lima_gem_submit Z E H vm sub s = do {
        s \<leftarrow> each (gem_publish_one f arr) (named_bos H sub) (E s4);
        s \<leftarrow> dma_fence_put (Some f) s;
        Some (0, s)
      }" and "lima_gem_submit Z (\<lambda>s. s) H vm sub s = Some (0, s')" and "heap_wf s'" and "synchronised H vm sub s s'"
      and "users_added vm (named_bos H sub) s s'" and "cs_ctxs s (su_ctx sub) = Some c" and "task_inflight sub arr c s4"
      and "arrays_taken (su_task sub) s s'"
  using ready
proof (cases rule: submit_front [where Z = Z, case_names refused task])
  case (refused err s')
  then show thesis by (intro that(1))
next
  case (task arr s2)
  from ready obtain x c where r: "heap_wf s" "handles_ok H vm s" "0 < vrefs s vm" "resvs_own s"
    "task_of s (su_task sub) = Some x" "cs_ctxs s (su_ctx sub) = Some c" by (rule submit_readyD)
  let ?ns = "named_bos H sub"
  have own: "resvs_own s2" by (rule resvs_own_view [OF r(4) task(7,8,5)])
  have x2: "task_of s2 (su_task sub) = Some x" "0 < vrefs s2 vm" "cs_ctxs s2 (su_ctx sub) = Some c" "arr \<in> heap_plain s2"
    using r task by simp_all
  from task(2) x2(1-3) own x2(4) task(11,12) show thesis
  proof (cases rule: submit_task_heap [where Z = Z, case_names failed queued])
    case (failed err s')
    have "unsubmitted (su_task sub) s (brefs s) (heap_plain s) s'"
      using failed(3) task by (simp add: unsubmitted_def)
    with failed(1,2) task(1) show thesis by (intro that(1) [of err s']) simp_all
  next
    case (queued f s4 s')
    have "vs_bos s2 bo \<noteq> None" if "bo \<in> set ?ns" for bo
      using that task(11,12) by (metis add_is_0 brefs_def not_gr_zero option.simps(4))
    then have "set ?ns \<subseteq> dom (vs_bos s2)" by blast
    from submitted_synchronised [OF queued(3) refl task(13,3-7) this task(8) queued(4) task(11)]
    have "synchronised H vm sub s s'" .
    moreover have "users_added vm ?ns s s'"
    proof -
      obtain g where g: "vs_bos s' = published g ?ns (vs_bos s2)" and v: "vrefs s' vm = Suc (vrefs s2 vm)"
        using queued(3) by (auto simp: submitted_def)
      have "vs_vms s' vm \<noteq> None" using v by (cases "vs_vms s' vm") (simp_all add: vrefs_def)
      with task(14) show ?thesis by (simp add: users_added_def published_users [OF g])
    qed
    moreover have "heap_wf s'" using queued(3) by (simp add: submitted_def)
    moreover have "arrays_taken (su_task sub) s s'"
    proof -
      from queued(3) obtain x' f' darr where q: "task_of s' = (task_of s2)(su_task sub \<mapsto> task_submitted x' sub ?ns arr vm f' (bos_fences s2 ?ns) darr)"
        "heap_plain s' = set_option darr \<union> heap_plain s2" "set_option darr \<inter> heap_plain s2 = {}"
        unfolding submitted_def by blast
      define y where "y = task_submitted x' sub ?ns arr vm f' (bos_fences s2 ?ns) darr"
      have "t_bos_arr y = Some arr" "t_deps_arr y = darr" by (simp_all add: y_def task_submitted_def task_ready_def)
      then show ?thesis using q task(9,10) unfolding arrays_taken_def y_def [symmetric] by auto
    qed
    ultimately show thesis using queued task(1) r(6) by (intro that(2) [of f arr s4 s' c]) simp_all
  qed
qed

section \<open>Properties of a submission\<close>

text \<open>
  C29. Submission synchronises: a submission that returns 0 resolved every handle; its task got a
  new fence, depends on every fence its objects held, and is the last of the queue of its pipe;
  the new fence is now the exclusive fence of exactly the named objects; the context has one more
  task in flight, and the task holds a reference of the address space and of each object.
\<close>

theorem submit_synchronises:
  assumes "submit_ready H vm sub s" and "lima_gem_submit Z (\<lambda>s. s) H vm sub s = Some (0, s')"
  shows "heap_wf s' \<and> synchronised H vm sub s s'"
  using assms(1) by (cases rule: gem_submit_heap [where Z = Z]) (use assms(2) in auto)

text \<open>
  A failed submission gives back: whatever the rest of the system does meanwhile, a submission
  that is refused returns with every fence, address space and object count, every block, context
  and queue as before; and left alone every submission returns.
\<close>

lemma failed_submit_gives_back:
  assumes "submit_ready H vm sub s"
  shows "(\<exists>err s'. lima_gem_submit Z (\<lambda>s. s) H vm sub s = Some (err, s')) \<and>
    (lima_gem_submit Z E H vm sub s = Some (err, s') \<longrightarrow> err \<noteq> 0 \<longrightarrow>
      unsubmitted (su_task sub) s (brefs s) (heap_plain s) s')"
  using assms
proof (cases rule: gem_submit_heap [where Z = Z, case_names refused queued])
  case (refused e t)
  then show ?thesis by auto
next
  case (queued f arr c s4 t)
  then show ?thesis by (auto split: bind_splits)
qed

text \<open>
  What the pipe does when it finishes a task at once, as far as the submission is concerned: the
  last step, \<open>lima_sched_task_fini\<close>.
\<close>

definition finished_meanwhile :: "'a ctx_st_scheme sleeper \<Rightarrow> nat \<Rightarrow> 'a ctx_st_scheme \<Rightarrow> 'a ctx_st_scheme" where
  "finished_meanwhile Z t s = (case lima_sched_task_fini Z t s of Some s' \<Rightarrow> s' | None \<Rightarrow> s)"

text \<open>
  C30. The task may be over before the submission is: \<open>lima_gem_submit\<close> queues the task before it
  publishes the fence, and still reads the array of objects that the task now owns. If the pipe
  finishes the task in between, a submission of at least one object that would have succeeded
  reads freed memory.
\<close>

theorem early_finish_is_use_after_free:
  assumes ready: "submit_ready H vm sub s" and ok: "lima_gem_submit Z (\<lambda>s. s) H vm sub s = Some (0, s')"
    and some: "su_bos sub \<noteq> []" and held: "cs_ctxs s (su_ctx sub) = Some c" "cx_refcount c \<noteq> 1"
  shows "lima_gem_submit Z (finished_meanwhile Z (su_task sub)) H vm sub s = None"
  using ready
proof (cases rule: gem_submit_heap [where Z = Z, case_names refused queued])
  case (refused e t)
  with ok show ?thesis by simp
next
  case (queued f arr c' s4 t)
  then obtain z where z: "heap_wf s4" "cs_ctxs s4 (su_ctx sub) = Some (ctx_inflight (su_pipe sub) c)"
    "task_of s4 (su_task sub) = Some z" "task_refs z s4" "t_bos_arr z = Some arr" "t_ctx z = Some (su_ctx sub)"
    using held(1) unfolding task_inflight_def by auto
  have "cx_refcount (ctx_inflight (su_pipe sub) c) \<noteq> 1" using held(2) by (simp add: ctx_inflight_def)
  with task_fini_refs [OF z(1,3,4), of "su_ctx sub" "ctx_inflight (su_pipe sub) c" Z] z(2,5,6) obtain s5 where
    s5: "lima_sched_task_fini Z (su_task sub) s4 = Some s5" "arr \<notin> km_live s5" by auto
  have "length (named_bos H sub) = length (su_bos sub)" using queued(4) by (simp add: synchronised_def Let_def)
  with some obtain bo bos where "named_bos H sub = bo # bos" by (cases "named_bos H sub") auto
  then show ?thesis using s5 queued(1) [of "finished_meanwhile Z (su_task sub)"]
    by (simp add: finished_meanwhile_def gem_publish_one_def)
qed

lemma closes_keep_tables:
  assumes "bo_users vm bo s = Some n" and "k < unat n"
  shows "\<exists>s'. each (lima_gem_object_close vm) (replicate k bo) s = Some s' \<and> vs_vms s' = vs_vms s \<and>
    bo_users vm bo s' = Some (n - of_nat k)"
  using assms
proof (induction k arbitrary: s n)
  case 0
  then show ?case by simp
next
  case (Suc k)
  then obtain b e where b: "vs_bos s bo = Some b" "lima_vm_bo_find vm b = Some e" "bv_ref_count e = n"
    by (auto simp: bo_users_def split: bind_splits)
  let ?b = "b\<lparr>bo_va := va_update vm (\<lambda>e. e\<lparr>bv_ref_count := n - 1\<rparr>) (bo_va b)\<rparr>"
  have find: "lima_vm_bo_find vm ?b = Some (e\<lparr>bv_ref_count := n - 1\<rparr>)" using b(2) by (rule find_va_update) simp
  have n: "unat (n - 1) = unat n - 1" using Suc.prems(2) by (intro unat_minus_one) auto
  then have "0 < unat (n - 1)" using Suc.prems(2) by simp
  then have pos: "0 < n - 1" by (simp only: unat_gt_0 word_gt_0)
  have step: "lima_gem_object_close vm bo s = Some (bo_upd bo ?b s)"
    using b pos by (simp add: lima_gem_object_close_def lima_vm_bo_del_def Let_def)
  have users: "bo_users vm bo (bo_upd bo ?b s) = Some (n - 1)" using find by (simp add: bo_users_def bo_upd_def)
  have "k < unat (n - 1)" using n Suc.prems(2) by simp
  from Suc.IH [OF users this] obtain s' where "each (lima_gem_object_close vm) (replicate k bo) (bo_upd bo ?b s) = Some s'"
    "vs_vms s' = vs_vms (bo_upd bo ?b s)" "bo_users vm bo s' = Some (n - 1 - of_nat k)" by blast
  then show ?case using step by (simp add: bo_upd_def algebra_simps)
qed


section \<open>A concrete submission\<close>

text \<open>
  Handle 7 of the file with address space 5 names object 9, whose exclusive fence is that of the
  running task 15; task 21 of context 13 is submitted to the geometry pipe.
\<close>

definition submit_demo :: ctx_st where
  "submit_demo = sched_demo\<lparr>km_live := {20, 21} \<union> km_live sched_demo,
     vs_bos := [9 \<mapsto> (the (vs_bos sched_demo 9))
       \<lparr>bo_va := [\<lparr>bv_block = 20, bv_vm = 5, bv_ref_count = 1, bv_start = 0, bv_size = 4096\<rparr>],
        bo_resv := \<lparr>rv_excl = Some 14, rv_shared = [], rv_arr = None, rv_max = 0\<rparr>\<rparr>],
     cs_dev := (cs_dev sched_demo)\<lparr>dev_tasks := (task_of sched_demo)(21 \<mapsto> task_demo 0 0)\<rparr>\<rparr>"

definition submit_args :: lima_submit where
  "submit_args = \<lparr>su_ctx = 13, su_pipe = lima_pipe_gp, su_flags = 0, su_bos = [\<lparr>sb_handle = 7, sb_flags = 1\<rparr>],
     su_in_sync0 = 0, su_in_sync1 = 0, su_out_sync = 0, su_task = 21\<rparr>"

definition handles_demo :: handles where
  "handles_demo = [7 \<mapsto> 9]"

lemma submit_demo_bo: "\<exists>b. vs_bos submit_demo 9 = Some b \<and> bo_refs b = 3 \<and> bo_resv b = \<lparr>rv_excl = Some 14, rv_shared = [], rv_arr = None, rv_max = 0\<rparr> \<and>
    bo_va b = [\<lparr>bv_block = 20, bv_vm = 5, bv_ref_count = 1, bv_start = 0, bv_size = 4096\<rparr>]"
  using sched_demo_bo by (auto simp: submit_demo_def)

lemma submit_demo_fields:
  "vs_vms submit_demo = [5 \<mapsto> vm_demo]" "dm_live submit_demo = {(0x1000, 4096)}"
  "km_live submit_demo = {5, 9, 12, 13, 14, 15, 16, 17, 18, 19, 20, 21}" "km_n submit_demo = 30"
  "fs_fences submit_demo = [14 \<mapsto> fence_demo, 19 \<mapsto> fence_demo]" "cs_ctxs submit_demo = cs_ctxs sched_demo"
  "dom (vs_bos submit_demo) = {9}" "task_of submit_demo 21 = Some (task_demo 0 0)" "dom (task_of submit_demo) = {15, 17, 21}"
  by (auto simp: submit_demo_def)

lemma submit_demo_ready: "submit_ready handles_demo 5 submit_args submit_demo"
proof -
  have others: "heap_others submit_demo = {9, 12, 13, 15, 17, 21}" "dom (fs_fences submit_demo) = {14, 19}" "dom (vs_vms submit_demo) = {5}"
    unfolding heap_others_def submit_demo_fields by auto
  have "vm_wf vm_demo submit_demo"
    using vm_demo_wf [of 2] by (simp add: vm_wf_def dma_demo_def submit_demo_fields)
  then have "vms_wf submit_demo" by (auto simp: vms_wf_def vm_demo_def submit_demo_fields split: if_splits)
  moreover have "fence_wf submit_demo"
    by (auto simp: fence_wf_def kmem_wf_def fence_demo_def submit_demo_fields split: if_splits)
  ultimately have wf: "heap_wf submit_demo" unfolding heap_wf_def others by (simp add: submit_demo_fields)
  obtain b where b: "vs_bos submit_demo 9 = Some b" "bo_refs b = 3" "bo_resv b = \<lparr>rv_excl = Some 14, rv_shared = [], rv_arr = None, rv_max = 0\<rparr>"
    "bo_va b = [\<lparr>bv_block = 20, bv_vm = 5, bv_ref_count = 1, bv_start = 0, bv_size = 4096\<rparr>]" using submit_demo_bo by blast
  have "handles_ok handles_demo 5 submit_demo" by (simp add: handles_ok_def handles_demo_def b lima_vm_bo_find_def)
  moreover have r: "resv_of submit_demo 9 = \<lparr>rv_excl = Some 14, rv_shared = [], rv_arr = None, rv_max = 0\<rparr>"
    by (simp add: resv_of_def b)
  have f: "frefs submit_demo 14 = 2" by (simp add: frefs_def submit_demo_fields fence_demo_def)
  have "excl_count submit_demo D g \<le> frefs submit_demo g" if "D \<subseteq> {9}" for D g
    using that f by (auto simp: excl_count_def r subset_singleton_iff)
  then have "resvs_own submit_demo"
    using f by (auto simp: resvs_own_def submit_demo_fields r resv_refs_def)
  moreover have "0 < vrefs submit_demo 5" by (simp add: vrefs_def submit_demo_fields vm_demo_def)
  ultimately show ?thesis
    using wf by (simp add: submit_ready_def submit_args_def submit_demo_fields sched_demo_ctx)
qed

lemma submit_demo_ok: "km_ok submit_demo = (\<lambda>_. True)"
  by (simp add: submit_demo_def sched_demo_defs)

text \<open>The run, step by step: the object it reads, and the states between the steps.\<close>

definition demo_bo :: "nat \<Rightarrow> u32 \<Rightarrow> nat \<Rightarrow> lima_bo" where
  "demo_bo refs users f = \<lparr>bo_refs = refs, bo_size = 4096, bo_filp = True, bo_pages = Some (10, [Some 3]),
     bo_pages_dma_addr = Some (11, [0x40000000]), bo_sgt = None, bo_vaddr = None,
     bo_va = [\<lparr>bv_block = 20, bv_vm = 5, bv_ref_count = users, bv_start = 0, bv_size = 4096\<rparr>],
     bo_resv = \<lparr>rv_excl = Some f, rv_shared = [], rv_arr = None, rv_max = 0\<rparr>, bo_map_key = 0\<rparr>"

lemma submit_demo_bos: "vs_bos submit_demo = [9 \<mapsto> demo_bo 3 1 14]"
  by (simp add: submit_demo_def sched_demo_def ctx_demo_defs space_demo_def demo_bo_def)

lemma submit_demo_front: "\<exists>s. lima_gem_submit Z E handles_demo 5 submit_args submit_demo = gem_submit_task Z E 5 submit_args 30 [9] s \<and>
    s = submit_demo\<lparr>km_live := insert 30 (km_live submit_demo), km_n := 31, vs_bos := [9 \<mapsto> demo_bo 4 2 14]\<rparr>"
  by (simp add: lima_gem_submit_def submit_args_def handles_demo_def kzalloc_def submit_demo_ok submit_demo_fields submit_demo_bos
    lima_gem_object_lookup_def drm_gem_object_get_def bo_upd_def demo_bo_def lima_vm_bo_add_def lima_vm_bo_find_def
    LIMA_SUBMIT_BO_READ_def LIMA_SUBMIT_BO_WRITE_def LIMA_SUBMIT_FLAG_EXPLICIT_FENCE_def)

lemma submit_demo_back: "\<exists>s'. gem_submit_task Z (\<lambda>s. s) 5 submit_args 30 [9]
    (submit_demo\<lparr>km_live := insert 30 (km_live submit_demo), km_n := 31, vs_bos := [9 \<mapsto> demo_bo 4 2 14]\<rparr>) = Some (0, s')"
  by (simp add: gem_submit_task_def submit_args_def kzalloc_def submit_demo_ok submit_demo_fields submit_demo_bos sched_demo_ctx
    demo_bo_def fence_demo_def vm_demo_def lima_sched_task_init_def lima_vm_get_def lima_fence_create_def
    task_set_def lima_resv_get_fences_def resv_refs_def dma_fence_get_def lima_sched_task_add_dep_def krealloc_def kfree_def
    lima_sched_context_queue_task_def ctx_upd_def on_pipe_def gem_publish_one_def lima_resv_set_excl_def dma_fence_put_def
    fence_kref_put_def lima_fence_release_def vm_upd_def pipe_upd_def bo_upd_def)

lemma submit_demo_runs: "\<exists>s'. lima_gem_submit Z (\<lambda>s. s) handles_demo 5 submit_args submit_demo = Some (0, s')"
proof -
  obtain s where "lima_gem_submit Z (\<lambda>s. s) handles_demo 5 submit_args submit_demo = gem_submit_task Z (\<lambda>s. s) 5 submit_args 30 [9] s"
    "s = submit_demo\<lparr>km_live := insert 30 (km_live submit_demo), km_n := 31, vs_bos := [9 \<mapsto> demo_bo 4 2 14]\<rparr>"
    using submit_demo_front by blast
  with submit_demo_back show ?thesis by simp
qed

lemma submit_demo_names: "named_bos handles_demo submit_args = [9]" "length (su_bos submit_args) = 1" "bo_users 5 9 submit_demo = Some 1"
  by (simp_all add: named_bos_def submit_args_def handles_demo_def map_filter_simps bo_users_def submit_demo_bos demo_bo_def lima_vm_bo_find_def)

theorem submit_synchronises_witness:
  "\<exists>s'. lima_gem_submit (id, 0, 0) (\<lambda>s. s) handles_demo 5 submit_args submit_demo = Some (0, s') \<and>
     synchronised handles_demo 5 submit_args submit_demo s'"
  using submit_demo_runs [of "(id, 0, 0)"] submit_synchronises [OF submit_demo_ready] by blast

theorem early_finish_is_use_after_free_witness:
  "lima_gem_submit (id, 0, 0) (finished_meanwhile (id, 0, 0) 21) handles_demo 5 submit_args submit_demo = None"
proof -
  obtain s' where "lima_gem_submit (id, 0, 0) (\<lambda>s. s) handles_demo 5 submit_args submit_demo = Some (0, s')"
    using submit_demo_runs by blast
  from early_finish_is_use_after_free [OF submit_demo_ready this] show ?thesis
    by (simp add: submit_args_def submit_demo_fields sched_demo_ctx)
qed


end
