(* ===== verification/Lima_Platform.thy ===== *)
theory Lima_Platform
  imports Lima_Prelude
begin

text \<open>
  The power domain of the GPU on the SC7730SE, \<open>lima_platform_sprd.c\<close>, in both versions the
  repository has: \<open>src-kernel\<close> samples the status until three reads agree, however long it
  takes, \<open>authored\<close> gives up after 100000 samples.
\<close>

section \<open>The power management unit\<close>

text \<open>
  The register macros and the \<open>sci_glb_*\<close> helpers are the vendor tree's. The accesses to the
  configuration register are kept as a log with the fields' names; \<open>pm_sample n\<close> is what the
  \<open>n\<close>-th read of the state field returns (the hardware is arbitrary) and \<open>pm_ready\<close> its value
  for "on". The reads made for the messages are not counted.
\<close>

datatype pd_access =
  PWR_ON_DLY nat u32 | PWR_ON_SEQ_DLY nat u32 | ISO_ON_DLY nat u32
| Set_FORCE_SHUTDOWN | Clr_FORCE_SHUTDOWN

record sprd_pmu =
  pm_sample :: "nat \<Rightarrow> u32"
  pm_ready :: u32
  pm_n :: nat
  pm_log :: "pd_access list"

definition pd_do :: "pd_access \<Rightarrow> sprd_pmu \<Rightarrow> sprd_pmu" where
  "pd_do a s = s\<lparr>pm_log := pm_log s @ [a]\<rparr>"

text \<open>The three reads of one sample, and whether they agree.\<close>

definition sample3 :: "sprd_pmu \<Rightarrow> u32 \<times> bool \<times> sprd_pmu" where
  "sample3 s = (let n = pm_n s; s1 = pm_sample s n; s2 = pm_sample s (n + 1); s3 = pm_sample s (n + 2) in
     (s1, \<not> (s1 \<noteq> s2 \<or> s2 \<noteq> s3), s\<lparr>pm_n := n + 3\<rparr>))"

section \<open>Sampling\<close>

text \<open>The loop of \<open>src-kernel\<close>; after two seconds it also prints a message in every round.\<close>

partial_function (option) sprd_gpu_domain_state :: "sprd_pmu \<Rightarrow> (u32 \<times> sprd_pmu) option" where
  "sprd_gpu_domain_state s =
     (let r = sample3 s in
      if fst (snd r) then Some (fst r, snd (snd r)) else sprd_gpu_domain_state (snd (snd r)))"

text \<open>
  The loop of \<open>authored\<close>: \<open>tries\<close> is the counter after its decrement, and at 0 the loop is left
  with the last sample.
\<close>

fun domain_state_loop :: "nat \<Rightarrow> sprd_pmu \<Rightarrow> u32 \<times> sprd_pmu" where
  "domain_state_loop tries s =
     (let r = sample3 s in
      case tries of
        0 \<Rightarrow> (fst r, snd (snd r))
      | Suc tries \<Rightarrow> if fst (snd r) then (fst r, snd (snd r)) else domain_state_loop tries (snd (snd r)))"

declare domain_state_loop.simps [simp del]

definition sprd_gpu_domain_state_bounded :: "sprd_pmu \<Rightarrow> u32 \<times> sprd_pmu" where
  "sprd_gpu_domain_state_bounded s = domain_state_loop (100000 - 1) s"

text \<open>
  \<open>sprd_gpu_domain_wait_for_ready\<close>, for a function \<open>f\<close> that samples the state and a counter
  that starts at 2000.
\<close>

fun wait_ready_loop :: "(sprd_pmu \<Rightarrow> (u32 \<times> sprd_pmu) option) \<Rightarrow> nat \<Rightarrow> sprd_pmu \<Rightarrow> (int \<times> sprd_pmu) option" where
  "wait_ready_loop f n s = do {
     r \<leftarrow> f s;
     if fst r \<noteq> pm_ready s then (case n of 0 \<Rightarrow> Some (- ETIMEDOUT, snd r) | Suc n \<Rightarrow> wait_ready_loop f n (snd r))
     else Some (0, snd r)
   }"

declare wait_ready_loop.simps [simp del]

definition sprd_gpu_domain_wait_for_ready :: "(sprd_pmu \<Rightarrow> (u32 \<times> sprd_pmu) option) \<Rightarrow> sprd_pmu \<Rightarrow> (int \<times> sprd_pmu) option" where
  "sprd_gpu_domain_wait_for_ready f s = wait_ready_loop f 2000 s"

section \<open>Power on and off\<close>

definition sprd_gpu_power_on_builtin :: "(sprd_pmu \<Rightarrow> (u32 \<times> sprd_pmu) option) \<Rightarrow> sprd_pmu \<Rightarrow> (int \<times> sprd_pmu) option" where
  "sprd_gpu_power_on_builtin f s =
     sprd_gpu_domain_wait_for_ready f
       (pd_do Clr_FORCE_SHUTDOWN
         (pd_do (ISO_ON_DLY 1 0xff)
           (pd_do (PWR_ON_SEQ_DLY 1 0xff00)
             (pd_do (PWR_ON_DLY 1 0xff0000) s))))"

definition sprd_gpu_power_off_builtin :: "sprd_pmu \<Rightarrow> sprd_pmu" where
  "sprd_gpu_power_off_builtin s = pd_do Set_FORCE_SHUTDOWN s"

text \<open>
  \<open>struct lima_platform_data\<close>: a board's own functions, when it has them. A board's function
  acts on hardware the model does not have; it counts its calls.
\<close>

record lima_platform_data =
  pd_gpu_id :: nat
  pd_power_on :: "int option"
  pd_power_off :: bool

record power =
  pw_pmu :: sprd_pmu
  pw_data :: "lima_platform_data option"
  pw_board_on :: nat
  pw_board_off :: nat

definition lima_platform_power_on :: "(sprd_pmu \<Rightarrow> (u32 \<times> sprd_pmu) option) \<Rightarrow> power \<Rightarrow> (int \<times> power) option" where
  "lima_platform_power_on f w = (case Option.bind (pw_data w) pd_power_on of
     Some r \<Rightarrow> Some (r, w\<lparr>pw_board_on := Suc (pw_board_on w)\<rparr>)
   | None \<Rightarrow> map_option (\<lambda>(r, s). (r, w\<lparr>pw_pmu := s\<rparr>)) (sprd_gpu_power_on_builtin f (pw_pmu w)))"

definition lima_platform_power_off :: "power \<Rightarrow> power" where
  "lima_platform_power_off w = (case pw_data w of
     Some d \<Rightarrow> if pd_power_off d then w\<lparr>pw_board_off := Suc (pw_board_off w)\<rparr>
       else w\<lparr>pw_pmu := sprd_gpu_power_off_builtin (pw_pmu w)\<rparr>
   | None \<Rightarrow> w\<lparr>pw_pmu := sprd_gpu_power_off_builtin (pw_pmu w)\<rparr>)"

section \<open>When sampling ends\<close>

text \<open>The \<open>k\<close>-th sample from \<open>s\<close> on is settled.\<close>

definition settled :: "sprd_pmu \<Rightarrow> nat \<Rightarrow> bool" where
  "settled s k \<longleftrightarrow> pm_sample s (pm_n s + 3 * k) = pm_sample s (pm_n s + 3 * k + 1) \<and>
     pm_sample s (pm_n s + 3 * k + 1) = pm_sample s (pm_n s + 3 * k + 2)"

definition after_samples :: "sprd_pmu \<Rightarrow> nat \<Rightarrow> sprd_pmu" where
  "after_samples s k = s\<lparr>pm_n := pm_n s + 3 * k\<rparr>"

lemma sample3_eq: "sample3 s = (pm_sample s (pm_n s), settled s 0, after_samples s (Suc 0))"
  by (simp add: sample3_def Let_def settled_def after_samples_def eval_nat_numeral)

lemma settled_after: "settled (after_samples s (Suc 0)) k = settled s (Suc k)"
  by (simp add: settled_def after_samples_def algebra_simps)

lemma after_after [simp]: "after_samples (after_samples s (Suc 0)) k = after_samples s (Suc k)"
  by (simp add: after_samples_def)

lemma after_fields [simp]:
  "pm_sample (after_samples s k) = pm_sample s" "pm_ready (after_samples s k) = pm_ready s"
  "pm_n (after_samples s k) = pm_n s + 3 * k" "pm_log (after_samples s k) = pm_log s"
  by (simp_all add: after_samples_def)

lemma loop_settles:
  assumes "settled s k" and "\<forall>j < k. \<not> settled s j" and "k \<le> n"
  shows "domain_state_loop n s = (pm_sample s (pm_n s + 3 * k), after_samples s (Suc k))"
  using assms
proof (induction k arbitrary: s n)
  case 0
  then show ?case by (subst domain_state_loop.simps) (auto simp: sample3_eq Let_def split: nat.split)
next
  case (Suc k)
  then obtain m where n: "n = Suc m" by (cases n) auto
  have "domain_state_loop m (after_samples s (Suc 0)) =
      (pm_sample (after_samples s (Suc 0)) (pm_n (after_samples s (Suc 0)) + 3 * k), after_samples (after_samples s (Suc 0)) (Suc k))"
    using Suc.prems n by (intro Suc.IH) (auto simp: settled_after)
  moreover have "\<not> settled s 0" using Suc.prems(2) by blast
  ultimately show ?case
    by (subst domain_state_loop.simps) (simp add: sample3_eq n algebra_simps)
qed

lemma state_settles:
  assumes "settled s k" and "\<forall>j < k. \<not> settled s j"
  shows "sprd_gpu_domain_state s = Some (pm_sample s (pm_n s + 3 * k), after_samples s (Suc k))"
  using assms
proof (induction k arbitrary: s)
  case 0
  then show ?case by (subst sprd_gpu_domain_state.simps) (simp add: sample3_eq Let_def)
next
  case (Suc k)
  have "sprd_gpu_domain_state (after_samples s (Suc 0)) =
      Some (pm_sample (after_samples s (Suc 0)) (pm_n (after_samples s (Suc 0)) + 3 * k), after_samples (after_samples s (Suc 0)) (Suc k))"
    using Suc.prems by (intro Suc.IH) (auto simp: settled_after)
  moreover have "\<not> settled s 0" using Suc.prems(2) by blast
  ultimately show ?case
    by (subst sprd_gpu_domain_state.simps) (simp add: sample3_eq Let_def algebra_simps)
qed

lemma loop_unsettled:
  assumes "\<forall>j \<le> n. \<not> settled s j"
  shows "domain_state_loop n s = (pm_sample s (pm_n s + 3 * n), after_samples s (Suc n))"
  using assms
proof (induction n arbitrary: s)
  case 0
  then show ?case by (subst domain_state_loop.simps) (simp add: sample3_eq)
next
  case (Suc n)
  have "domain_state_loop n (after_samples s (Suc 0)) =
      (pm_sample (after_samples s (Suc 0)) (pm_n (after_samples s (Suc 0)) + 3 * n), after_samples (after_samples s (Suc 0)) (Suc n))"
    using Suc.prems by (intro Suc.IH) (auto simp: settled_after)
  moreover have "\<not> settled s 0" using Suc.prems by blast
  ultimately show ?case
    by (subst domain_state_loop.simps) (simp add: sample3_eq algebra_simps)
qed

lemma state_returns_settled: "sprd_gpu_domain_state s = Some r \<Longrightarrow> \<exists>k. settled s k"
proof (induction rule: sprd_gpu_domain_state.raw_induct [rotated, consumes 1, case_names step])
  case (step f s r)
  show ?case
  proof (cases "settled s 0")
    case False
    then have "f (after_samples s (Suc 0)) = Some r" using step(2) by (simp add: sample3_eq Let_def)
    then have "\<exists>k. settled (after_samples s (Suc 0)) k" by (rule step(1))
    then show ?thesis by (auto simp: settled_after)
  qed blast
qed

lemma wait_ready_returns:
  assumes "\<And>s. \<exists>r. f s = Some r"
  shows "\<exists>r s'. wait_ready_loop f n s = Some (r, s') \<and> r \<in> {0, - ETIMEDOUT}"
proof (induction n arbitrary: s)
  case 0
  from assms [of s] show ?case by (subst wait_ready_loop.simps) auto
next
  case (Suc n)
  from assms [of s] obtain v where "f s = Some v" by blast
  with Suc [of "snd v"] show ?case by (subst wait_ready_loop.simps) auto
qed

lemma power_on_returns:
  obtains e w' where "lima_platform_power_on (\<lambda>w. Some (sprd_gpu_domain_state_bounded w)) w = Some (e, w')"
proof (cases "Option.bind (pw_data w) pd_power_on")
  case None
  have "\<exists>r s'. sprd_gpu_power_on_builtin (\<lambda>w. Some (sprd_gpu_domain_state_bounded w)) (pw_pmu w) = Some (r, s') \<and>
      r \<in> {0, - ETIMEDOUT}"
    unfolding sprd_gpu_power_on_builtin_def sprd_gpu_domain_wait_for_ready_def by (rule wait_ready_returns) simp
  then show thesis using None that by (auto simp: lima_platform_power_on_def)
next
  case (Some r)
  then show thesis using that by (simp add: lima_platform_power_on_def)
qed

text \<open>
  C26. The two versions of the sampling loop agree as long as the status settles within 100000
  samples. When it never settles, the version of \<open>src-kernel\<close> never returns (the message after
  two seconds does not end the loop), while the one of \<open>authored\<close> returns its last sample after
  exactly 100000; with it the wait for the power domain, and so powering on, always returns.
\<close>

theorem bounded_sampling_agrees:
  "((\<exists>k < 100000. settled s k) \<longrightarrow> sprd_gpu_domain_state s = Some (sprd_gpu_domain_state_bounded s)) \<and>
   ((\<forall>k. \<not> settled s k) \<longrightarrow> sprd_gpu_domain_state s = None \<and>
      sprd_gpu_domain_state_bounded s = (pm_sample s (pm_n s + 3 * 99999), s\<lparr>pm_n := pm_n s + 300000\<rparr>)) \<and>
   (\<exists>r s'. sprd_gpu_domain_wait_for_ready (\<lambda>s. Some (sprd_gpu_domain_state_bounded s)) s = Some (r, s') \<and>
      r \<in> {0, - ETIMEDOUT})"
proof (intro conjI impI)
  assume "\<exists>k < 100000. settled s k"
  then have ex: "\<exists>k. settled s k \<and> k < 100000" by blast
  define k where "k = (LEAST k. settled s k)"
  have k: "settled s k" using ex unfolding k_def by (blast intro: LeastI)
  have less: "\<forall>j < k. \<not> settled s j" unfolding k_def by (blast dest: not_less_Least)
  from ex obtain m where "settled s m" "m < 100000" by blast
  then have "k < 100000" unfolding k_def by (metis Least_le order_le_less_trans)
  then show "sprd_gpu_domain_state s = Some (sprd_gpu_domain_state_bounded s)"
    by (simp add: state_settles [OF k less] sprd_gpu_domain_state_bounded_def loop_settles [OF k less])
next
  assume never: "\<forall>k. \<not> settled s k"
  then show "sprd_gpu_domain_state s = None"
    using state_returns_settled by (cases "sprd_gpu_domain_state s") blast+
  show "sprd_gpu_domain_state_bounded s = (pm_sample s (pm_n s + 3 * 99999), s\<lparr>pm_n := pm_n s + 300000\<rparr>)"
    using never by (simp add: sprd_gpu_domain_state_bounded_def loop_unsettled after_samples_def)
next
  show "\<exists>r s'. sprd_gpu_domain_wait_for_ready (\<lambda>s. Some (sprd_gpu_domain_state_bounded s)) s = Some (r, s') \<and>
      r \<in> {0, - ETIMEDOUT}"
    unfolding sprd_gpu_domain_wait_for_ready_def by (rule wait_ready_returns) simp
qed

text \<open>A status register that alternates never settles.\<close>

theorem bounded_sampling_agrees_witness:
  "sprd_gpu_domain_state \<lparr>pm_sample = (\<lambda>n. if even n then 0 else 1), pm_ready = 0, pm_n = 0, pm_log = []\<rparr> = None"
proof -
  let ?s = "\<lparr>pm_sample = (\<lambda>n. if even n then 0 else 1), pm_ready = 0, pm_n = 0, pm_log = []\<rparr> :: sprd_pmu"
  have "\<forall>k. \<not> settled ?s k" by (simp add: settled_def)
  with bounded_sampling_agrees [of ?s] show ?thesis by blast
qed

end
