(* ===== verification/Lima_Device.thy ===== *)
theory Lima_Device
  imports Lima_Sched Lima_Platform
begin

text \<open>
  Bringing a device up and taking it down, \<open>lima_device.c\<close>: the table of IP blocks, clocks and
  regulator, the two pipes, \<open>lima_device_init\<close> with its error labels, \<open>lima_device_fini\<close>.
\<close>

section \<open>The table of IP blocks\<close>

text \<open>\<open>struct lima_ip_desc\<close>; an offset of -1 says that the GPU does not have the block.\<close>

record ip_desc =
  di_name :: string
  di_irq_name :: "string option"
  di_must_have :: "lima_gpu_id \<Rightarrow> bool"
  di_offset :: "lima_gpu_id \<Rightarrow> int"
  di_init :: "lima_ip_id \<Rightarrow> int hw"
  di_fini :: "lima_ip_id \<Rightarrow> unit hw"

definition LIMA_IP_DESC ::
    "string \<Rightarrow> bool \<Rightarrow> bool \<Rightarrow> int \<Rightarrow> int \<Rightarrow> (lima_ip_id \<Rightarrow> int hw) \<Rightarrow> (lima_ip_id \<Rightarrow> unit hw)
      \<Rightarrow> string option \<Rightarrow> ip_desc" where
  "LIMA_IP_DESC name mst0 mst1 off0 off1 init fini irq =
     \<lparr>di_name = name, di_irq_name = irq,
      di_must_have = (\<lambda>g. case g of lima_gpu_mali400 \<Rightarrow> mst0 | lima_gpu_mali450 \<Rightarrow> mst1),
      di_offset = (\<lambda>g. case g of lima_gpu_mali400 \<Rightarrow> off0 | lima_gpu_mali450 \<Rightarrow> off1),
      di_init = init, di_fini = fini\<rparr>"

fun lima_ip_desc :: "lima_ip_id \<Rightarrow> ip_desc" where
  "lima_ip_desc lima_ip_pmu = LIMA_IP_DESC ''pmu'' False False 0x02000 0x02000 lima_pmu_init lima_pmu_fini (Some ''pmu'')"
| "lima_ip_desc lima_ip_l2_cache0 = LIMA_IP_DESC ''l2_cache0'' True True 0x01000 0x10000 lima_l2_cache_init lima_l2_cache_fini None"
| "lima_ip_desc lima_ip_l2_cache1 = LIMA_IP_DESC ''l2_cache1'' False True (- 1) 0x01000 lima_l2_cache_init lima_l2_cache_fini None"
| "lima_ip_desc lima_ip_l2_cache2 = LIMA_IP_DESC ''l2_cache2'' False False (- 1) 0x11000 lima_l2_cache_init lima_l2_cache_fini None"
| "lima_ip_desc lima_ip_gp = LIMA_IP_DESC ''gp'' True True 0x00000 0x00000 lima_gp_init lima_gp_fini (Some ''gp'')"
| "lima_ip_desc lima_ip_pp0 = LIMA_IP_DESC ''pp0'' True True 0x08000 0x08000 lima_pp_init lima_pp_fini (Some ''pp0'')"
| "lima_ip_desc lima_ip_pp1 = LIMA_IP_DESC ''pp1'' False False 0x0A000 0x0A000 lima_pp_init lima_pp_fini (Some ''pp1'')"
| "lima_ip_desc lima_ip_pp2 = LIMA_IP_DESC ''pp2'' False False 0x0C000 0x0C000 lima_pp_init lima_pp_fini (Some ''pp2'')"
| "lima_ip_desc lima_ip_pp3 = LIMA_IP_DESC ''pp3'' False False 0x0E000 0x0E000 lima_pp_init lima_pp_fini (Some ''pp3'')"
| "lima_ip_desc lima_ip_pp4 = LIMA_IP_DESC ''pp4'' False False (- 1) 0x28000 lima_pp_init lima_pp_fini (Some ''pp4'')"
| "lima_ip_desc lima_ip_pp5 = LIMA_IP_DESC ''pp5'' False False (- 1) 0x2A000 lima_pp_init lima_pp_fini (Some ''pp5'')"
| "lima_ip_desc lima_ip_pp6 = LIMA_IP_DESC ''pp6'' False False (- 1) 0x2C000 lima_pp_init lima_pp_fini (Some ''pp6'')"
| "lima_ip_desc lima_ip_pp7 = LIMA_IP_DESC ''pp7'' False False (- 1) 0x2E000 lima_pp_init lima_pp_fini (Some ''pp7'')"
| "lima_ip_desc lima_ip_gpmmu = LIMA_IP_DESC ''gpmmu'' True True 0x03000 0x03000 lima_mmu_init lima_mmu_fini (Some ''gpmmu'')"
| "lima_ip_desc lima_ip_ppmmu0 = LIMA_IP_DESC ''ppmmu0'' True True 0x04000 0x04000 lima_mmu_init lima_mmu_fini (Some ''ppmmu0'')"
| "lima_ip_desc lima_ip_ppmmu1 = LIMA_IP_DESC ''ppmmu1'' False False 0x05000 0x05000 lima_mmu_init lima_mmu_fini (Some ''ppmmu1'')"
| "lima_ip_desc lima_ip_ppmmu2 = LIMA_IP_DESC ''ppmmu2'' False False 0x06000 0x06000 lima_mmu_init lima_mmu_fini (Some ''ppmmu2'')"
| "lima_ip_desc lima_ip_ppmmu3 = LIMA_IP_DESC ''ppmmu3'' False False 0x07000 0x07000 lima_mmu_init lima_mmu_fini (Some ''ppmmu3'')"
| "lima_ip_desc lima_ip_ppmmu4 = LIMA_IP_DESC ''ppmmu4'' False False (- 1) 0x1C000 lima_mmu_init lima_mmu_fini (Some ''ppmmu4'')"
| "lima_ip_desc lima_ip_ppmmu5 = LIMA_IP_DESC ''ppmmu5'' False False (- 1) 0x1D000 lima_mmu_init lima_mmu_fini (Some ''ppmmu5'')"
| "lima_ip_desc lima_ip_ppmmu6 = LIMA_IP_DESC ''ppmmu6'' False False (- 1) 0x1E000 lima_mmu_init lima_mmu_fini (Some ''ppmmu6'')"
| "lima_ip_desc lima_ip_ppmmu7 = LIMA_IP_DESC ''ppmmu7'' False False (- 1) 0x1F000 lima_mmu_init lima_mmu_fini (Some ''ppmmu7'')"
| "lima_ip_desc lima_ip_dlbu = LIMA_IP_DESC ''dlbu'' False True (- 1) 0x14000 lima_dlbu_init lima_dlbu_fini None"
| "lima_ip_desc lima_ip_bcast = LIMA_IP_DESC ''bcast'' False True (- 1) 0x13000 lima_bcast_init lima_bcast_fini None"
| "lima_ip_desc lima_ip_pp_bcast = LIMA_IP_DESC ''pp_bcast'' False True (- 1) 0x16000 lima_pp_bcast_init lima_pp_bcast_fini (Some ''pp'')"
| "lima_ip_desc lima_ip_ppmmu_bcast = LIMA_IP_DESC ''ppmmu_bcast'' False True (- 1) 0x15000 lima_mmu_init lima_mmu_fini None"

definition lima_ip_name :: "lima_ip_id \<Rightarrow> string" where
  "lima_ip_name i = di_name (lima_ip_desc i)"

section \<open>State\<close>

text \<open>
  The fields of \<open>struct lima_device\<close> that only this file and the platform code use. A clock or
  regulator pointer is there or null; how often each is enabled is counted, so that a missing
  or a second disable shows.
\<close>

record dev_st = ctx_st +
  dv_power :: power
  dv_clk_bus :: bool
  dv_clk_gpu :: bool
  dv_regulator :: bool
  dv_clk_count :: "string \<Rightarrow> int"
  dv_reg_count :: int
  dv_empty_vm :: nat
  dv_va_start :: nat
  dv_va_end :: nat
  dv_dlbu_cpu :: bool
  dv_slab :: "lima_pipe_id \<Rightarrow> task_slab"

text \<open>
  What the kernel and the board answer: \<open>devm_clk_get\<close> finds a clock of that name,
  \<open>clk_prepare_enable\<close>, \<open>devm_regulator_get\<close> (an error code, or \<open>0\<close> for a pointer),
  \<open>regulator_enable\<close>, \<open>platform_get_resource\<close>, \<open>devm_ioremap_resource\<close>,
  \<open>platform_get_irq_byname\<close>, \<open>alloc_ordered_workqueue\<close> and \<open>kmem_cache_create\<close> for a pipe.
\<close>

record board =
  bd_clk_get :: "string \<Rightarrow> bool"
  bd_clk_enable :: "string \<Rightarrow> int"
  bd_regulator_get :: int
  bd_regulator_enable :: int
  bd_resource :: bool
  bd_ioremap :: "int + u32"
  bd_irq :: "string \<Rightarrow> int"
  bd_workqueue :: "lima_pipe_id \<Rightarrow> bool"
  bd_slab :: "lima_pipe_id \<Rightarrow> bool"

section \<open>Clocks and regulator\<close>

definition clk_prepare_enable :: "board \<Rightarrow> string \<Rightarrow> 'a dev_st_scheme \<Rightarrow> int \<times> 'a dev_st_scheme" where
  "clk_prepare_enable B c s = (let err = bd_clk_enable B c in
     (err, if err = 0 then s\<lparr>dv_clk_count := (dv_clk_count s)(c := dv_clk_count s c + 1)\<rparr> else s))"

definition clk_disable_unprepare :: "string \<Rightarrow> 'a dev_st_scheme \<Rightarrow> 'a dev_st_scheme" where
  "clk_disable_unprepare c s = s\<lparr>dv_clk_count := (dv_clk_count s)(c := dv_clk_count s c - 1)\<rparr>"

definition lima_clk_init :: "board \<Rightarrow> 'a dev_st_scheme \<Rightarrow> int \<times> 'a dev_st_scheme" where
  "lima_clk_init B s =
     (let s = s\<lparr>dv_clk_bus := bd_clk_get B ''bus'', dv_clk_gpu := bd_clk_get B ''core''\<rparr>;
          (err, s) = (if dv_clk_bus s then clk_prepare_enable B ''bus'' s else (0, s)) in
      if err \<noteq> 0 then (err, s)
      else (let (err, s) = (if dv_clk_gpu s then clk_prepare_enable B ''core'' s else (0, s)) in
        if err \<noteq> 0 then (err, if dv_clk_bus s then clk_disable_unprepare ''bus'' s else s)
        else (0, s)))"

definition lima_clk_fini :: "'a dev_st_scheme \<Rightarrow> 'a dev_st_scheme" where
  "lima_clk_fini s =
     (let s = (if dv_clk_gpu s then clk_disable_unprepare ''core'' s else s) in
      if dv_clk_bus s then clk_disable_unprepare ''bus'' s else s)"

definition lima_regulator_init :: "board \<Rightarrow> 'a dev_st_scheme \<Rightarrow> int \<times> 'a dev_st_scheme" where
  "lima_regulator_init B s =
     (let r = bd_regulator_get B in
      if r < 0 then (if r = - ENODEV \<or> r = - EPROBE_DEFER \<or> r = - ENOENT then 0 else r, s\<lparr>dv_regulator := False\<rparr>)
      else (let s = s\<lparr>dv_regulator := True\<rparr>; r = bd_regulator_enable B in
        if r < 0 then (r, s) else (0, s\<lparr>dv_reg_count := dv_reg_count s + 1\<rparr>)))"

definition lima_regulator_fini :: "'a dev_st_scheme \<Rightarrow> 'a dev_st_scheme" where
  "lima_regulator_fini s = (if dv_regulator s then s\<lparr>dv_reg_count := dv_reg_count s - 1\<rparr> else s)"

section \<open>IP blocks\<close>

definition lima_init_ip :: "board \<Rightarrow> lima_ip_id \<Rightarrow> int hw" where
  "lima_init_ip B i = do {
     g \<leftarrow> gets dev_id;
     let desc = lima_ip_desc i;
     let offset = di_offset desc g;
     let must = di_must_have desc g;
     if offset < 0 then returnM 0
     else do {
       modify (\<lambda>d. ip_upd i (\<lambda>x. x\<lparr>ip_iomem := dev_iomem d + word_of_int offset\<rparr>) d);
       err \<leftarrow> (case di_irq_name desc of
           None \<Rightarrow> returnM 0
         | Some n \<Rightarrow> if bd_irq B n < 0 then returnM (bd_irq B n)
             else do { modify (ip_upd i (\<lambda>x. x\<lparr>ip_irq := bd_irq B n\<rparr>)); returnM 0 });
       if err < 0 then returnM (if must then err else 0)
       else do {
         err \<leftarrow> di_init desc i;
         if err = 0 then do { modify (ip_upd i (\<lambda>x. x\<lparr>ip_present := True\<rparr>)); returnM 0 }
         else returnM (if must then err else 0)
       }
     }
   }"

definition lima_fini_ip :: "lima_ip_id \<Rightarrow> unit hw" where
  "lima_fini_ip i = do {
     b \<leftarrow> gets (\<lambda>d. ip_present (dev_ip d i));
     whenM b (di_fini (lima_ip_desc i) i)
   }"

text \<open>The loop over the blocks; the second result is the index \<open>i\<close> it stopped at.\<close>

fun lima_init_ips :: "board \<Rightarrow> lima_ip_id list \<Rightarrow> nat \<Rightarrow> (int \<times> nat) hw" where
  "lima_init_ips B [] i = returnM (0, i)"
| "lima_init_ips B (x # xs) i = do {
     err \<leftarrow> lima_init_ip B x;
     if err \<noteq> 0 then returnM (err, i) else lima_init_ips B xs (Suc i)
   }"

section \<open>Pipes\<close>

definition pipe_push_gp :: "lima_device \<Rightarrow> lima_device" where
  "pipe_push_gp = pipe_upd lima_pipe_gp (\<lambda>y. y\<lparr>p_l2_cache := p_l2_cache y @ [lima_ip_l2_cache0],
     p_mmu := p_mmu y @ [lima_ip_gpmmu], p_processor := p_processor y @ [lima_ip_gp]\<rparr>)"

definition on_slab :: "lima_pipe_id \<Rightarrow> (task_slab \<Rightarrow> lima_device \<Rightarrow> int \<times> task_slab \<times> lima_device)
    \<Rightarrow> 'a dev_st_scheme \<Rightarrow> int \<times> 'a dev_st_scheme" where
  "on_slab p f s = (case f (dv_slab s p) (cs_dev s) of
     (r, sl, d) \<Rightarrow> (r, s\<lparr>dv_slab := (dv_slab s)(p := sl), cs_dev := d\<rparr>))"

definition lima_init_gp_pipe :: "board \<Rightarrow> 'a dev_st_scheme \<Rightarrow> (int \<times> 'a dev_st_scheme) option" where
  "lima_init_gp_pipe B s =
     (let (err, d) = lima_sched_pipe_init (bd_workqueue B lima_pipe_gp) lima_pipe_gp ''gp'' (cs_dev s);
          s = s\<lparr>cs_dev := d\<rparr> in
      if err \<noteq> 0 then Some (err, s)
      else (let s = s\<lparr>cs_dev := pipe_push_gp (cs_dev s)\<rparr>;
                (err, s) = on_slab lima_pipe_gp (lima_gp_pipe_init (bd_slab B lima_pipe_gp)) s in
        if err \<noteq> 0 then do {
          d \<leftarrow> lima_sched_pipe_fini lima_pipe_gp (cs_dev s);
          Some (err, s\<lparr>cs_dev := d\<rparr>)
        } else Some (0, s)))"

definition lima_fini_gp_pipe :: "'a dev_st_scheme \<Rightarrow> 'a dev_st_scheme option" where
  "lima_fini_gp_pipe s = do {
     let s = s\<lparr>dv_slab := (dv_slab s)(lima_pipe_gp := lima_gp_pipe_fini (dv_slab s lima_pipe_gp))\<rparr>;
     d \<leftarrow> lima_sched_pipe_fini lima_pipe_gp (cs_dev s);
     Some (s\<lparr>cs_dev := d\<rparr>)
   }"

text \<open>
  One round of the loop over the processors. The cache array of a pipe starts out null, so its
  entry \<open>i >> 2\<close> is set exactly when that many caches have been stored.
\<close>

definition LIMA_SCHED_PIPE_MAX_PROCESSOR :: nat where
  "LIMA_SCHED_PIPE_MAX_PROCESSOR = 8"

definition pp_l2_cache :: "lima_gpu_id \<Rightarrow> nat \<Rightarrow> lima_ip_id" where
  "pp_l2_cache g i = (case g of
     lima_gpu_mali400 \<Rightarrow> lima_ip_l2_cache0
   | lima_gpu_mali450 \<Rightarrow> if drop_bit 2 i = 0 then lima_ip_l2_cache1 else lima_ip_l2_cache2)"

definition pp_push :: "nat \<Rightarrow> lima_device \<Rightarrow> lima_device" where
  "pp_push i d =
     (let pp = lima_pps ! i; ppmmu = lima_ppmmus ! i; l2_cache = pp_l2_cache (dev_id d) i in
      if ip_present (dev_ip d pp) \<and> ip_present (dev_ip d ppmmu) \<and> ip_present (dev_ip d l2_cache) then
        pipe_upd lima_pipe_pp (\<lambda>y. y\<lparr>p_mmu := p_mmu y @ [ppmmu], p_processor := p_processor y @ [pp],
          p_l2_cache := (if drop_bit 2 i < length (p_l2_cache y) then p_l2_cache y else p_l2_cache y @ [l2_cache])\<rparr>) d
      else d)"

definition pp_bcast_set :: "lima_device \<Rightarrow> lima_device" where
  "pp_bcast_set d = (if ip_present (dev_ip d lima_ip_bcast) then
     pipe_upd lima_pipe_pp (\<lambda>y. y\<lparr>p_bcast_processor := Some lima_ip_pp_bcast, p_bcast_mmu := Some lima_ip_ppmmu_bcast\<rparr>) d
     else d)"

definition lima_init_pp_pipe :: "board \<Rightarrow> 'a dev_st_scheme \<Rightarrow> (int \<times> 'a dev_st_scheme) option" where
  "lima_init_pp_pipe B s =
     (let (err, d) = lima_sched_pipe_init (bd_workqueue B lima_pipe_pp) lima_pipe_pp ''pp'' (cs_dev s) in
      if err \<noteq> 0 then Some (err, s\<lparr>cs_dev := d\<rparr>)
      else (let d = fold pp_push [0..<LIMA_SCHED_PIPE_MAX_PROCESSOR] d;
                d = pp_bcast_set d;
                d = d\<lparr>dev_num_pp := length (p_processor (dev_pipe d lima_pipe_pp))\<rparr>;
                (err, s) = on_slab lima_pipe_pp (lima_pp_pipe_init (bd_slab B lima_pipe_pp)) (s\<lparr>cs_dev := d\<rparr>) in
        if err \<noteq> 0 then do {
          d \<leftarrow> lima_sched_pipe_fini lima_pipe_pp (cs_dev s);
          Some (err, s\<lparr>cs_dev := d\<rparr>)
        } else Some (0, s)))"

definition lima_fini_pp_pipe :: "'a dev_st_scheme \<Rightarrow> 'a dev_st_scheme option" where
  "lima_fini_pp_pipe s = do {
     let s = s\<lparr>dv_slab := (dv_slab s)(lima_pipe_pp := lima_pp_pipe_fini (dv_slab s lima_pipe_pp))\<rparr>;
     d \<leftarrow> lima_sched_pipe_fini lima_pipe_pp (cs_dev s);
     Some (s\<lparr>cs_dev := d\<rparr>)
   }"

section \<open>The device\<close>

text \<open>The error labels of \<open>lima_device_init\<close>, each falling through to the next.\<close>

definition dev_err_out0 :: "'a dev_st_scheme \<Rightarrow> 'a dev_st_scheme" where
  "dev_err_out0 s = s\<lparr>dv_power := lima_platform_power_off (dv_power s)\<rparr>"

definition dev_err_out1 :: "'a dev_st_scheme \<Rightarrow> 'a dev_st_scheme" where
  "dev_err_out1 s = dev_err_out0 (lima_clk_fini s)"

definition dev_err_out2 :: "'a dev_st_scheme \<Rightarrow> 'a dev_st_scheme" where
  "dev_err_out2 s = dev_err_out1 (lima_regulator_fini s)"

definition dev_err_out3 :: "'a dev_st_scheme \<Rightarrow> 'a dev_st_scheme option" where
  "dev_err_out3 s = map_option dev_err_out2 (lima_vm_put (dv_empty_vm s) s)"

definition dev_err_out4 :: "'a dev_st_scheme \<Rightarrow> 'a dev_st_scheme option" where
  "dev_err_out4 s = do {
     s \<leftarrow> (if dv_dlbu_cpu s then dma_free_wc LIMA_PAGE_SIZE (dev_dlbu_dma (cs_dev s)) s else Some s);
     dev_err_out3 s
   }"

definition dev_err_out5 :: "nat \<Rightarrow> 'a dev_st_scheme \<Rightarrow> 'a dev_st_scheme option" where
  "dev_err_out5 i s = dev_err_out4 (on_dev (forM lima_fini_ip (rev (take i lima_ips))) s)"

definition dev_err_out6 :: "nat \<Rightarrow> 'a dev_st_scheme \<Rightarrow> 'a dev_st_scheme option" where
  "dev_err_out6 i s = do { s \<leftarrow> lima_fini_gp_pipe s; dev_err_out5 i s }"

definition dev_fail :: "int \<Rightarrow> 's option \<Rightarrow> (int \<times> 's) option" where
  "dev_fail err r = map_option (\<lambda>s. (err, s)) r"

text \<open>
  \<open>lima_device_init\<close> from the empty address space on, in two parts: the address ranges and the
  register window; the blocks and the pipes.
\<close>

definition dev_init_blocks :: "board \<Rightarrow> 'a dev_st_scheme \<Rightarrow> (int \<times> 'a dev_st_scheme) option" where
  "dev_init_blocks B s =
     (let ((err, i), d) = run_state (lima_init_ips B lima_ips 0) (cs_dev s); s = s\<lparr>cs_dev := d\<rparr> in
      if err \<noteq> 0 then dev_fail err (dev_err_out5 i s)
      else do {
        (err, s) \<leftarrow> lima_init_gp_pipe B s;
        if err \<noteq> 0 then dev_fail err (dev_err_out5 i s)
        else do {
          (err, s) \<leftarrow> lima_init_pp_pipe B s;
          if err \<noteq> 0 then dev_fail err (dev_err_out6 i s) else Some (0, s)
        }
      })"

definition dev_init_window :: "board \<Rightarrow> 'a dev_st_scheme \<Rightarrow> (int \<times> 'a dev_st_scheme) option" where
  "dev_init_window B s =
     (if \<not> bd_resource B then dev_fail (- ENODEV) (dev_err_out4 s)
      else (case bd_ioremap B of
        Inl err \<Rightarrow> dev_fail err (dev_err_out4 s)
      | Inr base \<Rightarrow> dev_init_blocks B (s\<lparr>cs_dev := (cs_dev s)\<lparr>dev_iomem := base\<rparr>\<rparr>)))"

definition dev_init_vas :: "board \<Rightarrow> 'a dev_st_scheme \<Rightarrow> (int \<times> 'a dev_st_scheme) option" where
  "dev_init_vas B s = (case dev_id (cs_dev s) of
     lima_gpu_mali450 \<Rightarrow>
       (case dma_alloc_wc LIMA_PAGE_SIZE (s\<lparr>dv_va_start := 0, dv_va_end := unat LIMA_VA_RESERVE_START\<rparr>) of
         (None, s) \<Rightarrow> dev_fail (- ENOMEM) (dev_err_out3 (s\<lparr>dv_dlbu_cpu := False\<rparr>))
       | (Some d, s) \<Rightarrow>
           dev_init_window B (s\<lparr>dv_dlbu_cpu := True, cs_dev := (cs_dev s)\<lparr>dev_dlbu_dma := d\<rparr>\<rparr>))
   | lima_gpu_mali400 \<Rightarrow> dev_init_window B (s\<lparr>dv_va_start := 0, dv_va_end := unat LIMA_VA_RESERVE_END\<rparr>))"

text \<open>\<open>f\<close> samples the power domain.\<close>

definition lima_device_init ::
    "(sprd_pmu \<Rightarrow> (u32 \<times> sprd_pmu) option) \<Rightarrow> board \<Rightarrow> 'a dev_st_scheme \<Rightarrow> (int \<times> 'a dev_st_scheme) option" where
  "lima_device_init f B s = do {
     (err, w) \<leftarrow> lima_platform_power_on f (dv_power s);
     let s = s\<lparr>dv_power := w\<rparr>;
     if err \<noteq> 0 then Some (err, s)
     else (let (err, s) = lima_clk_init B s in
       if err \<noteq> 0 then Some (err, dev_err_out0 s)
       else (let (err, s) = lima_regulator_init B s in
         if err \<noteq> 0 then Some (err, dev_err_out1 s)
         else do {
           (vm, s) \<leftarrow> lima_vm_create (if dv_dlbu_cpu s then Some (dev_dlbu_dma (cs_dev s)) else None)
             (dv_va_start s) (dv_va_end s) s;
           case vm of
             None \<Rightarrow> Some (- ENOMEM, dev_err_out2 s)
           | Some vm \<Rightarrow> do {
               v \<leftarrow> vs_vms s vm;
               dev_init_vas B (s\<lparr>dv_empty_vm := vm, cs_dev := (cs_dev s)\<lparr>dev_empty_vm_pd := vm_pd_dma v\<rparr>\<rparr>)
             }
         }))
   }"

definition lima_device_fini :: "'a dev_st_scheme \<Rightarrow> 'a dev_st_scheme option" where
  "lima_device_fini s = do {
     s \<leftarrow> lima_fini_pp_pipe s;
     s \<leftarrow> lima_fini_gp_pipe s;
     let s = on_dev (forM lima_fini_ip (rev lima_ips)) s;
     s \<leftarrow> (if dv_dlbu_cpu s then dma_free_wc LIMA_PAGE_SIZE (dev_dlbu_dma (cs_dev s)) s else Some s);
     s \<leftarrow> lima_vm_put (dv_empty_vm s) s;
     let s = lima_regulator_fini s;
     let s = lima_clk_fini s;
     Some (s\<lparr>dv_power := lima_platform_power_off (dv_power s)\<rparr>)
   }"

end
