(* ===== verification/Lima_Drv.thy ===== *)
theory Lima_Drv
  imports Lima_Publish Lima_Device
begin

text \<open>
  The driver's entry points, \<open>lima_drv.c\<close>: the seven ioctls, opening and closing a file, loading
  and unloading the device, and the module.
\<close>

section \<open>State\<close>

text \<open>\<open>struct lima_drm_priv\<close>, the private data of an open file, and the block it lives in.\<close>

record lima_drm_priv =
  pr_block :: nat
  pr_vm :: nat
  pr_ctx_mgr :: lima_ctx_mgr

text \<open>
  The memory of the calling process: what \<open>copy_from_user\<close> reads at an address, \<open>None\<close> for a
  fault; an array of \<open>n\<close> objects, and a number of bytes as words.
\<close>

record user_mem =
  um_bos :: "u64 \<Rightarrow> nat \<Rightarrow> drm_lima_gem_submit_bo list option"
  um_words :: "u64 \<Rightarrow> nat \<Rightarrow> u32 list option"

definition user_mem_ok :: "user_mem \<Rightarrow> bool" where
  "user_mem_ok U \<longleftrightarrow> (\<forall>a n l. um_bos U a n = Some l \<longrightarrow> length l = n) \<and>
     (\<forall>a n w. um_words U a n = Some w \<longrightarrow> 4 * length w = n)"

section \<open>Parameters\<close>

definition lima_ioctl_get_param :: "lima_device \<Rightarrow> drm_lima_get_param \<Rightarrow> int \<times> drm_lima_get_param" where
  "lima_ioctl_get_param d args =
     (if gp_param args = DRM_LIMA_PARAM_GPU_ID then
        (0, args\<lparr>gp_value := (case dev_id d of
           lima_gpu_mali400 \<Rightarrow> DRM_LIMA_PARAM_GPU_ID_MALI400
         | lima_gpu_mali450 \<Rightarrow> DRM_LIMA_PARAM_GPU_ID_MALI450)\<rparr>)
      else if gp_param args = DRM_LIMA_PARAM_NUM_PP then (0, args\<lparr>gp_value := of_nat (dev_num_pp d)\<rparr>)
      else if gp_param args = DRM_LIMA_PARAM_GP_VERSION then (0, args\<lparr>gp_value := ucast (dev_gp_version d)\<rparr>)
      else if gp_param args = DRM_LIMA_PARAM_PP_VERSION then (0, args\<lparr>gp_value := ucast (dev_pp_version d)\<rparr>)
      else (- EINVAL, args))"

section \<open>Buffer objects\<close>

definition lima_ioctl_gem_create ::
    "'a obj_st_scheme drm_core \<Rightarrow> int \<Rightarrow> drm_lima_gem_create \<Rightarrow> 'a obj_st_scheme
      \<Rightarrow> (int \<times> drm_lima_gem_create \<times> 'a obj_st_scheme) option" where
  "lima_ioctl_gem_create D junk args s =
     (if gc_flags args \<noteq> 0 \<or> gc_pad args \<noteq> 0 then Some (- EINVAL, args, s)
      else if gc_size args = 0 then Some (- EINVAL, args, s)
      else do {
        (err, h, s) \<leftarrow> lima_gem_create_handle D junk (gc_size args) (gc_flags args) (gc_handle args) s;
        Some (err, args\<lparr>gc_handle := h\<rparr>, s)
      })"

definition lima_ioctl_gem_info ::
    "handles \<Rightarrow> lima_drm_priv \<Rightarrow> drm_lima_gem_info \<Rightarrow> 'a obj_st_scheme \<Rightarrow> (int \<times> drm_lima_gem_info \<times> 'a obj_st_scheme) option" where
  "lima_ioctl_gem_info H priv args s = do {
     (r, s) \<leftarrow> lima_gem_get_info H (pr_vm priv) (gi_handle args) s;
     Some (case r of Inl err \<Rightarrow> (err, args, s) | Inr (va, offset) \<Rightarrow> (0, args\<lparr>gi_va := va, gi_offset := offset\<rparr>, s))
   }"

definition lima_ioctl_gem_wait ::
    "'a ctx_st_scheme wait_event \<Rightarrow> (u64 \<Rightarrow> u32) \<Rightarrow> u64 \<Rightarrow> handles \<Rightarrow> drm_lima_gem_wait \<Rightarrow> 'a ctx_st_scheme
      \<Rightarrow> (int \<times> 'a ctx_st_scheme) option" where
  "lima_ioctl_gem_wait W ns2j now H args s = lima_gem_wait W ns2j now H (gw_handle args) (gw_op args) (gw_timeout_ns args) s"

section \<open>Contexts\<close>

definition lima_ioctl_ctx_create ::
    "bool \<Rightarrow> ((nat \<times> nat) list \<Rightarrow> int) \<Rightarrow> lima_drm_priv \<Rightarrow> drm_lima_ctx_create \<Rightarrow> 'a ctx_st_scheme
      \<Rightarrow> (int \<times> drm_lima_ctx_create \<times> lima_drm_priv \<times> 'a ctx_st_scheme) option" where
  "lima_ioctl_ctx_create pre alloc priv args s =
     (if cc_pad args \<noteq> 0 then Some (- EINVAL, args, priv, s)
      else do {
        (r, mgr, s) \<leftarrow> lima_ctx_create pre alloc (pr_ctx_mgr priv) s;
        Some (case r of
          Inl err \<Rightarrow> (err, args, priv\<lparr>pr_ctx_mgr := mgr\<rparr>, s)
        | Inr i \<Rightarrow> (0, args\<lparr>cc_id := of_nat i\<rparr>, priv\<lparr>pr_ctx_mgr := mgr\<rparr>, s))
      })"

definition lima_ioctl_ctx_free ::
    "'a ctx_st_scheme sleeper \<Rightarrow> lima_drm_priv \<Rightarrow> drm_lima_ctx_free \<Rightarrow> 'a ctx_st_scheme
      \<Rightarrow> (int \<times> lima_drm_priv \<times> 'a ctx_st_scheme) option" where
  "lima_ioctl_ctx_free Z priv args s =
     (if cf_pad args \<noteq> 0 then Some (- EINVAL, priv, s)
      else do {
        (err, mgr, s) \<leftarrow> lima_ctx_free Z (pr_ctx_mgr priv) (unat (cf_id args)) s;
        Some (err, priv\<lparr>pr_ctx_mgr := mgr\<rparr>, s)
      })"

section \<open>Submission\<close>

text \<open>\<open>ldev->pipe + args->pipe\<close>, below \<open>lima_pipe_num\<close>.\<close>

definition pipe_of_arg :: "u32 \<Rightarrow> lima_pipe_id option" where
  "pipe_of_arg p = (if p = LIMA_PIPE_GP then Some lima_pipe_gp else if p = LIMA_PIPE_PP then Some lima_pipe_pp else None)"

text \<open>The task as \<open>kmem_cache_zalloc\<close> returns it, with the frame behind it.\<close>

definition zeroed_task :: lima_sched_task where
  "zeroed_task = \<lparr>t_pipe = lima_pipe_gp, t_ctx = None, t_context = 0, t_vm = 0, t_frame = [], t_deps = [],
     t_deps_arr = None, t_bos = [], t_bos_arr = None, t_fence = 0\<rparr>"

text \<open>
  The structure \<open>submit\<close> that the ioctl fills for \<open>lima_gem_submit\<close>.
\<close>

definition submit_of_args :: "drm_lima_gem_submit \<Rightarrow> nat \<Rightarrow> lima_pipe_id \<Rightarrow> drm_lima_gem_submit_bo list \<Rightarrow> nat \<Rightarrow> lima_submit" where
  "submit_of_args args ctx p bos t = \<lparr>su_ctx = ctx, su_pipe = p, su_flags = gs_flags args, su_bos = bos,
     su_in_sync0 = gs_in_sync0 args, su_in_sync1 = gs_in_sync1 args, su_out_sync = gs_out_sync args, su_task = t\<rparr>"

text \<open>From the allocation of the task to the label \<open>out_task\<close>, inclusive.\<close>

definition ioctl_submit_task ::
    "user_mem \<Rightarrow> 'a ctx_st_scheme sleeper \<Rightarrow> ('a ctx_st_scheme \<Rightarrow> 'a ctx_st_scheme) \<Rightarrow> handles \<Rightarrow> nat \<Rightarrow> drm_lima_gem_submit
      \<Rightarrow> nat \<Rightarrow> lima_pipe_id \<Rightarrow> drm_lima_gem_submit_bo list \<Rightarrow> 'a ctx_st_scheme \<Rightarrow> (int \<times> 'a ctx_st_scheme) option" where
  "ioctl_submit_task U Z E H vm args ctx p bos s = (case kzalloc s of
     (None, s) \<Rightarrow> Some (- ENOMEM, s)
   | (Some t, s) \<Rightarrow> do {
       (err, s) \<leftarrow> (case um_words U (gs_frame args) (unat (gs_frame_size args)) of
           None \<Rightarrow> Some (- EFAULT, task_set t (Some zeroed_task) s)
         | Some w \<Rightarrow> lima_gem_submit Z E H vm (submit_of_args args ctx p bos t)
             (task_set t (Some (zeroed_task\<lparr>t_frame := w\<rparr>)) s));
       if err \<noteq> 0 then do { s \<leftarrow> kfree (Some t) (task_set t None s); Some (err, s) }
       else Some (0, s)
     })"

text \<open>From the array of objects to the label \<open>out_bos\<close>.\<close>

definition ioctl_submit_bos ::
    "user_mem \<Rightarrow> 'a ctx_st_scheme sleeper \<Rightarrow> ('a ctx_st_scheme \<Rightarrow> 'a ctx_st_scheme) \<Rightarrow> handles \<Rightarrow> nat \<Rightarrow> drm_lima_gem_submit
      \<Rightarrow> nat \<Rightarrow> lima_pipe_id \<Rightarrow> 'a ctx_st_scheme \<Rightarrow> (int \<times> 'a ctx_st_scheme) option" where
  "ioctl_submit_bos U Z E H vm args ctx p s = (case kzalloc s of
     (None, s) \<Rightarrow> Some (- ENOMEM, s)
   | (Some barr, s) \<Rightarrow> do {
       (err, s) \<leftarrow> (case um_bos U (gs_bos args) (unat (gs_nr_bos args)) of
           None \<Rightarrow> Some (- EFAULT, s)
         | Some bos \<Rightarrow> ioctl_submit_task U Z E H vm args ctx p bos s);
       s \<leftarrow> kfree (Some barr) s;
       Some (err, s)
     })"

definition lima_ioctl_gem_submit ::
    "user_mem \<Rightarrow> 'a ctx_st_scheme sleeper \<Rightarrow> ('a ctx_st_scheme \<Rightarrow> 'a ctx_st_scheme) \<Rightarrow> handles \<Rightarrow> lima_drm_priv
      \<Rightarrow> drm_lima_gem_submit \<Rightarrow> 'a ctx_st_scheme \<Rightarrow> (int \<times> 'a ctx_st_scheme) option" where
  "lima_ioctl_gem_submit U Z E H priv args s = (case pipe_of_arg (gs_pipe args) of
     None \<Rightarrow> Some (- EINVAL, s)
   | Some p \<Rightarrow>
       if gs_nr_bos args = 0 then Some (- EINVAL, s)
       else if gs_flags args AND NOT LIMA_SUBMIT_FLAG_EXPLICIT_FENCE \<noteq> 0 then Some (- EINVAL, s)
       else if unat (gs_frame_size args) \<noteq> p_frame_size (pipe_of p s) then Some (- EINVAL, s)
       else do {
         (ctx, s) \<leftarrow> lima_ctx_get (pr_ctx_mgr priv) (unat (gs_ctx args)) s;
         case ctx of
           None \<Rightarrow> Some (- EINVAL, s)
         | Some ctx \<Rightarrow> do {
             (err, s) \<leftarrow> ioctl_submit_bos U Z E H (pr_vm priv) args ctx p s;
             if err \<noteq> 0 then do { s \<leftarrow> lima_ctx_put Z (Some ctx) s; Some (err, s) } else Some (0, s)
           }
       })"

section \<open>Files\<close>

definition lima_drm_open :: "'a dev_st_scheme \<Rightarrow> ((int + lima_drm_priv) \<times> 'a dev_st_scheme) option" where
  "lima_drm_open s = (case kzalloc s of
     (None, s) \<Rightarrow> Some (Inl (- ENOMEM), s)
   | (Some k, s) \<Rightarrow> do {
       (vm, s) \<leftarrow> lima_vm_create (if dv_dlbu_cpu s then Some (dev_dlbu_dma (cs_dev s)) else None) (dv_va_start s) (dv_va_end s) s;
       case vm of
         None \<Rightarrow> do { s \<leftarrow> kfree (Some k) s; Some (Inl (- ENOMEM), s) }
       | Some vm \<Rightarrow> Some (Inr \<lparr>pr_block = k, pr_vm = vm, pr_ctx_mgr = lima_ctx_mgr_init\<rparr>, s)
     })"

definition lima_drm_postclose :: "'a ctx_st_scheme sleeper \<Rightarrow> lima_drm_priv \<Rightarrow> 'a ctx_st_scheme \<Rightarrow> 'a ctx_st_scheme option" where
  "lima_drm_postclose Z priv s = do {
     s \<leftarrow> lima_ctx_mgr_fini Z (pr_ctx_mgr priv) s;
     s \<leftarrow> lima_vm_put (pr_vm priv) s;
     kfree (Some (pr_block priv)) s
   }"

section \<open>The device\<close>

definition lima_drm_load ::
    "(sprd_pmu \<Rightarrow> (u32 \<times> sprd_pmu) option) \<Rightarrow> board \<Rightarrow> 'a dev_st_scheme \<Rightarrow> (int \<times> 'a dev_st_scheme) option" where
  "lima_drm_load f B s = do {
     (err, s) \<leftarrow> lima_device_init f B s;
     if err \<noteq> 0 then Some (err, s) else Some (0, s)
   }"

definition lima_drm_unload :: "'a dev_st_scheme \<Rightarrow> (int \<times> 'a dev_st_scheme) option" where
  "lima_drm_unload s = do { s \<leftarrow> lima_device_fini s; Some (0, s) }"

definition lima_dt_match :: "(string \<times> lima_gpu_id) list" where
  "lima_dt_match = [(''arm,mali-400'', lima_gpu_mali400), (''arm,mali-450'', lima_gpu_mali450)]"

text \<open>
  The GPU of the probe: the default, the match (whose data is null for the first entry), the
  platform data. \<open>of_match_node\<close> of the kernel picks an entry of the table.
\<close>

definition probe_gpu_id :: "((string \<times> lima_gpu_id) list \<Rightarrow> (string \<times> lima_gpu_id) option) \<Rightarrow> lima_gpu_id option \<Rightarrow> lima_gpu_id" where
  "probe_gpu_id of_match_node pdata =
     (let i = lima_gpu_mali400;
          i = (case of_match_node lima_dt_match of
                 Some (c, g) \<Rightarrow> if g \<noteq> lima_gpu_mali400 then g else i
               | None \<Rightarrow> i) in
      case pdata of Some g \<Rightarrow> g | None \<Rightarrow> i)"

text \<open>\<open>struct lima_device\<close> as \<open>kzalloc\<close> returns it; the bus and the tasks are not part of it.\<close>

definition zeroed_pipe :: lima_sched_pipe where
  "zeroed_pipe = \<lparr>p_name = [], p_mmu = [], p_l2_cache = [], p_processor = [], p_bcast_processor = None, p_bcast_mmu = None,
     p_done = 0, p_error = False, p_task = 0, p_current_task = None, p_current_vm = None, p_frame_size = 0, p_queue = [],
     p_wq = False, p_run_pending = False, p_done_pending = False, p_timeout_pending = False\<rparr>"

definition zeroed_ip :: lima_ip where
  "zeroed_ip = \<lparr>ip_present = False, ip_iomem = 0, ip_irq = 0, ip_async_reset = False\<rparr>"

definition zeroed_device :: "'a dev_st_scheme \<Rightarrow> 'a dev_st_scheme" where
  "zeroed_device s = s\<lparr>dv_clk_bus := False, dv_clk_gpu := False, dv_regulator := False, dv_empty_vm := 0, dv_va_start := 0,
     dv_va_end := 0, dv_dlbu_cpu := False,
     cs_dev := (cs_dev s)\<lparr>dev_id := lima_gpu_mali400, dev_gp_version := 0, dev_pp_version := 0, dev_num_pp := 0, dev_iomem := 0,
       dev_ip := (\<lambda>_. zeroed_ip), dev_pipe := (\<lambda>_. zeroed_pipe), dev_empty_vm_pd := 0, dev_dlbu_dma := 0\<rparr>\<rparr>"

text \<open>
  \<open>drm_platform_init\<close> and \<open>drm_platform_exit\<close> are the DRM core's: the first calls \<open>lima_drm_load\<close>
  unless it fails before and returns its code, the second calls \<open>lima_drm_unload\<close>. The
  result of a probe is its code and, on success, the block of the device.
\<close>

type_synonym 's platform_init = "('s \<Rightarrow> (int \<times> 's) option) \<Rightarrow> 's \<Rightarrow> (int \<times> 's) option"

definition platform_init_ok :: "'s platform_init \<Rightarrow> bool" where
  "platform_init_ok P \<longleftrightarrow> (\<forall>load s. P load s = load s \<or> (\<exists>e. e \<noteq> 0 \<and> P load s = Some (e, s)))"

definition lima_pdev_probe ::
    "'a dev_st_scheme platform_init \<Rightarrow> ((string \<times> lima_gpu_id) list \<Rightarrow> (string \<times> lima_gpu_id) option) \<Rightarrow> lima_gpu_id option
      \<Rightarrow> (sprd_pmu \<Rightarrow> (u32 \<times> sprd_pmu) option) \<Rightarrow> board \<Rightarrow> 'a dev_st_scheme \<Rightarrow> (int \<times> nat option \<times> 'a dev_st_scheme) option" where
  "lima_pdev_probe drm_platform_init of_match_node pdata f B s = (case kzalloc s of
     (None, s) \<Rightarrow> Some (- ENOMEM, None, s)
   | (Some ldev, s) \<Rightarrow> do {
       let s = zeroed_device s;
       let s = s\<lparr>cs_dev := (cs_dev s)\<lparr>dev_id := probe_gpu_id of_match_node pdata\<rparr>\<rparr>;
       (err, s) \<leftarrow> drm_platform_init (lima_drm_load f B) s;
       if err \<noteq> 0 then do { s \<leftarrow> kfree (Some ldev) s; Some (err, None, s) } else Some (0, Some ldev, s)
     })"

definition lima_pdev_remove ::
    "(('a dev_st_scheme \<Rightarrow> (int \<times> 'a dev_st_scheme) option) \<Rightarrow> 'a dev_st_scheme \<Rightarrow> (int \<times> 'a dev_st_scheme) option) \<Rightarrow> nat
      \<Rightarrow> 'a dev_st_scheme \<Rightarrow> (int \<times> 'a dev_st_scheme) option" where
  "lima_pdev_remove drm_platform_exit ldev s = do {
     (r, s) \<leftarrow> drm_platform_exit lima_drm_unload s;
     s \<leftarrow> kfree (Some ldev) s;
     Some (0, s)
   }"

section \<open>The module\<close>

text \<open>\<open>platform_driver_register\<close> probes the devices that are there; its code is returned.\<close>

definition lima_init :: "bool \<Rightarrow> ('s \<Rightarrow> (int \<times> 's) option) \<Rightarrow> 's \<Rightarrow> (int \<times> bool \<times> 's) option" where
  "lima_init ok platform_driver_register s =
     (let (ret, slab) = lima_sched_slab_init ok in
      if ret \<noteq> 0 then Some (ret, slab, s)
      else do {
        (ret, s) \<leftarrow> platform_driver_register s;
        Some (ret, if ret \<noteq> 0 then lima_sched_slab_fini slab else slab, s)
      })"

definition lima_exit :: "('s \<Rightarrow> 's option) \<Rightarrow> bool \<Rightarrow> 's \<Rightarrow> (bool \<times> 's) option" where
  "lima_exit platform_driver_unregister slab s = do {
     s \<leftarrow> platform_driver_unregister s;
     Some (lima_sched_slab_fini slab, s)
   }"

end
