(* ===== verification/Lima_Boot.thy ===== *)
theory Lima_Boot
  imports Lima_Device
begin

text \<open>
  What bringing a device up establishes, and that a bring-up that fails and a take-down give
  back everything that was taken.
\<close>

section \<open>The blocks\<close>

text \<open>Initialising a block leaves the pipes, the tasks and the table of blocks alone.\<close>

definition boot_keeps :: "lima_device \<Rightarrow> lima_device \<Rightarrow> bool" where
  "boot_keeps d d' \<longleftrightarrow> dev_pipe d' = dev_pipe d \<and> dev_id d' = dev_id d \<and> dev_iomem d' = dev_iomem d \<and>
     dev_dlbu_dma d' = dev_dlbu_dma d \<and> bus_resp d' = bus_resp d \<and> dev_request_irq d' = dev_request_irq d \<and>
     (\<forall>i. ip_present (dev_ip d' i) = ip_present (dev_ip d i) \<and> ip_iomem (dev_ip d' i) = ip_iomem (dev_ip d i))"

lemma dev_iomem_log [simp]: "dev_iomem (log_io e d) = dev_iomem d"
  by (simp add: log_io_def)

lemma dev_iomem_ip_upd [simp]: "dev_iomem (ip_upd i f d) = dev_iomem d"
  by (simp add: ip_upd_def)

interpretation bk: hw_frame boot_keeps
  by unfold_locales (auto simp: boot_keeps_def)

named_theorems boot_intros \<open>the operation leaves the bring-up state alone\<close>
lemmas boot_blocks [boot_intros] = bk.blocks

lemma boot_async [boot_intros]: "keeping boot_keeps (set_async_reset i b)"
  by (simp add: set_async_reset_def keeping_def boot_keeps_def)

lemma boot_reset_waits [boot_intros]: "keeping boot_keeps (lima_gp_soft_reset_async_wait i)"
  "keeping boot_keeps (lima_pp_soft_reset_async_wait_one i)"
  by (auto simp: lima_gp_soft_reset_async_wait_def lima_pp_soft_reset_async_wait_one_def
      lima_pp_soft_reset_poll_def intro!: boot_intros)

lemma boot_wait_all [boot_intros]: "keeping boot_keeps (pp_wait_all ks e)"
  by (induction ks arbitrary: e) (auto intro!: boot_intros)

lemma boot_version [boot_intros]: "keeping boot_keeps (modify (\<lambda>d. d\<lparr>dev_gp_version := v\<rparr>))"
  "keeping boot_keeps (modify (\<lambda>d. d\<lparr>dev_pp_version := v\<rparr>))"
  by (simp_all add: keeping_def boot_keeps_def)

lemma boot_inits:
  "keeping boot_keeps (lima_pmu_init i)" "keeping boot_keeps (lima_l2_cache_init i)"
  "keeping boot_keeps (lima_gp_init i)" "keeping boot_keeps (lima_pp_init i)"
  "keeping boot_keeps (lima_mmu_init i)" "keeping boot_keeps (lima_dlbu_init i)"
  "keeping boot_keeps (lima_bcast_init i)" "keeping boot_keeps (lima_pp_bcast_init i)"
  by (auto simp: lima_pmu_init_def lima_pmu_wait_cmd_def lima_l2_cache_init_def lima_l2_cache_flush_def
      lima_l2_cache_wait_idle_def lima_gp_init_def lima_gp_print_version_def lima_gp_soft_reset_async_def
      lima_pp_init_def lima_pp_print_version_def lima_pp_soft_reset_async_def lima_pp_soft_reset_async_wait_def
      lima_mmu_init_def lima_mmu_send_command_def lima_dlbu_init_def lima_bcast_init_def lima_pp_bcast_init_def
      intro!: boot_intros)

lemma boot_init: "keeping boot_keeps (di_init (lima_ip_desc i) j)"
  by (cases i) (simp_all add: LIMA_IP_DESC_def boot_inits)

lemma fini_ip_nothing: "exec (lima_fini_ip i) d = d"
  by (cases i) (simp_all add: lima_fini_ip_def LIMA_IP_DESC_def lima_pmu_fini_def lima_l2_cache_fini_def
      lima_gp_fini_def lima_pp_fini_def lima_mmu_fini_def lima_dlbu_fini_def lima_bcast_fini_def lima_pp_bcast_fini_def)

lemma fini_ips_nothing [simp]: "exec (forM lima_fini_ip ks) d = d"
  by (rule forM_preserves) (simp_all add: fini_ip_nothing)

lemma must_offset: "di_must_have (lima_ip_desc i) g \<Longrightarrow> 0 \<le> di_offset (lima_ip_desc i) g"
  by (cases i; cases g) (simp_all add: LIMA_IP_DESC_def)

text \<open>
  The blocks that are present are blocks the GPU has, at their offsets in the register window.
  A step of the loop keeps that, loses no block, and leaves alone what \<open>ips_beside\<close> lists.
\<close>

definition ips_ok :: "lima_device \<Rightarrow> bool" where
  "ips_ok d \<longleftrightarrow> (\<forall>i. ip_present (dev_ip d i) \<longrightarrow> 0 \<le> di_offset (lima_ip_desc i) (dev_id d) \<and>
     ip_iomem (dev_ip d i) = dev_iomem d + word_of_int (di_offset (lima_ip_desc i) (dev_id d)))"

definition ips_beside :: "lima_device \<Rightarrow> lima_device \<Rightarrow> bool" where
  "ips_beside d d' \<longleftrightarrow> dev_pipe d' = dev_pipe d \<and> dev_id d' = dev_id d \<and> dev_iomem d' = dev_iomem d \<and>
     dev_dlbu_dma d' = dev_dlbu_dma d \<and> bus_resp d' = bus_resp d \<and> dev_request_irq d' = dev_request_irq d \<and>
     (\<forall>i. ip_present (dev_ip d i) \<longrightarrow> ip_present (dev_ip d' i)) \<and>
     (ips_ok d \<longrightarrow> ips_ok d')"

lemma ips_beside_refl [simp]: "ips_beside d d"
  by (simp add: ips_beside_def)

lemma ips_beside_trans [trans]: "ips_beside a b \<Longrightarrow> ips_beside b c \<Longrightarrow> ips_beside a c"
  by (simp add: ips_beside_def)

lemma boot_beside: "boot_keeps d d' \<Longrightarrow> ips_beside d d'"
  by (simp add: boot_keeps_def ips_beside_def ips_ok_def)

lemma ips_irq_beside: "ips_beside d (ip_upd i (\<lambda>x. x\<lparr>ip_irq := n\<rparr>) d)"
  by (simp add: ips_beside_def ips_ok_def)

lemma ips_present_beside:
  assumes "ips_beside d e" and "0 \<le> di_offset (lima_ip_desc i) (dev_id d)"
    and "ip_iomem (dev_ip e i) = dev_iomem d + word_of_int (di_offset (lima_ip_desc i) (dev_id d))"
  shows "ips_beside d (ip_upd i (\<lambda>x. x\<lparr>ip_present := True\<rparr>) e)"
  using assms by (auto simp: ips_beside_def ips_ok_def)

lemma init_ip_spec:
  shows "ips_beside d (exec (lima_init_ip B i) d)"
    and "result (lima_init_ip B i) d = 0 \<Longrightarrow> di_must_have (lima_ip_desc i) (dev_id d) \<Longrightarrow>
      ip_present (dev_ip (exec (lima_init_ip B i) d) i)"
proof -
  let ?off = "di_offset (lima_ip_desc i) (dev_id d)"
  let ?d1 = "ip_upd i (\<lambda>x. x\<lparr>ip_iomem := dev_iomem d + word_of_int ?off\<rparr>) d"
  define e where "e = exec (case di_irq_name (lima_ip_desc i) of
           None \<Rightarrow> returnM 0
         | Some n \<Rightarrow> if bd_irq B n < 0 then returnM (bd_irq B n)
             else do { modify (ip_upd i (\<lambda>x. x\<lparr>ip_irq := bd_irq B n\<rparr>)); returnM 0 }) ?d1"
  define r where "r = result (case di_irq_name (lima_ip_desc i) of
           None \<Rightarrow> returnM 0
         | Some n \<Rightarrow> if bd_irq B n < 0 then returnM (bd_irq B n)
             else do { modify (ip_upd i (\<lambda>x. x\<lparr>ip_irq := bd_irq B n\<rparr>)); returnM 0 }) ?d1"
  let ?b = "exec (di_init (lima_ip_desc i) i) e"
  let ?v = "result (di_init (lima_ip_desc i) i) e"
  let ?p = "ip_upd i (\<lambda>x. x\<lparr>ip_present := True\<rparr>) ?b"
  have run: "run_state (lima_init_ip B i) d =
     (if ?off < 0 then (0, d)
      else if r < 0 then (if di_must_have (lima_ip_desc i) (dev_id d) then r else 0, e)
      else if ?v = 0 then (0, ?p) else (if di_must_have (lima_ip_desc i) (dev_id d) then ?v else 0, ?b))"
    by (simp add: lima_init_ip_def Let_def e_def r_def)
  have d1: "ips_beside d ?d1" by (simp add: ips_beside_def ips_ok_def)
  have e1: "ips_beside ?d1 e" by (auto simp: e_def ips_irq_beside split: option.split)
  have e: "ips_beside d e" using d1 e1 by (rule ips_beside_trans)
  have io: "ip_iomem (dev_ip e i) = dev_iomem d + word_of_int ?off" by (auto simp: e_def split: option.split)
  have bk: "boot_keeps e ?b" using boot_init [of i i] by (simp add: keeping_def)
  have b: "ips_beside d ?b" using e boot_beside [OF bk] by (rule ips_beside_trans)
  have p: "ips_beside d ?p" if "0 \<le> ?off"
    using b that by (rule ips_present_beside) (use bk io in \<open>simp add: boot_keeps_def\<close>)
  show "ips_beside d (exec (lima_init_ip B i) d)" using e b p by (simp add: run)
  assume "result (lima_init_ip B i) d = 0" and must: "di_must_have (lima_ip_desc i) (dev_id d)"
  then show "ip_present (dev_ip (exec (lima_init_ip B i) d) i)"
    using must_offset [OF must] by (simp add: run split: if_splits)
qed

lemma init_ips_beside: "ips_beside d (exec (lima_init_ips B ks n) d)"
proof (induction ks arbitrary: n d)
  case (Cons i ks)
  have 1: "ips_beside d (exec (lima_init_ip B i) d)" by (rule init_ip_spec)
  show ?case using 1 ips_beside_trans [OF 1 Cons] by simp
qed simp

lemma init_ips_present:
  assumes "fst (result (lima_init_ips B ks n) d) = 0" and "i \<in> set ks" and "di_must_have (lima_ip_desc i) (dev_id d)"
  shows "ip_present (dev_ip (exec (lima_init_ips B ks n) d) i)"
  using assms
proof (induction ks arbitrary: n d)
  case (Cons j ks)
  let ?d = "exec (lima_init_ip B j) d"
  have r: "result (lima_init_ip B j) d = 0" using Cons.prems(1) by (simp split: if_splits)
  have st: "ips_beside d ?d" by (rule init_ip_spec)
  show ?case
  proof (cases "i \<in> set ks")
    case True
    then show ?thesis using Cons.IH [of "Suc n" ?d] Cons.prems r st by (simp add: ips_beside_def)
  next
    case False
    then have "i = j" using Cons.prems(2) by simp
    then have "ip_present (dev_ip ?d i)" using init_ip_spec(2) r Cons.prems(3) by blast
    then show ?thesis using init_ips_beside [where d = ?d and B = B and ks = ks and n = "Suc n"] r
      by (simp add: ips_beside_def)
  qed
qed simp

section \<open>The pipes\<close>

definition pp_usable :: "lima_device \<Rightarrow> nat \<Rightarrow> bool" where
  "pp_usable d i \<longleftrightarrow> ip_present (dev_ip d (lima_pps ! i)) \<and> ip_present (dev_ip d (lima_ppmmus ! i)) \<and>
     ip_present (dev_ip d (pp_l2_cache (dev_id d) i))"

lemma pp_push_frame [simp]:
  "dev_ip (pp_push i d) = dev_ip d" "dev_id (pp_push i d) = dev_id d"
  "dev_pipe (pp_push i d) lima_pipe_gp = dev_pipe d lima_pipe_gp" "dev_iomem (pp_push i d) = dev_iomem d"
  by (simp_all add: pp_push_def Let_def pipe_upd_def)

lemma pp_usable_push [simp]: "pp_usable (pp_push i d) = pp_usable d"
  by (simp add: pp_usable_def fun_eq_iff)

text \<open>What the loop leaves alone in the pipe it fills.\<close>

definition pipe_shell :: "lima_sched_pipe \<Rightarrow> lima_sched_pipe" where
  "pipe_shell y = y\<lparr>p_mmu := [], p_processor := [], p_l2_cache := [], p_bcast_processor := None,
     p_bcast_mmu := None, p_frame_size := 0\<rparr>"

lemma pp_push_pipe:
  "p_processor (dev_pipe (pp_push i d) lima_pipe_pp) = p_processor (dev_pipe d lima_pipe_pp) @ (if pp_usable d i then [lima_pps ! i] else [])"
  "p_mmu (dev_pipe (pp_push i d) lima_pipe_pp) = p_mmu (dev_pipe d lima_pipe_pp) @ (if pp_usable d i then [lima_ppmmus ! i] else [])"
  "pipe_shell (dev_pipe (pp_push i d) lima_pipe_pp) = pipe_shell (dev_pipe d lima_pipe_pp)"
  "p_bcast_processor (dev_pipe (pp_push i d) lima_pipe_pp) = p_bcast_processor (dev_pipe d lima_pipe_pp)"
  by (simp_all add: pp_push_def pp_usable_def pipe_shell_def Let_def)

lemma fold_pp_push:
  "dev_ip (fold pp_push ks d) = dev_ip d" "dev_id (fold pp_push ks d) = dev_id d"
  "dev_pipe (fold pp_push ks d) lima_pipe_gp = dev_pipe d lima_pipe_gp" "dev_iomem (fold pp_push ks d) = dev_iomem d"
  "p_processor (dev_pipe (fold pp_push ks d) lima_pipe_pp) =
     p_processor (dev_pipe d lima_pipe_pp) @ map ((!) lima_pps) (filter (pp_usable d) ks)"
  "p_mmu (dev_pipe (fold pp_push ks d) lima_pipe_pp) =
     p_mmu (dev_pipe d lima_pipe_pp) @ map ((!) lima_ppmmus) (filter (pp_usable d) ks)"
  "pipe_shell (dev_pipe (fold pp_push ks d) lima_pipe_pp) = pipe_shell (dev_pipe d lima_pipe_pp)"
  "p_bcast_processor (dev_pipe (fold pp_push ks d) lima_pipe_pp) = p_bcast_processor (dev_pipe d lima_pipe_pp)"
  by (induction ks arbitrary: d) (simp_all add: pp_push_pipe)

lemma pp_bcast_set_frame [simp]:
  "dev_ip (pp_bcast_set d) = dev_ip d" "dev_id (pp_bcast_set d) = dev_id d"
  "dev_pipe (pp_bcast_set d) lima_pipe_gp = dev_pipe d lima_pipe_gp" "dev_iomem (pp_bcast_set d) = dev_iomem d"
  "p_processor (dev_pipe (pp_bcast_set d) p) = p_processor (dev_pipe d p)"
  "p_mmu (dev_pipe (pp_bcast_set d) p) = p_mmu (dev_pipe d p)"
  "pipe_shell (dev_pipe (pp_bcast_set d) p) = pipe_shell (dev_pipe d p)"
  by (simp_all add: pp_bcast_set_def pipe_upd_def pipe_shell_def)

lemma pipe_shell_fields: "pipe_shell y = pipe_shell z \<Longrightarrow> p_wq y = p_wq z \<and> p_queue y = p_queue z \<and>
    p_current_task y = p_current_task z \<and> p_name y = p_name z"
  by (auto simp: pipe_shell_def dest: arg_cong [where f = p_wq] arg_cong [where f = p_queue]
      arg_cong [where f = p_current_task] arg_cong [where f = p_name])

text \<open>The slab of a pipe: a user more is a user less again.\<close>

definition slab_ok :: "task_slab \<Rightarrow> bool" where
  "slab_ok sl \<longleftrightarrow> (ts_slab sl \<longleftrightarrow> 0 < ts_refcnt sl)"

lemma slab_back:
  assumes "slab_ok sl"
  shows "lima_gp_pipe_fini \<lparr>ts_slab = True, ts_refcnt = Suc (ts_refcnt sl)\<rparr> = sl"
    "lima_pp_pipe_fini \<lparr>ts_slab = True, ts_refcnt = Suc (ts_refcnt sl)\<rparr> = sl"
  using assms by (auto simp: slab_ok_def lima_gp_pipe_fini_def lima_pp_pipe_fini_def)

text \<open>
  Setting up the processor pipe of geometry: on success it is there with its three blocks and
  one user more of its slab, otherwise without a workqueue; the rest of the device is untouched.
\<close>

definition gp_pipe_up :: "lima_device \<Rightarrow> bool" where
  "gp_pipe_up d \<longleftrightarrow> (let y = dev_pipe d lima_pipe_gp in
     p_processor y = [lima_ip_gp] \<and> p_mmu y = [lima_ip_gpmmu] \<and> p_l2_cache y = [lima_ip_l2_cache0] \<and>
     p_queue y = [] \<and> p_current_task y = None \<and> p_wq y \<and> p_frame_size y = sizeof_gp_frame)"

definition pp_pipe_up :: "lima_device \<Rightarrow> bool" where
  "pp_pipe_up d \<longleftrightarrow> (let y = dev_pipe d lima_pipe_pp; us = filter (pp_usable d) [0..<8] in
     p_processor y = map ((!) lima_pps) us \<and> p_mmu y = map ((!) lima_ppmmus) us \<and> dev_num_pp d = length us \<and>
     p_bcast_processor y = (if ip_present (dev_ip d lima_ip_bcast) then Some lima_ip_pp_bcast else None) \<and>
     p_queue y = [] \<and> p_current_task y = None \<and> p_wq y)"

lemma gp_pipe_result:
  obtains (ok) d where "lima_init_gp_pipe B s = Some (0, s\<lparr>cs_dev := d, dv_slab := (dv_slab s)(lima_pipe_gp :=
      \<lparr>ts_slab = True, ts_refcnt = Suc (ts_refcnt (dv_slab s lima_pipe_gp))\<rparr>)\<rparr>)"
    and "dev_ip d = dev_ip (cs_dev s)" and "dev_id d = dev_id (cs_dev s)" and "dev_iomem d = dev_iomem (cs_dev s)"
    and "dev_dlbu_dma d = dev_dlbu_dma (cs_dev s)"
    and "dev_pipe d lima_pipe_pp = dev_pipe (cs_dev s) lima_pipe_pp" and "gp_pipe_up d"
  | (fail) err d where "lima_init_gp_pipe B s = Some (err, s\<lparr>cs_dev := d\<rparr>)" and "err \<noteq> 0"
    and "dev_dlbu_dma d = dev_dlbu_dma (cs_dev s)"
    and "dev_pipe d lima_pipe_pp = dev_pipe (cs_dev s) lima_pipe_pp" and "\<not> p_wq (dev_pipe d lima_pipe_gp)"
proof -
  define wq where "wq = bd_workqueue B lima_pipe_gp"
  define d1 where "d1 = snd (lima_sched_pipe_init wq lima_pipe_gp ''gp'' (cs_dev s))"
  define d2 where "d2 = pipe_push_gp d1"
  have d1: "lima_sched_pipe_init wq lima_pipe_gp ''gp'' (cs_dev s) = (if wq then 0 else - ENOMEM, d1)"
    by (simp add: d1_def lima_sched_pipe_init_def)
  have same: "dev_ip d1 = dev_ip (cs_dev s)" "dev_id d1 = dev_id (cs_dev s)" "dev_iomem d1 = dev_iomem (cs_dev s)"
    "dev_dlbu_dma d1 = dev_dlbu_dma (cs_dev s)" "dev_pipe d1 lima_pipe_pp = dev_pipe (cs_dev s) lima_pipe_pp"
    by (simp_all add: d1_def lima_sched_pipe_init_def pipe_upd_def)
  have gp: "p_wq (dev_pipe d1 lima_pipe_gp) = wq" "p_processor (dev_pipe d1 lima_pipe_gp) = []" "p_mmu (dev_pipe d1 lima_pipe_gp) = []"
    "p_l2_cache (dev_pipe d1 lima_pipe_gp) = []" "p_queue (dev_pipe d1 lima_pipe_gp) = []" "p_current_task (dev_pipe d1 lima_pipe_gp) = None"
    by (simp_all add: d1_def lima_sched_pipe_init_def pipe_upd_def)
  show thesis
  proof (cases wq)
    case False
    have run: "lima_sched_pipe_init False lima_pipe_gp ''gp'' (cs_dev s) = (- ENOMEM, d1)" using d1 False by simp
    show thesis
      by (rule fail [of "- ENOMEM" d1])
        (use False gp same in \<open>simp_all add: lima_init_gp_pipe_def wq_def [symmetric] run\<close>)
  next
    case wq: True
    have run: "lima_sched_pipe_init True lima_pipe_gp ''gp'' (cs_dev s) = (0, d1)" using d1 wq by simp
    show thesis
    proof (cases "ts_slab (dv_slab s lima_pipe_gp) \<or> bd_slab B lima_pipe_gp")
      case True
      let ?d = "pipe_upd lima_pipe_gp (\<lambda>x. x\<lparr>p_frame_size := sizeof_gp_frame\<rparr>) d2"
      show thesis
        by (rule ok [of ?d])
          (use True wq gp same in \<open>auto simp: lima_init_gp_pipe_def wq_def [symmetric] run on_slab_def
            lima_gp_pipe_init_def d2_def pipe_push_gp_def gp_pipe_up_def pipe_upd_def\<close>)
    next
      case False
      let ?d = "pipe_upd lima_pipe_gp (\<lambda>y. y\<lparr>p_wq := False\<rparr>) d2"
      show thesis
        by (rule fail [of "- ENOMEM" ?d])
          (use False wq gp same in \<open>auto simp: lima_init_gp_pipe_def wq_def [symmetric] run on_slab_def
            lima_gp_pipe_init_def lima_sched_pipe_fini_def d2_def pipe_push_gp_def pipe_upd_def\<close>)
    qed
  qed
qed

lemma pp_usable_cong: "dev_ip d = dev_ip e \<Longrightarrow> dev_id d = dev_id e \<Longrightarrow> pp_usable d = pp_usable e"
  by (simp add: pp_usable_def fun_eq_iff)

lemma dlbu_dma_frames [simp]:
  "dev_dlbu_dma (fold pp_push ks d) = dev_dlbu_dma d" "dev_dlbu_dma (pp_bcast_set d) = dev_dlbu_dma d"
  by (induction ks arbitrary: d) (simp_all add: pp_push_def pp_bcast_set_def Let_def)

lemma pp_pipe_result:
  obtains (ok) d where "lima_init_pp_pipe B s = Some (0, s\<lparr>cs_dev := d, dv_slab := (dv_slab s)(lima_pipe_pp :=
      \<lparr>ts_slab = True, ts_refcnt = Suc (ts_refcnt (dv_slab s lima_pipe_pp))\<rparr>)\<rparr>)"
    and "dev_ip d = dev_ip (cs_dev s)" and "dev_id d = dev_id (cs_dev s)" and "dev_iomem d = dev_iomem (cs_dev s)"
    and "dev_dlbu_dma d = dev_dlbu_dma (cs_dev s)"
    and "dev_pipe d lima_pipe_gp = dev_pipe (cs_dev s) lima_pipe_gp" and "pp_pipe_up d"
  | (fail) err d where "lima_init_pp_pipe B s = Some (err, s\<lparr>cs_dev := d\<rparr>)" and "err \<noteq> 0"
    and "dev_dlbu_dma d = dev_dlbu_dma (cs_dev s)"
    and "dev_pipe d lima_pipe_gp = dev_pipe (cs_dev s) lima_pipe_gp" and "\<not> p_wq (dev_pipe d lima_pipe_pp)"
proof -
  define wq where "wq = bd_workqueue B lima_pipe_pp"
  define d1 where "d1 = snd (lima_sched_pipe_init wq lima_pipe_pp ''pp'' (cs_dev s))"
  define c where "c = pp_bcast_set (fold pp_push [0..<8] d1)"
  define d2 where "d2 = c\<lparr>dev_num_pp := length (p_processor (dev_pipe c lima_pipe_pp))\<rparr>"
  have d1: "lima_sched_pipe_init wq lima_pipe_pp ''pp'' (cs_dev s) = (if wq then 0 else - ENOMEM, d1)"
    by (simp add: d1_def lima_sched_pipe_init_def)
  have same1: "dev_ip d1 = dev_ip (cs_dev s)" "dev_id d1 = dev_id (cs_dev s)" "dev_iomem d1 = dev_iomem (cs_dev s)"
    "dev_dlbu_dma d1 = dev_dlbu_dma (cs_dev s)" "dev_pipe d1 lima_pipe_gp = dev_pipe (cs_dev s) lima_pipe_gp"
    by (simp_all add: d1_def lima_sched_pipe_init_def pipe_upd_def)
  have pp1: "p_wq (dev_pipe d1 lima_pipe_pp) = wq" "p_processor (dev_pipe d1 lima_pipe_pp) = []" "p_mmu (dev_pipe d1 lima_pipe_pp) = []"
    "p_queue (dev_pipe d1 lima_pipe_pp) = []" "p_current_task (dev_pipe d1 lima_pipe_pp) = None"
    "p_bcast_processor (dev_pipe d1 lima_pipe_pp) = None"
    by (simp_all add: d1_def lima_sched_pipe_init_def pipe_upd_def)
  have same: "dev_ip d2 = dev_ip (cs_dev s)" "dev_id d2 = dev_id (cs_dev s)" "dev_iomem d2 = dev_iomem (cs_dev s)"
    "dev_dlbu_dma d2 = dev_dlbu_dma (cs_dev s)" "dev_pipe d2 lima_pipe_gp = dev_pipe (cs_dev s) lima_pipe_gp"
    using same1 by (simp_all add: d2_def c_def fold_pp_push)
  have us: "pp_usable d1 = pp_usable d2" using same same1 by (intro pp_usable_cong) simp_all
  have "pipe_shell (dev_pipe d2 lima_pipe_pp) = pipe_shell (dev_pipe d1 lima_pipe_pp)"
    by (simp add: d2_def c_def fold_pp_push)
  from pipe_shell_fields [OF this] have pp: "p_wq (dev_pipe d2 lima_pipe_pp) = wq" "p_queue (dev_pipe d2 lima_pipe_pp) = []"
    "p_current_task (dev_pipe d2 lima_pipe_pp) = None"
    using pp1 by simp_all
  have lists: "p_processor (dev_pipe d2 lima_pipe_pp) = map ((!) lima_pps) (filter (pp_usable d2) [0..<8])"
    "p_mmu (dev_pipe d2 lima_pipe_pp) = map ((!) lima_ppmmus) (filter (pp_usable d2) [0..<8])"
    using pp1 by (simp_all add: us [symmetric]) (simp_all add: d2_def c_def fold_pp_push)
  have bcast: "p_bcast_processor (dev_pipe d2 lima_pipe_pp) = (if ip_present (dev_ip d2 lima_ip_bcast) then Some lima_ip_pp_bcast else None)"
    using pp1 by (simp add: d2_def c_def pp_bcast_set_def fold_pp_push)
  have num: "dev_num_pp d2 = length (p_processor (dev_pipe d2 lima_pipe_pp))" by (simp add: d2_def)
  have rest: "lima_init_pp_pipe B s =
      (let (err, s) = on_slab lima_pipe_pp (lima_pp_pipe_init (bd_slab B lima_pipe_pp)) (s\<lparr>cs_dev := d2\<rparr>) in
        if err \<noteq> 0 then do {
          d \<leftarrow> lima_sched_pipe_fini lima_pipe_pp (cs_dev s);
          Some (err, s\<lparr>cs_dev := d\<rparr>)
        } else Some (0, s))" if wq
    using that d1 unfolding lima_init_pp_pipe_def wq_def [symmetric]
    by (simp add: d2_def c_def LIMA_SCHED_PIPE_MAX_PROCESSOR_def Let_def)
  show thesis
  proof (cases wq)
    case False
    have run: "lima_sched_pipe_init False lima_pipe_pp ''pp'' (cs_dev s) = (- ENOMEM, d1)" using d1 False by simp
    show thesis
      by (rule fail [of "- ENOMEM" d1])
        (use False pp1 same1 in \<open>simp_all add: lima_init_pp_pipe_def wq_def [symmetric] run\<close>)
  next
    case wq: True
    show thesis
    proof (cases "ts_slab (dv_slab s lima_pipe_pp) \<or> bd_slab B lima_pipe_pp")
      case True
      obtain n where sl: "lima_pp_pipe_init (bd_slab B lima_pipe_pp) (dv_slab s lima_pipe_pp) d2 =
          (0, \<lparr>ts_slab = True, ts_refcnt = Suc (ts_refcnt (dv_slab s lima_pipe_pp))\<rparr>,
           pipe_upd lima_pipe_pp (\<lambda>x. x\<lparr>p_frame_size := n\<rparr>) d2)"
        using True by (auto simp: lima_pp_pipe_init_def Let_def)
      let ?d = "pipe_upd lima_pipe_pp (\<lambda>x. x\<lparr>p_frame_size := n\<rparr>) d2"
      have u2: "pp_usable ?d = pp_usable d2" by (intro pp_usable_cong) simp_all
      have up: "pp_pipe_up ?d" unfolding pp_pipe_up_def u2
        using lists num bcast pp wq by (simp add: Let_def) (simp add: pipe_upd_def)
      show thesis
        by (rule ok [OF _ _ _ _ _ _ up])
          (use wq same in \<open>simp_all add: rest on_slab_def sl\<close>, simp add: pipe_upd_def)
    next
      case False
      let ?d = "pipe_upd lima_pipe_pp (\<lambda>y. y\<lparr>p_wq := False\<rparr>) d2"
      show thesis
        by (rule fail [of "- ENOMEM" ?d])
          (use False wq pp same in \<open>simp_all add: rest on_slab_def lima_pp_pipe_init_def lima_sched_pipe_fini_def Let_def\<close>)
    qed
  qed
qed

section \<open>What is taken and given back\<close>

text \<open>
  What a device holds of the kernel: heap blocks, DMA buffers, enabled clocks and regulator,
  workqueues and users of the slabs.
\<close>

definition dev_ledger :: "'a dev_st_scheme \<Rightarrow> nat set \<times> (u32 \<times> nat) set \<times> (string \<Rightarrow> int) \<times> int \<times> (lima_pipe_id \<Rightarrow> bool) \<times> (lima_pipe_id \<Rightarrow> task_slab)" where
  "dev_ledger s = (km_live s, dm_live s, dv_clk_count s, dv_reg_count s, \<lambda>p. p_wq (pipe_of p s), dv_slab s)"

text \<open>A device as \<open>kzalloc\<close> leaves it.\<close>

definition dev_fresh :: "'a dev_st_scheme \<Rightarrow> bool" where
  "dev_fresh s \<longleftrightarrow> \<not> dv_dlbu_cpu s \<and> (\<forall>p. \<not> p_wq (pipe_of p s)) \<and> (\<forall>i. \<not> ip_present (dev_ip (cs_dev s) i)) \<and>
     (\<forall>p. slab_ok (dv_slab s p)) \<and> kmem_wf s \<and> dma_contract s"

text \<open>
  From the empty address space on: the clocks and the regulator are as after their
  initialisation, the address space and the DLBU page are the device's only memory.
\<close>

definition dlbu_buf :: "'a dev_st_scheme \<Rightarrow> (u32 \<times> nat) set" where
  "dlbu_buf s = (if dv_dlbu_cpu s then {(dev_dlbu_dma (cs_dev s), LIMA_PAGE_SIZE)} else {})"

definition holds :: "'a dev_st_scheme \<Rightarrow> 'a dev_st_scheme \<Rightarrow> bool" where
  "holds r s \<longleftrightarrow> dv_clk_count (lima_clk_fini s) = dv_clk_count r \<and> dv_reg_count (lima_regulator_fini s) = dv_reg_count r \<and>
     (\<exists>v. vs_vms s (dv_empty_vm s) = Some v \<and> vm_refcount v = 1 \<and> vm_wf v s \<and>
        dv_empty_vm s \<notin> km_live r \<and> km_live s = insert (dv_empty_vm s) (km_live r) \<and>
        vm_bufs v \<inter> dm_live r = {} \<and> vm_bufs v \<inter> dlbu_buf s = {} \<and> dlbu_buf s \<inter> dm_live r = {} \<and>
        dm_live s = vm_bufs v \<union> dlbu_buf s \<union> dm_live r)"

definition clks_off :: "bool \<Rightarrow> bool \<Rightarrow> (string \<Rightarrow> int) \<Rightarrow> string \<Rightarrow> int" where
  "clks_off bus gpu n c = n c - (if c = ''core'' \<and> gpu \<or> c = ''bus'' \<and> bus then 1 else 0)"

lemma clk_fini_eq: "lima_clk_fini s = s\<lparr>dv_clk_count := clks_off (dv_clk_bus s) (dv_clk_gpu s) (dv_clk_count s)\<rparr>"
  by (rule dev_st.equality) (auto simp: lima_clk_fini_def clk_disable_unprepare_def clks_off_def fun_eq_iff)

lemma regulator_fini_eq: "lima_regulator_fini s = s\<lparr>dv_reg_count := dv_reg_count s - (if dv_regulator s then 1 else 0)\<rparr>"
  by (simp add: lima_regulator_fini_def)

lemma holds_dev:
  assumes "holds r s" and "dev_dlbu_dma d = dev_dlbu_dma (cs_dev s)"
  shows "holds r (s\<lparr>cs_dev := d, dv_slab := sl\<rparr>)"
proof -
  have "dlbu_buf (s\<lparr>cs_dev := d, dv_slab := sl\<rparr>) = dlbu_buf s" using assms(2) by (simp add: dlbu_buf_def)
  with assms(1) show ?thesis
    by (simp add: holds_def vm_wf_def clk_fini_eq regulator_fini_eq del: One_nat_def)
qed

lemma clk_init_cases:
  assumes "lima_clk_init B s = (err, s')"
  shows "s' = s\<lparr>dv_clk_bus := dv_clk_bus s', dv_clk_gpu := dv_clk_gpu s', dv_clk_count := dv_clk_count s'\<rparr>"
    and "err = 0 \<Longrightarrow> dv_clk_count (lima_clk_fini s') = dv_clk_count s"
    and "err \<noteq> 0 \<Longrightarrow> dv_clk_count s' = dv_clk_count s"
  using assms
  by (auto simp: lima_clk_init_def Let_def clk_prepare_enable_def clk_disable_unprepare_def clk_fini_eq
      clks_off_def fun_eq_iff split: if_splits)

lemma regulator_init_cases:
  assumes "lima_regulator_init B s = (err, s')"
  shows "s' = s\<lparr>dv_regulator := dv_regulator s', dv_reg_count := dv_reg_count s'\<rparr>"
    and "err = 0 \<Longrightarrow> dv_reg_count (lima_regulator_fini s') = dv_reg_count s"
    and "err \<noteq> 0 \<Longrightarrow> dv_reg_count s' = dv_reg_count s"
  using assms by (auto simp: lima_regulator_init_def Let_def regulator_fini_eq split: if_splits)

text \<open>The labels from the DLBU page on give everything back.\<close>

lemma err_out4_gives_back:
  assumes h: "holds r s"
  shows "\<exists>s'. dev_err_out4 s = Some s' \<and> dev_ledger s' = (km_live r, dm_live r, dv_clk_count r, dv_reg_count r,
    \<lambda>p. p_wq (pipe_of p s), dv_slab s) \<and> dv_power s' = lima_platform_power_off (dv_power s)"
proof -
  obtain v where v: "vs_vms s (dv_empty_vm s) = Some v" "vm_refcount v = 1" "vm_wf v s"
    "dv_empty_vm s \<notin> km_live r" "km_live s = insert (dv_empty_vm s) (km_live r)"
    "vm_bufs v \<inter> dm_live r = {}" "vm_bufs v \<inter> dlbu_buf s = {}" "dlbu_buf s \<inter> dm_live r = {}"
    "dm_live s = vm_bufs v \<union> dlbu_buf s \<union> dm_live r"
    using h unfolding holds_def by blast
  have cl: "dv_clk_count (lima_clk_fini s) = dv_clk_count r" "dv_reg_count (lima_regulator_fini s) = dv_reg_count r"
    using h unfolding holds_def by blast+
  define t where "t = s\<lparr>dm_live := dm_live s - dlbu_buf s\<rparr>"
  have t: "(if dv_dlbu_cpu s then dma_free_wc LIMA_PAGE_SIZE (dev_dlbu_dma (cs_dev s)) s else Some s) = Some t"
    using v(9) by (auto simp: t_def dlbu_buf_def dma_free_wc_def)
  have dl: "dm_live t = vm_bufs v \<union> dm_live r" using v(7,8,9) by (auto simp: t_def)
  have wf: "vm_wf v t" using v(3) dl by (simp add: vm_wf_def)
  define u where "u = t\<lparr>dm_live := dm_live t - vm_bufs v, vs_vms := (vs_vms t)(dv_empty_vm s := None), km_live := km_live t - {dv_empty_vm s}\<rparr>"
  have put: "lima_vm_put (dv_empty_vm t) t = Some u"
    using v(1,2,5) vm_release_ledger [of t "dv_empty_vm s" v, OF _ wf] by (simp add: lima_vm_put_def u_def t_def)
  have run: "dev_err_out4 s = Some (dev_err_out2 u)" using t put by (simp add: dev_err_out4_def dev_err_out3_def)
  have live: "km_live u = km_live r" "dm_live u = dm_live r"
    using v(4,5,6) dl by (auto simp: u_def t_def)
  have c: "clks_off (dv_clk_bus s) (dv_clk_gpu s) (dv_clk_count s) = dv_clk_count r"
    "dv_reg_count s - (if dv_regulator s then 1 else 0) = dv_reg_count r"
    using cl by (simp_all add: clk_fini_eq regulator_fini_eq)
  have fields: "dv_clk_bus u = dv_clk_bus s" "dv_clk_gpu u = dv_clk_gpu s" "dv_clk_count u = dv_clk_count s"
    "dv_regulator u = dv_regulator s" "dv_reg_count u = dv_reg_count s"
    by (simp_all add: u_def t_def)
  have "dev_err_out2 u = u\<lparr>dv_reg_count := dv_reg_count r, dv_clk_count := dv_clk_count r,
      dv_power := lima_platform_power_off (dv_power u)\<rparr>"
    by (simp add: dev_err_out2_def dev_err_out1_def dev_err_out0_def clk_fini_eq regulator_fini_eq fields c)
  then show ?thesis using run live by (simp add: dev_ledger_def) (simp add: u_def t_def)
qed

section \<open>The stages of the bring-up\<close>

text \<open>What a successful bring-up establishes of the device.\<close>

definition dev_up :: "lima_device \<Rightarrow> bool" where
  "dev_up d \<longleftrightarrow> ips_ok d \<and> (\<forall>i. di_must_have (lima_ip_desc i) (dev_id d) \<longrightarrow> ip_present (dev_ip d i)) \<and>
     gp_pipe_up d \<and> pp_pipe_up d"

definition slab_users :: "(lima_pipe_id \<Rightarrow> task_slab) \<Rightarrow> lima_pipe_id \<Rightarrow> task_slab" where
  "slab_users f p = \<lparr>ts_slab = True, ts_refcnt = Suc (ts_refcnt (f p))\<rparr>"

text \<open>
  The two outcomes of a stage that starts with the devices's memory as \<open>holds\<close> says: it is up
  with the same memory, or everything is as at \<open>r\<close>, the power domain switched off.
\<close>

definition stage_up :: "'a dev_st_scheme \<Rightarrow> 'a dev_st_scheme \<Rightarrow> (int \<times> 'a dev_st_scheme) option \<Rightarrow> bool" where
  "stage_up r s res \<longleftrightarrow> (\<exists>s'. res = Some (0, s') \<and> holds r s' \<and> dv_slab s' = slab_users (dv_slab s) \<and>
     dv_power s' = dv_power s \<and> dev_id (cs_dev s') = dev_id (cs_dev s) \<and> dev_up (cs_dev s'))"

definition stage_undone :: "'a dev_st_scheme \<Rightarrow> 'a dev_st_scheme \<Rightarrow> (int \<times> 'a dev_st_scheme) option \<Rightarrow> bool" where
  "stage_undone r s res \<longleftrightarrow> (\<exists>err s'. res = Some (err, s') \<and> err \<noteq> 0 \<and>
     dev_ledger s' = (km_live r, dm_live r, dv_clk_count r, dv_reg_count r, \<lambda>_. False, dv_slab s) \<and>
     dv_power s' = lima_platform_power_off (dv_power s))"

definition unpiped :: "'a dev_st_scheme \<Rightarrow> bool" where
  "unpiped s \<longleftrightarrow> (\<forall>p. \<not> p_wq (pipe_of p s)) \<and> (\<forall>i. \<not> ip_present (dev_ip (cs_dev s) i)) \<and> (\<forall>p. slab_ok (dv_slab s p))"

lemma all_pipes: "(\<forall>p. P p) \<longleftrightarrow> P lima_pipe_gp \<and> P lima_pipe_pp"
  by (metis lima_pipe_id.exhaust)

lemma no_wq: "\<not> p_wq (f lima_pipe_gp) \<Longrightarrow> \<not> p_wq (f lima_pipe_pp) \<Longrightarrow> (\<lambda>p. p_wq (f p)) = (\<lambda>_. False)"
  by (rule ext) (metis lima_pipe_id.exhaust)

lemma on_dev_fini_ips [simp]: "on_dev (forM lima_fini_ip ks) s = s"
  by (simp add: on_dev_def)

lemma fail_undone:
  assumes "holds r s" and "\<not> p_wq (pipe_of lima_pipe_gp s)" and "\<not> p_wq (pipe_of lima_pipe_pp s)"
    and "err \<noteq> 0" and "dv_slab s = dv_slab t" and "dv_power s = dv_power t"
  shows "stage_undone r t (dev_fail err (dev_err_out4 s))"
  using err_out4_gives_back [OF assms(1)] assms(2-) no_wq [of "\<lambda>p. pipe_of p s"]
  by (auto simp: stage_undone_def dev_fail_def)

lemma up_frame:
  assumes "gp_pipe_up d" and "dev_pipe e lima_pipe_gp = dev_pipe d lima_pipe_gp"
  shows "gp_pipe_up e"
  using assms by (simp add: gp_pipe_up_def)

lemma init_blocks_result:
  assumes h: "holds r s" and u: "unpiped s"
  shows "stage_up r s (dev_init_blocks B s) \<or> stage_undone r s (dev_init_blocks B s)"
proof -
  obtain err i d where run: "run_state (lima_init_ips B lima_ips 0) (cs_dev s) = ((err, i), d)"
    by (metis prod.exhaust)
  have be: "ips_beside (cs_dev s) d" using init_ips_beside [of "cs_dev s" B lima_ips 0] by (simp add: run)
  let ?s = "s\<lparr>cs_dev := d\<rparr>"
  have d: "dev_pipe d = dev_pipe (cs_dev s)" "dev_id d = dev_id (cs_dev s)" "dev_dlbu_dma d = dev_dlbu_dma (cs_dev s)" "ips_ok d"
    using be u by (auto simp: ips_beside_def unpiped_def ips_ok_def)
  have hs: "holds r (?s\<lparr>cs_dev := e, dv_slab := sl\<rparr>)" if "dev_dlbu_dma e = dev_dlbu_dma (cs_dev s)" for e sl
    using holds_dev [OF h that] by simp
  have u': "\<not> p_wq (dev_pipe d p)" "slab_ok (dv_slab s p)" for p using u d by (simp_all add: unpiped_def)
  show ?thesis
  proof (cases "err = 0")
    case False
    have "holds r ?s" using hs [of d "dv_slab s"] d by simp
    from fail_undone [OF this, of err s] show ?thesis
      using False u' by (simp add: dev_init_blocks_def run dev_err_out5_def)
  next
    case True
    have must: "ip_present (dev_ip d j)" if "di_must_have (lima_ip_desc j) (dev_id d)" for j
      using init_ips_present [of B lima_ips 0 "cs_dev s" j] that True d lima_ips_all(1) by (simp add: run)
    show ?thesis
    proof (cases rule: gp_pipe_result [of B ?s])
      case (fail err1 d1)
      have "holds r (?s\<lparr>cs_dev := d1\<rparr>)" using hs [of d1 "dv_slab s"] fail(3) d by simp
      from fail_undone [OF this, of err1 s] show ?thesis
        using fail(1,2,4,5) True u' by (simp add: dev_init_blocks_def run dev_err_out5_def)
    next
      case gp: (ok d1)
      let ?sl = "(dv_slab s)(lima_pipe_gp := \<lparr>ts_slab = True, ts_refcnt = Suc (ts_refcnt (dv_slab s lima_pipe_gp))\<rparr>)"
      let ?s1 = "s\<lparr>cs_dev := d1, dv_slab := ?sl\<rparr>"
      have r1: "lima_init_gp_pipe B ?s = Some (0, ?s1)" using gp(1) by simp
      show ?thesis
      proof (cases rule: pp_pipe_result [of B ?s1])
        case (fail err2 d2)
        let ?s2 = "s\<lparr>dv_slab := ?sl, cs_dev := d2\<rparr>"
        let ?d3 = "pipe_upd lima_pipe_gp (\<lambda>y. y\<lparr>p_wq := False\<rparr>) d2"
        have wq: "p_wq (dev_pipe d2 lima_pipe_gp)" using fail(4) gp(7) by (simp add: gp_pipe_up_def Let_def)
        have sl: "(?sl)(lima_pipe_gp := lima_gp_pipe_fini (?sl lima_pipe_gp)) = dv_slab s"
          using slab_back [of "dv_slab s lima_pipe_gp"] u'(2) by (simp add: fun_upd_idem)
        have fin: "lima_fini_gp_pipe ?s2 = Some (s\<lparr>cs_dev := ?d3\<rparr>)"
          using wq sl by (simp add: lima_fini_gp_pipe_def lima_sched_pipe_fini_def del: fun_upd_apply)
        have dma: "dev_dlbu_dma ?d3 = dev_dlbu_dma (cs_dev s)" using fail(3) gp(5) d(3) by simp
        have "holds r (s\<lparr>cs_dev := ?d3\<rparr>)" using hs [OF dma, of "dv_slab s"] by simp
        from fail_undone [OF this, of err2 s] show ?thesis
          using fail(1,2,5) True by (simp add: dev_init_blocks_def run r1 dev_err_out6_def fin dev_err_out5_def)
      next
        case pp: (ok d2)
        let ?s2 = "s\<lparr>cs_dev := d2, dv_slab := slab_users (dv_slab s)\<rparr>"
        have sl: "(?sl)(lima_pipe_pp := \<lparr>ts_slab = True, ts_refcnt = Suc (ts_refcnt (?sl lima_pipe_pp))\<rparr>) = slab_users (dv_slab s)"
          by (rule ext, case_tac x) (simp_all add: slab_users_def)
        have r2: "lima_init_pp_pipe B ?s1 = Some (0, ?s2)" using pp(1) sl by simp
        have "dev_init_blocks B s = Some (0, ?s2)" using True by (simp add: dev_init_blocks_def run r1 r2)
        moreover have "holds r ?s2" using hs [of d2 "slab_users (dv_slab s)"] pp(5) gp(5) d by simp
        moreover have "dev_up d2"
          unfolding dev_up_def using d(4) must pp(2-4,7) gp(2-4) up_frame [OF gp(7) pp(6) [simplified]]
          by (simp add: ips_ok_def)
        ultimately show ?thesis using pp(3) gp(3) d(2) by (simp add: stage_up_def)
      qed
    qed
  qed
qed

lemma vm_create_plain:
  assumes km: "kmem_wf s" and dc: "dma_contract s"
  obtains (none) n m where "lima_vm_create None a b s = Some (None, s\<lparr>km_n := n, dm_n := m\<rparr>)"
  | (made) k pd n m mm where "lima_vm_create None a b s = Some (Some k, s\<lparr>km_n := n, dm_n := m,
      km_live := insert k (km_live s), dm_live := insert (pd, LIMA_PAGE_SIZE) (dm_live s),
      vs_vms := (vs_vms s)(k \<mapsto> (fresh_vm pd)\<lparr>vm_mm := mm\<rparr>)\<rparr>)"
    and "k \<notin> km_live s" and "(pd, LIMA_PAGE_SIZE) \<notin> dm_live s"
proof -
  let ?k = "km_n s"
  have fresh: "?k \<notin> km_live s" by (rule kzalloc_fresh [OF km])
  let ?s = "s\<lparr>km_live := insert ?k (km_live s), km_n := Suc ?k\<rparr>"
  show thesis
  proof (cases "km_ok s ?k")
    case False
    show thesis
      by (rule none [where n = "Suc ?k" and m = "dm_n s"]) (use False in \<open>simp add: vm_create_eq kzalloc_def\<close>)
  next
    case True
    have kz: "kzalloc s = (Some ?k, ?s)" using True by (simp add: kzalloc_def)
    show thesis
    proof (cases "dm_alloc s (dm_n s) (dm_live s) LIMA_PAGE_SIZE")
      case None
      show thesis
        by (rule none [where n = "Suc ?k" and m = "Suc (dm_n s)"])
          (use None fresh in \<open>simp add: vm_create_eq kz dma_alloc_wc_def kfree_def\<close>)
    next
      case (Some pd)
      have "\<forall>b \<in> dm_live s. buf_disjoint (pd, LIMA_PAGE_SIZE) b" using dc Some unfolding dma_contract_def by blast
      then have new: "(pd, LIMA_PAGE_SIZE) \<notin> dm_live s"
        using not_buf_disjoint_refl [of LIMA_PAGE_SIZE pd] by (auto simp: regs)
      show thesis
        by (rule made [where k = ?k and n = "Suc ?k" and m = "Suc (dm_n s)" and pd = pd and mm = "\<lparr>mm_start = a, mm_size = b - a, mm_nodes = []\<rparr>", OF _ fresh new])
          (use Some in \<open>simp add: vm_create_eq kz dma_alloc_wc_def map_dlbu_def vm_upd_def\<close>)
    qed
  qed
qed

lemma stage_frame:
  assumes "dv_slab s = dv_slab t" and "dv_power s = dv_power t" and "dev_id (cs_dev s) = dev_id (cs_dev t)"
  shows "stage_up r s = stage_up r t" and "stage_undone r s = stage_undone r t"
  by (intro ext; simp only: stage_up_def stage_undone_def assms)+

text \<open>An error pointer is a negative code.\<close>

definition board_ok :: "board \<Rightarrow> bool" where
  "board_ok B \<longleftrightarrow> (case bd_ioremap B of Inl e \<Rightarrow> e < 0 | Inr base \<Rightarrow> True)"

lemma init_window_result:
  assumes h: "holds r s" and u: "unpiped s" and B: "board_ok B"
  shows "stage_up r s (dev_init_window B s) \<or> stage_undone r s (dev_init_window B s)"
proof -
  have wq: "\<not> p_wq (pipe_of p s)" for p using u by (simp add: unpiped_def)
  show ?thesis
  proof (cases "bd_resource B")
    case False
    then show ?thesis using fail_undone [OF h wq wq, of "- ENODEV" s] by (simp add: dev_init_window_def)
  next
    case True
    show ?thesis
    proof (cases "bd_ioremap B")
      case (Inl e)
      then have "e \<noteq> 0" using B by (auto simp: board_ok_def)
      from fail_undone [OF h wq wq this, of s] show ?thesis using True Inl by (simp add: dev_init_window_def)
    next
      case (Inr base)
      let ?s = "s\<lparr>cs_dev := (cs_dev s)\<lparr>dev_iomem := base\<rparr>\<rparr>"
      have "holds r ?s" using holds_dev [OF h, of "(cs_dev s)\<lparr>dev_iomem := base\<rparr>" "dv_slab s"] by simp
      moreover have "unpiped ?s" using u by (simp add: unpiped_def)
      ultimately show ?thesis
        using init_blocks_result [of r ?s B] stage_frame [of ?s s] True Inr by (simp add: dev_init_window_def)
    qed
  qed
qed

text \<open>After the empty address space: the DLBU page, on a Mali-450.\<close>

lemma init_vas_result:
  assumes h: "holds r s" and u: "unpiped s" and B: "board_ok B" and dc: "dma_contract s" and dlbu: "\<not> dv_dlbu_cpu s"
  shows "stage_up r s (dev_init_vas B s) \<or> stage_undone r s (dev_init_vas B s)"
proof (cases "dev_id (cs_dev s)")
  case lima_gpu_mali400
  let ?s = "s\<lparr>dv_va_start := 0, dv_va_end := unat LIMA_VA_RESERVE_END\<rparr>"
  have "dlbu_buf ?s = dlbu_buf s" by (simp add: dlbu_buf_def)
  then have "holds r ?s" using h by (simp add: holds_def vm_wf_def clk_fini_eq regulator_fini_eq del: One_nat_def)
  moreover have "unpiped ?s" using u by (simp add: unpiped_def)
  ultimately show ?thesis
    using init_window_result [of r ?s B] stage_frame [of ?s s] B lima_gpu_mali400 by (simp add: dev_init_vas_def)
next
  case lima_gpu_mali450
  let ?s = "s\<lparr>dv_va_start := 0, dv_va_end := unat LIMA_VA_RESERVE_START\<rparr>"
  have buf: "dlbu_buf s = {}" using dlbu by (simp add: dlbu_buf_def)
  show ?thesis
  proof (cases "dm_alloc s (dm_n s) (dm_live s) LIMA_PAGE_SIZE")
    case None
    let ?t = "?s\<lparr>dm_n := Suc (dm_n s), dv_dlbu_cpu := False\<rparr>"
    have "dlbu_buf ?t = dlbu_buf s" using buf by (simp add: dlbu_buf_def)
    then have t: "holds r ?t" using h by (simp add: holds_def vm_wf_def clk_fini_eq regulator_fini_eq del: One_nat_def)
    have "dev_err_out3 ?t = dev_err_out4 ?t" by (simp add: dev_err_out4_def)
    then show ?thesis
      using fail_undone [OF t, of "- ENOMEM" s] u None lima_gpu_mali450
      by (simp add: dev_init_vas_def dma_alloc_wc_def unpiped_def)
  next
    case (Some d)
    let ?t = "?s\<lparr>dm_n := Suc (dm_n s), dm_live := insert (d, LIMA_PAGE_SIZE) (dm_live s), dv_dlbu_cpu := True,
      cs_dev := (cs_dev s)\<lparr>dev_dlbu_dma := d\<rparr>\<rparr>"
    have "\<forall>b \<in> dm_live s. buf_disjoint (d, LIMA_PAGE_SIZE) b" using dc Some unfolding dma_contract_def by blast
    then have new: "(d, LIMA_PAGE_SIZE) \<notin> dm_live s"
      using not_buf_disjoint_refl [of LIMA_PAGE_SIZE d] by (auto simp: regs)
    have buf': "dlbu_buf ?t = {(d, LIMA_PAGE_SIZE)}" by (simp add: dlbu_buf_def)
    have t: "holds r ?t"
      using h new unfolding holds_def buf buf'
      by (auto simp: vm_wf_def clk_fini_eq regulator_fini_eq simp del: One_nat_def)
    have "unpiped ?t" using u by (simp add: unpiped_def)
    with init_window_result [OF t _ B] show ?thesis
      using stage_frame [of ?t s] Some lima_gpu_mali450 by (simp add: dev_init_vas_def dma_alloc_wc_def)
  qed
qed

text \<open>Everything after the power domain is up.\<close>

lemma ledger_intro:
  assumes "km_live s' = km_live r" and "dm_live s' = dm_live r" and "dv_clk_count s' = dv_clk_count r"
    and "dv_reg_count s' = dv_reg_count r" and "cs_dev s' = cs_dev t" and "dv_slab s' = dv_slab t"
    and "dv_power s' = lima_platform_power_off (dv_power t)" and "\<forall>p. \<not> p_wq (pipe_of p t)" and "err \<noteq> 0"
  shows "stage_undone r t (Some (err, s'))"
  using assms no_wq [of "\<lambda>p. pipe_of p t"] by (simp add: stage_undone_def dev_ledger_def)

lemma device_init_result:
  assumes fresh: "dev_fresh s" and B: "board_ok B" and on: "lima_platform_power_on f (dv_power s) = Some (0, w)"
  shows "stage_up s (s\<lparr>dv_power := w\<rparr>) (lima_device_init f B s) \<or>
    stage_undone s (s\<lparr>dv_power := w\<rparr>) (lima_device_init f B s)"
proof -
  let ?t = "s\<lparr>dv_power := w\<rparr>"
  have fr: "\<not> dv_dlbu_cpu s" "\<forall>p. \<not> p_wq (pipe_of p s)" "kmem_wf s" "dma_contract s" "unpiped s"
    using fresh by (simp_all add: dev_fresh_def unpiped_def)
  obtain e1 s1 where clk: "lima_clk_init B ?t = (e1, s1)" by fastforce
  note c = clk_init_cases [OF clk]
  obtain e2 s2 where reg: "lima_regulator_init B s1 = (e2, s2)" by fastforce
  note g = regulator_init_cases [OF reg]
  have s1: "km_live s1 = km_live s" "dm_live s1 = dm_live s" "cs_dev s1 = cs_dev s" "dv_slab s1 = dv_slab s"
    "dv_power s1 = w" "dv_reg_count s1 = dv_reg_count s" "km_n s1 = km_n s" "dm_alloc s1 = dm_alloc s"
    "dv_dlbu_cpu s1 = dv_dlbu_cpu s"
    by (subst c(1), simp)+
  have s2: "km_live s2 = km_live s" "dm_live s2 = dm_live s" "cs_dev s2 = cs_dev s" "dv_slab s2 = dv_slab s"
    "dv_power s2 = w" "km_n s2 = km_n s" "dm_alloc s2 = dm_alloc s"
    "dv_dlbu_cpu s2 = dv_dlbu_cpu s" "dv_clk_bus s2 = dv_clk_bus s1" "dv_clk_gpu s2 = dv_clk_gpu s1"
    "dv_clk_count s2 = dv_clk_count s1"
    by (subst g(1), simp add: s1)+
  show ?thesis
  proof (cases "e1 = 0")
    case False
    then have "lima_device_init f B s = Some (e1, dev_err_out0 s1)" by (simp add: lima_device_init_def on clk)
    moreover have "stage_undone s ?t (Some (e1, dev_err_out0 s1))"
      by (rule ledger_intro) (use False s1 c(3) fr in \<open>simp_all add: dev_err_out0_def\<close>)
    ultimately show ?thesis by simp
  next
    case e1: True
    have clk_back: "dv_clk_count (lima_clk_fini s1) = dv_clk_count s" using c(2) e1 by simp
    show ?thesis
    proof (cases "e2 = 0")
      case False
      then have "lima_device_init f B s = Some (e2, dev_err_out1 s2)" by (simp add: lima_device_init_def on clk e1 reg)
      moreover have "stage_undone s ?t (Some (e2, dev_err_out1 s2))"
        by (rule ledger_intro)
          (use False s1 s2 g(3) clk_back fr in \<open>simp_all add: dev_err_out1_def dev_err_out0_def clk_fini_eq\<close>)
      ultimately show ?thesis by simp
    next
      case e2: True
      have reg_back: "dv_reg_count (lima_regulator_fini s2) = dv_reg_count s" using g(2) e2 s1 by simp
      have init: "lima_device_init f B s = do {
           (vm, s) \<leftarrow> lima_vm_create None (dv_va_start s2) (dv_va_end s2) s2;
           case vm of
             None \<Rightarrow> Some (- ENOMEM, dev_err_out2 s)
           | Some vm \<Rightarrow> do {
               v \<leftarrow> vs_vms s vm;
               dev_init_vas B (s\<lparr>dv_empty_vm := vm, cs_dev := (cs_dev s)\<lparr>dev_empty_vm_pd := vm_pd_dma v\<rparr>\<rparr>)
             }
         }"
        using fr s2 by (simp add: lima_device_init_def on clk e1 reg e2)
      have km: "kmem_wf s2" "dma_contract s2" using fr s2 by (simp_all add: kmem_wf_def dma_contract_def)
      show ?thesis
      proof (cases rule: vm_create_plain [OF km, where a = "dv_va_start s2" and b = "dv_va_end s2", case_names none made])
        case (none n m)
        let ?u = "s2\<lparr>km_n := n, dm_n := m\<rparr>"
        have "stage_undone s ?t (Some (- ENOMEM, dev_err_out2 ?u))"
          by (rule ledger_intro)
            (use s1 s2 clk_back reg_back fr in \<open>simp_all add: dev_err_out2_def dev_err_out1_def dev_err_out0_def
              clk_fini_eq regulator_fini_eq\<close>)
        then show ?thesis by (simp add: init none)
      next
        case (made k pd n m mm)
        let ?v = "(fresh_vm pd)\<lparr>vm_mm := mm\<rparr>"
        let ?u = "s2\<lparr>km_n := n, dm_n := m, km_live := insert k (km_live s2),
          dm_live := insert (pd, LIMA_PAGE_SIZE) (dm_live s2), vs_vms := (vs_vms s2)(k \<mapsto> ?v),
          dv_empty_vm := k, cs_dev := (cs_dev s2)\<lparr>dev_empty_vm_pd := pd\<rparr>\<rparr>"
        have bufs: "vm_bufs ?v = {(pd, LIMA_PAGE_SIZE)}" "vm_tables_ok ?v"
          using fresh_vm_tables [of pd] by (simp_all add: vm_bufs_def vm_tables_ok_def vm_block_def pte_def)
        have "dlbu_buf ?u = {}" using fr s2 by (simp add: dlbu_buf_def)
        then have h: "holds s ?u"
          unfolding holds_def
          using bufs made(2,3) s1 s2 clk_back reg_back
          by (simp add: vm_wf_def clk_fini_eq regulator_fini_eq del: One_nat_def)
        have "unpiped ?u" using fr(5) s2 by (simp add: unpiped_def)
        moreover have "dma_contract ?u" using km(2) by (simp add: dma_contract_def)
        ultimately have "stage_up s ?u (dev_init_vas B ?u) \<or> stage_undone s ?u (dev_init_vas B ?u)"
          using init_vas_result [OF h _ B] fr s2 by simp
        moreover have "lima_device_init f B s = dev_init_vas B ?u" by (simp add: init made)
        ultimately show ?thesis using stage_frame [of ?u ?t] s2 by simp
      qed
    qed
  qed
qed

section \<open>Taking a device down\<close>

lemma device_fini_eq:
  "lima_device_fini s = do { s \<leftarrow> lima_fini_pp_pipe s; s \<leftarrow> lima_fini_gp_pipe s; dev_err_out4 s }"
  by (simp add: lima_device_fini_def dev_err_out4_def dev_err_out3_def dev_err_out2_def dev_err_out1_def
      dev_err_out0_def map_conv_bind_option Let_def comp_def)

lemma device_fini_gives_back:
  assumes h: "holds r s" and sl: "dv_slab s = slab_users (dv_slab r)" "\<forall>p. slab_ok (dv_slab r p)" and up: "dev_up (cs_dev s)"
  shows "\<exists>s'. lima_device_fini s = Some s' \<and>
    dev_ledger s' = (km_live r, dm_live r, dv_clk_count r, dv_reg_count r, \<lambda>_. False, dv_slab r) \<and>
    dv_power s' = lima_platform_power_off (dv_power s)"
proof -
  let ?d1 = "pipe_upd lima_pipe_pp (\<lambda>y. y\<lparr>p_wq := False\<rparr>) (cs_dev s)"
  let ?d2 = "pipe_upd lima_pipe_gp (\<lambda>y. y\<lparr>p_wq := False\<rparr>) ?d1"
  let ?t = "s\<lparr>cs_dev := ?d2, dv_slab := dv_slab r\<rparr>"
  have wq: "p_wq (pipe_of lima_pipe_gp s)" "p_wq (pipe_of lima_pipe_pp s)"
    using up by (simp_all add: dev_up_def gp_pipe_up_def pp_pipe_up_def Let_def)
  define f1 where "f1 = (dv_slab s)(lima_pipe_pp := lima_pp_pipe_fini (dv_slab s lima_pipe_pp))"
  have f2: "f1(lima_pipe_gp := lima_gp_pipe_fini (f1 lima_pipe_gp)) = dv_slab r"
    by (rule ext, case_tac x) (use sl slab_back in \<open>simp_all add: f1_def slab_users_def\<close>)
  have pp: "lima_fini_pp_pipe s = Some (s\<lparr>cs_dev := ?d1, dv_slab := f1\<rparr>)"
    using wq by (simp add: lima_fini_pp_pipe_def lima_sched_pipe_fini_def f1_def)
  have gp: "lima_fini_gp_pipe (s\<lparr>cs_dev := ?d1, dv_slab := f1\<rparr>) = Some ?t"
    using wq f2 by (simp add: lima_fini_gp_pipe_def lima_sched_pipe_fini_def del: fun_upd_apply)
       (simp add: pipe_upd_def)
  have t: "holds r ?t" using h by (rule holds_dev) simp
  have off: "\<not> p_wq (pipe_of p ?t)" for p by (cases p) (simp_all add: pipe_upd_def)
  have none: "(\<lambda>p. p_wq (pipe_of p ?t)) = (\<lambda>_. False)" using off by blast
  from err_out4_gives_back [OF t] show ?thesis
    unfolding none by (simp add: device_fini_eq pp gp)
qed

section \<open>Properties\<close>

lemma device_init_cases:
  assumes fresh: "dev_fresh s" and B: "board_ok B" and run: "lima_device_init f B s = Some (err, s')"
  obtains (up) w where "err = 0" "holds s s'" "dv_slab s' = slab_users (dv_slab s)"
      "lima_platform_power_on f (dv_power s) = Some (0, w)" "dv_power s' = w"
      "dev_id (cs_dev s') = dev_id (cs_dev s)" "dev_up (cs_dev s')"
  | (unpowered) w where "err \<noteq> 0" "lima_platform_power_on f (dv_power s) = Some (err, w)" "s' = s\<lparr>dv_power := w\<rparr>"
  | (undone) w where "err \<noteq> 0" "lima_platform_power_on f (dv_power s) = Some (0, w)"
      "dv_power s' = lima_platform_power_off w" "dev_ledger s' = dev_ledger s"
proof -
  obtain e w where on: "lima_platform_power_on f (dv_power s) = Some (e, w)"
    using run by (auto simp: lima_device_init_def bind_eq_Some_conv)
  show thesis
  proof (cases "e = 0")
    case False
    then show thesis using unpowered [of w] run on by (simp add: lima_device_init_def)
  next
    case True
    have led: "dev_ledger s = (km_live s, dm_live s, dv_clk_count s, dv_reg_count s, \<lambda>_. False, dv_slab s)"
      using fresh by (simp add: dev_ledger_def dev_fresh_def)
    from device_init_result [OF fresh B, of f w] on True run
    consider "stage_up s (s\<lparr>dv_power := w\<rparr>) (Some (err, s'))" | "stage_undone s (s\<lparr>dv_power := w\<rparr>) (Some (err, s'))"
      by auto
    then show thesis
    proof cases
      case 1
      with on True show thesis by (intro up [of w]) (auto simp: stage_up_def)
    next
      case 2
      with on True led show thesis by (intro undone [of w]) (auto simp: stage_undone_def)
    qed
  qed
qed

text \<open>
  C24. A bring-up that succeeds leaves a working device: every block the GPU must have is
  present, every block that is present lies at its offset in the register window, the geometry
  pipe has its processor, MMU and cache and a workqueue and no task, the pixel pipe has exactly
  the processors whose MMU and L2 cache are present too, in order, with their MMUs, and
  \<open>num_pp\<close>, which user space is told, counts them; it is at least one.
\<close>

theorem device_init_brings_up:
  assumes "dev_fresh s" and "board_ok B" and "lima_device_init f B s = Some (0, s')"
  shows "(\<forall>i. di_must_have (lima_ip_desc i) (dev_id (cs_dev s)) \<longrightarrow> ip_present (dev_ip (cs_dev s') i)) \<and>
    ips_ok (cs_dev s') \<and> gp_pipe_up (cs_dev s') \<and> pp_pipe_up (cs_dev s') \<and> 1 \<le> dev_num_pp (cs_dev s')"
  using assms
proof (cases rule: device_init_cases)
  case (up w)
  let ?d = "cs_dev s'"
  have must: "\<forall>i. di_must_have (lima_ip_desc i) (dev_id ?d) \<longrightarrow> ip_present (dev_ip ?d i)" and pp: "pp_pipe_up ?d"
    using up by (simp_all add: dev_up_def)
  have "ip_present (dev_ip ?d lima_ip_pp0)" "ip_present (dev_ip ?d lima_ip_ppmmu0)"
    "ip_present (dev_ip ?d (pp_l2_cache (dev_id ?d) 0))"
    by (intro must [rule_format]; cases "dev_id ?d"; simp add: LIMA_IP_DESC_def pp_l2_cache_def)+
  then have "pp_usable ?d 0" by (simp add: pp_usable_def lima_pps_def lima_ppmmus_def)
  then have "0 \<in> set (filter (pp_usable ?d) [0..<8])" by simp
  then have "1 \<le> length (filter (pp_usable ?d) [0..<8])" by (cases "filter (pp_usable ?d) [0..<8]") auto
  then have "1 \<le> dev_num_pp ?d" using pp by (simp add: pp_pipe_up_def Let_def)
  with up must show ?thesis by (simp add: dev_up_def)
qed simp_all

text \<open>
  C25. Whatever step a bring-up fails at, the error labels give back exactly what was taken: the
  heap, the DMA buffers, the enabled clocks and regulator, the workqueues and the slabs are as
  before, and the power domain, when it had come up, is switched off. With the bounded sampling
  of \<open>authored\<close> the bring-up always returns.
\<close>

theorem failed_init_gives_back:
  assumes "dev_fresh s" and "board_ok B"
  shows "\<exists>err s'. lima_device_init (\<lambda>w. Some (sprd_gpu_domain_state_bounded w)) B s = Some (err, s') \<and>
    (err \<noteq> 0 \<longrightarrow> dev_ledger s' = dev_ledger s \<and>
      (\<exists>e w. lima_platform_power_on (\<lambda>w. Some (sprd_gpu_domain_state_bounded w)) (dv_power s) = Some (e, w) \<and>
         dv_power s' = (if e = 0 then lima_platform_power_off w else w)))"
proof -
  let ?f = "\<lambda>w. Some (sprd_gpu_domain_state_bounded w)"
  obtain e w where on: "lima_platform_power_on ?f (dv_power s) = Some (e, w)" by (rule power_on_returns)
  obtain err s' where run: "lima_device_init ?f B s = Some (err, s')"
  proof (cases "e = 0")
    case False
    then show thesis using that on by (simp add: lima_device_init_def)
  next
    case True
    then show thesis using that device_init_result [OF assms, of ?f w] on
      unfolding stage_up_def stage_undone_def by blast
  qed
  have "dev_ledger (s\<lparr>dv_power := w\<rparr>) = dev_ledger s" for w by (simp add: dev_ledger_def)
  with assms run run show ?thesis by (cases rule: device_init_cases) auto
qed

section \<open>A concrete device\<close>

text \<open>
  A Mali-400 with one processor of each kind whose registers answer as the hardware does, on a
  board without clocks and regulator that knows the interrupts of these blocks only, and a
  device as \<open>kzalloc\<close> leaves it.
\<close>

definition boot_rsp :: "io list \<Rightarrow> u32 \<Rightarrow> u32" where
  "boot_rsp h a =
     (if a = 0x3000 \<or> a = 0x4000 then (case h of Wr _ v # _ \<Rightarrow> if v = 0xCAFEBABE then 0xCAFEB000 else 0 | _ \<Rightarrow> 0)
      else if a = 0x3004 \<or> a = 0x4004 then 1
      else if a = LIMA_GP_INT_RAWSTAT then LIMA_GP_IRQ_RESET_COMPLETED
      else if a = 0x8000 + LIMA_PP_INT_RAWSTAT then LIMA_PP_IRQ_RESET_COMPLETED
      else 0)"

definition boot_board :: board where
  "boot_board = \<lparr>bd_clk_get = (\<lambda>_. False), bd_clk_enable = (\<lambda>_. 0), bd_regulator_get = - ENODEV, bd_regulator_enable = 0,
     bd_resource = True, bd_ioremap = Inr 0,
     bd_irq = (\<lambda>n. if n \<in> {''gp'', ''pp0'', ''gpmmu'', ''ppmmu0''} then 5 else - ENODEV),
     bd_workqueue = (\<lambda>_. True), bd_slab = (\<lambda>_. True)\<rparr>"

definition boot_like :: "lima_device \<Rightarrow> bool" where
  "boot_like d \<longleftrightarrow> bus_resp d = boot_rsp \<and> dev_iomem d = 0 \<and> dev_id d = lima_gpu_mali400 \<and> dev_request_irq d = (\<lambda>_. 0)"

lemma boot_must: "di_must_have (lima_ip_desc i) lima_gpu_mali400 \<longleftrightarrow>
    i \<in> {lima_ip_l2_cache0, lima_ip_gp, lima_ip_pp0, lima_ip_gpmmu, lima_ip_ppmmu0}"
  by (cases i) (simp_all add: LIMA_IP_DESC_def)

lemma init_ip_optional: "\<not> di_must_have (lima_ip_desc i) (dev_id d) \<Longrightarrow> result (lima_init_ip B i) d = 0"
  by (simp add: lima_init_ip_def Let_def)

lemma poll_first: "cond (peek d i r) \<Longrightarrow>
    run_state (readl_poll_timeout i r cond) d = (0, log_io (Rd (ip_reg d i r) (peek d i r)) d)"
  by (simp add: readl_poll_timeout_def, subst readl_poll_loop.simps) (simp add: hw_simps)

lemma poll_func_first: "result f d \<Longrightarrow> run_state (lima_poll_timeout f) d = (0, exec f d)"
  by (simp add: lima_poll_timeout_def, subst lima_poll_loop.simps) simp

lemma boot_peek: "boot_like d \<Longrightarrow> peek d i r = boot_rsp (bus_trace d) (ip_iomem (dev_ip d i) + r)"
  by (simp add: boot_like_def peek_def ip_reg_def)

lemma boot_like_frame [simp]: "boot_like (log_io e d) = boot_like d" "boot_like (ip_upd i f d) = boot_like d"
  "boot_like (d\<lparr>dev_gp_version := v\<rparr>) = boot_like d" "boot_like (d\<lparr>dev_pp_version := v\<rparr>) = boot_like d"
  by (simp_all add: boot_like_def)

lemma boot_irq: "boot_like d \<Longrightarrow> dev_request_irq d i = 0"
  by (simp add: boot_like_def)

lemma boot_gp: "boot_like d \<Longrightarrow> ip_iomem (dev_ip d lima_ip_gp) = 0 \<Longrightarrow> result (lima_gp_init lima_ip_gp) d = 0"
  by (simp add: lima_gp_init_def lima_gp_print_version_def lima_gp_soft_reset_async_def lima_gp_soft_reset_async_wait_def
      set_async_reset_def hw_simps poll_first boot_peek boot_rsp_def regs boot_irq)

lemma boot_l2: "boot_like d \<Longrightarrow> ip_iomem (dev_ip d lima_ip_l2_cache0) = 0x1000 \<Longrightarrow> result (lima_l2_cache_init lima_ip_l2_cache0) d = 0"
  by (simp add: lima_l2_cache_init_def lima_l2_cache_flush_def lima_l2_cache_wait_idle_def
      hw_simps poll_first boot_peek boot_rsp_def regs boot_irq)

lemma boot_pp: "boot_like d \<Longrightarrow> ip_iomem (dev_ip d lima_ip_pp0) = 0x8000 \<Longrightarrow> result (lima_pp_init lima_ip_pp0) d = 0"
  by (simp add: lima_pp_init_def lima_pp_print_version_def lima_pp_soft_reset_async_def lima_pp_soft_reset_async_wait_def
      lima_pp_soft_reset_async_wait_one_def lima_pp_soft_reset_poll_def poll_func_first
      set_async_reset_def hw_simps poll_first boot_peek boot_rsp_def regs boot_irq)

lemma boot_mmu: "boot_like d \<Longrightarrow> i = lima_ip_gpmmu \<and> ip_iomem (dev_ip d i) = 0x3000 \<or> i = lima_ip_ppmmu0 \<and> ip_iomem (dev_ip d i) = 0x4000 \<Longrightarrow>
    result (lima_mmu_init i) d = 0"
  by (auto simp add: lima_mmu_init_def lima_mmu_send_command_def
      hw_simps poll_first boot_peek boot_rsp_def regs boot_irq)

lemma boot_init_ip:
  assumes "boot_like d"
  shows "result (lima_init_ip boot_board i) d = 0"
proof (cases "di_must_have (lima_ip_desc i) (dev_id d)")
  case False
  then show ?thesis by (rule init_ip_optional)
next
  case True
  have g: "dev_id d = lima_gpu_mali400" "dev_iomem d = 0" using assms by (simp_all add: boot_like_def)
  with True boot_must [of i] have "i \<in> {lima_ip_l2_cache0, lima_ip_gp, lima_ip_pp0, lima_ip_gpmmu, lima_ip_ppmmu0}" by simp
  then show ?thesis
    using assms g
    by (elim insertE emptyE; simp add: lima_init_ip_def LIMA_IP_DESC_def boot_board_def boot_gp boot_l2 boot_pp boot_mmu)
qed

lemma boot_init_ips:
  assumes "boot_like d"
  shows "fst (result (lima_init_ips boot_board ks n) d) = 0"
  using assms
proof (induction ks arbitrary: n d)
  case (Cons k ks)
  have "ips_beside d (exec (lima_init_ip boot_board k) d)" by (rule init_ip_spec)
  then have "boot_like (exec (lima_init_ip boot_board k) d)" using Cons.prems by (simp add: ips_beside_def boot_like_def)
  then show ?case using Cons.IH boot_init_ip [OF Cons.prems, of k] by simp
qed simp

lemma boot_blocks_run:
  assumes "boot_like (cs_dev s)"
  shows "\<exists>s'. dev_init_blocks boot_board s = Some (0, s')"
proof -
  obtain i d where run: "run_state (lima_init_ips boot_board lima_ips 0) (cs_dev s) = ((0, i), d)"
    using boot_init_ips [OF assms, of lima_ips 0] by (metis prod.collapse)
  have gp: "\<exists>t. lima_init_gp_pipe boot_board s = Some (0, t)" for s :: "'a dev_st_scheme"
    by (simp add: lima_init_gp_pipe_def boot_board_def lima_sched_pipe_init_def on_slab_def lima_gp_pipe_init_def)
  have pp: "\<exists>t. lima_init_pp_pipe boot_board s = Some (0, t)" for s :: "'a dev_st_scheme"
    by (simp add: lima_init_pp_pipe_def boot_board_def lima_sched_pipe_init_def on_slab_def lima_pp_pipe_init_def Let_def)
  obtain t where t: "lima_init_gp_pipe boot_board (s\<lparr>cs_dev := d\<rparr>) = Some (0, t)" using gp by blast
  obtain u where u: "lima_init_pp_pipe boot_board t = Some (0, u)" using pp by blast
  show ?thesis by (simp add: dev_init_blocks_def run t u)
qed

definition boot_power :: power where
  "boot_power = \<lparr>pw_pmu = \<lparr>pm_sample = (\<lambda>_. 0), pm_ready = 0, pm_n = 0, pm_log = []\<rparr>,
     pw_data = Some \<lparr>pd_gpu_id = 0, pd_power_on = Some 0, pd_power_off = True\<rparr>, pw_board_on = 0, pw_board_off = 0\<rparr>"

definition boot_dev :: lima_device where
  "boot_dev = (dev_demo boot_rsp 0)\<lparr>dev_ip := (\<lambda>_. \<lparr>ip_present = False, ip_iomem = 0, ip_irq = 0, ip_async_reset = False\<rparr>),
     dev_pipe := (\<lambda>p. (dev_pipe (dev_demo boot_rsp 0) p)\<lparr>p_wq := False\<rparr>)\<rparr>"

definition boot_demo :: dev_st where
  "boot_demo = ctx_st.extend (ctx_demo\<lparr>cs_dev := boot_dev\<rparr>)
     (dev_st.fields boot_power False False False (\<lambda>_. 0) 0 0 0 0 False (\<lambda>_. \<lparr>ts_slab = False, ts_refcnt = 0\<rparr>))"

lemma boot_demo_fresh: "dev_fresh boot_demo"
proof -
  have "kmem_wf boot_demo" "dma_contract boot_demo"
    using space_invD(1) [OF demo_space] demo_contracts(1)
    by (simp_all add: boot_demo_def ctx_st.defs dev_st.defs ctx_demo_defs space_demo_def kmem_wf_def dma_contract_def)
  then show ?thesis
    by (simp add: dev_fresh_def) (simp add: boot_demo_def ctx_st.defs dev_st.defs boot_dev_def dev_demo_def slab_ok_def)
qed

lemma boot_board_ok: "board_ok boot_board"
  by (simp add: board_ok_def boot_board_def)

lemma boot_demo_runs: "\<exists>s'. lima_device_init f boot_board boot_demo = Some (0, s')"
proof -
  let ?w = "boot_power\<lparr>pw_board_on := Suc 0\<rparr>"
  have on: "lima_platform_power_on f (dv_power boot_demo) = Some (0, ?w)"
    by (simp add: boot_demo_def ctx_st.defs dev_st.defs boot_power_def lima_platform_power_on_def)
  define s2 where "s2 = boot_demo\<lparr>dv_power := ?w\<rparr>"
  have clk: "lima_clk_init boot_board s2 = (0, s2)"
    by (simp add: lima_clk_init_def boot_board_def s2_def) (simp add: boot_demo_def ctx_st.defs dev_st.defs)
  have reg: "lima_regulator_init boot_board s2 = (0, s2)"
    by (simp add: lima_regulator_init_def boot_board_def s2_def) (simp add: boot_demo_def ctx_st.defs dev_st.defs)
  have f: "\<not> dv_dlbu_cpu s2" "cs_dev s2 = boot_dev" "km_ok s2 n" "km_n s2 = 20"
    "dm_alloc s2 = dm_alloc (dma_demo 2)" "dm_n s2 = 0" "dm_live s2 = {(0x1000, 4096)}" for n
    by (simp_all add: s2_def boot_demo_def ctx_st.defs dev_st.defs ctx_demo_defs space_demo_def)
  have dm: "dm_alloc (dma_demo 2) 0 {(0x1000, 4096)} LIMA_PAGE_SIZE = Some 0x8000"
    by (simp add: dma_demo_def buf_disjoint_def regs)
  let ?s = "s2\<lparr>km_n := 21, dm_n := 1, km_live := insert 20 (km_live s2),
          dm_live := insert (0x8000, LIMA_PAGE_SIZE) (dm_live s2),
          vs_vms := (vs_vms s2)(20 \<mapsto> (fresh_vm 0x8000)\<lparr>vm_mm := \<lparr>mm_start = dv_va_start s2, mm_size = dv_va_end s2 - dv_va_start s2, mm_nodes = []\<rparr>\<rparr>)\<rparr>"
  have vm: "lima_vm_create None (dv_va_start s2) (dv_va_end s2) s2 = Some (Some 20, ?s)"
    by (simp add: vm_create_eq kzalloc_def f dma_alloc_wc_def dm map_dlbu_def vm_upd_def)
  let ?u = "?s\<lparr>dv_empty_vm := 20, cs_dev := boot_dev\<lparr>dev_empty_vm_pd := 0x8000\<rparr>\<rparr>"
  have b: "bd_resource boot_board" "bd_ioremap boot_board = Inr 0" "dev_id boot_dev = lima_gpu_mali400"
    by (simp_all add: boot_board_def boot_dev_def dev_demo_def)
  have "lima_device_init f boot_board boot_demo = dev_init_vas boot_board ?u"
    using f by (simp add: lima_device_init_def on s2_def [symmetric] clk reg vm)
  also have "\<dots> = dev_init_blocks boot_board (?u\<lparr>dv_va_start := 0, dv_va_end := unat LIMA_VA_RESERVE_END,
      cs_dev := boot_dev\<lparr>dev_empty_vm_pd := 0x8000, dev_iomem := 0\<rparr>\<rparr>)"
    by (simp add: dev_init_vas_def dev_init_window_def b)
  finally show ?thesis
    using boot_blocks_run [of "?u\<lparr>dv_va_start := 0, dv_va_end := unat LIMA_VA_RESERVE_END,
      cs_dev := boot_dev\<lparr>dev_empty_vm_pd := 0x8000, dev_iomem := 0\<rparr>\<rparr>"]
    by (simp add: boot_like_def boot_dev_def dev_demo_def)
qed

theorem device_init_brings_up_witness:
  "\<exists>s'. lima_device_init sprd_gpu_domain_state boot_board boot_demo = Some (0, s') \<and> 1 \<le> dev_num_pp (cs_dev s')"
  using boot_demo_runs device_init_brings_up [OF boot_demo_fresh boot_board_ok] by blast

theorem failed_init_gives_back_witness:
  "\<exists>err s'. lima_device_init (\<lambda>w. Some (sprd_gpu_domain_state_bounded w)) boot_board boot_demo = Some (err, s')"
  using failed_init_gives_back [OF boot_demo_fresh boot_board_ok] by blast

end
