(* ===== verification/Lima_Entry.thy ===== *)
theory Lima_Entry
  imports Lima_Drv Lima_Boot
begin

text \<open>
  Properties of the entry points: what the submission ioctl leaves behind when it fails and what
  it guarantees about the frame when it succeeds, opening and closing a file, probing and
  removing the device.
\<close>

section \<open>The task of an ioctl\<close>

lemma task_new_heap:
  assumes wf: "heap_wf s" and t: "t \<in> heap_plain s"
  shows "heap_wf (task_set t (Some x) s)" and "heap_plain (task_set t (Some x) s) = heap_plain s - {t}"
proof -
  have oth: "heap_others (task_set t (Some x) s) = insert t (heap_others s)" by (auto simp: heap_others_def task_set_def)
  show "heap_plain (task_set t (Some x) s) = heap_plain s - {t}"
    unfolding heap_plain_def oth by (auto simp: task_set_def)
  have "fence_wf (task_set t (Some x) s)" "vms_wf (task_set t (Some x) s)"
    using wf by (auto simp: heap_wf_def fence_wf_def kmem_wf_def vms_wf_def vm_wf_def task_set_def)
  moreover have "t \<notin> dom (vs_bos s)" "t \<notin> dom (cs_ctxs s)" "t \<notin> dom (fs_fences s)" "t \<notin> dom (vs_vms s)" "t \<in> km_live s"
    using t unfolding heap_plain_def heap_others_def by blast+
  ultimately show "heap_wf (task_set t (Some x) s)"
    using wf unfolding heap_wf_def oth by (auto simp: task_set_def)
qed

lemma task_free_heap:
  assumes wf: "heap_wf s" and t: "task_of s t \<noteq> None"
  shows "\<exists>s'. kfree (Some t) (task_set t None s) = Some s' \<and> heap_wf s' \<and> heap_plain s' = heap_plain s \<and>
    task_of s' = (task_of s)(t := None) \<and> fs_fences s' = fs_fences s \<and> vs_vms s' = vs_vms s \<and> vs_bos s' = vs_bos s \<and>
    cs_ctxs s' = cs_ctxs s \<and> dev_pipe (cs_dev s') = dev_pipe (cs_dev s)"
proof -
  have live: "t \<in> km_live s" "t \<notin> dom (fs_fences s)" "t \<notin> dom (vs_vms s)" "t \<notin> dom (vs_bos s)" "t \<notin> dom (cs_ctxs s)"
    using wf t unfolding heap_wf_def heap_others_def by blast+
  let ?s = "(task_set t None s)\<lparr>km_live := km_live s - {t}\<rparr>"
  have run: "kfree (Some t) (task_set t None s) = Some ?s" using live(1) by (simp add: kfree_def task_set_def)
  have oth: "heap_others ?s = heap_others s - {t}" using live by (auto simp: heap_others_def task_set_def)
  have "t \<in> heap_others s" using t by (auto simp: heap_others_def)
  then have plain: "heap_plain ?s = heap_plain s" unfolding heap_plain_def oth by (auto simp: task_set_def)
  have "fence_wf ?s" "vms_wf ?s"
    using wf live by (auto simp: heap_wf_def fence_wf_def kmem_wf_def vms_wf_def vm_wf_def task_set_def)
  then have "heap_wf ?s" using wf unfolding heap_wf_def oth by (auto simp: task_set_def)
  with run plain show ?thesis by (simp add: task_set_def)
qed

text \<open>A failed call leaves every count, block, context, task and queue as it was.\<close>

definition undone :: "'a ctx_st_scheme \<Rightarrow> 'a ctx_st_scheme \<Rightarrow> bool" where
  "undone r s \<longleftrightarrow> heap_wf s \<and> frefs s = frefs r \<and> vrefs s = vrefs r \<and> brefs s = brefs r \<and> heap_plain s = heap_plain r \<and>
     cs_ctxs s = cs_ctxs r \<and> task_of s = task_of r \<and> dev_pipe (cs_dev s) = dev_pipe (cs_dev r)"

lemma undone_refl [simp]: "undone s s \<longleftrightarrow> heap_wf s"
  by (simp add: undone_def)

text \<open>A file that is ready to submit, but for the task.\<close>

definition file_ready :: "handles \<Rightarrow> nat \<Rightarrow> 'a ctx_st_scheme \<Rightarrow> bool" where
  "file_ready H vm s \<longleftrightarrow> heap_wf s \<and> handles_ok H vm s \<and> 0 < vrefs s vm \<and> resvs_own s"

lemma file_ready_same:
  assumes "file_ready H vm s" and "heap_wf s'" and "fs_fences s' = fs_fences s" and "vs_vms s' = vs_vms s" and "vs_bos s' = vs_bos s"
  shows "file_ready H vm s'"
proof -
  have "frefs s' = frefs s" "vrefs s' = vrefs s" "resv_of s' = resv_of s"
    using assms(3-5) by (simp_all add: frefs_def vrefs_def resv_of_def fun_eq_iff)
  then show ?thesis
    using assms resvs_own_view [of s s'] by (simp add: file_ready_def handles_ok_def)
qed

text \<open>
  What the ioctl has achieved when it returns 0: relative to the state before, there is a new
  task \<open>t\<close> with the frame of the user's memory, submitted with the objects of the user's array.
\<close>

definition ioctl_submitted ::
    "user_mem \<Rightarrow> handles \<Rightarrow> nat \<Rightarrow> drm_lima_gem_submit \<Rightarrow> nat \<Rightarrow> lima_pipe_id \<Rightarrow> 'a ctx_st_scheme \<Rightarrow> 'a ctx_st_scheme \<Rightarrow> bool" where
  "ioctl_submitted U H vm args ctx p r s \<longleftrightarrow> (\<exists>w bos t a.
     um_words U (gs_frame args) (unat (gs_frame_size args)) = Some w \<and>
     um_bos U (gs_bos args) (unat (gs_nr_bos args)) = Some bos \<and>
     task_of r t = None \<and> task_of a = (task_of r)(t \<mapsto> zeroed_task\<lparr>t_frame := w\<rparr>) \<and>
     fs_fences a = fs_fences r \<and> vs_vms a = vs_vms r \<and> vs_bos a = vs_bos r \<and> cs_ctxs a = cs_ctxs r \<and>
     dev_pipe (cs_dev a) = dev_pipe (cs_dev r) \<and>
     synchronised H vm (submit_of_args args ctx p bos t) a s \<and> arrays_taken t r s)"

lemma synchronised_km: "synchronised H vm sub a (s\<lparr>km_live := m\<rparr>) = synchronised H vm sub a s"
proof -
  have e: "frefs (s\<lparr>km_live := m\<rparr>) = frefs s" "vrefs (s\<lparr>km_live := m\<rparr>) = vrefs s" "brefs (s\<lparr>km_live := m\<rparr>) = brefs s"
    "resv_of (s\<lparr>km_live := m\<rparr>) = resv_of s"
    by (simp_all add: frefs_def vrefs_def brefs_def resv_of_def fun_eq_iff)
  show ?thesis by (simp add: synchronised_def fences_moved_def excl_count_def e)
qed

lemma arrays_taken_freed:
  assumes "arrays_taken t r s" and "heap_plain r' = heap_plain r - P" and "heap_plain s' = heap_plain s - P"
    and "P \<subseteq> heap_plain r" and "task_of s' = task_of s"
  shows "arrays_taken t r' s'"
proof -
  from assms(1) obtain x where x: "task_of s t = Some x"
    "heap_plain s = set_option (t_bos_arr x) \<union> set_option (t_deps_arr x) \<union> heap_plain r"
    "set_option (t_bos_arr x) \<inter> set_option (t_deps_arr x) = {}"
    "(set_option (t_bos_arr x) \<union> set_option (t_deps_arr x)) \<inter> heap_plain r = {}" unfolding arrays_taken_def by blast
  have "heap_plain s' = set_option (t_bos_arr x) \<union> set_option (t_deps_arr x) \<union> heap_plain r'"
    unfolding assms(2,3) x(2) using x(4) assms(4) by blast
  moreover have "(set_option (t_bos_arr x) \<union> set_option (t_deps_arr x)) \<inter> heap_plain r' = {}"
    unfolding assms(2) using x(4) by blast
  ultimately show ?thesis unfolding arrays_taken_def using x(1,3) assms(5) by auto
qed

lemma ioctl_task_heap:
  assumes f: "file_ready H vm s" and c: "cs_ctxs s ctx \<noteq> None" and bos: "um_bos U (gs_bos args) (unat (gs_nr_bos args)) = Some bos"
  shows "\<exists>err s'. ioctl_submit_task U Z (\<lambda>s. s) H vm args ctx p bos s = Some (err, s') \<and> heap_wf s' \<and> heap_plain s \<subseteq> heap_plain s' \<and>
    (if err = 0 then ioctl_submitted U H vm args ctx p s s' else undone s s')"
proof -
  have wf: "heap_wf s" using f by (simp add: file_ready_def)
  obtain k s1 where kz: "kzalloc s = (k, s1)" by fastforce
  note a = kzalloc_heap [OF wf kz] and as = kzalloc_same [OF kz]
  show ?thesis
  proof (cases k)
    case None
    then have "ioctl_submit_task U Z (\<lambda>s. s) H vm args ctx p bos s = Some (- ENOMEM, s1)" by (simp add: ioctl_submit_task_def kz)
    moreover have "undone s s1" using a(1,3) as None by (simp add: undone_def)
    ultimately show ?thesis using a(1,3) by (intro exI [of _ "- ENOMEM"] exI [of _ s1]) simp
  next
    case (Some t)
    have t: "t \<in> heap_plain s1" "t \<notin> heap_plain s" "t \<notin> km_live s" using a(3,4) Some by (auto simp: heap_plain_def)
    have tn: "task_of s t = None" using t(3) wf unfolding heap_wf_def heap_others_def by blast
    have plain: "heap_plain s1 - {t} = heap_plain s" using a(3) t(2) Some by auto
    show ?thesis
    proof (cases "um_words U (gs_frame args) (unat (gs_frame_size args))")
      case None
      let ?s2 = "task_set t (Some zeroed_task) s1"
      note n = task_new_heap [OF a(1) t(1), of zeroed_task]
      have "task_of ?s2 t \<noteq> None" by (simp add: task_set_def)
      from task_free_heap [OF n(1) this] obtain s' where s': "kfree (Some t) (task_set t None ?s2) = Some s'" "heap_wf s'"
        "heap_plain s' = heap_plain ?s2" "task_of s' = (task_of ?s2)(t := None)" "fs_fences s' = fs_fences ?s2"
        "vs_vms s' = vs_vms ?s2" "vs_bos s' = vs_bos ?s2" "cs_ctxs s' = cs_ctxs ?s2" "dev_pipe (cs_dev s') = dev_pipe (cs_dev ?s2)"
        by blast
      have "ioctl_submit_task U Z (\<lambda>s. s) H vm args ctx p bos s = Some (- EFAULT, s')"
        by (simp add: ioctl_submit_task_def kz Some None s'(1))
      moreover have "undone s s'"
        using s' n(2) as plain tn by (simp add: undone_def task_set_def frefs_def vrefs_def brefs_def fun_eq_iff)
      ultimately show ?thesis using s'(2,3) n(2) plain by (intro exI [of _ "- EFAULT"] exI [of _ s']) simp
    next
      case w: (Some w)
      let ?x = "zeroed_task\<lparr>t_frame := w\<rparr>"
      let ?s2 = "task_set t (Some ?x) s1"
      let ?sub = "submit_of_args args ctx p bos t"
      note n = task_new_heap [OF a(1) t(1), of ?x]
      have s2: "fs_fences ?s2 = fs_fences s" "vs_vms ?s2 = vs_vms s" "vs_bos ?s2 = vs_bos s" "cs_ctxs ?s2 = cs_ctxs s"
        "task_of ?s2 = (task_of s)(t \<mapsto> ?x)" "dev_pipe (cs_dev ?s2) = dev_pipe (cs_dev s)" "heap_plain ?s2 = heap_plain s"
        using as n(2) plain by (simp_all add: task_set_def)
      have sub: "su_task ?sub = t" "su_ctx ?sub = ctx" by (simp_all add: submit_of_args_def)
      from file_ready_same [OF f n(1) s2(1-3)] have "submit_ready H vm ?sub ?s2"
        using c by (simp add: submit_ready_def file_ready_def sub s2)
      then show ?thesis
      proof (cases rule: gem_submit_heap [where Z = Z, case_names refused queued])
        case (refused err s3)
        have "task_of s3 t \<noteq> None" "heap_wf s3" using refused(3) by (auto simp: unsubmitted_def sub)
        from task_free_heap [OF this(2,1)] obtain s' where s': "kfree (Some t) (task_set t None s3) = Some s'" "heap_wf s'"
          "heap_plain s' = heap_plain s3" "task_of s' = (task_of s3)(t := None)" "fs_fences s' = fs_fences s3"
          "vs_vms s' = vs_vms s3" "vs_bos s' = vs_bos s3" "cs_ctxs s' = cs_ctxs s3" "dev_pipe (cs_dev s') = dev_pipe (cs_dev s3)"
          by blast
        have eq: "frefs s' = frefs s3" "vrefs s' = vrefs s3" "brefs s' = brefs s3"
          "frefs ?s2 = frefs s" "vrefs ?s2 = vrefs s" "brefs ?s2 = brefs s"
          using s'(5-7) s2(1-3) by (simp_all add: frefs_def vrefs_def brefs_def fun_eq_iff)
        have "ioctl_submit_task U Z (\<lambda>s. s) H vm args ctx p bos s = Some (err, s')"
          by (simp add: ioctl_submit_task_def kz Some w refused(1,2) s'(1))
        moreover have "undone s s'"
          using refused(3) s' eq s2 tn by (auto simp: undone_def unsubmitted_def sub)
        ultimately show ?thesis using refused(1) s'(2) by (intro exI [of _ err] exI [of _ s']) (simp add: undone_def)
      next
        case (queued f arr c' s4 s')
        have "ioctl_submit_task U Z (\<lambda>s. s) H vm args ctx p bos s = Some (0, s')"
          by (simp add: ioctl_submit_task_def kz Some w queued(2))
        moreover have "heap_plain s \<subseteq> heap_plain s'" using queued(8) s2(7) by (auto simp: arrays_taken_def)
        moreover have "arrays_taken t s s'" using queued(8) s2(7) by (simp add: arrays_taken_def sub)
        then have "ioctl_submitted U H vm args ctx p s s'"
          unfolding ioctl_submitted_def using w bos tn queued(4) s2 by blast
        ultimately show ?thesis using queued(3) by (intro exI [of _ 0] exI [of _ s']) simp
      qed
    qed
  qed
qed

text \<open>The state with the reference that \<open>lima_ctx_get\<close> took.\<close>

definition ctx_held :: "nat \<Rightarrow> 'a ctx_st_scheme \<Rightarrow> 'a ctx_st_scheme" where
  "ctx_held k s = ctx_upd k ((the (cs_ctxs s k))\<lparr>cx_refcount := Suc (cx_refcount (the (cs_ctxs s k)))\<rparr>) s"

lemma ctx_held_fields:
  "fs_fences (ctx_held k s) = fs_fences s" "vs_vms (ctx_held k s) = vs_vms s" "vs_bos (ctx_held k s) = vs_bos s"
  "cs_dev (ctx_held k s) = cs_dev s" "cs_ctxs (ctx_held k s) k \<noteq> None"
  by (simp_all add: ctx_held_def ctx_upd_def)

lemma undone_trans_ctx:
  assumes "undone (ctx_held k s) s1" and "cs_ctxs s k = Some c" and "0 < cx_refcount c" and wf: "heap_wf s"
  shows "\<exists>s'. lima_ctx_put Z (Some k) s1 = Some s' \<and> undone s s'"
proof -
  let ?c = "c\<lparr>cx_refcount := Suc (cx_refcount c)\<rparr>"
  have plain: "heap_plain (ctx_held k s) = heap_plain s"
    using ctx_upd_heap [OF wf assms(2)] by (simp add: ctx_held_def)
  have s1: "heap_wf s1" "frefs s1 = frefs s" "vrefs s1 = vrefs s" "brefs s1 = brefs s" "heap_plain s1 = heap_plain s"
    "cs_ctxs s1 = (cs_ctxs s)(k \<mapsto> ?c)" "task_of s1 = task_of s" "dev_pipe (cs_dev s1) = dev_pipe (cs_dev s)"
    using assms(1,2) plain by (simp_all add: undone_def ctx_held_def ctx_upd_def frefs_def vrefs_def brefs_def fun_eq_iff)
  have "cs_ctxs s1 k = Some ?c" "cx_refcount ?c \<noteq> 1 \<or> quiet ?c" using s1(6) assms(3) by simp_all
  from ctx_put_heap [OF s1(1) this, of Z] obtain s' where s': "lima_ctx_put Z (Some k) s1 = Some s'" "heap_wf s'"
    "cs_ctxs s' = (cs_ctxs s1)(k := ctx_dropped ?c)" "fs_fences s' = fs_fences s1" "vs_vms s' = vs_vms s1"
    "vs_bos s' = vs_bos s1" "cs_dev s' = cs_dev s1" "heap_plain s' = heap_plain s1" by blast
  have "frefs s' = frefs s" "vrefs s' = vrefs s" "brefs s' = brefs s"
    using s'(4-6) s1(2-4) by (simp_all add: frefs_def vrefs_def brefs_def fun_eq_iff)
  moreover have "cs_ctxs s' = cs_ctxs s" using s'(3) s1(6) assms(2,3) by (simp add: ctx_dropped_def fun_upd_idem)
  ultimately show ?thesis using s' s1 by (simp add: undone_def)
qed

lemma ioctl_bos_heap:
  assumes f: "file_ready H vm s" and c: "cs_ctxs s ctx \<noteq> None"
  shows "\<exists>err s'. ioctl_submit_bos U Z (\<lambda>s. s) H vm args ctx p s = Some (err, s') \<and> heap_wf s' \<and>
    (if err = 0 then ioctl_submitted U H vm args ctx p s s' else undone s s')"
proof -
  have wf: "heap_wf s" using f by (simp add: file_ready_def)
  obtain k s1 where kz: "kzalloc s = (k, s1)" by fastforce
  note a = kzalloc_heap [OF wf kz] and as = kzalloc_same [OF kz]
  show ?thesis
  proof (cases k)
    case None
    then have "ioctl_submit_bos U Z (\<lambda>s. s) H vm args ctx p s = Some (- ENOMEM, s1)" by (simp add: ioctl_submit_bos_def kz)
    moreover have "undone s s1" using a(1,3) as None by (simp add: undone_def)
    ultimately show ?thesis using a(1) by (intro exI [of _ "- ENOMEM"] exI [of _ s1]) simp
  next
    case (Some b)
    have f1: "file_ready H vm s1" by (rule file_ready_same [OF f a(1)]) (simp_all add: as)
    have b: "b \<in> heap_plain s1" "b \<notin> heap_plain s" using a(3,4) Some by (auto simp: heap_plain_def)
    have plain: "heap_plain s1 - {b} = heap_plain s" using a(3) b(2) Some by auto
    obtain err s2 where s2: "heap_wf s2" "heap_plain s1 \<subseteq> heap_plain s2"
      "(case um_bos U (gs_bos args) (unat (gs_nr_bos args)) of None \<Rightarrow> Some (- EFAULT, s1)
        | Some bos \<Rightarrow> ioctl_submit_task U Z (\<lambda>s. s) H vm args ctx p bos s1) = Some (err, s2)"
      "if err = 0 then ioctl_submitted U H vm args ctx p s1 s2 else undone s1 s2"
    proof (cases "um_bos U (gs_bos args) (unat (gs_nr_bos args))")
      case None
      then show thesis using a(1) that [of s1 "- EFAULT"] by simp
    next
      case (Some bos)
      with ioctl_task_heap [OF f1 _ Some, of ctx Z p] c show thesis using that by (auto simp: as)
    qed
    have "set_option (Some b) \<subseteq> heap_plain s2" using b(1) s2(2) by auto
    from kfree_heap [OF s2(1) this] obtain s' where s': "kfree (Some b) s2 = Some s'" "heap_wf s'"
      "s' = s2\<lparr>km_live := km_live s2 - {b}\<rparr>" "heap_plain s' = heap_plain s2 - {b}" by auto
    have run: "ioctl_submit_bos U Z (\<lambda>s. s) H vm args ctx p s = Some (err, s')"
      by (simp add: ioctl_submit_bos_def kz Some s2(3) s'(1))
    show ?thesis
    proof (cases "err = 0")
      case False
      then have "undone s s'"
        using s2(4) s'(2,4) plain as by (auto simp: undone_def s'(3) frefs_def vrefs_def brefs_def fun_eq_iff)
      with run s'(2) False show ?thesis by (intro exI [of _ err] exI [of _ s']) simp
    next
      case True
      then have "ioctl_submitted U H vm args ctx p s1 s2" using s2(4) by simp
      moreover have "arrays_taken t s s'" if "arrays_taken t s1 s2" for t
        by (rule arrays_taken_freed [OF that _ s'(4)]) (use b(1) plain s'(3) in auto)
      ultimately have "ioctl_submitted U H vm args ctx p s s'"
        unfolding ioctl_submitted_def s'(3) synchronised_km as by blast
      with run s'(2) True show ?thesis by (intro exI [of _ err] exI [of _ s']) simp
    qed
  qed
qed

section \<open>The submission ioctl\<close>

lemma ctx_get_held:
  assumes tab: "ctx_table mgr s" and k: "map_of (cm_handles mgr) i = Some k"
  shows "\<exists>c. cs_ctxs s k = Some c \<and> 0 < cx_refcount c \<and> lima_ctx_get mgr i s = Some (Some k, ctx_held k s)"
proof -
  have "(i, k) \<in> set (cm_handles mgr)" using k by (rule map_of_SomeD)
  then obtain c where "cs_ctxs s k = Some c" "0 < cx_refcount c" "\<not> cx_freed c" using tab unfolding ctx_table_def by blast
  then show ?thesis using k by (simp add: lima_ctx_get_def ctx_held_def)
qed

lemma ioctl_submit_heap:
  assumes f: "file_ready H (pr_vm priv) s" and tab: "ctx_table (pr_ctx_mgr priv) s"
  shows "\<exists>err s'. lima_ioctl_gem_submit U Z (\<lambda>s. s) H priv args s = Some (err, s') \<and>
    (if err = 0 then heap_wf s' \<and> (\<exists>p k. pipe_of_arg (gs_pipe args) = Some p \<and> unat (gs_frame_size args) = p_frame_size (pipe_of p s) \<and>
        map_of (cm_handles (pr_ctx_mgr priv)) (unat (gs_ctx args)) = Some k \<and>
        ioctl_submitted U H (pr_vm priv) args k p (ctx_held k s) s')
     else undone s s')"
proof -
  have wf: "heap_wf s" using f by (simp add: file_ready_def)
  have inval: ?thesis if "lima_ioctl_gem_submit U Z (\<lambda>s. s) H priv args s = Some (- EINVAL, s)"
    using that wf by (intro exI [of _ "- EINVAL"] exI [of _ s]) simp
  show ?thesis
  proof (cases "pipe_of_arg (gs_pipe args)")
    case None
    then show ?thesis by (intro inval) (simp add: lima_ioctl_gem_submit_def)
  next
    case (Some p)
    let ?bad = "gs_nr_bos args = 0 \<or> gs_flags args AND NOT LIMA_SUBMIT_FLAG_EXPLICIT_FENCE \<noteq> 0 \<or>
      unat (gs_frame_size args) \<noteq> p_frame_size (pipe_of p s) \<or> map_of (cm_handles (pr_ctx_mgr priv)) (unat (gs_ctx args)) = None"
    show ?thesis
    proof (cases ?bad)
      case True
      then show ?thesis by (intro inval) (auto simp: lima_ioctl_gem_submit_def Some lima_ctx_get_def)
    next
      case False
      then obtain k where k: "map_of (cm_handles (pr_ctx_mgr priv)) (unat (gs_ctx args)) = Some k" by blast
      from ctx_get_held [OF tab k] obtain c where c: "cs_ctxs s k = Some c" "0 < cx_refcount c"
        "lima_ctx_get (pr_ctx_mgr priv) (unat (gs_ctx args)) s = Some (Some k, ctx_held k s)" by blast
      have "heap_wf (ctx_held k s)" using ctx_upd_heap [OF wf c(1)] by (simp add: ctx_held_def)
      from file_ready_same [OF f this] have "file_ready H (pr_vm priv) (ctx_held k s)" by (simp add: ctx_held_fields)
      from ioctl_bos_heap [OF this ctx_held_fields(5), of U Z args p] obtain err s1 where
        b: "ioctl_submit_bos U Z (\<lambda>s. s) H (pr_vm priv) args k p (ctx_held k s) = Some (err, s1)" "heap_wf s1"
          "if err = 0 then ioctl_submitted U H (pr_vm priv) args k p (ctx_held k s) s1 else undone (ctx_held k s) s1" by blast
      have run: "lima_ioctl_gem_submit U Z (\<lambda>s. s) H priv args s =
          (if err \<noteq> 0 then do { s \<leftarrow> lima_ctx_put Z (Some k) s1; Some (err, s) } else Some (0, s1))"
        using False by (simp add: lima_ioctl_gem_submit_def Some c(3) b(1))
      show ?thesis
      proof (cases "err = 0")
        case True
        with run b(2,3) Some k False show ?thesis by (intro exI [of _ 0] exI [of _ s1]) simp
      next
        case bad: False
        with b(3) have "undone (ctx_held k s) s1" by simp
        from undone_trans_ctx [OF this c(1,2) wf, of Z] obtain s' where "lima_ctx_put Z (Some k) s1 = Some s'" "undone s s'" by blast
        with run bad show ?thesis by (intro exI [of _ err] exI [of _ s']) simp
      qed
    qed
  qed
qed


text \<open>
  The frame sizes of the pipes, as \<open>lima_gp_pipe_init\<close> and \<open>lima_pp_pipe_init\<close> set them.
\<close>

definition frame_sizes_set :: "lima_device \<Rightarrow> bool" where
  "frame_sizes_set d \<longleftrightarrow> p_frame_size (dev_pipe d lima_pipe_gp) = sizeof_gp_frame \<and>
     p_frame_size (dev_pipe d lima_pipe_pp) = (case dev_id d of
       lima_gpu_mali400 \<Rightarrow> sizeof_m400_pp_frame | lima_gpu_mali450 \<Rightarrow> sizeof_m450_pp_frame)"

text \<open>A frame that the pipe's code may cast to its structure without reading past its end.\<close>

definition frame_fits :: "lima_gpu_id \<Rightarrow> lima_pipe_id \<Rightarrow> u32 list \<Rightarrow> bool" where
  "frame_fits g p w = (case p of
     lima_pipe_gp \<Rightarrow> length w = LIMA_GP_FRAME_REG_NUM \<and> gpf_frame (gp_frame_of_words w) = w
   | lima_pipe_pp \<Rightarrow> (case g of
       lima_gpu_mali400 \<Rightarrow> wf_m400_frame (m400_frame_of_words w) \<and> words_of_m400_frame (m400_frame_of_words w) = w
     | lima_gpu_mali450 \<Rightarrow> wf_m450_frame (m450_frame_of_words w) \<and> words_of_m450_frame (m450_frame_of_words w) = w))"

lemma m400_words_roundtrip:
  assumes "4 * length w = sizeof_m400_pp_frame"
  shows "words_of_m400_frame (m400_frame_of_words w) = w"
proof (rule nth_equalityI)
  have len: "length w = 68" using assms by (simp add: regs)
  then show "length (words_of_m400_frame (m400_frame_of_words w)) = length w"
    by (simp add: words_of_m400_frame_def m400_frame_of_words_def)
  fix i assume "i < length (words_of_m400_frame (m400_frame_of_words w))"
  then have "i < 68" using len by (simp add: words_of_m400_frame_def m400_frame_of_words_def)
  then consider "i < 23" | "i = 23" | "24 \<le> i" "i < 60" | "60 \<le> i" "i < 64" | "64 \<le> i" "i < 68" by linarith
  then show "words_of_m400_frame (m400_frame_of_words w) ! i = w ! i"
    by cases (auto simp: words_of_m400_frame_def m400_frame_of_words_def nth_append len)
qed

lemma m450_words_roundtrip:
  assumes "4 * length w = sizeof_m450_pp_frame"
  shows "words_of_m450_frame (m450_frame_of_words w) = w"
proof (rule nth_equalityI)
  have len: "length w = 78" using assms by (simp add: regs)
  then show "length (words_of_m450_frame (m450_frame_of_words w)) = length w"
    by (simp add: words_of_m450_frame_def m450_frame_of_words_def)
  fix i assume "i < length (words_of_m450_frame (m450_frame_of_words w))"
  then have "i < 78" using len by (simp add: words_of_m450_frame_def m450_frame_of_words_def)
  then consider "i < 23" | "i = 23" | "24 \<le> i" "i < 60" | "i = 60" | "i = 61" | "62 \<le> i" "i < 70" | "70 \<le> i" "i < 78" by linarith
  then show "words_of_m450_frame (m450_frame_of_words w) ! i = w ! i"
    by cases (auto simp: words_of_m450_frame_def m450_frame_of_words_def nth_append len)
qed

lemma frame_fits_size:
  assumes "frame_sizes_set d" and "4 * length w = p_frame_size (dev_pipe d p)"
  shows "frame_fits (dev_id d) p w"
proof (cases p)
  case lima_pipe_gp
  with assms have "length w = LIMA_GP_FRAME_REG_NUM" by (simp add: frame_sizes_set_def regs)
  then show ?thesis by (simp add: frame_fits_def gp_frame_of_words_def lima_pipe_gp)
next
  case lima_pipe_pp
  with assms show ?thesis
    by (cases "dev_id d") (simp_all add: frame_fits_def frame_sizes_set_def m400_words_roundtrip m450_words_roundtrip
      wf_m400_frame_of_words wf_m450_frame_of_words)
qed


section \<open>Files\<close>

text \<open>
  C37. Opening a file takes one block and an address space, or nothing when it fails; closing it
  at once gives everything back.
\<close>

theorem open_close_roundtrip:
  assumes km: "kmem_wf s" and dc: "dma_contract s"
  shows "\<exists>r s1. lima_drm_open s = Some (r, s1) \<and>
    (case r of
      Inl err \<Rightarrow> err = - ENOMEM \<and> km_live s1 = km_live s \<and> dm_live s1 = dm_live s
    | Inr priv \<Rightarrow> cm_handles (pr_ctx_mgr priv) = [] \<and> vrefs s1 (pr_vm priv) = 1 \<and> pr_block priv \<in> km_live s1 - km_live s \<and>
        (\<exists>s2. lima_drm_postclose Z priv s1 = Some s2 \<and> km_live s2 = km_live s \<and> dm_live s2 = dm_live s))"
proof -
  obtain k t where kz: "kzalloc s = (k, t)" by fastforce
  show ?thesis
  proof (cases k)
    case None
    with kz have "t = s\<lparr>km_n := Suc (km_n s)\<rparr>" by (auto simp: kzalloc_def split: if_splits)
    with kz None show ?thesis by (simp add: lima_drm_open_def)
  next
    case (Some b)
    with kz have t: "t = s\<lparr>km_live := insert b (km_live s), km_n := Suc (km_n s)\<rparr>" "b = km_n s" by (auto simp: kzalloc_def split: if_splits)
    have b: "b \<notin> km_live s" using kzalloc_fresh [OF km] t(2) by simp
    have "kmem_wf t" using kzalloc_wf [OF km] kz by simp
    moreover have "dma_contract t" using dc by (simp add: t(1) dma_contract_def)
    ultimately obtain r s1 where vm: "lima_vm_create (if dv_dlbu_cpu t then Some (dev_dlbu_dma (cs_dev t)) else None) (dv_va_start t) (dv_va_end t) t = Some (r, s1)"
      and res: "case r of
          None \<Rightarrow> dm_live s1 = dm_live t \<and> km_live s1 = km_live t \<and> vs_vms s1 = vs_vms t
        | Some vm \<Rightarrow> (\<exists>v. vs_vms s1 vm = Some v \<and> vm_refcount v = 1 \<and> vm_wf v s1 \<and>
            pte v = dlbu_entry (if dv_dlbu_cpu t then Some (dev_dlbu_dma (cs_dev t)) else None) \<and> mm_nodes (vm_mm v) = []) \<and>
            (\<exists>s2. lima_vm_put vm s1 = Some s2 \<and> dm_live s2 = dm_live t \<and> km_live s2 = km_live t)"
      using vm_create_ledger [of t "if dv_dlbu_cpu t then Some (dev_dlbu_dma (cs_dev t)) else None" "dv_va_start t" "dv_va_end t"]
      by blast
    show ?thesis
    proof (cases r)
      case None
      with res b have "kfree (Some b) s1 = Some (s1\<lparr>km_live := km_live s\<rparr>)" by (simp add: kfree_def t(1))
      then have "lima_drm_open s = Some (Inl (- ENOMEM), s1\<lparr>km_live := km_live s\<rparr>)"
        using kz Some vm None by (simp add: lima_drm_open_def)
      with res None show ?thesis by (simp add: t(1))
    next
      case vm': (Some vm')
      with res obtain v s2 where v: "vs_vms s1 vm' = Some v" "vm_refcount v = 1" and
        s2: "lima_vm_put vm' s1 = Some s2" "dm_live s2 = dm_live t" "km_live s2 = km_live t" by auto
      let ?priv = "\<lparr>pr_block = b, pr_vm = vm', pr_ctx_mgr = lima_ctx_mgr_init\<rparr>"
      have "km_live s2 \<subseteq> km_live s1" by (rule vm_put_shrinks [OF s2(1)])
      then have live: "b \<in> km_live s1" using s2(3) t(1) by auto
      have "lima_drm_postclose Z ?priv s1 = Some (s2\<lparr>km_live := km_live s\<rparr>)"
        using s2 b by (simp add: lima_drm_postclose_def lima_ctx_mgr_init_def lima_ctx_mgr_fini.simps kfree_def t(1))
      moreover have "lima_drm_open s = Some (Inr ?priv, s1)" using kz Some vm vm' by (simp add: lima_drm_open_def)
      moreover have "vrefs s1 vm' = 1" using v by (simp add: vrefs_def)
      ultimately show ?thesis using b live s2(2) by (simp add: lima_ctx_mgr_init_def t(1))
    qed
  qed
qed

section \<open>Probing and removing\<close>

text \<open>Everything a device takes: blocks, DMA buffers, clocks, regulator and slabs.\<close>

definition taken :: "'a dev_st_scheme \<Rightarrow> nat set \<times> (u32 \<times> nat) set \<times> (string \<Rightarrow> int) \<times> int \<times> (lima_pipe_id \<Rightarrow> task_slab)" where
  "taken s = (km_live s, dm_live s, dv_clk_count s, dv_reg_count s, dv_slab s)"

lemma taken_ledger: "dev_ledger s = dev_ledger t \<Longrightarrow> taken s = taken t"
  by (simp add: dev_ledger_def taken_def)

lemma zeroed_fresh:
  assumes "kmem_wf s" and "dma_contract s" and "\<forall>p. slab_ok (dv_slab s p)"
  shows "dev_fresh ((zeroed_device s)\<lparr>cs_dev := (cs_dev (zeroed_device s))\<lparr>dev_id := g\<rparr>\<rparr>)"
  using assms by (simp add: dev_fresh_def zeroed_device_def zeroed_pipe_def zeroed_ip_def kmem_wf_def dma_contract_def)


section \<open>Concrete calls\<close>

definition priv_demo :: lima_drm_priv where
  "priv_demo = \<lparr>pr_block = 40, pr_vm = 5, pr_ctx_mgr = \<lparr>cm_handles = [(4, 13)]\<rparr>\<rparr>"

definition user_demo :: user_mem where
  "user_demo = \<lparr>um_bos = (\<lambda>a n. if n = 1 then Some [\<lparr>sb_handle = 7, sb_flags = 1\<rparr>] else None),
     um_words = (\<lambda>a n. if n = 24 then Some [0, 0, 0, 0, 0, 0] else None)\<rparr>"

definition args_demo :: drm_lima_gem_submit where
  "args_demo = \<lparr>gs_ctx = 4, gs_pipe = 0, gs_nr_bos = 1, gs_frame_size = 24, gs_bos = 0, gs_frame = 0, gs_flags = 0,
     gs_out_sync = 0, gs_in_sync0 = 0, gs_in_sync1 = 0\<rparr>"

lemma demo_file_ready: "file_ready handles_demo (pr_vm priv_demo) submit_demo" "ctx_table (pr_ctx_mgr priv_demo) submit_demo"
  using submit_demo_ready
  by (simp_all add: file_ready_def submit_ready_def priv_demo_def ctx_table_def submit_demo_fields sched_demo_ctx)


text \<open>The same state with the frame sizes of a Mali-400 set.\<close>

definition ioctl_demo :: ctx_st where
  "ioctl_demo = submit_demo\<lparr>cs_dev := pipe_upd lima_pipe_gp (\<lambda>y. y\<lparr>p_frame_size := sizeof_gp_frame\<rparr>)
     (pipe_upd lima_pipe_pp (\<lambda>y. y\<lparr>p_frame_size := sizeof_m400_pp_frame\<rparr>) (cs_dev submit_demo))\<rparr>"

lemma ioctl_demo_fields:
  "km_ok ioctl_demo = (\<lambda>_. True)" "km_n ioctl_demo = 30" "km_live ioctl_demo = {5, 9, 12, 13, 14, 15, 16, 17, 18, 19, 20, 21}"
  "fs_fences ioctl_demo = [14 \<mapsto> fence_demo, 19 \<mapsto> fence_demo]" "vs_vms ioctl_demo = [5 \<mapsto> vm_demo]"
  "vs_bos ioctl_demo = [9 \<mapsto> demo_bo 3 1 14]" "cs_ctxs ioctl_demo 13 = Some ctx_of_demo"
  "p_frame_size (pipe_of lima_pipe_gp ioctl_demo) = 24" "p_frame_size (pipe_of lima_pipe_pp ioctl_demo) = sizeof_m400_pp_frame"
  "dev_id (cs_dev ioctl_demo) = lima_gpu_mali400"
  by (simp_all add: ioctl_demo_def submit_demo_ok submit_demo_fields submit_demo_bos sched_demo_ctx regs)
    (simp add: submit_demo_def sched_demo_def ctx_demo_defs dev_demo_def)

lemma ioctl_demo_ready: "file_ready handles_demo (pr_vm priv_demo) ioctl_demo" "ctx_table (pr_ctx_mgr priv_demo) ioctl_demo"
proof -
  have "heap_others ioctl_demo = heap_others submit_demo" by (simp add: heap_others_def ioctl_demo_def)
  then have "heap_wf ioctl_demo"
    using demo_file_ready(1) by (simp add: file_ready_def heap_wf_def ioctl_demo_def fence_wf_def kmem_wf_def vms_wf_def vm_wf_def)
  then show "file_ready handles_demo (pr_vm priv_demo) ioctl_demo"
    by (rule file_ready_same [OF demo_file_ready(1)]) (simp_all add: ioctl_demo_def)
  show "ctx_table (pr_ctx_mgr priv_demo) ioctl_demo" using demo_file_ready(2) by (simp add: ctx_table_def ioctl_demo_def)
qed

lemma ioctl_demo_runs: "\<exists>s'. lima_ioctl_gem_submit user_demo Z (\<lambda>s. s) handles_demo priv_demo args_demo ioctl_demo = Some (0, s')"
  by (simp add: lima_ioctl_gem_submit_def args_demo_def pipe_of_arg_def LIMA_PIPE_GP_def LIMA_SUBMIT_FLAG_EXPLICIT_FENCE_def
    ioctl_demo_fields lima_ctx_get_def priv_demo_def ioctl_submit_bos_def kzalloc_def user_demo_def ioctl_submit_task_def
    zeroed_task_def submit_of_args_def lima_gem_submit_def handles_demo_def
    lima_gem_object_lookup_def drm_gem_object_get_def bo_upd_def demo_bo_def lima_vm_bo_add_def lima_vm_bo_find_def
    LIMA_SUBMIT_BO_READ_def LIMA_SUBMIT_BO_WRITE_def gem_submit_task_def
    fence_demo_def vm_demo_def lima_sched_task_init_def lima_vm_get_def lima_fence_create_def
    task_set_def lima_resv_get_fences_def resv_refs_def dma_fence_get_def lima_sched_task_add_dep_def krealloc_def kfree_def
    lima_sched_context_queue_task_def ctx_upd_def on_pipe_def gem_publish_one_def lima_resv_set_excl_def dma_fence_put_def
    fence_kref_put_def lima_fence_release_def vm_upd_def pipe_upd_def)


theorem open_close_roundtrip_witness:
  "\<exists>r s1. lima_drm_open boot_demo = Some (r, s1) \<and> (case r of Inl err \<Rightarrow> err = - ENOMEM | Inr priv \<Rightarrow>
     \<exists>s2. lima_drm_postclose (id, 0, 0) priv s1 = Some s2 \<and> km_live s2 = km_live boot_demo)"
proof -
  have "kmem_wf boot_demo" "dma_contract boot_demo" using boot_demo_fresh by (simp_all add: dev_fresh_def)
  from open_close_roundtrip [OF this, of "(id, 0, 0)"] obtain r s1 where r: "lima_drm_open boot_demo = Some (r, s1)"
    "case r of Inl err \<Rightarrow> err = - ENOMEM \<and> km_live s1 = km_live boot_demo \<and> dm_live s1 = dm_live boot_demo
      | Inr priv \<Rightarrow> cm_handles (pr_ctx_mgr priv) = [] \<and> vrefs s1 (pr_vm priv) = 1 \<and> pr_block priv \<in> km_live s1 - km_live boot_demo \<and>
          (\<exists>s2. lima_drm_postclose (id, 0, 0) priv s1 = Some s2 \<and> km_live s2 = km_live boot_demo \<and> dm_live s2 = dm_live boot_demo)"
    by blast
  then show ?thesis by (intro exI [of _ r] exI [of _ s1]) (auto split: sum.split)
qed


end
