(* ===== verification/Lima_Since.thy ===== *)
theory Lima_Since
  imports Lima_Entry
begin

text \<open>
  What a submission does to the fences that exist already: it leaves their status alone. The
  relation follows the code of the submission ioctl, call by call.
\<close>

section \<open>Fences over a submission\<close>

text \<open>
  What happens between \<open>a\<close> and \<open>b\<close> to the fences that are older than the block number \<open>n\<close>: some
  may be gone, the others have their status.
\<close>

definition fences_since :: "nat \<Rightarrow> 'a ctx_st_scheme \<Rightarrow> 'a ctx_st_scheme \<Rightarrow> bool" where
  "fences_since n a b \<longleftrightarrow> (n \<le> km_n a \<longrightarrow> n \<le> km_n b \<and>
     (\<forall>f < n. \<forall>y. fs_fences b f = Some y \<longrightarrow> (\<exists>x. fs_fences a f = Some x \<and> f_status x = f_status y)))"

lemma since_trans [trans]: "fences_since n a b \<Longrightarrow> fences_since n b c \<Longrightarrow> fences_since n a c"
  unfolding fences_since_def by (metis (no_types))

lemma since_same: "fs_fences b = fs_fences a \<Longrightarrow> km_n a \<le> km_n b \<Longrightarrow> fences_since n a b"
  by (simp add: fences_since_def)

lemma since_refl [simp]: "fences_since n a a"
  by (rule since_same) simp_all

lemma since_released: "released a b \<Longrightarrow> fences_since n a b"
  unfolding fences_since_def using releasedD(3,5) by metis

lemma since_each:
  assumes "\<And>x s s'. f x s = Some s' \<Longrightarrow> fences_since n s s'" and "each f xs s = Some s'"
  shows "fences_since n s s'"
  by (rule each_preserves [where P = "fences_since n s" and f = f and xs = xs and s = s])
    (use assms in \<open>auto intro: since_trans\<close>)

lemma since_kzalloc: "kzalloc s = (k, s') \<Longrightarrow> fences_since n s s'"
  by (rule since_same) (auto simp: kzalloc_def split: if_splits)

lemma since_create: "lima_fence_create nm s = (f, s') \<Longrightarrow> fences_since n s s'"
  by (auto simp: lima_fence_create_def kzalloc_def fences_since_def split: if_splits)

lemma since_bo_upd: "fences_since n s (bo_upd bo b s)"
  by (rule since_same) (simp_all add: bo_upd_def)

lemma since_lookup: "lima_gem_object_lookup H h s = Some (r, s') \<Longrightarrow> fences_since n s s'"
  by (auto simp: lima_gem_object_lookup_def drm_gem_object_get_def bind_eq_Some_conv since_bo_upd split: option.splits)

lemma since_lookups: "gem_lookup_loop H xs l s = Some (err, l', s') \<Longrightarrow> fences_since n s s'"
proof (induction H xs l s rule: gem_lookup_loop.induct)
  case (2 H x xs l s)
  show ?case
  proof (cases "sb_flags x AND NOT (LIMA_SUBMIT_BO_READ OR LIMA_SUBMIT_BO_WRITE) \<noteq> 0")
    case True
    then show ?thesis using 2(2) by simp
  next
    case False
    with 2(2) obtain r s1 where r: "lima_gem_object_lookup H (sb_handle x) s = Some (r, s1)"
      "(case r of None \<Rightarrow> Some (- ENOENT, l, s1) | Some bo \<Rightarrow> gem_lookup_loop H xs (l @ [bo]) s1) = Some (err, l', s')"
      by (auto simp: bind_eq_Some_conv)
    show ?thesis
    proof (cases r)
      case None
      with r show ?thesis by (auto intro: since_lookup)
    next
      case (Some bo)
      with r(2) have "fences_since n s1 s'" using 2(1) [OF False r(1) refl Some] by simp
      with since_lookup [OF r(1)] show ?thesis by (rule since_trans)
    qed
  qed
qed simp

lemma since_map: "gem_map_loop vm bos i s = Some (err, j, s') \<Longrightarrow> fences_since n s s'"
proof (induction bos arbitrary: i s)
  case (Cons a bos)
  then obtain e s1 where a: "lima_vm_bo_add vm a False s = Some (e, s1)"
    "(if e \<noteq> 0 then Some (e, i, s1) else gem_map_loop vm bos (Suc i) s1) = Some (err, j, s')"
    by (auto simp: bind_eq_Some_conv)
  have "fences_since n s s1"
    using a(1) by (auto simp: lima_vm_bo_add_def bind_eq_Some_conv since_bo_upd split: option.splits)
  moreover have "fences_since n s1 s'" using a(2) Cons.IH by (auto split: if_splits)
  ultimately show ?case by (rule since_trans)
qed simp

lemma since_task_set [simp]: "fences_since n s (task_set t x s)"
  by (rule since_same) (simp_all add: task_set_def)

lemma since_init:
  assumes "lima_sched_task_init t ctx p bos arr vm s = Some (err, s')"
  shows "fences_since n s s'"
proof -
  from assms obtain x s1 where x: "lima_vm_get vm s = Some s1"
    "(case lima_fence_create (p_name (pipe_of p s1)) s1 of
       (None, s) \<Rightarrow> do { s \<leftarrow> lima_vm_put vm s; Some (- ENOMEM, task_set t (Some (x\<lparr>t_pipe := p, t_ctx := None, t_context := ctx, t_vm := vm,
        t_deps := [], t_deps_arr := None, t_bos := bos, t_bos_arr := arr\<rparr>)) s) }
     | (Some f, s) \<Rightarrow> Some (0, task_set t (Some (x\<lparr>t_pipe := p, t_ctx := None, t_context := ctx, t_vm := vm,
        t_deps := [], t_deps_arr := None, t_bos := bos, t_bos_arr := arr\<rparr>\<lparr>t_fence := f\<rparr>)) s)) = Some (err, s')"
    by (auto simp: lima_sched_task_init_def Let_def bind_eq_Some_conv)
  obtain f s2 where f: "lima_fence_create (p_name (pipe_of p s1)) s1 = (f, s2)" by fastforce
  have "fences_since n s s1" using x(1) by (intro since_same) (auto simp: lima_vm_get_def vm_upd_def bind_eq_Some_conv)
  then have "fences_since n s s2" using since_create [OF f] by (rule since_trans)
  moreover have "fences_since n s2 s'"
    using x(2) by (auto simp: f bind_eq_Some_conv split: option.splits
      intro: since_trans [OF since_released [OF released_vm_put] since_task_set])
  ultimately show ?thesis by (rule since_trans)
qed

lemma since_add_dep:
  assumes "lima_sched_task_add_dep t f s = Some (err, s')"
  shows "fences_since n s s'"
proof -
  from assms obtain x d s1 where x: "krealloc (t_deps_arr x) s = Some (d, s1)"
    "(case d of None \<Rightarrow> Some (- ENOMEM, s1)
      | Some b \<Rightarrow> Some (0, task_set t (Some (x\<lparr>t_deps := t_deps x @ [f], t_deps_arr := Some b\<rparr>)) s1)) = Some (err, s')"
    by (auto simp: lima_sched_task_add_dep_def bind_eq_Some_conv)
  obtain k s0 where k: "kzalloc s = (k, s0)" by fastforce
  have "fences_since n s0 s1"
    using x(1) by (auto simp: krealloc_def k bind_eq_Some_conv split: option.splits intro: since_released releases)
  with since_kzalloc [OF k] have "fences_since n s s1" by (rule since_trans)
  moreover have "fences_since n s1 s'" using x(2) by (auto split: option.splits)
  ultimately show ?thesis by (rule since_trans)
qed

lemma since_puts: "each fence_kref_put fs s = Some s' \<Longrightarrow> fences_since n s s'"
  by (rule since_released, rule released_each [where f = fence_kref_put]) (auto intro: releases)

lemma since_kfree: "kfree p s = Some s' \<Longrightarrow> fences_since n s s'"
  by (intro since_released releases)

lemma since_dep_loop: "gem_dep_loop t arr fs s = Some (err, s') \<Longrightarrow> fences_since n s s'"
proof (induction fs arbitrary: s)
  case Nil
  then show ?case by (auto simp: bind_eq_Some_conv intro: since_kfree)
next
  case (Cons f fs)
  then obtain e s1 where a: "lima_sched_task_add_dep t f s = Some (e, s1)"
    "(if e \<noteq> 0 then do { s \<leftarrow> each fence_kref_put (f # fs) s1; s \<leftarrow> kfree arr s; Some (e, s) } else gem_dep_loop t arr fs s1) = Some (err, s')"
    by (auto simp: bind_eq_Some_conv simp del: each.simps)
  have "fences_since n s1 s'"
  proof (cases "e = 0")
    case True
    with a(2) Cons.IH show ?thesis by simp
  next
    case False
    with a(2) obtain b where "each fence_kref_put (f # fs) s1 = Some b" "kfree arr b = Some s'"
      by (auto simp: bind_eq_Some_conv simp del: each.simps)
    then show ?thesis by (rule since_trans [OF since_puts since_kfree])
  qed
  with since_add_dep [OF a(1)] show ?case by (rule since_trans)
qed

lemma since_get_fences:
  assumes "lima_resv_get_fences v s = Some (m, fs, arr, s')"
  shows "fences_since n s s'"
proof -
  obtain k s1 where k: "kzalloc s = (k, s1)" by fastforce
  have "fences_since n s1 s'" if "each dma_fence_get (resv_refs v) s1 = Some s'"
    using released_fence_get that by (rule since_released [OF released_each])
  then show ?thesis
    using assms since_kzalloc [OF k, of n]
    by (auto simp: lima_resv_get_fences_def k Let_def bind_eq_Some_conv intro: since_trans split: if_splits option.splits)
qed

lemma since_add_deps: "lima_gem_add_deps t bos s = Some (err, s') \<Longrightarrow> fences_since n s s'"
proof (induction bos arbitrary: s)
  case (Cons bo bos)
  from Cons.prems obtain b where b: "vs_bos s bo = Some b" by (auto simp: bind_eq_Some_conv)
  with Cons.prems obtain m fs arr s1 where a: "lima_resv_get_fences (bo_resv b) s = Some (m, fs, arr, s1)"
    "(if m < 0 then Some (m, s1) else do { (err, s) \<leftarrow> gem_dep_loop t arr fs s1; if err \<noteq> 0 then Some (err, s) else lima_gem_add_deps t bos s }) =
      Some (err, s')"
    by (cases "lima_resv_get_fences (bo_resv b) s") auto
  have "fences_since n s1 s'"
  proof (cases "m < 0")
    case False
    with a(2) obtain e s2 where e: "gem_dep_loop t arr fs s1 = Some (e, s2)"
      "(if e \<noteq> 0 then Some (e, s2) else lima_gem_add_deps t bos s2) = Some (err, s')"
      by (auto simp: bind_eq_Some_conv)
    have "fences_since n s2 s'" using e(2) Cons.IH by (auto split: if_splits)
    with since_dep_loop [OF e(1)] show ?thesis by (rule since_trans)
  qed (use a(2) in simp)
  with since_get_fences [OF a(1)] show ?case by (rule since_trans)
qed simp

lemma since_publish: "gem_publish_one f arr bo s = Some s' \<Longrightarrow> fences_since n s s'"
  by (auto simp: gem_publish_one_def lima_resv_set_excl_def bind_eq_Some_conv split: if_splits
    intro: since_trans [OF since_trans [OF since_released [OF released_fence_get] since_released [OF released_dma_fence_put]] since_bo_upd])

lemma since_queue:
  assumes "lima_sched_context_queue_task k p t s = Some (f, s')"
  shows "fences_since n s s'"
proof -
  from assms obtain x where "task_of s t = Some x" by (auto simp: lima_sched_context_queue_task_def bind_eq_Some_conv)
  with assms obtain s1 where x: "dma_fence_get (t_fence x) s = Some s1" "fs_fences s' = fs_fences s1" "km_n s' = km_n s1"
    by (auto simp: lima_sched_context_queue_task_def bind_eq_Some_conv Let_def ctx_upd_def on_pipe_def)
  from since_released [OF released_fence_get [OF x(1)]] show ?thesis
    by (rule since_trans) (rule since_same, simp_all add: x)
qed

lemma since_submit_task:
  assumes "gem_submit_task Z (\<lambda>s. s) vm sub arr lbos s = Some (0, s')"
  shows "fences_since n s s'"
proof -
  from assms obtain e1 s1 where 1: "lima_sched_task_init (su_task sub) (su_ctx sub) (su_pipe sub) lbos (Some arr) vm s = Some (e1, s1)"
    by (auto simp: gem_submit_task_def bind_eq_Some_conv)
  have e1: "e1 = 0" using assms by (auto simp: gem_submit_task_def 1 gem_out_put_def bind_eq_Some_conv split: if_splits)
  with assms 1 obtain e2 s2 where 2: "lima_gem_add_deps (su_task sub) lbos s1 = Some (e2, s2)"
    by (auto simp: gem_submit_task_def bind_eq_Some_conv)
  have e2: "e2 = 0" using assms 1 2 e1 by (auto simp: gem_submit_task_def bind_eq_Some_conv split: if_splits)
  with assms 1 e1 2 obtain x f s4 s5 where 3: "lima_sched_context_queue_task (su_ctx sub) (su_pipe sub) (su_task sub)
      (task_set (su_task sub) (Some (x\<lparr>t_ctx := Some (su_ctx sub)\<rparr>)) s2) = Some (f, s4)"
    "each (gem_publish_one f arr) lbos s4 = Some s5" "dma_fence_put (Some f) s5 = Some s'"
    by (auto simp: gem_submit_task_def bind_eq_Some_conv Let_def)
  have "fences_since n s s2" using since_init [OF 1] since_add_deps [OF 2] by (rule since_trans)
  also have "fences_since n s2 s4" using since_task_set since_queue [OF 3(1)] by (rule since_trans)
  also have "fences_since n s4 s5" using since_publish 3(2) by (rule since_each)
  also have "fences_since n s5 s'" using 3(3) by (intro since_released releases)
  finally show ?thesis .
qed

lemma since_gem_submit:
  assumes "lima_gem_submit Z (\<lambda>s. s) H vm sub s = Some (0, s')"
  shows "fences_since n s s'"
proof -
  let ?bad = "su_flags sub AND LIMA_SUBMIT_FLAG_EXPLICIT_FENCE \<noteq> 0 \<or> su_in_sync0 sub \<noteq> 0 \<or> su_in_sync1 sub \<noteq> 0 \<or> su_out_sync sub \<noteq> 0"
  have good: "\<not> ?bad"
  proof
    assume ?bad
    then have "lima_gem_submit Z (\<lambda>s. s) H vm sub s = Some (- EINVAL, s)" by (simp add: lima_gem_submit_def)
    with assms show False by simp
  qed
  obtain k s0 where k: "kzalloc s = (k, s0)" by fastforce
  with assms good obtain arr where arr: "k = Some arr" by (cases k) (auto simp: lima_gem_submit_def)
  with assms good k obtain e1 l s1 where 1: "gem_lookup_loop H (su_bos sub) [] s0 = Some (e1, l, s1)"
    by (auto simp: lima_gem_submit_def bind_eq_Some_conv)
  have e1: "e1 = 0" using assms good k arr 1
    by (auto simp: lima_gem_submit_def gem_out_put_def bind_eq_Some_conv split: if_splits)
  with assms good k arr 1 obtain e2 i s2 where 2: "gem_map_loop vm l 0 s1 = Some (e2, i, s2)"
    by (auto simp: lima_gem_submit_def bind_eq_Some_conv)
  have e2: "e2 = 0" using assms good k arr 1 e1 2
    by (auto simp: lima_gem_submit_def gem_out_put_def bind_eq_Some_conv split: if_splits)
  with assms good k arr 1 e1 2 have 3: "gem_submit_task Z (\<lambda>s. s) vm sub arr l s2 = Some (0, s')"
    by (simp add: lima_gem_submit_def)
  have "fences_since n s s1" using since_kzalloc [OF k] since_lookups [OF 1] by (rule since_trans)
  also have "fences_since n s1 s2" using 2 by (rule since_map)
  also have "fences_since n s2 s'" using 3 by (rule since_submit_task)
  finally show ?thesis .
qed

lemma since_ioctl:
  assumes "lima_ioctl_gem_submit U Z (\<lambda>s. s) H priv args s = Some (0, s')"
  shows "fences_since n s s'"
proof -
  obtain p where p: "pipe_of_arg (gs_pipe args) = Some p"
    using assms by (cases "pipe_of_arg (gs_pipe args)") (auto simp: lima_ioctl_gem_submit_def)
  let ?bad = "gs_nr_bos args = 0 \<or> gs_flags args AND NOT LIMA_SUBMIT_FLAG_EXPLICIT_FENCE \<noteq> 0 \<or> unat (gs_frame_size args) \<noteq> p_frame_size (pipe_of p s)"
  have "\<not> ?bad"
  proof
    assume ?bad
    then have "lima_ioctl_gem_submit U Z (\<lambda>s. s) H priv args s = Some (- EINVAL, s)" by (auto simp: lima_ioctl_gem_submit_def p)
    with assms show False by simp
  qed
  with assms p obtain ctx s1 e1 s2 where 1: "lima_ctx_get (pr_ctx_mgr priv) (unat (gs_ctx args)) s = Some (Some ctx, s1)"
    and 2: "ioctl_submit_bos U Z (\<lambda>s. s) H (pr_vm priv) args ctx p s1 = Some (e1, s2)"
    and e: "(if e1 \<noteq> 0 then do { s \<leftarrow> lima_ctx_put Z (Some ctx) s2; Some (e1, s) } else Some (0, s2)) = Some (0, s')"
    by (auto simp: lima_ioctl_gem_submit_def bind_eq_Some_conv split: option.splits)
  have e1: "e1 = 0" "s2 = s'" using e by (auto simp: bind_eq_Some_conv split: if_splits)
  obtain k s3 where k: "kzalloc s1 = (k, s3)" by fastforce
  with 2 e1 obtain barr where barr: "k = Some barr" by (cases k) (auto simp: ioctl_submit_bos_def)
  with 2 e1 k obtain e2 s4 where 3: "(case um_bos U (gs_bos args) (unat (gs_nr_bos args)) of
           None \<Rightarrow> Some (- EFAULT, s3)
         | Some bos \<Rightarrow> ioctl_submit_task U Z (\<lambda>s. s) H (pr_vm priv) args ctx p bos s3) = Some (e2, s4)"
    and kf: "kfree (Some barr) s4 = Some s'" "e2 = 0"
    by (auto simp: ioctl_submit_bos_def bind_eq_Some_conv)
  from 3 kf(2) obtain bos where 4: "ioctl_submit_task U Z (\<lambda>s. s) H (pr_vm priv) args ctx p bos s3 = Some (0, s4)"
    by (auto split: option.splits)
  obtain l s5 where l: "kzalloc s3 = (l, s5)" by fastforce
  with 4 obtain t where t: "l = Some t" by (cases l) (auto simp: ioctl_submit_task_def)
  with 4 l obtain w where w: "um_words U (gs_frame args) (unat (gs_frame_size args)) = Some w"
    by (cases "um_words U (gs_frame args) (unat (gs_frame_size args))") (auto simp: ioctl_submit_task_def bind_eq_Some_conv)
  with 4 l t obtain e3 s6 where 5: "lima_gem_submit Z (\<lambda>s. s) H (pr_vm priv) (submit_of_args args ctx p bos t)
      (task_set t (Some (zeroed_task\<lparr>t_frame := w\<rparr>)) s5) = Some (e3, s6)"
    and e3: "(if e3 \<noteq> 0 then do { s \<leftarrow> kfree (Some t) (task_set t None s6); Some (e3, s) } else Some (0, s6)) = Some (0, s4)"
    by (auto simp: ioctl_submit_task_def bind_eq_Some_conv)
  have "e3 = 0" "s6 = s4" using e3 by (auto simp: bind_eq_Some_conv split: if_splits)
  with 5 have sub: "lima_gem_submit Z (\<lambda>s. s) H (pr_vm priv) (submit_of_args args ctx p bos t)
      (task_set t (Some (zeroed_task\<lparr>t_frame := w\<rparr>)) s5) = Some (0, s4)" by simp
  have "fences_since n s s1"
    using 1 by (intro since_same) (auto simp: lima_ctx_get_def ctx_upd_def bind_eq_Some_conv split: option.splits if_splits)
  also have "fences_since n s1 s3" using k by (rule since_kzalloc)
  also have "fences_since n s3 s5" using l by (rule since_kzalloc)
  also have "fences_since n s5 (task_set t (Some (zeroed_task\<lparr>t_frame := w\<rparr>)) s5)" by simp
  also have "fences_since n \<dots> s4" using sub by (rule since_gem_submit)
  also have "fences_since n s4 s'" using kf(1) by (rule since_kfree)
  finally show ?thesis .
qed

text \<open>A fence that was there before the ioctl and still is has its status.\<close>

lemma ioctl_status:
  assumes "lima_ioctl_gem_submit U Z (\<lambda>s. s) H priv args s = Some (0, s')" and "heap_wf s"
    and "0 < frefs s f" and "0 < frefs s' f"
  shows "fence_status s' f = fence_status s f"
proof -
  obtain x where x: "fs_fences s f = Some x" using assms(3) by (cases "fs_fences s f") (simp_all add: frefs_def)
  obtain y where y: "fs_fences s' f = Some y" using assms(4) by (cases "fs_fences s' f") (simp_all add: frefs_def)
  have "f < km_n s" using assms(2) x unfolding heap_wf_def fence_wf_def kmem_wf_def by blast
  with since_ioctl [OF assms(1), of "km_n s"] y show ?thesis by (fastforce simp: fences_since_def fence_status_def)
qed

end
