(* ===== verification/Lima_Owner.thy ===== *)
theory Lima_Owner
  imports Lima_Order Lima_Since
begin

text \<open>
  Who owns what on the heap while tasks are unfinished: the tasks and the reservation objects own
  their references of fences, and a task depends only on fences that are signaled or belong to
  tasks submitted before it. The submission ioctl, the start and the end of a task and whatever
  the hardware does keep this invariant, and each of them returns.
\<close>

section \<open>Who holds what\<close>

text \<open>The task \<open>t\<close>, without its frame, which the hardware code may write.\<close>

definition shell_of :: "'a ctx_st_scheme \<Rightarrow> nat \<Rightarrow> lima_sched_task" where
  "shell_of s t = task_shell (the (task_of s t))"

lemma shell_of_fields [simp]:
  "t_pipe (shell_of s t) = t_pipe (the (task_of s t))" "t_ctx (shell_of s t) = t_ctx (the (task_of s t))"
  "t_context (shell_of s t) = t_context (the (task_of s t))" "t_vm (shell_of s t) = t_vm (the (task_of s t))"
  "t_deps (shell_of s t) = t_deps (the (task_of s t))" "t_deps_arr (shell_of s t) = t_deps_arr (the (task_of s t))"
  "t_bos (shell_of s t) = t_bos (the (task_of s t))" "t_bos_arr (shell_of s t) = t_bos_arr (the (task_of s t))"
  "t_fence (shell_of s t) = t_fence (the (task_of s t))"
  by (simp_all add: shell_of_def task_shell_def)

text \<open>References that the tasks of a list own, and the blocks of one task.\<close>

definition held_fence :: "'a ctx_st_scheme \<Rightarrow> nat list \<Rightarrow> nat \<Rightarrow> nat" where
  "held_fence s q f = (\<Sum>t \<leftarrow> q. count_list (t_fence (shell_of s t) # t_deps (shell_of s t)) f)"

definition held_vm :: "'a ctx_st_scheme \<Rightarrow> nat list \<Rightarrow> nat \<Rightarrow> nat" where
  "held_vm s q v = (\<Sum>t \<leftarrow> q. if t_vm (shell_of s t) = v then 1 else 0)"

definition held_bo :: "'a ctx_st_scheme \<Rightarrow> nat list \<Rightarrow> nat \<Rightarrow> nat" where
  "held_bo s q b = (\<Sum>t \<leftarrow> q. count_list (t_bos (shell_of s t)) b)"

definition blocks_of :: "'a ctx_st_scheme \<Rightarrow> nat \<Rightarrow> nat set" where
  "blocks_of s t = set_option (t_deps_arr (shell_of s t)) \<union> set_option (t_bos_arr (shell_of s t))"

lemmas held_defs = held_fence_def held_vm_def held_bo_def

text \<open>References of fences that the reservation objects own.\<close>

definition resv_held :: "'a ctx_st_scheme \<Rightarrow> nat \<Rightarrow> nat" where
  "resv_held s f = (\<Sum>bo \<in> dom (vs_bos s). count_list (resv_refs (resv_of s bo)) f)"

text \<open>
  The unfinished tasks \<open>q\<close> and the reservation objects own their references, and every buffer
  object has one more (its handles).
\<close>

definition refs_owned :: "'a ctx_st_scheme \<Rightarrow> nat list \<Rightarrow> bool" where
  "refs_owned s q \<longleftrightarrow> finite (dom (vs_bos s)) \<and>
     (\<forall>f. held_fence s q f + resv_held s f \<le> frefs s f) \<and>
     (\<forall>v. held_vm s q v \<le> vrefs s v) \<and>
     (\<forall>b. held_bo s q b + (if b \<in> dom (vs_bos s) then 1 else 0) \<le> brefs s b)"

definition blocks_owned :: "'a ctx_st_scheme \<Rightarrow> nat list \<Rightarrow> bool" where
  "blocks_owned s q \<longleftrightarrow> (\<forall>t \<in> set q. blocks_of s t \<subseteq> heap_plain s \<and>
     set_option (t_deps_arr (shell_of s t)) \<inter> set_option (t_bos_arr (shell_of s t)) = {} \<and>
     (\<forall>u \<in> set q. u \<noteq> t \<longrightarrow> blocks_of s u \<inter> blocks_of s t = {}))"

text \<open>
  Dependencies point back: each is signaled or in \<open>F\<close>, or the fence of an earlier task. And
  reservation objects hold only signaled fences and those of unfinished tasks.
\<close>

fun deps_back :: "'a ctx_st_scheme \<Rightarrow> nat set \<Rightarrow> nat list \<Rightarrow> bool" where
  "deps_back s F [] \<longleftrightarrow> True"
| "deps_back s F (t # q) \<longleftrightarrow> (\<forall>f \<in> set (t_deps (shell_of s t)). fence_status s f \<noteq> 0 \<or> f \<in> F) \<and>
     deps_back s (insert (t_fence (shell_of s t)) F) q"

definition resvs_back :: "'a ctx_st_scheme \<Rightarrow> nat list \<Rightarrow> bool" where
  "resvs_back s q \<longleftrightarrow> (\<forall>bo \<in> dom (vs_bos s). \<forall>f \<in> set (resv_refs (resv_of s bo)).
     fence_status s f \<noteq> 0 \<or> f \<in> (\<lambda>t. t_fence (shell_of s t)) ` set q)"

text \<open>The queues hold the unfinished tasks in the order of their submission.\<close>

definition queues_ok :: "'a ctx_st_scheme \<Rightarrow> nat list \<Rightarrow> bool" where
  "queues_ok s q \<longleftrightarrow> distinct q \<and> (\<forall>t \<in> set q. task_of s t \<noteq> None) \<and>
     (\<forall>p. pending s p = filter (\<lambda>t. t_pipe (shell_of s t) = p) q)"

definition tasks_inv :: "(nat \<Rightarrow> nat) \<Rightarrow> 'a ctx_st_scheme \<Rightarrow> nat list \<Rightarrow> bool" where
  "tasks_inv h s q \<longleftrightarrow> heap_wf s \<and> queues_ok s q \<and> pending_ok s \<and> counts_ok h s \<and> refs_owned s q \<and> blocks_owned s q \<and>
     deps_back s {} q \<and> resvs_back s q"

lemma tasks_invD:
  assumes "tasks_inv h s q"
  shows "heap_wf s" "queues_ok s q" "pending_ok s" "counts_ok h s" "refs_owned s q" "blocks_owned s q" "deps_back s {} q" "resvs_back s q"
  using assms unfolding tasks_inv_def by blast+

lemma queues_okD:
  assumes "queues_ok s q"
  shows "distinct q" "t \<in> set q \<Longrightarrow> task_of s t \<noteq> None" "pending s p = filter (\<lambda>t. t_pipe (shell_of s t) = p) q"
  using assms unfolding queues_ok_def by blast+

lemma queues_all:
  assumes "queues_ok s q"
  shows "all_pending s = set q"
  unfolding all_pending_def using queues_okD(3) [OF assms] by auto

section \<open>Steps of the hardware and of the run work\<close>

text \<open>The fences in \<open>X\<close> have been signaled meanwhile.\<close>

lemma deps_back_mono:
  assumes "deps_back s F q" and "\<And>t. t \<in> set q \<Longrightarrow> shell_of s' t = shell_of s t" and "F \<subseteq> X \<union> G"
    and "\<And>t f. t \<in> set q \<Longrightarrow> f \<in> set (t_deps (shell_of s t)) \<Longrightarrow> fence_status s f \<noteq> 0 \<or> f \<in> X \<Longrightarrow> fence_status s' f \<noteq> 0"
  shows "deps_back s' G q"
  using assms
proof (induction q arbitrary: F G)
  case (Cons t q)
  have sh: "shell_of s' t = shell_of s t" by (rule Cons.prems(2)) simp
  have "deps_back s' (insert (t_fence (shell_of s t)) G) q"
    by (rule Cons.IH [of "insert (t_fence (shell_of s t)) F"]) (use Cons.prems in auto)
  moreover have "fence_status s' f \<noteq> 0 \<or> f \<in> G" if "f \<in> set (t_deps (shell_of s t))" for f
    using Cons.prems(1,3) Cons.prems(4) [of t f] that by auto
  ultimately show ?case unfolding deps_back.simps sh by blast
qed simp

lemma deps_back_remove:
  assumes "deps_back s F q" and "distinct q" and "\<And>u. u \<in> set q \<Longrightarrow> u \<noteq> t \<Longrightarrow> shell_of s' u = shell_of s u" and "F \<subseteq> G"
    and "\<And>u f. u \<in> set q \<Longrightarrow> u \<noteq> t \<Longrightarrow> f \<in> set (t_deps (shell_of s u)) \<Longrightarrow>
      fence_status s f \<noteq> 0 \<or> f = t_fence (shell_of s t) \<Longrightarrow> fence_status s' f \<noteq> 0"
  shows "deps_back s' G (remove1 t q)"
  using assms
proof (induction q arbitrary: F G)
  case (Cons u q)
  show ?case
  proof (cases "u = t")
    case True
    then have t: "deps_back s (insert (t_fence (shell_of s t)) F) q" "t \<notin> set q" using Cons.prems(1,2) by simp_all
    have "deps_back s' G q"
      by (rule deps_back_mono [OF t(1), where X = "{t_fence (shell_of s t)}"])
        (use Cons.prems(3-5) t(2) in \<open>auto simp del: shell_of_fields\<close>)
    with True show ?thesis by simp
  next
    case False
    have sh: "shell_of s' u = shell_of s u" using False by (intro Cons.prems(3)) simp_all
    have "deps_back s' (insert (t_fence (shell_of s u)) G) (remove1 t q)"
      by (rule Cons.IH [of "insert (t_fence (shell_of s u)) F"]) (use Cons.prems in auto)
    moreover have "fence_status s' f \<noteq> 0 \<or> f \<in> G" if "f \<in> set (t_deps (shell_of s u))" for f
      using Cons.prems(1,4) Cons.prems(5) [of u f] False that by auto
    ultimately have "deps_back s' G (u # remove1 t q)" unfolding deps_back.simps sh by blast
    with False show ?thesis by simp
  qed
qed simp

text \<open>A step that changes only the device, and there only frames, flags and counters.\<close>

lemma device_tasks_inv:
  assumes inv: "tasks_inv h s q" and dev: "\<And>t. map_option task_shell (dev_tasks d t) = map_option task_shell (task_of s t)"
    and pend: "pending (s\<lparr>cs_dev := d\<rparr>) = pending s"
  shows "tasks_inv h (s\<lparr>cs_dev := d\<rparr>) q"
proof -
  let ?s = "s\<lparr>cs_dev := d\<rparr>"
  note i = tasks_invD [OF inv]
  have none: "dev_tasks d t = None \<longleftrightarrow> task_of s t = None" for t using dev [of t] by (metis option.map_disc_iff)
  then have dom: "dom (dev_tasks d) = dom (task_of s)" by (auto simp: dom_def)
  note heap = heap_dev [OF dom i(1)]
  have sh: "shell_of ?s t = shell_of s t" for t
    using dev [of t] by (cases "task_of s t"; cases "dev_tasks d t") (simp_all add: shell_of_def)
  have refs: "frefs ?s = frefs s" "vrefs ?s = vrefs s" "brefs ?s = brefs s" "resv_of ?s = resv_of s" "fence_status ?s = fence_status s"
    by (simp_all add: frefs_def vrefs_def brefs_def resv_of_def fence_status_def fun_eq_iff)
  have "same_tasks s ?s" by (simp add: same_tasks_def dev)
  from same_inv [OF pend this] i(3,4) have "pending_ok ?s" "counts_ok h ?s" by simp_all
  moreover have "queues_ok ?s q" using i(2) by (simp add: queues_ok_def pend sh none del: shell_of_fields)
  moreover have "refs_owned ?s q"
    using i(5) by (simp add: refs_owned_def held_defs resv_held_def refs sh del: shell_of_fields)
  moreover have "blocks_owned ?s q"
    using i(6) heap by (simp add: blocks_owned_def blocks_of_def sh del: shell_of_fields)
  moreover have "deps_back ?s {} q" by (rule deps_back_mono [OF i(7), where X = "{}"]) (simp_all add: sh refs del: shell_of_fields)
  moreover have "resvs_back ?s q" using i(8) by (simp add: resvs_back_def refs sh del: shell_of_fields)
  ultimately show ?thesis using heap by (simp add: tasks_inv_def)
qed

lemma hw_tasks_inv:
  assumes "tasks_inv h s q" and "hw_keeps (cs_dev s) d"
  shows "tasks_inv h (s\<lparr>cs_dev := d\<rparr>) q"
  by (rule device_tasks_inv [OF assms(1)]) (use assms(2) in \<open>simp_all add: hw_keeps_def pending_def fun_eq_iff\<close>)

lemma pick_tasks_inv:
  assumes "tasks_inv h s q" and "run_pick p s = (Some t, s')"
  shows "tasks_inv h s' q" and "p_current_task (pipe_of p s) = None" and "pending s p = t # p_queue (pipe_of p s')"
    and "p_current_task (pipe_of p s') = Some t" and "\<And>r. r \<noteq> p \<Longrightarrow> pipe_of r s' = pipe_of r s"
proof -
  from assms(2) obtain ts where ts: "p_queue (pipe_of p s) = t # ts" "p_current_task (pipe_of p s) = None"
    and s': "s' = s\<lparr>cs_dev := pipe_upd p (\<lambda>y. y\<lparr>p_queue := ts, p_current_task := Some t\<rparr>) (cs_dev s)\<rparr>"
    by (auto simp: run_pick_def on_pipe_def split: list.splits if_splits)
  have "pending s' = pending s" using ts by (auto simp: s' pending_def fun_eq_iff)
  then show "tasks_inv h s' q" unfolding s' by (intro device_tasks_inv [OF assms(1)]) simp_all
  show "p_current_task (pipe_of p s) = None" "p_current_task (pipe_of p s') = Some t" "pending s p = t # p_queue (pipe_of p s')"
    "\<And>r. r \<noteq> p \<Longrightarrow> pipe_of r s' = pipe_of r s"
    using ts by (simp_all add: s' pending_def)
qed

section \<open>The end of a task\<close>

lemma task_status_nonzero: "task_status err n \<noteq> 0"
  by (simp add: task_status_def)

lemma sum_without: "t \<in> set q \<Longrightarrow> (\<Sum>u \<leftarrow> q. g u) = g t + (\<Sum>u \<leftarrow> remove1 t q. g u)" for g :: "nat \<Rightarrow> nat"
  by (rule sum_list_map_remove1)

lemma held_without:
  assumes "t \<in> set q" and "\<And>u. u \<in> set (remove1 t q) \<Longrightarrow> shell_of s' u = shell_of s u"
  shows "held_fence s q f = count_list (t_fence (shell_of s t) # t_deps (shell_of s t)) f + held_fence s' (remove1 t q) f"
    and "held_vm s q v = (if t_vm (shell_of s t) = v then 1 else 0) + held_vm s' (remove1 t q) v"
    and "held_bo s q b = count_list (t_bos (shell_of s t)) b + held_bo s' (remove1 t q) b"
  unfolding held_defs using assms by (simp_all add: sum_without [OF assms(1)] cong: map_cong del: shell_of_fields)

text \<open>An unfinished task that is current owns what its end gives back.\<close>

lemma current_owned:
  assumes inv: "tasks_inv h s q" and cur: "pending s p = t # ts"
  obtains x c where "task_of s t = Some x" and "t_pipe x = p" and "t_ctx x = Some (t_context x)" and "cs_ctxs s (t_context x) = Some c"
    and "task_owned x (t_context x) (task_over x err c) (ctx_upd (t_context x) (task_over x err c) s)" and "t \<in> set q"
proof -
  note i = tasks_invD [OF inv]
  from current_owner [OF i(3,4) cur, of err] obtain x c where x: "task_of s t = Some x" "t_pipe x = p" "t_ctx x = Some (t_context x)"
    "cs_ctxs s (t_context x) = Some c" "cx_refcount c \<noteq> 1 \<or> quiet (task_over x err c)" by metis
  have tq: "t \<in> set q" using queues_okD(3) [OF i(2), of p] cur by (metis filter_is_subset list.set_intros(1) subsetD)
  let ?k = "t_context x"
  let ?S = "ctx_upd ?k (task_over x err c) s"
  have S: "frefs ?S = frefs s" "vrefs ?S = vrefs s" "brefs ?S = brefs s" "heap_plain ?S = heap_plain s"
    using ctx_upd_heap [OF i(1) x(4)] by (simp_all add: frefs_def vrefs_def brefs_def ctx_upd_def fun_eq_iff)
  note w = held_without [OF tq refl, of s]
  have sh: "t_fence (the (task_of s t)) = t_fence x" "t_deps (the (task_of s t)) = t_deps x" "t_vm (the (task_of s t)) = t_vm x"
    "t_bos (the (task_of s t)) = t_bos x" "t_bos_arr (the (task_of s t)) = t_bos_arr x" "t_deps_arr (the (task_of s t)) = t_deps_arr x"
    using x(1) by simp_all
  have "count_list (t_fence x # t_deps x) f \<le> frefs s f" for f
  proof -
    have "held_fence s q f \<le> frefs s f" using i(5) unfolding refs_owned_def by (metis add_leD1)
    with w(1) [of f] sh show ?thesis by simp
  qed
  moreover have "0 < vrefs s (t_vm x)"
  proof -
    have "held_vm s q (t_vm x) \<le> vrefs s (t_vm x)" using i(5) unfolding refs_owned_def by blast
    with w(2) [of "t_vm x"] sh show ?thesis by simp
  qed
  moreover have "count_list (t_bos x) b < brefs s b" if "b \<in> set (t_bos x)" for b
  proof -
    have le: "held_bo s q b + (if b \<in> dom (vs_bos s) then 1 else 0) \<le> brefs s b" using i(5) unfolding refs_owned_def by blast
    have pos: "0 < count_list (t_bos x) b" using that by (auto simp: count_list_0_iff intro: gr0I)
    have "b \<in> dom (vs_bos s)"
      using le pos w(3) [of b] sh by (cases "vs_bos s b") (auto simp: brefs_def)
    with le w(3) [of b] sh show ?thesis by simp
  qed
  moreover have "set_option (t_deps_arr x) \<union> set_option (t_bos_arr x) \<subseteq> heap_plain s \<and>
      set_option (t_deps_arr x) \<inter> set_option (t_bos_arr x) = {}"
    using i(6) tq sh unfolding blocks_owned_def blocks_of_def by auto
  ultimately have "task_owned x ?k (task_over x err c) ?S"
    using x(3,5) unfolding task_owned_def S by (simp add: ctx_upd_def) (simp add: task_over_def)
  then show thesis by (rule that [OF x(1-4) _ tq])
qed

lemma resv_kept:
  assumes "vs_bos s' bo = Some y" and "map_option bo_resv (vs_bos s bo) = Some (bo_resv y)"
  shows "resv_of s' bo = resv_of s bo" and "bo \<in> dom (vs_bos s)"
  using assms by (auto simp: resv_of_def)

text \<open>
  What the end of the task \<open>t\<close> changes: its references and blocks are given back, its fence is
  signaled, and the other tasks and the reservation objects that are left are as before.
\<close>

definition task_ended :: "'a ctx_st_scheme \<Rightarrow> nat \<Rightarrow> 'a ctx_st_scheme \<Rightarrow> bool" where
  "task_ended s t s' \<longleftrightarrow> (let x = shell_of s t in
     frefs s' = (\<lambda>f. frefs s f - count_list (t_fence x # t_deps x) f) \<and>
     vrefs s' = (vrefs s)(t_vm x := vrefs s (t_vm x) - 1) \<and> brefs s' = (\<lambda>b. brefs s b - count_list (t_bos x) b) \<and>
     heap_plain s' = heap_plain s - blocks_of s t \<and>
     (\<forall>bo \<in> dom (vs_bos s'). bo \<in> dom (vs_bos s) \<and> resv_of s' bo = resv_of s bo) \<and>
     (\<forall>u. u \<noteq> t \<longrightarrow> shell_of s' u = shell_of s u) \<and>
     (\<forall>f. 0 < frefs s' f \<longrightarrow> fence_status s f \<noteq> 0 \<or> f = t_fence x \<longrightarrow> fence_status s' f \<noteq> 0))"

lemma task_endedD:
  assumes "task_ended s t s'"
  shows "frefs s' = (\<lambda>f. frefs s f - count_list (t_fence (shell_of s t) # t_deps (shell_of s t)) f)"
    and "vrefs s' = (vrefs s)(t_vm (shell_of s t) := vrefs s (t_vm (shell_of s t)) - 1)"
    and "brefs s' = (\<lambda>b. brefs s b - count_list (t_bos (shell_of s t)) b)" and "heap_plain s' = heap_plain s - blocks_of s t"
    and "bo \<in> dom (vs_bos s') \<Longrightarrow> bo \<in> dom (vs_bos s)" and "bo \<in> dom (vs_bos s') \<Longrightarrow> resv_of s' bo = resv_of s bo"
    and "u \<noteq> t \<Longrightarrow> shell_of s' u = shell_of s u"
    and "0 < frefs s' f \<Longrightarrow> fence_status s f \<noteq> 0 \<or> f = t_fence (shell_of s t) \<Longrightarrow> fence_status s' f \<noteq> 0"
  using assms unfolding task_ended_def Let_def by blast+

lemma ended_refs:
  assumes e: "task_ended s t s'" and own: "refs_owned s q" and q: "t \<in> set q" "distinct q"
  shows "refs_owned s' (remove1 t q)"
proof -
  have sh: "u \<in> set (remove1 t q) \<Longrightarrow> shell_of s' u = shell_of s u" for u
    using q(2) by (intro task_endedD(7) [OF e]) auto
  note w = held_without [OF q(1) sh] and d = task_endedD [OF e]
  have fin: "finite (dom (vs_bos s))" using own by (simp add: refs_owned_def)
  have sub: "dom (vs_bos s') \<subseteq> dom (vs_bos s)" using d(5) by (rule subsetI)
  have "held_fence s' (remove1 t q) f + resv_held s' f \<le> frefs s' f" for f
  proof -
    have "resv_held s' f = (\<Sum>bo \<in> dom (vs_bos s'). count_list (resv_refs (resv_of s bo)) f)"
      unfolding resv_held_def using d(6) by (intro sum.cong) simp_all
    also have "\<dots> \<le> resv_held s f" unfolding resv_held_def using fin sub by (intro sum_mono2) auto
    finally have "resv_held s' f \<le> resv_held s f" .
    moreover have "held_fence s q f + resv_held s f \<le> frefs s f" using own by (simp add: refs_owned_def)
    ultimately show ?thesis using w(1) [of f] by (simp add: d(1))
  qed
  moreover have "held_vm s' (remove1 t q) v \<le> vrefs s' v" for v
  proof -
    have "held_vm s q v \<le> vrefs s v" using own by (simp add: refs_owned_def)
    with w(2) [of v] show ?thesis by (auto simp: d(2) split: if_splits)
  qed
  moreover have "held_bo s' (remove1 t q) b + (if b \<in> dom (vs_bos s') then 1 else 0) \<le> brefs s' b" for b
  proof -
    have "held_bo s q b + (if b \<in> dom (vs_bos s) then 1 else 0) \<le> brefs s b" using own by (simp add: refs_owned_def)
    with w(3) [of b] d(5) [of b] show ?thesis by (auto simp: d(3) simp del: domIff split: if_splits)
  qed
  ultimately show ?thesis using sub fin by (simp add: refs_owned_def finite_subset)
qed

lemma ended_blocks:
  assumes e: "task_ended s t s'" and own: "blocks_owned s q" and q: "t \<in> set q" "distinct q"
  shows "blocks_owned s' (remove1 t q)"
proof -
  have b: "blocks_of s' u = blocks_of s u" "shell_of s' u = shell_of s u" if "u \<noteq> t" for u
    using task_endedD(7) [OF e that] by (simp_all add: blocks_of_def del: shell_of_fields)
  have o: "blocks_of s u \<subseteq> heap_plain s" "set_option (t_deps_arr (shell_of s u)) \<inter> set_option (t_bos_arr (shell_of s u)) = {}"
    "v \<in> set q \<Longrightarrow> v \<noteq> u \<Longrightarrow> blocks_of s v \<inter> blocks_of s u = {}" if "u \<in> set q" for u v
    using own that unfolding blocks_owned_def by blast+
  show ?thesis
    unfolding blocks_owned_def set_remove1_eq [OF q(2)] task_endedD(4) [OF e]
  proof (intro ballI conjI impI)
    fix u assume u: "u \<in> set q - {t}"
    show "blocks_of s' u \<subseteq> heap_plain s - blocks_of s t" using o(1) [of u] o(3) [of t u] u q(1) b(1) [of u] by blast
    show "set_option (t_deps_arr (shell_of s' u)) \<inter> set_option (t_bos_arr (shell_of s' u)) = {}"
      using o(2) [of u] u b(2) [of u] by simp
    show "blocks_of s' v \<inter> blocks_of s' u = {}" if "v \<in> set q - {t}" "v \<noteq> u" for v
      using o(3) [of u v] u that b(1) by simp
  qed
qed

lemma owned_alive:
  assumes "refs_owned s q"
  shows "t \<in> set q \<Longrightarrow> f \<in> set (t_fence (shell_of s t) # t_deps (shell_of s t)) \<Longrightarrow> 0 < frefs s f"
    and "bo \<in> dom (vs_bos s) \<Longrightarrow> f \<in> set (resv_refs (resv_of s bo)) \<Longrightarrow> 0 < frefs s f"
proof -
  have le: "held_fence s q f + resv_held s f \<le> frefs s f" using assms by (simp add: refs_owned_def)
  show "0 < frefs s f" if "t \<in> set q" "f \<in> set (t_fence (shell_of s t) # t_deps (shell_of s t))"
  proof -
    have "0 < count_list (t_fence (shell_of s t) # t_deps (shell_of s t)) f" using that(2) by (simp only: count_list_pos)
    also have "\<dots> \<le> held_fence s q f" unfolding held_fence_def using that(1) by (intro member_le_sum_list) simp_all
    finally show ?thesis using le by linarith
  qed
  show "0 < frefs s f" if "bo \<in> dom (vs_bos s)" "f \<in> set (resv_refs (resv_of s bo))"
  proof -
    have "0 < count_list (resv_refs (resv_of s bo)) f" using that(2) by (simp only: count_list_pos)
    also have "\<dots> \<le> resv_held s f"
      unfolding resv_held_def using that(1) assms by (intro member_le_sum) (simp_all add: refs_owned_def)
    finally show ?thesis using le by linarith
  qed
qed

lemma ended_back:
  assumes e: "task_ended s t s'" and deps: "deps_back s {} q" and resv: "resvs_back s q" and own: "refs_owned s' (remove1 t q)"
    and q: "t \<in> set q" "distinct q"
  shows "deps_back s' {} (remove1 t q)" and "resvs_back s' (remove1 t q)"
proof -
  note d = task_endedD [OF e] and alive = owned_alive [OF own]
  have q': "set (remove1 t q) = set q - {t}" using q(2) by (rule set_remove1_eq)
  show "deps_back s' {} (remove1 t q)"
  proof (rule deps_back_remove [OF deps q(2)])
    show "fence_status s' f \<noteq> 0"
      if "u \<in> set q" "u \<noteq> t" "f \<in> set (t_deps (shell_of s u))" "fence_status s f \<noteq> 0 \<or> f = t_fence (shell_of s t)" for u f
      by (rule d(8) [OF alive(1) [of u] that(4)]) (use that q' d(7) in \<open>simp_all del: shell_of_fields\<close>)
  qed (simp_all add: d(7) del: shell_of_fields)
  show "resvs_back s' (remove1 t q)"
    unfolding resvs_back_def
  proof (intro ballI)
    fix bo f assume bo: "bo \<in> dom (vs_bos s')" and f: "f \<in> set (resv_refs (resv_of s' bo))"
    then have "fence_status s f \<noteq> 0 \<or> f \<in> (\<lambda>t. t_fence (shell_of s t)) ` set q"
      using resv d(5,6) unfolding resvs_back_def by (metis (no_types))
    then consider "fence_status s f \<noteq> 0 \<or> f = t_fence (shell_of s t)" | u where "u \<in> set q" "u \<noteq> t" "f = t_fence (shell_of s u)" by blast
    then show "fence_status s' f \<noteq> 0 \<or> f \<in> (\<lambda>t. t_fence (shell_of s' t)) ` set (remove1 t q)"
    proof cases
      case 1
      with d(8) alive(2) [OF bo f] show ?thesis by blast
    next
      case (2 u)
      then have "u \<in> set (remove1 t q)" "f = t_fence (shell_of s' u)" using q' d(7) by simp_all
      then show ?thesis by blast
    qed
  qed
qed

text \<open>
  The current task is finished: the code returns, and whatever else happens to the device, the
  invariant holds for the remaining tasks.
\<close>

lemma finish_tasks_inv:
  fixes s :: "'a ctx_st_scheme"
  assumes inv: "tasks_inv h s q" and cur: "pending s p = t # ts"
  obtains a where "lima_sched_finish_task Z t err s = Some a"
    and "cs_dev a = (cs_dev s)\<lparr>dev_tasks := (task_of s)(t := None)\<rparr>"
    and "\<And>d. (\<And>u. map_option task_shell (dev_tasks d u) = map_option task_shell (task_of a u)) \<Longrightarrow>
      pending (a\<lparr>cs_dev := d\<rparr>) = (pending s)(p := ts) \<Longrightarrow> tasks_inv h (a\<lparr>cs_dev := d\<rparr>) (remove1 t q)"
proof -
  note i = tasks_invD [OF inv]
  from current_owned [OF inv cur, of err] obtain x c where x: "task_of s t = Some x" "t_pipe x = p" "t_ctx x = Some (t_context x)"
    "cs_ctxs s (t_context x) = Some c" and own: "task_owned x (t_context x) (task_over x err c) (ctx_upd (t_context x) (task_over x err c) s)"
    and tq: "t \<in> set q" by metis
  from finish_task_heap [OF i(1) x(1) refl x(4) own, of Z] obtain a where a: "lima_sched_finish_task Z t err s = Some a" "heap_wf a"
    "cs_dev a = (cs_dev s)\<lparr>dev_tasks := (task_of s)(t := None)\<rparr>"
    "frefs a = (\<lambda>f. frefs s f - count_list (t_fence x # t_deps x) f)"
    "vrefs a = (vrefs s)(t_vm x := vrefs s (t_vm x) - 1)" "brefs a = (\<lambda>b. brefs s b - count_list (t_bos x) b)"
    "heap_plain a = heap_plain s - set_option (t_deps_arr x) - set_option (t_bos_arr x)"
    "\<forall>f y. fs_fences a f = Some y \<longrightarrow> f_status y =
       ((fence_status s)(t_fence x := task_status err (fence_status s (t_fence x)))) f" by blast
  show thesis
  proof (rule that [OF a(1,3)])
    fix d assume shells: "\<And>u. map_option task_shell (dev_tasks d u) = map_option task_shell (task_of a u)"
      and pend: "pending (a\<lparr>cs_dev := d\<rparr>) = (pending s)(p := ts)"
    define s' where "s' = a\<lparr>cs_dev := d\<rparr>"
    have none: "dev_tasks d u = None \<longleftrightarrow> task_of a u = None" for u using shells [of u] by (metis option.map_disc_iff)
    then have "dom (dev_tasks d) = dom (task_of a)" by (auto simp: dom_def)
    from heap_dev [OF this a(2)] have heap: "heap_wf s'" "heap_plain s' = heap_plain a" by (simp_all add: s'_def)
    have refs: "frefs s' = frefs a" "vrefs s' = vrefs a" "brefs s' = brefs a" "fence_status s' = fence_status a" "vs_bos s' = vs_bos a"
      by (simp_all add: s'_def frefs_def vrefs_def brefs_def fence_status_def fun_eq_iff)
    have dist: "distinct q" using i(2) by (rule queues_okD)
    have sh: "shell_of s' u = shell_of s u" if "u \<noteq> t" for u
      using shells [of u] that a(3) by (cases "task_of s u"; cases "dev_tasks d u") (simp_all add: shell_of_def s'_def)
    have res: "resv_of s' bo = resv_of s bo" "bo \<in> dom (vs_bos s)" if "bo \<in> dom (vs_bos s')" for bo
    proof -
      from that obtain y where y: "vs_bos s' bo = Some y" by blast
      then have "map_option bo_resv (vs_bos s bo) = Some (bo_resv y)"
        unfolding refs using finish_ends [OF i(3,4) cur a(1)] by blast
      from resv_kept [OF y this] show "resv_of s' bo = resv_of s bo" "bo \<in> dom (vs_bos s)" by blast+
    qed
    have st: "fence_status s' f \<noteq> 0" if pos: "0 < frefs s' f" and sig: "fence_status s f \<noteq> 0 \<or> f = t_fence x" for f
    proof -
      obtain y where y: "fs_fences a f = Some y" using pos unfolding refs(1) by (cases "fs_fences a f") (simp_all add: frefs_def)
      then have "fence_status s' f = f_status y" by (simp add: refs fence_status_def)
      with a(8) y sig task_status_nonzero show ?thesis by auto
    qed
    have e: "task_ended s t s'"
      unfolding task_ended_def Let_def using refs a(4-7) heap(2) res sh st x(1)
      by (auto simp: blocks_of_def)
    have "refs_owned s' (remove1 t q)" by (rule ended_refs [OF e i(5) tq dist])
    moreover have "deps_back s' {} (remove1 t q)" "resvs_back s' (remove1 t q)"
      using ended_back [OF e i(7,8) calculation tq dist] by blast+
    moreover have "blocks_owned s' (remove1 t q)" by (rule ended_blocks [OF e i(6) tq dist])
    moreover have "queues_ok s' (remove1 t q)"
    proof -
      have q': "set (remove1 t q) = set q - {t}" using dist by (rule set_remove1_eq)
      have "pending s' r = filter (\<lambda>u. t_pipe (shell_of s' u) = r) (remove1 t q)" for r
      proof -
        have "filter (\<lambda>u. t_pipe (shell_of s' u) = r) (remove1 t q) = filter (\<lambda>u. t_pipe (shell_of s u) = r) (remove1 t q)"
          using sh q' by (intro filter_cong) (simp_all del: shell_of_fields)
        also have "\<dots> = remove1 t (pending s r)" by (simp add: filter_remove1 queues_okD(3) [OF i(2)])
        also have "\<dots> = ((pending s)(p := ts)) r"
        proof (cases "r = p")
          case False
          then have "t \<notin> set (pending s r)" using x by (simp add: queues_okD(3) [OF i(2)])
          with False show ?thesis by (simp add: remove1_idem)
        qed (simp add: cur)
        finally show ?thesis using pend by (simp add: s'_def)
      qed
      moreover have "task_of s' u \<noteq> None" if "u \<in> set (remove1 t q)" for u
        using queues_okD(2) [OF i(2), of u] that q' none a(3) by (simp add: s'_def)
      ultimately show ?thesis using dist by (simp add: queues_ok_def)
    qed
    moreover have "pending_ok s' \<and> counts_ok h s'"
      by (rule finish_inv [OF i(3,4) cur a(1)]) (use pend shells in \<open>simp_all add: s'_def\<close>)
    ultimately show "tasks_inv h (a\<lparr>cs_dev := d\<rparr>) (remove1 t q)" using heap(1) by (simp add: tasks_inv_def s'_def)
  qed
qed

section \<open>A submission\<close>

lemma deps_back_snoc:
  "deps_back s F (q @ [t]) \<longleftrightarrow> deps_back s F q \<and>
     (\<forall>f \<in> set (t_deps (shell_of s t)). fence_status s f \<noteq> 0 \<or> f \<in> F \<union> (\<lambda>u. t_fence (shell_of s u)) ` set q)"
  by (induction q arbitrary: F) (auto simp del: shell_of_fields)

text \<open>
  What a submission changes: the new task \<open>t\<close> depends on every fence of its objects, whose
  exclusive fence becomes its own; its references and blocks are new, the other tasks as before.
\<close>

definition task_added :: "'a ctx_st_scheme \<Rightarrow> nat \<Rightarrow> 'a ctx_st_scheme \<Rightarrow> bool" where
  "task_added s t s' \<longleftrightarrow> (let x = shell_of s' t; bos = t_bos x in
     set bos \<subseteq> dom (vs_bos s) \<and> dom (vs_bos s') = dom (vs_bos s) \<and> frefs s (t_fence x) = 0 \<and> t_deps x = bos_fences s bos \<and>
     resv_of s' = (\<lambda>bo. if bo \<in> set bos then (resv_of s bo)\<lparr>rv_excl := Some (t_fence x)\<rparr> else resv_of s bo) \<and>
     vrefs s' = (vrefs s)(t_vm x := Suc (vrefs s (t_vm x))) \<and> brefs s' = (\<lambda>b. brefs s b + count_list bos b) \<and>
     fences_moved (t_fence x) (t_deps x) (set bos) s s' \<and>
     heap_plain s' = blocks_of s' t \<union> heap_plain s \<and> blocks_of s' t \<inter> heap_plain s = {} \<and>
     set_option (t_deps_arr x) \<inter> set_option (t_bos_arr x) = {} \<and>
     (\<forall>u. u \<noteq> t \<longrightarrow> shell_of s' u = shell_of s u) \<and>
     (\<forall>f. 0 < frefs s f \<longrightarrow> 0 < frefs s' f \<longrightarrow> fence_status s' f = fence_status s f))"

lemma task_addedD:
  assumes "task_added s t s'"
  shows "set (t_bos (shell_of s' t)) \<subseteq> dom (vs_bos s)" and "dom (vs_bos s') = dom (vs_bos s)" and "frefs s (t_fence (shell_of s' t)) = 0"
    and "t_deps (shell_of s' t) = bos_fences s (t_bos (shell_of s' t))"
    and "resv_of s' = (\<lambda>bo. if bo \<in> set (t_bos (shell_of s' t)) then (resv_of s bo)\<lparr>rv_excl := Some (t_fence (shell_of s' t))\<rparr> else resv_of s bo)"
    and "vrefs s' = (vrefs s)(t_vm (shell_of s' t) := Suc (vrefs s (t_vm (shell_of s' t))))"
    and "brefs s' = (\<lambda>b. brefs s b + count_list (t_bos (shell_of s' t)) b)"
    and "fences_moved (t_fence (shell_of s' t)) (t_deps (shell_of s' t)) (set (t_bos (shell_of s' t))) s s'"
    and "heap_plain s' = blocks_of s' t \<union> heap_plain s" and "blocks_of s' t \<inter> heap_plain s = {}"
    and "set_option (t_deps_arr (shell_of s' t)) \<inter> set_option (t_bos_arr (shell_of s' t)) = {}"
    and "u \<noteq> t \<Longrightarrow> shell_of s' u = shell_of s u"
    and "0 < frefs s f \<Longrightarrow> 0 < frefs s' f \<Longrightarrow> fence_status s' f = fence_status s f"
  using assms unfolding task_added_def Let_def by blast+

lemma resv_refs_count:
  "count_list (resv_refs r) g = (if rv_excl r = Some g then 1 else 0) + count_list (rv_shared r) g"
  by (simp add: resv_refs_def split: option.split)

lemma resv_held_parts:
  "resv_held s g = excl_count s (dom (vs_bos s)) g + (\<Sum>bo \<in> dom (vs_bos s). count_list (rv_shared (resv_of s bo)) g)"
  by (simp add: resv_held_def excl_count_def resv_refs_count sum.distrib)

lemma excl_count_diff:
  assumes "finite E" and "D \<subseteq> E"
  shows "excl_count s E g = excl_count s D g + excl_count s (E - D) g"
  unfolding excl_count_def using assms by (subst sum.subset_diff [of D E]) simp_all

lemma added_resv_held:
  assumes a: "task_added s t s'" and fin: "finite (dom (vs_bos s))"
  shows "resv_held s' g + excl_count s (set (t_bos (shell_of s' t))) g = resv_held s g + excl_count s' (set (t_bos (shell_of s' t))) g"
proof -
  let ?D = "set (t_bos (shell_of s' t))" and ?E = "dom (vs_bos s)"
  note d = task_addedD [OF a]
  have shared: "rv_shared (resv_of s' bo) = rv_shared (resv_of s bo)" for bo by (simp add: d(5) del: shell_of_fields)
  have "excl_count s' (?E - ?D) g = excl_count s (?E - ?D) g"
    unfolding excl_count_def by (intro sum.cong) (simp_all add: d(5) del: shell_of_fields)
  then show ?thesis
    using excl_count_diff [OF fin d(1), of s g] excl_count_diff [OF fin d(1), of s' g]
    by (simp add: resv_held_parts d(2) shared del: shell_of_fields)
qed

lemma held_snoc:
  assumes "\<And>u. u \<in> set q \<Longrightarrow> shell_of s' u = shell_of s u"
  shows "held_fence s' (q @ [t]) f = held_fence s q f + count_list (t_fence (shell_of s' t) # t_deps (shell_of s' t)) f"
    and "held_vm s' (q @ [t]) v = held_vm s q v + (if t_vm (shell_of s' t) = v then 1 else 0)"
    and "held_bo s' (q @ [t]) b = held_bo s q b + count_list (t_bos (shell_of s' t)) b"
proof -
  have e: "map (\<lambda>u. g (shell_of s' u)) q = map (\<lambda>u. g (shell_of s u)) q" for g :: "lima_sched_task \<Rightarrow> nat"
    using assms by (simp cong: map_cong)
  show "held_fence s' (q @ [t]) f = held_fence s q f + count_list (t_fence (shell_of s' t) # t_deps (shell_of s' t)) f"
    using e [of "\<lambda>x. count_list (t_fence x # t_deps x) f"] unfolding held_fence_def map_append sum_list_append by (simp only:) simp
  show "held_vm s' (q @ [t]) v = held_vm s q v + (if t_vm (shell_of s' t) = v then 1 else 0)"
    using e [of "\<lambda>x. if t_vm x = v then 1 else 0"] unfolding held_vm_def map_append sum_list_append by (simp only:) simp
  show "held_bo s' (q @ [t]) b = held_bo s q b + count_list (t_bos (shell_of s' t)) b"
    using e [of "\<lambda>x. count_list (t_bos x) b"] unfolding held_bo_def map_append sum_list_append by (simp only:) simp
qed

lemma added_refs:
  assumes a: "task_added s t s'" and own: "refs_owned s q" and new: "t \<notin> set q"
  shows "refs_owned s' (q @ [t])"
proof -
  let ?x = "shell_of s' t"
  note d = task_addedD [OF a]
  have sh: "u \<in> set q \<Longrightarrow> shell_of s' u = shell_of s u" for u using new by (intro d(12)) auto
  note w = held_snoc [OF sh, of q]
  have fin: "finite (dom (vs_bos s))" using own by (simp add: refs_owned_def)
  have "held_fence s' (q @ [t]) f + resv_held s' f \<le> frefs s' f" for f
  proof -
    have "held_fence s q f + resv_held s f \<le> frefs s f" using own by (simp add: refs_owned_def)
    moreover have "frefs s' f + excl_count s (set (t_bos ?x)) f =
        ((frefs s)(t_fence ?x := 1)) f + count_list (t_deps ?x) f + excl_count s' (set (t_bos ?x)) f"
      using d(8) unfolding fences_moved_def by blast
    ultimately show ?thesis
      using added_resv_held [OF a fin, of f] d(3) by (cases "f = t_fence ?x") (simp_all add: w(1) del: shell_of_fields)
  qed
  moreover have "held_vm s' (q @ [t]) v \<le> vrefs s' v" for v
  proof -
    have "held_vm s q v \<le> vrefs s v" using own by (simp add: refs_owned_def)
    then show ?thesis by (auto simp: w(2) d(6) simp del: shell_of_fields)
  qed
  moreover have "held_bo s' (q @ [t]) b + (if b \<in> dom (vs_bos s') then 1 else 0) \<le> brefs s' b" for b
  proof -
    have "held_bo s q b + (if b \<in> dom (vs_bos s) then 1 else 0) \<le> brefs s b" using own by (simp add: refs_owned_def)
    then show ?thesis by (simp add: w(3) d(2,7) del: shell_of_fields domIff)
  qed
  ultimately show ?thesis using fin by (simp add: refs_owned_def d(2))
qed

lemma added_blocks:
  assumes a: "task_added s t s'" and own: "blocks_owned s q" and new: "t \<notin> set q"
  shows "blocks_owned s' (q @ [t])"
proof -
  note d = task_addedD [OF a]
  have sh: "shell_of s' u = shell_of s u" if "u \<in> set q" for u using that new by (intro d(12)) auto
  then have b: "blocks_of s' u = blocks_of s u" if "u \<in> set q" for u using that by (simp add: blocks_of_def del: shell_of_fields)
  have o: "blocks_of s u \<subseteq> heap_plain s" "set_option (t_deps_arr (shell_of s u)) \<inter> set_option (t_bos_arr (shell_of s u)) = {}"
    "\<And>v. v \<in> set q \<Longrightarrow> v \<noteq> u \<Longrightarrow> blocks_of s v \<inter> blocks_of s u = {}" if "u \<in> set q" for u
    using own that unfolding blocks_owned_def by blast+
  have "blocks_of s' u \<inter> blocks_of s' t = {}" if "u \<in> set q" for u using o(1) [OF that] b [OF that] d(10) by blast
  moreover have "blocks_of s' u \<subseteq> heap_plain s'" if "u \<in> set (q @ [t])" for u using that o(1) b d(9) by auto
  moreover have "set_option (t_deps_arr (shell_of s' u)) \<inter> set_option (t_bos_arr (shell_of s' u)) = {}" if "u \<in> set (q @ [t])" for u
  proof (cases "u = t")
    case False
    then have "u \<in> set q" using that by simp
    from o(2) [OF this] sh [OF this] show ?thesis by simp
  qed (simp only: d(11))
  moreover have "blocks_of s' v \<inter> blocks_of s' u = {}" if "u \<in> set q" "v \<in> set q" "v \<noteq> u" for u v
    using o(3) [OF that(1,2,3)] b that(1,2) by simp
  ultimately show ?thesis
    unfolding blocks_owned_def by (auto simp del: shell_of_fields simp: Int_commute)
qed

lemma added_back:
  assumes a: "task_added s t s'" and deps: "deps_back s {} q" and resv: "resvs_back s q"
    and own: "refs_owned s q" "refs_owned s' (q @ [t])" and new: "t \<notin> set q"
  shows "deps_back s' {} (q @ [t])" and "resvs_back s' (q @ [t])"
proof -
  note d = task_addedD [OF a]
  have sh: "u \<in> set q \<Longrightarrow> shell_of s' u = shell_of s u" for u using new by (intro d(12)) auto
  have resv_st: "fence_status s' f \<noteq> 0 \<or> f \<in> (\<lambda>u. t_fence (shell_of s' u)) ` set q"
    if "bo \<in> dom (vs_bos s)" "f \<in> set (resv_refs (resv_of s bo))" "0 < frefs s' f" for bo f
  proof -
    have "0 < frefs s f" using owned_alive(2) [OF own(1) that(1,2)] .
    from d(13) [OF this that(3)] have "fence_status s' f = fence_status s f" .
    moreover have "fence_status s f \<noteq> 0 \<or> f \<in> (\<lambda>u. t_fence (shell_of s u)) ` set q" using resv that(1,2) unfolding resvs_back_def by blast
    ultimately show ?thesis using sh by (auto simp del: shell_of_fields)
  qed
  have "deps_back s' {} q"
  proof (rule deps_back_mono [OF deps sh, where X = "{}"])
    show "fence_status s' f \<noteq> 0" if "u \<in> set q" "f \<in> set (t_deps (shell_of s u))" "fence_status s f \<noteq> 0 \<or> f \<in> {}" for u f
    proof -
      have "0 < frefs s f" using owned_alive(1) [OF own(1) that(1), of f] that(2) by simp
      moreover have "0 < frefs s' f" using owned_alive(1) [OF own(2), of u f] that(1,2) sh by (simp del: shell_of_fields)
      ultimately show ?thesis using d(13) that(3) by simp
    qed
  qed simp_all
  moreover have "fence_status s' f \<noteq> 0 \<or> f \<in> (\<lambda>u. t_fence (shell_of s' u)) ` set q" if "f \<in> set (t_deps (shell_of s' t))" for f
  proof -
    from that obtain bo where bo: "bo \<in> set (t_bos (shell_of s' t))" "f \<in> set (resv_refs (resv_of s bo))"
      unfolding d(4) by (auto simp: bos_fences_def)
    have "0 < frefs s' f" using owned_alive(1) [OF own(2), of t f] that by simp
    with resv_st bo d(1) show ?thesis by blast
  qed
  ultimately show "deps_back s' {} (q @ [t])" by (simp add: deps_back_snoc del: shell_of_fields)
  show "resvs_back s' (q @ [t])"
    unfolding resvs_back_def
  proof (intro ballI)
    fix bo f assume bo: "bo \<in> dom (vs_bos s')" and f: "f \<in> set (resv_refs (resv_of s' bo))"
    have "f \<in> set (resv_refs (resv_of s bo)) \<or> f = t_fence (shell_of s' t)"
      using f by (auto simp: d(5) resv_refs_def simp del: shell_of_fields split: if_splits option.splits)
    then show "fence_status s' f \<noteq> 0 \<or> f \<in> (\<lambda>u. t_fence (shell_of s' u)) ` set (q @ [t])"
      using resv_st [of bo f] bo owned_alive(2) [OF own(2) bo f] by (auto simp: d(2) simp del: shell_of_fields)
  qed
qed

text \<open>The reservation objects own what they hold, in the sense of the submission.\<close>

lemma owned_resvs:
  assumes "refs_owned s q"
  shows "resvs_own s"
  unfolding resvs_own_def
proof (intro conjI allI impI ballI)
  show "0 < frefs s f" if "bo \<in> dom (vs_bos s)" "f \<in> set (resv_refs (resv_of s bo))" for bo f
    using assms that by (rule owned_alive(2))
  fix D g assume D: "finite D" "D \<subseteq> dom (vs_bos s)"
  have "finite (dom (vs_bos s))" "held_fence s q g + resv_held s g \<le> frefs s g" using assms by (simp_all add: refs_owned_def)
  with excl_count_diff [OF this(1) D(2), of s g] resv_held_parts [of s g] show "excl_count s D g \<le> frefs s g" by linarith
qed

text \<open>The open file \<open>priv\<close>, with its handle table, can submit.\<close>

definition file_open :: "handles \<Rightarrow> lima_drm_priv \<Rightarrow> 'a ctx_st_scheme \<Rightarrow> bool" where
  "file_open H priv s \<longleftrightarrow> handles_ok H (pr_vm priv) s \<and> 0 < vrefs s (pr_vm priv) \<and> ctx_table (pr_ctx_mgr priv) s"

lemma submit_tasks_added:
  assumes inv: "tasks_inv h s q" and opened: "file_open H priv s"
    and run: "lima_ioctl_gem_submit U Z (\<lambda>s. s) H priv args s = Some (0, s')"
  obtains t p k y c where "task_of s t = None" and "heap_wf s'" and "task_added s t s'"
    and "task_of s' = (task_of s)(t \<mapsto> y)" and "t_pipe y = p" and "t_ctx y = Some k" and "t_context y = k"
    and "cs_ctxs s k = Some c" and "cs_ctxs s' = (cs_ctxs s)(k \<mapsto> ctx_inflight p (c\<lparr>cx_refcount := Suc (cx_refcount c)\<rparr>))"
    and "\<And>r. p_queue (pipe_of r s') = p_queue (pipe_of r s) @ (if r = p then [t] else [])"
    and "\<And>r. p_current_task (pipe_of r s') = p_current_task (pipe_of r s)"
proof -
  note i = tasks_invD [OF inv]
  have "file_ready H (pr_vm priv) s" using i(1) opened owned_resvs [OF i(5)] by (simp add: file_ready_def file_open_def)
  from ioctl_submit_heap [OF this, of U Z args] opened run obtain p k where s': "heap_wf s'"
    and k: "map_of (cm_handles (pr_ctx_mgr priv)) (unat (gs_ctx args)) = Some k"
    and sub: "ioctl_submitted U H (pr_vm priv) args k p (ctx_held k s) s'" by (auto simp: file_open_def)
  from ctx_get_held [OF _ k] opened obtain c where c: "cs_ctxs s k = Some c" by (auto simp: file_open_def)
  from sub obtain w bos t a where a: "task_of (ctx_held k s) t = None" "task_of a = (task_of (ctx_held k s))(t \<mapsto> zeroed_task\<lparr>t_frame := w\<rparr>)"
    "fs_fences a = fs_fences (ctx_held k s)" "vs_vms a = vs_vms (ctx_held k s)" "vs_bos a = vs_bos (ctx_held k s)"
    "cs_ctxs a = cs_ctxs (ctx_held k s)" "dev_pipe (cs_dev a) = dev_pipe (cs_dev (ctx_held k s))"
    and syn: "synchronised H (pr_vm priv) (submit_of_args args k p bos t) a s'" and arr: "arrays_taken t (ctx_held k s) s'"
    unfolding ioctl_submitted_def by blast
  let ?sub = "submit_of_args args k p bos t"
  have su: "su_task ?sub = t" "su_ctx ?sub = k" "su_pipe ?sub = p" by (simp_all add: submit_of_args_def)
  let ?c = "c\<lparr>cx_refcount := Suc (cx_refcount c)\<rparr>"
  have as: "frefs a = frefs s" "vrefs a = vrefs s" "brefs a = brefs s" "resv_of a = resv_of s" "vs_bos a = vs_bos s"
    "cs_ctxs a = (cs_ctxs s)(k \<mapsto> ?c)" "dev_pipe (cs_dev a) = dev_pipe (cs_dev s)"
    using a(3-7) c by (simp_all add: ctx_held_fields frefs_def vrefs_def brefs_def resv_of_def fun_eq_iff ctx_held_def ctx_upd_def)
  have fs: "bos_fences a l = bos_fences s l" "fences_moved f ds D a s' = fences_moved f ds D s s'" for l f ds D
    by (simp_all add: bos_fences_def fences_moved_def excl_count_def as)
  define ns where "ns = named_bos H ?sub"
  from syn obtain x f ar darr where y: "frefs s f = 0"
    "task_of s' = (task_of a)(t \<mapsto> task_submitted x ?sub ns ar (pr_vm priv) f (bos_fences s ns) darr)"
    "resv_of s' = (\<lambda>bo. if bo \<in> set ns then (resv_of s bo)\<lparr>rv_excl := Some f\<rparr> else resv_of s bo)"
    "dev_pipe (cs_dev s') = (dev_pipe (cs_dev s))(p := (pipe_of p s)\<lparr>p_queue := p_queue (pipe_of p s) @ [t], p_run_pending := True\<rparr>)"
    "cs_ctxs s' = (cs_ctxs s)(k \<mapsto> ctx_inflight p ?c)" "fences_moved f (bos_fences s ns) (set ns) s s'"
    and y2: "dom (vs_bos s') = dom (vs_bos s)" "vrefs s' = (vrefs s)(pr_vm priv := Suc (vrefs s (pr_vm priv)))"
    "brefs s' = (\<lambda>bo. brefs s bo + count_list ns bo)"
    unfolding synchronised_def Let_def su as fs ns_def [symmetric] by auto
  define z where "z = task_submitted x ?sub ns ar (pr_vm priv) f (bos_fences s ns) darr"
  have tof: "task_of s' = (task_of s)(t \<mapsto> z)" using y(2) a(2) by (simp add: z_def ctx_held_fields)
  have zf: "t_pipe z = p" "t_ctx z = Some k" "t_context z = k" "t_fence z = f" "t_deps z = bos_fences s ns" "t_bos z = ns" "t_vm z = pr_vm priv"
    by (simp_all add: z_def task_submitted_def task_ready_def su)
  have zs: "the (task_of s' t) = z" using tof by simp
  have "set ns \<subseteq> dom (vs_bos s)"
    using opened unfolding ns_def named_bos_def file_open_def handles_ok_def by (force simp: List.map_filter_def)
  moreover have "heap_plain (ctx_held k s) = heap_plain s" using ctx_upd_heap [OF i(1) c] c by (simp add: ctx_held_def)
  with arr have "heap_plain s' = blocks_of s' t \<union> heap_plain s" "blocks_of s' t \<inter> heap_plain s = {}"
    "set_option (t_deps_arr z) \<inter> set_option (t_bos_arr z) = {}"
    unfolding arrays_taken_def blocks_of_def by (auto simp: tof)
  moreover have "shell_of s' u = shell_of s u" if "u \<noteq> t" for u using that tof by (simp add: shell_of_def)
  moreover have "fence_status s' g = fence_status s g" if "0 < frefs s g" "0 < frefs s' g" for g
    using run i(1) that by (rule ioctl_status)
  ultimately have "task_added s t s'"
    unfolding task_added_def Let_def shell_of_fields zs zf using y(1,3,6) y2 by blast
  moreover have "task_of s t = None" using a(1) by (simp add: ctx_held_fields)
  ultimately show thesis
    using that [OF _ s' _ tof zf(1-3) c y(5)] by (simp add: y(4))
qed

lemma submit_tasks_inv:
  assumes inv: "tasks_inv h s q" and opened: "file_open H priv s"
    and run: "lima_ioctl_gem_submit U Z (\<lambda>s. s) H priv args s = Some (0, s')"
  obtains t where "t \<notin> set q" and "tasks_inv h s' (q @ [t])" and "\<And>r. p_current_task (pipe_of r s') = p_current_task (pipe_of r s)"
    and "pending s' = (pending s)(t_pipe (shell_of s' t) := pending s (t_pipe (shell_of s' t)) @ [t])"
proof -
  note i = tasks_invD [OF inv]
  from inv opened run show thesis
  proof (cases rule: submit_tasks_added)
    case (1 t p k y c)
    have new: "t \<notin> set q" using 1(1) queues_okD(2) [OF i(2)] by blast
    have pend: "pending_ok s' \<and> counts_ok h s' \<and> pending s' = (pending s)(p := pending s p @ [t])"
      by (rule queue_inv [OF i(3,4) _ 1(5-7,4,10,11,8,9)]) (use new queues_all [OF i(2)] in \<open>simp_all add: ctx_inflight_def\<close>)
    have sh: "u \<in> set q \<Longrightarrow> shell_of s' u = shell_of s u" for u using task_addedD(12) [OF 1(3), of u] new by auto
    have "queues_ok s' (q @ [t])"
    proof -
      have "filter (\<lambda>u. t_pipe (shell_of s' u) = r) q = filter (\<lambda>u. t_pipe (shell_of s u) = r) q" for r
        using sh by (intro filter_cong) (simp_all del: shell_of_fields)
      moreover have "t_pipe (shell_of s' t) = p" using 1(4,5) by simp
      moreover have "task_of s' u \<noteq> None" if "u \<in> set (q @ [t])" for u
        using that queues_okD(2) [OF i(2), of u] 1(4) by auto
      ultimately show ?thesis
        using queues_okD(1,3) [OF i(2)] new pend by (auto simp: queues_ok_def simp del: shell_of_fields)
    qed
    moreover have refs: "refs_owned s' (q @ [t])" by (rule added_refs [OF 1(3) i(5) new])
    moreover have "blocks_owned s' (q @ [t])" by (rule added_blocks [OF 1(3) i(6) new])
    moreover have "deps_back s' {} (q @ [t])" "resvs_back s' (q @ [t])"
      using added_back [OF 1(3) i(7,8,5) refs new] by blast+
    ultimately have "tasks_inv h s' (q @ [t])" "pending s' = (pending s)(p := pending s p @ [t])"
      using 1(2) pend by (simp_all add: tasks_inv_def)
    then show thesis using that new 1(11) 1(4,5) by simp
  qed
qed

end
