(* ===== verification/Lima_Live.thy ===== *)
theory Lima_Live
  imports Lima_Owner
begin

text \<open>
  Every submitted task is finished. The submission ioctl, the run work and the completion work
  of the pipes and the hardware run in any order; the oldest unfinished task never waits, so as
  long as the hardware answers the work functions come to an end with nothing left to do.
\<close>

section \<open>The start of a task\<close>

lemma device_vm:
  assumes inv: "tasks_inv h s q" and cur: "pending s p = t # ts" and x: "task_of s t = Some x"
  obtains v where "vs_vms s (t_vm x) = Some v"
proof -
  from current_owned [OF inv cur, of False] obtain y c where y: "task_of s t = Some y"
    "task_owned y (t_context y) (task_over y False c) (ctx_upd (t_context y) (task_over y False c) s)" by blast
  then have "0 < vrefs s (t_vm x)" using x by (simp add: task_owned_def vrefs_def ctx_upd_def)
  then show thesis using that by (cases "vs_vms s (t_vm x)") (simp_all add: vrefs_def)
qed

text \<open>
  After the wait for its dependencies a task is started or rejected: the code returns, and keeps
  the invariant for the tasks that are left.
\<close>

lemma go_tasks_inv:
  assumes inv: "tasks_inv h s q" and cur: "p_current_task (pipe_of p s) = Some t"
  obtains rejected s' where "run_go Z p t err s = Some (rejected, s')"
    and "tasks_inv h s' (if rejected then remove1 t q else q)"
    and "\<And>r. p_queue (pipe_of r s') = p_queue (pipe_of r s)"
    and "\<And>r. p_current_task (pipe_of r s') = (if rejected \<and> r = p then None else p_current_task (pipe_of r s))"
proof -
  let ?err = "if err = 0 then pipe_task_validate p (cs_dev s) t else err"
  note pend = pending_current [OF cur]
  show thesis
  proof (cases "?err = 0")
    case False
    from finish_tasks_inv [OF inv pend, where Z = Z and err = True] obtain a where a: "lima_sched_finish_task Z t True s = Some a"
      "cs_dev a = (cs_dev s)\<lparr>dev_tasks := (task_of s)(t := None)\<rparr>"
      "\<And>d. (\<And>u. map_option task_shell (dev_tasks d u) = map_option task_shell (task_of a u)) \<Longrightarrow>
        pending (a\<lparr>cs_dev := d\<rparr>) = (pending s)(p := p_queue (pipe_of p s)) \<Longrightarrow> tasks_inv h (a\<lparr>cs_dev := d\<rparr>) (remove1 t q)" by blast
    let ?d = "pipe_upd p (\<lambda>y. y\<lparr>p_current_task := None\<rparr>) (cs_dev a)"
    have "run_go Z p t err s = Some (True, a\<lparr>cs_dev := ?d\<rparr>)"
      using False a(1) by (simp add: run_go_def Let_def on_pipe_def)
    moreover have "tasks_inv h (a\<lparr>cs_dev := ?d\<rparr>) (remove1 t q)"
      by (rule a(3)) (simp_all add: pending_def fun_eq_iff a(2))
    ultimately show thesis by (rule that [where rejected = True, simplified]) (simp_all add: a(2))
  next
    case True
    then have err: "err = 0" "pipe_task_validate p (cs_dev s) t = 0" by (auto split: if_splits)
    have "t \<in> set (pending s p)" by (simp add: pend)
    with tasks_invD(3) [OF inv] obtain x where x: "task_of s t = Some x" using pending_okD(2) by blast
    from inv pend x obtain v where v: "vs_vms s (t_vm x) = Some v" by (rule device_vm)
    let ?e = "dev_switched p (t_vm x) (vm_pd_dma v) (cs_dev s)"
    let ?d = "dev_started p t ?e"
    have hw: "hw_keeps ?e ?d" by (rule started_keeps)
    have same: "p_queue (dev_pipe ?d r) = p_queue (pipe_of r s)" "p_current_task (dev_pipe ?d r) = p_current_task (pipe_of r s)" for r
      using hw switched_spec(1,2) by (auto simp: hw_keeps_def)
    have "run_go Z p t err s = Some (False, s\<lparr>cs_dev := ?d\<rparr>)"
      unfolding err(1) by (rule run_go_start [OF err(2) x v])
    moreover have "tasks_inv h (s\<lparr>cs_dev := ?d\<rparr>) q"
    proof (rule device_tasks_inv [OF inv])
      show "map_option task_shell (dev_tasks ?d u) = map_option task_shell (task_of s u)" for u
        using hw switched_spec(4) by (auto simp: hw_keeps_def)
    qed (simp add: pending_def fun_eq_iff same)
    ultimately show thesis by (rule that [where rejected = False, simplified]) (simp_all add: same)
  qed
qed

section \<open>The completion of a task\<close>

lemma done_tasks_inv:
  assumes inv: "tasks_inv h s q" and cur: "p_current_task (pipe_of p s) = Some t"
  obtains s' where "lima_sched_done_work Z p s = Some s'" and "tasks_inv h s' (remove1 t q)"
    and "\<And>r. p_queue (pipe_of r s') = p_queue (pipe_of r s)"
    and "\<And>r. p_current_task (pipe_of r s') = (if r = p then None else p_current_task (pipe_of r s))"
proof -
  define err where "err = p_error (pipe_of p s)"
  from finish_tasks_inv [OF inv pending_current [OF cur], where Z = Z and err = err] obtain a where a: "lima_sched_finish_task Z t err s = Some a"
    "cs_dev a = (cs_dev s)\<lparr>dev_tasks := (task_of s)(t := None)\<rparr>"
    "\<And>d. (\<And>u. map_option task_shell (dev_tasks d u) = map_option task_shell (task_of a u)) \<Longrightarrow>
      pending (a\<lparr>cs_dev := d\<rparr>) = (pending s)(p := p_queue (pipe_of p s)) \<Longrightarrow> tasks_inv h (a\<lparr>cs_dev := d\<rparr>) (remove1 t q)" by blast
  let ?e = "pipe_upd p (\<lambda>y. y\<lparr>p_current_task := None\<rparr>) (cs_dev a)"
  define d where "d = (if err then pipe_upd p (\<lambda>y. y\<lparr>p_error := False\<rparr>) (exec (pipe_task_error p) ?e) else ?e)"
  let ?d = "pipe_upd p (\<lambda>y. y\<lparr>p_run_pending := True\<rparr>) d"
  have run: "lima_sched_done_work Z p s = Some (a\<lparr>cs_dev := ?d\<rparr>)"
    using cur a(1) by (simp add: lima_sched_done_work_def err_def [symmetric] on_pipe_def on_dev_def d_def)
  have hw: "hw_keeps ?e (exec (pipe_task_error p) ?e)" using keeps_pipe_ops(1) by (simp add: keeps_def)
  then have keep: "p_queue (dev_pipe d r) = p_queue (dev_pipe ?e r)" "p_current_task (dev_pipe d r) = p_current_task (dev_pipe ?e r)"
    "map_option task_shell (dev_tasks d u) = map_option task_shell (dev_tasks ?e u)" for r u
    by (auto simp: d_def hw_keeps_def)
  have "tasks_inv h (a\<lparr>cs_dev := ?d\<rparr>) (remove1 t q)"
    by (rule a(3)) (simp_all add: keep pending_def fun_eq_iff a(2))
  with run show thesis by (rule that) (simp_all add: keep a(2))
qed

section \<open>Steps\<close>

text \<open>
  A configuration: the state, for each pipe the task whose dependencies the run work waits for,
  and the unfinished tasks in the order of their submission.
\<close>

record live_cfg =
  lc_st :: ctx_st
  lc_waiting :: "lima_pipe_id \<Rightarrow> nat option"
  lc_tasks :: "nat list"

text \<open>
  The work functions. A round of the run work is split at its wait, which ends when it ends
  at once: all dependencies are signaled, or one before the first that is not has failed. The
  completion work runs when it has been queued, and not during a round of its pipe.
\<close>

inductive work_step :: "ctx_st sleeper \<Rightarrow> live_cfg \<Rightarrow> live_cfg \<Rightarrow> bool" for Z where
  pick: "lc_waiting c p = None \<Longrightarrow> run_pick p (lc_st c) = (Some t, s') \<Longrightarrow>
    work_step Z c (c\<lparr>lc_st := s', lc_waiting := (lc_waiting c)(p := Some t)\<rparr>)"
| go: "lc_waiting c p = Some t \<Longrightarrow> task_of (lc_st c) t = Some x \<Longrightarrow>
    (\<forall>W. run_wait W (t_deps x) (lc_st c) = Some (err, lc_st c)) \<Longrightarrow>
    run_go Z p t err (lc_st c) = Some (rejected, s') \<Longrightarrow>
    work_step Z c (c\<lparr>lc_st := s', lc_waiting := (lc_waiting c)(p := None),
      lc_tasks := (if rejected then remove1 t (lc_tasks c) else lc_tasks c)\<rparr>)"
| finish: "lc_waiting c p = None \<Longrightarrow> p_done_pending (pipe_of p (lc_st c)) \<Longrightarrow> p_current_task (pipe_of p (lc_st c)) = Some t \<Longrightarrow>
    lima_sched_done_work Z p (on_pipe p (\<lambda>y. y\<lparr>p_done_pending := False\<rparr>) (lc_st c)) = Some s' \<Longrightarrow>
    work_step Z c (c\<lparr>lc_st := s', lc_tasks := remove1 t (lc_tasks c)\<rparr>)"

text \<open>
  All steps: the work functions, submissions of open files, and whatever hardware, interrupt
  handlers and timeouts do to the device.
\<close>

inductive live_step :: "ctx_st sleeper \<Rightarrow> live_cfg \<Rightarrow> live_cfg \<Rightarrow> bool" for Z where
  work: "work_step Z c c' \<Longrightarrow> live_step Z c c'"
| submit: "file_open H priv (lc_st c) \<Longrightarrow> lima_ioctl_gem_submit U Z (\<lambda>s. s) H priv args (lc_st c) = Some (0, s') \<Longrightarrow>
    p_queue (pipe_of p s') = p_queue (pipe_of p (lc_st c)) @ [t] \<Longrightarrow>
    live_step Z c (c\<lparr>lc_st := s', lc_tasks := lc_tasks c @ [t]\<rparr>)"
| device: "hw_keeps (cs_dev (lc_st c)) d \<Longrightarrow> live_step Z c (c\<lparr>lc_st := (lc_st c)\<lparr>cs_dev := d\<rparr>\<rparr>)"

definition live_start :: "ctx_st \<Rightarrow> live_cfg" where
  "live_start s = \<lparr>lc_st = s, lc_waiting = (\<lambda>_. None), lc_tasks = []\<rparr>"

text \<open>
  A driver with open files and nothing to do: no task, the contexts' counts are \<open>h\<close>, every object
  has a handle, and the reservation objects own references of signaled fences.
\<close>

definition live_idle :: "(nat \<Rightarrow> nat) \<Rightarrow> 'a ctx_st_scheme \<Rightarrow> bool" where
  "live_idle h s \<longleftrightarrow> heap_wf s \<and> (\<forall>p. pending s p = []) \<and> counts_ok h s \<and> finite (dom (vs_bos s)) \<and>
     (\<forall>f. resv_held s f \<le> frefs s f) \<and>
     (\<forall>bo \<in> dom (vs_bos s). 0 < brefs s bo \<and> (\<forall>f \<in> set (resv_refs (resv_of s bo)). fence_status s f \<noteq> 0))"

definition live_inv :: "(nat \<Rightarrow> nat) \<Rightarrow> live_cfg \<Rightarrow> bool" where
  "live_inv h c \<longleftrightarrow> tasks_inv h (lc_st c) (lc_tasks c) \<and>
     (\<forall>p t. lc_waiting c p = Some t \<longrightarrow> p_current_task (pipe_of p (lc_st c)) = Some t)"

text \<open>The work that is left: picking, starting and completing of the unfinished tasks.\<close>

definition pipe_work :: "live_cfg \<Rightarrow> lima_pipe_id \<Rightarrow> nat" where
  "pipe_work c p = 3 * length (p_queue (pipe_of p (lc_st c))) + (case p_current_task (pipe_of p (lc_st c)) of
     None \<Rightarrow> 0 | Some t \<Rightarrow> if lc_waiting c p = Some t then 2 else 1)"

definition live_work :: "live_cfg \<Rightarrow> nat" where
  "live_work c = pipe_work c lima_pipe_gp + pipe_work c lima_pipe_pp"

lemma live_work_less:
  assumes "pipe_work c' p < pipe_work c p" and "\<And>r. r \<noteq> p \<Longrightarrow> pipe_work c' r = pipe_work c r"
  shows "live_work c' < live_work c"
  using assms by (cases p) (simp_all add: live_work_def)

lemma pending_of_current:
  "p_current_task (pipe_of p s) = Some t \<Longrightarrow> pending s p = t # p_queue (pipe_of p s)"
  "p_current_task (pipe_of p s) = None \<Longrightarrow> pending s p = p_queue (pipe_of p s)"
  by (simp_all add: pending_def)

lemma work_step_inv: "work_step Z c c' \<Longrightarrow> live_inv h c \<Longrightarrow> live_inv h c' \<and> live_work c' < live_work c"
proof (induction rule: work_step.induct)
  case (pick c p t s')
  then have inv: "tasks_inv h (lc_st c) (lc_tasks c)" by (simp add: live_inv_def)
  note d = pick_tasks_inv [OF inv pick(2)]
  let ?c = "c\<lparr>lc_st := s', lc_waiting := (lc_waiting c)(p := Some t)\<rparr>"
  have "live_inv h ?c" using d(1,4,5) pick(3) by (auto simp: live_inv_def)
  moreover have "live_work ?c < live_work c"
    by (rule live_work_less [where p = p]) (use d(2-5) in \<open>simp_all add: pipe_work_def pending_of_current(2) split: option.split\<close>)
  ultimately show ?case by blast
next
  case (go c p t x err rejected s')
  then have inv: "tasks_inv h (lc_st c) (lc_tasks c)" and cur: "p_current_task (pipe_of p (lc_st c)) = Some t"
    by (simp_all add: live_inv_def)
  from go_tasks_inv [OF inv cur, of Z err] go(4) have d: "tasks_inv h s' (if rejected then remove1 t (lc_tasks c) else lc_tasks c)"
    "p_queue (pipe_of r s') = p_queue (pipe_of r (lc_st c))"
    "p_current_task (pipe_of r s') = (if rejected \<and> r = p then None else p_current_task (pipe_of r (lc_st c)))" for r
    by (metis option.inject prod.inject)+
  let ?c = "c\<lparr>lc_st := s', lc_waiting := (lc_waiting c)(p := None), lc_tasks := (if rejected then remove1 t (lc_tasks c) else lc_tasks c)\<rparr>"
  have "live_inv h ?c" using d go(5) by (auto simp: live_inv_def)
  moreover have "live_work ?c < live_work c"
    by (rule live_work_less [where p = p]) (use d(2,3) go(1) cur in \<open>auto simp: pipe_work_def split: option.splits\<close>)
  ultimately show ?case by blast
next
  case (finish c p t s')
  define s where "s = on_pipe p (\<lambda>y. y\<lparr>p_done_pending := False\<rparr>) (lc_st c)"
  have same: "p_queue (pipe_of r s) = p_queue (pipe_of r (lc_st c))" "p_current_task (pipe_of r s) = p_current_task (pipe_of r (lc_st c))" for r
    by (simp_all add: s_def on_pipe_def)
  have "tasks_inv h (lc_st c) (lc_tasks c)" using finish(5) by (simp add: live_inv_def)
  from hw_tasks_inv [OF this, of "pipe_upd p (\<lambda>y. y\<lparr>p_done_pending := False\<rparr>) (cs_dev (lc_st c))"]
  have inv: "tasks_inv h s (lc_tasks c)" by (simp add: s_def on_pipe_def hw_keeps_def)
  have cur: "p_current_task (pipe_of p s) = Some t" using finish(3) same by simp
  from done_tasks_inv [OF inv cur, of Z] finish(4) have d: "tasks_inv h s' (remove1 t (lc_tasks c))"
    "p_queue (pipe_of r s') = p_queue (pipe_of r s)"
    "p_current_task (pipe_of r s') = (if r = p then None else p_current_task (pipe_of r s))" for r
    unfolding s_def [symmetric] by (metis option.inject)+
  let ?c = "c\<lparr>lc_st := s', lc_tasks := remove1 t (lc_tasks c)\<rparr>"
  have "live_inv h ?c" using d finish(1,5) same by (auto simp: live_inv_def)
  moreover have "live_work ?c < live_work c"
    by (rule live_work_less [where p = p]) (use d(2,3) finish(1,3) same in \<open>simp_all add: pipe_work_def split: option.split\<close>)
  ultimately show ?case by blast
qed

lemma live_step_inv: "live_step Z c c' \<Longrightarrow> live_inv h c \<Longrightarrow> live_inv h c'"
proof (induction rule: live_step.induct)
  case (work c c')
  then show ?case using work_step_inv by blast
next
  case (submit H priv c U args s' p t)
  then have inv: "tasks_inv h (lc_st c) (lc_tasks c)" by (simp add: live_inv_def)
  from submit_tasks_inv [OF inv submit(1,2)] obtain u where u: "tasks_inv h s' (lc_tasks c @ [u])"
    "\<And>r. p_current_task (pipe_of r s') = p_current_task (pipe_of r (lc_st c))"
    "pending s' = (pending (lc_st c))(t_pipe (shell_of s' u) := pending (lc_st c) (t_pipe (shell_of s' u)) @ [u])" by blast
  have "pending s' p = pending (lc_st c) p @ [t]" using u(2) [of p] submit(3) by (simp add: pending_def)
  with u(3) have "u = t" by (simp split: if_splits)
  with u(1,2) submit(4) show ?case by (simp add: live_inv_def)
next
  case (device c d)
  then have inv: "tasks_inv h (lc_st c) (lc_tasks c)" by (simp add: live_inv_def)
  from hw_tasks_inv [OF inv device(1)] device show ?case by (auto simp: live_inv_def hw_keeps_def)
qed

lemma live_start_inv:
  assumes "live_idle h s"
  shows "live_inv h (live_start s)"
proof -
  have "tasks_inv h s []"
    using assms unfolding live_idle_def tasks_inv_def
    by (auto simp: queues_ok_def pending_ok_def refs_owned_def held_defs blocks_owned_def resvs_back_def Suc_le_eq)
  then show ?thesis by (simp add: live_inv_def live_start_def)
qed

lemma live_reachable_inv:
  assumes "live_idle h s" and "(live_step Z)\<^sup>*\<^sup>* (live_start s) c"
  shows "live_inv h c"
  using assms(2)
proof (induction rule: rtranclp_induct)
  case base
  show ?case using assms(1) by (rule live_start_inv)
next
  case (step a b)
  then show ?case by (blast intro: live_step_inv)
qed

section \<open>Nothing is stuck\<close>

lemma wait_returns_at_once:
  assumes "\<forall>f \<in> set fs. fence_status s f \<noteq> 0"
  shows "\<exists>err. \<forall>W. run_wait W fs s = Some (err, s)"
  using assms
proof (induction fs)
  case (Cons f fs)
  then obtain err where err: "\<forall>W. run_wait W fs s = Some (err, s)" by auto
  have "fence_status s f \<noteq> 0" using Cons.prems by simp
  then obtain x where x: "fs_fences s f = Some x" "f_status x \<noteq> 0"
    by (cases "fs_fences s f") (simp_all add: fence_status_def)
  then have "dma_fence_wait W f False s = Some (if f_status x < 0 then f_status x else MAX_SCHEDULE_TIMEOUT, s)" for W
    by (simp add: dma_fence_wait_def dma_fence_wait_timeout_def dma_fence_is_signaled_def)
  with err show ?case by (cases "f_status x < 0") (simp_all add: MAX_SCHEDULE_TIMEOUT_def)
qed simp

text \<open>The oldest unfinished task is the first of its pipe, and its dependencies are signaled.\<close>

lemma oldest_first:
  assumes inv: "tasks_inv h s (t # q)"
  obtains x ts where "task_of s t = Some x" and "pending s (t_pipe x) = t # ts"
    and "\<forall>f \<in> set (t_deps x). fence_status s f \<noteq> 0"
proof -
  note i = tasks_invD [OF inv]
  obtain x where x: "task_of s t = Some x" using queues_okD(2) [OF i(2), of t] by auto
  have "pending s (t_pipe x) = t # filter (\<lambda>u. t_pipe (shell_of s u) = t_pipe x) q"
    using queues_okD(3) [OF i(2), of "t_pipe x"] x by simp
  moreover have "fence_status s f \<noteq> 0" if "f \<in> set (t_deps x)" for f using i(7) that x by simp
  ultimately show thesis using that x by blast
qed

definition hardware_answered :: "live_cfg \<Rightarrow> bool" where
  "hardware_answered c \<longleftrightarrow> (\<forall>p t. p_current_task (pipe_of p (lc_st c)) = Some t \<longrightarrow> lc_waiting c p = None \<longrightarrow>
     p_done_pending (pipe_of p (lc_st c)))"

lemma work_step_possible:
  assumes inv: "live_inv h c" and hw: "hardware_answered c" and some: "lc_tasks c \<noteq> []"
  shows "\<exists>c'. work_step Z c c'"
proof -
  obtain t q where q: "lc_tasks c = t # q" using some by (cases "lc_tasks c") auto
  with inv have ti: "tasks_inv h (lc_st c) (t # q)" by (simp add: live_inv_def)
  from ti obtain x ts where x: "task_of (lc_st c) t = Some x" "pending (lc_st c) (t_pipe x) = t # ts"
    "\<forall>f \<in> set (t_deps x). fence_status (lc_st c) f \<noteq> 0" by (rule oldest_first)
  let ?p = "t_pipe x"
  show ?thesis
  proof (cases "p_current_task (pipe_of ?p (lc_st c))")
    case None
    then have "p_queue (pipe_of ?p (lc_st c)) = t # ts" using x(2) by (simp add: pending_of_current(2))
    with None obtain s' where "run_pick ?p (lc_st c) = (Some t, s')" by (simp add: run_pick_def)
    moreover have "lc_waiting c ?p = None"
      using inv None by (cases "lc_waiting c ?p") (auto simp: live_inv_def)
    ultimately show ?thesis by (blast intro: work_step.pick)
  next
    case (Some u)
    then have u: "p_current_task (pipe_of ?p (lc_st c)) = Some t" using x(2) by (simp add: pending_of_current(1))
    show ?thesis
    proof (cases "lc_waiting c ?p")
      case (Some v)
      then have w: "lc_waiting c ?p = Some t" using inv u by (auto simp: live_inv_def)
      from wait_returns_at_once [OF x(3)] obtain err where err: "\<forall>W. run_wait W (t_deps x) (lc_st c) = Some (err, lc_st c)" by blast
      from go_tasks_inv [OF ti u, of Z err] obtain rejected s' where "run_go Z ?p t err (lc_st c) = Some (rejected, s')" by metis
      with w x(1) err show ?thesis by (blast intro: work_step.go)
    next
      case None
      with hw u have d: "p_done_pending (pipe_of ?p (lc_st c))" by (simp add: hardware_answered_def)
      define s where "s = on_pipe ?p (\<lambda>y. y\<lparr>p_done_pending := False\<rparr>) (lc_st c)"
      have "tasks_inv h s (t # q)"
        using hw_tasks_inv [OF ti, of "pipe_upd ?p (\<lambda>y. y\<lparr>p_done_pending := False\<rparr>) (cs_dev (lc_st c))"]
        by (simp add: s_def on_pipe_def hw_keeps_def)
      moreover have "p_current_task (pipe_of ?p s) = Some t" using u by (simp add: s_def on_pipe_def)
      ultimately obtain s' where "lima_sched_done_work Z ?p s = Some s'" by (rule done_tasks_inv)
      with None d u show ?thesis unfolding s_def by (blast intro: work_step.finish)
    qed
  qed
qed

lemma no_work_no_tasks:
  assumes "live_inv h c" and "live_work c = 0"
  shows "lc_tasks c = []"
proof (rule ccontr)
  assume "lc_tasks c \<noteq> []"
  then obtain t q where q: "lc_tasks c = t # q" by (cases "lc_tasks c") auto
  with assms(1) have "tasks_inv h (lc_st c) (t # q)" by (simp add: live_inv_def)
  then obtain x ts where x: "task_of (lc_st c) t = Some x" "pending (lc_st c) (t_pipe x) = t # ts"
    "\<forall>f \<in> set (t_deps x). fence_status (lc_st c) f \<noteq> 0" by (rule oldest_first)
  from x(2) have "0 < pipe_work c (t_pipe x)" by (auto simp: pipe_work_def pending_def split: option.splits)
  with assms(2) show False by (cases "t_pipe x") (simp_all add: live_work_def)
qed


text \<open>
  C2. Implicit synchronisation is sound. In every reachable state each dependency of an
  unfinished task is a live fence that is signaled or is the fence of a task submitted before it
  and still unfinished; and each fence that a buffer object holds is live and is signaled or is that of
  an unfinished task. No dependency and no reservation object ever refers to a freed fence.
\<close>

theorem dependencies_point_back:
  assumes "live_idle h s" and "(live_step Z)\<^sup>*\<^sup>* (live_start s) c"
  shows "(\<forall>us t vs x. lc_tasks c = us @ t # vs \<longrightarrow> task_of (lc_st c) t = Some x \<longrightarrow>
      (\<forall>f \<in> set (t_deps x). fs_fences (lc_st c) f \<noteq> None \<and>
        (fence_status (lc_st c) f \<noteq> 0 \<or> (\<exists>u y. u \<in> set us \<and> task_of (lc_st c) u = Some y \<and> t_fence y = f)))) \<and>
    (\<forall>bo b. vs_bos (lc_st c) bo = Some b \<longrightarrow> (\<forall>f \<in> set (resv_refs (bo_resv b)). fs_fences (lc_st c) f \<noteq> None \<and>
        (fence_status (lc_st c) f \<noteq> 0 \<or> (\<exists>u y. u \<in> set (lc_tasks c) \<and> task_of (lc_st c) u = Some y \<and> t_fence y = f))))"
proof -
  let ?s = "lc_st c" and ?q = "lc_tasks c"
  from assms have "live_inv h c" by (rule live_reachable_inv)
  then have inv: "tasks_inv h ?s ?q" by (simp add: live_inv_def)
  note i = tasks_invD [OF inv]
  have live: "fs_fences ?s f \<noteq> None" if "0 < frefs ?s f" for f using that by (cases "fs_fences ?s f") (simp_all add: frefs_def)
  have fence: "\<exists>y. task_of ?s u = Some y \<and> t_fence y = t_fence (shell_of ?s u)" if "u \<in> set ?q" for u
    using queues_okD(2) [OF i(2) that] by auto
  have earlier: "deps_back ?s F (us @ t # vs) \<Longrightarrow> f \<in> set (t_deps (shell_of ?s t)) \<Longrightarrow>
      fence_status ?s f \<noteq> 0 \<or> f \<in> F \<union> (\<lambda>u. t_fence (shell_of ?s u)) ` set us" for us t vs f F
    by (induction us arbitrary: F) (fastforce simp del: shell_of_fields)+
  show ?thesis
  proof (intro conjI allI impI ballI)
    fix us t vs x f assume t: "?q = us @ t # vs" "task_of ?s t = Some x" and f: "f \<in> set (t_deps x)"
    have sh: "t_deps (shell_of ?s t) = t_deps x" using t(2) by simp
    show "fs_fences ?s f \<noteq> None" using owned_alive(1) [OF i(5), of t f] t(1) f sh by (intro live) simp
    show "fence_status ?s f \<noteq> 0 \<or> (\<exists>u y. u \<in> set us \<and> task_of ?s u = Some y \<and> t_fence y = f)"
    proof -
      have "fence_status ?s f \<noteq> 0 \<or> f \<in> {} \<union> (\<lambda>u. t_fence (shell_of ?s u)) ` set us"
        by (rule earlier [of _ us t vs]) (use i(7) t(1) f sh in \<open>simp_all del: shell_of_fields\<close>)
      moreover have "set us \<subseteq> set ?q" using t(1) by auto
      ultimately show ?thesis using fence by blast
    qed
  next
    fix bo b f assume b: "vs_bos ?s bo = Some b" and f: "f \<in> set (resv_refs (bo_resv b))"
    have r: "bo \<in> dom (vs_bos ?s)" "f \<in> set (resv_refs (resv_of ?s bo))" using b f by (auto simp: resv_of_def)
    show "fs_fences ?s f \<noteq> None" using owned_alive(2) [OF i(5) r] by (rule live)
    show "fence_status ?s f \<noteq> 0 \<or> (\<exists>u y. u \<in> set ?q \<and> task_of ?s u = Some y \<and> t_fence y = f)"
    proof -
      have "fence_status ?s f \<noteq> 0 \<or> f \<in> (\<lambda>u. t_fence (shell_of ?s u)) ` set ?q"
        using i(8) r unfolding resvs_back_def by blast
      then show ?thesis using fence by blast
    qed
  qed
qed

section \<open>A concrete run\<close>

text \<open>
  An open file with one context and one object, whose last fence is signaled, and idle pipes: its
  submission is the first step of a run.
\<close>

definition live_demo :: ctx_st where
  "live_demo = ctx_demo\<lparr>km_n := 30, km_live := {5, 9, 13, 14, 20},
     fs_fences := [14 \<mapsto> fence_demo\<lparr>f_status := 1\<rparr>], vs_bos := [9 \<mapsto> demo_bo 3 1 14],
     cs_ctxs := [13 \<mapsto> \<lparr>cx_refcount = 1, cx_guilty = 0, cx_freed = False, cx_in_flight = (\<lambda>_. 0)\<rparr>],
     cs_dev := pipe_upd lima_pipe_gp (\<lambda>y. y\<lparr>p_frame_size := sizeof_gp_frame\<rparr>)
       (pipe_upd lima_pipe_pp (\<lambda>y. y\<lparr>p_frame_size := sizeof_m400_pp_frame\<rparr>) (cs_dev ctx_demo))\<rparr>"

lemma live_demo_fields:
  "km_ok live_demo = (\<lambda>_. True)" "km_n live_demo = 30" "km_live live_demo = {5, 9, 13, 14, 20}"
  "fs_fences live_demo = [14 \<mapsto> fence_demo\<lparr>f_status := 1\<rparr>]" "vs_vms live_demo = [5 \<mapsto> vm_demo]"
  "vs_bos live_demo = [9 \<mapsto> demo_bo 3 1 14]" "dm_live live_demo = {(0x1000, 4096)}"
  "cs_ctxs live_demo = [13 \<mapsto> \<lparr>cx_refcount = 1, cx_guilty = 0, cx_freed = False, cx_in_flight = (\<lambda>_. 0)\<rparr>]"
  "p_frame_size (pipe_of lima_pipe_gp live_demo) = 24" "p_frame_size (pipe_of lima_pipe_pp live_demo) = sizeof_m400_pp_frame"
  "dev_id (cs_dev live_demo) = lima_gpu_mali400" "task_of live_demo = (\<lambda>_. None)" "pending live_demo p = []"
  by (simp_all add: live_demo_def ctx_demo_defs space_demo_def regs dev_demo_def pending_def)

lemma live_demo_idle: "live_idle (\<lambda>k. if k = 13 then 1 else 0) live_demo"
proof -
  have others: "heap_others live_demo = {9, 13}" "dom (fs_fences live_demo) = {14}" "dom (vs_vms live_demo) = {5}"
    unfolding heap_others_def live_demo_fields by auto
  have "vm_wf vm_demo live_demo" using vm_demo_wf [of 2] by (simp add: vm_wf_def dma_demo_def live_demo_fields)
  then have "vms_wf live_demo" by (auto simp: vms_wf_def vm_demo_def live_demo_fields split: if_splits)
  moreover have "fence_wf live_demo" by (auto simp: fence_wf_def kmem_wf_def fence_demo_def live_demo_fields split: if_splits)
  ultimately have "heap_wf live_demo" unfolding heap_wf_def others by (simp add: live_demo_fields)
  moreover have "counts_ok (\<lambda>k. if k = 13 then 1 else 0) live_demo" by (simp add: counts_ok_def live_demo_fields tasks_of_def)
  moreover have r: "resv_refs (resv_of live_demo 9) = [14]" by (simp add: resv_of_def live_demo_fields demo_bo_def resv_refs_def)
  moreover have "resv_held live_demo f \<le> frefs live_demo f" for f
    by (simp add: resv_held_def live_demo_fields frefs_def fence_demo_def r)
  moreover have "0 < brefs live_demo 9" "fence_status live_demo 14 \<noteq> 0"
    by (simp_all add: brefs_def fence_status_def live_demo_fields demo_bo_def)
  ultimately show ?thesis by (simp add: live_idle_def live_demo_fields)
qed

lemma live_demo_open: "file_open handles_demo priv_demo live_demo"
  by (simp add: file_open_def handles_ok_def handles_demo_def priv_demo_def live_demo_fields demo_bo_def
    lima_vm_bo_find_def vrefs_def vm_demo_def ctx_table_def)

lemma live_demo_runs: "\<exists>s'. lima_ioctl_gem_submit user_demo Z (\<lambda>s. s) handles_demo priv_demo args_demo live_demo = Some (0, s')"
  by (simp add: lima_ioctl_gem_submit_def args_demo_def pipe_of_arg_def LIMA_PIPE_GP_def LIMA_SUBMIT_FLAG_EXPLICIT_FENCE_def
    live_demo_fields lima_ctx_get_def priv_demo_def ioctl_submit_bos_def kzalloc_def user_demo_def ioctl_submit_task_def
    zeroed_task_def submit_of_args_def lima_gem_submit_def handles_demo_def
    lima_gem_object_lookup_def drm_gem_object_get_def bo_upd_def demo_bo_def lima_vm_bo_add_def lima_vm_bo_find_def
    LIMA_SUBMIT_BO_READ_def LIMA_SUBMIT_BO_WRITE_def gem_submit_task_def
    fence_demo_def vm_demo_def lima_sched_task_init_def lima_vm_get_def lima_fence_create_def
    task_set_def lima_resv_get_fences_def resv_refs_def dma_fence_get_def lima_sched_task_add_dep_def krealloc_def kfree_def
    lima_sched_context_queue_task_def ctx_upd_def on_pipe_def gem_publish_one_def lima_resv_set_excl_def dma_fence_put_def
    fence_kref_put_def lima_fence_release_def vm_upd_def pipe_upd_def)

lemma live_demo_step:
  "\<exists>t c. live_step Z (live_start live_demo) c \<and> lc_tasks c = [t]"
proof -
  obtain s' where run: "lima_ioctl_gem_submit user_demo Z (\<lambda>s. s) handles_demo priv_demo args_demo live_demo = Some (0, s')"
    using live_demo_runs by blast
  have inv: "tasks_inv (\<lambda>k. if k = 13 then 1 else 0) live_demo []"
    using live_reachable_inv [OF live_demo_idle rtranclp.rtrancl_refl] by (simp add: live_inv_def live_start_def)
  from submit_tasks_added [OF inv live_demo_open run] obtain t p where "p_queue (pipe_of p s') = p_queue (pipe_of p live_demo) @ [t]"
    by (metis (full_types))
  then show ?thesis
    using live_step.submit [where H = handles_demo and priv = priv_demo and c = "live_start live_demo" and U = user_demo and args = args_demo and p = p and t = t and s' = s']
      live_demo_open run by (fastforce simp: live_start_def)
qed


theorem dependencies_point_back_witness:
  "\<exists>c t. (live_step (id, 0, 0))\<^sup>*\<^sup>* (live_start live_demo) c \<and> lc_tasks c = [t] \<and>
     (\<forall>x f. task_of (lc_st c) t = Some x \<longrightarrow> f \<in> set (t_deps x) \<longrightarrow> fence_status (lc_st c) f \<noteq> 0)"
proof -
  obtain t c where c: "live_step (id, 0, 0) (live_start live_demo) c" "lc_tasks c = [] @ [t]" using live_demo_step by fastforce
  then have r: "(live_step (id, 0, 0))\<^sup>*\<^sup>* (live_start live_demo) c" by blast
  from dependencies_point_back [OF live_demo_idle r] c(2)
  have "\<forall>x f. task_of (lc_st c) t = Some x \<longrightarrow> f \<in> set (t_deps x) \<longrightarrow> fence_status (lc_st c) f \<noteq> 0" by fastforce
  with r c(2) show ?thesis by (metis append_Nil)
qed

end
