(* ===== verification/Lima_Smoke.thy ===== *)
theory Lima_Smoke
  imports Lima_Drv
begin

text \<open>
  The bring-up test of the repository, \<open>tools/lima/lima_smoke.c\<close>, on top of the driver's ioctls;
  and the deadline of its last check.
\<close>

section \<open>Waiting with a deadline that has passed\<close>

lemma deadline_passed: "sint (abs_ns - now) \<le> 0 \<Longrightarrow> lima_timeout_abs_to_jiffies ns2j now abs_ns = 0"
  by (simp add: lima_timeout_abs_to_jiffies_def)

lemma resv_wait_passed: "lima_resv_wait_timeout W r intr 0 s = Some (ret, s') \<Longrightarrow> ret \<le> 0"
  by (auto simp: lima_resv_wait_timeout_def Option.bind_eq_Some_conv dest!: resv_wait_loop_nonpos [OF order_refl] split: if_splits)

text \<open>With a deadline that has passed no wait succeeds, not even one for an idle object.\<close>

lemma gem_wait_passed:
  assumes "lima_gem_wait W ns2j now H h wop abs_ns s = Some (err, s')" and "sint (abs_ns - now) \<le> 0"
  shows "err \<noteq> 0"
  using assms(1) resv_wait_passed [of W _ True s]
  by (auto simp: lima_gem_wait_def deadline_passed [OF assms(2)] Option.bind_eq_Some_conv 
    split: if_splits option.splits dest!: resv_wait_passed)

section \<open>The calls of the test\<close>

text \<open>
  The system calls that the test makes, on any state of the kernel; \<open>None\<close> is a call that does not come back
  (or a signal that ends the process, for the accesses of mapped memory). A \<open>MAP_FAILED\<close> is
  \<open>None\<close>; the ioctls return their code and the structure as the kernel left it.
\<close>

record 's smoke_sys =
  sys_open :: "string \<Rightarrow> 's \<Rightarrow> (int \<times> 's) option"
  sys_version :: "int \<Rightarrow> 's \<Rightarrow> (int \<times> 's) option"
  sys_get_param :: "int \<Rightarrow> drm_lima_get_param \<Rightarrow> 's \<Rightarrow> (int \<times> drm_lima_get_param \<times> 's) option"
  sys_ctx_create :: "int \<Rightarrow> drm_lima_ctx_create \<Rightarrow> 's \<Rightarrow> (int \<times> drm_lima_ctx_create \<times> 's) option"
  sys_gem_create :: "int \<Rightarrow> drm_lima_gem_create \<Rightarrow> 's \<Rightarrow> (int \<times> drm_lima_gem_create \<times> 's) option"
  sys_gem_info :: "int \<Rightarrow> drm_lima_gem_info \<Rightarrow> 's \<Rightarrow> (int \<times> drm_lima_gem_info \<times> 's) option"
  sys_mmap :: "nat \<Rightarrow> int \<Rightarrow> u64 \<Rightarrow> 's \<Rightarrow> (nat option \<times> 's) option"
  sys_memset :: "nat \<Rightarrow> 8 word \<Rightarrow> nat \<Rightarrow> 's \<Rightarrow> 's option"
  sys_load32 :: "nat \<Rightarrow> 's \<Rightarrow> (u32 \<times> 's) option"
  sys_gem_wait :: "int \<Rightarrow> drm_lima_gem_wait \<Rightarrow> 's \<Rightarrow> (int \<times> 's) option"
  sys_munmap :: "nat \<Rightarrow> nat \<Rightarrow> 's \<Rightarrow> 's option"
  sys_gem_close :: "int \<Rightarrow> u32 \<Rightarrow> 's \<Rightarrow> (int \<times> 's) option"
  sys_ctx_free :: "int \<Rightarrow> drm_lima_ctx_free \<Rightarrow> 's \<Rightarrow> (int \<times> 's) option"
  sys_close :: "int \<Rightarrow> 's \<Rightarrow> 's option"

text \<open>A line of the output: \<open>PASS\<close> or \<open>FAIL\<close> with a name. \<open>CHECK\<close> appends one.\<close>

type_synonym smoke_log = "(string \<times> bool) list"

definition CHECK :: "string \<Rightarrow> bool \<Rightarrow> smoke_log \<Rightarrow> smoke_log" where
  "CHECK what cond l = l @ [(what, cond)]"

definition fails :: "smoke_log \<Rightarrow> nat" where
  "fails l = length (filter (\<lambda>(what, ok). \<not> ok) l)"

text \<open>The block of \<open>GET_PARAM\<close>; the structure is used again for each parameter.\<close>

definition smoke_params :: "'s smoke_sys \<Rightarrow> int \<Rightarrow> smoke_log \<Rightarrow> 's \<Rightarrow> (smoke_log \<times> 's) option" where
  "smoke_params S fd l s = do {
     let p = \<lparr>gp_param = DRM_LIMA_PARAM_GPU_ID, gp_pad = 0, gp_value = 0\<rparr>;
     (ret, p, s) \<leftarrow> sys_get_param S fd p s;
     let l = CHECK ''GET_PARAM gpu_id'' (ret = 0 \<and> gp_value p = DRM_LIMA_PARAM_GPU_ID_MALI400) l;
     (ret, p, s) \<leftarrow> sys_get_param S fd (p\<lparr>gp_param := DRM_LIMA_PARAM_NUM_PP\<rparr>) s;
     let l = CHECK ''GET_PARAM num_pp'' (ret = 0 \<and> gp_value p = 2) l;
     (ret, p, s) \<leftarrow> sys_get_param S fd (p\<lparr>gp_param := DRM_LIMA_PARAM_GP_VERSION\<rparr>) s;
     let l = CHECK ''GET_PARAM gp_version'' (ret = 0 \<and> gp_value p \<noteq> 0) l;
     (ret, p, s) \<leftarrow> sys_get_param S fd (p\<lparr>gp_param := DRM_LIMA_PARAM_PP_VERSION\<rparr>) s;
     Some (CHECK ''GET_PARAM pp_version'' (ret = 0 \<and> gp_value p \<noteq> 0) l, s)
   }"

definition smoke_ctx :: "'s smoke_sys \<Rightarrow> int \<Rightarrow> smoke_log \<Rightarrow> 's \<Rightarrow> (u32 \<times> smoke_log \<times> 's) option" where
  "smoke_ctx S fd l s = do {
     (ret, c, s) \<leftarrow> sys_ctx_create S fd \<lparr>cc_id = 0, cc_pad = 0\<rparr> s;
     Some (cc_id c, CHECK ''CTX_CREATE'' (ret = 0 \<and> cc_id c \<noteq> 0) l, s)
   }"

text \<open>The mapping and the write through it.\<close>

definition smoke_map :: "'s smoke_sys \<Rightarrow> int \<Rightarrow> u32 \<Rightarrow> u64 \<Rightarrow> smoke_log \<Rightarrow> 's \<Rightarrow> (nat option \<times> smoke_log \<times> 's) option" where
  "smoke_map S fd sz offset l s = do {
     (mapped, s) \<leftarrow> sys_mmap S (unat sz) fd offset s;
     let l = CHECK ''mmap bo'' (mapped \<noteq> None) l;
     case mapped of
       None \<Rightarrow> Some (None, l, s)
     | Some a \<Rightarrow> do {
         s \<leftarrow> sys_memset S a 0x5a 4096 s;
         (v, s) \<leftarrow> sys_load32 S a s;
         Some (Some a, CHECK ''cpu write'' (v = 0x5a5a5a5a) l, s)
       }
   }"

definition smoke_timeout_ns :: u64 where "smoke_timeout_ns = 1000000000"

definition smoke_gem :: "'s smoke_sys \<Rightarrow> int \<Rightarrow> smoke_log \<Rightarrow> 's \<Rightarrow> (u32 \<times> nat option \<times> smoke_log \<times> 's) option" where
  "smoke_gem S fd l s = do {
     (ret, g, s) \<leftarrow> sys_gem_create S fd \<lparr>gc_size = 1024 * 1024, gc_flags = 0, gc_handle = 0, gc_pad = 0\<rparr> s;
     let handle = gc_handle g;
     let l = CHECK ''GEM_CREATE 1MB'' (ret = 0 \<and> handle \<noteq> 0) l;
     (ret, gi, s) \<leftarrow> sys_gem_info S fd \<lparr>gi_handle = handle, gi_va = 0, gi_offset = 0\<rparr> s;
     let l = CHECK ''GEM_INFO'' (ret = 0 \<and> gi_offset gi \<noteq> 0) l;
     (mapped, l, s) \<leftarrow> (if ret = 0 then smoke_map S fd (gc_size g) (gi_offset gi) l s else Some (None, l, s));
     (ret, s) \<leftarrow> sys_gem_wait S fd \<lparr>gw_handle = handle, gw_op = LIMA_GEM_WAIT_READ OR LIMA_GEM_WAIT_WRITE,
        gw_timeout_ns = smoke_timeout_ns\<rparr> s;
     Some (handle, mapped, CHECK ''GEM_WAIT (idle bo)'' (ret = 0) l, s)
   }"

definition smoke_cleanup :: "'s smoke_sys \<Rightarrow> int \<Rightarrow> u32 \<Rightarrow> u32 \<Rightarrow> nat option \<Rightarrow> smoke_log \<Rightarrow> 's \<Rightarrow> (smoke_log \<times> 's) option" where
  "smoke_cleanup S fd ctx handle mapped l s = do {
     s \<leftarrow> (case mapped of None \<Rightarrow> Some s | Some a \<Rightarrow> sys_munmap S a (1024 * 1024) s);
     (l, s) \<leftarrow> (if handle \<noteq> 0 then do {
         (ret, s) \<leftarrow> sys_gem_close S fd handle s;
         Some (CHECK ''GEM_CLOSE'' (ret = 0) l, s)
       } else Some (l, s));
     (l, s) \<leftarrow> (if ctx \<noteq> 0 then do {
         (ret, s) \<leftarrow> sys_ctx_free S fd \<lparr>cf_id = ctx, cf_pad = 0\<rparr> s;
         Some (CHECK ''CTX_FREE'' (ret = 0) l, s)
       } else Some (l, s));
     s \<leftarrow> sys_close S fd s;
     Some (l, s)
   }"

text \<open>\<open>main\<close>: the exit code and the output.\<close>

definition smoke_main :: "'s smoke_sys \<Rightarrow> string list \<Rightarrow> 's \<Rightarrow> (int \<times> smoke_log \<times> 's) option" where
  "smoke_main S argv s = do {
     (fd, s) \<leftarrow> sys_open S (if 1 < length argv then argv ! 1 else ''/dev/dri/card0'') s;
     if fd < 0 then Some (1, [(''open'', False)], s)
     else do {
       let l = [(''open'', True)];
       (ret, s) \<leftarrow> sys_version S fd s;
       let l = CHECK ''VERSION'' (ret = 0) l;
       (l, s) \<leftarrow> smoke_params S fd l s;
       (ctx, l, s) \<leftarrow> smoke_ctx S fd l s;
       (handle, mapped, l, s) \<leftarrow> smoke_gem S fd l s;
       (l, s) \<leftarrow> smoke_cleanup S fd ctx handle mapped l s;
       Some (if fails l \<noteq> 0 then 1 else 0, l, s)
     }
   }"

section \<open>The outcome\<close>

text \<open>In the states of \<open>I\<close> every call comes back, and in such a state.\<close>

definition calls_return :: "'s smoke_sys \<Rightarrow> ('s \<Rightarrow> bool) \<Rightarrow> bool" where
  "calls_return S I \<longleftrightarrow> (\<forall>s. I s \<longrightarrow>
     (\<forall>x. \<exists>r s'. sys_open S x s = Some (r, s') \<and> I s') \<and> (\<forall>fd. \<exists>r s'. sys_version S fd s = Some (r, s') \<and> I s') \<and>
     (\<forall>fd x. \<exists>r y s'. sys_get_param S fd x s = Some (r, y, s') \<and> I s') \<and>
     (\<forall>fd x. \<exists>r y s'. sys_ctx_create S fd x s = Some (r, y, s') \<and> I s') \<and>
     (\<forall>fd x. \<exists>r y s'. sys_gem_create S fd x s = Some (r, y, s') \<and> I s') \<and>
     (\<forall>fd x. \<exists>r y s'. sys_gem_info S fd x s = Some (r, y, s') \<and> I s') \<and>
     (\<forall>n fd x. \<exists>r s'. sys_mmap S n fd x s = Some (r, s') \<and> I s') \<and> (\<forall>a x n. \<exists>s'. sys_memset S a x n s = Some s' \<and> I s') \<and>
     (\<forall>a. \<exists>r s'. sys_load32 S a s = Some (r, s') \<and> I s') \<and> (\<forall>fd x. \<exists>r s'. sys_gem_wait S fd x s = Some (r, s') \<and> I s') \<and>
     (\<forall>a n. \<exists>s'. sys_munmap S a n s = Some s' \<and> I s') \<and> (\<forall>fd x. \<exists>r s'. sys_gem_close S fd x s = Some (r, s') \<and> I s') \<and>
     (\<forall>fd x. \<exists>r s'. sys_ctx_free S fd x s = Some (r, s') \<and> I s') \<and> (\<forall>fd. \<exists>s'. sys_close S fd s = Some s' \<and> I s'))"

lemma callsD:
  assumes "calls_return S I" and "I s"
  shows "\<exists>r s'. sys_open S path s = Some (r, s') \<and> I s'" and "\<exists>r s'. sys_version S fd s = Some (r, s') \<and> I s'"
    and "\<exists>r y s'. sys_get_param S fd p s = Some (r, y, s') \<and> I s'" and "\<exists>r y s'. sys_ctx_create S fd c s = Some (r, y, s') \<and> I s'"
    and "\<exists>r y s'. sys_gem_create S fd g s = Some (r, y, s') \<and> I s'" and "\<exists>r y s'. sys_gem_info S fd gi s = Some (r, y, s') \<and> I s'"
    and "\<exists>r s'. sys_mmap S n fd off s = Some (r, s') \<and> I s'" and "\<exists>s'. sys_memset S a x n s = Some s' \<and> I s'"
    and "\<exists>r s'. sys_load32 S a s = Some (r, s') \<and> I s'" and "\<exists>r s'. sys_gem_wait S fd w s = Some (r, s') \<and> I s'"
    and "\<exists>s'. sys_munmap S a n s = Some s' \<and> I s'" and "\<exists>r s'. sys_gem_close S fd h s = Some (r, s') \<and> I s'"
    and "\<exists>r s'. sys_ctx_free S fd cf s = Some (r, s') \<and> I s'" and "\<exists>s'. sys_close S fd s = Some s' \<and> I s'"
  using assms by (simp_all add: calls_return_def)

lemma fails_CHECK [simp]: "fails (CHECK what ok l) = fails l + (if ok then 0 else 1)"
  by (simp add: fails_def CHECK_def)

lemma names_CHECK [simp]: "map fst (CHECK what ok l) = map fst l @ [what]"
  by (simp add: CHECK_def)

lemma set_CHECK [simp]: "set (CHECK what ok l) = insert (what, ok) (set l)"
  by (simp add: CHECK_def)

lemma fails_0: "fails l = 0 \<longleftrightarrow> (\<forall>(what, ok) \<in> set l. ok)"
  by (auto simp: fails_def filter_empty_conv)

definition smoke_param_names :: "string list" where
  "smoke_param_names = [''GET_PARAM gpu_id'', ''GET_PARAM num_pp'', ''GET_PARAM gp_version'', ''GET_PARAM pp_version'']"

lemma params_outcome:
  assumes "calls_return S I" and "I s"
  obtains l' s' where "smoke_params S fd l s = Some (l', s')" and "I s'" and "set l \<subseteq> set l'"
    and "map fst l' = map fst l @ smoke_param_names"
proof -
  note call = callsD(3) [OF assms(1)]
  let ?p = "\<lparr>gp_param = DRM_LIMA_PARAM_GPU_ID, gp_pad = 0, gp_value = 0\<rparr>"
  obtain r1 p1 s1 where 1: "sys_get_param S fd ?p s = Some (r1, p1, s1)" "I s1" using call [OF assms(2)] by blast
  obtain r2 p2 s2 where 2: "sys_get_param S fd (p1\<lparr>gp_param := DRM_LIMA_PARAM_NUM_PP\<rparr>) s1 = Some (r2, p2, s2)" "I s2"
    using call [OF 1(2)] by blast
  obtain r3 p3 s3 where 3: "sys_get_param S fd (p2\<lparr>gp_param := DRM_LIMA_PARAM_GP_VERSION\<rparr>) s2 = Some (r3, p3, s3)" "I s3"
    using call [OF 2(2)] by blast
  obtain r4 p4 s4 where 4: "sys_get_param S fd (p3\<lparr>gp_param := DRM_LIMA_PARAM_PP_VERSION\<rparr>) s3 = Some (r4, p4, s4)" "I s4"
    using call [OF 3(2)] by blast
  show thesis
    by (rule that [OF _ 4(2)]) (use 1(1) 2(1) 3(1) 4(1) in \<open>auto simp: smoke_params_def smoke_param_names_def Let_def\<close>)
qed

definition smoke_wait_args :: "u32 \<Rightarrow> drm_lima_gem_wait" where
  "smoke_wait_args h = \<lparr>gw_handle = h, gw_op = LIMA_GEM_WAIT_READ OR LIMA_GEM_WAIT_WRITE, gw_timeout_ns = smoke_timeout_ns\<rparr>"

definition smoke_gem_names :: "string list" where
  "smoke_gem_names = [''GEM_CREATE 1MB'', ''GEM_INFO'', ''mmap bo'', ''cpu write'', ''GEM_WAIT (idle bo)'']"

lemma map_outcome:
  assumes "calls_return S I" and "I s"
  obtains m l' s' where "smoke_map S fd sz off l s = Some (m, l', s')" and "I s'" and "set l \<subseteq> set l'"
    and "fails l' = 0 \<longrightarrow> map fst l' = map fst l @ [''mmap bo'', ''cpu write'']"
proof -
  note c = callsD [OF assms(1)]
  obtain m s1 where 1: "sys_mmap S (unat sz) fd off s = Some (m, s1)" "I s1" using c(7) [OF assms(2)] by blast
  show thesis
  proof (cases m)
    case None
    then show ?thesis using 1 by (intro that) (auto simp: smoke_map_def Let_def)
  next
    case (Some a)
    obtain s2 where 2: "sys_memset S a 0x5a 4096 s1 = Some s2" "I s2" using c(8) [OF 1(2)] by blast
    obtain v s3 where 3: "sys_load32 S a s2 = Some (v, s3)" "I s3" using c(9) [OF 2(2)] by blast
    show ?thesis by (rule that [OF _ 3(2)]) (use 1(1) 2(1) 3(1) Some in \<open>auto simp: smoke_map_def Let_def\<close>)
  qed
qed

lemma gem_outcome:
  assumes "calls_return S I" and "I s"
  obtains h m l' s' t r t' where "smoke_gem S fd l s = Some (h, m, l', s')" and "I s'" and "set l \<subseteq> set l'"
    and "I t" and "sys_gem_wait S fd (smoke_wait_args h) t = Some (r, t')" and "(''GEM_WAIT (idle bo)'', r = 0) \<in> set l'"
    and "fails l' = 0 \<longrightarrow> h \<noteq> 0 \<and> map fst l' = map fst l @ smoke_gem_names"
proof -
  note c = callsD [OF assms(1)]
  let ?g = "\<lparr>gc_size = 1024 * 1024, gc_flags = 0, gc_handle = 0, gc_pad = 0\<rparr>"
  obtain r1 g s1 where 1: "sys_gem_create S fd ?g s = Some (r1, g, s1)" "I s1" using c(5) [OF assms(2)] by blast
  let ?h = "gc_handle g" and ?l1 = "CHECK ''GEM_CREATE 1MB'' (r1 = 0 \<and> gc_handle g \<noteq> 0) l"
  obtain r2 gi s2 where 2: "sys_gem_info S fd \<lparr>gi_handle = ?h, gi_va = 0, gi_offset = 0\<rparr> s1 = Some (r2, gi, s2)" "I s2"
    using c(6) [OF 1(2)] by blast
  define l2 where "l2 = CHECK ''GEM_INFO'' (r2 = 0 \<and> gi_offset gi \<noteq> 0) ?l1"
  obtain m l3 s3 where 3: "(if r2 = 0 then smoke_map S fd (gc_size g) (gi_offset gi) l2 s2 else Some (None, l2, s2)) = Some (m, l3, s3)"
    "I s3" "set l2 \<subseteq> set l3" "fails l3 = 0 \<longrightarrow> r2 = 0 \<longrightarrow> map fst l3 = map fst l2 @ [''mmap bo'', ''cpu write'']"
  proof (cases "r2 = 0")
    case True
    obtain m l3 s3 where "smoke_map S fd (gc_size g) (gi_offset gi) l2 s2 = Some (m, l3, s3)" "I s3" "set l2 \<subseteq> set l3"
      "fails l3 = 0 \<longrightarrow> map fst l3 = map fst l2 @ [''mmap bo'', ''cpu write'']" by (rule map_outcome [OF assms(1) 2(2), where fd = fd and sz = "gc_size g" and off = "gi_offset gi" and l = l2])
    with True show thesis by (intro that) simp_all
  next
    case False
    with 2(2) show thesis by (intro that [of None l2 s2]) simp_all
  qed
  obtain r4 s4 where 4: "sys_gem_wait S fd (smoke_wait_args ?h) s3 = Some (r4, s4)" "I s4" using c(10) [OF 3(2)] by blast
  let ?l4 = "CHECK ''GEM_WAIT (idle bo)'' (r4 = 0) l3"
  have run: "smoke_gem S fd l s = Some (?h, m, ?l4, s4)"
    using 1(1) 2(1) 3(1) 4(1) by (cases "r2 = 0") (simp_all add: smoke_gem_def Let_def l2_def smoke_wait_args_def [symmetric])
  have sub: "set ?l1 \<subseteq> set l2" by (auto simp: l2_def)
  show thesis
  proof (rule that [OF run 4(2) _ 3(2) 4(1)])
    show "set l \<subseteq> set ?l4" using 3(3) sub by auto
    show "fails ?l4 = 0 \<longrightarrow> ?h \<noteq> 0 \<and> map fst ?l4 = map fst l @ smoke_gem_names"
    proof
      assume "fails ?l4 = 0"
      then have l3: "fails l3 = 0" by (simp split: if_splits)
      then have "\<forall>(what, ok) \<in> set l2. ok" using 3(3) by (auto simp: fails_0)
      then have "r2 = 0" "?h \<noteq> 0" by (auto simp: l2_def)
      then show "?h \<noteq> 0 \<and> map fst ?l4 = map fst l @ smoke_gem_names"
        using 3(4) l3 by (simp add: l2_def smoke_gem_names_def)
    qed
  qed simp
qed

lemma cleanup_outcome:
  assumes "calls_return S I" and "I s"
  obtains l' s' where "smoke_cleanup S fd ctx h m l s = Some (l', s')" and "I s'" and "set l \<subseteq> set l'"
    and "h \<noteq> 0 \<longrightarrow> ctx \<noteq> 0 \<longrightarrow> map fst l' = map fst l @ [''GEM_CLOSE'', ''CTX_FREE'']"
proof -
  note c = callsD [OF assms(1)]
  obtain s1 where 1: "(case m of None \<Rightarrow> Some s | Some a \<Rightarrow> sys_munmap S a (1024 * 1024) s) = Some s1" "I s1"
    using c(11) [OF assms(2)] assms(2) by (cases m) auto
  obtain r2 s2 where 2: "sys_gem_close S fd h s1 = Some (r2, s2)" "I s2" using c(12) [OF 1(2)] by blast
  define l2 s2' where d: "l2 = (if h \<noteq> 0 then CHECK ''GEM_CLOSE'' (r2 = 0) l else l)" "s2' = (if h \<noteq> 0 then s2 else s1)"
  then have i2: "I s2'" using 1 2 by simp
  obtain r3 s3 where 3: "sys_ctx_free S fd \<lparr>cf_id = ctx, cf_pad = 0\<rparr> s2' = Some (r3, s3)" "I s3" using c(13) [OF i2] by blast
  define l3 s3' where e: "l3 = (if ctx \<noteq> 0 then CHECK ''CTX_FREE'' (r3 = 0) l2 else l2)" "s3' = (if ctx \<noteq> 0 then s3 else s2')"
  then have i3: "I s3'" using i2 3 by simp
  obtain s4 where 4: "sys_close S fd s3' = Some s4" "I s4" using c(14) [OF i3] by blast
  have "smoke_cleanup S fd ctx h m l s = Some (l3, s4)"
    using 1(1) 2(1) 3(1) 4(1) by (cases "h = 0"; cases "ctx = 0") (simp_all add: smoke_cleanup_def d e)
  then show thesis by (rule that [OF _ 4(2)]) (auto simp: d e)
qed

definition smoke_names :: "string list" where
  "smoke_names = [''open'', ''VERSION''] @ smoke_param_names @ [''CTX_CREATE''] @ smoke_gem_names @ [''GEM_CLOSE'', ''CTX_FREE'']"

text \<open>
  C39. The bring-up test reports what it saw, and cannot succeed on a device that has been up for a
  second. On any kernel whose calls come back, the test ends; its exit code is 0 exactly when no
  line of its output is a failure, and then it has made all fourteen checks, in order. But the
  deadline of its last wait is the absolute time 1 s of the monotonic clock (its comment takes it for
  relative): when the kernel's wait is that of the driver, and the clock has reached
  one second, the check fails for the idle object, and so does the test.
\<close>

theorem smoke_test_outcome:
  assumes calls: "calls_return S I" and s: "I s"
    and wait: "\<And>t fd x r t'. I t \<Longrightarrow> sys_gem_wait S fd x t = Some (r, t') \<Longrightarrow>
      \<exists>W ns2j H err k k'. lima_ioctl_gem_wait W ns2j (clock t) H x (k :: 'a ctx_st_scheme) = Some (err, k') \<and> (r = 0 \<longleftrightarrow> err = 0)"
  shows "\<exists>code l s'. smoke_main S argv s = Some (code, l, s') \<and> code \<in> {0, 1} \<and>
    (code = 0 \<longleftrightarrow> (\<forall>(what, ok) \<in> set l. ok)) \<and> (code = 0 \<longrightarrow> map fst l = smoke_names) \<and>
    ((\<forall>t. I t \<longrightarrow> sint (1000000000 - clock t) \<le> 0) \<longrightarrow> code = 1)"
proof -
  note c = callsD [OF calls]
  let ?path = "if 1 < length argv then argv ! 1 else ''/dev/dri/card0''"
  obtain fd s1 where 1: "sys_open S ?path s = Some (fd, s1)" "I s1" using c(1) [OF s] by blast
  show ?thesis
  proof (cases "fd < 0")
    case True
    then show ?thesis using 1(1) by (simp add: smoke_main_def)
  next
    case False
    obtain r2 s2 where 2: "sys_version S fd s1 = Some (r2, s2)" "I s2" using c(2) [OF 1(2)] by blast
    let ?l2 = "CHECK ''VERSION'' (r2 = 0) [(''open'', True)]"
    obtain l3 s3 where 3: "smoke_params S fd ?l2 s2 = Some (l3, s3)" "I s3" "set ?l2 \<subseteq> set l3"
      "map fst l3 = map fst ?l2 @ smoke_param_names" by (rule params_outcome [OF calls 2(2), where fd = fd and l = ?l2])
    obtain r4 x s4 where 4: "sys_ctx_create S fd \<lparr>cc_id = 0, cc_pad = 0\<rparr> s3 = Some (r4, x, s4)" "I s4" using c(4) [OF 3(2)] by blast
    let ?ctx = "cc_id x"
    define l4 where "l4 = CHECK ''CTX_CREATE'' (r4 = 0 \<and> ?ctx \<noteq> 0) l3"
    have ctx: "smoke_ctx S fd l3 s3 = Some (?ctx, l4, s4)" by (simp add: smoke_ctx_def 4(1) l4_def)
    obtain h m l5 s5 t r t' where 5: "smoke_gem S fd l4 s4 = Some (h, m, l5, s5)" "I s5" "set l4 \<subseteq> set l5" "I t"
      "sys_gem_wait S fd (smoke_wait_args h) t = Some (r, t')" "(''GEM_WAIT (idle bo)'', r = 0) \<in> set l5"
      "fails l5 = 0 \<longrightarrow> h \<noteq> 0 \<and> map fst l5 = map fst l4 @ smoke_gem_names" by (rule gem_outcome [OF calls 4(2), where fd = fd and l = l4])
    obtain l6 s6 where 6: "smoke_cleanup S fd ?ctx h m l5 s5 = Some (l6, s6)" "I s6" "set l5 \<subseteq> set l6"
      "h \<noteq> 0 \<longrightarrow> ?ctx \<noteq> 0 \<longrightarrow> map fst l6 = map fst l5 @ [''GEM_CLOSE'', ''CTX_FREE'']" by (rule cleanup_outcome [OF calls 5(2), where fd = fd and ctx = ?ctx and h = h and m = m and l = l5])
    have run: "smoke_main S argv s = Some (if fails l6 \<noteq> 0 then 1 else 0, l6, s6)"
      using 1(1) 2(1) 3(1) ctx 5(1) 6(1) False by (simp add: smoke_main_def Let_def)
    have names: "map fst l6 = smoke_names" if "fails l6 = 0"
    proof -
      have ok: "\<forall>(what, ok) \<in> set l6. ok" using that by (simp add: fails_0)
      then have "fails l5 = 0" "fails l4 = 0" using 5(3) 6(3) by (auto simp: fails_0)
      moreover from this(2) have "?ctx \<noteq> 0" by (simp add: l4_def split: if_splits)
      ultimately show ?thesis using 5(7) 6(4) 3(4) by (simp add: l4_def smoke_names_def)
    qed
    have late: "fails l6 \<noteq> 0" if "\<forall>t. I t \<longrightarrow> sint (1000000000 - clock t) \<le> 0"
    proof -
      from wait [OF 5(4,5)] obtain W ns2j H err k k' where w: "lima_ioctl_gem_wait W ns2j (clock t) H (smoke_wait_args h) (k :: 'a ctx_st_scheme) = Some (err, k')"
        "r = 0 \<longleftrightarrow> err = 0" by blast
      have "err \<noteq> 0"
        by (rule gem_wait_passed [OF w(1) [unfolded lima_ioctl_gem_wait_def]]) (use that 5(4) in \<open>simp add: smoke_wait_args_def smoke_timeout_ns_def\<close>)
      then have "(''GEM_WAIT (idle bo)'', False) \<in> set l6" using w(2) 5(6) 6(3) by auto
      then show ?thesis by (auto simp: fails_0)
    qed
    show ?thesis using run names late fails_0 [of l6] by (cases "fails l6 = 0") auto
  qed
qed

section \<open>A concrete run\<close>

text \<open>
  A kernel whose other calls succeed, with the driver's \<open>GET_PARAM\<close>, \<open>GEM_INFO\<close> and \<open>GEM_WAIT\<close>
  on handle 7, an idle object, two seconds after the boot.
\<close>

definition smoke_state :: ctx_st where
  "smoke_state = ctx_demo\<lparr>vs_bos := [9 \<mapsto> (demo_bo 3 1 14)\<lparr>bo_resv := lima_resv_init\<rparr>]\<rparr>"

definition smoke_priv :: lima_drm_priv where
  "smoke_priv = \<lparr>pr_block = 40, pr_vm = 5, pr_ctx_mgr = \<lparr>cm_handles = []\<rparr>\<rparr>"

definition smoke_demo :: "ctx_st smoke_sys" where
  "smoke_demo = \<lparr>sys_open = (\<lambda>_ s. Some (3, s)), sys_version = (\<lambda>_ s. Some (0, s)),
     sys_get_param = (\<lambda>_ p s. let (r, p) = lima_ioctl_get_param (cs_dev s) p in Some (r, p, s)),
     sys_ctx_create = (\<lambda>_ c s. Some (0, c\<lparr>cc_id := 1\<rparr>, s)), sys_gem_create = (\<lambda>_ g s. Some (0, g\<lparr>gc_handle := 7\<rparr>, s)),
     sys_gem_info = (\<lambda>_ g s. lima_ioctl_gem_info handles_demo smoke_priv g s),
     sys_mmap = (\<lambda>_ _ _ s. Some (Some 0, s)), sys_memset = (\<lambda>_ _ _ s. Some s), sys_load32 = (\<lambda>_ s. Some (0x5a5a5a5a, s)),
     sys_gem_wait = (\<lambda>_ w s. lima_ioctl_gem_wait (\<lambda>intr f timeout s. (0, s)) (\<lambda>_. 100) 2000000000 handles_demo w s),
     sys_munmap = (\<lambda>_ _ s. Some s), sys_gem_close = (\<lambda>_ _ s. Some (0, s)), sys_ctx_free = (\<lambda>_ _ s. Some (0, s)),
     sys_close = (\<lambda>_ s. Some s)\<rparr>"

lemma smoke_lookup: "lima_gem_object_lookup handles_demo h smoke_state =
    (if h = 7 then Some (Some 9, smoke_state\<lparr>vs_bos := [9 \<mapsto> (demo_bo 4 1 14)\<lparr>bo_resv := lima_resv_init\<rparr>]\<rparr>) else Some (None, smoke_state))"
  by (simp add: lima_gem_object_lookup_def handles_demo_def drm_gem_object_get_def smoke_state_def bo_upd_def demo_bo_def)

lemma smoke_put: "drm_gem_object_put 9 (smoke_state\<lparr>vs_bos := [9 \<mapsto> (demo_bo 4 1 14)\<lparr>bo_resv := lima_resv_init\<rparr>]\<rparr>) = Some smoke_state"
  by (simp add: drm_gem_object_put_def smoke_state_def bo_upd_def demo_bo_def)

lemma smoke_wait_idle: "lima_resv_wait_timeout W lima_resv_init intr n s = Some (n, s)"
  by (simp add: lima_resv_wait_timeout_def lima_resv_get_fences_def lima_resv_init_def kfree_def)

lemma smoke_demo_calls: "calls_return smoke_demo (\<lambda>s. s = smoke_state)"
proof -
  have "\<exists>r. lima_ioctl_gem_wait W j now handles_demo w smoke_state = Some (r, smoke_state)" for W j now w
    by (simp add: lima_ioctl_gem_wait_def lima_gem_wait_def smoke_lookup smoke_wait_idle smoke_put)
  moreover have "\<exists>r y. lima_ioctl_gem_info handles_demo smoke_priv g smoke_state = Some (r, y, smoke_state)" for g
    using smoke_put
    by (simp add: lima_ioctl_gem_info_def lima_gem_get_info_def smoke_lookup lima_vm_get_va_def smoke_priv_def
      lima_vm_bo_find_def demo_bo_def)
  ultimately show ?thesis by (simp add: calls_return_def smoke_demo_def split: prod.split)
qed

theorem smoke_test_outcome_witness:
  "\<exists>l s'. smoke_main smoke_demo [''lima_smoke''] smoke_state = Some (1, l, s') \<and> (\<exists>what. (what, False) \<in> set l)"
proof -
  have "\<exists>code l s'. smoke_main smoke_demo [''lima_smoke''] smoke_state = Some (code, l, s') \<and> code \<in> {0, 1} \<and>
    (code = 0 \<longleftrightarrow> (\<forall>(what, ok) \<in> set l. ok)) \<and> (code = 0 \<longrightarrow> map fst l = smoke_names) \<and>
    ((\<forall>t. t = smoke_state \<longrightarrow> sint (1000000000 - (\<lambda>_ :: ctx_st. 2000000000 :: u64) t) \<le> 0) \<longrightarrow> code = 1)"
  proof (rule smoke_test_outcome [OF smoke_demo_calls refl])
    fix t fd x r t' assume "sys_gem_wait smoke_demo fd x t = Some (r, t')"
    then show "\<exists>W ns2j H err k k'. lima_ioctl_gem_wait W ns2j 2000000000 H x (k :: ctx_st) = Some (err, k') \<and> (r = 0 \<longleftrightarrow> err = 0)"
      unfolding smoke_demo_def smoke_sys.simps by blast
  qed
  moreover have "sint (1000000000 - 2000000000 :: u64) \<le> 0" by simp
  ultimately show ?thesis by force
qed

end
