(* ===== verification/Lima_Isolation.thy ===== *)
theory Lima_Isolation
  imports Lima_Run Lima_Boot
begin

text \<open>
  Which registers the hardware code can reach. Every access of an operation lies in the register
  blocks of the units it is for; the blocks of a GPU are disjoint and lie in the window that the
  board maps. The lemmas follow the structure of an operation, as those of \<open>Lima_Frame\<close> do.
\<close>

section \<open>Blocks\<close>

text \<open>The size of a unit's block: two pages for a pixel processor (and the broadcast to all), one for the others.\<close>

definition ip_size :: "lima_ip_id \<Rightarrow> u32" where
  "ip_size i = (if i \<in> set lima_pps \<or> i = lima_ip_pp_bcast then 0x2000 else 0x1000)"

fun io_addr :: "io \<Rightarrow> u32" where
  "io_addr (Rd a v) = a"
| "io_addr (Wr a v) = a"

text \<open>
  The processors of the pixel pipe, whether it has a broadcast unit, and the validated tasks.
\<close>

record wiring =
  wr_pps :: "lima_ip_id list"
  wr_bcast :: bool
  wr_tasks :: "nat set"

text \<open>
  A device whose pipes are wired as \<open>lima_init_gp_pipe\<close> and \<open>lima_init_pp_pipe\<close> leave them.
  Word 23 of the frame of a validated task, the number of processors it asks for, is at most the
  number there are. The current task of the pipe has been validated.
\<close>

definition wired :: "wiring \<Rightarrow> lima_device \<Rightarrow> bool" where
  "wired w d \<longleftrightarrow> gp_processor d = lima_ip_gp \<and> p_processor (dev_pipe d lima_pipe_pp) = wr_pps w \<and> set (wr_pps w) \<subseteq> set lima_pps \<and>
     p_bcast_processor (dev_pipe d lima_pipe_pp) = (if wr_bcast w then Some lima_ip_pp_bcast else None) \<and>
     (\<forall>t \<in> wr_tasks w. unat (task_frame d t ! 23) \<le> length (wr_pps w)) \<and> set_option (p_current_task (dev_pipe d lima_pipe_pp)) \<subseteq> wr_tasks w"

text \<open>
  From \<open>d\<close> to \<open>d'\<close> only the blocks of \<open>B\<close> have been accessed, and the wiring is the same.
\<close>

definition within :: "lima_ip_id set \<Rightarrow> lima_device \<Rightarrow> lima_device \<Rightarrow> bool" where
  "within B d d' \<longleftrightarrow> (\<forall>i. ip_iomem (dev_ip d' i) = ip_iomem (dev_ip d i) \<and> ip_present (dev_ip d' i) = ip_present (dev_ip d i)) \<and>
     dev_id d' = dev_id d \<and> dev_iomem d' = dev_iomem d \<and> bus_resp d' = bus_resp d \<and> dev_empty_vm_pd d' = dev_empty_vm_pd d \<and>
     (\<forall>p. p_processor (dev_pipe d' p) = p_processor (dev_pipe d p) \<and>
        p_bcast_processor (dev_pipe d' p) = p_bcast_processor (dev_pipe d p) \<and> p_mmu (dev_pipe d' p) = p_mmu (dev_pipe d p) \<and>
        p_bcast_mmu (dev_pipe d' p) = p_bcast_mmu (dev_pipe d p) \<and>
        p_current_task (dev_pipe d' p) = p_current_task (dev_pipe d p)) \<and>
     (\<forall>t. task_frame d' t ! 23 = task_frame d t ! 23) \<and>
     (\<exists>es. bus_trace d' = es @ bus_trace d \<and> (\<forall>e \<in> set es. \<exists>i \<in> B. \<exists>r < ip_size i. io_addr e = ip_reg d i r))"

lemma pipe_upd_iomem [simp]: "dev_iomem (pipe_upd p f d) = dev_iomem d"
  by (simp add: pipe_upd_def)

lemma within_refl [simp]: "within B d d"
  by (simp add: within_def)

lemma within_reg: "within B d d' \<Longrightarrow> ip_reg d' = ip_reg d"
  by (simp add: within_def ip_reg_def fun_eq_iff)

lemma within_trans:
  assumes "within B a b" and "within B b c"
  shows "within B a c"
proof -
  from assms(1) obtain es where es: "bus_trace b = es @ bus_trace a" "\<forall>e \<in> set es. \<exists>i \<in> B. \<exists>r < ip_size i. io_addr e = ip_reg a i r"
    unfolding within_def by blast
  from assms(2) obtain fs where fs: "bus_trace c = fs @ bus_trace b" "\<forall>e \<in> set fs. \<exists>i \<in> B. \<exists>r < ip_size i. io_addr e = ip_reg a i r"
    unfolding within_def by (metis within_reg [OF assms(1)])
  have "bus_trace c = (fs @ es) @ bus_trace a" using es fs by simp
  moreover have "\<forall>e \<in> set (fs @ es). \<exists>i \<in> B. \<exists>r < ip_size i. io_addr e = ip_reg a i r" using es(2) fs(2) by auto
  ultimately show ?thesis using assms unfolding within_def by metis
qed

lemma within_mono: "within B d d' \<Longrightarrow> B \<subseteq> C \<Longrightarrow> within C d d'"
  unfolding within_def by (meson subsetD)

lemma within_wired: "within B d d' \<Longrightarrow> wired w d \<Longrightarrow> wired w d'"
  by (simp add: within_def wired_def gp_processor_def)

section \<open>Operations in blocks\<close>

named_theorems block_intros \<open>the operation stays in the blocks\<close>

definition confined :: "wiring \<Rightarrow> lima_ip_id set \<Rightarrow> 'a hw \<Rightarrow> bool" where
  "confined w B m \<longleftrightarrow> (\<forall>d. wired w d \<longrightarrow> within B d (exec m d))"

lemma confinedD: "confined w B m \<Longrightarrow> wired w d \<Longrightarrow> within B d (exec m d)"
  by (simp add: confined_def)

lemma confined_bind [block_intros]:
  assumes "confined w B m" and "\<And>x. confined w B (f x)"
  shows "confined w B (m \<bind> f)"
  unfolding confined_def
proof (intro allI impI)
  fix d assume d: "wired w d"
  let ?e = "exec m d"
  have e: "within B d ?e" using assms(1) d by (rule confinedD)
  then have "within B ?e (exec (f (result m d)) ?e)" using assms(2) within_wired [OF e d] by (blast intro: confinedD)
  with e show "within B d (exec (m \<bind> f) d)" by (simp add: within_trans)
qed

text \<open>The value that is read may be used.\<close>

lemma confined_gets_bind:
  assumes "\<And>d. wired w d \<Longrightarrow> confined w B (f (g d))"
  shows "confined w B (gets g \<bind> f)"
  using assms by (simp add: confined_def)

lemma confined_return [block_intros]: "confined w B (returnM x)"
  by (simp add: confined_def)

lemma confined_gets [block_intros]: "confined w B (gets f)"
  by (simp add: confined_def)

lemma confined_whenM [block_intros]: "(b \<Longrightarrow> confined w B m) \<Longrightarrow> confined w B (whenM b m)"
  by (cases b) (simp_all add: confined_def)

lemma confined_ite [block_intros]: "(b \<Longrightarrow> confined w B m) \<Longrightarrow> (\<not> b \<Longrightarrow> confined w B n) \<Longrightarrow> confined w B (if b then m else n)"
  by simp

lemma confined_forM [block_intros]: "(\<And>x. x \<in> set xs \<Longrightarrow> confined w B (f x)) \<Longrightarrow> confined w B (forM f xs)"
  by (induction xs) (auto intro: confined_bind confined_return)

lemma confined_option [block_intros]:
  "confined w B m \<Longrightarrow> (\<And>x. confined w B (f x)) \<Longrightarrow> confined w B (case v of None \<Rightarrow> m | Some x \<Rightarrow> f x)"
  by (simp split: option.split)

lemma confined_lets [block_intros]: "(\<And>x. confined w B (f x)) \<Longrightarrow> confined w B (Let v f)"
  by simp

lemma confined_log: "i \<in> B \<Longrightarrow> r < ip_size i \<Longrightarrow> io_addr e = ip_reg d i r \<Longrightarrow> within B d (log_io e d)"
  by (auto simp: within_def task_frame_def)

lemma confined_read [block_intros]: "i \<in> B \<Longrightarrow> r < ip_size i \<Longrightarrow> confined w B (ip_read i r)"
  by (simp add: confined_def hw_simps confined_log)

lemma confined_write [block_intros]: "i \<in> B \<Longrightarrow> r < ip_size i \<Longrightarrow> confined w B (ip_write i r v)"
  by (simp add: confined_def hw_simps confined_log)

lemma confined_readl_poll [block_intros]:
  assumes "i \<in> B" and "r < ip_size i"
  shows "confined w B (readl_poll_timeout i r c)"
proof -
  have "confined w B (readl_poll_loop i r c n)" for n
    by (induction n) (subst readl_poll_loop.simps, auto intro!: block_intros assms split: nat.split)+
  then show ?thesis unfolding readl_poll_timeout_def by (intro block_intros)
qed

lemma confined_poll [block_intros]:
  assumes "confined w B f"
  shows "confined w B (lima_poll_timeout f)"
proof -
  have "confined w B (lima_poll_loop f n)" for n
    by (induction n) (subst lima_poll_loop.simps, auto intro!: block_intros assms split: nat.split)+
  then show ?thesis unfolding lima_poll_timeout_def by (intro block_intros)
qed

lemma confined_same: "(\<And>d. within {} d (g d)) \<Longrightarrow> confined w B (modify g)"
  by (auto simp: confined_def intro: within_mono)

lemma confined_async [block_intros]: "confined w B (set_async_reset i b)"
  unfolding set_async_reset_def by (rule confined_same) (simp add: within_def task_frame_def)

lemma confined_pipe [block_intros]:
  assumes "\<And>x. p_processor (f x) = p_processor x" "\<And>x. p_bcast_processor (f x) = p_bcast_processor x"
    "\<And>x. p_current_task (f x) = p_current_task x" "\<And>x. p_mmu (f x) = p_mmu x"
    "\<And>x. p_bcast_mmu (f x) = p_bcast_mmu x"
  shows "confined w B (modify (pipe_upd p f))"
  by (rule confined_same) (simp add: within_def task_frame_def assms)

lemma confined_error [block_intros]: "confined w B (set_pipe_error p)"
  unfolding set_pipe_error_def by (intro block_intros) simp_all

lemma confined_done [block_intros]: "confined w B (lima_sched_pipe_task_done p)"
  unfolding lima_sched_pipe_task_done_def by (rule confined_same) (simp add: within_def task_frame_def)

lemma confined_frame_write [block_intros]:
  assumes "unat (drop_bit 2 r) \<noteq> 23"
  shows "confined w B (frame_write t r v)"
proof -
  have "task_frame (d\<lparr>dev_tasks := (dev_tasks d)(t := map_option (\<lambda>x. x\<lparr>t_frame := (t_frame x)[unat (drop_bit 2 r) := v]\<rparr>) (dev_tasks d t))\<rparr>) u ! 23 =
      task_frame d u ! 23" for d u
    using assms by (simp add: task_frame_def split: option.split)
  then show ?thesis unfolding frame_write_def by (intro confined_same) (simp add: within_def)
qed

section \<open>The units\<close>

lemma ip_size_le: "0x1000 \<le> ip_size i"
  by (simp add: ip_size_def)

lemma small_reg: "r < 0x1000 \<Longrightarrow> r < ip_size i"
  using ip_size_le order_less_le_trans by blast

lemma pp_reg: "i \<in> set lima_pps \<or> i = lima_ip_pp_bcast \<Longrightarrow> r < 0x2000 \<Longrightarrow> r < ip_size i"
  by (auto simp: ip_size_def)

text \<open>The geometry processor.\<close>

lemma gp_reset_confined [block_intros]:
  assumes "i \<in> B"
  shows "confined w B (lima_gp_soft_reset_async i)" "confined w B (lima_gp_soft_reset_async_wait i)" "confined w B (lima_gp_hard_reset i)"
  by (auto simp: lima_gp_soft_reset_async_def lima_gp_soft_reset_async_wait_def lima_gp_hard_reset_def
      lima_gp_hard_reset_poll_def assms regs intro!: block_intros small_reg)

lemma gp_frame_reg: "n < 6 \<Longrightarrow> LIMA_GP_VSCL_START_ADDR + of_nat (n * 4) < (0x1000 :: u32)"
  by (simp add: regs word_less_nat_alt unat_of_nat unat_word_ariths)

lemma gp_ops_confined:
  "confined w {lima_ip_gp} (lima_gp_task_run t)" "confined w {lima_ip_gp} lima_gp_task_error"
  "confined w {lima_ip_gp} lima_gp_task_fini" "confined w {i} (lima_gp_irq_handler i)" "confined w {i} (lima_gp_init i)"
proof -
  have wired: "gp_processor d = lima_ip_gp" if "wired w d" for d using that by (simp add: wired_def)
  show "confined w {lima_ip_gp} (lima_gp_task_run t)"
    unfolding lima_gp_task_run_def
    by (rule confined_gets_bind) (auto simp: wired regs(1-2) LIMA_GP_FRAME_REG_NUM_def LIMA_GP_CMD_def intro!: block_intros small_reg gp_frame_reg [simplified])
  show "confined w {lima_ip_gp} lima_gp_task_error"
    unfolding lima_gp_task_error_def
    by (rule confined_gets_bind) (auto simp: wired regs intro!: block_intros small_reg)
  show "confined w {lima_ip_gp} lima_gp_task_fini"
    unfolding lima_gp_task_fini_def
    by (rule confined_gets_bind) (auto simp: wired intro!: block_intros)
  show "confined w {i} (lima_gp_irq_handler i)"
    by (auto simp: lima_gp_irq_handler_def regs intro!: block_intros small_reg)
  show "confined w {i} (lima_gp_init i)"
    by (auto simp: lima_gp_init_def lima_gp_print_version_def regs intro!: block_intros small_reg confined_same simp: within_def task_frame_def)
qed

text \<open>The small units and the MMUs.\<close>

lemma unit_ops_confined:
  "confined w {i} (lima_pmu_init i)" "confined w {i} (lima_l2_cache_init i)" "confined w {i} (lima_l2_cache_flush i)"
  "confined w {i} (lima_dlbu_init i)" "confined w {i} (lima_bcast_init i)"
  by (auto simp: lima_pmu_init_def lima_pmu_wait_cmd_def lima_l2_cache_init_def lima_l2_cache_flush_def lima_l2_cache_wait_idle_def
      lima_dlbu_init_def lima_bcast_init_def regs intro!: block_intros small_reg)

lemma mmu_ops_confined:
  "confined w {i} (lima_mmu_switch_vm i pd)" "confined w {i} (lima_mmu_init i)" "confined w {i} (lima_mmu_page_fault_resume i)"
  "confined w {i} (lima_mmu_irq_handler i)"
  by (auto simp: lima_mmu_switch_vm_def lima_mmu_send_command_def lima_mmu_init_def lima_mmu_page_fault_resume_def lima_mmu_irq_handler_def
      lima_sched_pipe_mmu_error_def lima_gp_task_mmu_error_def lima_pp_task_mmu_error_def pp_task_dec_done_def pp_task_dec_def regs
      intro!: block_intros small_reg split: lima_pipe_id.split)

text \<open>The pixel processors, with the units of the Mali-450 that serve all of them.\<close>

definition pp_units :: "wiring \<Rightarrow> lima_ip_id set" where
  "pp_units w = set (wr_pps w) \<union> (if wr_bcast w then {lima_ip_pp_bcast, lima_ip_dlbu, lima_ip_bcast} else {})"

lemma pp_dec_confined [block_intros]: "confined w B pp_task_dec_done"
  unfolding pp_task_dec_done_def pp_task_dec_def by (intro block_intros) simp_all

lemma pp_handle_confined [block_intros]:
  assumes "i \<in> B" and "i \<in> set lima_pps \<or> i = lima_ip_pp_bcast"
  shows "confined w B (lima_pp_handle_irq i stat)"
  by (auto simp: lima_pp_handle_irq_def regs intro!: block_intros assms(1) pp_reg [OF assms(2)])

text \<open>The registers of a pixel processor above the first page.\<close>

lemma pp_reset_confined [block_intros]:
  assumes "i \<in> B" and "i \<in> set lima_pps \<or> i = lima_ip_pp_bcast"
  shows "confined w B (lima_pp_soft_reset_async i)" "confined w B (lima_pp_soft_reset_async_wait_one i)" "confined w B (lima_pp_hard_reset i)"
    "confined w B (pp_error_one i)"
proof -
  show *: "confined w B (lima_pp_soft_reset_async i)" "confined w B (lima_pp_soft_reset_async_wait_one i)" "confined w B (lima_pp_hard_reset i)"
    by (auto simp: lima_pp_soft_reset_async_def lima_pp_soft_reset_async_wait_one_def lima_pp_soft_reset_poll_def lima_pp_hard_reset_def
        lima_pp_hard_reset_poll_def regs intro!: block_intros assms pp_reg [OF assms(2)])
  show "confined w B (pp_error_one i)"
    unfolding pp_error_one_def by (intro block_intros * assms(1) pp_reg [OF assms(2)]) (simp_all add: regs)
qed

lemma pp_wait_all_confined:
  assumes "set is \<subseteq> B" and "set is \<subseteq> set lima_pps \<union> {lima_ip_pp_bcast}"
  shows "confined w B (pp_wait_all is e)"
  using assms
proof (induction "is" arbitrary: e)
  case (Cons i "is")
  then have i: "i \<in> B" "i \<in> set lima_pps \<or> i = lima_ip_pp_bcast" by auto
  show ?case using Cons by (auto intro!: block_intros i)
qed (simp add: block_intros)

lemma wired_nth: "wired w d \<Longrightarrow> n < length (wr_pps w) \<Longrightarrow> pp_processor d n = wr_pps w ! n \<and> wr_pps w ! n \<in> set lima_pps"
  by (auto simp: wired_def pp_processor_def)

text \<open>Waiting for the reset of one processor, or through the broadcast unit for those of the current task.\<close>

lemma pp_wait_confined:
  assumes "i \<in> B" and "i \<in> set lima_pps \<or> i = lima_ip_pp_bcast \<and> set (wr_pps w) \<subseteq> B"
  shows "confined w B (lima_pp_soft_reset_async_wait i)"
proof -
  have run: "confined w B (do {
      ips \<leftarrow> gets (\<lambda>d. if i = lima_ip_pp_bcast
        then (case p_current_task (dev_pipe d lima_pipe_pp) of None \<Rightarrow> [] | Some t \<Rightarrow> map (pp_processor d) [0..<unat (m450_num_pp (m450 d t))])
        else [i]);
      err \<leftarrow> pp_wait_all ips 0;
      set_async_reset i False;
      returnM err })"
  proof (rule confined_gets_bind, intro block_intros pp_wait_all_confined)
    fix d assume d: "wired w d"
    let ?is = "if i = lima_ip_pp_bcast
        then (case p_current_task (dev_pipe d lima_pipe_pp) of None \<Rightarrow> [] | Some t \<Rightarrow> map (pp_processor d) [0..<unat (m450_num_pp (m450 d t))])
        else [i]"
    define ips where "ips = ?is"
    have n: "pp_processor d n \<in> set (wr_pps w)" if "p_current_task (dev_pipe d lima_pipe_pp) = Some t" "n < unat (m450_num_pp (m450 d t))" for t n
    proof -
      have "t \<in> wr_tasks w" using d that(1) by (simp add: wired_def)
      then have "n < length (wr_pps w)" using d that(2) by (fastforce simp: wired_def m450_frame_of_words_def)
      then show ?thesis using wired_nth [OF d] by simp
    qed
    have "set ips \<subseteq> (if i = lima_ip_pp_bcast then set (wr_pps w) else {i})"
      using n by (cases "p_current_task (dev_pipe d lima_pipe_pp)") (auto simp: ips_def)
    moreover have "set (wr_pps w) \<subseteq> set lima_pps" using d by (simp add: wired_def)
    moreover have "i \<in> set lima_pps \<Longrightarrow> i \<noteq> lima_ip_pp_bcast" by (auto simp: lima_pps_def)
    ultimately have "set ips \<subseteq> B" "set ips \<subseteq> set lima_pps \<union> {lima_ip_pp_bcast}"
      using assms by (auto split: if_splits)
    then show "set ?is \<subseteq> B" "set ?is \<subseteq> set lima_pps \<union> {lima_ip_pp_bcast}" by (simp_all add: ips_def)
  qed
  show ?thesis
    unfolding lima_pp_soft_reset_async_wait_def
    by (rule confined_bind [OF confined_gets], rule confined_ite [OF confined_return run])
qed

lemma pp_frame_regs: "n < 23 \<Longrightarrow> LIMA_PP_FRAME + of_nat (n * 4) < (0x2000 :: u32)"
  "i < 3 \<Longrightarrow> j < 12 \<Longrightarrow> LIMA_PP_WB (of_nat i) + of_nat (j * 4) < (0x2000 :: u32)"
proof -
  show "n < 23 \<Longrightarrow> LIMA_PP_FRAME + of_nat (n * 4) < (0x2000 :: u32)"
    by (simp add: regs word_less_nat_alt unat_of_nat unat_word_ariths)
  show "i < 3 \<Longrightarrow> j < 12 \<Longrightarrow> LIMA_PP_WB (of_nat i) + of_nat (j * 4) < (0x2000 :: u32)"
    by (simp add: regs word_less_nat_alt unat_of_nat unat_word_ariths)
qed

lemma pp_write_frame_confined [block_intros]:
  assumes "i \<in> B" and "i \<in> set lima_pps \<or> i = lima_ip_pp_bcast"
  shows "confined w B (lima_pp_write_frame i frame wb)"
proof -
  have n: "LIMA_PP_FRAME_REG_NUM = 23" "LIMA_PP_WB_REG_NUM = 12" by (simp_all add: regs)
  show ?thesis
    unfolding lima_pp_write_frame_def n
    by (intro block_intros) (auto intro!: block_intros assms(1) pp_reg [OF assms(2)] pp_frame_regs [simplified])
qed

lemma pp_run_one_confined:
  assumes "n < length (wr_pps w)"
  shows "confined w (pp_units w) (pp_run_one t n)"
  unfolding pp_run_one_def
proof (rule confined_gets_bind)
  fix d assume "wired w d"
  with assms have i: "pp_processor d n \<in> set lima_pps" "pp_processor d n \<in> set (wr_pps w)" using wired_nth nth_mem by metis+
  then have b: "pp_processor d n \<in> pp_units w" by (simp add: pp_units_def)
  note r = pp_reg [OF disjI1 [OF i(1)]]
  show "confined w (pp_units w) (do {
       f \<leftarrow> gets (\<lambda>d. m400 d t);
       frame_write t LIMA_PP_FRAME (m400_plbu_array_address f ! n);
       frame_write t LIMA_PP_STACK (m400_fragment_stack_address f ! n);
       _ \<leftarrow> lima_pp_soft_reset_async_wait (pp_processor d n);
       f \<leftarrow> gets (\<lambda>d. m400 d t);
       lima_pp_write_frame (pp_processor d n) (m400_frame f) (m400_wb f);
       ip_write (pp_processor d n) LIMA_PP_CTRL LIMA_PP_CTRL_START_RENDERING })"
    by (intro block_intros pp_wait_confined r) (use i b in \<open>simp_all add: regs\<close>)
qed

lemma pp_bcast_one_confined:
  assumes "n < length (wr_pps w)"
  shows "confined w (pp_units w) (pp_bcast_one f n)"
  unfolding pp_bcast_one_def
proof (rule confined_gets_bind)
  fix d assume "wired w d"
  with assms have i: "pp_processor d n \<in> set lima_pps" "pp_processor d n \<in> set (wr_pps w)" using wired_nth nth_mem by metis+
  then have b: "pp_processor d n \<in> pp_units w" by (simp add: pp_units_def)
  show "confined w (pp_units w) (do {
       ip_write (pp_processor d n) LIMA_PP_STACK (m450_fragment_stack_address f ! n);
       whenM (m450_use_dlbu f = 0) (ip_write (pp_processor d n) LIMA_PP_FRAME (m450_plbu_array_address f ! n)) })"
    by (intro block_intros b small_reg) (simp_all add: regs)
qed

lemma dlbu_confined [block_intros]:
  "lima_ip_dlbu \<in> B \<Longrightarrow> confined w B (lima_dlbu_enable n)" "lima_ip_dlbu \<in> B \<Longrightarrow> confined w B lima_dlbu_disable"
  "i \<in> B \<Longrightarrow> confined w B (lima_dlbu_set_reg i rs)" "lima_ip_bcast \<in> B \<Longrightarrow> confined w B (lima_bcast_enable n)"
  by (auto simp: lima_dlbu_enable_def lima_dlbu_disable_def lima_dlbu_set_reg_def lima_bcast_enable_def regs intro!: block_intros small_reg)

lemma set_task_confined [block_intros]: "confined w B (set_pp_task n)"
  unfolding set_pp_task_def by (intro block_intros) simp_all

text \<open>A validated task, in a device that is wired.\<close>

lemma pp_bcast_run_confined:
  assumes t: "t \<in> wr_tasks w" and ps: "wr_bcast w"
  shows "confined w (pp_units w) (do {
      f \<leftarrow> gets (\<lambda>d. m450 d t);
      modify (pipe_upd lima_pipe_pp (\<lambda>x. x\<lparr>p_done := 0\<rparr>));
      set_pp_task (m450_num_pp f);
      (if m450_use_dlbu f \<noteq> 0 then do {
         lima_dlbu_enable (unat (m450_num_pp f));
         frame_write t LIMA_PP_FRAME (ucast LIMA_VA_RESERVE_DLBU);
         lima_dlbu_set_reg lima_ip_dlbu (m450_dlbu_regs f)
       } else lima_dlbu_disable);
      lima_bcast_enable (unat (m450_num_pp f));
      _ \<leftarrow> lima_pp_soft_reset_async_wait lima_ip_pp_bcast;
      f \<leftarrow> gets (\<lambda>d. m450 d t);
      lima_pp_write_frame lima_ip_pp_bcast (m450_frame f) (m450_wb f);
      forM (pp_bcast_one f) [0..<unat (m450_num_pp f)];
      ip_write lima_ip_pp_bcast LIMA_PP_CTRL LIMA_PP_CTRL_START_RENDERING
    })"
proof -
  have B: "lima_ip_pp_bcast \<in> pp_units w" "lima_ip_dlbu \<in> pp_units w" "lima_ip_bcast \<in> pp_units w" "set (wr_pps w) \<subseteq> pp_units w"
    using ps by (auto simp: pp_units_def)
  have le: "unat (m450_num_pp (m450 d t)) \<le> length (wr_pps w)" if "wired w d" for d
    using that t by (simp add: wired_def m450_frame_of_words_def)
  have rest: "confined w (pp_units w) (do {
      f \<leftarrow> gets (\<lambda>d. m450 d t);
      lima_pp_write_frame lima_ip_pp_bcast (m450_frame f) (m450_wb f);
      forM (pp_bcast_one f) [0..<unat (m450_num_pp f)];
      ip_write lima_ip_pp_bcast LIMA_PP_CTRL LIMA_PP_CTRL_START_RENDERING })"
    by (rule confined_gets_bind, intro block_intros pp_bcast_one_confined B pp_reg)
      (use le in \<open>force simp: regs\<close>)+
  show ?thesis
    by (intro block_intros pp_wait_confined B rest) (simp_all add: regs B)
qed

lemma pp_task_run_confined:
  assumes t: "t \<in> wr_tasks w"
  shows "confined w (pp_units w) (lima_pp_task_run t)"
  unfolding lima_pp_task_run_def
proof (rule confined_gets_bind)
  fix d assume d: "wired w d"
  have one: "confined w (pp_units w) (do {
      f \<leftarrow> gets (\<lambda>d. m400 d t); set_pp_task (m400_num_pp f); forM (pp_run_one t) [0..<unat (m400_num_pp f)] })"
    by (rule confined_gets_bind, intro block_intros pp_run_one_confined)
      (use t in \<open>force simp: wired_def m400_frame_of_words_def\<close>)
  show "confined w (pp_units w) (case p_bcast_processor (dev_pipe d lima_pipe_pp) of
       Some ip \<Rightarrow> do {
         f \<leftarrow> gets (\<lambda>d. m450 d t);
         modify (pipe_upd lima_pipe_pp (\<lambda>x. x\<lparr>p_done := 0\<rparr>));
         set_pp_task (m450_num_pp f);
         (if m450_use_dlbu f \<noteq> 0 then do {
            lima_dlbu_enable (unat (m450_num_pp f));
            frame_write t LIMA_PP_FRAME (ucast LIMA_VA_RESERVE_DLBU);
            lima_dlbu_set_reg lima_ip_dlbu (m450_dlbu_regs f)
          } else lima_dlbu_disable);
         lima_bcast_enable (unat (m450_num_pp f));
         _ \<leftarrow> lima_pp_soft_reset_async_wait ip;
         f \<leftarrow> gets (\<lambda>d. m450 d t);
         lima_pp_write_frame ip (m450_frame f) (m450_wb f);
         forM (pp_bcast_one f) [0..<unat (m450_num_pp f)];
         ip_write ip LIMA_PP_CTRL LIMA_PP_CTRL_START_RENDERING
       }
     | None \<Rightarrow> do { f \<leftarrow> gets (\<lambda>d. m400 d t); set_pp_task (m400_num_pp f); forM (pp_run_one t) [0..<unat (m400_num_pp f)] })"
    using d one pp_bcast_run_confined [OF t] by (auto simp: wired_def)
qed

lemma pp_error_confined:
  "confined w (pp_units w) lima_pp_task_error" "confined w (pp_units w) lima_pp_task_fini"
proof -
  have i: "i \<in> set lima_pps" "i \<in> pp_units w" if "wired w d" "i \<in> set (p_processor (dev_pipe d lima_pipe_pp))" for d i
    using that by (auto simp: wired_def pp_units_def)
  show "confined w (pp_units w) lima_pp_task_error"
    unfolding lima_pp_task_error_def
    by (rule confined_gets_bind, intro block_intros) (use i in blast)+
  show "confined w (pp_units w) lima_pp_task_fini"
    unfolding lima_pp_task_fini_def
  proof (rule confined_gets_bind)
    fix d assume d: "wired w d"
    have one: "confined w (pp_units w) (do { ips \<leftarrow> gets (\<lambda>d. p_processor (dev_pipe d lima_pipe_pp)); forM lima_pp_soft_reset_async ips })"
      by (rule confined_gets_bind, intro block_intros) (use i in blast)+
    have all: "confined w (pp_units w) (lima_pp_soft_reset_async lima_ip_pp_bcast)" if "wr_bcast w"
      by (intro block_intros) (simp_all add: pp_units_def that)
    show "confined w (pp_units w) (case p_bcast_processor (dev_pipe d lima_pipe_pp) of
        Some ip \<Rightarrow> lima_pp_soft_reset_async ip
      | None \<Rightarrow> do { ips \<leftarrow> gets (\<lambda>d. p_processor (dev_pipe d lima_pipe_pp)); forM lima_pp_soft_reset_async ips })"
      using d one all by (auto simp: wired_def)
  qed
qed

lemma pp_irq_confined:
  assumes "i \<in> set lima_pps"
  shows "confined w {i} (lima_pp_irq_handler i)"
  unfolding lima_pp_irq_handler_def
  by (intro block_intros pp_reg [OF disjI1 [OF assms]]) (simp_all add: regs assms)

lemma pp_bcast_irq_confined: "confined w (set (wr_pps w)) lima_pp_bcast_irq_handler"
proof -
  have loop: "confined w (set (wr_pps w)) (pp_bcast_irq_loop ns r)" if "\<forall>n \<in> set ns. n < length (wr_pps w)" for ns r
    using that
  proof (induction ns arbitrary: r)
    case Nil
    then show ?case by (simp add: pp_bcast_irq_loop.simps block_intros)
  next
    case (Cons n ns)
    then have n: "n < length (wr_pps w)" and IH: "confined w (set (wr_pps w)) (pp_bcast_irq_loop ns r)" for r by simp_all
    have rest: "confined w (set (wr_pps w)) (do {
        ip \<leftarrow> gets (\<lambda>d. pp_processor d n);
        status \<leftarrow> ip_read ip LIMA_PP_STATUS;
        stat \<leftarrow> ip_read ip LIMA_PP_INT_STATUS;
        if stat = 0 \<and> status AND LIMA_PP_STATUS_RENDERING_ACTIVE \<noteq> 0 then pp_bcast_irq_loop ns r
        else do {
          whenM (stat \<noteq> 0) (lima_pp_handle_irq ip stat);
          modify (pipe_upd lima_pipe_pp (\<lambda>x. x\<lparr>p_done := p_done x OR BIT n\<rparr>));
          pp_task_dec_done;
          pp_bcast_irq_loop ns (if stat \<noteq> 0 then IRQ_HANDLED else r)
        } })" for r
    proof (rule confined_gets_bind)
      fix d assume "wired w d"
      then have i: "pp_processor d n = wr_pps w ! n" "wr_pps w ! n \<in> set lima_pps" using n wired_nth by metis+
      have b: "wr_pps w ! n \<in> set (wr_pps w)" using n by simp
      show "confined w (set (wr_pps w)) (do {
        status \<leftarrow> ip_read (pp_processor d n) LIMA_PP_STATUS;
        stat \<leftarrow> ip_read (pp_processor d n) LIMA_PP_INT_STATUS;
        if stat = 0 \<and> status AND LIMA_PP_STATUS_RENDERING_ACTIVE \<noteq> 0 then pp_bcast_irq_loop ns r
        else do {
          whenM (stat \<noteq> 0) (lima_pp_handle_irq (pp_processor d n) stat);
          modify (pipe_upd lima_pipe_pp (\<lambda>x. x\<lparr>p_done := p_done x OR BIT n\<rparr>));
          pp_task_dec_done;
          pp_bcast_irq_loop ns (if stat \<noteq> 0 then IRQ_HANDLED else r)
        } })"
        unfolding i(1) by (intro block_intros b pp_reg [OF disjI1 [OF i(2)]] IH) (simp_all add: regs i(2))
    qed
    show ?case
      unfolding pp_bcast_irq_loop.simps
      by (rule confined_bind [OF confined_gets], rule confined_ite [OF IH rest])
  qed
  show ?thesis
    unfolding lima_pp_bcast_irq_handler_def
  proof (rule confined_gets_bind)
    fix d assume d: "wired w d"
    have one: "confined w (set (wr_pps w)) (do {
        n \<leftarrow> gets (\<lambda>d. m450_num_pp (m450 d t)); r \<leftarrow> pp_bcast_irq_loop [0..<unat n] IRQ_NONE; returnM (Some r) })" if "t \<in> wr_tasks w" for t
    proof (rule confined_gets_bind)
      fix d assume "wired w d"
      then have "unat (m450_num_pp (m450 d t)) \<le> length (wr_pps w)" using that by (simp add: wired_def m450_frame_of_words_def)
      then show "confined w (set (wr_pps w)) (do { r \<leftarrow> pp_bcast_irq_loop [0..<unat (m450_num_pp (m450 d t))] IRQ_NONE; returnM (Some r) })"
        by (intro block_intros loop) auto
    qed
    show "confined w (set (wr_pps w)) (case p_current_task (dev_pipe d lima_pipe_pp) of None \<Rightarrow> returnM None
      | Some t \<Rightarrow> do { n \<leftarrow> gets (\<lambda>d. m450_num_pp (m450 d t)); r \<leftarrow> pp_bcast_irq_loop [0..<unat n] IRQ_NONE; returnM (Some r) })"
      using d one by (cases "p_current_task (dev_pipe d lima_pipe_pp)") (auto simp: wired_def block_intros)
  qed
qed

lemma pp_init_confined:
  assumes "i \<in> set lima_pps"
  shows "confined w {i} (lima_pp_init i)"
proof -
  have "i \<noteq> lima_ip_pp_bcast" using assms by (auto simp: lima_pps_def)
  then show ?thesis
    unfolding lima_pp_init_def lima_pp_print_version_def
    by (intro block_intros pp_reg [OF disjI1 [OF assms]] pp_wait_confined confined_same)
      (simp_all add: assms regs within_def task_frame_def)
qed

text \<open>The initialisation of a unit, whichever it is, accesses its own block only.\<close>

lemma init_confined: "confined w {i} (di_init (lima_ip_desc i) i)"
proof -
  have "confined w {i} (lima_pp_bcast_init i)" unfolding lima_pp_bcast_init_def by (intro block_intros)
  moreover have "i \<in> set lima_pps \<Longrightarrow> confined w {i} (lima_pp_init i)" by (rule pp_init_confined)
  ultimately show ?thesis
    by (cases i) (simp_all add: LIMA_IP_DESC_def lima_pps_def unit_ops_confined mmu_ops_confined gp_ops_confined)
qed


section \<open>The map of the registers\<close>

text \<open>The block of a unit, as offsets in the register window, and whether a GPU has it.\<close>

definition has_block :: "lima_gpu_id \<Rightarrow> lima_ip_id \<Rightarrow> bool" where
  "has_block g i \<longleftrightarrow> 0 \<le> di_offset (lima_ip_desc i) g"

definition block :: "lima_gpu_id \<Rightarrow> lima_ip_id \<Rightarrow> int set" where
  "block g i = {di_offset (lima_ip_desc i) g ..< di_offset (lima_ip_desc i) g + uint (ip_size i)}"

text \<open>The size of the window: the 64 KiB of \<open>reg\<close> in the device tree for a Mali-400, 192 KiB for a Mali-450.\<close>

definition window :: "lima_gpu_id \<Rightarrow> int" where
  "window g = (case g of lima_gpu_mali400 \<Rightarrow> 0x10000 | lima_gpu_mali450 \<Rightarrow> 0x30000)"

lemma block_in_window: "has_block g i \<Longrightarrow> block g i \<subseteq> {0 ..< window g}"
  by (cases g; cases i) (simp_all add: has_block_def block_def window_def LIMA_IP_DESC_def ip_size_def lima_pps_def)

lemma blocks_disjoint: "has_block g i \<Longrightarrow> has_block g j \<Longrightarrow> i \<noteq> j \<Longrightarrow> block g i \<inter> block g j = {}"
  by (cases g; cases i; cases j) (simp_all add: has_block_def block_def LIMA_IP_DESC_def ip_size_def lima_pps_def)

text \<open>A unit that the GPU has and that lies at its offset, as \<open>lima_init_ip\<close> puts it.\<close>

definition placed :: "lima_device \<Rightarrow> lima_ip_id \<Rightarrow> bool" where
  "placed d i \<longleftrightarrow> has_block (dev_id d) i \<and> ip_iomem (dev_ip d i) = dev_iomem d + word_of_int (di_offset (lima_ip_desc i) (dev_id d))"

lemma present_placed: "ips_ok d \<Longrightarrow> ip_present (dev_ip d i) \<Longrightarrow> placed d i"
  by (simp add: ips_ok_def placed_def has_block_def)

lemma within_placed: "within B d d' \<Longrightarrow> placed d' i = placed d i"
  by (simp add: within_def placed_def)

lemma reg_offset:
  assumes "placed d i" and "r < ip_size i"
  obtains n where "n \<in> block (dev_id d) i" and "0 \<le> n" and "n < window (dev_id d)" and "ip_reg d i r = dev_iomem d + word_of_int n"
proof
  let ?n = "di_offset (lima_ip_desc i) (dev_id d) + uint r"
  have b: "has_block (dev_id d) i" "ip_iomem (dev_ip d i) = dev_iomem d + word_of_int (di_offset (lima_ip_desc i) (dev_id d))"
    using assms(1) by (simp_all add: placed_def)
  show n: "?n \<in> block (dev_id d) i" using assms(2) by (simp add: block_def word_less_def)
  with block_in_window [OF b(1)] show "0 \<le> ?n" "?n < window (dev_id d)" by auto
  show "ip_reg d i r = dev_iomem d + word_of_int ?n" by (simp add: ip_reg_def b(2) wi_hom_syms ac_simps)
qed

lemma regs_apart:
  assumes i: "placed d i" "r < ip_size i" and j: "placed d j" "q < ip_size j" and ne: "i \<noteq> j"
  shows "ip_reg d i r \<noteq> ip_reg d j q"
proof
  assume eq: "ip_reg d i r = ip_reg d j q"
  from reg_offset [OF i] obtain m where m: "m \<in> block (dev_id d) i" "0 \<le> m" "m < window (dev_id d)" "ip_reg d i r = dev_iomem d + word_of_int m" .
  from reg_offset [OF j] obtain n where n: "n \<in> block (dev_id d) j" "0 \<le> n" "n < window (dev_id d)" "ip_reg d j q = dev_iomem d + word_of_int n" .
  have "window (dev_id d) \<le> 2 ^ 32" by (simp add: window_def split: lima_gpu_id.split)
  then have "m mod 2 ^ 32 = m" "n mod 2 ^ 32 = n" using m(2,3) n(2,3) by simp_all
  moreover have "(word_of_int m :: u32) = word_of_int n" using eq m(4) n(4) by simp
  then have "m mod 2 ^ 32 = n mod 2 ^ 32" by (simp add: word_of_int_eq_iff take_bit_eq_mod)
  ultimately have "m = n" by simp
  moreover have "has_block (dev_id d) i" "has_block (dev_id d) j" using i(1) j(1) by (simp_all add: placed_def)
  ultimately show False using blocks_disjoint ne m(1) n(1) by blast
qed

section \<open>The units of a device\<close>

text \<open>
  A device after its bring-up: wired, every present unit at its offset, and the units of the
  pipes present, each with MMUs. \<open>dev_up\<close> says that much of the bring-up.
\<close>

definition mmus :: "lima_ip_id set" where
  "mmus = {lima_ip_gpmmu} \<union> set lima_ppmmus"

definition fitted :: "wiring \<Rightarrow> lima_device \<Rightarrow> bool" where
  "fitted w d \<longleftrightarrow> wired w d \<and> ips_ok d \<and> ip_present (dev_ip d lima_ip_gp) \<and> (\<forall>i \<in> pp_units w. ip_present (dev_ip d i)) \<and>
     (\<forall>p. \<forall>m \<in> set (p_mmu (dev_pipe d p)). m \<in> mmus \<and> ip_present (dev_ip d m))"

lemma within_fitted: "within B d d' \<Longrightarrow> fitted w d \<Longrightarrow> fitted w d'"
  using within_wired [of B d d' w] by (simp add: fitted_def within_def ips_ok_def)

lemma brought_up_fitted:
  assumes up: "dev_up d"
  shows "fitted \<lparr>wr_pps = p_processor (dev_pipe d lima_pipe_pp), wr_bcast = ip_present (dev_ip d lima_ip_bcast), wr_tasks = {}\<rparr> d"
proof -
  have must: "ip_present (dev_ip d i)" if "di_must_have (lima_ip_desc i) (dev_id d)" for i
    using up that by (simp add: dev_up_def)
  have pp: "p_processor (dev_pipe d lima_pipe_pp) = map ((!) lima_pps) (filter (pp_usable d) [0..<8])"
    "p_bcast_processor (dev_pipe d lima_pipe_pp) = (if ip_present (dev_ip d lima_ip_bcast) then Some lima_ip_pp_bcast else None)"
    "p_current_task (dev_pipe d lima_pipe_pp) = None"
    using up by (simp_all add: dev_up_def pp_pipe_up_def Let_def)
  have gp: "gp_processor d = lima_ip_gp" using up by (simp add: dev_up_def gp_pipe_up_def gp_processor_def Let_def)
  have "ip_present (dev_ip d lima_ip_gp)" by (rule must) (cases "dev_id d"; simp add: LIMA_IP_DESC_def)
  moreover have "ip_present (dev_ip d i)" if b: "ip_present (dev_ip d lima_ip_bcast)" and i: "i \<in> {lima_ip_pp_bcast, lima_ip_dlbu, lima_ip_bcast}" for i
  proof (rule must)
    have "0 \<le> di_offset (lima_ip_desc lima_ip_bcast) (dev_id d)" using up b by (auto simp: dev_up_def ips_ok_def)
    then show "di_must_have (lima_ip_desc i) (dev_id d)" using i by (cases "dev_id d") (auto simp: LIMA_IP_DESC_def)
  qed
  moreover have "lima_pps ! n \<in> set lima_pps" if "n < 8" for n
    using nth_mem [of n lima_pps] that by (simp add: lima_pps_def)
  moreover have "m \<in> mmus \<and> ip_present (dev_ip d m)" if m: "m \<in> set (p_mmu (dev_pipe d p))" for p m
  proof (cases p)
    case lima_pipe_gp
    have "ip_present (dev_ip d lima_ip_gpmmu)" by (rule must) (cases "dev_id d"; simp add: LIMA_IP_DESC_def)
    with m lima_pipe_gp up show ?thesis by (simp add: dev_up_def gp_pipe_up_def Let_def mmus_def)
  next
    case lima_pipe_pp
    have "lima_ppmmus ! n \<in> set lima_ppmmus" if "n < 8" for n
      using nth_mem [of n lima_ppmmus] that by (simp add: lima_ppmmus_def)
    with m lima_pipe_pp up show ?thesis by (auto simp: dev_up_def pp_pipe_up_def Let_def mmus_def pp_usable_def)
  qed
  ultimately show ?thesis
    using up pp gp by (auto simp: fitted_def wired_def pp_units_def dev_up_def pp_usable_def)
qed

text \<open>The operations on units, and the units that each of them is for.\<close>

datatype unit_op = Setup lima_ip_id | Start lima_pipe_id nat | Reset lima_pipe_id
  | Switch_vm lima_ip_id "u32 option" | Resume lima_ip_id | Flush lima_ip_id | Irq lima_ip_id

fun op_hw :: "unit_op \<Rightarrow> unit hw" where
  "op_hw (Setup i) = do { _ \<leftarrow> di_init (lima_ip_desc i) i; returnM () }"
| "op_hw (Start p t) = pipe_task_run p t"
| "op_hw (Reset p) = pipe_task_error p"
| "op_hw (Switch_vm i pd) = lima_mmu_switch_vm i pd"
| "op_hw (Resume i) = lima_mmu_page_fault_resume i"
| "op_hw (Flush i) = do { _ \<leftarrow> lima_l2_cache_flush i; returnM () }"
| "op_hw (Irq i) = (if i = lima_ip_gp then do { _ \<leftarrow> lima_gp_irq_handler i; returnM () }
     else if i \<in> set lima_pps then do { _ \<leftarrow> lima_pp_irq_handler i; returnM () }
     else if i = lima_ip_pp_bcast then do { _ \<leftarrow> lima_pp_bcast_irq_handler; returnM () }
     else do { _ \<leftarrow> lima_mmu_irq_handler i; returnM () })"

fun op_units :: "wiring \<Rightarrow> unit_op \<Rightarrow> lima_ip_id set" where
  "op_units w (Setup i) = {i}"
| "op_units w (Start p t) = (case p of lima_pipe_gp \<Rightarrow> {lima_ip_gp} | lima_pipe_pp \<Rightarrow> pp_units w)"
| "op_units w (Reset p) = (case p of lima_pipe_gp \<Rightarrow> {lima_ip_gp} | lima_pipe_pp \<Rightarrow> pp_units w)"
| "op_units w (Switch_vm i pd) = {i}"
| "op_units w (Resume i) = {i}"
| "op_units w (Flush i) = {i}"
| "op_units w (Irq i) = (if i = lima_ip_pp_bcast then set (wr_pps w) else {i})"

text \<open>A task is started when it has been validated; an operation on one unit is on one that is placed.\<close>

fun op_ready :: "wiring \<Rightarrow> lima_device \<Rightarrow> unit_op \<Rightarrow> bool" where
  "op_ready w d (Start p t) \<longleftrightarrow> p = lima_pipe_pp \<longrightarrow> t \<in> wr_tasks w"
| "op_ready w d (Reset p) \<longleftrightarrow> True"
| "op_ready w d (Irq i) \<longleftrightarrow> i \<noteq> lima_ip_pp_bcast \<longrightarrow> placed d i"
| "op_ready w d (Setup i) \<longleftrightarrow> placed d i"
| "op_ready w d (Switch_vm i pd) \<longleftrightarrow> placed d i"
| "op_ready w d (Resume i) \<longleftrightarrow> placed d i"
| "op_ready w d (Flush i) \<longleftrightarrow> placed d i"

lemma op_units_placed:
  assumes "fitted w d" and "op_ready w d op" and "i \<in> op_units w op"
  shows "placed d i"
proof -
  have "placed d k" if "k = lima_ip_gp \<or> k \<in> pp_units w" for k
    using assms(1) that by (auto simp: fitted_def intro: present_placed)
  then show ?thesis using assms(2,3) by (cases op) (auto simp: pp_units_def split: lima_pipe_id.splits if_splits)
qed

lemma op_confined:
  assumes "op_ready w d op"
  shows "confined w (op_units w op) (op_hw op)"
proof (cases op)
  case (Setup i)
  then show ?thesis using init_confined by (auto intro!: block_intros)
next
  case (Start p t)
  then show ?thesis using assms by (cases p) (simp_all add: pipe_task_run_def gp_ops_confined pp_task_run_confined)
next
  case (Reset p)
  then show ?thesis by (cases p) (simp_all add: pipe_task_error_def gp_ops_confined pp_error_confined)
next
  case (Irq i)
  have "lima_ip_gp \<noteq> lima_ip_pp_bcast" "lima_ip_pp_bcast \<notin> set lima_pps" by (simp_all add: lima_pps_def)
  then show ?thesis
    unfolding Irq using gp_ops_confined(4) pp_irq_confined pp_bcast_irq_confined mmu_ops_confined(4) by (auto intro!: block_intros)
qed (auto simp: mmu_ops_confined unit_ops_confined intro!: block_intros)

text \<open>No access of the operation is to a register of the unit.\<close>

definition untouched :: "lima_ip_id \<Rightarrow> lima_device \<Rightarrow> lima_device \<Rightarrow> bool" where
  "untouched j d d' \<longleftrightarrow> (\<exists>es. bus_trace d' = es @ bus_trace d \<and> (\<forall>e \<in> set es. \<forall>q < ip_size j. io_addr e \<noteq> ip_reg d j q))"

lemma within_untouched:
  assumes d: "\<forall>i \<in> B. placed d i" "placed d j" and j: "j \<notin> B" and run: "within B d d'"
  shows "untouched j d d'"
proof -
  from run obtain es where es: "bus_trace d' = es @ bus_trace d" "\<forall>e \<in> set es. \<exists>i \<in> B. \<exists>r < ip_size i. io_addr e = ip_reg d i r"
    unfolding within_def by blast
  have "io_addr e \<noteq> ip_reg d j q" if "e \<in> set es" "q < ip_size j" for e q
    using es(2) that d j regs_apart [where d = d and j = j] by metis
  with es(1) show ?thesis unfolding untouched_def by blast
qed



end
