(* ===== verification/Lima_Fault.thy ===== *)
theory Lima_Fault
  imports Lima_Isolation Lima_Order
begin

text \<open>
  After a page fault. The interrupt handler masks the interrupts of an MMU; only its
  initialisation and \<open>lima_mmu_page_fault_resume\<close> unmask them again, and the scheduler calls
  neither.
\<close>

section \<open>Writes to an interrupt mask\<close>

text \<open>From \<open>d\<close> to \<open>d'\<close> the register at \<open>a\<close> is written with 0 only, or not at all.\<close>

definition only_zero :: "u32 \<Rightarrow> lima_device \<Rightarrow> lima_device \<Rightarrow> bool" where
  "only_zero a d d' \<longleftrightarrow> (\<exists>ws. bus_writes d' = bus_writes d @ ws \<and> (\<forall>v. (a, v) \<in> set ws \<longrightarrow> v = 0))"

lemma only_zero_refl [simp]: "only_zero a d d"
  by (simp add: only_zero_def)

lemma only_zero_trans: "only_zero a b c \<Longrightarrow> only_zero a c d \<Longrightarrow> only_zero a b d"
  unfolding only_zero_def by fastforce

lemma only_zero_same: "bus_trace d' = bus_trace d \<Longrightarrow> only_zero a d d'"
  by (simp add: only_zero_def)

lemma writes_set: "(a, v) \<in> set (writes es) \<longleftrightarrow> Wr a v \<in> set es"
  by (induction es rule: writes.induct) auto

lemma only_zero_untouched:
  assumes "untouched m d d'" and "r < ip_size m"
  shows "only_zero (ip_reg d m r) d d'"
proof -
  from assms(1) obtain es where es: "bus_trace d' = es @ bus_trace d" "\<forall>e \<in> set es. \<forall>q < ip_size m. io_addr e \<noteq> ip_reg d m q"
    unfolding untouched_def by blast
  have "(ip_reg d m r, v) \<notin> set (writes es)" for v
    using es(2) assms(2) by (force simp: writes_set)
  then show ?thesis using es(1) by (auto simp: only_zero_def writes_append)
qed

abbreviation mask_of :: "lima_device \<Rightarrow> lima_ip_id \<Rightarrow> u32" where
  "mask_of d m \<equiv> ip_reg d m LIMA_MMU_INT_MASK"

lemma mask_lt: "LIMA_MMU_INT_MASK < ip_size m"
  by (rule small_reg) (simp add: regs)

lemma switch_only_zero: "only_zero (mask_of d m) d (exec (lima_mmu_switch_vm m pd) d)"
  by (auto simp: only_zero_def switch_writes mmu_switch_writes_def ip_reg_def regs split: option.splits)

lemma irq_only_zero: "only_zero (mask_of d m) d (exec (lima_mmu_irq_handler m) d)"
  by (auto simp: only_zero_def lima_mmu_irq_handler_def hw_simps lima_sched_pipe_mmu_error_def set_pipe_error_def
      lima_gp_task_mmu_error_def lima_pp_task_mmu_error_def pp_task_dec_done_def pp_task_dec_def
      lima_sched_pipe_task_done_def ip_reg_def regs)

text \<open>What the driver does after its initialisation; it neither recovers an MMU nor flushes a cache.\<close>

fun op_running :: "unit_op \<Rightarrow> bool" where
  "op_running (Start p t) \<longleftrightarrow> True"
| "op_running (Reset p) \<longleftrightarrow> True"
| "op_running (Switch_vm i pd) \<longleftrightarrow> True"
| "op_running (Irq i) \<longleftrightarrow> True"
| "op_running (Setup i) \<longleftrightarrow> False"
| "op_running (Resume i) \<longleftrightarrow> False"
| "op_running (Flush i) \<longleftrightarrow> False"

lemma mmus_apart: "fitted w d \<Longrightarrow> m \<in> mmus \<Longrightarrow> m \<noteq> lima_ip_gp \<and> m \<noteq> lima_ip_pp_bcast \<and> m \<notin> set lima_pps \<and> m \<notin> pp_units w"
  by (auto simp: mmus_def lima_ppmmus_def lima_pps_def pp_units_def fitted_def wired_def)

text \<open>From \<open>d\<close> to \<open>d'\<close> the MMU \<open>m\<close> is not unmasked, and the device stays as its bring-up left it.\<close>

definition stays_masked :: "wiring \<Rightarrow> lima_ip_id \<Rightarrow> lima_device \<Rightarrow> lima_device \<Rightarrow> bool" where
  "stays_masked w m d d' \<longleftrightarrow> only_zero (mask_of d m) d d' \<and> (fitted w d \<longrightarrow> fitted w d') \<and> ip_reg d' = ip_reg d \<and>
     (\<forall>i. placed d' i = placed d i) \<and> (\<forall>p. p_mmu (dev_pipe d' p) = p_mmu (dev_pipe d p))"

lemma stays_trans: "stays_masked w m a b \<Longrightarrow> stays_masked w m b c \<Longrightarrow> stays_masked w m a c"
  unfolding stays_masked_def by (metis only_zero_trans)

lemma stays_within:
  assumes "within B d d'" and "only_zero (mask_of d m) d d'"
  shows "stays_masked w m d d'"
  using assms within_fitted [OF assms(1)] within_reg [OF assms(1)] within_placed [OF assms(1)]
  by (auto simp: stays_masked_def within_def)

lemma stays_pipe:
  assumes "\<And>x. p_processor (f x) = p_processor x" "\<And>x. p_bcast_processor (f x) = p_bcast_processor x"
    "\<And>x. p_current_task (f x) = p_current_task x" "\<And>x. p_mmu (f x) = p_mmu x"
    "\<And>x. p_bcast_mmu (f x) = p_bcast_mmu x"
  shows "stays_masked w m d (pipe_upd p f d)"
proof (rule stays_within)
  show "within {} d (pipe_upd p f d)" by (simp add: within_def task_frame_def assms)
qed (simp add: only_zero_same)

lemma op_stays:
  assumes up: "fitted w d" and op: "op_ready w d op" "op_running op" and m: "m \<in> mmus" "placed d m"
  shows "stays_masked w m d (exec (op_hw op) d)"
proof -
  have w: "wired w d" using up by (simp add: fitted_def)
  have run: "within (op_units w op) d (exec (op_hw op) d)" by (rule confinedD [OF op_confined [OF op(1)] w])
  have "only_zero (mask_of d m) d (exec (op_hw op) d)"
  proof (cases "m \<in> op_units w op")
    case False
    have "untouched m d (exec (op_hw op) d)"
      by (rule within_untouched [OF _ m(2) False run]) (use op_units_placed [OF up op(1)] in blast)
    then show ?thesis using mask_lt by (rule only_zero_untouched)
  next
    case True
    then consider pd where "op = Switch_vm m pd" | "op = Irq m"
      using op mmus_apart [OF up m(1)] m(1) by (cases op) (auto simp: pp_units_def split: lima_pipe_id.splits if_splits)
    then show ?thesis
      using switch_only_zero irq_only_zero [of d m] mmus_apart [OF up m(1)] by cases simp_all
  qed
  with run show ?thesis by (rule stays_within)
qed

section \<open>The scheduler\<close>

lemma switch_stays:
  assumes up: "fitted w (cs_dev s)" and m: "m \<in> mmus" "placed (cs_dev s) m" and run: "run_switch_vm p vm s = Some s'"
  shows "stays_masked w m (cs_dev s) (cs_dev s')"
proof (cases "p_current_vm (pipe_of p s) = Some vm")
  case True
  then show ?thesis using run by (simp add: run_switch_vm_def stays_masked_def)
next
  case False
  with run obtain b where b: "each (\<lambda>i s. do { v \<leftarrow> vs_vms s vm; Some (on_dev (lima_mmu_switch_vm i (Some (vm_pd_dma v))) s) })
      (p_mmu (pipe_of p s)) s = Some b" and s': "s' = on_pipe p (\<lambda>y. y\<lparr>p_current_vm := Some vm\<rparr>) b"
    by (auto simp: run_switch_vm_def bind_eq_Some_conv)
  have "stays_masked w m (cs_dev s) (cs_dev b)"
    using b
  proof (rule each_preserves [where P = "\<lambda>a. stays_masked w m (cs_dev s) (cs_dev a)", rotated 2])
    fix i a a' assume i: "i \<in> set (p_mmu (pipe_of p s))" and a: "stays_masked w m (cs_dev s) (cs_dev a)"
      and "do { v \<leftarrow> vs_vms a vm; Some (on_dev (lima_mmu_switch_vm i (Some (vm_pd_dma v))) a) } = Some a'"
    then obtain pd where a': "a' = on_dev (op_hw (Switch_vm i (Some pd))) a" by (auto simp: bind_eq_Some_conv)
    have upa: "fitted w (cs_dev a)" and pm: "placed (cs_dev a) m" and "i \<in> set (p_mmu (pipe_of p a))"
      using a up m(2) i by (simp_all add: stays_masked_def)
    then have "placed (cs_dev a) i" by (auto simp: fitted_def intro: present_placed)
    then have "stays_masked w m (cs_dev a) (cs_dev a')"
      unfolding a' on_dev_def using op_stays [OF upa _ _ m(1) pm, of "Switch_vm i (Some pd)"] by simp
    with a show "stays_masked w m (cs_dev s) (cs_dev a')" by (rule stays_trans)
  qed (simp add: stays_masked_def)
  then show ?thesis
    unfolding s' by (rule stays_trans) (simp add: on_pipe_def stays_pipe)
qed

lemma start_stays:
  assumes up: "fitted w (cs_dev s)" and m: "m \<in> mmus" "placed (cs_dev s) m" and t: "p = lima_pipe_pp \<longrightarrow> t \<in> wr_tasks w"
    and run: "run_go Z p t err s = Some (False, s')"
  shows "stays_masked w m (cs_dev s) (cs_dev s')"
proof -
  from run obtain vm a b where a: "run_switch_vm p vm s = Some a"
    and b: "b = a \<or> b = on_pipe p (\<lambda>y. y\<lparr>p_timeout_pending := True\<rparr>) a" and s': "s' = on_dev (op_hw (Start p t)) b"
    by (auto simp: run_go_def Let_def bind_eq_Some_conv split: if_splits)
  have "stays_masked w m (cs_dev a) (cs_dev b)"
    using b stays_pipe [of "\<lambda>y. y\<lparr>p_timeout_pending := True\<rparr>" w m "cs_dev a" p] by (auto simp: on_pipe_def stays_masked_def)
  with switch_stays [OF up m a] have sb: "stays_masked w m (cs_dev s) (cs_dev b)" by (rule stays_trans)
  then have "fitted w (cs_dev b)" "placed (cs_dev b) m" using up m(2) by (simp_all add: stays_masked_def)
  from op_stays [OF this(1) _ _ m(1) this(2), of "Start p t"] t have "stays_masked w m (cs_dev b) (cs_dev s')"
    by (simp add: s' on_dev_def)
  with sb show ?thesis by (rule stays_trans)
qed

text \<open>The end of a task, with the reset of the pipe after an error.\<close>

lemma fitted_less:
  assumes up: "fitted w d" and cur: "\<forall>u. p_current_task (dev_pipe d lima_pipe_pp) = Some u \<longrightarrow> u \<noteq> t \<or> p = lima_pipe_pp"
  shows "fitted (w\<lparr>wr_tasks := wr_tasks w - {t}\<rparr>)
    (pipe_upd p (\<lambda>y. y\<lparr>p_current_task := None\<rparr>) (d\<lparr>dev_tasks := (dev_tasks d)(t := None)\<rparr>))"
  using up cur by (cases p) (auto simp: fitted_def wired_def ips_ok_def pp_units_def task_frame_def gp_processor_def)

lemma current_pipe:
  assumes "pending_ok s" and "p_current_task (pipe_of q s) = Some u"
  shows "\<exists>x. task_of s u = Some x \<and> t_pipe x = q"
  using pending_okD(2) [OF assms(1), of u q] assms(2) by (auto simp: pending_def)

lemma done_stays:
  assumes inv: "sched_inv c" and up: "fitted w (cs_dev (sc_st c))" and m: "m \<in> mmus" "placed (cs_dev (sc_st c)) m"
    and run: "lima_sched_done_work Z p (sc_st c) = Some s'"
  shows "only_zero (mask_of (cs_dev (sc_st c)) m) (cs_dev (sc_st c)) (cs_dev s') \<and> mask_of (cs_dev s') m = mask_of (cs_dev (sc_st c)) m"
proof (cases "p_current_task (pipe_of p (sc_st c))")
  case None
  with run show ?thesis by (simp add: lima_sched_done_work_def)
next
  case (Some t)
  let ?s = "sc_st c" and ?err = "p_error (pipe_of p (sc_st c))"
  from run Some obtain a where a: "lima_sched_finish_task Z t ?err ?s = Some a"
    and s': "s' = on_pipe p (\<lambda>y. y\<lparr>p_run_pending := True\<rparr>) (if ?err then on_pipe p (\<lambda>y. y\<lparr>p_error := False\<rparr>)
      (on_dev (pipe_task_error p) (on_pipe p (\<lambda>y. y\<lparr>p_current_task := None\<rparr>) a))
      else on_pipe p (\<lambda>y. y\<lparr>p_current_task := None\<rparr>) a)"
    by (auto simp: lima_sched_done_work_def Let_def bind_eq_Some_conv)
  let ?w = "w\<lparr>wr_tasks := wr_tasks w - {t}\<rparr>"
  let ?d = "pipe_upd p (\<lambda>y. y\<lparr>p_current_task := None\<rparr>) ((cs_dev ?s)\<lparr>dev_tasks := (task_of ?s)(t := None)\<rparr>)"
  have d: "cs_dev (on_pipe p (\<lambda>y. y\<lparr>p_current_task := None\<rparr>) a) = ?d"
    using finish_dev [OF inv Some a] by (simp add: on_pipe_def)
  have ok: "pending_ok ?s" using inv by (simp add: sched_inv_def)
  have own: "\<exists>x. task_of ?s u = Some x \<and> t_pipe x = q" if "p_current_task (pipe_of q ?s) = Some u" for u q
    by (rule current_pipe [OF ok that])
  have "fitted ?w ?d"
  proof (rule fitted_less [OF up], intro allI impI)
    fix u assume "p_current_task (pipe_of lima_pipe_pp ?s) = Some u"
    with own [OF this] own [OF Some] show "u \<noteq> t \<or> p = lima_pipe_pp" by auto
  qed
  moreover have pm: "placed ?d m" using m(2) by (simp add: placed_def)
  ultimately have "stays_masked ?w m ?d (exec (pipe_task_error p) ?d)"
    using op_stays [of ?w ?d "Reset p" m] m(1) by simp
  then have "only_zero (mask_of ?d m) ?d (cs_dev s') \<and> mask_of (cs_dev s') m = mask_of ?d m"
    by (auto simp: s' stays_masked_def on_pipe_def on_dev_def d [unfolded on_pipe_def, simplified] only_zero_def)
  moreover have "mask_of ?d m = mask_of (cs_dev ?s) m" by (simp add: ip_reg_def)
  ultimately show ?thesis by (simp add: only_zero_def)
qed

section \<open>A masked MMU\<close>

text \<open>The last value that the driver wrote to an address; that to the interrupt mask of \<open>m\<close> is 0.\<close>

definition last_write :: "lima_device \<Rightarrow> u32 \<Rightarrow> u32 option" where
  "last_write d = map_of (rev (bus_writes d))"

definition masked :: "lima_device \<Rightarrow> lima_ip_id \<Rightarrow> bool" where
  "masked d m \<longleftrightarrow> last_write d (mask_of d m) = Some 0"

lemma masked_only_zero:
  assumes "masked d m" and "only_zero (mask_of d m) d d'" and "mask_of d' m = mask_of d m"
  shows "masked d' m"
proof -
  from assms(2) obtain ws where ws: "bus_writes d' = bus_writes d @ ws" "\<forall>v. (mask_of d m, v) \<in> set ws \<longrightarrow> v = 0"
    unfolding only_zero_def by blast
  show ?thesis
  proof (cases "map_of (rev ws) (mask_of d m)")
    case None
    then show ?thesis using assms ws(1) by (simp add: masked_def last_write_def map_add_def)
  next
    case (Some v)
    then have "(mask_of d m, v) \<in> set ws" by (auto dest: map_of_SomeD)
    then show ?thesis using assms(3) ws Some by (simp add: masked_def last_write_def map_add_def)
  qed
qed

lemma masked_stays: "stays_masked w m d d' \<Longrightarrow> masked d m \<Longrightarrow> masked d' m"
  by (rule masked_only_zero) (simp_all add: stays_masked_def)

lemma fault_masks: "peek d m LIMA_MMU_INT_STATUS \<noteq> 0 \<Longrightarrow> masked (exec (lima_mmu_irq_handler m) d) m"
  by (auto simp: masked_def last_write_def lima_mmu_irq_handler_def hw_simps lima_sched_pipe_mmu_error_def set_pipe_error_def
      lima_gp_task_mmu_error_def lima_pp_task_mmu_error_def pp_task_dec_done_def pp_task_dec_def
      lima_sched_pipe_task_done_def ip_reg_def regs)

text \<open>
  C4. A page fault masks its MMU for good. The interrupt handler of an MMU with a fault pending
  leaves the interrupts of that MMU masked, and in whatever reachable state of the scheduler an
  MMU is masked, it still is after everything that may come: the start of a task with its switch
  of the address space, the completion work with the reset after an error, every interrupt of
  any unit. Only \<open>lima_mmu_init\<close> and \<open>lima_mmu_page_fault_resume\<close> unmask it, and nothing in
  the driver calls the latter: the next page fault of the MMU raises no interrupt, so its task
  ends by the timeout or not at all.
\<close>

theorem page_fault_masks_for_good:
  assumes "sched_idle s" and "(sched_step Z)\<^sup>*\<^sup>* (sched_start s) c" and "fitted w (cs_dev (sc_st c))"
    and "m \<in> mmus" and "placed (cs_dev (sc_st c)) m"
  shows "(peek (cs_dev (sc_st c)) m LIMA_MMU_INT_STATUS \<noteq> 0 \<longrightarrow> masked (exec (lima_mmu_irq_handler m) (cs_dev (sc_st c))) m) \<and>
    (masked (cs_dev (sc_st c)) m \<longrightarrow>
      (\<forall>op. op_ready w (cs_dev (sc_st c)) op \<and> op_running op \<longrightarrow> masked (exec (op_hw op) (cs_dev (sc_st c))) m) \<and>
      (\<forall>p t err rejected s'. sc_waiting c p = Some t \<and> run_go Z p t err (sc_st c) = Some (rejected, s') \<longrightarrow> masked (cs_dev s') m) \<and>
      (\<forall>p s'. lima_sched_done_work Z p (sc_st c) = Some s' \<longrightarrow> masked (cs_dev s') m))"
proof (intro conjI impI allI)
  let ?d = "cs_dev (sc_st c)"
  note up = assms(3) and m = assms(4,5)
  have inv: "sched_inv c" by (rule reachable_inv [OF assms(2,1)])
  show "masked (exec (lima_mmu_irq_handler m) ?d) m" if "peek ?d m LIMA_MMU_INT_STATUS \<noteq> 0" using that by (rule fault_masks)
  assume masked: "masked ?d m"
  show "masked (exec (op_hw op) ?d) m" if "op_ready w ?d op \<and> op_running op" for op
    using op_stays [OF up _ _ m] that masked by (blast intro: masked_stays)
  show "masked (cs_dev s') m" if "lima_sched_done_work Z p (sc_st c) = Some s'" for p s'
    using done_stays [OF inv up m that] masked by (blast intro: masked_only_zero)
  fix p t err rejected s'
  assume a: "sc_waiting c p = Some t \<and> run_go Z p t err (sc_st c) = Some (rejected, s')"
  then have cur: "p_current_task (pipe_of p (sc_st c)) = Some t" using inv by (auto simp: sched_inv_def order_ok_def)
  show "masked (cs_dev s') m"
  proof (cases rejected)
    case True
    with a obtain u where u: "lima_sched_finish_task Z t True (sc_st c) = Some u" "s' = on_pipe p (\<lambda>y. y\<lparr>p_current_task := None\<rparr>) u"
      by (auto simp: run_go_def Let_def bind_eq_Some_conv split: if_splits)
    then have "cs_dev s' = pipe_upd p (\<lambda>y. y\<lparr>p_current_task := None\<rparr>) (?d\<lparr>dev_tasks := (task_of (sc_st c))(t := None)\<rparr>)"
      using finish_dev [OF inv cur u(1)] by (simp add: on_pipe_def)
    then show ?thesis using masked by (simp add: masked_def last_write_def ip_reg_def)
  next
    case False
    have t: "p = lima_pipe_pp \<longrightarrow> t \<in> wr_tasks w" using cur up by (auto simp: fitted_def wired_def)
    have "run_go Z p t err (sc_st c) = Some (False, s')" using a False by simp
    then show ?thesis by (rule masked_stays [OF start_stays [OF up m t] masked])
  qed
qed

text \<open>
  The device of the bring-up example, in a driver without tasks, on a bus that reads 1
  everywhere from then on: the fault of the geometry MMU masks it, and after the reset of its pipe
  it is still masked.
\<close>

lemma fitted_bus: "fitted w (d\<lparr>bus_resp := f\<rparr>) = fitted w d"
  by (simp add: fitted_def wired_def ips_ok_def task_frame_def gp_processor_def)

theorem page_fault_masks_for_good_witness:
  "\<exists>s'. lima_device_init sprd_gpu_domain_state boot_board boot_demo = Some (0, s') \<and>
     (let d = exec (lima_mmu_irq_handler lima_ip_gpmmu) ((cs_dev s')\<lparr>bus_resp := \<lambda>_ _. 1\<rparr>)
      in masked d lima_ip_gpmmu \<and> masked (exec (pipe_task_error lima_pipe_gp) d) lima_ip_gpmmu)"
proof -
  from boot_demo_runs obtain s' where run: "lima_device_init sprd_gpu_domain_state boot_board boot_demo = Some (0, s')" by blast
  then have up: "dev_up (cs_dev s')" by (rule device_init_cases [OF boot_demo_fresh boot_board_ok]) simp_all
  define d0 where "d0 = (cs_dev s')\<lparr>bus_resp := \<lambda>_ _. 1\<rparr>"
  define d where "d = exec (lima_mmu_irq_handler lima_ip_gpmmu) d0"
  define s :: ctx_st where "s = idle_demo\<lparr>cs_dev := d0\<rparr>"
  let ?m = lima_ip_gpmmu and ?Z = "(id, 0, 0) :: ctx_st sleeper" and ?c = "sched_start s"
  let ?e = "?c\<lparr>sc_st := on_dev (lima_mmu_irq_handler ?m) (sc_st ?c)\<rparr>"
  obtain w where w: "fitted w d0" using brought_up_fitted [OF up] by (auto simp: d0_def fitted_bus)
  have "ip_present (dev_ip (cs_dev s') ?m)"
    using up by (cases "dev_id (cs_dev s')") (auto simp: dev_up_def LIMA_IP_DESC_def)
  then have "placed (cs_dev s') ?m" using up by (simp add: dev_up_def present_placed)
  then have pl: "placed d0 ?m" by (simp add: d0_def placed_def)
  have m: "?m \<in> mmus" by (simp add: mmus_def)
  have pend: "pending s p = []" for p
    using up by (cases p) (simp_all add: s_def d0_def pending_def dev_up_def gp_pipe_up_def pp_pipe_up_def Let_def)
  then have idle: "sched_idle s" by (simp add: sched_idle_def) (simp add: s_def idle_demo_def)
  have c: "cs_dev (sc_st ?c) = d0" by (simp add: sched_start_def s_def)
  have fault: "peek d0 ?m LIMA_MMU_INT_STATUS \<noteq> 0" by (simp add: peek_def d0_def)
  have md: "masked d ?m"
    using page_fault_masks_for_good [OF idle rtranclp.rtrancl_refl, of w ?m ?Z] w m pl fault by (simp add: c d_def)
  have e: "cs_dev (sc_st ?e) = d" by (simp add: c d_def on_dev_def)
  have "stays_masked w ?m d0 d" using op_stays [OF w _ _ m pl, of "Irq ?m"] pl by (simp add: d_def lima_pps_def)
  then have d: "fitted w d" "placed d ?m" using w pl by (simp_all add: stays_masked_def)
  have step: "(sched_step ?Z)\<^sup>*\<^sup>* ?c ?e" by (rule r_into_rtranclp) (rule sched_step.irq_mmu)
  have "masked (exec (op_hw (Reset lima_pipe_gp)) d) ?m"
    using page_fault_masks_for_good [OF idle step, of w ?m] d m md unfolding e by (meson op_ready.simps(2) op_running.simps(2))
  with run md show ?thesis unfolding d_def d0_def by auto
qed

end
