(* ===== verification/Lima_Lock.thy ===== *)
theory Lima_Lock
  imports Lima_Prelude "HOL-Library.Monad_Syntax"
begin

text \<open>
  How upstream locks the reservation objects of a submission (\<open>lima_gem_lock_bos\<close> and
  \<open>lima_gem_unlock_bos\<close> of \<open>reference/v5.2/lima/lima_gem.c\<close>): the back-off loop of the
  wound-wait mutexes. The backport has no such locks; it is the loop a port of explicit
  reservation locking has to get right.
\<close>

section \<open>The mutexes of the kernel\<close>

abbreviation EINTR :: int where "EINTR \<equiv> 4"
abbreviation EDEADLK :: int where "EDEADLK \<equiv> 35"
abbreviation EALREADY :: int where "EALREADY \<equiv> 114"

text \<open>
  The functions of \<open>ww_mutex.h\<close> on one acquire context, in a state \<open>'w\<close> of the kernel's;
  \<^term>\<open>None\<close> is a misuse that the documentation forbids. A lock is the reservation object it is
  in, as a number.
\<close>

record 'w ww_ops =
  ww_acquire_init :: "'w \<Rightarrow> 'w option"
  ww_mutex_lock_interruptible :: "nat \<Rightarrow> 'w \<Rightarrow> (int \<times> 'w) option"
  ww_mutex_lock_slow_interruptible :: "nat \<Rightarrow> 'w \<Rightarrow> (int \<times> 'w) option"
  ww_mutex_unlock :: "nat \<Rightarrow> 'w \<Rightarrow> 'w option"
  ww_acquire_done :: "'w \<Rightarrow> 'w option"
  ww_acquire_fini :: "'w \<Rightarrow> 'w option"

text \<open>
  What the documentation of the mutexes (\<open>locking/ww-mutex-design\<close>) says, over what a context
  looks like (\<open>view\<close>: its phase and the locks it holds). A lock that is held already answers
  \<open>-EALREADY\<close>. After \<open>-EDEADLK\<close> the context has to give back every lock and may then only take
  the contended one, with the slow function. A context that is done takes no more locks, and one
  that ends holds none. A context ages while it backs off, so it is told to do so finitely often:
  \<open>older\<close> goes down each time.
\<close>

datatype ww_phase = Outside | Acquiring | Contended nat | Acquired

definition ww_contract :: "'w ww_ops \<Rightarrow> ('w \<Rightarrow> ww_phase \<times> nat set) \<Rightarrow> ('w \<Rightarrow> nat) \<Rightarrow> bool" where
  "ww_contract K view older \<longleftrightarrow>
     (\<forall>w. view w = (Outside, {}) \<longrightarrow> (\<exists>w'. ww_acquire_init K w = Some w' \<and> view w' = (Acquiring, {}))) \<and>
     (\<forall>l w h. view w = (Acquiring, h) \<longrightarrow> (\<exists>r w'. ww_mutex_lock_interruptible K l w = Some (r, w') \<and>
        (if l \<in> h then r = - EALREADY \<and> view w' = view w \<and> older w' \<le> older w
         else r = 0 \<and> view w' = (Acquiring, insert l h) \<and> older w' \<le> older w \<or>
              r = - EINTR \<and> view w' = view w \<and> older w' \<le> older w \<or>
              r = - EDEADLK \<and> view w' = (Contended l, h) \<and> older w' < older w))) \<and>
     (\<forall>l w. view w = (Contended l, {}) \<longrightarrow> (\<exists>r w'. ww_mutex_lock_slow_interruptible K l w = Some (r, w') \<and> older w' \<le> older w \<and>
        (r = 0 \<and> view w' = (Acquiring, {l}) \<or> r = - EINTR \<and> view w' = (Acquiring, {})))) \<and>
     (\<forall>l w h p. view w = (p, h) \<and> l \<in> h \<longrightarrow>
        (\<exists>w'. ww_mutex_unlock K l w = Some w' \<and> view w' = (p, h - {l}) \<and> older w' \<le> older w)) \<and>
     (\<forall>w h. view w = (Acquiring, h) \<longrightarrow> (\<exists>w'. ww_acquire_done K w = Some w' \<and> view w' = (Acquired, h))) \<and>
     (\<forall>w p. view w = (p, {}) \<and> p \<noteq> Outside \<longrightarrow> (\<exists>w'. ww_acquire_fini K w = Some w' \<and> view w' = (Outside, {})))"

section \<open>Locking and unlocking\<close>

text \<open>
  The \<open>for\<close> loop from index \<open>i\<close> on, which ends with the answer of the lock that failed (0 for
  none), its index and the value of \<open>slow_locked\<close> (\<^term>\<open>None\<close> for -1); the countdown of the label
  \<open>err\<close>; the rounds from \<open>retry\<close> to \<open>goto retry\<close>.
\<close>

fun lock_bos_pass :: "'w ww_ops \<Rightarrow> nat list \<Rightarrow> nat \<Rightarrow> nat option \<Rightarrow> 'w \<Rightarrow> (int \<times> nat \<times> nat option \<times> 'w) option" where
  "lock_bos_pass K [] i slow_locked w = Some (0, i, slow_locked, w)"
| "lock_bos_pass K (l # ls) i slow_locked w =
     (if slow_locked = Some i then lock_bos_pass K ls (Suc i) None w
      else do {
        (r, w) \<leftarrow> ww_mutex_lock_interruptible K l w;
        if r < 0 then Some (r, i, slow_locked, w) else lock_bos_pass K ls (Suc i) slow_locked w
      })"

primrec lock_bos_unwind :: "'w ww_ops \<Rightarrow> nat list \<Rightarrow> nat \<Rightarrow> 'w \<Rightarrow> 'w option" where
  "lock_bos_unwind K resvs 0 w = Some w"
| "lock_bos_unwind K resvs (Suc i) w = do { w \<leftarrow> ww_mutex_unlock K (resvs ! i) w; lock_bos_unwind K resvs i w }"

partial_function (option) lock_bos_retry :: "'w ww_ops \<Rightarrow> nat list \<Rightarrow> nat option \<Rightarrow> 'w \<Rightarrow> (int \<times> 'w) option" where
  "lock_bos_retry K resvs slow_locked w = do {
     (r, i, slow_locked, w) \<leftarrow> lock_bos_pass K resvs 0 slow_locked w;
     if \<not> r < 0 then do { w \<leftarrow> ww_acquire_done K w; Some (0, w) }
     else do {
       w \<leftarrow> lock_bos_unwind K resvs i w;
       w \<leftarrow> (case slow_locked of Some j \<Rightarrow> ww_mutex_unlock K (resvs ! j) w | None \<Rightarrow> Some w);
       if r = - EDEADLK then do {
         (r, w) \<leftarrow> ww_mutex_lock_slow_interruptible K (resvs ! i) w;
         if r = 0 then lock_bos_retry K resvs (Some i) w
         else do { w \<leftarrow> ww_acquire_fini K w; Some (r, w) }
       } else do { w \<leftarrow> ww_acquire_fini K w; Some (r, w) }
     }
   }"

definition lima_gem_lock_bos :: "'w ww_ops \<Rightarrow> nat list \<Rightarrow> 'w \<Rightarrow> (int \<times> 'w) option" where
  "lima_gem_lock_bos K resvs w = do { w \<leftarrow> ww_acquire_init K w; lock_bos_retry K resvs None w }"

definition lima_gem_unlock_bos :: "'w ww_ops \<Rightarrow> nat list \<Rightarrow> 'w \<Rightarrow> 'w option" where
  "lima_gem_unlock_bos K resvs w = do { w \<leftarrow> each (ww_mutex_unlock K) resvs w; ww_acquire_fini K w }"

section \<open>A round\<close>

text \<open>The clauses of the contract, one by one.\<close>

lemma ww_lock_answers:
  assumes "ww_contract K view older" and "view w = (Acquiring, h)"
  obtains r w' where "ww_mutex_lock_interruptible K l w = Some (r, w')"
    and "if l \<in> h then r = - EALREADY \<and> view w' = view w \<and> older w' \<le> older w
         else r = 0 \<and> view w' = (Acquiring, insert l h) \<and> older w' \<le> older w \<or>
              r = - EINTR \<and> view w' = view w \<and> older w' \<le> older w \<or>
              r = - EDEADLK \<and> view w' = (Contended l, h) \<and> older w' < older w"
proof -
  from assms(1) have "\<forall>l w h. view w = (Acquiring, h) \<longrightarrow> (\<exists>r w'. ww_mutex_lock_interruptible K l w = Some (r, w') \<and>
        (if l \<in> h then r = - EALREADY \<and> view w' = view w \<and> older w' \<le> older w
         else r = 0 \<and> view w' = (Acquiring, insert l h) \<and> older w' \<le> older w \<or>
              r = - EINTR \<and> view w' = view w \<and> older w' \<le> older w \<or>
              r = - EDEADLK \<and> view w' = (Contended l, h) \<and> older w' < older w))"
    unfolding ww_contract_def by (elim conjE)
  then show thesis using assms(2) that by blast
qed

lemma ww_slow_answers:
  assumes "ww_contract K view older" and "view w = (Contended l, {})"
  obtains r w' where "ww_mutex_lock_slow_interruptible K l w = Some (r, w')" and "older w' \<le> older w"
    and "r = 0 \<and> view w' = (Acquiring, {l}) \<or> r = - EINTR \<and> view w' = (Acquiring, {})"
proof -
  from assms(1) have "\<forall>l w. view w = (Contended l, {}) \<longrightarrow> (\<exists>r w'. ww_mutex_lock_slow_interruptible K l w = Some (r, w') \<and>
      older w' \<le> older w \<and> (r = 0 \<and> view w' = (Acquiring, {l}) \<or> r = - EINTR \<and> view w' = (Acquiring, {})))"
    unfolding ww_contract_def by (elim conjE)
  then show thesis using assms(2) that by blast
qed

lemma ww_unlock_ok:
  assumes "ww_contract K view older" and "view w = (p, h)" and "l \<in> h"
  obtains w' where "ww_mutex_unlock K l w = Some w'" and "view w' = (p, h - {l})" and "older w' \<le> older w"
proof -
  from assms(1) have "\<forall>l w h p. view w = (p, h) \<and> l \<in> h \<longrightarrow>
      (\<exists>w'. ww_mutex_unlock K l w = Some w' \<and> view w' = (p, h - {l}) \<and> older w' \<le> older w)"
    unfolding ww_contract_def by (elim conjE)
  then show thesis using assms(2,3) that by blast
qed

lemma ww_ends_ok:
  assumes "ww_contract K view older"
  shows ww_init_ok: "view w = (Outside, {}) \<Longrightarrow> \<exists>w'. ww_acquire_init K w = Some w' \<and> view w' = (Acquiring, {})"
    and ww_done_ok: "view w = (Acquiring, h) \<Longrightarrow> \<exists>w'. ww_acquire_done K w = Some w' \<and> view w' = (Acquired, h)"
    and ww_fini_ok: "view w = (p, {}) \<Longrightarrow> p \<noteq> Outside \<Longrightarrow> \<exists>w'. ww_acquire_fini K w = Some w' \<and> view w' = (Outside, {})"
  using assms unfolding ww_contract_def by simp_all

text \<open>
  What a context holds in a pass that has reached index \<open>i\<close>: the locks before \<open>i\<close>, each once, and
  the contended one if that is still to come.
\<close>

definition slow_lock :: "nat list \<Rightarrow> nat option \<Rightarrow> nat set" where
  "slow_lock resvs slow = (case slow of None \<Rightarrow> {} | Some j \<Rightarrow> {resvs ! j})"

definition pass_ok :: "nat list \<Rightarrow> nat \<Rightarrow> nat option \<Rightarrow> nat set \<Rightarrow> bool" where
  "pass_ok resvs i slow h \<longleftrightarrow> i \<le> length resvs \<and> h = set (take i resvs) \<union> slow_lock resvs slow \<and>
     distinct (take i resvs) \<and> slow_lock resvs slow \<inter> set (take i resvs) = {} \<and>
     (\<forall>j. slow = Some j \<longrightarrow> i \<le> j \<and> j < length resvs)"

lemma pass_ok_skip: "pass_ok resvs i (Some i) h \<Longrightarrow> pass_ok resvs (Suc i) None h"
  by (auto simp: pass_ok_def slow_lock_def take_Suc_conv_app_nth)

lemma pass_ok_lock:
  "pass_ok resvs i slow h \<Longrightarrow> i < length resvs \<Longrightarrow> slow \<noteq> Some i \<Longrightarrow> resvs ! i \<notin> h \<Longrightarrow>
    pass_ok resvs (Suc i) slow (insert (resvs ! i) h)"
  by (cases slow) (auto simp: pass_ok_def slow_lock_def take_Suc_conv_app_nth)

lemma pass_ok_twice: "pass_ok resvs i slow h \<Longrightarrow> i < length resvs \<Longrightarrow> slow \<noteq> Some i \<Longrightarrow> resvs ! i \<in> h \<Longrightarrow> \<not> distinct resvs"
proof -
  assume ok: "pass_ok resvs i slow h" and i: "i < length resvs" and s: "slow \<noteq> Some i" and h: "resvs ! i \<in> h"
  from ok h have "resvs ! i \<in> set (take i resvs) \<or> (\<exists>j > i. j < length resvs \<and> resvs ! i = resvs ! j)"
    using s by (cases slow) (auto simp: pass_ok_def slow_lock_def le_less)
  then have "\<exists>j. j \<noteq> i \<and> j < length resvs \<and> resvs ! i = resvs ! j"
  proof
    assume "resvs ! i \<in> set (take i resvs)"
    then obtain k where "k < i" "resvs ! k = resvs ! i" by (auto simp: in_set_conv_nth)
    then show ?thesis using i by (intro exI [of _ k]) simp
  qed auto
  then show ?thesis using i by (auto simp: distinct_conv_nth)
qed

lemma pass_ok_end: "pass_ok resvs (length resvs) slow h \<Longrightarrow> slow = None \<and> h = set resvs \<and> distinct resvs"
  by (cases slow) (auto simp: pass_ok_def slow_lock_def)

text \<open>
  A pass ends with every lock held, or at a lock that failed, with the invariant at its index.
\<close>

lemma lock_pass_ends:
  assumes K: "ww_contract K view older" and "pass_ok resvs i slow h" and "view w = (Acquiring, h)"
  obtains r k slow' w' where "lock_bos_pass K (drop i resvs) i slow w = Some (r, k, slow', w')"
    and "r = 0 \<and> view w' = (Acquiring, set resvs) \<and> distinct resvs \<or>
      (\<exists>h'. r < 0 \<and> k < length resvs \<and> pass_ok resvs k slow' h' \<and>
        (r = - EALREADY \<and> view w' = (Acquiring, h') \<and> \<not> distinct resvs \<or> r = - EINTR \<and> view w' = (Acquiring, h') \<or>
         r = - EDEADLK \<and> view w' = (Contended (resvs ! k), h') \<and> older w' < older w))"
  using assms(2,3)
proof (induction "length resvs - i" arbitrary: i slow h w thesis)
  case 0
  then have "i = length resvs" by (simp add: pass_ok_def)
  with 0 pass_ok_end show ?case by fastforce
next
  case (Suc n)
  then have i: "i < length resvs" and n: "n = length resvs - Suc i" by simp_all
  then have drop: "drop i resvs = resvs ! i # drop (Suc i) resvs" by (simp add: Cons_nth_drop_Suc)
  show ?case
  proof (cases "slow = Some i")
    case True
    with Suc.prems(2) have "pass_ok resvs (Suc i) None h" by (simp add: pass_ok_skip)
    from Suc.hyps(1) [OF n _ this Suc.prems(3)] show ?thesis
      using Suc.prems(1) True by (simp add: drop) blast
  next
    case False
    from ww_lock_answers [OF K Suc.prems(3), of "resvs ! i"] obtain r v where r: "ww_mutex_lock_interruptible K (resvs ! i) w = Some (r, v)"
      "if resvs ! i \<in> h then r = - EALREADY \<and> view v = view w \<and> older v \<le> older w
       else r = 0 \<and> view v = (Acquiring, insert (resvs ! i) h) \<and> older v \<le> older w \<or>
            r = - EINTR \<and> view v = view w \<and> older v \<le> older w \<or>
            r = - EDEADLK \<and> view v = (Contended (resvs ! i), h) \<and> older v < older w" .
    show ?thesis
    proof (cases "r = 0")
      case True
      with r(2) have v: "resvs ! i \<notin> h" "view v = (Acquiring, insert (resvs ! i) h)" "older v \<le> older w" by (auto split: if_splits)
      have "pass_ok resvs (Suc i) slow (insert (resvs ! i) h)" by (rule pass_ok_lock [OF Suc.prems(2) i False v(1)])
      from Suc.hyps(1) [OF n _ this v(2)] obtain r' k slow' w' where
        "lock_bos_pass K (drop (Suc i) resvs) (Suc i) slow v = Some (r', k, slow', w')"
        "r' = 0 \<and> view w' = (Acquiring, set resvs) \<and> distinct resvs \<or>
          (\<exists>h'. r' < 0 \<and> k < length resvs \<and> pass_ok resvs k slow' h' \<and>
            (r' = - EALREADY \<and> view w' = (Acquiring, h') \<and> \<not> distinct resvs \<or> r' = - EINTR \<and> view w' = (Acquiring, h') \<or>
             r' = - EDEADLK \<and> view w' = (Contended (resvs ! k), h') \<and> older w' < older v))" .
      then show ?thesis using Suc.prems(1) [of r' k slow' w'] False r(1) True v(3) by (auto simp: drop)
    next
      case False': False
      then have neg: "r < 0" using r(2) by (auto split: if_splits)
      have twice: "resvs ! i \<in> h \<Longrightarrow> \<not> distinct resvs" by (rule pass_ok_twice [OF Suc.prems(2) i False])
      have run: "lock_bos_pass K (drop i resvs) i slow w = Some (r, i, slow, v)" using False r(1) neg by (simp add: drop)
      have "r = - EALREADY \<and> view v = (Acquiring, h) \<and> \<not> distinct resvs \<or> r = - EINTR \<and> view v = (Acquiring, h) \<or>
         r = - EDEADLK \<and> view v = (Contended (resvs ! i), h) \<and> older v < older w"
        using r(2) False' twice Suc.prems(3) by (auto split: if_splits)
      then show ?thesis using Suc.prems(1) [OF run] neg i Suc.prems(2) by blast
    qed
  qed
qed

lemma unlock_below:
  assumes K: "ww_contract K view older" and "i \<le> length resvs" and "distinct (take i resvs)" and "set (take i resvs) \<subseteq> h"
    and "view w = (p, h)"
  obtains w' where "lock_bos_unwind K resvs i w = Some w'" and "view w' = (p, h - set (take i resvs))" and "older w' \<le> older w"
  using assms(2-5)
proof (induction i arbitrary: h w thesis)
  case (Suc i)
  have take: "take (Suc i) resvs = take i resvs @ [resvs ! i]" using Suc.prems(2) by (simp add: take_Suc_conv_app_nth)
  then have "resvs ! i \<in> h" using Suc.prems(4) by simp
  from ww_unlock_ok [OF K Suc.prems(5) this] obtain v where v: "ww_mutex_unlock K (resvs ! i) w = Some v"
    "view v = (p, h - {resvs ! i})" "older v \<le> older w" .
  have "distinct (take i resvs)" "set (take i resvs) \<subseteq> h - {resvs ! i}" using Suc.prems(3,4) take by auto
  from Suc.IH [OF _ _ this v(2)] obtain w' where "lock_bos_unwind K resvs i v = Some w'"
    "view w' = (p, h - {resvs ! i} - set (take i resvs))" "older w' \<le> older v" using Suc.prems(2) by auto
  moreover have "h - {resvs ! i} - set (take i resvs) = h - set (take (Suc i) resvs)" unfolding take by auto
  ultimately show ?case using Suc.prems(1) [of w'] v by simp
qed simp

text \<open>The label \<open>err\<close> gives back everything, the contended lock of the round before too.\<close>

lemma back_off:
  assumes K: "ww_contract K view older" and ok: "pass_ok resvs i slow h" and w: "view w = (p, h)"
  obtains v w' where "lock_bos_unwind K resvs i w = Some v"
    and "(case slow of Some j \<Rightarrow> ww_mutex_unlock K (resvs ! j) v | None \<Rightarrow> Some v) = Some w'"
    and "view w' = (p, {})" and "older w' \<le> older w"
proof -
  from ok have o: "i \<le> length resvs" "distinct (take i resvs)" "set (take i resvs) \<subseteq> h" by (auto simp: pass_ok_def)
  from unlock_below [OF K o w] obtain v where v: "lock_bos_unwind K resvs i w = Some v"
    "view v = (p, h - set (take i resvs))" "older v \<le> older w" .
  have rest: "h - set (take i resvs) = slow_lock resvs slow" using ok by (auto simp: pass_ok_def)
  show thesis
  proof (cases slow)
    case None
    then show thesis using that [OF v(1), of v] v(2,3) rest by (simp add: slow_lock_def)
  next
    case (Some j)
    then have "view v = (p, {resvs ! j})" using v(2) rest by (simp add: slow_lock_def)
    from ww_unlock_ok [OF K this, of "resvs ! j"] obtain u where "ww_mutex_unlock K (resvs ! j) v = Some u" "view u = (p, {})" "older u \<le> older v"
      by auto
    then show thesis using that [OF v(1), of u] v(3) Some by simp
  qed
qed

text \<open>The rounds end, by induction on how often the context can still be told to back off.\<close>

lemma lock_rounds_end:
  assumes K: "ww_contract K view older" and "pass_ok resvs 0 slow h" and "view w = (Acquiring, h)"
  shows "\<exists>r w'. lock_bos_retry K resvs slow w = Some (r, w') \<and>
    (r = 0 \<and> view w' = (Acquired, set resvs) \<and> distinct resvs \<or>
     view w' = (Outside, {}) \<and> (r = - EINTR \<or> r = - EALREADY \<and> \<not> distinct resvs))"
  using assms(2,3)
proof (induction "older w" arbitrary: w slow h rule: less_induct)
  case less
  obtain r k slow' v where pass: "lock_bos_pass K resvs 0 slow w = Some (r, k, slow', v)"
    and r: "r = 0 \<and> view v = (Acquiring, set resvs) \<and> distinct resvs \<or>
      (\<exists>h'. r < 0 \<and> k < length resvs \<and> pass_ok resvs k slow' h' \<and>
        (r = - EALREADY \<and> view v = (Acquiring, h') \<and> \<not> distinct resvs \<or> r = - EINTR \<and> view v = (Acquiring, h') \<or>
         r = - EDEADLK \<and> view v = (Contended (resvs ! k), h') \<and> older v < older w))"
    by (rule lock_pass_ends [OF K less.prems, unfolded drop_0])
  from r show ?case
  proof (elim disjE exE conjE)
    assume "r = 0" "view v = (Acquiring, set resvs)" "distinct resvs"
    moreover from ww_done_ok [OF K this(2)] obtain w' where "ww_acquire_done K v = Some w'" "view w' = (Acquired, set resvs)"
      by blast
    ultimately show ?thesis using pass by (simp add: lock_bos_retry.simps [of K resvs slow w])
  next
    fix h' assume k: "k < length resvs" and ok: "pass_ok resvs k slow' h'" and r: "r < 0" "r = - EDEADLK"
      and v: "view v = (Contended (resvs ! k), h')" "older v < older w"
    from back_off [OF K ok v(1)] obtain a b where b: "lock_bos_unwind K resvs k v = Some a"
      "(case slow' of Some j \<Rightarrow> ww_mutex_unlock K (resvs ! j) a | None \<Rightarrow> Some a) = Some b"
      "view b = (Contended (resvs ! k), {})" "older b \<le> older v" .
    from ww_slow_answers [OF K b(3)] obtain q c where c: "ww_mutex_lock_slow_interruptible K (resvs ! k) b = Some (q, c)" "older c \<le> older b"
      "q = 0 \<and> view c = (Acquiring, {resvs ! k}) \<or> q = - EINTR \<and> view c = (Acquiring, {})" .
    note run = lock_bos_retry.simps [of K resvs slow w]
    from c(3) show ?thesis
    proof (elim disjE conjE)
      assume q: "q = 0" "view c = (Acquiring, {resvs ! k})"
      have "pass_ok resvs 0 (Some k) {resvs ! k}" using k by (simp add: pass_ok_def slow_lock_def)
      moreover have "older c < older w" using c(2) b(4) v(2) by simp
      ultimately show ?thesis using less.hyps [OF _ _ q(2)] run pass r b(1,2) c(1) q(1) by simp
    next
      assume q: "q = - EINTR" "view c = (Acquiring, {})"
      from ww_fini_ok [OF K q(2)] obtain u where "ww_acquire_fini K c = Some u" "view u = (Outside, {})" by blast
      then show ?thesis using run pass r b(1,2) c(1) q(1) by simp
    qed
  next
    fix h' assume ok: "pass_ok resvs k slow' h'" and r: "r < 0" "r = - EALREADY" and v: "view v = (Acquiring, h')" "\<not> distinct resvs"
    from back_off [OF K ok v(1)] obtain a b where b: "lock_bos_unwind K resvs k v = Some a"
      "(case slow' of Some j \<Rightarrow> ww_mutex_unlock K (resvs ! j) a | None \<Rightarrow> Some a) = Some b" "view b = (Acquiring, {})" by blast
    from ww_fini_ok [OF K b(3)] obtain u where "ww_acquire_fini K b = Some u" "view u = (Outside, {})" by blast
    then show ?thesis using lock_bos_retry.simps [of K resvs slow w] pass r b(1,2) v(2) by simp
  next
    fix h' assume ok: "pass_ok resvs k slow' h'" and r: "r < 0" "r = - EINTR" and v: "view v = (Acquiring, h')"
    from back_off [OF K ok v(1)] obtain a b where b: "lock_bos_unwind K resvs k v = Some a"
      "(case slow' of Some j \<Rightarrow> ww_mutex_unlock K (resvs ! j) a | None \<Rightarrow> Some a) = Some b" "view b = (Acquiring, {})" by blast
    from ww_fini_ok [OF K b(3)] obtain u where "ww_acquire_fini K b = Some u" "view u = (Outside, {})" by blast
    then show ?thesis using lock_bos_retry.simps [of K resvs slow w] pass r b(1,2) by simp
  qed
qed

lemma unlock_all:
  assumes K: "ww_contract K view older" and "distinct ls" and "view w = (p, set ls)"
  shows "\<exists>w'. each (ww_mutex_unlock K) ls w = Some w' \<and> view w' = (p, {})"
  using assms(2,3)
proof (induction ls arbitrary: w)
  case (Cons l ls)
  from ww_unlock_ok [OF K Cons.prems(2), of l] obtain v where v: "ww_mutex_unlock K l w = Some v" "view v = (p, set (l # ls) - {l})"
    by auto
  moreover have "set (l # ls) - {l} = set ls" using Cons.prems(1) by auto
  ultimately show ?case using Cons.IH [of v] Cons.prems(1) by simp
qed simp

lemma lock_bos_ends:
  assumes K: "ww_contract K view older" and w: "view w = (Outside, {})"
  shows "\<exists>r w'. lima_gem_lock_bos K resvs w = Some (r, w') \<and>
    (if r = 0 then distinct resvs \<and> view w' = (Acquired, set resvs) \<and>
       (\<exists>u. lima_gem_unlock_bos K resvs w' = Some u \<and> view u = (Outside, {}))
     else view w' = (Outside, {}) \<and> (r = - EINTR \<or> r = - EALREADY \<and> \<not> distinct resvs))"
proof -
  from ww_init_ok [OF K w] obtain a where a: "ww_acquire_init K w = Some a" "view a = (Acquiring, {})" by blast
  have "pass_ok resvs 0 None {}" by (simp add: pass_ok_def slow_lock_def)
  from lock_rounds_end [OF K this a(2)] obtain r b where b: "lock_bos_retry K resvs None a = Some (r, b)"
    "r = 0 \<and> view b = (Acquired, set resvs) \<and> distinct resvs \<or>
     view b = (Outside, {}) \<and> (r = - EINTR \<or> r = - EALREADY \<and> \<not> distinct resvs)" by blast
  have run: "lima_gem_lock_bos K resvs w = Some (r, b)" using a(1) b(1) by (simp add: lima_gem_lock_bos_def)
  show ?thesis
  proof (cases "r = 0")
    case True
    with b(2) have v: "view b = (Acquired, set resvs)" "distinct resvs" by auto
    from unlock_all [OF K v(2,1)] obtain c where c: "each (ww_mutex_unlock K) resvs b = Some c" "view c = (Acquired, {})" by blast
    from ww_fini_ok [OF K c(2)] obtain u where "ww_acquire_fini K c = Some u" "view u = (Outside, {})" by blast
    then show ?thesis using run True v c(1) by (simp add: lima_gem_unlock_bos_def)
  next
    case False
    then show ?thesis using run b(2) by auto
  qed
qed

text \<open>
  C35. Upstream locks the reservation objects of a submission all or not at all. However the
  kernel answers, the loop ends, and it never breaks the rules of the mutexes: no lock is
  given back that is not held, the slow function is only called for the contended lock with no
  other lock held, no context ends with a lock. It returns 0 with exactly the locks of all
  objects held, which must be different ones, and unlocking then gives every one back; or it
  returns \<open>-EINTR\<close>, or \<open>-EALREADY\<close> for a list that names an object twice, with nothing held.
\<close>

theorem lock_bos_all_or_nothing:
  assumes K: "ww_contract K view older" and w: "view w = (Outside, {})"
  shows "\<exists>r w'. lima_gem_lock_bos K resvs w = Some (r, w') \<and>
    (if r = 0 then distinct resvs \<and> view w' = (Acquired, set resvs) \<and>
       (\<exists>u. lima_gem_unlock_bos K resvs w' = Some u \<and> view u = (Outside, {}))
     else view w' = (Outside, {}) \<and> (r = - EINTR \<or> r = - EALREADY \<and> \<not> distinct resvs))"
  using assms by (rule lock_bos_ends)

section \<open>A contended object\<close>

text \<open>
  Mutexes on which another context is in the way \<open>n\<close> times, and which refuse every misuse: the
  state is the phase, the locks held and the number of back-offs to come.
\<close>

type_synonym ww_demo = "ww_phase \<times> nat set \<times> nat"

definition ww_demo :: "ww_demo ww_ops" where
  "ww_demo = \<lparr>
     ww_acquire_init = (\<lambda>(p, h, n). if p = Outside then Some (Acquiring, {}, n) else None),
     ww_mutex_lock_interruptible = (\<lambda>l (p, h, n). if p \<noteq> Acquiring then None
       else if l \<in> h then Some (- EALREADY, p, h, n)
       else if h \<noteq> {} \<and> n > 0 then Some (- EDEADLK, Contended l, h, n - 1)
       else Some (0, p, insert l h, n)),
     ww_mutex_lock_slow_interruptible = (\<lambda>l (p, h, n). if p = Contended l \<and> h = {} then Some (0, Acquiring, {l}, n) else None),
     ww_mutex_unlock = (\<lambda>l (p, h, n). if l \<in> h then Some (p, h - {l}, n) else None),
     ww_acquire_done = (\<lambda>(p, h, n). if p = Acquiring then Some (Acquired, h, n) else None),
     ww_acquire_fini = (\<lambda>(p, h, n). if h = {} \<and> p \<noteq> Outside then Some (Outside, {}, n) else None)\<rparr>"

lemma ww_demo_contract: "ww_contract ww_demo (\<lambda>(p, h, n). (p, h)) (\<lambda>(p, h, n). n)"
  by (auto simp: ww_contract_def ww_demo_def)

text \<open>Two objects of which the second is contended once: the second round takes it first, then skips it.\<close>

theorem lock_bos_all_or_nothing_witness:
  "lima_gem_lock_bos ww_demo [7, 8] (Outside, {}, 1) = Some (0, Acquired, {7, 8}, 0) \<and>
   (\<exists>n. lima_gem_unlock_bos ww_demo [7, 8] (Acquired, {7, 8}, 0) = Some (Outside, {}, n))"
proof -
  have run: "lima_gem_lock_bos ww_demo [7, 8] (Outside, {}, 1) = Some (0, Acquired, {7, 8}, 0)"
    by (simp add: lima_gem_lock_bos_def lock_bos_retry.simps ww_demo_def insert_commute)
  with lock_bos_all_or_nothing [OF ww_demo_contract, of "(Outside, {}, 1)" "[7, 8]"] show ?thesis by auto
qed

end
