(* ===== verification/Lima_Upstream.thy ===== *)
theory Lima_Upstream
  imports Lima_Fault Lima_Publish Lima_Lock
begin

text \<open>
  The scheduler of the upstream driver, \<open>reference/v5.2/lima/lima_sched.c\<close>, as far as it
  touches the hardware and the heap, and what the backport made of it. The files for registers,
  MMUs and address spaces are the same in both drivers (but for an include and the name of one
  kernel function), so the operations on units are those of the other theories.
\<close>

section \<open>State\<close>

text \<open>
  The kernel's part (\<open>dma_fence\<close>, \<open>drm_gpu_scheduler\<close>) is a component \<open>us_kernel\<close> of its own,
  on which the functions of the kernel act; the driver never looks into it. The rest is what
  \<open>struct lima_sched_pipe\<close> and \<open>struct lima_sched_task\<close> have beyond the fields of the backport:
  the sequence number and the context of the fences of a pipe, whether its error work is
  queued, the fence of a task (made when it runs), and the slab of the fences. \<open>us_ww\<close> is the
  acquire context of a submission on the kernel's mutexes (\<open>Lima_Lock\<close>).
\<close>

record ('k, 'w) v52_st = ctx_st +
  us_kernel :: 'k
  us_fence_context :: "lima_pipe_id \<Rightarrow> u64"
  us_seqno :: "lima_pipe_id \<Rightarrow> u32"
  us_error_work :: "lima_pipe_id \<Rightarrow> bool"
  us_fence :: "nat \<Rightarrow> nat option"
  us_slab :: bool
  us_slab_refcnt :: int
  us_ww :: 'w

text \<open>
  The functions of the kernel that are called, in the order of the fields: \<open>dma_fence_init\<close> (the
  block, the pipe, the context, the number), \<open>dma_fence_get\<close>, \<open>dma_fence_put\<close>,
  \<open>dma_fence_signal\<close>, \<open>call_rcu\<close>, \<open>dma_fence_context_alloc\<close>; \<open>drm_sched_job_init\<close> (the task and
  its context), \<open>drm_sched_job_cleanup\<close>, the \<open>finished\<close> fence of a job; \<open>drm_sched_entity_init\<close>
  (the pipe, the context, the guilty counter), \<open>drm_sched_entity_fini\<close>,
  \<open>drm_sched_entity_push_job\<close> (the task, the context); \<open>drm_sched_init\<close> (the pipe, the timeout,
  the name), \<open>drm_sched_fini\<close>, \<open>drm_sched_stop\<close> and \<open>drm_sched_increase_karma\<close>.
\<close>

record 'k v52_kernel =
  vk_fence_init :: "nat \<Rightarrow> lima_pipe_id \<Rightarrow> u64 \<Rightarrow> u32 \<Rightarrow> 'k \<Rightarrow> 'k"
  vk_fence_get :: "nat \<Rightarrow> 'k \<Rightarrow> 'k"
  vk_fence_put :: "nat option \<Rightarrow> 'k \<Rightarrow> 'k"
  vk_fence_signal :: "nat option \<Rightarrow> 'k \<Rightarrow> 'k"
  vk_call_rcu :: "nat \<Rightarrow> 'k \<Rightarrow> 'k"
  vk_context_alloc :: "'k \<Rightarrow> u64 \<times> 'k"
  vk_job_init :: "nat \<Rightarrow> nat \<Rightarrow> 'k \<Rightarrow> int \<times> 'k"
  vk_job_cleanup :: "nat \<Rightarrow> 'k \<Rightarrow> 'k"
  vk_job_finished :: "nat \<Rightarrow> 'k \<Rightarrow> nat"
  vk_entity_init :: "lima_pipe_id \<Rightarrow> nat \<Rightarrow> nat \<Rightarrow> 'k \<Rightarrow> int \<times> 'k"
  vk_entity_fini :: "nat \<Rightarrow> 'k \<Rightarrow> 'k"
  vk_entity_push_job :: "nat \<Rightarrow> nat \<Rightarrow> 'k \<Rightarrow> 'k"
  vk_sched_init :: "lima_pipe_id \<Rightarrow> int \<Rightarrow> string \<Rightarrow> 'k \<Rightarrow> int \<times> 'k"
  vk_sched_fini :: "lima_pipe_id \<Rightarrow> 'k \<Rightarrow> 'k"
  vk_sched_stop :: "lima_pipe_id \<Rightarrow> 'k \<Rightarrow> 'k"
  vk_increase_karma :: "nat \<Rightarrow> 'k \<Rightarrow> 'k"

definition in_kernel :: "('k \<Rightarrow> 'k) \<Rightarrow> ('k, 'w) v52_st \<Rightarrow> ('k, 'w) v52_st" where
  "in_kernel f s = s\<lparr>us_kernel := f (us_kernel s)\<rparr>"

text \<open>The same for a function of the kernel that returns a value.\<close>

definition in_kernel_ret :: "('k \<Rightarrow> 'r \<times> 'k) \<Rightarrow> ('k, 'w) v52_st \<Rightarrow> 'r \<times> ('k, 'w) v52_st" where
  "in_kernel_ret f s = (let (r, k) = f (us_kernel s) in (r, s\<lparr>us_kernel := k\<rparr>))"

section \<open>Fences\<close>

text \<open>\<open>ok\<close> is whether \<open>kmem_cache_create\<close> succeeds.\<close>

definition v52_sched_slab_init :: "bool \<Rightarrow> ('k, 'w) v52_st \<Rightarrow> int \<times> ('k, 'w) v52_st" where
  "v52_sched_slab_init ok s =
     (let s = (if \<not> us_slab s then s\<lparr>us_slab := ok\<rparr> else s) in
      if \<not> us_slab s then (- ENOMEM, s) else (0, s\<lparr>us_slab_refcnt := us_slab_refcnt s + 1\<rparr>))"

definition v52_sched_slab_fini :: "('k, 'w) v52_st \<Rightarrow> ('k, 'w) v52_st" where
  "v52_sched_slab_fini s =
     (let s = s\<lparr>us_slab_refcnt := us_slab_refcnt s - 1\<rparr> in
      if us_slab_refcnt s = 0 then s\<lparr>us_slab := False\<rparr> else s)"

definition v52_fence_create :: "'k v52_kernel \<Rightarrow> lima_pipe_id \<Rightarrow> ('k, 'w) v52_st \<Rightarrow> nat option \<times> ('k, 'w) v52_st" where
  "v52_fence_create K p s = (case kzalloc s of
     (None, s) \<Rightarrow> (None, s)
   | (Some f, s) \<Rightarrow>
       (let s = s\<lparr>us_seqno := (us_seqno s)(p := us_seqno s p + 1)\<rparr> in
        (Some f, in_kernel (vk_fence_init K f p (us_fence_context s p) (us_seqno s p)) s)))"

text \<open>The kernel calls \<open>lima_fence_release_rcu\<close> after a grace period.\<close>

definition v52_fence_release :: "'k v52_kernel \<Rightarrow> nat \<Rightarrow> ('k, 'w) v52_st \<Rightarrow> ('k, 'w) v52_st" where
  "v52_fence_release K f s = in_kernel (vk_call_rcu K f) s"

definition v52_fence_release_rcu :: "nat \<Rightarrow> ('k, 'w) v52_st \<Rightarrow> ('k, 'w) v52_st option" where
  "v52_fence_release_rcu f s = kfree (Some f) s"

section \<open>Pipes and contexts\<close>

text \<open>\<open>jiffies\<close> is \<open>msecs_to_jiffies\<close>, whose rate the configuration of the kernel sets.\<close>

definition v52_sched_pipe_init :: "'k v52_kernel \<Rightarrow> (int \<Rightarrow> int) \<Rightarrow> lima_pipe_id \<Rightarrow> string \<Rightarrow> ('k, 'w) v52_st \<Rightarrow> int \<times> ('k, 'w) v52_st" where
  "v52_sched_pipe_init K jiffies p name s =
     (let timeout = (if dev_sched_timeout_ms (cs_dev s) \<le> 0 then MAX_SCHEDULE_TIMEOUT
                     else jiffies (dev_sched_timeout_ms (cs_dev s)));
          (c, s) = in_kernel_ret (vk_context_alloc K) s;
          s = s\<lparr>us_fence_context := (us_fence_context s)(p := c), us_error_work := (us_error_work s)(p := False)\<rparr>
      in in_kernel_ret (vk_sched_init K p timeout name) s)"

definition v52_sched_pipe_fini :: "'k v52_kernel \<Rightarrow> lima_pipe_id \<Rightarrow> ('k, 'w) v52_st \<Rightarrow> ('k, 'w) v52_st" where
  "v52_sched_pipe_fini K p s = in_kernel (vk_sched_fini K p) s"

definition v52_sched_context_init :: "'k v52_kernel \<Rightarrow> lima_pipe_id \<Rightarrow> nat \<Rightarrow> nat \<Rightarrow> ('k, 'w) v52_st \<Rightarrow> int \<times> ('k, 'w) v52_st" where
  "v52_sched_context_init K p ctx guilty s = in_kernel_ret (vk_entity_init K p ctx guilty) s"

definition v52_sched_context_fini :: "'k v52_kernel \<Rightarrow> lima_pipe_id \<Rightarrow> nat \<Rightarrow> ('k, 'w) v52_st \<Rightarrow> ('k, 'w) v52_st" where
  "v52_sched_context_fini K p ctx s = in_kernel (vk_entity_fini K ctx) s"

definition v52_sched_context_queue_task :: "'k v52_kernel \<Rightarrow> nat \<Rightarrow> nat \<Rightarrow> ('k, 'w) v52_st \<Rightarrow> nat \<times> ('k, 'w) v52_st" where
  "v52_sched_context_queue_task K ctx t s =
     (let f = vk_job_finished K t (us_kernel s);
          s = in_kernel (vk_fence_get K f) s
      in (f, in_kernel (vk_entity_push_job K t ctx) s))"

section \<open>Tasks\<close>

text \<open>
  \<open>task->deps\<close> is an \<open>xarray\<close> filled from index 0 on; \<open>t_deps\<close> holds the entries from
  \<open>last_dep\<close> on. The array of objects is a copy.
\<close>

definition v52_sched_task_init ::
    "'k v52_kernel \<Rightarrow> nat \<Rightarrow> nat \<Rightarrow> nat list \<Rightarrow> nat \<Rightarrow> ('k, 'w) v52_st \<Rightarrow> (int \<times> ('k, 'w) v52_st) option" where
  "v52_sched_task_init K t ctx bos vm s = do {
     x \<leftarrow> task_of s t;
     case kzalloc s of
       (None, s) \<Rightarrow> Some (- ENOMEM, task_set t (Some (x\<lparr>t_bos_arr := None\<rparr>)) s)
     | (Some arr, s) \<Rightarrow> do {
         s \<leftarrow> each drm_gem_object_get bos s;
         let (err, k) = vk_job_init K t ctx (us_kernel s);
         let s = s\<lparr>us_kernel := k\<rparr>;
         if err \<noteq> 0 then do {
           s \<leftarrow> kfree (Some arr) (task_set t (Some (x\<lparr>t_bos_arr := Some arr\<rparr>)) s);
           Some (err, s)
         } else do {
           s \<leftarrow> lima_vm_get vm s;
           Some (0, task_set t (Some (x\<lparr>t_bos := bos, t_bos_arr := Some arr, t_vm := vm, t_deps := []\<rparr>)) s)
         }
       }
   }"

definition v52_sched_task_fini :: "'k v52_kernel \<Rightarrow> nat \<Rightarrow> ('k, 'w) v52_st \<Rightarrow> ('k, 'w) v52_st option" where
  "v52_sched_task_fini K t s = do {
     let s = in_kernel (vk_job_cleanup K t) s;
     x \<leftarrow> task_of s t;
     let s = in_kernel (\<lambda>k. fold (\<lambda>f. vk_fence_put K (Some f)) (t_deps x) k) s;
     s \<leftarrow> (case t_bos_arr x of
       None \<Rightarrow> Some s
     | Some arr \<Rightarrow> do { s \<leftarrow> each drm_gem_object_put (t_bos x) s; kfree (Some arr) s });
     lima_vm_put (t_vm x) s
   }"

definition v52_sched_dependency :: "nat \<Rightarrow> ('k, 'w) v52_st \<Rightarrow> (nat option \<times> ('k, 'w) v52_st) option" where
  "v52_sched_dependency t s = do {
     x \<leftarrow> task_of s t;
     case t_deps x of
       [] \<Rightarrow> Some (None, s)
     | f # fs \<Rightarrow> Some (Some f, task_set t (Some (x\<lparr>t_deps := fs\<rparr>)) s)
   }"

definition v52_sched_free_job :: "'k v52_kernel \<Rightarrow> nat \<Rightarrow> ('k, 'w) v52_st \<Rightarrow> ('k, 'w) v52_st option" where
  "v52_sched_free_job K t s = do {
     x \<leftarrow> task_of s t;
     let s = in_kernel (vk_fence_put K (us_fence s t)) s;
     s \<leftarrow> each (lima_vm_bo_del (t_vm x)) (t_bos x) s;
     s \<leftarrow> v52_sched_task_fini K t s;
     kfree (Some t) (task_set t None s)
   }"

section \<open>Running\<close>

text \<open>
  \<open>lima_sched_run_job\<close>, from the switch of the address space on and as a whole; \<open>error\<close> is the
  job's \<open>finished.error\<close>.
\<close>

definition v52_switch_vm :: "lima_pipe_id \<Rightarrow> nat \<Rightarrow> ('k, 'w) v52_st \<Rightarrow> ('k, 'w) v52_st option" where
  "v52_switch_vm p tvm s = do {
     (vm, last_vm, s) \<leftarrow> (if Some tvm \<noteq> p_current_vm (pipe_of p s)
       then do { s \<leftarrow> lima_vm_get tvm s;
         Some (Some tvm, p_current_vm (pipe_of p s), on_pipe p (\<lambda>y. y\<lparr>p_current_vm := Some tvm\<rparr>) s) }
       else Some (None, None, s));
     pd \<leftarrow> (case vm of None \<Rightarrow> Some None | Some v \<Rightarrow> do { v \<leftarrow> vs_vms s v; Some (Some (vm_pd_dma v)) });
     let s = (case p_bcast_mmu (pipe_of p s) of
         Some m \<Rightarrow> on_dev (lima_mmu_switch_vm m pd) s
       | None \<Rightarrow> on_dev (forM (\<lambda>m. lima_mmu_switch_vm m pd) (p_mmu (pipe_of p s))) s);
     case last_vm of None \<Rightarrow> Some s | Some v \<Rightarrow> lima_vm_put v s
   }"

definition v52_sched_run_job ::
    "'k v52_kernel \<Rightarrow> lima_pipe_id \<Rightarrow> nat \<Rightarrow> int \<Rightarrow> ('k, 'w) v52_st \<Rightarrow> (nat option \<times> ('k, 'w) v52_st) option" where
  "v52_sched_run_job K p t error s =
     (if error < 0 then Some (None, s)
      else (case v52_fence_create K p s of
        (None, s) \<Rightarrow> Some (None, s)
      | (Some f, s) \<Rightarrow> do {
          x \<leftarrow> task_of s t;
          let s = in_kernel (vk_fence_get K f) (s\<lparr>us_fence := (us_fence s)(t := Some f)\<rparr>);
          let s = on_pipe p (\<lambda>y. y\<lparr>p_current_task := Some t\<rparr>) s;
          let s = on_dev (forM (\<lambda>i. do { _ \<leftarrow> lima_l2_cache_flush i; returnM () }) (p_l2_cache (pipe_of p s))) s;
          s \<leftarrow> v52_switch_vm p (t_vm x) s;
          let s = on_pipe p (\<lambda>y. y\<lparr>p_error := False\<rparr>) s;
          Some (Some f, on_dev (pipe_task_run p t) s)
        }))"

text \<open>
  \<open>R\<close> is what \<open>drm_sched_resubmit_jobs\<close> and \<open>drm_sched_start\<close> do, which call \<open>run_job\<close> again for
  the jobs that remain.
\<close>

definition v52_sched_handle_error_task ::
    "'k v52_kernel \<Rightarrow> (lima_pipe_id \<Rightarrow> ('k, 'w) v52_st \<Rightarrow> ('k, 'w) v52_st option) \<Rightarrow> lima_pipe_id \<Rightarrow> nat option \<Rightarrow> ('k, 'w) v52_st \<Rightarrow> ('k, 'w) v52_st option" where
  "v52_sched_handle_error_task K R p task s = do {
     let s = in_kernel (vk_sched_stop K p) s;
     let s = (case task of None \<Rightarrow> s | Some t \<Rightarrow> in_kernel (vk_increase_karma K t) s);
     let s = on_dev (pipe_task_error p) s;
     let s = (case p_bcast_mmu (pipe_of p s) of
         Some m \<Rightarrow> on_dev (lima_mmu_page_fault_resume m) s
       | None \<Rightarrow> on_dev (forM lima_mmu_page_fault_resume (p_mmu (pipe_of p s))) s);
     s \<leftarrow> (case p_current_vm (pipe_of p s) of None \<Rightarrow> Some s | Some vm \<Rightarrow> lima_vm_put vm s);
     let s = on_pipe p (\<lambda>y. y\<lparr>p_current_vm := None, p_current_task := None\<rparr>) s;
     R p s
   }"

definition v52_sched_timedout_job ::
    "'k v52_kernel \<Rightarrow> (lima_pipe_id \<Rightarrow> ('k, 'w) v52_st \<Rightarrow> ('k, 'w) v52_st option) \<Rightarrow> lima_pipe_id \<Rightarrow> nat \<Rightarrow> ('k, 'w) v52_st \<Rightarrow> ('k, 'w) v52_st option" where
  "v52_sched_timedout_job K R p t s = v52_sched_handle_error_task K R p (Some t) s"

definition v52_sched_error_work ::
    "'k v52_kernel \<Rightarrow> (lima_pipe_id \<Rightarrow> ('k, 'w) v52_st \<Rightarrow> ('k, 'w) v52_st option) \<Rightarrow> lima_pipe_id \<Rightarrow> ('k, 'w) v52_st \<Rightarrow> ('k, 'w) v52_st option" where
  "v52_sched_error_work K R p s = v52_sched_handle_error_task K R p (p_current_task (pipe_of p s)) s"

definition pipe_task_fini :: "lima_pipe_id \<Rightarrow> unit hw" where
  "pipe_task_fini p = (case p of lima_pipe_gp \<Rightarrow> lima_gp_task_fini | lima_pipe_pp \<Rightarrow> lima_pp_task_fini)"

definition v52_sched_pipe_task_done :: "'k v52_kernel \<Rightarrow> lima_pipe_id \<Rightarrow> ('k, 'w) v52_st \<Rightarrow> ('k, 'w) v52_st option" where
  "v52_sched_pipe_task_done K p s =
     (if p_error (pipe_of p s) then Some (s\<lparr>us_error_work := (us_error_work s)(p := True)\<rparr>)
      else do {
        t \<leftarrow> p_current_task (pipe_of p s);
        Some (in_kernel (vk_fence_signal K (us_fence s t)) (on_dev (pipe_task_fini p) s))
      })"

section \<open>The life of a job\<close>

text \<open>
  Making a task takes a reference of each object and of the address space, and a block. Upstream
  forgets the references of the objects when \<open>drm_sched_job_init\<close> fails.
\<close>

lemma in_kernel_heap: "heap_wf (in_kernel f s) = heap_wf s" "heap_plain (in_kernel f s) = heap_plain s"
  by (simp_all add: in_kernel_def heap_wf_def heap_plain_def heap_others_def fence_wf_def kmem_wf_def vms_wf_def vm_wf_def)

lemma in_kernel_simps [simp]:
  "cs_dev (in_kernel f s) = cs_dev s" "vs_vms (in_kernel f s) = vs_vms s" "vs_bos (in_kernel f s) = vs_bos s"
  "cs_ctxs (in_kernel f s) = cs_ctxs s" "vrefs (in_kernel f s) = vrefs s" "brefs (in_kernel f s) = brefs s"
  by (simp_all add: in_kernel_def vrefs_def brefs_def fun_eq_iff)

lemma gem_gets_heap:
  assumes "heap_wf s" and "\<forall>b \<in> set bs. vs_bos s b \<noteq> None"
  shows "\<exists>s'. each drm_gem_object_get bs s = Some s' \<and> heap_wf s' \<and>
    brefs s' = (\<lambda>b. brefs s b + count_list bs b) \<and> beside_bos s s' \<and> task_of s' = task_of s"
  using assms
proof (induction bs arbitrary: s)
  case Nil
  then show ?case by (simp add: beside_bos_def)
next
  case (Cons b bs)
  from Cons.prems(2) obtain x where x: "vs_bos s b = Some x" by auto
  let ?s = "bo_upd b (x\<lparr>bo_refs := Suc (bo_refs x)\<rparr>) s"
  note h = bo_upd_heap [OF Cons.prems(1) x, of "x\<lparr>bo_refs := Suc (bo_refs x)\<rparr>"]
  have "\<forall>c \<in> set bs. vs_bos ?s c \<noteq> None" using Cons.prems(2) by (simp add: bo_upd_def)
  from Cons.IH [OF h(1) this] obtain s' where s': "each drm_gem_object_get bs ?s = Some s'" "heap_wf s'"
    "brefs s' = (\<lambda>c. brefs ?s c + count_list bs c)" "beside_bos ?s s'" "task_of s' = task_of ?s" by blast
  have "brefs ?s = (brefs s)(b := Suc (brefs s b))" using x by (auto simp: brefs_def bo_upd_def fun_eq_iff)
  moreover have "beside_bos s ?s" using h(2) by (simp add: beside_bos_def bo_upd_def)
  with s'(4) have "beside_bos s s'" by (simp add: beside_bos_def)
  moreover have "drm_gem_object_get b s = Some ?s" "task_of ?s = task_of s" using x by (simp_all add: drm_gem_object_get_def bo_upd_def)
  ultimately show ?case using s' by (auto simp: fun_eq_iff)
qed

lemma v52_task_init_heap:
  fixes s :: "('k, 'w) v52_st"
  assumes wf: "heap_wf s" and x: "task_of s t = Some x" and vm: "0 < vrefs s vm" and bos: "\<forall>b \<in> set bos. vs_bos s b \<noteq> None"
  shows "\<exists>err s'. v52_sched_task_init K t ctx bos vm s = Some (err, s') \<and> heap_wf s' \<and>
    (if err = 0
     then \<exists>y arr. task_of s' t = Some y \<and> t_bos y = bos \<and> t_bos_arr y = Some arr \<and> t_vm y = vm \<and> t_deps y = [] \<and>
       arr \<notin> heap_plain s \<and> heap_plain s' = insert arr (heap_plain s) \<and>
       brefs s' = (\<lambda>b. brefs s b + count_list bos b) \<and> vrefs s' = (vrefs s)(vm := Suc (vrefs s vm))
     else vrefs s' = vrefs s \<and> heap_plain s' = heap_plain s \<and>
       brefs s' = (if km_ok s (km_n s) then \<lambda>b. brefs s b + count_list bos b else brefs s))"
proof -
  obtain k a where a: "kzalloc s = (k, a)" by fastforce
  note h = kzalloc_heap [OF wf a] and as = kzalloc_same [OF a]
  have xa: "task_of a t = Some x" using x as(4) by simp
  show ?thesis
  proof (cases k)
    case None
    note ts = task_set_heap [OF h(1) xa]
    have "\<not> km_ok s (km_n s)" using a None by (auto simp: kzalloc_def split: if_splits)
    then show ?thesis
      using x a None ts as h(3) by (simp add: v52_sched_task_init_def) (simp add: task_set_def vrefs_def brefs_def fun_eq_iff)
  next
    case (Some arr)
    have mem: "km_ok s (km_n s)" using a Some by (auto simp: kzalloc_def split: if_splits)
    from gem_gets_heap [OF h(1), of bos] bos as(3) obtain b where b: "each drm_gem_object_get bos a = Some b" "heap_wf b"
      "brefs b = (\<lambda>o'. brefs a o' + count_list bos o')" "beside_bos a b" "task_of b = task_of a" by auto
    have plain: "heap_plain b = insert arr (heap_plain s)" "arr \<notin> heap_plain s"
      using b(4) h(3,4) Some by (auto simp: beside_bos_def heap_plain_def)
    obtain err u where ju: "vk_job_init K t ctx (us_kernel b) = (err, u)" by fastforce
    let ?c = "in_kernel (\<lambda>_. u) b"
    have wfc: "heap_wf ?c" "task_of ?c t = Some x" using b(2,5) xa by (simp_all add: in_kernel_heap)
    have vb: "vs_vms b = vs_vms s" using b(4) as(2) by (simp add: beside_bos_def)
    then have vrb: "vrefs b = vrefs s" by (simp add: vrefs_def fun_eq_iff)
    show ?thesis
    proof (cases "err = 0")
      case False
      let ?d = "task_set t (Some (x\<lparr>t_bos_arr := Some arr\<rparr>)) ?c"
      note ts = task_set_heap [OF wfc, of "x\<lparr>t_bos_arr := Some arr\<rparr>"]
      have "set_option (Some arr) \<subseteq> heap_plain ?d" using plain ts(2) by (simp add: in_kernel_heap)
      from kfree_heap [OF ts(1) this] obtain e where e: "kfree (Some arr) ?d = Some e" "heap_wf e"
        "e = ?d\<lparr>km_live := km_live ?d - set_option (Some arr)\<rparr>" "heap_plain e = heap_plain ?d - set_option (Some arr)" by blast
      have "vrefs e = vrefs ?d" "brefs e = brefs ?d" by (simp_all add: e(3) vrefs_def brefs_def fun_eq_iff)
      moreover have "vrefs ?d = vrefs s" "brefs ?d = brefs b"
        by (simp_all add: task_set_def vrb [symmetric]) (simp_all add: vrefs_def brefs_def fun_eq_iff)
      moreover have "heap_plain e = heap_plain s" using e(4) ts(2) plain by (simp add: in_kernel_heap)
      ultimately show ?thesis
        using False mem x a Some b(1,3) as(7,8) ju e(1,2) by (simp add: v52_sched_task_init_def in_kernel_def)
    next
      case True
      have "0 < vrefs ?c vm" using vm vrb by simp
      from vm_get_heap [OF wfc(1) this] obtain e where e: "lima_vm_get vm ?c = Some e" "heap_wf e"
        "vrefs e = (vrefs ?c)(vm := Suc (vrefs ?c vm))" "beside_vms ?c e" by blast
      let ?x = "x\<lparr>t_bos := bos, t_bos_arr := Some arr, t_vm := vm, t_deps := []\<rparr>"
      have xe: "task_of e t = Some x" using e(4) wfc(2) by (simp add: beside_vms_def)
      note ts = task_set_heap [OF e(2) xe, of ?x]
      have be: "brefs e = brefs b" using e(4) by (simp add: beside_vms_def brefs_def fun_eq_iff)
      have "v52_sched_task_init K t ctx bos vm s = Some (0, task_set t (Some ?x) e)"
        using True x a Some b(1) ju e(1) by (simp add: v52_sched_task_init_def in_kernel_def)
      moreover have "heap_plain (task_set t (Some ?x) e) = insert arr (heap_plain s)"
        using ts(2) e(4) plain by (simp add: beside_vms_def in_kernel_heap)
      moreover have "vrefs (task_set t (Some ?x) e) = vrefs e" "brefs (task_set t (Some ?x) e) = brefs e"
        by (simp_all add: task_set_def vrefs_def brefs_def fun_eq_iff)
      ultimately show ?thesis
        using ts(1) e(3) be b(3) as(8) vrb plain(2) by (intro exI [of _ 0] exI [of _ "task_set t (Some ?x) e"]) (simp, simp add: task_set_def)
    qed
  qed
qed

text \<open>
  Freeing a job takes a user from the mapping of each of its objects, which the submission added
  and which the backport never takes away (\<open>submitted_objects_stay_mapped\<close>).
\<close>

lemma bo_dels_heap:
  assumes "heap_wf s" and "\<forall>b \<in> set bs. \<exists>n. bo_users vm b s = Some n \<and> count_list bs b < unat n"
  shows "\<exists>s'. each (lima_vm_bo_del vm) bs s = Some s' \<and> heap_wf s' \<and> brefs s' = brefs s \<and> beside_bos s s' \<and>
    (\<forall>b. bo_users vm b s' = map_option (\<lambda>n. n - of_nat (count_list bs b)) (bo_users vm b s))"
  using assms
proof (induction bs arbitrary: s)
  case Nil
  then show ?case by (simp add: beside_bos_def option.map_ident)
next
  case (Cons c bs)
  then obtain b e where b: "vs_bos s c = Some b" "lima_vm_bo_find vm b = Some e" "Suc (count_list bs c) < unat (bv_ref_count e)"
    by (auto simp: bo_users_def split: bind_splits)
  let ?n = "bv_ref_count e - 1"
  let ?b = "b\<lparr>bo_va := va_update vm (\<lambda>e. e\<lparr>bv_ref_count := ?n\<rparr>) (bo_va b)\<rparr>"
  have n: "unat ?n = unat (bv_ref_count e) - 1" using b(3) by (intro unat_minus_one) auto
  then have "0 < unat ?n" using b(3) by simp
  then have "0 < ?n" by (simp only: unat_gt_0 word_gt_0)
  then have del: "lima_vm_bo_del vm c s = Some (bo_upd c ?b s)" using b(1,2) by (simp add: lima_vm_bo_del_def Let_def)
  have find: "lima_vm_bo_find vm ?b = Some (e\<lparr>bv_ref_count := ?n\<rparr>)" using b(2) by (rule find_va_update) simp
  have users: "bo_users vm a (bo_upd c ?b s) = map_option (\<lambda>n. n - of_bool (a = c)) (bo_users vm a s)" for a
    using b find by (simp add: bo_users_def bo_upd_def option.map_ident)
  note h = bo_upd_heap [OF Cons.prems(1) b(1), of ?b]
  have "\<exists>n. bo_users vm a (bo_upd c ?b s) = Some n \<and> count_list bs a < unat n" if a: "a \<in> set bs" for a
  proof (cases "a = c")
    case True
    then show ?thesis using b n users [of c] by (simp add: bo_users_def)
  next
    case False
    then show ?thesis using Cons.prems(2) a users [of a] by (auto simp: option.map_ident)
  qed
  with Cons.IH [OF h(1)] obtain s' where s': "each (lima_vm_bo_del vm) bs (bo_upd c ?b s) = Some s'" "heap_wf s'"
    "brefs s' = brefs (bo_upd c ?b s)" "beside_bos (bo_upd c ?b s) s'"
    "\<forall>a. bo_users vm a s' = map_option (\<lambda>n. n - of_nat (count_list bs a)) (bo_users vm a (bo_upd c ?b s))" by blast
  have "brefs (bo_upd c ?b s) = brefs s" using b(1) by (auto simp: brefs_def bo_upd_def fun_eq_iff)
  moreover have "beside_bos s (bo_upd c ?b s)" using h(2) by (simp add: beside_bos_def bo_upd_def)
  with s'(4) have "beside_bos s s'" by (simp add: beside_bos_def)
  moreover have "bo_users vm a s' = map_option (\<lambda>n. n - of_nat (count_list (c # bs) a)) (bo_users vm a s)" for a
    using s'(5) users [of a] by (cases "bo_users vm a s") (simp_all add: algebra_simps)
  ultimately show ?case using s'(1-3) del by simp
qed

lemma beside_bos_users:
  assumes "beside_bos s s'" and "each drm_gem_object_put bs s = Some s'" and "\<forall>b \<in> set bs. count_list bs b < brefs s b"
  shows "bo_users vm b s' = bo_users vm b s"
  using assms(2,3)
proof (induction bs arbitrary: s)
  case (Cons c bs)
  from Cons.prems(2) obtain x where x: "vs_bos s c = Some x" "Suc (count_list bs c) < bo_refs x"
    by (auto simp: brefs_def split: option.splits)
  let ?s = "bo_upd c (x\<lparr>bo_refs := bo_refs x - 1\<rparr>) s"
  have put: "drm_gem_object_put c s = Some ?s" using x by (simp add: drm_gem_object_put_def)
  have "\<forall>b \<in> set bs. count_list bs b < brefs ?s b" using Cons.prems(2) x by (auto simp: brefs_def bo_upd_def split: if_splits)
  with Cons.IH [of ?s] Cons.prems(1) put have "bo_users vm b s' = bo_users vm b ?s" by simp
  also have "\<dots> = bo_users vm b s" by (rule bo_users_va) (use x in \<open>simp add: bo_upd_def\<close>)
  finally show ?case .
qed simp

lemma v52_task_fini_heap:
  fixes s :: "('k, 'w) v52_st"
  assumes wf: "heap_wf s" and x: "task_of s t = Some x" and arr: "t_bos_arr x = Some arr" "arr \<in> heap_plain s"
    and refs: "\<forall>b \<in> set (t_bos x). count_list (t_bos x) b < brefs s b" "0 < vrefs s (t_vm x)"
  shows "\<exists>s'. v52_sched_task_fini K t s = Some s' \<and> heap_wf s' \<and> cs_dev s' = cs_dev s \<and>
    heap_plain s' = heap_plain s - {arr} \<and> brefs s' = (\<lambda>b. brefs s b - count_list (t_bos x) b) \<and>
    vrefs s' = (vrefs s)(t_vm x := vrefs s (t_vm x) - 1) \<and> (\<forall>vm b. bo_users vm b s' = bo_users vm b s)"
proof -
  let ?vm = "t_vm x" and ?bs = "t_bos x"
  let ?c = "in_kernel (\<lambda>k. fold (\<lambda>f. vk_fence_put K (Some f)) (t_deps x) (vk_job_cleanup K t k)) s"
  from gem_puts_heap [of ?c ?bs] wf refs(1) obtain d where d: "each drm_gem_object_put ?bs ?c = Some d" "heap_wf d"
    "brefs d = (\<lambda>b. brefs s b - count_list ?bs b)" "beside_bos ?c d" by (auto simp: in_kernel_heap)
  have ud: "bo_users vm b d = bo_users vm b s" for vm b
    using beside_bos_users [OF d(4,1), of vm b] refs(1) by (simp add: bo_users_def)
  have "set_option (Some arr) \<subseteq> heap_plain d" using arr(2) d(4) by (simp add: beside_bos_def in_kernel_heap)
  from kfree_heap [OF d(2) this] obtain e where e: "kfree (Some arr) d = Some e" "heap_wf e"
    "e = d\<lparr>km_live := km_live d - set_option (Some arr)\<rparr>" "heap_plain e = heap_plain d - set_option (Some arr)" by blast
  have vd: "vs_vms d = vs_vms s" "cs_dev d = cs_dev s" using d(4) by (simp_all add: beside_bos_def)
  have ve: "vrefs e = vrefs s" by (simp add: e(3) vrefs_def vd fun_eq_iff)
  with refs(2) vm_put_heap [OF e(2), of ?vm] obtain f where f: "lima_vm_put ?vm e = Some f" "heap_wf f"
    "vrefs f = (vrefs s)(?vm := vrefs s ?vm - 1)" "beside_vms e f" by auto
  have df: "cs_dev f = cs_dev s" "vs_bos f = vs_bos d" "heap_plain f = heap_plain s - {arr}"
    using f(4) e(3,4) vd d(4) by (simp_all add: beside_vms_def beside_bos_def in_kernel_heap)
  have fold: "in_kernel (\<lambda>k. fold (\<lambda>f. vk_fence_put K (Some f)) (t_deps x) k) (in_kernel (vk_job_cleanup K t) s) = ?c"
    by (simp add: in_kernel_def)
  have "v52_sched_task_fini K t s = Some f"
    using x arr(1) d(1) e(1) f(1) by (simp add: v52_sched_task_fini_def fold)
  moreover have "brefs f = brefs d" "bo_users vm b f = bo_users vm b d" for vm b
    by (simp_all add: brefs_def bo_users_def fun_eq_iff df)
  ultimately show ?thesis using f(2,3) df(1,3) d(3) ud by (intro exI [of _ f]) simp
qed

lemma v52_free_job_heap:
  fixes s :: "('k, 'w) v52_st"
  assumes wf: "heap_wf s" and x: "task_of s t = Some x" and arr: "t_bos_arr x = Some arr" "arr \<in> heap_plain s"
    and refs: "\<forall>b \<in> set (t_bos x). count_list (t_bos x) b < brefs s b" "0 < vrefs s (t_vm x)"
    and users: "\<forall>b \<in> set (t_bos x). \<exists>n. bo_users (t_vm x) b s = Some n \<and> count_list (t_bos x) b < unat n"
  shows "\<exists>s'. v52_sched_free_job K t s = Some s' \<and> heap_wf s' \<and> task_of s' = (task_of s)(t := None) \<and> t \<notin> km_live s' \<and>
    heap_plain s' = heap_plain s - {arr} \<and> brefs s' = (\<lambda>b. brefs s b - count_list (t_bos x) b) \<and>
    vrefs s' = (vrefs s)(t_vm x := vrefs s (t_vm x) - 1) \<and> bus_trace (cs_dev s') = bus_trace (cs_dev s) \<and>
    (\<forall>b. bo_users (t_vm x) b s' = map_option (\<lambda>n. n - of_nat (count_list (t_bos x) b)) (bo_users (t_vm x) b s))"
proof -
  let ?vm = "t_vm x" and ?bs = "t_bos x"
  let ?a = "in_kernel (vk_fence_put K (us_fence s t)) s"
  have ua: "bo_users ?vm b ?a = bo_users ?vm b s" for b by (simp add: bo_users_def)
  from bo_dels_heap [of ?a ?bs ?vm] wf users obtain b where b: "each (lima_vm_bo_del ?vm) ?bs ?a = Some b" "heap_wf b"
    "brefs b = brefs s" "beside_bos ?a b" "\<forall>c. bo_users ?vm c b = map_option (\<lambda>n. n - of_nat (count_list ?bs c)) (bo_users ?vm c s)"
    by (auto simp: in_kernel_heap ua)
  have xb: "task_of b t = Some x" "cs_dev b = cs_dev s" "vs_vms b = vs_vms s" "heap_plain b = heap_plain s"
    using b(4) x by (simp_all add: beside_bos_def in_kernel_heap)
  have "vrefs b = vrefs s" by (simp add: vrefs_def xb fun_eq_iff)
  with refs b(3) have rb: "\<forall>c \<in> set ?bs. count_list ?bs c < brefs b c" "0 < vrefs b ?vm" by simp_all
  have "arr \<in> heap_plain b" using arr(2) xb(4) by simp
  from v52_task_fini_heap [OF b(2) xb(1) arr(1) this rb, where K = K] obtain f where f: "v52_sched_task_fini K t b = Some f" "heap_wf f"
    "cs_dev f = cs_dev s" "heap_plain f = heap_plain s - {arr}" "brefs f = (\<lambda>b. brefs s b - count_list ?bs b)"
    "vrefs f = (vrefs s)(?vm := vrefs s ?vm - 1)" "\<forall>vm c. bo_users vm c f = bo_users vm c b"
    using b(3) xb \<open>vrefs b = vrefs s\<close> by auto
  have "task_of f t = Some x" using f(3) x by simp
  from task_freed_heap [OF f(2) this] obtain g where g: "kfree (Some t) (task_set t None f) = Some g" "heap_wf g"
    "heap_plain g = heap_plain f" "t \<notin> km_live g" "cs_dev g = (cs_dev f)\<lparr>dev_tasks := (task_of f)(t := None)\<rparr>"
    "vs_vms g = vs_vms f" "vs_bos g = vs_bos f" by blast
  have "v52_sched_free_job K t s = Some g" using x b(1) f(1) g(1) by (simp add: v52_sched_free_job_def)
  moreover have "brefs g = brefs f" "vrefs g = vrefs f" "bo_users ?vm c g = bo_users ?vm c f" for c
    by (simp_all add: brefs_def vrefs_def bo_users_def fun_eq_iff g)
  ultimately show ?thesis using g f b(5) by (intro exI [of _ g]) simp
qed

section \<open>The start of a job\<close>

definition l2_flush_writes :: "lima_device \<Rightarrow> lima_ip_id \<Rightarrow> (u32 \<times> u32) list" where
  "l2_flush_writes d i = [(ip_reg d i LIMA_L2_CACHE_COMMAND, LIMA_L2_CACHE_COMMAND_CLEAR_ALL)]"

lemma flush_writes:
  "io_only d (exec (lima_l2_cache_flush i) d)" "bus_writes (exec (lima_l2_cache_flush i) d) = bus_writes d @ l2_flush_writes d i"
proof -
  let ?d = "log_io (Wr (ip_reg d i LIMA_L2_CACHE_COMMAND) LIMA_L2_CACHE_COMMAND_CLEAR_ALL) d"
  let ?c = "\<lambda>v. v AND LIMA_L2_CACHE_STATUS_COMMAND_BUSY = 0"
  have run: "exec (lima_l2_cache_flush i) d = exec (readl_poll_timeout i LIMA_L2_CACHE_STATUS ?c) ?d"
    by (simp add: lima_l2_cache_flush_def lima_l2_cache_wait_idle_def hw_simps)
  note p = poll_timeout_frame [where i = i and reg = LIMA_L2_CACHE_STATUS and cond = ?c and d = ?d]
  show "io_only d (exec (lima_l2_cache_flush i) d)" unfolding run by (rule io_only_trans [OF io_only_log p(1)])
  show "bus_writes (exec (lima_l2_cache_flush i) d) = bus_writes d @ l2_flush_writes d i"
    unfolding run p(2) by (simp add: l2_flush_writes_def)
qed

lemma flush_all:
  "io_only d (exec (forM (\<lambda>i. do { _ \<leftarrow> lima_l2_cache_flush i; returnM () }) is) d) \<and>
   bus_writes (exec (forM (\<lambda>i. do { _ \<leftarrow> lima_l2_cache_flush i; returnM () }) is) d) = bus_writes d @ concat (map (l2_flush_writes d) is)"
proof (induction "is" arbitrary: d)
  case Nil
  then show ?case by simp
next
  case (Cons i "is")
  let ?d = "exec (lima_l2_cache_flush i) d"
  have "l2_flush_writes ?d = l2_flush_writes d"
    by (rule ext) (simp only: l2_flush_writes_def io_only_frame(11) [OF flush_writes(1)])
  with Cons [of ?d] show ?case by (auto simp: flush_writes(2) intro: io_only_trans [OF flush_writes(1)])
qed

text \<open>The MMUs that upstream drives: the one that reaches all, where there is one.\<close>

definition v52_mmus :: "lima_sched_pipe \<Rightarrow> lima_ip_id list" where
  "v52_mmus y = (case p_bcast_mmu y of Some m \<Rightarrow> [m] | None \<Rightarrow> p_mmu y)"

lemma v52_mmus_vm [simp]: "v52_mmus (y\<lparr>p_current_vm := m\<rparr>) = v52_mmus y"
  by (simp add: v52_mmus_def split: option.split)

lemma v52_mmus_run: "(case p_bcast_mmu y of Some m \<Rightarrow> on_dev (f m) s | None \<Rightarrow> on_dev (forM f (p_mmu y)) s) = on_dev (forM f (v52_mmus y)) s"
  by (simp add: v52_mmus_def on_dev_def split: option.split)

text \<open>References of address spaces: a pipe's current one holds one, which moves with it.\<close>

definition vrefs_moved :: "nat option \<Rightarrow> nat \<Rightarrow> (nat \<Rightarrow> nat) \<Rightarrow> nat \<Rightarrow> nat" where
  "vrefs_moved old new r = (if old = Some new then r
     else (case old of None \<Rightarrow> r(new := Suc (r new)) | Some l \<Rightarrow> r(new := Suc (r new), l := r l - 1)))"

lemma vrefs_dev [simp]: "vrefs (s\<lparr>cs_dev := d\<rparr>) = vrefs s"
  by (simp add: vrefs_def fun_eq_iff)

lemma v52_switch_heap:
  fixes s :: "('k, 'w) v52_st"
  assumes wf: "heap_wf s" and v: "vs_vms s vm = Some v" and old: "\<And>l. p_current_vm (pipe_of p s) = Some l \<Longrightarrow> 0 < vrefs s l"
  defines "same \<equiv> p_current_vm (pipe_of p s) = Some vm"
  shows "\<exists>s'. v52_switch_vm p vm s = Some s' \<and> heap_wf s' \<and> vrefs s' = vrefs_moved (p_current_vm (pipe_of p s)) vm (vrefs s) \<and>
    cs_dev s' = exec (forM (\<lambda>m. lima_mmu_switch_vm m (if same then None else Some (vm_pd_dma v))) (v52_mmus (pipe_of p s)))
      (if same then cs_dev s else pipe_upd p (\<lambda>y. y\<lparr>p_current_vm := Some vm\<rparr>) (cs_dev s)) \<and>
    cs_ctxs s' = cs_ctxs s \<and> fs_fences s' = fs_fences s"
proof (cases same)
  case True
  let ?d = "exec (forM (\<lambda>m. lima_mmu_switch_vm m None) (v52_mmus (pipe_of p s))) (cs_dev s)"
  have "dom (dev_tasks ?d) = dom (task_of s)"
    using io_only_frame(3) [OF conjunct1 [OF switch_all]] by (metis (no_types))
  from heap_dev [OF this wf] show ?thesis
    using True by (simp add: same_def v52_switch_vm_def v52_mmus_run on_dev_def vrefs_moved_def vrefs_def)
next
  case False
  have pos: "0 < vrefs s vm" using wf v by (auto simp: vrefs_def heap_wf_def vms_wf_def)
  from vm_get_heap [OF wf pos] obtain a where a: "lima_vm_get vm s = Some a" "heap_wf a"
    "vrefs a = (vrefs s)(vm := Suc (vrefs s vm))" "beside_vms s a" by blast
  have va: "\<exists>u. vs_vms a vm = Some u \<and> vm_pd_dma u = vm_pd_dma v" using a(1) v by (auto simp: lima_vm_get_def)
  have dev: "cs_dev a = cs_dev s" "cs_ctxs a = cs_ctxs s" "fs_fences a = fs_fences s" using a(4) by (simp_all add: beside_vms_def)
  let ?d0 = "pipe_upd p (\<lambda>y. y\<lparr>p_current_vm := Some vm\<rparr>) (cs_dev s)"
  let ?m = "forM (\<lambda>m. lima_mmu_switch_vm m (Some (vm_pd_dma v))) (v52_mmus (pipe_of p s))"
  let ?b = "a\<lparr>cs_dev := exec ?m ?d0\<rparr>"
  have "dom (dev_tasks (exec ?m ?d0)) = dom (task_of a)"
    using io_only_frame(3) [OF conjunct1 [OF switch_all]] dev by (simp add: dev)
  from heap_dev [OF this a(2)] have wfb: "heap_wf ?b" by blast
  have run: "v52_switch_vm p vm s = (case p_current_vm (pipe_of p s) of None \<Rightarrow> Some ?b | Some l \<Rightarrow> lima_vm_put l ?b)"
    using False a(1) va unfolding same_def v52_switch_vm_def
    by (auto simp: on_pipe_def v52_mmus_run dev) (auto simp: on_dev_def Let_def)
  show ?thesis
  proof (cases "p_current_vm (pipe_of p s)")
    case None
    then show ?thesis
      using run wfb False a(3) dev by (simp add: vrefs_moved_def)
  next
    case (Some l)
    have l: "l \<noteq> vm" "0 < vrefs ?b l" using False Some old [OF Some] a(3) by (auto simp: same_def)
    from vm_put_heap [OF wfb l(2)] obtain c where c: "lima_vm_put l ?b = Some c" "heap_wf c"
      "vrefs c = (vrefs ?b)(l := vrefs ?b l - 1)" "beside_vms ?b c" by blast
    then show ?thesis
      using run False Some a(3) dev l(1) by (simp add: vrefs_moved_def beside_vms_def same_def)
  qed
qed

text \<open>A device but for the history of its bus.\<close>

definition off_bus :: "lima_device \<Rightarrow> lima_device" where
  "off_bus d = d\<lparr>bus_trace := []\<rparr>"

lemma off_bus_io: "io_only d d' \<Longrightarrow> off_bus d' = off_bus d"
  by (auto simp: io_only_def off_bus_def)

lemma off_bus_pipe: "off_bus (pipe_upd p f d) = pipe_upd p f (off_bus d)"
  by (simp add: off_bus_def pipe_upd_def)

lemma pipe_upd_same: "f (dev_pipe d p) = dev_pipe d p \<Longrightarrow> pipe_upd p f d = d"
  by (simp add: pipe_upd_def fun_upd_idem)

lemma mmu_writes_cong: "ip_reg d = ip_reg e \<Longrightarrow> mmu_switch_writes d = mmu_switch_writes e"
  by (simp add: mmu_switch_writes_def [abs_def] fun_eq_iff split: option.split)

text \<open>
  The job as far as \<open>task_run\<close>: the device before the switch of the address space is \<open>e\<close>, up to the
  history of the bus.
\<close>

lemma v52_run_job_steps:
  fixes s :: "('k, 'w) v52_st"
  assumes wf: "heap_wf s" and mem: "km_ok s (km_n s)" and x: "task_of s t = Some x" and v: "vs_vms s (t_vm x) = Some v"
    and old: "\<forall>l. p_current_vm (pipe_of p s) = Some l \<longrightarrow> 0 < vrefs s l" and cur: "p_current_task (pipe_of p s) = Some t"
  defines "same \<equiv> p_current_vm (pipe_of p s) = Some (t_vm x)"
  obtains c e where
    "v52_sched_run_job K p t 0 s = Some (Some (km_n s), on_dev (pipe_task_run p t) (on_pipe p (\<lambda>y. y\<lparr>p_error := False\<rparr>) c))"
    and "heap_wf c" and "vrefs c = vrefs_moved (p_current_vm (pipe_of p s)) (t_vm x) (vrefs s)"
    and "io_only (cs_dev s) e" and "io_only (if same then e else pipe_upd p (\<lambda>y. y\<lparr>p_current_vm := Some (t_vm x)\<rparr>) e) (cs_dev c)"
    and "bus_writes (cs_dev c) = bus_writes (cs_dev s) @ concat (map (l2_flush_writes (cs_dev s)) (p_l2_cache (pipe_of p s))) @
      concat (map (mmu_switch_writes (cs_dev s) (if same then None else Some (vm_pd_dma v))) (v52_mmus (pipe_of p s)))"
proof -
  let ?vm = "t_vm x" and ?f = "km_n s" and ?y = "pipe_of p s" and ?d = "cs_dev s"
  let ?pd = "if same then None else Some (vm_pd_dma v)"
  obtain a where a: "kzalloc s = (Some ?f, a)" using mem by (simp add: kzalloc_def)
  note h = kzalloc_heap [OF wf a] and as = kzalloc_same [OF a]
  let ?fl = "forM (\<lambda>i. do { _ \<leftarrow> lima_l2_cache_flush i; returnM () }) (p_l2_cache ?y)"
  define b where "b = (in_kernel (vk_fence_get K ?f \<circ> vk_fence_init K ?f p (us_fence_context a p) (us_seqno a p + 1))
    (a\<lparr>us_seqno := (us_seqno a)(p := us_seqno a p + 1), us_fence := (us_fence a)(t := Some ?f)\<rparr>))\<lparr>cs_dev := exec ?fl ?d\<rparr>"
  have fl: "io_only ?d (exec ?fl ?d)" "bus_writes (exec ?fl ?d) = bus_writes ?d @ concat (map (l2_flush_writes ?d) (p_l2_cache ?y))"
    using flush_all by blast+
  note fr = io_only_frame [OF fl(1)]
  have same_pipe: "pipe_upd p (\<lambda>y. y\<lparr>p_current_task := Some t\<rparr>) ?d = ?d" using cur by (intro pipe_upd_same) simp
  have devb: "cs_dev b = exec ?fl ?d" "pipe_of p b = ?y" "vs_vms b = vs_vms s" "vrefs b = vrefs s"
    using fr as by (simp_all add: b_def in_kernel_def vrefs_def fun_eq_iff)
  have "dom (dev_tasks (exec ?fl ?d)) = dom (task_of a)" using fr(3) as(4) by simp
  from heap_dev [OF this h(1)] have wfb: "heap_wf b"
    by (simp add: b_def in_kernel_def heap_wf_def heap_others_def fence_wf_def kmem_wf_def vms_wf_def vm_wf_def)
  have up: "v52_sched_run_job K p t 0 s = do {
      s \<leftarrow> v52_switch_vm p ?vm b;
      Some (Some ?f, on_dev (pipe_task_run p t) (on_pipe p (\<lambda>y. y\<lparr>p_error := False\<rparr>) s)) }"
    using a x as(4) same_pipe
    by (simp add: v52_sched_run_job_def v52_fence_create_def Let_def b_def in_kernel_def on_pipe_def on_dev_def)
  from v52_switch_heap [OF wfb, of ?vm v p, unfolded devb(2-4)] v old obtain c where c: "v52_switch_vm p ?vm b = Some c" "heap_wf c"
    "vrefs c = vrefs_moved (p_current_vm ?y) ?vm (vrefs s)"
    and cb: "cs_dev c = exec (forM (\<lambda>m. lima_mmu_switch_vm m ?pd) (v52_mmus ?y))
      (if same then cs_dev b else pipe_upd p (\<lambda>y. y\<lparr>p_current_vm := Some ?vm\<rparr>) (cs_dev b))"
    unfolding same_def by blast
  let ?e = "if same then exec ?fl ?d else pipe_upd p (\<lambda>y. y\<lparr>p_current_vm := Some ?vm\<rparr>) (exec ?fl ?d)"
  have sw: "io_only ?e (cs_dev c)" "bus_writes (cs_dev c) = bus_writes ?e @ concat (map (mmu_switch_writes ?e ?pd) (v52_mmus ?y))"
    unfolding cb devb(1) using switch_all by blast+
  have "ip_reg ?e = ip_reg ?d" using fr(11) by simp
  then have "bus_writes (cs_dev c) = bus_writes ?d @ concat (map (l2_flush_writes ?d) (p_l2_cache ?y)) @
      concat (map (mmu_switch_writes ?d ?pd) (v52_mmus ?y))"
    using sw(2) fl(2) mmu_writes_cong [of ?e ?d] by (simp split del: if_split) simp
  with that [OF _ c(2,3) fl(1) sw(1)] up c(1) show thesis by simp
qed

text \<open>
  C5. The backport starts a task as upstream does, but for two omissions. In the same state both
  run \<open>task_run\<close> on the same device, up to the history of its bus. Before it upstream
  has flushed every L2 cache of the pipe and zapped the translations of every MMU, those of an
  unchanged address space too; the backport flushes no cache, and touches no MMU when the
  address space is the one before. And upstream moves the reference of the pipe from the address
  space before to that of the task, so that \<open>current_vm\<close> is never dangling; the backport takes
  none.
\<close>

theorem backport_starts_like_upstream:
  fixes s :: "('k, 'w) v52_st" and K p t
  defines "d \<equiv> cs_dev s" and "y \<equiv> pipe_of p s"
  assumes wf: "heap_wf s" and mem: "km_ok s (km_n s)" and x: "task_of s t = Some x" and v: "vs_vms s (t_vm x) = Some v"
    and old: "\<forall>l. p_current_vm y = Some l \<longrightarrow> 0 < vrefs s l"
    and ready: "p_current_task y = Some t" "\<not> p_error y" "pipe_task_validate p d t = 0" "dev_sched_timeout_ms d \<le> 0"
  shows "\<exists>f su sb du db. v52_sched_run_job K p t 0 s = Some (Some f, su) \<and> run_go Z p t 0 s = Some (False, sb) \<and>
    cs_dev su = exec (pipe_task_run p t) du \<and> cs_dev sb = exec (pipe_task_run p t) db \<and> off_bus du = off_bus db \<and>
    bus_writes du = bus_writes d @ concat (map (l2_flush_writes d) (p_l2_cache y)) @
      concat (map (mmu_switch_writes d (if p_current_vm y = Some (t_vm x) then None else Some (vm_pd_dma v))) (v52_mmus y)) \<and>
    bus_writes db = bus_writes d @ (if p_current_vm y = Some (t_vm x) then []
      else concat (map (mmu_switch_writes d (Some (vm_pd_dma v))) (p_mmu y))) \<and>
    vrefs su = vrefs_moved (p_current_vm y) (t_vm x) (vrefs s) \<and> vrefs sb = vrefs s \<and>
    heap_wf su \<and> 0 < vrefs su (t_vm x)"
proof -
  let ?vm = "t_vm x"
  let ?same = "p_current_vm y = Some ?vm"
  from v52_run_job_steps [OF wf mem x v, of p K] old ready(1) obtain c e where
    up: "v52_sched_run_job K p t 0 s = Some (Some (km_n s), on_dev (pipe_task_run p t) (on_pipe p (\<lambda>y. y\<lparr>p_error := False\<rparr>) c))"
    and c: "heap_wf c" "vrefs c = vrefs_moved (p_current_vm y) ?vm (vrefs s)"
    and e: "io_only d e" "io_only (if ?same then e else pipe_upd p (\<lambda>y. y\<lparr>p_current_vm := Some ?vm\<rparr>) e) (cs_dev c)"
    and writes: "bus_writes (cs_dev c) = bus_writes d @ concat (map (l2_flush_writes d) (p_l2_cache y)) @
      concat (map (mmu_switch_writes d (if ?same then None else Some (vm_pd_dma v))) (v52_mmus y))"
    unfolding d_def y_def by metis
  let ?du = "pipe_upd p (\<lambda>y. y\<lparr>p_error := False\<rparr>) (cs_dev c)" and ?db = "dev_switched p ?vm (vm_pd_dma v) d"
  let ?su = "on_dev (pipe_task_run p t) (on_pipe p (\<lambda>y. y\<lparr>p_error := False\<rparr>) c)"
  let ?sb = "s\<lparr>cs_dev := exec (pipe_task_run p t) ?db\<rparr>"
  have yd: "dev_pipe d p = y" by (simp add: y_def d_def)
  have "dev_sched_timeout_ms ?db \<le> 0"
    using ready(4) io_only_frame(10) [OF conjunct1 [OF switch_all]] by (simp add: dev_switched_def)
  then have "dev_started p t ?db = exec (pipe_task_run p t) ?db" by (simp add: dev_started_def)
  then have runb: "run_go Z p t 0 s = Some (False, ?sb)" using run_go_start [OF _ x v, of p Z] ready(3) by (simp add: d_def)
  have off: "off_bus ?du = off_bus ?db"
  proof -
    let ?z = "if ?same then d else pipe_upd p (\<lambda>y. y\<lparr>p_current_vm := Some ?vm\<rparr>) d"
    have "off_bus (cs_dev c) = off_bus ?z" using off_bus_io [OF e(2)] off_bus_io [OF e(1)] by (auto simp: off_bus_pipe)
    moreover have "off_bus ?db = off_bus ?z"
      using off_bus_io [OF conjunct1 [OF switch_all]] by (simp add: dev_switched_def yd off_bus_pipe)
    moreover have "pipe_upd p (\<lambda>y. y\<lparr>p_error := False\<rparr>) (off_bus ?z) = off_bus ?z"
      using ready(2) by (intro pipe_upd_same) (simp add: off_bus_def yd)
    ultimately show ?thesis by (simp add: off_bus_pipe)
  qed
  have "hw_keeps ?du (exec (pipe_task_run p t) ?du)" using keeps_pipe_ops(2) by (simp add: keeps_def)
  from hw_keeps_dom [OF this] have "dom (dev_tasks (exec (pipe_task_run p t) ?du)) = dom (task_of c)" by simp
  from heap_dev [OF this c(1)] have wfu: "heap_wf ?su" by (simp add: on_dev_def on_pipe_def)
  have "0 < vrefs s ?vm" using wf v by (auto simp: vrefs_def heap_wf_def vms_wf_def)
  then have "0 < vrefs ?su ?vm" using c(2) by (auto simp: on_dev_def on_pipe_def vrefs_moved_def split: option.split)
  then show ?thesis
    using up runb writes c(2) off wfu switched_spec(5) [of p ?vm "vm_pd_dma v" d]
    by (intro exI [of _ "km_n s"] exI [of _ ?su] exI [of _ ?sb] exI [of _ ?du] exI [of _ ?db])
      (simp add: on_dev_def on_pipe_def yd)
qed

section \<open>The error path\<close>

text \<open>An MMU whose status says, whenever it is read, that a page fault is active.\<close>

definition faulted :: "lima_device \<Rightarrow> lima_ip_id \<Rightarrow> bool" where
  "faulted d m \<longleftrightarrow> (\<forall>tr. bus_resp d tr (ip_reg d m LIMA_MMU_STATUS) AND LIMA_MMU_STATUS_PAGE_FAULT_ACTIVE \<noteq> 0)"

text \<open>An MMU that reports its faults again and translates through the empty address space.\<close>

definition recovered :: "lima_device \<Rightarrow> lima_ip_id \<Rightarrow> bool" where
  "recovered d m \<longleftrightarrow> last_write d (mask_of d m) = Some (LIMA_MMU_INT_PAGE_FAULT OR LIMA_MMU_INT_READ_BUS_ERROR) \<and>
     last_write d (ip_reg d m LIMA_MMU_DTE_ADDR) = Some (dev_empty_vm_pd d)"

lemma within_faulted: "within B d d' \<Longrightarrow> faulted d' m = faulted d m"
  using within_reg [of B d d'] by (simp add: faulted_def within_def)

lemma resume_recovers:
  assumes "faulted d m"
  shows "recovered (exec (lima_mmu_page_fault_resume m) d) m"
  using assms unfolding faulted_def
  by (simp add: recovered_def last_write_def lima_mmu_page_fault_resume_def hw_simps peek_def send_command_spec(2))
    (simp add: ip_reg_def regs)

lemma recovered_untouched:
  assumes "recovered d m" and u: "untouched m d d'" and same: "ip_reg d' = ip_reg d" "dev_empty_vm_pd d' = dev_empty_vm_pd d"
  shows "recovered d' m"
proof -
  from u obtain es where es: "bus_trace d' = es @ bus_trace d" "\<forall>e \<in> set es. \<forall>q < ip_size m. io_addr e \<noteq> ip_reg d m q"
    unfolding untouched_def by blast
  have "last_write d' (ip_reg d m r) = last_write d (ip_reg d m r)" if "r < ip_size m" for r
  proof -
    have "(ip_reg d m r, v) \<notin> set (writes es)" for v using es(2) that by (force simp: writes_set)
    then have "map_of (rev (writes es)) (ip_reg d m r) = None" by (auto simp: map_of_eq_None_iff)
    then show ?thesis by (simp add: last_write_def es(1) writes_append map_add_def)
  qed
  moreover have "LIMA_MMU_DTE_ADDR < ip_size m" by (rule small_reg) (simp add: regs)
  ultimately show ?thesis using assms(1) mask_lt same by (simp add: recovered_def)
qed

lemma keeps_resume [keeps_intros]: "keeps (lima_mmu_page_fault_resume m)"
  by (auto simp: lima_mmu_page_fault_resume_def lima_mmu_send_command_def intro!: keeps_intros)

lemma confined_UNIV: "confined w B m \<Longrightarrow> confined w UNIV m"
  by (auto simp: confined_def intro: within_mono)

lemma resume_all:
  assumes "fitted w d" and "\<forall>m \<in> set ms. placed d m" and "m \<in> set ms" and "faulted d m"
  shows "recovered (exec (forM lima_mmu_page_fault_resume ms) d) m"
  using assms
proof (induction ms arbitrary: d)
  case (Cons i ms)
  let ?d = "exec (lima_mmu_page_fault_resume i) d"
  have c: "confined w {i} (lima_mmu_page_fault_resume i)" for i by (rule mmu_ops_confined)
  have run: "within {i} d ?d" using c Cons.prems(1) by (auto simp: fitted_def intro: confinedD)
  have up: "fitted w ?d" "\<forall>m \<in> set ms. placed ?d m" "faulted ?d m" "placed ?d m"
    using within_fitted [OF run] within_placed [OF run] within_faulted [OF run] Cons.prems by auto
  have "recovered (exec (forM lima_mmu_page_fault_resume ms) ?d) m"
  proof (cases "m \<in> set ms")
    case True
    then show ?thesis by (rule Cons.IH [OF up(1,2) _ up(3)])
  next
    case False
    then have "recovered ?d m" using Cons.prems(3,4) resume_recovers by simp
    have "confined w (set ms) (forM lima_mmu_page_fault_resume ms)"
    proof (rule confined_forM)
      show "confined w (set ms) (lima_mmu_page_fault_resume i)" if "i \<in> set ms" for i
        using c [of i] that by (auto simp: confined_def intro: within_mono)
    qed
    then have rest: "within (set ms) ?d (exec (forM lima_mmu_page_fault_resume ms) ?d)"
      using up(1) by (auto simp: fitted_def intro: confinedD)
    with within_untouched [OF up(2,4) False rest] \<open>recovered ?d m\<close> show ?thesis
      by (auto simp: within_def intro: recovered_untouched within_reg [OF rest])
  qed
  then show ?case by simp
qed simp

text \<open>
  C34. Upstream's error path recovers the pipe. After an error, of a timeout or of an interrupt
  alike, and before the scheduler of the kernel goes on, the processors have been reset, every
  MMU of the pipe that reports a page fault has its interrupts enabled again and translates
  through the empty address space, the pipe has no task and no address space, so that the next
  task switches to its own, and the reference of the pipe has been given back. The backport's
  completion work has no such step (\<open>page_fault_masks_for_good\<close>).
\<close>

theorem upstream_error_recovers_mmus:
  fixes s :: "('k, 'w) v52_st" and p
  defines "d \<equiv> cs_dev s" and "y \<equiv> pipe_of p s"
  assumes wf: "heap_wf s" and up: "fitted w d" and old: "\<forall>l. p_current_vm y = Some l \<longrightarrow> 0 < vrefs s l"
    and mm: "\<forall>m \<in> set (v52_mmus y). placed d m"
  shows "\<exists>s'. v52_sched_handle_error_task K R p task s = R p s' \<and> heap_wf s' \<and>
    p_current_vm (pipe_of p s') = None \<and> p_current_task (pipe_of p s') = None \<and>
    vrefs s' = (case p_current_vm y of None \<Rightarrow> vrefs s | Some l \<Rightarrow> (vrefs s)(l := vrefs s l - 1)) \<and>
    (\<forall>m \<in> set (v52_mmus y). faulted d m \<longrightarrow> recovered (cs_dev s') m)"
proof -
  define k where "k = in_kernel (case task of None \<Rightarrow> vk_sched_stop K p | Some t \<Rightarrow> vk_increase_karma K t \<circ> vk_sched_stop K p) s"
  let ?d1 = "exec (pipe_task_error p) d"
  let ?d2 = "exec (forM lima_mmu_page_fault_resume (v52_mmus y)) ?d1"
  let ?a = "k\<lparr>cs_dev := ?d2\<rparr>"
  have run1: "within (op_units w (Reset p)) d ?d1"
    using op_confined [of w d "Reset p"] up by (auto simp: fitted_def intro: confinedD)
  have up1: "fitted w ?d1" "\<forall>m \<in> set (v52_mmus y). placed ?d1 m"
    using within_fitted [OF run1 up] within_placed [OF run1] mm by auto
  have rec: "recovered ?d2 m" if "m \<in> set (v52_mmus y)" "faulted d m" for m
    using resume_all [OF up1 that(1)] within_faulted [OF run1] that(2) by blast
  have "hw_keeps d ?d1" "hw_keeps ?d1 ?d2"
    using keeps_pipe_ops(1) hk.forM [where f = lima_mmu_page_fault_resume, OF keeps_resume] by (simp_all add: keeps_def)
  note hk = hw_keeps_trans [OF this]
  have "confined w UNIV (forM lima_mmu_page_fault_resume (v52_mmus y))"
    by (intro block_intros mmu_ops_confined(3) [THEN confined_UNIV])
  then have run2: "within UNIV ?d1 ?d2" using up1(1) by (auto simp: fitted_def intro: confinedD)
  have pipe: "v52_mmus (dev_pipe ?d1 p) = v52_mmus y" "p_current_vm (dev_pipe ?d2 p) = p_current_vm y"
    using run1 hk by (simp_all add: within_def hw_keeps_def v52_mmus_def y_def d_def split: option.split)
  have kk: "(case task of None \<Rightarrow> in_kernel (vk_sched_stop K p) s
      | Some t \<Rightarrow> in_kernel (vk_increase_karma K t) (in_kernel (vk_sched_stop K p) s)) = k"
    by (simp add: k_def in_kernel_def split: option.split)
  have k: "cs_dev k = d" "vs_vms k = vs_vms s" "vrefs k = vrefs s"
    by (simp_all add: k_def in_kernel_def d_def vrefs_def fun_eq_iff)
  have "heap_wf k"
    using wf by (simp add: k_def in_kernel_def heap_wf_def heap_others_def fence_wf_def kmem_wf_def vms_wf_def vm_wf_def)
  moreover have "dom (dev_tasks ?d2) = dom (task_of k)" using hw_keeps_dom [OF hk] by (simp add: k)
  ultimately have wfa: "heap_wf ?a" using heap_dev by blast
  define put where "put = (case p_current_vm y of None \<Rightarrow> Some ?a | Some vm \<Rightarrow> lima_vm_put vm ?a)"
  obtain b where b: "put = Some b" "heap_wf b" "cs_dev b = ?d2"
    "vrefs b = (case p_current_vm y of None \<Rightarrow> vrefs s | Some l \<Rightarrow> (vrefs s)(l := vrefs s l - 1))"
  proof (cases "p_current_vm y")
    case None
    then show thesis using that [of ?a] wfa by (simp add: put_def k(3))
  next
    case (Some l)
    then have "0 < vrefs ?a l" using old by (simp add: k(3))
    from vm_put_heap [OF wfa this] obtain c where "lima_vm_put l ?a = Some c" "heap_wf c"
      "vrefs c = (vrefs ?a)(l := vrefs ?a l - 1)" "beside_vms ?a c" by blast
    then show thesis using that [of c] Some by (simp add: put_def beside_vms_def k(3))
  qed
  let ?b = "on_pipe p (\<lambda>y. y\<lparr>p_current_vm := None, p_current_task := None\<rparr>) b"
  have "v52_sched_handle_error_task K R p task s = put \<bind> (\<lambda>s. R p (on_pipe p (\<lambda>y. y\<lparr>p_current_vm := None, p_current_task := None\<rparr>) s))"
    unfolding put_def v52_sched_handle_error_task_def Let_def kk v52_mmus_run
    by (cases "p_current_vm y") (simp_all add: on_dev_def k(1) pipe)
  then have "v52_sched_handle_error_task K R p task s = R p ?b" using b(1) by simp
  moreover have "heap_wf ?b" using heap_dev [OF _ b(2)] by (simp add: on_pipe_def)
  moreover have "recovered (cs_dev ?b) m = recovered ?d2 m" for m
    by (simp add: recovered_def last_write_def on_pipe_def b(3))
  ultimately show ?thesis
    using b(4) rec by (intro exI [of _ ?b]) (simp add: on_pipe_def vrefs_def [abs_def])
qed

section \<open>Concrete jobs\<close>

text \<open>
  The running task of \<open>sched_demo\<close> in an upstream driver, on a kernel without state: as it starts on
  a pipe with a cache and an MMU, and after a page fault on the device of the bring-up example.
\<close>

definition vk_demo :: "unit v52_kernel" where
  "vk_demo = \<lparr>vk_fence_init = (\<lambda>_ _ _ _ k. k), vk_fence_get = (\<lambda>_ k. k), vk_fence_put = (\<lambda>_ k. k), vk_fence_signal = (\<lambda>_ k. k),
     vk_call_rcu = (\<lambda>_ k. k), vk_context_alloc = Pair 1, vk_job_init = (\<lambda>_ _ k. (0, k)), vk_job_cleanup = (\<lambda>_ k. k),
     vk_job_finished = (\<lambda>t _. t), vk_entity_init = (\<lambda>_ _ _ k. (0, k)), vk_entity_fini = (\<lambda>_ k. k),
     vk_entity_push_job = (\<lambda>_ _ k. k), vk_sched_init = (\<lambda>_ _ _ k. (0, k)), vk_sched_fini = (\<lambda>_ k. k), vk_sched_stop = (\<lambda>_ k. k), vk_increase_karma = (\<lambda>_ k. k)\<rparr>"

definition v52_demo :: "lima_device \<Rightarrow> (unit, ww_demo) v52_st" where
  "v52_demo d = ctx_st.extend (sched_demo\<lparr>cs_dev := d\<rparr>) (v52_st.fields () (\<lambda>_. 0) (\<lambda>_. 0) (\<lambda>_. False) (\<lambda>_. None) True 1 (Outside, {}, 1))"

lemma v52_demo_fields [simp]:
  "cs_dev (v52_demo d) = d" "vs_vms (v52_demo d) = vs_vms sched_demo" "km_ok (v52_demo d) = km_ok sched_demo"
  "km_n (v52_demo d) = km_n sched_demo"
  by (simp_all add: v52_demo_def ctx_st.extend_def)

lemma v52_demo_wf: "dom (dev_tasks d) = dom (task_of sched_demo) \<Longrightarrow> heap_wf (v52_demo d)"
  using heap_dev [OF _ sched_demo_wf, of d]
  by (simp add: v52_demo_def ctx_st.extend_def v52_st.fields_def heap_wf_def heap_others_def fence_wf_def kmem_wf_def vms_wf_def vm_wf_def)

lemma fitted_cong:
  assumes "fitted w d" and "wr_tasks w = {}" and "dev_ip d' = dev_ip d" and "dev_id d' = dev_id d" and "dev_iomem d' = dev_iomem d"
    and "\<And>p. p_processor (dev_pipe d' p) = p_processor (dev_pipe d p)"
    and "\<And>p. p_bcast_processor (dev_pipe d' p) = p_bcast_processor (dev_pipe d p)"
    and "\<And>p. p_mmu (dev_pipe d' p) = p_mmu (dev_pipe d p)" and "\<And>p. p_current_task (dev_pipe d' p) = p_current_task (dev_pipe d p)"
  shows "fitted w d'"
  using assms by (simp add: fitted_def wired_def ips_ok_def gp_processor_def)

lemma vrefs_demo: "vrefs (v52_demo d) 5 = 1"
  by (simp add: vrefs_def vm_demo_def)

theorem backport_starts_like_upstream_witness:
  "\<exists>d f su sb. v52_sched_run_job vk_demo lima_pipe_gp 15 0 (v52_demo d) = Some (Some f, su) \<and>
     run_go (id, 0, 0) lima_pipe_gp 15 0 (v52_demo d) = Some (False, sb) \<and> vrefs su 5 = 2 \<and> vrefs sb 5 = 1"
proof -
  let ?d = "pipe_upd lima_pipe_gp (\<lambda>y. y\<lparr>p_mmu := [lima_ip_gpmmu], p_l2_cache := [lima_ip_l2_cache0]\<rparr>) (cs_dev sched_demo)"
  let ?x = "task_demo 14 16" and ?s = "v52_demo ?d"
  have t: "t_vm ?x = 5" by (simp add: task_demo_def)
  have x: "task_of ?s 15 = Some ?x" using sched_demo_task(1) by simp
  have y: "p_current_task (pipe_of lima_pipe_gp ?s) = Some 15" "\<not> p_error (pipe_of lima_pipe_gp ?s)"
    "p_current_vm (pipe_of lima_pipe_gp ?s) = None"
    using sched_demo_task by (simp_all add: sched_demo_def ctx_demo_defs dev_demo_def)
  have wf: "heap_wf ?s" by (rule v52_demo_wf) simp
  have mem: "km_ok ?s (km_n ?s)" by (simp add: sched_demo_def ctx_demo_defs)
  have v: "vs_vms ?s (t_vm ?x) = Some vm_demo" by (simp add: t)
  have dev: "pipe_task_validate lima_pipe_gp (cs_dev ?s) 15 = 0" "dev_sched_timeout_ms (cs_dev ?s) \<le> 0"
    using sched_demo_task(1)
    by (simp_all add: pipe_task_validate_def task_frame_def task_demo_def lima_gp_task_validate_def freg_def regs)
      (simp add: sched_demo_def ctx_demo_defs dev_demo_def)
  from backport_starts_like_upstream [OF wf mem x v _ y(1,2) dev, of vk_demo "(id, 0, 0)"] y(3) obtain f su sb where
    "v52_sched_run_job vk_demo lima_pipe_gp 15 0 ?s = Some (Some f, su)" "run_go (id, 0, 0) lima_pipe_gp 15 0 ?s = Some (False, sb)"
    "vrefs su = vrefs_moved None 5 (vrefs ?s)" "vrefs sb = vrefs ?s"
    by (auto simp: t)
  then show ?thesis
    using vrefs_demo [of ?d] by (intro exI [of _ ?d] exI [of _ f] exI [of _ su] exI [of _ sb]) (simp add: vrefs_moved_def)
qed

theorem upstream_error_recovers_mmus_witness:
  "\<exists>d s'. faulted d lima_ip_gpmmu \<and> v52_sched_error_work vk_demo (\<lambda>_. Some) lima_pipe_gp (v52_demo d) = Some s' \<and>
     recovered (cs_dev s') lima_ip_gpmmu"
proof -
  from boot_demo_runs obtain b where "lima_device_init sprd_gpu_domain_state boot_board boot_demo = Some (0, b)" by blast
  then have up: "dev_up (cs_dev b)" by (rule device_init_cases [OF boot_demo_fresh boot_board_ok]) simp_all
  let ?m = lima_ip_gpmmu
  let ?b = "(cs_dev b)\<lparr>bus_resp := \<lambda>_ _. - 1, dev_tasks := task_of sched_demo\<rparr>"
  let ?d = "pipe_upd lima_pipe_gp (\<lambda>y. y\<lparr>p_bcast_mmu := None, p_current_vm := Some 5\<rparr>) ?b"
  let ?w = "\<lparr>wr_pps = p_processor (dev_pipe (cs_dev b) lima_pipe_pp), wr_bcast = ip_present (dev_ip (cs_dev b) lima_ip_bcast), wr_tasks = {}\<rparr>"
  have w: "fitted ?w ?d"
    by (rule fitted_cong [OF brought_up_fitted [OF up]]) simp_all
  have "ip_present (dev_ip (cs_dev b) ?m)"
    using up by (cases "dev_id (cs_dev b)") (auto simp: dev_up_def LIMA_IP_DESC_def)
  then have "placed (cs_dev b) ?m" using up by (simp add: dev_up_def present_placed)
  then have pl: "placed ?d ?m" by (simp add: placed_def)
  have mm: "v52_mmus (dev_pipe ?d lima_pipe_gp) = [?m]"
    using up by (simp add: v52_mmus_def dev_up_def gp_pipe_up_def Let_def)
  have f: "faulted ?d ?m" by (simp add: faulted_def regs)
  have wf: "heap_wf (v52_demo ?d)" by (rule v52_demo_wf) simp
  from upstream_error_recovers_mmus [OF wf, of ?w lima_pipe_gp vk_demo "\<lambda>_. Some" "p_current_task (dev_pipe ?d lima_pipe_gp)"] w pl mm f
  obtain s' where "v52_sched_handle_error_task vk_demo (\<lambda>_. Some) lima_pipe_gp (p_current_task (dev_pipe ?d lima_pipe_gp)) (v52_demo ?d) = Some s'"
    "recovered (cs_dev s') ?m"
    using vrefs_demo [of ?d] by auto
  then show ?thesis using f by (intro exI [of _ ?d] exI [of _ s']) (simp add: v52_sched_error_work_def)
qed

end
