(* ===== verification/Lima_Job.thy ===== *)
theory Lima_Job
  imports Lima_Upstream
begin

text \<open>
  The submission of the upstream driver (\<open>lima_gem_submit\<close> of
  \<open>reference/v5.2/lima/lima_gem.c\<close>) and what becomes of its job: which references and users it
  takes, that it gives them back when it fails, and that the job gives back the rest. The last
  reference of an object is put by the backport's release of objects; no step here puts the last one.
\<close>

section \<open>Submission\<close>

text \<open>
  Of the kernel, in the order of the fields: the mutexes, the reservation object of a buffer object
  (\<open>gem.resv\<close>), the address of a context's entity for a pipe, sync objects (\<open>drm_syncobj_find\<close>,
  \<open>drm_syncobj_put\<close>, \<open>drm_syncobj_find_fence\<close> with its code and fence,
  \<open>drm_syncobj_replace_fence\<close>), the dependencies of a task (\<open>drm_gem_fence_array_add\<close> and
  \<open>drm_gem_fence_array_add_implicit\<close>, with their code and the new array), and reservation objects
  (\<open>reservation_object_reserve_shared\<close>, \<open>reservation_object_add_excl_fence\<close>,
  \<open>reservation_object_add_shared_fence\<close>).
\<close>

record ('k, 'w) v52_drm =
  vd_ww :: "'w ww_ops"
  vd_resv :: "nat \<Rightarrow> nat"
  vd_entity :: "nat \<Rightarrow> lima_pipe_id \<Rightarrow> nat"
  vd_syncobj_find :: "u32 \<Rightarrow> 'k \<Rightarrow> nat option \<times> 'k"
  vd_syncobj_put :: "nat \<Rightarrow> 'k \<Rightarrow> 'k"
  vd_syncobj_find_fence :: "u32 \<Rightarrow> 'k \<Rightarrow> (int \<times> nat) \<times> 'k"
  vd_syncobj_replace_fence :: "nat \<Rightarrow> nat \<Rightarrow> 'k \<Rightarrow> 'k"
  vd_fence_array_add :: "nat list \<Rightarrow> nat \<Rightarrow> 'k \<Rightarrow> (int \<times> nat list) \<times> 'k"
  vd_fence_array_add_implicit :: "nat list \<Rightarrow> nat \<Rightarrow> bool \<Rightarrow> 'k \<Rightarrow> (int \<times> nat list) \<times> 'k"
  vd_reserve_shared :: "nat \<Rightarrow> 'k \<Rightarrow> int \<times> 'k"
  vd_add_excl_fence :: "nat \<Rightarrow> nat \<Rightarrow> 'k \<Rightarrow> 'k"
  vd_add_shared_fence :: "nat \<Rightarrow> nat \<Rightarrow> 'k \<Rightarrow> 'k"

text \<open>The dependencies: on the sync objects named by the arguments, and on the fences of an object.\<close>

fun v52_gem_add_deps ::
    "'k v52_kernel \<Rightarrow> ('k, 'w) v52_drm \<Rightarrow> nat \<Rightarrow> u32 list \<Rightarrow> ('k, 'w) v52_st \<Rightarrow> (int \<times> ('k, 'w) v52_st) option" where
  "v52_gem_add_deps K D t [] s = Some (0, s)"
| "v52_gem_add_deps K D t (h # hs) s =
     (if h = 0 then v52_gem_add_deps K D t hs s
      else (let ((err, f), s) = in_kernel_ret (vd_syncobj_find_fence D h) s in
        if err \<noteq> 0 then Some (err, s)
        else do {
          x \<leftarrow> task_of s t;
          let ((err, ds), s) = in_kernel_ret (vd_fence_array_add D (t_deps x) f) s;
          let s = task_set t (Some (x\<lparr>t_deps := ds\<rparr>)) s;
          if err \<noteq> 0 then Some (err, in_kernel (vk_fence_put K (Some f)) s) else v52_gem_add_deps K D t hs s
        }))"

definition v52_gem_sync_bo ::
    "('k, 'w) v52_drm \<Rightarrow> nat \<Rightarrow> nat \<Rightarrow> bool \<Rightarrow> bool \<Rightarrow> ('k, 'w) v52_st \<Rightarrow> (int \<times> ('k, 'w) v52_st) option" where
  "v52_gem_sync_bo D t bo wr explicit s =
     (let (err, s) = (if \<not> wr then in_kernel_ret (vd_reserve_shared D (vd_resv D bo)) s else (0, s)) in
      if err \<noteq> 0 then Some (err, s)
      else if explicit then Some (0, s)
      else do {
        x \<leftarrow> task_of s t;
        let ((err, ds), s) = in_kernel_ret (vd_fence_array_add_implicit D (t_deps x) bo wr) s;
        Some (err, task_set t (Some (x\<lparr>t_deps := ds\<rparr>)) s)
      })"

fun v52_sync_loop ::
    "('k, 'w) v52_drm \<Rightarrow> nat \<Rightarrow> bool \<Rightarrow> (nat \<times> bool) list \<Rightarrow> ('k, 'w) v52_st \<Rightarrow> (int \<times> ('k, 'w) v52_st) option" where
  "v52_sync_loop D t explicit [] s = Some (0, s)"
| "v52_sync_loop D t explicit ((bo, wr) # bos) s = do {
     (err, s) \<leftarrow> v52_gem_sync_bo D t bo wr explicit s;
     if err \<noteq> 0 then Some (err, s) else v52_sync_loop D t explicit bos s
   }"

text \<open>
  The loop that looks up and maps; it ends with the code and the objects found so far, the entries
  of the zeroed array that are not null.
\<close>

fun v52_lookup_loop ::
    "handles \<Rightarrow> nat \<Rightarrow> drm_lima_gem_submit_bo list \<Rightarrow> nat list \<Rightarrow> ('k, 'w) v52_st \<Rightarrow> (int \<times> nat list \<times> ('k, 'w) v52_st) option" where
  "v52_lookup_loop H vm [] lbos s = Some (0, lbos, s)"
| "v52_lookup_loop H vm (x # xs) lbos s = do {
     (obj, s) \<leftarrow> lima_gem_object_lookup H (sb_handle x) s;
     case obj of
       None \<Rightarrow> Some (- ENOENT, lbos, s)
     | Some bo \<Rightarrow> do {
         (err, s) \<leftarrow> lima_vm_bo_add vm bo False s;
         if err \<noteq> 0 then do { s \<leftarrow> drm_gem_object_put bo s; Some (err, lbos, s) }
         else v52_lookup_loop H vm xs (lbos @ [bo]) s
       }
   }"

text \<open>The mutexes, and the labels.\<close>

definition v52_lock :: "('k, 'w) v52_drm \<Rightarrow> nat list \<Rightarrow> ('k, 'w) v52_st \<Rightarrow> (int \<times> ('k, 'w) v52_st) option" where
  "v52_lock D lbos s = do {
     (err, w) \<leftarrow> lima_gem_lock_bos (vd_ww D) (map (vd_resv D) lbos) (us_ww s);
     Some (err, s\<lparr>us_ww := w\<rparr>)
   }"

definition v52_unlock :: "('k, 'w) v52_drm \<Rightarrow> nat list \<Rightarrow> ('k, 'w) v52_st \<Rightarrow> ('k, 'w) v52_st option" where
  "v52_unlock D lbos s = do {
     w \<leftarrow> lima_gem_unlock_bos (vd_ww D) (map (vd_resv D) lbos) (us_ww s);
     Some (s\<lparr>us_ww := w\<rparr>)
   }"

definition v52_err_out0 ::
    "('k, 'w) v52_drm \<Rightarrow> nat \<Rightarrow> nat list \<Rightarrow> nat option \<Rightarrow> int \<Rightarrow> ('k, 'w) v52_st \<Rightarrow> (int \<times> ('k, 'w) v52_st) option" where
  "v52_err_out0 D vm lbos out_sync err s = do {
     s \<leftarrow> each (\<lambda>bo s. do { s \<leftarrow> lima_vm_bo_del vm bo s; drm_gem_object_put bo s }) lbos s;
     Some (err, case out_sync of None \<Rightarrow> s | Some y \<Rightarrow> in_kernel (vd_syncobj_put D y) s)
   }"

definition v52_err_out1 ::
    "('k, 'w) v52_drm \<Rightarrow> nat \<Rightarrow> nat list \<Rightarrow> nat option \<Rightarrow> int \<Rightarrow> ('k, 'w) v52_st \<Rightarrow> (int \<times> ('k, 'w) v52_st) option" where
  "v52_err_out1 D vm lbos out_sync err s = do { s \<leftarrow> v52_unlock D lbos s; v52_err_out0 D vm lbos out_sync err s }"

definition v52_err_out2 ::
    "'k v52_kernel \<Rightarrow> ('k, 'w) v52_drm \<Rightarrow> nat \<Rightarrow> nat \<Rightarrow> nat list \<Rightarrow> nat option \<Rightarrow> int \<Rightarrow> ('k, 'w) v52_st \<Rightarrow> (int \<times> ('k, 'w) v52_st) option" where
  "v52_err_out2 K D t vm lbos out_sync err s = do { s \<leftarrow> v52_sched_task_fini K t s; v52_err_out1 D vm lbos out_sync err s }"

text \<open>
  From the queueing of the task on, and from its initialisation on. \<open>E\<close> is what the rest of the
  system does once the task is queued.
\<close>

definition v52_submit_queue ::
    "'k v52_kernel \<Rightarrow> ('k, 'w) v52_drm \<Rightarrow> (('k, 'w) v52_st \<Rightarrow> ('k, 'w) v52_st) \<Rightarrow> lima_submit \<Rightarrow> (nat \<times> bool) list \<Rightarrow> nat option
      \<Rightarrow> ('k, 'w) v52_st \<Rightarrow> (int \<times> ('k, 'w) v52_st) option" where
  "v52_submit_queue K D E sub bos out_sync s = do {
     let (f, s) = v52_sched_context_queue_task K (vd_entity D (su_ctx sub) (su_pipe sub)) (su_task sub) s;
     let s = in_kernel (fold (\<lambda>(bo, wr). if wr then vd_add_excl_fence D (vd_resv D bo) f
       else vd_add_shared_fence D (vd_resv D bo) f) bos) (E s);
     s \<leftarrow> v52_unlock D (map fst bos) s;
     s \<leftarrow> each drm_gem_object_put (map fst bos) s;
     let s = (case out_sync of None \<Rightarrow> s
       | Some y \<Rightarrow> in_kernel (vd_syncobj_put D y) (in_kernel (vd_syncobj_replace_fence D y f) s));
     Some (0, in_kernel (vk_fence_put K (Some f)) s)
   }"

definition v52_submit_task ::
    "'k v52_kernel \<Rightarrow> ('k, 'w) v52_drm \<Rightarrow> (('k, 'w) v52_st \<Rightarrow> ('k, 'w) v52_st) \<Rightarrow> nat \<Rightarrow> lima_submit \<Rightarrow> (nat \<times> bool) list \<Rightarrow> nat option
      \<Rightarrow> ('k, 'w) v52_st \<Rightarrow> (int \<times> ('k, 'w) v52_st) option" where
  "v52_submit_task K D E vm sub bos out_sync s = do {
     (err, s) \<leftarrow> v52_sched_task_init K (su_task sub) (vd_entity D (su_ctx sub) (su_pipe sub)) (map fst bos) vm s;
     if err \<noteq> 0 then v52_err_out1 D vm (map fst bos) out_sync err s
     else do {
       (err, s) \<leftarrow> v52_gem_add_deps K D (su_task sub) [su_in_sync0 sub, su_in_sync1 sub] s;
       if err \<noteq> 0 then v52_err_out2 K D (su_task sub) vm (map fst bos) out_sync err s
       else do {
         (err, s) \<leftarrow> v52_sync_loop D (su_task sub) (su_flags sub AND LIMA_SUBMIT_FLAG_EXPLICIT_FENCE \<noteq> 0) bos s;
         if err \<noteq> 0 then v52_err_out2 K D (su_task sub) vm (map fst bos) out_sync err s
         else v52_submit_queue K D E sub bos out_sync s
       }
     }
   }"

definition v52_gem_submit ::
    "'k v52_kernel \<Rightarrow> ('k, 'w) v52_drm \<Rightarrow> (('k, 'w) v52_st \<Rightarrow> ('k, 'w) v52_st) \<Rightarrow> handles \<Rightarrow> nat \<Rightarrow> lima_submit
      \<Rightarrow> ('k, 'w) v52_st \<Rightarrow> (int \<times> ('k, 'w) v52_st) option" where
  "v52_gem_submit K D E H vm sub s =
     (let (out_sync, s) = (if su_out_sync sub \<noteq> 0 then in_kernel_ret (vd_syncobj_find D (su_out_sync sub)) s else (None, s)) in
      if su_out_sync sub \<noteq> 0 \<and> out_sync = None then Some (- ENOENT, s)
      else do {
        (err, lbos, s) \<leftarrow> v52_lookup_loop H vm (su_bos sub) [] s;
        if err \<noteq> 0 then v52_err_out0 D vm lbos out_sync err s
        else do {
          (err, s) \<leftarrow> v52_lock D lbos s;
          if err \<noteq> 0 then v52_err_out0 D vm lbos out_sync err s
          else v52_submit_task K D E vm sub
            (zip lbos (map (\<lambda>x. sb_flags x AND LIMA_SUBMIT_BO_WRITE \<noteq> 0) (su_bos sub))) out_sync s
        }
      })"

section \<open>What stays\<close>

text \<open>The mutexes are only touched by their own functions.\<close>

lemma each_ww:
  assumes "\<And>x s s'. f x s = Some s' \<Longrightarrow> us_ww s' = us_ww s" and "each f xs s = Some s'"
  shows "us_ww s' = us_ww s"
  using assms(2) by (induction xs arbitrary: s) (auto dest: assms(1) split: bind_splits)

lemma ww_same:
  fixes s :: "('k, 'w) v52_st"
  shows "kfree p s = Some s' \<Longrightarrow> us_ww s' = us_ww s" and "kzalloc s = (k, s') \<Longrightarrow> us_ww s' = us_ww s"
    and "drm_gem_object_get bo s = Some s' \<Longrightarrow> us_ww s' = us_ww s" and "lima_vm_bo_del vm bo s = Some s' \<Longrightarrow> us_ww s' = us_ww s"
    and "lima_vm_get vm s = Some s' \<Longrightarrow> us_ww s' = us_ww s" and "dma_free_wc n d s = Some s' \<Longrightarrow> us_ww s' = us_ww s"
    and "us_ww (task_set t y s) = us_ww s" and "us_ww (in_kernel f s) = us_ww s" and "us_ww (bo_upd bo b s) = us_ww s"
  by (auto simp: kfree_def kzalloc_def drm_gem_object_get_def lima_vm_bo_del_def lima_vm_get_def dma_free_wc_def task_set_def
    in_kernel_def bo_upd_def vm_upd_def Let_def split: if_splits option.splits bind_splits)

lemma bts_ww: "each (free_bt v) js s = Some s' \<Longrightarrow> us_ww s' = us_ww (s :: ('k, 'w) v52_st)"
  by (rule each_ww) (auto simp: free_bt_def split: option.splits dest: ww_same(6))

lemma vm_put_ww: "lima_vm_put vm s = Some s' \<Longrightarrow> us_ww s' = us_ww (s :: ('k, 'w) v52_st)"
  by (auto simp: lima_vm_put_def lima_vm_release_def vm_upd_def dest!: ww_same(1,6) bts_ww split: if_splits bind_splits)

lemma puts_ww:
  fixes s :: "('k, 'w) v52_st"
  assumes "each drm_gem_object_put bs s = Some s'" and "\<forall>b \<in> set bs. count_list bs b < brefs s b"
  shows "us_ww s' = us_ww s"
  using assms
proof (induction bs arbitrary: s)
  case (Cons c bs)
  from Cons.prems(2) obtain x where x: "vs_bos s c = Some x" "Suc (count_list bs c) < bo_refs x"
    by (auto simp: brefs_def split: option.splits)
  let ?s = "bo_upd c (x\<lparr>bo_refs := bo_refs x - 1\<rparr>) s"
  have put: "drm_gem_object_put c s = Some ?s" using x by (simp add: drm_gem_object_put_def)
  have "\<forall>b \<in> set bs. count_list bs b < brefs ?s b" using Cons.prems(2) x by (auto simp: brefs_def bo_upd_def split: if_splits)
  with Cons.IH [of ?s] Cons.prems(1) put show ?case by (simp add: ww_same)
qed simp

lemma task_fini_ww:
  fixes s :: "('k, 'w) v52_st"
  assumes "v52_sched_task_fini K t s = Some s'" and "task_of s t = Some x" and "\<forall>b \<in> set (t_bos x). count_list (t_bos x) b < brefs s b"
  shows "us_ww s' = us_ww s"
  using assms by (auto simp: v52_sched_task_fini_def ww_same Let_def dest!: vm_put_ww ww_same(1) puts_ww split: bind_splits option.splits)

lemma free_job_ww:
  fixes s :: "('k, 'w) v52_st"
  assumes "v52_sched_free_job K t s = Some s'" and "task_of s t = Some x"
    and "heap_wf s" and "\<forall>b \<in> set (t_bos x). \<exists>n. bo_users (t_vm x) b s = Some n \<and> count_list (t_bos x) b < unat n"
    and "\<forall>b \<in> set (t_bos x). count_list (t_bos x) b < brefs s b"
  shows "us_ww s' = us_ww s"
proof -
  let ?a = "in_kernel (vk_fence_put K (us_fence s t)) s"
  from assms(1,2) obtain b c where b: "each (lima_vm_bo_del (t_vm x)) (t_bos x) ?a = Some b"
    "v52_sched_task_fini K t b = Some c" "kfree (Some t) (task_set t None c) = Some s'"
    by (auto simp: v52_sched_free_job_def Let_def split: bind_splits)
  have "bo_users (t_vm x) c ?a = bo_users (t_vm x) c s" for c by (simp add: bo_users_def)
  with bo_dels_heap [of ?a "t_bos x" "t_vm x"] assms(3,4) b(1) have "cs_dev b = cs_dev s" "brefs b = brefs s"
    by (auto simp: in_kernel_heap beside_bos_def)
  with task_fini_ww [OF b(2), of x] assms(2,5) have "us_ww c = us_ww b" by simp
  then show ?thesis using each_ww [OF ww_same(4) b(1)] ww_same(1) [OF b(3)] by (simp add: ww_same)
qed

section \<open>The ledger of a submission\<close>

text \<open>
  Where a submission on \<open>vm\<close> is, counted from the state \<open>r\<close>: it has taken \<open>g b\<close> references of the object
  \<open>b\<close> and added \<open>a b\<close> users to its mapping; \<open>V\<close> are the references of the address spaces and \<open>P\<close> the
  plain blocks.
\<close>

definition job_at ::
    "nat \<Rightarrow> ('k, 'w) v52_st \<Rightarrow> (nat \<Rightarrow> nat) \<Rightarrow> (nat \<Rightarrow> nat) \<Rightarrow> (nat \<Rightarrow> nat) \<Rightarrow> nat set \<Rightarrow> ('k, 'w) v52_st \<Rightarrow> bool" where
  "job_at vm r g a V P s \<longleftrightarrow> heap_wf s \<and> brefs s = (\<lambda>b. brefs r b + g b) \<and>
     (\<forall>b. bo_users vm b s = map_option (\<lambda>n. n + of_nat (a b)) (bo_users vm b r)) \<and> vrefs s = V \<and> heap_plain s = P"

lemma job_start: "heap_wf s \<Longrightarrow> job_at vm s (\<lambda>_. 0) (\<lambda>_. 0) (vrefs s) (heap_plain s) s"
  by (simp add: job_at_def option.map_ident)

lemma us_heap [simp]:
  "heap_wf (s\<lparr>us_kernel := k\<rparr>) = heap_wf s" "heap_wf (s\<lparr>us_ww := w\<rparr>) = heap_wf s"
  "heap_plain (s\<lparr>us_kernel := k\<rparr>) = heap_plain s" "heap_plain (s\<lparr>us_ww := w\<rparr>) = heap_plain s"
  "brefs (s\<lparr>us_kernel := k\<rparr>) = brefs s" "brefs (s\<lparr>us_ww := w\<rparr>) = brefs s"
  "vrefs (s\<lparr>us_kernel := k\<rparr>) = vrefs s" "vrefs (s\<lparr>us_ww := w\<rparr>) = vrefs s"
  "bo_users vm b (s\<lparr>us_kernel := k\<rparr>) = bo_users vm b s" "bo_users vm b (s\<lparr>us_ww := w\<rparr>) = bo_users vm b s"
  by (simp_all add: heap_wf_def heap_plain_def heap_others_def fence_wf_def kmem_wf_def vms_wf_def vm_wf_def brefs_def vrefs_def
    bo_users_def fun_eq_iff)

lemma job_us [simp]:
  "job_at vm r g a V P (s\<lparr>us_kernel := k\<rparr>) = job_at vm r g a V P s" "job_at vm r g a V P (s\<lparr>us_ww := w\<rparr>) = job_at vm r g a V P s"
  "job_at vm r g a V P (in_kernel f s) = job_at vm r g a V P s"
  by (simp_all add: job_at_def in_kernel_def)

lemma job_task_set:
  assumes "job_at vm r g a V P s" and "task_of s t = Some x"
  shows "job_at vm r g a V P (task_set t (Some y) s)"
proof -
  have "brefs (task_set t (Some y) s) = brefs s" "vrefs (task_set t (Some y) s) = vrefs s"
    "bo_users vm b (task_set t (Some y) s) = bo_users vm b s" for b
    by (simp_all add: task_set_def brefs_def vrefs_def bo_users_def fun_eq_iff)
  then show ?thesis using assms task_set_heap [of s t x y] by (simp add: job_at_def)
qed

lemma job_bo_upd:
  assumes job: "job_at vm r g a V P s" and b: "vs_bos s bo = Some b" and refs: "bo_refs y = brefs r bo + g' bo"
    and users: "map_option bv_ref_count (lima_vm_bo_find vm y) = map_option (\<lambda>n. n + of_nat (a' bo)) (bo_users vm bo r)"
    and others: "\<And>c. c \<noteq> bo \<Longrightarrow> g' c = g c \<and> a' c = a c"
  shows "job_at vm r g' a' V P (bo_upd bo y s)"
proof -
  have "bo_users vm bo (bo_upd bo y s) = map_option bv_ref_count (lima_vm_bo_find vm y)"
    by (cases "lima_vm_bo_find vm y") (simp_all add: bo_users_def bo_upd_def)
  moreover have "bo_users vm c (bo_upd bo y s) = bo_users vm c s" if "c \<noteq> bo" for c using that by (simp add: bo_users_def bo_upd_def)
  moreover have "vrefs (bo_upd bo y s) = vrefs s" by (simp add: bo_upd_def vrefs_def fun_eq_iff)
  moreover have "brefs (bo_upd bo y s) = (\<lambda>c. brefs r c + g' c)"
    using job refs others by (auto simp: brefs_upd [OF b] job_at_def fun_eq_iff)
  ultimately show ?thesis
    using job bo_upd_heap [of s bo b y] b users others unfolding job_at_def by (metis (full_types))
qed

text \<open>The four steps on an object.\<close>

lemma job_users: "job_at vm r g a V P s \<Longrightarrow> bo_users vm bo r = Some n \<Longrightarrow> bo_users vm bo s = Some (n + of_nat (a bo))"
  by (simp add: job_at_def)

lemma users_bo:
  assumes "bo_users vm bo s = Some n"
  obtains b e where "vs_bos s bo = Some b" "lima_vm_bo_find vm b = Some e" "bv_ref_count e = n"
  using assms by (auto simp: bo_users_def split: bind_splits)

lemma job_get:
  assumes job: "job_at vm r g a V P s" and u: "bo_users vm bo r = Some n"
  obtains s' where "drm_gem_object_get bo s = Some s'" and "job_at vm r (g(bo := Suc (g bo))) a V P s'"
    and "us_ww s' = us_ww s" and "cs_dev s' = cs_dev s"
proof -
  from users_bo [OF job_users [OF job u]] obtain b e where b: "vs_bos s bo = Some b" "lima_vm_bo_find vm b = Some e"
    "bv_ref_count e = n + of_nat (a bo)" by blast
  have "bo_refs b = brefs r bo + g bo" using job b(1) by (auto simp: job_at_def brefs_def fun_eq_iff split: option.splits)
  then have "job_at vm r (g(bo := Suc (g bo))) a V P (bo_upd bo (b\<lparr>bo_refs := Suc (bo_refs b)\<rparr>) s)"
    using b u by (intro job_bo_upd [OF job b(1)]) (simp_all add: lima_vm_bo_find_def)
  then show thesis using that b(1) by (simp add: drm_gem_object_get_def bo_upd_def)
qed

lemma job_put:
  assumes job: "job_at vm r g a V P s" and u: "bo_users vm bo r = Some n" and g: "0 < g bo" "0 < brefs r bo"
  obtains s' where "drm_gem_object_put bo s = Some s'" and "job_at vm r (g(bo := g bo - 1)) a V P s'"
    and "us_ww s' = us_ww s" and "cs_dev s' = cs_dev s"
proof -
  from users_bo [OF job_users [OF job u]] obtain b e where b: "vs_bos s bo = Some b" "lima_vm_bo_find vm b = Some e"
    "bv_ref_count e = n + of_nat (a bo)" by blast
  have refs: "bo_refs b = brefs r bo + g bo" using job b(1) by (auto simp: job_at_def brefs_def fun_eq_iff split: option.splits)
  then have "job_at vm r (g(bo := g bo - 1)) a V P (bo_upd bo (b\<lparr>bo_refs := bo_refs b - 1\<rparr>) s)"
    using b u g by (intro job_bo_upd [OF job b(1)]) (simp_all add: lima_vm_bo_find_def)
  moreover have "bo_refs b \<noteq> 1" using refs g by simp
  ultimately show thesis using that b(1) by (simp add: drm_gem_object_put_def bo_upd_def)
qed

lemma job_add:
  assumes job: "job_at vm r g a V P s" and u: "bo_users vm bo r = Some n"
  obtains s' where "lima_vm_bo_add vm bo False s = Some (0, s')" and "job_at vm r g (a(bo := Suc (a bo))) V P s'"
    and "us_ww s' = us_ww s" and "cs_dev s' = cs_dev s"
proof -
  from users_bo [OF job_users [OF job u]] obtain b e where b: "vs_bos s bo = Some b" "lima_vm_bo_find vm b = Some e"
    "bv_ref_count e = n + of_nat (a bo)" by blast
  let ?b = "b\<lparr>bo_va := va_update vm (\<lambda>e. e\<lparr>bv_ref_count := bv_ref_count e + 1\<rparr>) (bo_va b)\<rparr>"
  have find: "lima_vm_bo_find vm ?b = Some (e\<lparr>bv_ref_count := bv_ref_count e + 1\<rparr>)" using b(2) by (rule find_va_update) simp
  have "bo_refs b = brefs r bo + g bo" using job b(1) by (auto simp: job_at_def brefs_def fun_eq_iff split: option.splits)
  then have "job_at vm r g (a(bo := Suc (a bo))) V P (bo_upd bo ?b s)"
    using b find u by (intro job_bo_upd [OF job b(1)]) (simp_all add: algebra_simps)
  then show thesis using that b(1,2) by (simp add: lima_vm_bo_add_def bo_upd_def)
qed

lemma job_del:
  assumes job: "job_at vm r g a V P s" and u: "bo_users vm bo r = Some n" and n: "0 < unat n" "unat n + a bo < 2 ^ 32" "0 < a bo"
  obtains s' where "lima_vm_bo_del vm bo s = Some s'" and "job_at vm r g (a(bo := a bo - 1)) V P s'"
    and "us_ww s' = us_ww s" and "cs_dev s' = cs_dev s"
proof -
  from users_bo [OF job_users [OF job u]] obtain b e where b: "vs_bos s bo = Some b" "lima_vm_bo_find vm b = Some e"
    "bv_ref_count e = n + of_nat (a bo)" by blast
  let ?n = "bv_ref_count e - 1"
  let ?b = "b\<lparr>bo_va := va_update vm (\<lambda>e. e\<lparr>bv_ref_count := ?n\<rparr>) (bo_va b)\<rparr>"
  have find: "lima_vm_bo_find vm ?b = Some (e\<lparr>bv_ref_count := ?n\<rparr>)" using b(2) by (rule find_va_update) simp
  have m: "?n = n + of_nat (a bo - 1)" using n(3) b(3) by (simp add: of_nat_diff)
  obtain k where k: "a bo = Suc k" using n(3) by (cases "a bo") auto
  have "unat (n + of_nat k) = unat n + k" using n(2) k by (simp add: unat_word_ariths unat_of_nat)
  then have "0 < unat ?n" using n(1) m k by simp
  then have pos: "0 < ?n" by (simp only: unat_gt_0 word_gt_0)
  have "bo_refs b = brefs r bo + g bo" using job b(1) by (auto simp: job_at_def brefs_def fun_eq_iff split: option.splits)
  then have "job_at vm r g (a(bo := a bo - 1)) V P (bo_upd bo ?b s)"
    using b find m u by (intro job_bo_upd [OF job b(1)]) simp_all
  then show thesis using that b(1,2) pos by (simp add: lima_vm_bo_del_def Let_def bo_upd_def)
qed

section \<open>The loops\<close>

text \<open>
  The handles name objects that are mapped in the file's address space; \<open>N\<close> more users of a mapping
  do not overflow its counter.
\<close>

definition handles_room :: "handles \<Rightarrow> nat \<Rightarrow> nat \<Rightarrow> ('k, 'w) v52_st \<Rightarrow> bool" where
  "handles_room H vm N r \<longleftrightarrow> (\<forall>h bo. H h = Some bo \<longrightarrow>
     0 < brefs r bo \<and> (\<exists>n. bo_users vm bo r = Some n \<and> 0 < unat n \<and> unat n + N < 2 ^ 32))"

definition named :: "nat \<Rightarrow> ('k, 'w) v52_st \<Rightarrow> nat \<Rightarrow> nat list \<Rightarrow> bool" where
  "named vm r N bos \<longleftrightarrow> length bos \<le> N \<and>
     (\<forall>bo \<in> set bos. 0 < brefs r bo \<and> (\<exists>n. bo_users vm bo r = Some n \<and> 0 < unat n \<and> unat n + N < 2 ^ 32))"

lemma v52_lookup_heap:
  assumes "job_at vm r g a V P s" and "handles_room H vm N r"
  shows "\<exists>err ns s'. v52_lookup_loop H vm xs lbos s = Some (err, lbos @ ns, s') \<and>
    job_at vm r (\<lambda>b. g b + count_list ns b) (\<lambda>b. a b + count_list ns b) V P s' \<and> us_ww s' = us_ww s \<and> cs_dev s' = cs_dev s \<and>
    set ns \<subseteq> ran H \<and> length ns \<le> length xs \<and> (err = 0 \<longrightarrow> map (\<lambda>x. H (sb_handle x)) xs = map Some ns)"
  using assms(1)
proof (induction xs arbitrary: lbos s g a)
  case Nil
  then show ?case by simp
next
  case (Cons x xs)
  show ?case
  proof (cases "H (sb_handle x)")
    case None
    then have "v52_lookup_loop H vm (x # xs) lbos s = Some (- ENOENT, lbos @ [], s)" by (simp add: lima_gem_object_lookup_def)
    then show ?thesis using Cons.prems by (intro exI [of _ "- ENOENT"] exI [of _ "[]"] exI [of _ s]) simp
  next
    case (Some bo)
    then obtain n where n: "bo_users vm bo r = Some n" using assms(2) unfolding handles_room_def by blast
    from job_get [OF Cons.prems n] obtain s1 where s1: "drm_gem_object_get bo s = Some s1"
      "job_at vm r (g(bo := Suc (g bo))) a V P s1" "us_ww s1 = us_ww s" "cs_dev s1 = cs_dev s" .
    from job_add [OF s1(2) n] obtain s2 where s2: "lima_vm_bo_add vm bo False s1 = Some (0, s2)"
      "job_at vm r (g(bo := Suc (g bo))) (a(bo := Suc (a bo))) V P s2" "us_ww s2 = us_ww s1" "cs_dev s2 = cs_dev s1" .
    from Cons.IH [OF s2(2), of "lbos @ [bo]"] obtain err ns s' where s': "v52_lookup_loop H vm xs (lbos @ [bo]) s2 = Some (err, lbos @ bo # ns, s')"
      "job_at vm r (\<lambda>b. (g(bo := Suc (g bo))) b + count_list ns b) (\<lambda>b. (a(bo := Suc (a bo))) b + count_list ns b) V P s'"
      "us_ww s' = us_ww s2" "cs_dev s' = cs_dev s2" "set ns \<subseteq> ran H" "length ns \<le> length xs"
      "err = 0 \<longrightarrow> map (\<lambda>x. H (sb_handle x)) xs = map Some ns" by auto
    have "(\<lambda>b. (f(bo := Suc (f bo))) b + count_list ns b) = (\<lambda>b. f b + count_list (bo # ns) b)" for f :: "nat \<Rightarrow> nat"
      by (simp add: fun_eq_iff)
    with s'(2) have "job_at vm r (\<lambda>b. g b + count_list (bo # ns) b) (\<lambda>b. a b + count_list (bo # ns) b) V P s'" by metis
    moreover have "v52_lookup_loop H vm (x # xs) lbos s = Some (err, lbos @ bo # ns, s')"
      using Some s1(1) s2(1) s'(1) by (simp add: lima_gem_object_lookup_def)
    ultimately show ?thesis using s1(3,4) s2(3,4) s'(3-7) Some
      by (intro exI [of _ err] exI [of _ "bo # ns"] exI [of _ s']) (auto intro: ranI)
  qed
qed

lemma v52_out0_heap:
  assumes "job_at vm r (\<lambda>b. g b + count_list bos b) (\<lambda>b. count_list bos b) V P s" and "named vm r N bos"
  shows "\<exists>s'. v52_err_out0 D vm bos out_sync err s = Some (err, s') \<and> job_at vm r g (\<lambda>_. 0) V P s' \<and> us_ww s' = us_ww s \<and> cs_dev s' = cs_dev s"
proof -
  have "\<exists>s'. each (\<lambda>bo s. do { s \<leftarrow> lima_vm_bo_del vm bo s; drm_gem_object_put bo s }) bos s = Some s' \<and>
      job_at vm r g (\<lambda>_. 0) V P s' \<and> us_ww s' = us_ww s \<and> cs_dev s' = cs_dev s"
    using assms
  proof (induction bos arbitrary: s)
    case Nil
    then show ?case by simp
  next
    case (Cons bo bos)
    then obtain n where n: "bo_users vm bo r = Some n" "0 < unat n" "unat n + N < 2 ^ 32" "0 < brefs r bo" by (auto simp: named_def)
    have "count_list (bo # bos) bo \<le> N" using Cons.prems(2) count_le_length [of "bo # bos" bo] by (simp add: named_def)
    then have room: "unat n + count_list (bo # bos) bo < 2 ^ 32" using n(3) by linarith
    have pos: "0 < count_list (bo # bos) bo" "0 < g bo + count_list (bo # bos) bo" by simp_all
    from job_del [OF Cons.prems(1) n(1,2) room pos(1)] obtain s1 where s1: "lima_vm_bo_del vm bo s = Some s1"
      "job_at vm r (\<lambda>b. g b + count_list (bo # bos) b) ((count_list (bo # bos))(bo := count_list (bo # bos) bo - 1)) V P s1"
      "us_ww s1 = us_ww s" "cs_dev s1 = cs_dev s" .
    from job_put [OF s1(2) n(1) pos(2) n(4)] obtain s2 where s2: "drm_gem_object_put bo s1 = Some s2"
      "job_at vm r ((\<lambda>b. g b + count_list (bo # bos) b)(bo := g bo + count_list (bo # bos) bo - 1))
        ((count_list (bo # bos))(bo := count_list (bo # bos) bo - 1)) V P s2" "us_ww s2 = us_ww s1" "cs_dev s2 = cs_dev s1" .
    have fn: "(\<lambda>b. g b + count_list (bo # bos) b)(bo := g bo + count_list (bo # bos) bo - 1) = (\<lambda>b. g b + count_list bos b)"
      "(count_list (bo # bos))(bo := count_list (bo # bos) bo - 1) = (\<lambda>b. count_list bos b)" by (auto simp: fun_eq_iff)
    have "named vm r N bos" using Cons.prems(2) by (simp add: named_def)
    from Cons.IH [OF s2(2) [unfolded fn] this] show ?case using s1 s2 by auto
  qed
  then show ?thesis unfolding v52_err_out0_def by (cases out_sync) (auto simp: ww_same)
qed

lemma job_puts:
  assumes "job_at vm r (\<lambda>b. g b + count_list bos b) a V P s" and "named vm r N bos"
  shows "\<exists>s'. each drm_gem_object_put bos s = Some s' \<and> job_at vm r g a V P s' \<and> us_ww s' = us_ww s \<and> cs_dev s' = cs_dev s"
  using assms
proof (induction bos arbitrary: s)
  case Nil
  then show ?case by simp
next
  case (Cons bo bos)
  then obtain n where n: "bo_users vm bo r = Some n" "0 < brefs r bo" by (auto simp: named_def)
  have pos: "0 < g bo + count_list (bo # bos) bo" by simp
  from job_put [OF Cons.prems(1) n(1) pos n(2)] obtain s1 where s1: "drm_gem_object_put bo s = Some s1"
    "job_at vm r ((\<lambda>b. g b + count_list (bo # bos) b)(bo := g bo + count_list (bo # bos) bo - 1)) a V P s1"
    "us_ww s1 = us_ww s" "cs_dev s1 = cs_dev s" .
  have fn: "(\<lambda>b. g b + count_list (bo # bos) b)(bo := g bo + count_list (bo # bos) bo - 1) = (\<lambda>b. g b + count_list bos b)"
    by (auto simp: fun_eq_iff)
  have "named vm r N bos" using Cons.prems(2) by (simp add: named_def)
  from Cons.IH [OF s1(2) [unfolded fn] this] show ?case using s1 by auto
qed

text \<open>The dependencies change the task's array and the kernel's state alone.\<close>

definition deps_only :: "nat \<Rightarrow> lima_sched_task \<Rightarrow> ('k, 'w) v52_st \<Rightarrow> ('k, 'w) v52_st \<Rightarrow> bool" where
  "deps_only t x s s' \<longleftrightarrow> (\<exists>ds k. s' = task_set t (Some (x\<lparr>t_deps := ds\<rparr>)) (s\<lparr>us_kernel := k\<rparr>))"

lemma deps_only_refl: "task_of s t = Some x \<Longrightarrow> deps_only t x (s :: ('k, 'w) v52_st) s"
  unfolding deps_only_def by (intro exI [of _ "t_deps x"] exI [of _ "us_kernel s"]) (simp add: task_set_def fun_upd_idem)

lemma deps_only_step:
  assumes "deps_only t x s a"
  shows "deps_only t x s (task_set t (Some (x\<lparr>t_deps := ds\<rparr>)) (a\<lparr>us_kernel := k\<rparr>))" (is ?A)
    and "deps_only t x s (a\<lparr>us_kernel := k\<rparr>)" (is ?B)
proof -
  from assms obtain es m where a: "a = task_set t (Some (x\<lparr>t_deps := es\<rparr>)) (s\<lparr>us_kernel := m\<rparr>)" unfolding deps_only_def by blast
  show ?A unfolding deps_only_def a by (intro exI [of _ ds] exI [of _ k]) (simp add: task_set_def)
  show ?B unfolding deps_only_def a by (intro exI [of _ es] exI [of _ k]) (simp add: task_set_def)
qed

lemmas deps_only_kernel = deps_only_step(2)

lemma deps_only_task: "deps_only t x s a \<Longrightarrow> \<exists>ds. task_of a t = Some (x\<lparr>t_deps := ds\<rparr>)"
  unfolding deps_only_def by (auto simp: task_set_def)

lemma ret_eq: "in_kernel_ret f s = (fst (f (us_kernel s)), s\<lparr>us_kernel := snd (f (us_kernel s))\<rparr>)"
  by (simp add: in_kernel_ret_def split: prod.split)

lemma add_deps_only:
  assumes "deps_only t x s a"
  shows "\<exists>err b. v52_gem_add_deps K D t hs a = Some (err, b) \<and> deps_only t x s b"
  using assms
proof (induction hs arbitrary: a)
  case Nil
  then show ?case by simp
next
  case (Cons h hs)
  obtain err f where e: "fst (vd_syncobj_find_fence D h (us_kernel a)) = (err, f)" by fastforce
  let ?a = "a\<lparr>us_kernel := snd (vd_syncobj_find_fence D h (us_kernel a))\<rparr>"
  have a: "deps_only t x s ?a" by (rule deps_only_kernel [OF Cons.prems])
  from deps_only_task [OF a] obtain ds where ds: "task_of ?a t = Some (x\<lparr>t_deps := ds\<rparr>)" by blast
  obtain err' ds' where e': "fst (vd_fence_array_add D ds f (us_kernel ?a)) = (err', ds')" by fastforce
  let ?b = "task_set t (Some (x\<lparr>t_deps := ds'\<rparr>)) (?a\<lparr>us_kernel := snd (vd_fence_array_add D ds f (us_kernel ?a))\<rparr>)"
  have b: "deps_only t x s ?b" by (rule deps_only_step(1) [OF a])
  have "deps_only t x s (in_kernel g ?b)" for g unfolding in_kernel_def by (rule deps_only_kernel [OF b])
  with Cons.IH [OF b] Cons.IH [OF Cons.prems] a ds e e' show ?case
    by (cases "h = 0"; cases "err = 0"; cases "err' = 0") (simp_all add: ret_eq)
qed

lemma sync_loop_only:
  assumes "deps_only t x s a"
  shows "\<exists>err b. v52_sync_loop D t explicit bos a = Some (err, b) \<and> deps_only t x s b"
  using assms
proof (induction bos arbitrary: a)
  case Nil
  then show ?case by simp
next
  case (Cons p bos)
  obtain bo wr where p: "p = (bo, wr)" by fastforce
  have "\<exists>err b. v52_gem_sync_bo D t bo wr explicit a = Some (err, b) \<and> deps_only t x s b"
  proof -
    define rs where "rs = (if \<not> wr then in_kernel_ret (vd_reserve_shared D (vd_resv D bo)) a else (0, a))"
    have a: "deps_only t x s (snd rs)" using deps_only_kernel [OF Cons.prems] Cons.prems by (simp add: rs_def ret_eq)
    from deps_only_task [OF this] obtain ds where ds: "task_of (snd rs) t = Some (x\<lparr>t_deps := ds\<rparr>)" by blast
    obtain err' ds' where e': "fst (vd_fence_array_add_implicit D ds bo wr (us_kernel (snd rs))) = (err', ds')" by fastforce
    let ?b = "task_set t (Some (x\<lparr>t_deps := ds'\<rparr>)) ((snd rs)\<lparr>us_kernel := snd (vd_fence_array_add_implicit D ds bo wr (us_kernel (snd rs)))\<rparr>)"
    have b: "deps_only t x s ?b" by (rule deps_only_step(1) [OF a])
    show ?thesis unfolding v52_gem_sync_bo_def rs_def [symmetric]
      using a b ds e' by (cases rs; cases "fst rs = 0"; cases explicit) (simp_all add: ret_eq)
  qed
  then obtain err b where "v52_gem_sync_bo D t bo wr explicit a = Some (err, b)" "deps_only t x s b" by blast
  with Cons.IH [of b] show ?case by (cases "err = 0") (simp_all add: p)
qed

section \<open>The task\<close>

lemma users_same: "vs_bos s' = vs_bos s \<Longrightarrow> bo_users vm b s' = bo_users vm b s"
  by (simp add: bo_users_def)

lemma gets_users:
  fixes s :: "('k, 'w) v52_st"
  assumes "each drm_gem_object_get bs s = Some s'"
  shows "bo_users vm b s' = bo_users vm b s"
  using assms
proof (induction bs arbitrary: s)
  case (Cons c bs)
  then obtain a where a: "drm_gem_object_get c s = Some a" "each drm_gem_object_get bs a = Some s'" by (auto split: bind_splits)
  then have "map_option bo_va (vs_bos a b) = map_option bo_va (vs_bos s b)"
    by (auto simp: drm_gem_object_get_def bo_upd_def split: bind_splits)
  then show ?case using Cons.IH [OF a(2)] bo_users_va by metis
qed simp

lemma task_init_keeps:
  fixes s :: "('k, 'w) v52_st"
  assumes "v52_sched_task_init K t ctx bos vm s = Some (err, s')"
  shows "us_ww s' = us_ww s" and "bo_users v b s' = bo_users v b s"
    and "km_ok s (km_n s) \<Longrightarrow> err \<noteq> 0 \<Longrightarrow> \<exists>k. fst (vk_job_init K t ctx k) \<noteq> 0"
proof -
  obtain k a where a: "kzalloc s = (k, a)" by fastforce
  note as = kzalloc_same [OF a] ww_same(2) [OF a]
  obtain x where x: "task_of s t = Some x" using assms by (auto simp: v52_sched_task_init_def split: bind_splits)
  have "us_ww s' = us_ww s \<and> bo_users v b s' = bo_users v b s \<and> (k \<noteq> None \<longrightarrow> err \<noteq> 0 \<longrightarrow> (\<exists>k. fst (vk_job_init K t ctx k) \<noteq> 0))"
  proof (cases k)
    case None
    then show ?thesis using assms x a as by (auto simp: v52_sched_task_init_def ww_same task_set_def intro!: users_same)
  next
    case (Some arr)
    then obtain c where c: "each drm_gem_object_get bos a = Some c" using assms x a by (auto simp: v52_sched_task_init_def split: bind_splits)
    obtain e u where ju: "vk_job_init K t ctx (us_kernel c) = (e, u)" by fastforce
    have "us_ww s' = us_ww c \<and> vs_bos s' = vs_bos c \<and> (err \<noteq> 0 \<longrightarrow> e \<noteq> 0)"
    proof (cases "e = 0")
      case True
      then obtain d where "lima_vm_get vm (c\<lparr>us_kernel := u\<rparr>) = Some d"
        "s' = task_set t (Some (x\<lparr>t_bos := bos, t_bos_arr := Some arr, t_vm := vm, t_deps := []\<rparr>)) d" "err = 0"
        using assms x a Some c ju by (auto simp: v52_sched_task_init_def split: bind_splits)
      then show ?thesis by (auto simp: lima_vm_get_def task_set_def vm_upd_def split: bind_splits)
    next
      case False
      then obtain d where "kfree (Some arr) (task_set t (Some (x\<lparr>t_bos_arr := Some arr\<rparr>)) (c\<lparr>us_kernel := u\<rparr>)) = Some d" "s' = d"
        using assms x a Some c ju by (auto simp: v52_sched_task_init_def split: bind_splits)
      then show ?thesis using False by (auto simp: kfree_def task_set_def split: if_splits)
    qed
    moreover have "us_ww c = us_ww s" using each_ww [OF ww_same(3) c] as by simp
    moreover have "bo_users v b c = bo_users v b s" using gets_users [OF c] users_same [of a s v b] as by simp
    moreover have "fst (vk_job_init K t ctx (us_kernel c)) = e" by (simp add: ju)
    ultimately show ?thesis using users_same [of s' c v b] by metis
  qed
  then show "us_ww s' = us_ww s" and "bo_users v b s' = bo_users v b s"
    and "km_ok s (km_n s) \<Longrightarrow> err \<noteq> 0 \<Longrightarrow> \<exists>k. fst (vk_job_init K t ctx k) \<noteq> 0"
    using a by (auto simp: kzalloc_def split: if_splits)
qed

text \<open>A task of the submission: its objects, the block of its array, its address space.\<close>

definition job_task :: "nat \<Rightarrow> nat \<Rightarrow> nat list \<Rightarrow> nat \<Rightarrow> ('k, 'w) v52_st \<Rightarrow> bool" where
  "job_task t vm bos arr s \<longleftrightarrow> (\<exists>y. task_of s t = Some y \<and> t_bos y = bos \<and> t_bos_arr y = Some arr \<and> t_vm y = vm)"

lemma job_task_init:
  assumes job: "job_at vm r g a V P s" and x: "task_of s t = Some x" and vm: "0 < V vm" and bos: "named vm r N bos"
  obtains (failed) err s' where "v52_sched_task_init K t ctx bos vm s = Some (err, s')" and "err \<noteq> 0" and "us_ww s' = us_ww s"
      and "job_at vm r g a V P s' \<or> (\<exists>k. fst (vk_job_init K t ctx k) \<noteq> 0) \<and> job_at vm r (\<lambda>b. g b + count_list bos b) a V P s'"
  | (made) arr s' where "v52_sched_task_init K t ctx bos vm s = Some (0, s')" and "us_ww s' = us_ww s" and "arr \<notin> P"
      and "job_task t vm bos arr s'" and "job_at vm r (\<lambda>b. g b + count_list bos b) a (V(vm := Suc (V vm))) (insert arr P) s'"
proof -
  have j: "heap_wf s" "brefs s = (\<lambda>b. brefs r b + g b)" "vrefs s = V" "heap_plain s = P"
    "\<And>b. bo_users vm b s = map_option (\<lambda>n. n + of_nat (a b)) (bo_users vm b r)"
    using job by (simp_all add: job_at_def)
  have "vs_bos s b \<noteq> None" if "b \<in> set bos" for b
  proof -
    from bos that obtain n where "bo_users vm b r = Some n" by (auto simp: named_def)
    from users_bo [OF job_users [OF job this]] show ?thesis by auto
  qed
  then have ex: "\<forall>b \<in> set bos. vs_bos s b \<noteq> None" by blast
  have "0 < vrefs s vm" using vm j(3) by simp
  from v52_task_init_heap [OF j(1) x this ex, of K ctx] obtain err s' where
    run: "v52_sched_task_init K t ctx bos vm s = Some (err, s')" and h: "heap_wf s'"
      "if err = 0
     then \<exists>y arr. task_of s' t = Some y \<and> t_bos y = bos \<and> t_bos_arr y = Some arr \<and> t_vm y = vm \<and> t_deps y = [] \<and>
       arr \<notin> heap_plain s \<and> heap_plain s' = insert arr (heap_plain s) \<and>
       brefs s' = (\<lambda>b. brefs s b + count_list bos b) \<and> vrefs s' = (vrefs s)(vm := Suc (vrefs s vm))
     else vrefs s' = vrefs s \<and> heap_plain s' = heap_plain s \<and>
       brefs s' = (if km_ok s (km_n s) then \<lambda>b. brefs s b + count_list bos b else brefs s)" by blast
  note k = task_init_keeps [OF run]
  show thesis
  proof (cases "err = 0")
    case True
    with h(2) obtain y arr where y: "task_of s' t = Some y" "t_bos y = bos" "t_bos_arr y = Some arr" "t_vm y = vm" "arr \<notin> P"
      "heap_plain s' = insert arr P" "brefs s' = (\<lambda>b. brefs s b + count_list bos b)" "vrefs s' = V(vm := Suc (V vm))"
      unfolding j(3,4) by auto
    then have "job_at vm r (\<lambda>b. g b + count_list bos b) a (V(vm := Suc (V vm))) (insert arr P) s'"
      using h(1) k(2) j(2,5) by (simp add: job_at_def add.assoc)
    then show thesis using made [of s' arr] run True k(1) y by (simp add: job_task_def)
  next
    case False
    with h(2) have f: "vrefs s' = V" "heap_plain s' = P"
      "brefs s' = (if km_ok s (km_n s) then \<lambda>b. brefs s b + count_list bos b else brefs s)" using j by auto
    have "job_at vm r g a V P s' \<or> (\<exists>k. fst (vk_job_init K t ctx k) \<noteq> 0) \<and> job_at vm r (\<lambda>b. g b + count_list bos b) a V P s'"
    proof (cases "km_ok s (km_n s)")
      case True
      then have "job_at vm r (\<lambda>b. g b + count_list bos b) a V P s'"
        using h(1) k(2) j(2,5) f by (simp add: job_at_def add.assoc)
      then show ?thesis using k(3) [OF True False] by blast
    next
      case False
      then show ?thesis using h(1) k(2) j(2,5) f by (simp add: job_at_def)
    qed
    then show thesis using failed run False k(1) by blast
  qed
qed

lemma job_fini:
  assumes job: "job_at vm r (\<lambda>b. g b + count_list bos b) a (V(vm := Suc (V vm))) (insert arr P) s" and y: "job_task t vm bos arr s"
    and arr: "arr \<notin> P" and bos: "named vm r N bos"
  obtains s' where "v52_sched_task_fini K t s = Some s'" and "us_ww s' = us_ww s" and "job_at vm r g a V P s'"
proof -
  from y obtain y where y: "task_of s t = Some y" "t_bos y = bos" "t_bos_arr y = Some arr" "t_vm y = vm" unfolding job_task_def by blast
  have j: "heap_wf s" "brefs s = (\<lambda>b. brefs r b + (g b + count_list bos b))" "vrefs s = V(vm := Suc (V vm))" "heap_plain s = insert arr P"
    "\<And>b. bo_users vm b s = map_option (\<lambda>n. n + of_nat (a b)) (bo_users vm b r)"
    using job by (simp_all add: job_at_def)
  have refs: "\<forall>b \<in> set (t_bos y). count_list (t_bos y) b < brefs s b" "0 < vrefs s (t_vm y)" "arr \<in> heap_plain s"
    using bos j y by (auto simp: named_def)
  from v52_task_fini_heap [OF j(1) y(1,3) refs(3,1,2), where K = K] obtain s' where s': "v52_sched_task_fini K t s = Some s'"
    "heap_wf s'" "heap_plain s' = heap_plain s - {arr}" "brefs s' = (\<lambda>b. brefs s b - count_list (t_bos y) b)"
    "vrefs s' = (vrefs s)(t_vm y := vrefs s (t_vm y) - 1)" "\<forall>v b. bo_users v b s' = bo_users v b s" by blast
  have "job_at vm r g a V P s'" using s' j y arr by (simp add: job_at_def fun_eq_iff)
  then show thesis using that [OF s'(1) task_fini_ww [OF s'(1) y(1) refs(1)]] by blast
qed

lemma job_free:
  assumes job: "job_at vm r (\<lambda>b. g b + count_list bos b) (count_list bos) (V(vm := Suc (V vm))) (insert arr P) s" and y: "job_task t vm bos arr s"
    and arr: "arr \<notin> P" and bos: "named vm r N bos"
  obtains s' where "v52_sched_free_job K t s = Some s'" and "us_ww s' = us_ww s" and "job_at vm r g (\<lambda>_. 0) V P s'" and "task_of s' t = None"
proof -
  from y obtain y where y: "task_of s t = Some y" "t_bos y = bos" "t_bos_arr y = Some arr" "t_vm y = vm" unfolding job_task_def by blast
  have j: "heap_wf s" "brefs s = (\<lambda>b. brefs r b + (g b + count_list bos b))" "vrefs s = V(vm := Suc (V vm))" "heap_plain s = insert arr P"
    "\<And>b. bo_users vm b s = map_option (\<lambda>n. n + of_nat (count_list bos b)) (bo_users vm b r)"
    using job by (simp_all add: job_at_def)
  have refs: "\<forall>b \<in> set (t_bos y). count_list (t_bos y) b < brefs s b" "0 < vrefs s (t_vm y)" "arr \<in> heap_plain s"
    using bos j y by (auto simp: named_def)
  have users: "\<forall>b \<in> set (t_bos y). \<exists>n. bo_users (t_vm y) b s = Some n \<and> count_list (t_bos y) b < unat n"
  proof
    fix b assume "b \<in> set (t_bos y)"
    with bos y(2) obtain n where n: "bo_users vm b r = Some n" "0 < unat n" "unat n + N < 2 ^ 32" by (auto simp: named_def)
    have "count_list bos b \<le> N" using bos count_le_length [of bos b] by (simp add: named_def)
    then have "unat (n + of_nat (count_list bos b)) = unat n + count_list bos b" using n(3) by (simp add: unat_word_ariths unat_of_nat)
    then show "\<exists>n. bo_users (t_vm y) b s = Some n \<and> count_list (t_bos y) b < unat n" using n(1,2) y j(5) by simp
  qed
  from v52_free_job_heap [OF j(1) y(1,3) refs(3,1,2) users, where K = K] obtain s' where s': "v52_sched_free_job K t s = Some s'"
    "heap_wf s'" "task_of s' = (task_of s)(t := None)" "heap_plain s' = heap_plain s - {arr}"
    "brefs s' = (\<lambda>b. brefs s b - count_list (t_bos y) b)" "vrefs s' = (vrefs s)(t_vm y := vrefs s (t_vm y) - 1)"
    "\<forall>b. bo_users (t_vm y) b s' = map_option (\<lambda>n. n - of_nat (count_list (t_bos y) b)) (bo_users (t_vm y) b s)" by blast
  have "bo_users vm b s' = bo_users vm b r" for b
    using s'(7) y j(5) by (cases "bo_users vm b r") simp_all
  then have "job_at vm r g (\<lambda>_. 0) V P s'" using s' j y arr by (simp add: job_at_def fun_eq_iff option.map_ident)
  then show thesis using that [OF s'(1) free_job_ww [OF s'(1) y(1) j(1) users refs(1)]] s'(3) by simp
qed

section \<open>The whole submission\<close>

lemma job_deps:
  assumes "deps_only t x s s'" and "task_of s t = Some x"
  shows "us_ww s' = us_ww s" and "job_at vm r g a V P s \<Longrightarrow> job_at vm r g a V P s'" and "job_task t v bos arr s \<Longrightarrow> job_task t v bos arr s'"
proof -
  from assms(1) obtain ds k where s': "s' = task_set t (Some (x\<lparr>t_deps := ds\<rparr>)) (s\<lparr>us_kernel := k\<rparr>)" unfolding deps_only_def by blast
  show "us_ww s' = us_ww s" by (simp add: s' task_set_def)
  show "job_at vm r g a V P s'" if "job_at vm r g a V P s"
    unfolding s' by (rule job_task_set [where x = x]) (use that assms(2) in simp_all)
  show "job_task t v bos arr s'" if "job_task t v bos arr s" using that assms(2) by (auto simp: s' job_task_def task_set_def)
qed

lemma v52_submit_task_cases:
  assumes job: "job_at vm r (count_list (map fst bos)) (count_list (map fst bos)) V P s" and x: "task_of s (su_task sub) = Some x"
    and vm: "0 < V vm" and bos: "named vm r N (map fst bos)"
    and ul: "lima_gem_unlock_bos (vd_ww D) (map (vd_resv D) (map fst bos)) (us_ww s) = Some u"
  obtains (failed) err s' where "\<And>E. v52_submit_task K D E vm sub bos out s = Some (err, s')" and "err \<noteq> 0" and "us_ww s' = u"
      and "job_at vm r (\<lambda>_. 0) (\<lambda>_. 0) V P s' \<or> (\<exists>k. fst (vk_job_init K (su_task sub) (vd_entity D (su_ctx sub) (su_pipe sub)) k) \<noteq> 0) \<and>
        job_at vm r (count_list (map fst bos)) (\<lambda>_. 0) V P s'"
  | (queued) arr s' where "\<And>E. v52_submit_task K D E vm sub bos out s = v52_submit_queue K D E sub bos out s'" and "us_ww s' = us_ww s"
      and "arr \<notin> P" and "job_task (su_task sub) vm (map fst bos) arr s'"
      and "job_at vm r (\<lambda>b. count_list (map fst bos) b + count_list (map fst bos) b) (count_list (map fst bos)) (V(vm := Suc (V vm))) (insert arr P) s'"
proof -
  let ?bs = "map fst bos" and ?t = "su_task sub" and ?e = "vd_entity D (su_ctx sub) (su_pipe sub)"
  have out1: "\<exists>s'. v52_err_out1 D vm ?bs out err a = Some (err, s') \<and> job_at vm r g (\<lambda>_. 0) V P s' \<and> us_ww s' = u"
    if "job_at vm r (\<lambda>b. g b + count_list ?bs b) (count_list ?bs) V P a" "us_ww a = us_ww s" for err a g
  proof -
    have "v52_unlock D ?bs a = Some (a\<lparr>us_ww := u\<rparr>)" using ul that(2) by (simp add: v52_unlock_def)
    moreover have "job_at vm r (\<lambda>b. g b + count_list ?bs b) (count_list ?bs) V P (a\<lparr>us_ww := u\<rparr>)" using that(1) by simp
    ultimately show ?thesis using v52_out0_heap [OF _ bos, of g V P "a\<lparr>us_ww := u\<rparr>" D out err] by (auto simp: v52_err_out1_def)
  qed
  show thesis
  proof (cases rule: job_task_init [OF job x vm bos, where K = K and ctx = ?e, case_names failed made])
    case (failed err a)
    from failed(4) show thesis
    proof (elim disjE conjE)
      assume "job_at vm r (count_list ?bs) (count_list ?bs) V P a"
      with out1 [of "\<lambda>_. 0" a err] failed(3) obtain s' where "v52_err_out1 D vm ?bs out err a = Some (err, s')"
        "job_at vm r (\<lambda>_. 0) (\<lambda>_. 0) V P s'" "us_ww s' = u" by auto
      then show thesis using that(1) [of err s'] failed(1,2) by (simp add: v52_submit_task_def)
    next
      assume i: "\<exists>k. fst (vk_job_init K ?t ?e k) \<noteq> 0"
        and "job_at vm r (\<lambda>b. count_list ?bs b + count_list ?bs b) (count_list ?bs) V P a"
      with out1 [of "count_list ?bs" a err] failed(3) obtain s' where "v52_err_out1 D vm ?bs out err a = Some (err, s')"
        "job_at vm r (count_list ?bs) (\<lambda>_. 0) V P s'" "us_ww s' = u" by auto
      then show thesis using that(1) [of err s'] failed(1,2) i by (simp add: v52_submit_task_def)
    qed
  next
    case (made arr a)
    have out2: "\<exists>s'. v52_err_out2 K D ?t vm ?bs out err b = Some (err, s') \<and> job_at vm r (\<lambda>_. 0) (\<lambda>_. 0) V P s' \<and> us_ww s' = u"
      if b: "job_at vm r (\<lambda>b. count_list ?bs b + count_list ?bs b) (count_list ?bs) (V(vm := Suc (V vm))) (insert arr P) b"
        "us_ww b = us_ww s" "job_task ?t vm ?bs arr b" for err b
    proof -
      from job_fini [OF b(1,3) made(3) bos, where K = K] obtain c where c: "v52_sched_task_fini K ?t b = Some c" "us_ww c = us_ww b"
        "job_at vm r (count_list ?bs) (count_list ?bs) V P c" .
      with out1 [of "\<lambda>_. 0" c err] b(2) show ?thesis by (auto simp: v52_err_out2_def)
    qed
    from made(4) obtain y where y: "task_of a ?t = Some y" by (auto simp: job_task_def)
    from add_deps_only [OF deps_only_refl [OF y], of K D "[su_in_sync0 sub, su_in_sync1 sub]"] obtain e1 b where
      b: "v52_gem_add_deps K D ?t [su_in_sync0 sub, su_in_sync1 sub] a = Some (e1, b)" "deps_only ?t y a b" by blast
    note kb = job_deps [OF b(2) y]
    show thesis
    proof (cases "e1 = 0")
      case False
      from out2 [OF kb(2) [OF made(5)] _ kb(3) [OF made(4)], of e1] kb(1) made(2) obtain s' where
        "v52_err_out2 K D ?t vm ?bs out e1 b = Some (e1, s')" "job_at vm r (\<lambda>_. 0) (\<lambda>_. 0) V P s'" "us_ww s' = u" by auto
      then show thesis using that(1) [of e1 s'] False made(1) b(1) by (simp add: v52_submit_task_def del: v52_gem_add_deps.simps)
    next
      case True
      let ?x = "su_flags sub AND LIMA_SUBMIT_FLAG_EXPLICIT_FENCE \<noteq> 0"
      from sync_loop_only [OF b(2), of D ?x bos] obtain e2 c where c: "v52_sync_loop D ?t ?x bos b = Some (e2, c)" "deps_only ?t y a c" by blast
      note kc = job_deps [OF c(2) y]
      show thesis
      proof (cases "e2 = 0")
        case False
        from out2 [OF kc(2) [OF made(5)] _ kc(3) [OF made(4)], of e2] kc(1) made(2) obtain s' where
          "v52_err_out2 K D ?t vm ?bs out e2 c = Some (e2, s')" "job_at vm r (\<lambda>_. 0) (\<lambda>_. 0) V P s'" "us_ww s' = u" by auto
        then show thesis using that(1) [of e2 s'] False True made(1) b(1) c(1) by (simp add: v52_submit_task_def del: v52_gem_add_deps.simps)
      next
        case e2: True
        then show thesis
          using that(2) [of c arr] True made b(1) c(1) kc by (simp add: v52_submit_task_def del: v52_gem_add_deps.simps)
      qed
    qed
  qed
qed

text \<open>The end of a submission, when whatever ran in between has left the references of the lookups.\<close>

lemma v52_submit_queue_ends:
  fixes s :: "('k, 'w) v52_st"
  assumes q: "q = snd (v52_sched_context_queue_task K (vd_entity D (su_ctx sub) (su_pipe sub)) (su_task sub) s)"
    and job: "job_at vm r (\<lambda>b. g b + count_list (map fst bos) b) a V P (E q)" and bos: "named vm r N (map fst bos)"
    and ul: "lima_gem_unlock_bos (vd_ww D) (map (vd_resv D) (map fst bos)) (us_ww (E q)) = Some u"
  shows "\<exists>s'. v52_submit_queue K D E sub bos out s = Some (0, s') \<and> job_at vm r g a V P s' \<and> us_ww s' = u \<and> task_of s' = task_of (E q)"
proof -
  let ?bs = "map fst bos"
  define f where "f = vk_job_finished K (su_task sub) (us_kernel s)"
  define a1 where "a1 = in_kernel (fold (\<lambda>(bo, wr). if wr then vd_add_excl_fence D (vd_resv D bo) f
       else vd_add_shared_fence D (vd_resv D bo) f) bos) (E q)"
  have a1: "us_ww a1 = us_ww (E q)" "cs_dev a1 = cs_dev (E q)" "job_at vm r (\<lambda>b. g b + count_list ?bs b) a V P (a1\<lparr>us_ww := u\<rparr>)"
    using job by (simp_all add: a1_def ww_same)
  from job_puts [OF a1(3) bos] obtain c where c: "each drm_gem_object_put ?bs (a1\<lparr>us_ww := u\<rparr>) = Some c" "job_at vm r g a V P c"
    "us_ww c = u" "cs_dev c = cs_dev a1" by auto
  define d where "d = (case out of None \<Rightarrow> c
       | Some y \<Rightarrow> in_kernel (vd_syncobj_put D y) (in_kernel (vd_syncobj_replace_fence D y f) c))"
  have d: "job_at vm r g a V P d" "us_ww d = u" "cs_dev d = cs_dev c"
    using c(2,3) by (simp_all add: d_def ww_same split: option.split)
  have "v52_sched_context_queue_task K (vd_entity D (su_ctx sub) (su_pipe sub)) (su_task sub) s = (f, q)"
    by (simp add: q f_def v52_sched_context_queue_task_def Let_def)
  then have "v52_submit_queue K D E sub bos out s = Some (0, in_kernel (vk_fence_put K (Some f)) d)"
    using ul a1(1) c(1) by (simp add: v52_submit_queue_def a1_def [symmetric] v52_unlock_def Let_def d_def)
  then show ?thesis using d a1(2) c(4) by (intro exI [of _ "in_kernel (vk_fence_put K (Some f)) d"]) (simp add: ww_same)
qed

text \<open>The pipe that finishes the job at once.\<close>

definition finished_job :: "'k v52_kernel \<Rightarrow> nat \<Rightarrow> ('k, 'w) v52_st \<Rightarrow> ('k, 'w) v52_st" where
  "finished_job K t s = (case v52_sched_free_job K t s of Some s' \<Rightarrow> s' | None \<Rightarrow> s)"

text \<open>
  The submission, for any \<open>E\<close>: refused before anything else than sync objects is touched or on the
  way, or queued.
\<close>

lemma v52_gem_submit_cases:
  fixes s :: "('k, 'w) v52_st"
  assumes K: "ww_contract (vd_ww D) view older" and w: "view (us_ww s) = (Outside, {})"
    and wf: "heap_wf s" and vm: "0 < vrefs s vm" and x: "task_of s (su_task sub) = Some x"
    and H: "handles_room H vm (length (su_bos sub)) s"
  obtains (failed) err s' where "\<And>E. v52_gem_submit K D E H vm sub s = Some (err, s')" and "err \<noteq> 0" and "view (us_ww s') = (Outside, {})"
      and "job_at vm s (\<lambda>_. 0) (\<lambda>_. 0) (vrefs s) (heap_plain s) s' \<or>
        (\<exists>k. fst (vk_job_init K (su_task sub) (vd_entity D (su_ctx sub) (su_pipe sub)) k) \<noteq> 0) \<and>
        job_at vm s (count_list (named_bos H sub)) (\<lambda>_. 0) (vrefs s) (heap_plain s) s'"
  | (queued) bos out arr u s' where "\<And>E. v52_gem_submit K D E H vm sub s = v52_submit_queue K D E sub bos out s'"
      and "map fst bos = named_bos H sub" and "named vm s (length (su_bos sub)) (map fst bos)"
      and "lima_gem_unlock_bos (vd_ww D) (map (vd_resv D) (map fst bos)) (us_ww s') = Some u" and "view u = (Outside, {})"
      and "arr \<notin> heap_plain s" and "job_task (su_task sub) vm (map fst bos) arr s'"
      and "job_at vm s (\<lambda>b. count_list (map fst bos) b + count_list (map fst bos) b) (count_list (map fst bos))
        ((vrefs s)(vm := Suc (vrefs s vm))) (insert arr (heap_plain s)) s'"
proof -
  let ?N = "length (su_bos sub)"
  define os where "os = (if su_out_sync sub \<noteq> 0 then in_kernel_ret (vd_syncobj_find D (su_out_sync sub)) s else (None, s))"
  obtain out a where os: "os = (out, a)" by fastforce
  have a: "us_ww a = us_ww s" "cs_dev a = cs_dev s" "job_at vm s (\<lambda>_. 0) (\<lambda>_. 0) (vrefs s) (heap_plain s) a"
    using os job_start [OF wf, of vm] by (auto simp: os_def ret_eq split: if_splits)
  show thesis
  proof (cases "su_out_sync sub \<noteq> 0 \<and> out = None")
    case True
    then show thesis using failed [of "- ENOENT" a] a w os by (simp add: v52_gem_submit_def os_def)
  next
    case False
    from v52_lookup_heap [OF a(3) H, of "su_bos sub" "[]"] obtain err ns b where b: "v52_lookup_loop H vm (su_bos sub) [] a = Some (err, ns, b)"
      "job_at vm s (count_list ns) (count_list ns) (vrefs s) (heap_plain s) b" "us_ww b = us_ww a" "cs_dev b = cs_dev a"
      "set ns \<subseteq> ran H" "length ns \<le> ?N" "err = 0 \<longrightarrow> map (\<lambda>x. H (sb_handle x)) (su_bos sub) = map Some ns" by auto
    have named: "named vm s ?N ns" using b(5,6) H by (force simp: named_def handles_room_def ran_def)
    have sub: "v52_gem_submit K D E H vm sub s = (if err \<noteq> 0 then v52_err_out0 D vm ns out err b
        else do {
          (err, s) \<leftarrow> v52_lock D ns b;
          if err \<noteq> 0 then v52_err_out0 D vm ns out err s
          else v52_submit_task K D E vm sub (zip ns (map (\<lambda>x. sb_flags x AND LIMA_SUBMIT_BO_WRITE \<noteq> 0) (su_bos sub))) out s
        })" for E using False b(1) os by (auto simp: v52_gem_submit_def os_def [symmetric])
    have out0: "\<exists>s'. v52_err_out0 D vm ns out e c = Some (e, s') \<and> job_at vm s (\<lambda>_. 0) (\<lambda>_. 0) (vrefs s) (heap_plain s) s' \<and> us_ww s' = us_ww c"
      if "job_at vm s (count_list ns) (count_list ns) (vrefs s) (heap_plain s) c" for e c
      using v52_out0_heap [OF _ named, of "\<lambda>_. 0"] that by fastforce
    show thesis
    proof (cases "err = 0")
      case False
      from out0 [OF b(2), of err] obtain s' where "v52_err_out0 D vm ns out err b = Some (err, s')"
        "job_at vm s (\<lambda>_. 0) (\<lambda>_. 0) (vrefs s) (heap_plain s) s'" "us_ww s' = us_ww b" by blast
      then show thesis using failed [of err s'] False sub a(1) b(3) w by simp
    next
      case True
      have ns: "named_bos H sub = ns" using b(7) True by (simp add: named_bos_def map_filter_all)
      have len: "length ns = ?N" using b(7) True by (metis length_map)
      obtain e v where v: "lima_gem_lock_bos (vd_ww D) (map (vd_resv D) ns) (us_ww b) = Some (e, v)"
        "if e = 0 then \<exists>u. lima_gem_unlock_bos (vd_ww D) (map (vd_resv D) ns) v = Some u \<and> view u = (Outside, {})
         else view v = (Outside, {})"
        using lock_bos_ends [OF K, of "us_ww b" "map (vd_resv D) ns"] w a(1) b(3) by auto
      let ?c = "b\<lparr>us_ww := v\<rparr>"
      have lock: "v52_lock D ns b = Some (e, ?c)" using v(1) by (simp add: v52_lock_def)
      have jc: "job_at vm s (count_list ns) (count_list ns) (vrefs s) (heap_plain s) ?c" using b(2) by simp
      show thesis
      proof (cases "e = 0")
        case False
        from out0 [OF jc, of e] obtain s' where "v52_err_out0 D vm ns out e ?c = Some (e, s')"
          "job_at vm s (\<lambda>_. 0) (\<lambda>_. 0) (vrefs s) (heap_plain s) s'" "us_ww s' = us_ww ?c" by blast
        then show thesis using failed [of e s'] False True sub lock v(2) by simp
      next
        case e: True
        from v(2) e obtain u where u: "lima_gem_unlock_bos (vd_ww D) (map (vd_resv D) ns) v = Some u" "view u = (Outside, {})" by auto
        define bos where "bos = zip ns (map (\<lambda>x. sb_flags x AND LIMA_SUBMIT_BO_WRITE \<noteq> 0) (su_bos sub))"
        have fst: "map fst bos = ns" using len by (simp add: bos_def)
        have run: "v52_gem_submit K D E H vm sub s = v52_submit_task K D E vm sub bos out ?c" for E
          using sub True e lock by (simp add: bos_def)
        have xc: "task_of ?c (su_task sub) = Some x" using x a(2) b(4) by simp
        have ul: "lima_gem_unlock_bos (vd_ww D) (map (vd_resv D) ns) (us_ww ?c) = Some u" using u(1) by simp
        show thesis
        proof (cases rule: v52_submit_task_cases [of vm s bos "vrefs s" "heap_plain s" ?c sub x ?N D u K out, unfolded fst,
            OF jc xc vm named ul, case_names failed queued])
          case (failed err' s')
          then show thesis using that(1) [of err' s'] run u(2) ns by simp
        next
          case (queued arr s')
          then show thesis using that(2) [of bos out s' u arr] run u fst ns named by simp
        qed
      qed
    qed
  qed
qed


section \<open>A concrete submission\<close>

text \<open>The submission of \<open>submit_demo\<close> in the upstream driver, on a kernel without state.\<close>

definition vd_demo :: "(unit, ww_demo) v52_drm" where
  "vd_demo = \<lparr>vd_ww = ww_demo, vd_resv = (\<lambda>b. b), vd_entity = (\<lambda>c p. c), vd_syncobj_find = (\<lambda>_ k. (None, k)), vd_syncobj_put = (\<lambda>_ k. k),
     vd_syncobj_find_fence = (\<lambda>_ k. ((- ENOENT, 0), k)), vd_syncobj_replace_fence = (\<lambda>_ _ k. k), vd_fence_array_add = (\<lambda>ds f k. ((0, ds @ [f]), k)),
     vd_fence_array_add_implicit = (\<lambda>ds _ _ k. ((0, ds), k)), vd_reserve_shared = (\<lambda>_ k. (0, k)),
     vd_add_excl_fence = (\<lambda>_ _ k. k), vd_add_shared_fence = (\<lambda>_ _ k. k)\<rparr>"

definition v52_submit_demo :: "(unit, ww_demo) v52_st" where
  "v52_submit_demo = ctx_st.extend submit_demo (v52_st.fields () (\<lambda>_. 0) (\<lambda>_. 0) (\<lambda>_. False) (\<lambda>_. None) True 1 (Outside, {}, 1))"

lemma v52_submit_demo_fields [simp]:
  "cs_dev v52_submit_demo = cs_dev submit_demo" "vs_vms v52_submit_demo = vs_vms submit_demo" "vs_bos v52_submit_demo = vs_bos submit_demo"
  "km_live v52_submit_demo = km_live submit_demo" "km_n v52_submit_demo = 30" "km_ok v52_submit_demo = (\<lambda>_. True)"
  "us_ww v52_submit_demo = (Outside, {}, 1)"
  by (simp_all add: v52_submit_demo_def ctx_st.extend_def v52_st.fields_def submit_demo_fields submit_demo_ok)

lemma v52_submit_demo_wf: "heap_wf v52_submit_demo"
  using submit_demo_ready
  by (simp add: submit_ready_def v52_submit_demo_def ctx_st.extend_def v52_st.fields_def heap_wf_def heap_others_def fence_wf_def kmem_wf_def
    vms_wf_def vm_wf_def)

lemma v52_submit_demo_front: "v52_gem_submit vk_demo vd_demo E handles_demo 5 submit_args v52_submit_demo =
    v52_submit_task vk_demo vd_demo E 5 submit_args [(9, False)] None
      (v52_submit_demo\<lparr>vs_bos := [9 \<mapsto> demo_bo 4 2 14], us_ww := (Acquired, {9}, 1)\<rparr>)"
  by (simp add: v52_gem_submit_def submit_args_def handles_demo_def submit_demo_bos lima_gem_object_lookup_def drm_gem_object_get_def
    bo_upd_def demo_bo_def lima_vm_bo_add_def lima_vm_bo_find_def LIMA_SUBMIT_BO_WRITE_def v52_lock_def lima_gem_lock_bos_def
    lock_bos_retry.simps vd_demo_def ww_demo_def)

lemma v52_submit_demo_runs: "\<exists>s'. v52_gem_submit vk_demo vd_demo (\<lambda>s. s) handles_demo 5 submit_args v52_submit_demo = Some (0, s')"
  unfolding v52_submit_demo_front
  by (simp add: v52_submit_task_def v52_submit_queue_def v52_sched_task_init_def v52_sched_context_queue_task_def submit_args_def
    kzalloc_def submit_demo_fields demo_bo_def drm_gem_object_get_def drm_gem_object_put_def bo_upd_def lima_vm_get_def vm_upd_def vm_demo_def
    task_set_def vd_demo_def vk_demo_def ww_demo_def v52_gem_sync_bo_def ret_eq in_kernel_def v52_unlock_def lima_gem_unlock_bos_def
    LIMA_SUBMIT_FLAG_EXPLICIT_FENCE_def Let_def)


end
