(* ===== verification/Spec2Isabelle.thy ===== *)
theory Spec2Isabelle
  imports Lima_Prime Lima_Live Lima_Smoke Lima_Job
begin

text \<open>
  A verification library for the lima driver: the DRM driver of the GPUs Mali-400 and Mali-450,
  backported from Linux 5.2 to the vendor kernel 3.10 of the SC7730SE. The files modelled are
  those of \<open>src-kernel/drivers/gpu/drm/lima\<close> with \<open>include/uapi/drm/lima_drm.h\<close>, the
  bring-up test \<open>tools/lima/lima_smoke.c\<close>, the two files of \<open>authored/\<close> that differ from
  their copies in \<open>src-kernel\<close> (\<open>lima_compat.h\<close> and \<open>lima_platform_sprd.c\<close>), and of the upstream
  driver in \<open>reference/v5.2\<close> the scheduler (\<open>lima_sched.c\<close>), which the backport replaced by its own,
  and the submission (in \<open>lima_gem.c\<close>), which it simplified and stripped of its locks.

  \<^bold>\<open>The program.\<close> A device has up to 27 IP blocks, of which the geometry processor, up to eight
  pixel processors and their MMUs do the work, in two pipes. A process opens the device and gets
  an address space (a page directory over 128 block tables of eight page tables each) and a table of
  contexts. It creates buffer objects, which are mapped into the address space when their handle
  is made. A submission names a pipe, a context, a frame (the register values of one job) and
  buffer objects; it becomes a task with a fence, depends on the fences that the objects'
  reservation objects hold, is put at the end of the queue of its pipe and becomes the exclusive
  writer of the objects. Each pipe has an ordered workqueue: the run work takes the first task,
  waits for its dependencies, switches the address space of the pipe's MMUs and writes the frame to
  the processors; their interrupts queue the completion work, which signals the fence, gives
  back what the task owned, resets the hardware after an error and queues the run work again.

  \<^bold>\<open>How it is modelled.\<close> There are two styles, after the two kinds of code.

  \<^item> Code on kernel objects (fences, address spaces, buffer objects, contexts, tasks) passes its
    state explicitly and returns an option: \<^term>\<open>None\<close> is what C leaves undefined or never
    returns from, the dereference of a freed or null object, a second free, a loop without end.
    That an operation returns is part of its theorem. The state is a chain of records, each
    theory adding what its component keeps: \<open>kmem\<close> (live blocks, allocation failures), fences,
    DMA memory, address spaces and objects, pages and bus mappings, contexts and the device,
    clocks and slabs. An operation works on every extension of the record it needs. Pointers
    are numbers of blocks, never used twice; every allocation may fail.

  \<^item> Code on registers is a state monad over \<open>lima_device\<close>, the structure of
    \<open>lima_device.h\<close> with the two pipes, the IP blocks, and a bus: a log of every read and
    write, and an arbitrary function that answers a read from the log. So every theorem holds for
    every behaviour of the hardware.

  A C \<open>int\<close> that carries a return code is an \<open>int\<close>; \<open>u32\<close> and \<open>u64\<close> are words and wrap
  around; an \<open>ERR_PTR\<close> is a sum. A pointer to a function in a pipe is a case distinction on the
  pipe. Loops are structural recursions, on the index or on a list; the loops that poll use
  \<open>partial_function\<close> or run over a clock that advances.

  \<^bold>\<open>The theories\<close>, in the order of their imports.

  \<^item> \<open>Lima_Prelude\<close>: machine integers, error numbers, fact collections, the monad, \<open>each\<close>
    (a loop over a list that may stop), lemmas on words.
  \<^item> \<open>Lima_Regs\<close> (\<open>lima_regs.h\<close>) and \<open>Lima_Uapi\<close> (\<open>lima_drm.h\<close>): offsets, bits, argument
    structures, frames as words.
  \<^item> \<open>Lima_Kref\<close>: blocks of memory, and the locale \<open>kref_store\<close>, the contract of a reference
    count (get and put on live objects return and move the count by one, on dead ones they do
    not return) with its consequences for loops of gets and puts. Fences, address spaces and
    fences inside the whole heap are its interpretations.
  \<^item> \<open>Lima_Fence\<close>, \<open>Lima_Resv\<close> (\<open>lima_compat.c\<close>, \<open>lima_compat*.h\<close>): the small replacements
    of \<open>dma_fence\<close> and \<open>reservation_object\<close>, waits, deadlines.
  \<^item> \<open>Lima_Dma\<close>, \<open>Lima_Pagetable\<close>, \<open>Lima_Vm\<close> (\<open>lima_vm.c\<close>, \<open>lima_vm.h\<close>): block tables,
    mappings of ranges, mappings of objects and their users, the address space invariant.
  \<^item> \<open>Lima_Object\<close>, \<open>Lima_Prime\<close> (\<open>lima_object.c\<close>, \<open>lima_gem_prime.c\<close>): pages of objects,
    import and export.
  \<^item> \<open>Lima_Types\<close>, \<open>Lima_Mmio\<close>, \<open>Lima_Blocks\<close>, \<open>Lima_Gp\<close>, \<open>Lima_Pp\<close>, \<open>Lima_Mmu\<close>,
    \<open>Lima_Frame\<close>: the device and the code on its registers; what that code leaves alone (locale
    \<open>hw_frame\<close>, interpreted on the fields the scheduler owns and on those the bring-up owns).
  \<^item> \<open>Lima_Platform\<close>, \<open>Lima_Device\<close>, \<open>Lima_Boot\<close> (\<open>lima_platform_sprd.c\<close>,
    \<open>lima_device.c\<close>): power domain, clocks, the table of blocks, bring-up and its error labels.
  \<^item> \<open>Lima_Ctx\<close>, \<open>Lima_Sched\<close>, \<open>Lima_Finish\<close>, \<open>Lima_Run\<close>, \<open>Lima_Order\<close> (\<open>lima_ctx.c\<close>,
    \<open>lima_sched.c\<close>): contexts, tasks, the three work functions, who owns what on the heap, and
    the step relation of all interleavings with the invariant of its reachable states.
  \<^item> \<open>Lima_Gem\<close>, \<open>Lima_Submit\<close>, \<open>Lima_Publish\<close> (\<open>lima_gem.c\<close>): handles, faults,
    the submission from its first check to the publication of its fence.
  \<^item> \<open>Lima_Drv\<close>, \<open>Lima_Entry\<close> (\<open>lima_drv.c\<close>): the ioctls, open and close, probe and
    remove.
  \<^item> \<open>Lima_Since\<close>, \<open>Lima_Owner\<close>, \<open>Lima_Live\<close>: the parts together. What a submission leaves
    as it was, whatever it returns; the references and blocks that all unfinished tasks and all
    reservation objects own at once, and that every operation keeps them; the runs of submissions
    of open files, work functions, interrupts and timeouts, in which every task is finished.
  \<^item> \<open>Lima_Isolation\<close>: the register blocks of the units do not overlap, and every operation of the
    running driver stays in the blocks of the units it is for. \<open>Lima_Fault\<close>: what follows for an MMU
    after a page fault, over all states of \<open>Lima_Order\<close>.
  \<^item> \<open>Lima_Upstream\<close> (\<open>reference/v5.2/lima/lima_sched.c\<close>): the upstream scheduler on the same
    device and heap, the start of a task compared with the backport's, its error path, the life of a
    job. \<open>Lima_Lock\<close>, \<open>Lima_Job\<close> (\<open>reference/v5.2/lima/lima_gem.c\<close>): the back-off loop of
    \<open>lima_gem_lock_bos\<close>, and the submission with its labels and the job it makes, up to its end.
  \<^item> \<open>Lima_Smoke\<close> (\<open>lima_smoke.c\<close>): the bring-up test over its system calls, and why its wait
    cannot pass on a device that has been up for a second.

  \<^bold>\<open>What the lemmas show.\<close> For address spaces: mapping and unmapping write exactly the entries
  of a range, the hardware's walk of the tables finds them, failures roll back, and the
  invariant \<open>space_inv\<close> (ranges disjoint, every mapping in its range and entered in the
  tables) is kept. For references: every operation returns in a well-formed heap and moves
  exactly the counts it should (\<open>heap_wf\<close>, \<open>task_owned\<close>, the ledgers). For the hardware: the
  writes and their order, for every answer of the bus. For the scheduler: order, counts of
  contexts, completion, rejection. For the entry points: all or nothing. For the
  whole driver: dependencies only point to tasks submitted before, over both pipes, so the oldest
  unfinished task never waits and, as long as the hardware answers or its timeout fires, every task
  is finished; no dependency and no object ever holds a freed fence. In these runs a submission is
  one step (the window inside it is the subject of \<open>early_finish_is_use_after_free\<close>) and open
  files keep their handles. For units: what an operation may access is a set of units, given per
  operation and combined along the code (\<open>confined\<close>, the set \<open>block_intros\<close>). Against upstream:
  both start a task on the same device but for the cache flushes and zaps, and only upstream
  brings an MMU back after a fault and takes away the users that a submission adds to a mapping
  (\<open>job_at\<close> counts what a submission holds at each of its steps). Lemmas whose names
  end in \<open>_heap\<close> say that an operation returns, keeps \<open>heap_wf\<close>, and what it changes; those in
  \<open>_effect\<close> what a run that returned has changed; those in \<open>_ledger\<close> what is given back.

  \<^bold>\<open>Parameters.\<close> What the driver calls and this repository does not contain is an argument of
  the model, with the documented behaviour it relies on as a named hypothesis:
  \<open>mm_contract\<close> (\<open>drm_mm\<close> hands out free ranges), \<open>dma_contract\<close> and \<open>map_contract\<close> (DMA
  memory and bus addresses), \<open>wait_contract\<close> (\<open>wait_event\<close>), \<open>idr_contract\<close> (identifiers),
  \<open>board_ok\<close> (clocks, regulator, interrupts, resources), \<open>platform_init_ok\<close>
  (\<open>drm_platform_init\<close>), \<open>user_mem_ok\<close> (copies from user space). The handle table of the DRM
  core is a function \<open>handles\<close>. Sleeps in \<open>lima_sched_context_fini\<close> are an arbitrary change of
  the state; so is \<open>E\<close> in \<open>lima_gem_submit\<close>, what other threads do between the queueing of a
  task and the publication of its fence. The upstream scheduler runs on the kernel's scheduler and
  fences: these are functions (\<open>v52_kernel\<close>, \<open>v52_drm\<close>) on an opaque part of the state, of which nothing is
  assumed; what the kernel does after the error path (\<open>drm_sched_resubmit_jobs\<close>,
  \<open>drm_sched_start\<close>) is an arbitrary continuation. The wound-wait mutexes are \<open>ww_ops\<close> with the rules
  of their documentation (\<open>ww_contract\<close>). Each hypothesis has a witness.

  \<^bold>\<open>Bounds and fuel.\<close> The loop of \<open>lima_vm_unmap_page_table\<close>, the power status loop and the
  loop of the run work are \<open>partial_function (option)\<close>; that the first returns below the last
  page and never in it, and when the second returns, are theorems. The register polls take the
  clock as a sequence that reaches the deadline. \<open>drain_loop\<close> has as fuel the number of sleeps, which a real sleep
  bounds by the deadline; no theorem needs more than none. The retry loop of \<open>lima_gem_lock_bos\<close> ends
  because a context is told to back off finitely often (\<open>older\<close> in \<open>ww_contract\<close>). For the interleavings the rounds of the
  run work are split where they sleep, in the wait for the dependencies.

  \<^bold>\<open>Not modelled.\<close> Messages, barriers and delays change no state. Locks are not modelled: an
  operation under a lock is one step, and \<open>Lima_Order\<close> interleaves the steps. The timing of a
  fence (\<open>timestamp_ns\<close> is set to the clock's value) and the order of wake-ups are the kernel's.
  The files of \<open>authored/\<close> other than the two named above are byte for byte those of
  \<open>src-kernel/\<close>. \<open>reference/v5.2\<close> is the upstream driver, which this repository does not
  build: its files for registers, processors, MMUs and page tables are those of the backport but for
  an include and the name of one kernel function, so they have no second model; its
  \<open>lima_device.c\<close>, \<open>lima_drv.c\<close>, \<open>lima_ctx.c\<close>, \<open>lima_object.c\<close> and the rest of \<open>lima_gem.c\<close> (handles, faults, wait) are
  the originals of files whose ported form is modelled. Tables of function pointers (\<open>lima_drm_driver\<close>, \<open>lima_ioctls\<close>), module parameters,
  Makefiles, device trees, patches and scripts have no behaviour of their own.
\<close>

end
